(* ===== verification/Prelude.thy ===== *)
theory Prelude
  imports Main "HOL-Library.Word" "HOL-Library.AList" "HOL-Library.Multiset"
begin

text \<open>
  Shared vocabulary of the development: the machine types of the Rust sources,
  results and state transformers with early return, checked and saturating
  arithmetic (the workspace is built with \<open>overflow-checks = true\<close>, so an
  overflowing operation panics), big-endian byte strings and a few generic
  facts on lists and association lists that several components use.
\<close>

section \<open>Machine types\<close>

type_synonym u8 = "8 word"
type_synonym u32 = "32 word"
type_synonym u64 = "64 word"
type_synonym u128 = "128 word"
type_synonym u256 = "256 word"
type_synonym h64 = "64 word"
type_synonym h160 = "160 word"
type_synonym hash = "256 word"
type_synonym bytes = "u8 list"

text \<open>
  \<open>H160\<close>, \<open>H256\<close> and the other fixed-size byte arrays are represented by the word
  whose big-endian bytes they are: equality and the derived (lexicographic) order
  of the arrays are equality and order of the words.
\<close>

section \<open>Named collections\<close>

named_theorems res_simps \<open>evaluation of results and state transformers\<close>
named_theorems arith_simps \<open>checked, saturating and wrapping arithmetic\<close>

section \<open>Results\<close>

definition res_bind :: "'e + 'a \<Rightarrow> ('a \<Rightarrow> 'e + 'b) \<Rightarrow> 'e + 'b" where
  "res_bind r f = (case r of Inl e \<Rightarrow> Inl e | Inr x \<Rightarrow> f x)"

definition ok_or :: "'e \<Rightarrow> 'a option \<Rightarrow> 'e + 'a" where
  "ok_or e x = (case x of None \<Rightarrow> Inl e | Some v \<Rightarrow> Inr v)"

fun res_map :: "('a \<Rightarrow> 'e + 'b) \<Rightarrow> 'a list \<Rightarrow> 'e + 'b list" where
  "res_map f [] = Inr []"
| "res_map f (x # xs) = res_bind (f x) (\<lambda>y. res_bind (res_map f xs) (\<lambda>ys. Inr (y # ys)))"

definition is_ok :: "'e + 'a \<Rightarrow> bool" where
  "is_ok r = (case r of Inl _ \<Rightarrow> False | Inr _ \<Rightarrow> True)"

lemma res_bind_simps [simp, res_simps]:
  "res_bind (Inl e) f = Inl e"
  "res_bind (Inr x) f = f x"
  by (simp_all add: res_bind_def)

lemma ok_or_simps [simp, res_simps]:
  "ok_or e None = Inl e"
  "ok_or e (Some v) = Inr v"
  by (simp_all add: ok_or_def)

lemma is_ok_simps [simp, res_simps]:
  "is_ok (Inl e) = False"
  "is_ok (Inr x) = True"
  by (simp_all add: is_ok_def)

lemma res_bind_eq_Inr: "res_bind r f = Inr y \<longleftrightarrow> (\<exists>x. r = Inr x \<and> f x = Inr y)"
  by (cases r) simp_all

lemma res_bind_eq_Inl: "res_bind r f = Inl e \<longleftrightarrow> r = Inl e \<or> (\<exists>x. r = Inr x \<and> f x = Inl e)"
  by (cases r) auto

lemma ok_or_eq_Inr: "ok_or e x = Inr v \<longleftrightarrow> x = Some v"
  by (cases x) simp_all

lemma res_map_all_ok: "(\<And>x. x \<in> set xs \<Longrightarrow> f x = Inr (g x)) \<Longrightarrow> res_map f xs = Inr (map g xs)"
  by (induction xs) simp_all

lemma res_map_length: "res_map f xs = Inr ys \<Longrightarrow> length ys = length xs"
  by (induction xs arbitrary: ys) (auto simp: res_bind_eq_Inr)

section \<open>State transformers with early return\<close>

text \<open>
  A method that mutates its receiver and may return early with an error is a
  function from the state to the state it leaves behind and its result; the
  mutations made before the error stay.
\<close>

type_synonym ('s, 'e, 'a) st = "'s \<Rightarrow> 's \<times> ('e + 'a)"

definition st_return :: "'a \<Rightarrow> ('s, 'e, 'a) st" where
  "st_return x = (\<lambda>s. (s, Inr x))"

definition st_throw :: "'e \<Rightarrow> ('s, 'e, 'a) st" where
  "st_throw e = (\<lambda>s. (s, Inl e))"

definition st_bind :: "('s, 'e, 'a) st \<Rightarrow> ('a \<Rightarrow> ('s, 'e, 'b) st) \<Rightarrow> ('s, 'e, 'b) st" where
  "st_bind m f = (\<lambda>s. case m s of (s', Inl e) \<Rightarrow> (s', Inl e) | (s', Inr x) \<Rightarrow> f x s')"

definition st_seq :: "('s, 'e, 'a) st \<Rightarrow> ('s, 'e, 'b) st \<Rightarrow> ('s, 'e, 'b) st" where
  "st_seq m n = st_bind m (\<lambda>_. n)"

definition st_modify :: "('s \<Rightarrow> 's) \<Rightarrow> ('s, 'e, unit) st" where
  "st_modify f = (\<lambda>s. (f s, Inr ()))"

definition st_gets :: "('s \<Rightarrow> 'a) \<Rightarrow> ('s, 'e, 'a) st" where
  "st_gets f = (\<lambda>s. (s, Inr (f s)))"

definition st_lift :: "'e + 'a \<Rightarrow> ('s, 'e, 'a) st" where
  "st_lift r = (\<lambda>s. (s, r))"

fun st_each :: "('x \<Rightarrow> ('s, 'e, unit) st) \<Rightarrow> 'x list \<Rightarrow> ('s, 'e, unit) st" where
  "st_each f [] = st_return ()"
| "st_each f (x # xs) = st_seq (f x) (st_each f xs)"

lemma st_simps [simp, res_simps]:
  "st_return x s = (s, Inr x)"
  "st_throw e s = (s, Inl e)"
  "st_modify g s = (g s, Inr ())"
  "st_gets h s = (s, Inr (h s))"
  "st_lift r s = (s, r)"
  by (simp_all add: st_return_def st_throw_def st_modify_def st_gets_def st_lift_def)

lemma st_bind_apply [res_simps]:
  "st_bind m f s = (case m s of (s', Inl e) \<Rightarrow> (s', Inl e) | (s', Inr x) \<Rightarrow> f x s')"
  by (simp add: st_bind_def)

lemma st_seq_apply [res_simps]:
  "st_seq m n s = (case m s of (s', Inl e) \<Rightarrow> (s', Inl e) | (s', Inr x) \<Rightarrow> n s')"
  by (simp add: st_seq_def st_bind_def)

lemma st_each_preserves:
  assumes "\<And>x s. P s \<Longrightarrow> x \<in> set xs \<Longrightarrow> P (fst (f x s))" and "P s"
  shows "P (fst (st_each f xs s))"
  using assms
proof (induction xs arbitrary: s)
  case Nil
  then show ?case by simp
next
  case (Cons x xs)
  obtain s' r where fx: "f x s = (s', r)" by fastforce
  with Cons.prems(1)[of s x] Cons.prems(2) have "P s'" by simp
  with Cons fx show ?case by (cases r) (auto simp: st_seq_apply)
qed

lemma st_bind_ok:
  "st_bind m f s = (s', Inr v) \<longleftrightarrow> (\<exists>s1 u. m s = (s1, Inr u) \<and> f u s1 = (s', Inr v))"
  by (auto simp: st_bind_apply split: prod.splits sum.splits)

lemma st_seq_ok:
  "st_seq m n s = (s', Inr v) \<longleftrightarrow> (\<exists>s1 u. m s = (s1, Inr u) \<and> n s1 = (s', Inr v))"
  by (auto simp: st_seq_apply split: prod.splits sum.splits)

lemma st_seq_assoc: "st_seq (st_seq a b) c = st_seq a (st_seq b c)"
  by (rule ext) (simp add: st_seq_apply split: prod.split sum.split)

lemma st_seq_fail:
  "st_seq m n s = (s', Inl e) \<longleftrightarrow> m s = (s', Inl e) \<or> (\<exists>s1 u. m s = (s1, Inr u) \<and> n s1 = (s', Inl e))"
  by (auto simp: st_seq_apply split: prod.splits sum.splits)


definition st_when :: "bool \<Rightarrow> ('s, 'e, unit) st \<Rightarrow> ('s, 'e, unit) st" where
  "st_when c m = (if c then m else st_return ())"

fun st_map :: "('x \<Rightarrow> ('s, 'e, 'y) st) \<Rightarrow> 'x list \<Rightarrow> ('s, 'e, 'y list) st" where
  "st_map f [] = st_return []"
| "st_map f (x # xs) = st_bind (f x) (\<lambda>y. st_bind (st_map f xs) (\<lambda>ys. st_return (y # ys)))"

text \<open>\<open>keeps f m\<close>: the operation leaves the part \<open>f\<close> of the state alone, whatever it returns.\<close>

named_theorems frame_intros \<open>which operations keep which parts of the state\<close>

definition keeps :: "('s \<Rightarrow> 'x) \<Rightarrow> ('s, 'e, 'a) st \<Rightarrow> bool" where
  "keeps f m \<longleftrightarrow> (\<forall>s. f (fst (m s)) = f s)"

lemma keepsD: "keeps f m \<Longrightarrow> m s = (s', r) \<Longrightarrow> f s' = f s"
  by (auto simp: keeps_def dest: spec [of _ s])

lemma keeps_basic [frame_intros]:
  "keeps f (st_return x)" "keeps f (st_throw e)" "keeps f (st_gets g)" "keeps f (st_lift r)"
  by (simp_all add: keeps_def)

lemma keeps_modify [frame_intros]: "(\<And>s. f (g s) = f s) \<Longrightarrow> keeps f (st_modify g)"
  by (simp add: keeps_def)

lemma keeps_bind [frame_intros]: "keeps f m \<Longrightarrow> (\<And>x. keeps f (g x)) \<Longrightarrow> keeps f (st_bind m g)"
  unfolding keeps_def by (auto simp: st_bind_apply split: prod.splits sum.splits) (metis fst_conv)+

lemma keeps_seq [frame_intros]: "keeps f m \<Longrightarrow> keeps f n \<Longrightarrow> keeps f (st_seq m n)"
  unfolding st_seq_def by (rule keeps_bind)

lemma keeps_when [frame_intros]: "keeps f m \<Longrightarrow> keeps f (st_when c m)"
  by (simp add: st_when_def keeps_basic)

lemma keeps_if [frame_intros]: "keeps f m \<Longrightarrow> keeps f n \<Longrightarrow> keeps f (if c then m else n)"
  by simp

lemma keeps_option [frame_intros]: "keeps f m \<Longrightarrow> (\<And>x. keeps f (n x)) \<Longrightarrow> keeps f (case z of None \<Rightarrow> m | Some x \<Rightarrow> n x)"
  by (cases z) simp_all

lemma keeps_sum [frame_intros]: "(\<And>e. keeps f (m e)) \<Longrightarrow> (\<And>x. keeps f (n x)) \<Longrightarrow> keeps f (case z of Inl e \<Rightarrow> m e | Inr x \<Rightarrow> n x)"
  by (cases z) simp_all

lemma keeps_each [frame_intros]: "(\<And>x. keeps f (g x)) \<Longrightarrow> keeps f (st_each g xs)"
  by (induction xs) (simp_all add: keeps_basic keeps_seq)

lemma keeps_map [frame_intros]: "(\<And>x. keeps f (g x)) \<Longrightarrow> keeps f (st_map g xs)"
  by (induction xs) (simp_all add: keeps_basic keeps_bind)

text \<open>\<open>preserves P m\<close>: the operation keeps the invariant \<open>P\<close>, also when it fails.\<close>

named_theorems inv_intros

definition preserves :: "('s \<Rightarrow> bool) \<Rightarrow> ('s, 'e, 'a) st \<Rightarrow> bool" where
  "preserves P m \<longleftrightarrow> (\<forall>s. P s \<longrightarrow> P (fst (m s)))"

lemma preservesD: "preserves P m \<Longrightarrow> P s \<Longrightarrow> m s = (s', r) \<Longrightarrow> P s'"
  by (auto simp: preserves_def dest: spec [of _ s])

lemma preserves_basic [inv_intros]:
  "preserves P (st_return x)" "preserves P (st_throw e)" "preserves P (st_gets g)" "preserves P (st_lift r)"
  by (simp_all add: preserves_def)

lemma preserves_modify [inv_intros]: "(\<And>s. P s \<Longrightarrow> P (g s)) \<Longrightarrow> preserves P (st_modify g)"
  by (simp add: preserves_def)

lemma preserves_bind [inv_intros]: "preserves P m \<Longrightarrow> (\<And>x. preserves P (g x)) \<Longrightarrow> preserves P (st_bind m g)"
  unfolding preserves_def by (fastforce simp: st_bind_apply split: prod.splits sum.splits)

lemma preserves_seq [inv_intros]: "preserves P m \<Longrightarrow> preserves P n \<Longrightarrow> preserves P (st_seq m n)"
  unfolding st_seq_def by (rule preserves_bind)

lemma preserves_when [inv_intros]: "preserves P m \<Longrightarrow> preserves P (st_when c m)"
  by (simp add: st_when_def preserves_basic)

lemma preserves_if [inv_intros]: "preserves P m \<Longrightarrow> preserves P n \<Longrightarrow> preserves P (if c then m else n)"
  by simp

lemma preserves_option [inv_intros]:
  "preserves P m \<Longrightarrow> (\<And>x. preserves P (n x)) \<Longrightarrow> preserves P (case z of None \<Rightarrow> m | Some x \<Rightarrow> n x)"
  by (cases z) simp_all

lemma preserves_each [inv_intros]: "(\<And>x. preserves P (g x)) \<Longrightarrow> preserves P (st_each g xs)"
  by (induction xs) (simp_all add: preserves_basic preserves_seq)

lemma preserves_map [inv_intros]: "(\<And>x. preserves P (g x)) \<Longrightarrow> preserves P (st_map g xs)"
  by (induction xs) (simp_all add: preserves_basic preserves_bind)

text \<open>\<open>succeeds P m Q\<close>: from every state with \<open>P\<close> the operation returns a value, and then \<open>Q\<close> holds.\<close>

definition succeeds :: "('s \<Rightarrow> bool) \<Rightarrow> ('s, 'e, 'a) st \<Rightarrow> ('a \<Rightarrow> 's \<Rightarrow> bool) \<Rightarrow> bool" where
  "succeeds P m Q \<longleftrightarrow> (\<forall>s. P s \<longrightarrow> (\<exists>s' v. m s = (s', Inr v) \<and> Q v s'))"

lemma succeedsD: "succeeds P m Q \<Longrightarrow> P s \<Longrightarrow> \<exists>s' v. m s = (s', Inr v) \<and> Q v s'"
  by (simp add: succeeds_def)

lemma succeeds_bind: "succeeds P m R \<Longrightarrow> (\<And>x. succeeds (R x) (f x) Q) \<Longrightarrow> succeeds P (st_bind m f) Q"
  unfolding succeeds_def by (fastforce simp: st_bind_apply)

lemma succeeds_seq: "succeeds P m (\<lambda>_. R) \<Longrightarrow> succeeds R n Q \<Longrightarrow> succeeds P (st_seq m n) Q"
  unfolding st_seq_def by (rule succeeds_bind)

lemma succeeds_return: "(\<And>s. P s \<Longrightarrow> Q x s) \<Longrightarrow> succeeds P (st_return x) Q"
  by (simp add: succeeds_def)

lemma succeeds_modify: "(\<And>s. P s \<Longrightarrow> Q () (f s)) \<Longrightarrow> succeeds P (st_modify f) Q"
  by (simp add: succeeds_def)

lemma succeeds_lift: "r = Inr x \<Longrightarrow> (\<And>s. P s \<Longrightarrow> Q x s) \<Longrightarrow> succeeds P (st_lift r) Q"
  by (simp add: succeeds_def)

lemma succeeds_weaken: "succeeds P m Q \<Longrightarrow> (\<And>s. P' s \<Longrightarrow> P s) \<Longrightarrow> (\<And>x s. Q x s \<Longrightarrow> Q' x s) \<Longrightarrow> succeeds P' m Q'"
  unfolding succeeds_def by blast

section \<open>Checked and saturating arithmetic\<close>

definition checked_add :: "'a::len word \<Rightarrow> 'a word \<Rightarrow> 'a word option" where
  "checked_add a b = (if unat a + unat b < 2 ^ LENGTH('a) then Some (a + b) else None)"

definition checked_sub :: "'a::len word \<Rightarrow> 'a word \<Rightarrow> 'a word option" where
  "checked_sub a b = (if b \<le> a then Some (a - b) else None)"

definition checked_mul :: "'a::len word \<Rightarrow> 'a word \<Rightarrow> 'a word option" where
  "checked_mul a b = (if unat a * unat b < 2 ^ LENGTH('a) then Some (a * b) else None)"

definition saturating_sub :: "'a::len word \<Rightarrow> 'a word \<Rightarrow> 'a word" where
  "saturating_sub a b = (if b \<le> a then a - b else 0)"

definition saturating_add :: "'a::len word \<Rightarrow> 'a word \<Rightarrow> 'a word" where
  "saturating_add a b = (if unat a + unat b < 2 ^ LENGTH('a) then a + b else - 1)"

lemma checked_add_unat [arith_simps]:
  "checked_add a b = Some c \<Longrightarrow> unat c = unat a + unat b"
  by (auto simp: checked_add_def unat_word_ariths split: if_splits)

lemma checked_sub_unat [arith_simps]:
  "checked_sub a b = Some c \<Longrightarrow> unat c = unat a - unat b"
  by (auto simp: checked_sub_def unat_sub split: if_splits)

lemma checked_mul_unat [arith_simps]:
  "checked_mul a b = Some c \<Longrightarrow> unat c = unat a * unat b"
  by (auto simp: checked_mul_def unat_word_ariths split: if_splits)

lemma checked_add_None:
  "checked_add a b = None \<longleftrightarrow> 2 ^ LENGTH('a) \<le> unat a + unat (b :: 'a::len word)"
  by (auto simp: checked_add_def)

lemma checked_sub_None: "checked_sub a b = None \<longleftrightarrow> a < b"
  by (auto simp: checked_sub_def)

lemma saturating_sub_unat: "unat (saturating_sub a b) = unat a - unat b"
  by (auto simp: saturating_sub_def unat_sub word_le_nat_alt)

lemma unat_bound: "unat (w :: 'a::len word) < 2 ^ LENGTH('a)"
  by (rule unsigned_less)

section \<open>Big-endian byte strings\<close>

fun nat_to_be :: "nat \<Rightarrow> nat \<Rightarrow> bytes" where
  "nat_to_be 0 k = []"
| "nat_to_be (Suc n) k = nat_to_be n (k div 256) @ [word_of_nat (k mod 256)]"

definition be_nat :: "bytes \<Rightarrow> nat" where
  "be_nat bs = foldl (\<lambda>acc b. 256 * acc + unat b) 0 bs"

definition to_be_bytes :: "nat \<Rightarrow> 'a::len word \<Rightarrow> bytes" where
  "to_be_bytes n w = nat_to_be n (unat w)"

definition from_be_bytes :: "bytes \<Rightarrow> 'a::len word" where
  "from_be_bytes bs = word_of_nat (be_nat bs)"

lemma length_nat_to_be [simp]: "length (nat_to_be n k) = n"
  by (induction n arbitrary: k) simp_all

lemma length_to_be_bytes [simp]: "length (to_be_bytes n w) = n"
  by (simp add: to_be_bytes_def)

lemma be_nat_snoc [simp]: "be_nat (bs @ [b]) = 256 * be_nat bs + unat b"
  by (simp add: be_nat_def)

lemma be_nat_Nil [simp]: "be_nat [] = 0"
  by (simp add: be_nat_def)

lemma unat_byte_of_nat: "unat (word_of_nat (k mod 256) :: u8) = k mod 256"
  by (simp add: unat_of_nat)

lemma be_nat_nat_to_be: "be_nat (nat_to_be n k) = k mod 256 ^ n"
proof (induction n arbitrary: k)
  case 0
  then show ?case by simp
next
  case (Suc n)
  have "be_nat (nat_to_be (Suc n) k) = 256 * (k div 256 mod 256 ^ n) + k mod 256"
    by (simp add: Suc.IH unat_byte_of_nat)
  also have "\<dots> = k mod (256 * 256 ^ n)"
    by (simp add: mod_mult2_eq)
  finally show ?case by simp
qed

lemma be_bytes_roundtrip:
  fixes w :: "'a::len word"
  assumes "LENGTH('a) = 8 * n"
  shows "from_be_bytes (to_be_bytes n w) = w"
proof -
  have "unat w < 2 ^ (8 * n)"
    using unsigned_less[of w] assms by simp
  then have "unat w mod 256 ^ n = unat w"
    by (simp add: power_mult)
  then show ?thesis
    by (simp add: from_be_bytes_def to_be_bytes_def be_nat_nat_to_be)
qed

section \<open>Lists and association lists\<close>

lemma distinct_map_filter: "distinct (map f xs) \<Longrightarrow> distinct (map f (filter P xs))"
  by (induction xs) auto

lemma map_of_update [simp]: "map_of (AList.update k v al) = (map_of al)(k \<mapsto> v)"
  by (rule ext) (simp add: update_conv)

lemma map_of_delete [simp]: "map_of (AList.delete k al) = (map_of al)(k := None)"
  by (rule ext) (simp add: delete_conv)

lemma alist_update_facts:
  "distinct (map fst al) \<Longrightarrow> distinct (map fst (AList.update k v al))"
  "fst ` set (AList.update k v al) = insert k (fst ` set al)"
  "length (AList.update k v al) \<le> Suc (length al)"
  "e \<in> set (AList.update k v al) \<Longrightarrow> e = (k, v) \<or> e \<in> set al"
proof -
  show "distinct (map fst al) \<Longrightarrow> distinct (map fst (AList.update k v al))"
    by (rule distinct_update)
  show "fst ` set (AList.update k v al) = insert k (fst ` set al)"
    by (simp add: dom_update)
  show "length (AList.update k v al) \<le> Suc (length al)"
    by (induction al) auto
  show "e \<in> set (AList.update k v al) \<Longrightarrow> e = (k, v) \<or> e \<in> set al"
    by (induction al) (auto split: if_splits)
qed

lemma map_add_single [simp]: "m k = None \<Longrightarrow> [k \<mapsto> v] ++ m = m(k \<mapsto> v)"
  by (rule ext) (simp add: map_add_def split: option.split)

lemma nth_update_in: "j < length xs \<Longrightarrow> xs[i := v] ! j = (if i = j then v else xs ! j)"
  by (cases "i = j") simp_all

section \<open>Ordered maps\<close>

text \<open>
  \<open>std::collections::BTreeMap\<close> as the list of its entries in key order: \<open>insert\<close>
  replaces the value of a key or adds the entry at its place.
\<close>

fun btree_insert :: "'k::linorder \<Rightarrow> 'v \<Rightarrow> ('k \<times> 'v) list \<Rightarrow> ('k \<times> 'v) list" where
  "btree_insert k v [] = [(k, v)]"
| "btree_insert k v ((k', v') # m) =
     (if k < k' then (k, v) # (k', v') # m
      else if k = k' then (k, v) # m
      else (k', v') # btree_insert k v m)"

definition btree_ok :: "('k::linorder \<times> 'v) list \<Rightarrow> bool" where
  "btree_ok m = sorted_wrt (<) (map fst m)"

lemma btree_insert_not_Nil [simp]: "btree_insert k v m \<noteq> []"
  by (induction k v m rule: btree_insert.induct) auto

lemma set_btree_insert_keys: "fst ` set (btree_insert k v m) = insert k (fst ` set m)"
  by (induction k v m rule: btree_insert.induct) (simp_all add: insert_commute)

lemma btree_insert_ok: "btree_ok m \<Longrightarrow> btree_ok (btree_insert k v m)"
proof (induction m)
  case Nil
  then show ?case by (simp add: btree_ok_def)
next
  case (Cons e m)
  obtain k' v' where e: "e = (k', v')" by (cases e)
  from Cons.prems e have ok: "btree_ok m" and lt: "\<forall>x \<in> fst ` set m. k' < x"
    by (auto simp: btree_ok_def)
  from Cons.IH [OF ok] have IH: "sorted_wrt (<) (map fst (btree_insert k v m))"
    by (simp add: btree_ok_def)
  have keys: "\<forall>x \<in> fst ` set (btree_insert k v m). x = k \<or> x \<in> fst ` set m"
    using set_btree_insert_keys [of k v m] by auto
  from IH lt keys ok show ?case
    unfolding e btree_ok_def by (fastforce dest: less_trans)
qed

lemma map_of_btree_insert: "btree_ok m \<Longrightarrow> map_of (btree_insert k v m) = (map_of m)(k \<mapsto> v)"
proof (induction m)
  case Nil
  then show ?case by simp
next
  case (Cons e m)
  obtain k' v' where e: "e = (k', v')" by (cases e)
  from Cons.prems e have "btree_ok m" by (auto simp: btree_ok_def)
  then have IH: "map_of (btree_insert k v m) = (map_of m)(k \<mapsto> v)" by (rule Cons.IH)
  show ?case
    unfolding e by (rule ext, cases "k < k'"; cases "k = k'") (auto simp: IH)
qed

lemma btree_ok_distinct: "btree_ok m \<Longrightarrow> distinct (map fst m)"
  unfolding btree_ok_def by (induction m) auto

lemma btree_ok_Nil [simp]: "btree_ok []"
  by (simp add: btree_ok_def)

section \<open>Decimal numbers\<close>

text \<open>\<open>to_string\<close> and \<open>from_str\<close> of the unsigned integer types.\<close>

definition dec_digit :: "nat \<Rightarrow> char" where
  "dec_digit d = char_of (48 + d)"

fun to_dec :: "nat \<Rightarrow> string" where
  "to_dec n = (if n < 10 then [dec_digit n] else to_dec (n div 10) @ [dec_digit (n mod 10)])"

declare to_dec.simps [simp del]

definition digit_of :: "char \<Rightarrow> nat option" where
  "digit_of c =
     (let n = of_char c :: nat in if 48 \<le> n \<and> n \<le> 57 then Some (n - 48) else None)"

definition parse_step :: "nat \<Rightarrow> nat option \<Rightarrow> char \<Rightarrow> nat option" where
  "parse_step bound acc c =
     (case acc of None \<Rightarrow> None
      | Some a \<Rightarrow> (case digit_of c of None \<Rightarrow> None
          | Some d \<Rightarrow> if 10 * a + d < bound then Some (10 * a + d) else None))"

definition parse_uint :: "nat \<Rightarrow> string \<Rightarrow> nat option" where
  "parse_uint bound s =
     (let ds = (if s \<noteq> [] \<and> hd s = CHR ''+'' then tl s else s)
      in if ds = [] then None else foldl (parse_step bound) (Some 0) ds)"

lemma digit_of_dec_digit: "d < 10 \<Longrightarrow> digit_of (dec_digit d) = Some d"
  by (simp add: digit_of_def dec_digit_def Let_def)

lemma to_dec_not_Nil [simp]: "to_dec n \<noteq> []"
  by (subst to_dec.simps) simp

lemma dec_digit_not_plus: "d < 10 \<Longrightarrow> dec_digit d \<noteq> CHR ''+''"
  by (auto simp: dec_digit_def dest!: arg_cong [where f = "of_char :: char \<Rightarrow> nat"])

lemma to_dec_digits: "c \<in> set (to_dec n) \<Longrightarrow> \<exists>d < 10. c = dec_digit d"
proof (induction n rule: to_dec.induct)
  case (1 n)
  then show ?case
    by (cases "n < 10") (auto simp: to_dec.simps [of n] intro: exI [of _ "n mod 10"])
qed

lemma foldl_to_dec: "n < bound \<Longrightarrow> foldl (parse_step bound) (Some 0) (to_dec n) = Some n"
proof (induction n rule: to_dec.induct)
  case (1 n)
  show ?case
  proof (cases "n < 10")
    case True
    with "1.prems" show ?thesis
      by (simp add: to_dec.simps [of n] parse_step_def digit_of_dec_digit)
  next
    case False
    then have "foldl (parse_step bound) (Some 0) (to_dec (n div 10)) = Some (n div 10)"
      using 1 by simp
    moreover have "to_dec n = to_dec (n div 10) @ [dec_digit (n mod 10)]"
      using False by (subst to_dec.simps) simp
    moreover have "parse_step bound (Some (n div 10)) (dec_digit (n mod 10)) = Some n"
      using "1.prems" by (simp add: parse_step_def digit_of_dec_digit)
    ultimately show ?thesis by simp
  qed
qed

lemma parse_to_dec: "n < bound \<Longrightarrow> parse_uint bound (to_dec n) = Some n"
proof -
  assume n: "n < bound"
  have "hd (to_dec n) \<in> set (to_dec n)" by simp
  then obtain d where "d < 10" "hd (to_dec n) = dec_digit d"
    using to_dec_digits by blast
  then have "hd (to_dec n) \<noteq> CHR ''+''"
    using dec_digit_not_plus by simp
  then show ?thesis
    by (simp add: parse_uint_def foldl_to_dec n)
qed

lemma to_dec_inject [simp]: "to_dec m = to_dec n \<longleftrightarrow> m = n"
proof
  assume eq: "to_dec m = to_dec n"
  have "Some m = parse_uint (m + n + 1) (to_dec m)" by (simp add: parse_to_dec)
  also have "\<dots> = Some n" by (simp add: eq parse_to_dec)
  finally show "m = n" by simp
qed simp

definition parse_u64 :: "string \<Rightarrow> u64 option" where
  "parse_u64 s = map_option word_of_nat (parse_uint (2 ^ 64) s)"

definition parse_u128 :: "string \<Rightarrow> u128 option" where
  "parse_u128 s = map_option word_of_nat (parse_uint (2 ^ 128) s)"

lemma parse_u64_to_dec [simp]: "parse_u64 (to_dec (unat n)) = Some n"
  using unat_bound [of n] by (simp add: parse_u64_def parse_to_dec)

lemma parse_u128_to_dec [simp]: "parse_u128 (to_dec (unat n)) = Some n"
  using unat_bound [of n] by (simp add: parse_u128_def parse_to_dec)

lemma be_nat_bound: "be_nat bs < 256 ^ length bs"
proof (induction bs rule: rev_induct)
  case Nil
  then show ?case by simp
next
  case (snoc b bs)
  have "unat b < 256" using unat_bound [of b] by simp
  moreover have "256 * be_nat bs + 256 \<le> 256 * 256 ^ length bs"
    using snoc.IH by (metis Suc_leI mult_Suc_right mult_le_mono2 add.commute)
  ultimately have "256 * be_nat bs + unat b < 256 * 256 ^ length bs" by linarith
  then show ?case by simp
qed

lemma nat_to_be_be_nat: "length bs = n \<Longrightarrow> nat_to_be n (be_nat bs) = bs"
proof (induction n arbitrary: bs)
  case 0
  then show ?case by simp
next
  case (Suc n)
  then obtain bs' b where bs: "bs = bs' @ [b]" "length bs' = n"
    by (metis length_Suc_conv_rev)
  have "unat b < 256" using unat_bound [of b] by simp
  then show ?case using Suc.IH [OF bs(2)] by (simp add: bs(1))
qed

lemma be_bytes_roundtrip_bytes:
  assumes "LENGTH('a) = 8 * n" and "length bs = n"
  shows "to_be_bytes n (from_be_bytes bs :: 'a::len word) = bs"
proof -
  have "be_nat bs < 2 ^ LENGTH('a)"
    using be_nat_bound [of bs] assms by (simp add: power_mult)
  then have "unat (from_be_bytes bs :: 'a word) = be_nat bs"
    by (simp add: from_be_bytes_def unat_of_nat)
  then show ?thesis
    using assms(2) by (simp add: to_be_bytes_def nat_to_be_be_nat)
qed

end
