(* ===== verification/Trie_Db.thy ===== *)
theory Trie_Db
  imports Prelude
begin

text \<open>
  The node store of the state trie, \<open>core/executor/src/adapter/trie_db.rs\<close>: RocksDB
  behind a hash map that caches what was read and written, and \<open>flush\<close>, which evicts
  randomly chosen entries when the cache has outgrown its size. RocksDB is the
  parameter \<open>R\<close>, the random generator gives the i-th draw below a bound.
\<close>

section \<open>State and operations\<close>

datatype trie_db_error = TdStore | TdBatchLengthMismatch | TdPanic

record 'd kv_lib =
  kl_get :: "'d \<Rightarrow> bytes \<Rightarrow> string + bytes option"
  kl_put :: "'d \<Rightarrow> bytes \<Rightarrow> bytes \<Rightarrow> string + 'd"
  kl_write :: "'d \<Rightarrow> (bytes \<times> bytes) list \<Rightarrow> string + 'd"

record 'd trie_db =
  td_db :: 'd
  td_cache :: "(bytes \<times> bytes) list"
  td_cache_size :: nat

type_synonym ('d, 'v) trie_op = "('d trie_db, trie_db_error, 'v) st"

definition trie_db_new :: "'d \<Rightarrow> nat \<Rightarrow> 'd trie_db" where
  "trie_db_new db cache_size = \<lparr>td_db = db, td_cache = [], td_cache_size = cache_size\<rparr>"

definition to_store_err :: "string + 'a \<Rightarrow> trie_db_error + 'a" where
  "to_store_err r = (case r of Inl _ \<Rightarrow> Inl TdStore | Inr x \<Rightarrow> Inr x)"

definition cache_insert :: "bytes \<Rightarrow> bytes \<Rightarrow> 'd trie_db \<Rightarrow> 'd trie_db" where
  "cache_insert k v s = s\<lparr>td_cache := AList.update k v (td_cache s)\<rparr>"

definition inner_get :: "'d kv_lib \<Rightarrow> bytes \<Rightarrow> ('d, bytes option) trie_op" where
  "inner_get R key =
     st_bind (st_gets (\<lambda>s. map_of (td_cache s) key)) (\<lambda>res.
       case res of
         None \<Rightarrow>
           st_bind (st_gets (\<lambda>s. to_store_err (kl_get R (td_db s) key))) (\<lambda>r.
           st_bind (st_lift r) (\<lambda>ret.
             case ret of
               Some val \<Rightarrow> st_seq (st_modify (cache_insert key val)) (st_return ret)
             | None \<Rightarrow> st_return ret))
       | Some val \<Rightarrow> st_return (Some val))"

definition trie_db_get :: "'d kv_lib \<Rightarrow> bytes \<Rightarrow> ('d, bytes option) trie_op" where
  "trie_db_get R key = inner_get R key"

definition trie_db_contains :: "'d kv_lib \<Rightarrow> bytes \<Rightarrow> ('d, bool) trie_op" where
  "trie_db_contains R key =
     st_bind (st_gets (\<lambda>s. map_of (td_cache s) key \<noteq> None)) (\<lambda>res.
       if res then st_return True
       else
         st_bind (st_gets (\<lambda>s. to_store_err (kl_get R (td_db s) key))) (\<lambda>r.
         st_bind (st_lift r) (\<lambda>ret.
           case ret of
             Some val \<Rightarrow> st_seq (st_modify (cache_insert key val)) (st_return True)
           | None \<Rightarrow> st_return False)))"

text \<open>The cache takes the value before the database does.\<close>

definition store_result :: "string + 'd \<Rightarrow> ('d, unit) trie_op" where
  "store_result r s = (case r of Inl _ \<Rightarrow> (s, Inl TdStore) | Inr db \<Rightarrow> (s\<lparr>td_db := db\<rparr>, Inr ()))"

definition trie_db_insert :: "'d kv_lib \<Rightarrow> bytes \<Rightarrow> bytes \<Rightarrow> ('d, unit) trie_op" where
  "trie_db_insert R key val =
     st_seq (st_modify (cache_insert key val))
       (st_bind (st_gets td_db) (\<lambda>db. store_result (kl_put R db key val)))"

definition trie_db_insert_batch :: "'d kv_lib \<Rightarrow> bytes list \<Rightarrow> bytes list \<Rightarrow> ('d, unit) trie_op" where
  "trie_db_insert_batch R keys vals =
     (if length keys \<noteq> length vals then st_throw TdBatchLengthMismatch
      else
        st_seq (st_each (\<lambda>(k, v). st_modify (cache_insert k v)) (zip keys vals))
          (st_bind (st_gets td_db) (\<lambda>db. store_result (kl_write R db (zip keys vals)))))"

definition trie_db_remove :: "bytes \<Rightarrow> ('d, unit) trie_op" where
  "trie_db_remove key = st_return ()"

definition trie_db_remove_batch :: "bytes list \<Rightarrow> ('d, unit) trie_op" where
  "trie_db_remove_batch keys = st_return ()"

text \<open>
  \<open>gen_range\<close> panics on an empty range. The indices start at the number of keys minus
  one, so the last key is never drawn.
\<close>

fun remove_draws :: "(nat \<Rightarrow> nat \<Rightarrow> nat) \<Rightarrow> 'k list \<Rightarrow> nat \<Rightarrow> nat \<Rightarrow> nat list \<Rightarrow> 'k list option" where
  "remove_draws rng keys i 0 idx_list = Some []"
| "remove_draws rng keys i (Suc num) idx_list =
     (if idx_list = [] then None
      else
        let tmp = rng i (length idx_list); idx = idx_list ! tmp
        in map_option ((#) (keys ! idx))
             (remove_draws rng keys (Suc i) num (take tmp idx_list @ drop (Suc tmp) idx_list)))"

definition rand_remove_list :: "(nat \<Rightarrow> nat \<Rightarrow> nat) \<Rightarrow> 'k list \<Rightarrow> nat \<Rightarrow> 'k list option" where
  "rand_remove_list rng keys num =
     (if keys = [] then None else remove_draws rng keys 0 num [0..<length keys - 1])"

definition trie_db_flush ::
  "(nat \<Rightarrow> nat \<Rightarrow> nat) \<Rightarrow> ((bytes \<times> bytes) list \<Rightarrow> (bytes \<times> bytes) list) \<Rightarrow> ('d, unit) trie_op" where
  "trie_db_flush rng iter s =
     (if length (td_cache s) \<le> td_cache_size s then (s, Inr ())
      else case rand_remove_list rng (map fst (iter (td_cache s))) (length (td_cache s) - td_cache_size s) of
          None \<Rightarrow> (s, Inl TdPanic)
        | Some remove_list \<Rightarrow>
            (s\<lparr>td_cache := foldl (\<lambda>c k. AList.delete k c) (td_cache s) remove_list\<rparr>, Inr ()))"

section \<open>The cache is transparent\<close>

definition kv_read :: "'d kv_lib \<Rightarrow> 'd \<Rightarrow> bytes \<Rightarrow> bytes option" where
  "kv_read R db k = (case kl_get R db k of Inr v \<Rightarrow> v | Inl _ \<Rightarrow> None)"

definition put_pair :: "(bytes \<rightharpoonup> bytes) \<Rightarrow> bytes \<times> bytes \<Rightarrow> (bytes \<rightharpoonup> bytes)" where
  "put_pair m kv = m(fst kv \<mapsto> snd kv)"

definition cache_pair :: "(bytes \<times> bytes) list \<Rightarrow> bytes \<times> bytes \<Rightarrow> (bytes \<times> bytes) list" where
  "cache_pair c kv = AList.update (fst kv) (snd kv) c"

text \<open>RocksDB without input-output errors: reads see the last write, a batch is applied in order.\<close>

definition kv_lib_ok :: "'d kv_lib \<Rightarrow> bool" where
  "kv_lib_ok R \<longleftrightarrow>
     (\<forall>db k. kl_get R db k = Inr (kv_read R db k)) \<and>
     (\<forall>db k v. \<exists>db'. kl_put R db k v = Inr db' \<and> kv_read R db' = (kv_read R db)(k \<mapsto> v)) \<and>
     (\<forall>db kvs. \<exists>db'. kl_write R db kvs = Inr db' \<and>
        kv_read R db' = foldl put_pair (kv_read R db) kvs)"

definition trie_db_ok :: "'d kv_lib \<Rightarrow> 'd trie_db \<Rightarrow> bool" where
  "trie_db_ok R s \<longleftrightarrow>
     distinct (map fst (td_cache s)) \<and> map_of (td_cache s) \<subseteq>\<^sub>m kv_read R (td_db s)"

lemma trie_db_ok_new: "trie_db_ok R (trie_db_new db n)"
  by (simp add: trie_db_ok_def trie_db_new_def)

lemma trie_db_ok_cache_read:
  assumes "trie_db_ok R s" and "kv_read R (td_db s) k = Some v"
  shows "trie_db_ok R (cache_insert k v s)"
  using assms by (auto simp: trie_db_ok_def cache_insert_def map_le_def distinct_update)

lemma trie_db_hit: "trie_db_ok R s \<Longrightarrow> map_of (td_cache s) k = Some v \<Longrightarrow> kv_read R (td_db s) k = Some v"
  by (force simp: trie_db_ok_def map_le_def)

lemma cache_insert_db [simp]: "td_db (cache_insert k v s) = td_db s"
  "td_cache_size (cache_insert k v s) = td_cache_size s"
  by (simp_all add: cache_insert_def)

lemma inner_get_spec:
  assumes "kv_lib_ok R" and "trie_db_ok R s"
  shows "\<exists>s'. inner_get R k s = (s', Inr (kv_read R (td_db s) k)) \<and> trie_db_ok R s' \<and> td_db s' = td_db s"
proof -
  have get: "kl_get R (td_db s) k = Inr (kv_read R (td_db s) k)" using assms(1) by (simp add: kv_lib_ok_def)
  show ?thesis
  proof (cases "map_of (td_cache s) k")
    case None
    then show ?thesis
      using assms(2)
      by (cases "kv_read R (td_db s) k")
         (simp_all add: inner_get_def get to_store_err_def st_bind_apply st_seq_apply trie_db_ok_cache_read)
  next
    case (Some v)
    then show ?thesis
      using assms(2) trie_db_hit [OF assms(2) Some] by (simp add: inner_get_def st_bind_apply)
  qed
qed

lemma contains_spec:
  assumes "kv_lib_ok R" and "trie_db_ok R s"
  shows "\<exists>s'. trie_db_contains R k s = (s', Inr (kv_read R (td_db s) k \<noteq> None)) \<and>
              trie_db_ok R s' \<and> td_db s' = td_db s"
proof -
  have get: "kl_get R (td_db s) k = Inr (kv_read R (td_db s) k)" using assms(1) by (simp add: kv_lib_ok_def)
  show ?thesis
  proof (cases "map_of (td_cache s) k")
    case None
    then show ?thesis
      using assms(2)
      by (cases "kv_read R (td_db s) k")
         (simp_all add: trie_db_contains_def get to_store_err_def st_bind_apply st_seq_apply trie_db_ok_cache_read)
  next
    case (Some v)
    then show ?thesis
      using assms(2) trie_db_hit [OF assms(2) Some] by (simp add: trie_db_contains_def st_bind_apply)
  qed
qed

lemma cache_inserts:
  "st_each (\<lambda>(k, v). st_modify (cache_insert k v)) kvs s =
   (s\<lparr>td_cache := foldl cache_pair (td_cache s) kvs\<rparr>, Inr ())"
  by (induction kvs arbitrary: s) (auto simp: st_seq_apply cache_insert_def cache_pair_def)

lemma cache_fold:
  assumes "distinct (map fst c)" and "map_of c \<subseteq>\<^sub>m m"
  shows "distinct (map fst (foldl cache_pair c kvs)) \<and>
         map_of (foldl cache_pair c kvs) \<subseteq>\<^sub>m foldl put_pair m kvs"
  using assms
proof (induction kvs arbitrary: c m)
  case (Cons kv kvs)
  have "distinct (map fst (cache_pair c kv))"
    unfolding cache_pair_def using Cons.prems(1) by (rule distinct_update)
  moreover have "map_of (cache_pair c kv) \<subseteq>\<^sub>m put_pair m kv"
    using Cons.prems(2) by (simp add: map_le_upd cache_pair_def put_pair_def)
  ultimately show ?case using Cons.IH by simp
qed simp

lemma insert_spec:
  assumes "kv_lib_ok R" and "trie_db_ok R s"
  shows "\<exists>s'. trie_db_insert R k v s = (s', Inr ()) \<and> trie_db_ok R s' \<and>
              kv_read R (td_db s') = (kv_read R (td_db s))(k \<mapsto> v)"
proof -
  obtain db' where put: "kl_put R (td_db s) k v = Inr db'"
    and rd: "kv_read R db' = (kv_read R (td_db s))(k \<mapsto> v)"
    using assms(1) unfolding kv_lib_ok_def by blast
  have "trie_db_ok R ((cache_insert k v s)\<lparr>td_db := db'\<rparr>)"
    using assms(2) rd
    by (simp add: trie_db_ok_def cache_insert_def distinct_update map_le_upd)
  then show ?thesis
    using put rd by (simp add: trie_db_insert_def st_seq_apply st_bind_apply store_result_def)
qed

lemma insert_batch_spec:
  assumes "kv_lib_ok R" and "trie_db_ok R s" and "length ks = length vs"
  shows "\<exists>s'. trie_db_insert_batch R ks vs s = (s', Inr ()) \<and> trie_db_ok R s' \<and>
              kv_read R (td_db s') = foldl put_pair (kv_read R (td_db s)) (zip ks vs)"
proof -
  obtain db' where wr: "kl_write R (td_db s) (zip ks vs) = Inr db'"
    and rd: "kv_read R db' = foldl put_pair (kv_read R (td_db s)) (zip ks vs)"
    using assms(1) unfolding kv_lib_ok_def by blast
  define c where "c = foldl cache_pair (td_cache s) (zip ks vs)"
  have "trie_db_ok R (s\<lparr>td_cache := c, td_db := db'\<rparr>)"
    using assms(2) cache_fold [of "td_cache s" "kv_read R (td_db s)" "zip ks vs"] rd
    by (simp add: trie_db_ok_def c_def)
  then show ?thesis
    using wr rd assms(3)
    by (simp add: trie_db_insert_batch_def st_seq_apply st_bind_apply cache_inserts store_result_def c_def)
qed

section \<open>Eviction\<close>

definition rng_ok :: "(nat \<Rightarrow> nat \<Rightarrow> nat) \<Rightarrow> bool" where
  "rng_ok rng \<longleftrightarrow> (\<forall>i n. 0 < n \<longrightarrow> rng i n < n)"

lemma remove_draws_spec:
  assumes "rng_ok rng" and "distinct idx" and "set idx \<subseteq> {..<length keys}" and "num \<le> length idx"
    and "distinct keys"
  shows "\<exists>ks. remove_draws rng keys i num idx = Some ks \<and> length ks = num \<and> distinct ks \<and>
              set ks \<subseteq> (\<lambda>j. keys ! j) ` set idx"
  using assms
proof (induction num arbitrary: i idx)
  case 0
  then show ?case by simp
next
  case (Suc num)
  define tmp where "tmp = rng i (length idx)"
  have "0 < length idx" using Suc.prems(4) by linarith
  then have tmp: "tmp < length idx" using Suc.prems(1) by (simp add: tmp_def rng_ok_def del: length_greater_0_conv)
  define rest where "rest = take tmp idx @ drop (Suc tmp) idx"
  have split: "idx = take tmp idx @ idx ! tmp # drop (Suc tmp) idx" by (rule id_take_nth_drop [OF tmp])
  have rest: "distinct rest" "set rest \<subseteq> {..<length keys}" "num \<le> length rest" "idx ! tmp \<notin> set rest"
    "set rest \<subseteq> set idx"
  proof -
    have d: "distinct (take tmp idx @ idx ! tmp # drop (Suc tmp) idx)" using Suc.prems(2) split by simp
    then show "distinct rest" "idx ! tmp \<notin> set rest" by (auto simp: rest_def)
    show "set rest \<subseteq> set idx" unfolding rest_def by (auto dest: in_set_takeD in_set_dropD)
    then show "set rest \<subseteq> {..<length keys}" using Suc.prems(3) by blast
    show "num \<le> length rest" using Suc.prems(4) tmp by (simp add: rest_def)
  qed
  obtain ks where ks: "remove_draws rng keys (Suc i) num rest = Some ks" "length ks = num" "distinct ks"
    "set ks \<subseteq> (\<lambda>j. keys ! j) ` set rest"
    using Suc.IH [OF Suc.prems(1) rest(1,2,3) Suc.prems(5)] by blast
  have "keys ! (idx ! tmp) \<notin> set ks"
  proof
    assume "keys ! (idx ! tmp) \<in> set ks"
    then obtain j where j: "j \<in> set rest" "keys ! (idx ! tmp) = keys ! j" using ks(4) by auto
    have "idx ! tmp < length keys" using Suc.prems(3) nth_mem [OF tmp] by blast
    moreover have "j < length keys" using j(1) rest(2) by blast
    ultimately have "idx ! tmp = j" using j(2) Suc.prems(5) by (simp add: nth_eq_iff_index_eq)
    then show False using j rest(4) by simp
  qed
  moreover have "set (keys ! (idx ! tmp) # ks) \<subseteq> (\<lambda>j. keys ! j) ` set idx"
    using ks(4) rest(5) nth_mem [OF tmp] by auto
  moreover have "remove_draws rng keys i (Suc num) idx = Some (keys ! (idx ! tmp) # ks)"
    using \<open>0 < length idx\<close> ks(1) by (simp add: Let_def flip: tmp_def rest_def)
  ultimately show ?case using ks(2,3) by (intro exI [of _ "keys ! (idx ! tmp) # ks"]) (simp del: remove_draws.simps)
qed

lemma length_delete:
  "distinct (map fst c) \<Longrightarrow> k \<in> fst ` set c \<Longrightarrow> length (AList.delete k c) = length c - 1"
proof (induction c)
  case (Cons e c)
  show ?case
  proof (cases "fst e = k")
    case True
    then have "k \<notin> fst ` set c" using Cons.prems(1) by auto
    then have "AList.delete k c = c" by simp
    then show ?thesis using True by (cases e) simp
  next
    case False
    then have "k \<in> fst ` set c" using Cons.prems(2) by auto
    moreover from this have "0 < length c" by (cases c) auto
    ultimately show ?thesis using Cons False by (cases e) simp
  qed
qed simp

lemma deletes_spec:
  assumes "distinct (map fst c)" and "distinct ks" and "set ks \<subseteq> fst ` set c"
  shows "distinct (map fst (foldl (\<lambda>c k. AList.delete k c) c ks)) \<and>
         map_of (foldl (\<lambda>c k. AList.delete k c) c ks) \<subseteq>\<^sub>m map_of c \<and>
         length (foldl (\<lambda>c k. AList.delete k c) c ks) = length c - length ks"
  using assms
proof (induction ks arbitrary: c)
  case (Cons k ks)
  have d: "distinct (map fst (AList.delete k c))" using Cons.prems(1) by (rule distinct_delete)
  have "fst ` set (AList.delete k c) = fst ` set c - {k}"
    using arg_cong [OF delete_keys [of k c], of set] by (simp only: set_map set_removeAll)
  then have ks: "set ks \<subseteq> fst ` set (AList.delete k c)" using Cons.prems(2,3) by auto
  have sub: "map_of (AList.delete k c) \<subseteq>\<^sub>m map_of c" by (simp add: map_le_def)
  have len: "length (AList.delete k c) = length c - 1"
    using Cons.prems by (intro length_delete) simp_all
  have "distinct ks" using Cons.prems(2) by simp
  note IH = Cons.IH [OF d this ks]
  from IH have "map_of (foldl (\<lambda>c k. AList.delete k c) (AList.delete k c) ks) \<subseteq>\<^sub>m map_of (AList.delete k c)"
    by (elim conjE)
  from map_le_trans [OF this sub] IH len show ?case by simp
qed simp

lemma flush_spec:
  assumes "trie_db_ok R s" and "rng_ok rng" and "\<And>xs. mset (iter xs) = mset xs"
    and "0 < td_cache_size s"
  shows "\<exists>s'. trie_db_flush rng iter s = (s', Inr ()) \<and> trie_db_ok R s' \<and> td_db s' = td_db s \<and>
              length (td_cache s') = min (length (td_cache s)) (td_cache_size s)"
proof (cases "length (td_cache s) \<le> td_cache_size s")
  case True
  then show ?thesis using assms(1) by (simp add: trie_db_flush_def)
next
  case False
  define keys where "keys = map fst (iter (td_cache s))"
  define num where "num = length (td_cache s) - td_cache_size s"
  have keys: "distinct keys" "set keys = fst ` set (td_cache s)" "length keys = length (td_cache s)"
  proof -
    have m: "mset (iter (td_cache s)) = mset (td_cache s)" by (rule assms(3))
    have "mset keys = mset (map fst (td_cache s))" using m by (simp add: keys_def)
    then show "distinct keys"
      using assms(1) by (metis mset_eq_imp_distinct_iff trie_db_ok_def)
    show "set keys = fst ` set (td_cache s)" using mset_eq_setD [OF m] by (simp add: keys_def)
    show "length keys = length (td_cache s)" using mset_eq_length [OF m] by (simp add: keys_def)
  qed
  have "num \<le> length [0..<length keys - 1]" using assms(4) False keys(3) by (simp add: num_def)
  then obtain ks where ks: "remove_draws rng keys 0 num [0..<length keys - 1] = Some ks" "length ks = num"
    "distinct ks" "set ks \<subseteq> (\<lambda>j. keys ! j) ` set [0..<length keys - 1]"
    using remove_draws_spec [OF assms(2), of "[0..<length keys - 1]" keys num] keys(1) by force
  have "(\<lambda>j. keys ! j) ` set [0..<length keys - 1] \<subseteq> set keys" by auto
  with ks(4) keys(2) have "set ks \<subseteq> fst ` set (td_cache s)" by blast
  note del = deletes_spec [OF _ ks(3) this]
  have "keys \<noteq> []" using False keys(3) by auto
  then have "rand_remove_list rng keys num = Some ks" using ks(1) by (simp add: rand_remove_list_def)
  then have "trie_db_flush rng iter s =
    (s\<lparr>td_cache := foldl (\<lambda>c k. AList.delete k c) (td_cache s) ks\<rparr>, Inr ())"
    using False by (simp add: trie_db_flush_def flip: keys_def num_def)
  moreover have "map_of (foldl (\<lambda>c k. AList.delete k c) (td_cache s) ks) \<subseteq>\<^sub>m kv_read R (td_db s)"
    by (rule map_le_trans [of _ "map_of (td_cache s)"]) (use del assms(1) in \<open>simp_all add: trie_db_ok_def\<close>)
  ultimately show ?thesis
    using del assms(1) False ks(2) by (simp add: trie_db_ok_def num_def)
qed

lemma remove_draws_short:
  assumes "rng_ok rng" and "length idx < num"
  shows "remove_draws rng keys i num idx = None"
  using assms
proof (induction num arbitrary: i idx)
  case (Suc num)
  show ?case
  proof (cases "idx = []")
    case False
    then have "0 < length idx" by simp
    then have "rng i (length idx) < length idx" using Suc.prems(1) unfolding rng_ok_def by blast
    then have "length (take (rng i (length idx)) idx @ drop (Suc (rng i (length idx))) idx) < num"
      using Suc.prems(2) by simp
    from Suc.IH [OF Suc.prems(1) this] show ?thesis using False by (simp add: Let_def)
  qed simp
qed simp

lemma flush_panics:
  assumes "rng_ok rng" and "\<And>xs. mset (iter xs) = mset xs" and "td_cache_size s = 0" and "td_cache s \<noteq> []"
  shows "snd (trie_db_flush rng iter s) = Inl TdPanic"
proof -
  have len: "length (iter (td_cache s)) = length (td_cache s)" using assms(2) by (metis mset_eq_length)
  then have "rand_remove_list rng (map fst (iter (td_cache s))) (length (td_cache s)) = None"
    using assms(1,4) by (simp add: rand_remove_list_def remove_draws_short)
  then show ?thesis using assms(3,4) by (simp add: trie_db_flush_def)
qed

section \<open>A concrete database\<close>

definition sample_kv_lib :: "(bytes \<rightharpoonup> bytes) kv_lib" where
  "sample_kv_lib =
     \<lparr>kl_get = (\<lambda>db k. Inr (db k)), kl_put = (\<lambda>db k v. Inr (db(k \<mapsto> v))),
      kl_write = (\<lambda>db kvs. Inr (foldl put_pair db kvs))\<rparr>"

lemma sample_kv_lib_ok: "kv_lib_ok sample_kv_lib"
  by (simp add: kv_lib_ok_def kv_read_def [abs_def] sample_kv_lib_def)

definition sample_trie_db :: "(bytes \<rightharpoonup> bytes) trie_db" where
  "sample_trie_db =
     cache_insert [1] [2] (cache_insert [3] [4] (trie_db_new [ [1] \<mapsto> [2], [3] \<mapsto> [4] ] 1))"

section \<open>Properties\<close>



end
