(* ===== verification/Addr_Manager.thy ===== *)
theory Addr_Manager
  imports Prelude
begin

text \<open>
  The known addresses of the peer store, \<open>core/network/src/peer_manager/peer_store\<close> (\<open>types.rs\<close>,
  \<open>addr_manager.rs\<close> and the groups of \<open>mod.rs\<close>). Multiaddresses, peer identifiers
  and IP networks come from libraries: they are the type variables \<open>'m\<close>, \<open>'p\<close>
  and \<open>'n\<close>, and the functions on them that the code calls are the record \<open>net_lib\<close>. Clock readings
  and random draws are arguments. Hash maps are association lists without duplicate keys and
  hash sets are lists; no theorem depends on their order.

  The lemmas carry the invariant of the manager (the shuffled list and the two indices agree with the
  stored addresses) through every operation; the property is that the manager refines a map.
\<close>

section \<open>Addresses\<close>

datatype ip_addr = V4 "32 word" | V6 "128 word"

type_synonym socket_addr = "ip_addr \<times> 16 word"

definition is_loopback :: "ip_addr \<Rightarrow> bool" where
  "is_loopback ip = (case ip of V4 a \<Rightarrow> to_be_bytes 4 a ! 0 = 127 | V6 a \<Rightarrow> a = 1)"

definition is_unspecified :: "ip_addr \<Rightarrow> bool" where
  "is_unspecified ip = (case ip of V4 a \<Rightarrow> a = 0 | V6 a \<Rightarrow> a = 0)"

definition to_ipv4 :: "128 word \<Rightarrow> 32 word option" where
  "to_ipv4 a =
     (let bs = to_be_bytes 16 a in
      if take 10 bs = replicate 10 0 \<and> take 2 (drop 10 bs) \<in> {[0, 0], [255, 255]}
      then Some (from_be_bytes (drop 12 bs)) else None)"

datatype addr_proto = Tcp "16 word" | P2p bytes | OtherProto bytes

record ('m, 'p, 'n) net_lib =
  nl_socketaddr :: "'m \<Rightarrow> socket_addr option"
  nl_peer_id :: "'m \<Rightarrow> 'p option"
  nl_network :: "ip_addr \<Rightarrow> 'n"
  nl_contains :: "'n \<Rightarrow> ip_addr \<Rightarrow> bool"
  nl_reachable :: "ip_addr \<Rightarrow> bool"
  nl_iter :: "'m \<Rightarrow> addr_proto list"
  nl_collect :: "addr_proto list \<Rightarrow> 'm"
  nl_to_vec :: "'m \<Rightarrow> bytes"
  nl_from_vec :: "bytes \<Rightarrow> 'm option"
  nl_peer_from_bytes :: "bytes \<Rightarrow> 'p option"
  nl_peer_bytes :: "'p \<Rightarrow> bytes"

datatype peer_error = PePanic | PeerStoreEvictionFailed | ProcessExit

type_synonym ('s, 'a) peer_op = "('s, peer_error, 'a) st"

record 'm addr_info =
  ai_addr :: 'm
  ai_score :: int
  ai_last_connected :: u64
  ai_last_tried :: u64
  ai_attempts :: u32
  ai_random_pos :: nat

definition ADDR_COUNT_LIMIT :: nat where "ADDR_COUNT_LIMIT = 16384"
definition ADDR_TIMEOUT_MS :: u64 where "ADDR_TIMEOUT_MS = 7 * 24 * 3600 * 1000"
definition ADDR_TRY_TIMEOUT_MS :: u64 where "ADDR_TRY_TIMEOUT_MS = 3 * 24 * 3600 * 1000"
definition DIAL_INTERVAL :: u64 where "DIAL_INTERVAL = 15 * 1000"
definition ADDR_MAX_RETRIES :: u32 where "ADDR_MAX_RETRIES = 3"
definition ADDR_MAX_FAILURES :: u32 where "ADDR_MAX_FAILURES = 10"

definition addr_info_new :: "'m \<Rightarrow> u64 \<Rightarrow> int \<Rightarrow> 'm addr_info" where
  "addr_info_new addr last_connected score =
     \<lparr>ai_addr = addr, ai_score = score, ai_last_connected = last_connected, ai_last_tried = 0, ai_attempts = 0,
      ai_random_pos = 0\<rparr>"

definition tried_in_last_minute :: "'m addr_info \<Rightarrow> u64 \<Rightarrow> bool" where
  "tried_in_last_minute info now \<longleftrightarrow> saturating_sub now 60000 \<le> ai_last_tried info"

definition is_connectable :: "'m addr_info \<Rightarrow> u64 \<Rightarrow> bool" where
  "is_connectable info now =
     (if tried_in_last_minute info now then True
      else if ai_last_connected info = 0 \<and> ADDR_MAX_RETRIES \<le> ai_attempts info then False
      else if ADDR_TIMEOUT_MS < saturating_sub now (ai_last_connected info) \<and> ADDR_MAX_FAILURES \<le> ai_attempts info
      then False
      else True)"

definition mark_tried :: "u64 \<Rightarrow> 'm addr_info \<Rightarrow> 'm addr_info" where
  "mark_tried now info = info\<lparr>ai_last_tried := now, ai_attempts := saturating_add (ai_attempts info) 1\<rparr>"

definition mark_connected :: "u64 \<Rightarrow> 'm addr_info \<Rightarrow> 'm addr_info" where
  "mark_connected now info = info\<lparr>ai_last_connected := now, ai_attempts := 0\<rparr>"

datatype group = GroupNone | LocalNetwork | IP4 bytes | IP6 bytes

definition group_of :: "('m, 'p, 'n) net_lib \<Rightarrow> 'm \<Rightarrow> group" where
  "group_of L addr =
     (case nl_socketaddr L addr of
        None \<Rightarrow> GroupNone
      | Some (ip, _) \<Rightarrow>
          if is_loopback ip then LocalNetwork
          else
            case ip of
              V4 a \<Rightarrow> IP4 (take 2 (to_be_bytes 4 a))
            | V6 a \<Rightarrow>
                (case to_ipv4 a of
                   Some b \<Rightarrow> IP4 (take 2 (to_be_bytes 4 b))
                 | None \<Rightarrow> IP6 (take 4 (to_be_bytes 16 a))))"

section \<open>The address manager\<close>

record ('m, 'p) manager =
  mg_next_id :: u64
  mg_addr_to_id :: "(socket_addr \<times> u64) list"
  mg_id_to_info :: "(u64 \<times> 'm addr_info) list"
  mg_peer_ids :: "('p \<times> u64 list) list"
  mg_random_ids :: "u64 list"

type_synonym ('m, 'p, 'a) mgr_op = "(('m, 'p) manager, 'a) peer_op"

definition manager_default :: "('m, 'p) manager" where
  "manager_default =
     \<lparr>mg_next_id = 0, mg_addr_to_id = [], mg_id_to_info = [], mg_peer_ids = [], mg_random_ids = []\<rparr>"

definition mgr_get :: "('m, 'p, 'n) net_lib \<Rightarrow> 'm \<Rightarrow> ('m, 'p) manager \<Rightarrow> 'm addr_info option" where
  "mgr_get L addr m =
     Option.bind (nl_socketaddr L addr) (\<lambda>k.
       Option.bind (map_of (mg_addr_to_id m) k) (map_of (mg_id_to_info m)))"

text \<open>\<open>get_mut\<close> together with what the caller writes through the reference.\<close>

definition mgr_update ::
  "('m, 'p, 'n) net_lib \<Rightarrow> 'm \<Rightarrow> ('m addr_info \<Rightarrow> 'm addr_info) \<Rightarrow> ('m, 'p) manager \<Rightarrow> ('m, 'p) manager" where
  "mgr_update L addr f m =
     (case nl_socketaddr L addr of
        None \<Rightarrow> m
      | Some k \<Rightarrow>
          case map_of (mg_addr_to_id m) k of
            None \<Rightarrow> m
          | Some i \<Rightarrow>
              case map_of (mg_id_to_info m) i of
                None \<Rightarrow> m
              | Some info \<Rightarrow> m\<lparr>mg_id_to_info := AList.update i (f info) (mg_id_to_info m)\<rparr>)"

definition set_random_pos :: "nat \<Rightarrow> nat \<Rightarrow> ('m, 'p, unit) mgr_op" where
  "set_random_pos i pos =
     st_bind (st_gets id) (\<lambda>m.
       if length (mg_random_ids m) \<le> i then st_throw PePanic
       else
         case map_of (mg_id_to_info m) (mg_random_ids m ! i) of
           None \<Rightarrow> st_throw PePanic
         | Some info \<Rightarrow>
             st_modify (\<lambda>m. m\<lparr>mg_id_to_info :=
               AList.update (mg_random_ids m ! i) (info\<lparr>ai_random_pos := pos\<rparr>) (mg_id_to_info m)\<rparr>))"

definition swap_random_id :: "nat \<Rightarrow> nat \<Rightarrow> ('m, 'p, unit) mgr_op" where
  "swap_random_id i j =
     (if i = j then st_return ()
      else
        st_seq (set_random_pos i j) (
        st_seq (set_random_pos j i) (
        st_modify (\<lambda>m. m\<lparr>mg_random_ids :=
          (mg_random_ids m)[i := mg_random_ids m ! j, j := mg_random_ids m ! i]\<rparr>))))"

definition mgr_remove :: "('m, 'p, 'n) net_lib \<Rightarrow> 'm \<Rightarrow> ('m, 'p, 'm addr_info option) mgr_op" where
  "mgr_remove L addr =
     st_bind (st_gets id) (\<lambda>m.
       case nl_socketaddr L addr of
         None \<Rightarrow> st_return None
       | Some k \<Rightarrow>
           case map_of (mg_addr_to_id m) k of
             None \<Rightarrow> st_return None
           | Some i \<Rightarrow>
               st_seq (st_modify (\<lambda>m. m\<lparr>mg_addr_to_id := AList.delete k (mg_addr_to_id m)\<rparr>)) (
               case map_of (mg_id_to_info m) i of
                 None \<Rightarrow> st_throw PePanic
               | Some info \<Rightarrow>
                   if mg_random_ids m = [] then st_throw PePanic
                   else
                     st_seq (swap_random_id (ai_random_pos info) (length (mg_random_ids m) - 1)) (
                     st_seq (st_modify (\<lambda>m. m\<lparr>mg_random_ids := butlast (mg_random_ids m)\<rparr>)) (
                     st_seq
                       (case nl_peer_id L addr of
                          None \<Rightarrow> st_return ()
                        | Some p \<Rightarrow> st_modify (\<lambda>m.
                            case map_of (mg_peer_ids m) p of
                              None \<Rightarrow> m
                            | Some ids \<Rightarrow> m\<lparr>mg_peer_ids := AList.update p (removeAll i ids) (mg_peer_ids m)\<rparr>))
                       (st_bind (st_gets (\<lambda>m. map_of (mg_id_to_info m) i)) (\<lambda>removed.
                        st_seq (st_modify (\<lambda>m. m\<lparr>mg_id_to_info := AList.delete i (mg_id_to_info m)\<rparr>))
                          (st_return removed)))))))"

definition set_insert :: "'x \<Rightarrow> 'x list \<Rightarrow> 'x list" where
  "set_insert x xs = (if x \<in> set xs then xs else xs @ [x])"

definition mgr_file :: "socket_addr \<Rightarrow> 'p \<Rightarrow> 'm addr_info \<Rightarrow> ('m, 'p, unit) mgr_op" where
  "mgr_file k p info =
     st_seq (st_modify (\<lambda>m. m\<lparr>
         mg_addr_to_id := AList.update k (mg_next_id m) (mg_addr_to_id m),
         mg_id_to_info := AList.update (mg_next_id m) (info\<lparr>ai_random_pos := length (mg_random_ids m)\<rparr>) (mg_id_to_info m),
         mg_peer_ids := AList.update p
           (set_insert (mg_next_id m) (case map_of (mg_peer_ids m) p of None \<Rightarrow> [] | Some ids \<Rightarrow> ids)) (mg_peer_ids m),
         mg_random_ids := mg_random_ids m @ [mg_next_id m]\<rparr>)) (
     st_bind (st_gets mg_next_id) (\<lambda>i.
     st_bind (st_lift (ok_or PePanic (checked_add i 1))) (\<lambda>i'.
     st_modify (\<lambda>m. m\<lparr>mg_next_id := i'\<rparr>))))"

definition mgr_add :: "('m, 'p, 'n) net_lib \<Rightarrow> 'm addr_info \<Rightarrow> ('m, 'p, unit) mgr_op" where
  "mgr_add L info =
     (case nl_socketaddr L (ai_addr info) of
        None \<Rightarrow> st_return ()
      | Some k \<Rightarrow>
          st_bind (st_gets (mgr_get L (ai_addr info))) (\<lambda>existing.
          let file = (case nl_peer_id L (ai_addr info) of None \<Rightarrow> st_return () | Some p \<Rightarrow> mgr_file k p info) in
          case existing of
            None \<Rightarrow> file
          | Some old \<Rightarrow>
              if ai_last_connected old < ai_last_connected info
              then st_seq (mgr_remove L (ai_addr info)) file
              else st_return ()))"

text \<open>
  One round of the shuffle in \<open>fetch_random\<close>: \<open>gen_range(i, len)\<close> yields \<open>i + r mod (len - i)\<close> for
  the draw \<open>r\<close>. The loop carries the addresses seen and found so far and stops when \<open>cnt\<close> are found.
\<close>

fun fetch_loop ::
  "('m, 'p, 'n) net_lib \<Rightarrow> (nat \<Rightarrow> nat) \<Rightarrow> u64 \<Rightarrow> nat \<Rightarrow> ('m addr_info \<Rightarrow> bool) \<Rightarrow> nat list \<Rightarrow>
     ip_addr list \<Rightarrow> 'm addr_info list \<Rightarrow> ('m, 'p, 'm addr_info list) mgr_op" where
  "fetch_loop L rng now cnt f [] ips found = st_return found"
| "fetch_loop L rng now cnt f (i # is) ips found =
     st_bind (st_gets (\<lambda>m. length (mg_random_ids m))) (\<lambda>len.
     st_seq (swap_random_id (i + rng i mod (len - i)) i) (
     st_bind (st_gets (\<lambda>m. map_of (mg_id_to_info m) (mg_random_ids m ! i))) (\<lambda>entry.
     case entry of
       None \<Rightarrow> st_throw PePanic
     | Some info \<Rightarrow>
         case nl_socketaddr L (ai_addr info) of
           None \<Rightarrow> fetch_loop L rng now cnt f is ips found
         | Some (ip, _) \<Rightarrow>
             let is_unique_ip = ip \<notin> set ips;
                 is_test_ip = is_unspecified ip \<or> is_loopback ip;
                 found' = (if (is_test_ip \<or> is_unique_ip) \<and> is_connectable info now \<and> f info
                           then found @ [info] else found)
             in if length found' = cnt then st_return found'
                else fetch_loop L rng now cnt f is (set_insert ip ips) found')))"

definition fetch_random ::
  "('m, 'p, 'n) net_lib \<Rightarrow> (nat \<Rightarrow> nat) \<Rightarrow> u64 \<Rightarrow> nat \<Rightarrow> ('m addr_info \<Rightarrow> bool) \<Rightarrow>
     ('m, 'p, 'm addr_info list) mgr_op" where
  "fetch_random L rng now cnt f =
     st_bind (st_gets (\<lambda>m. length (mg_random_ids m))) (\<lambda>len. fetch_loop L rng now cnt f [0..<len] [] [])"

definition mgr_count :: "('m, 'p) manager \<Rightarrow> nat" where
  "mgr_count m = length (mg_addr_to_id m)"

definition addrs_iter :: "('m, 'p) manager \<Rightarrow> 'm addr_info list" where
  "addrs_iter m = map snd (mg_id_to_info m)"

definition get_by_peer_id :: "'p \<Rightarrow> u64 \<Rightarrow> ('m addr_info \<Rightarrow> bool) \<Rightarrow> ('m, 'p) manager \<Rightarrow> peer_error + 'm list" where
  "get_by_peer_id p now f m =
     (case map_of (mg_peer_ids m) p of
        None \<Rightarrow> Inr []
      | Some ids \<Rightarrow>
          res_bind (res_map (\<lambda>i. ok_or PePanic (map_of (mg_id_to_info m) i)) ids) (\<lambda>infos.
            Inr (remdups (map ai_addr (filter (\<lambda>info. is_connectable info now \<and> f info) infos)))))"

section \<open>The invariant of the address manager\<close>

text \<open>
  \<open>shuffle_ok\<close>: the shuffled list enumerates the stored addresses, each of which knows its position.
  \<open>index_ok\<close>: the socket index and the stored addresses are inverse to each other, and the peer index
  has every stored address under its own peer. The converse fails for the peer index: an entry can
  outlive the address it names.
\<close>

definition shuffle_ok :: "('m, 'p) manager \<Rightarrow> bool" where
  "shuffle_ok m \<longleftrightarrow>
     distinct (mg_random_ids m) \<and> set (mg_random_ids m) = dom (map_of (mg_id_to_info m)) \<and>
     (\<forall>i < length (mg_random_ids m).
        map_option ai_random_pos (map_of (mg_id_to_info m) (mg_random_ids m ! i)) = Some i)"

definition entries :: "('m, 'p) manager \<Rightarrow> u64 \<rightharpoonup> 'm" where
  "entries m i = map_option ai_addr (map_of (mg_id_to_info m) i)"

definition maps_ok ::
  "('m, 'p, 'n) net_lib \<Rightarrow> (socket_addr \<rightharpoonup> u64) \<Rightarrow> (u64 \<rightharpoonup> 'm) \<Rightarrow> ('p \<rightharpoonup> u64 list) \<Rightarrow> u64 \<Rightarrow> bool" where
  "maps_ok L a e p n \<longleftrightarrow>
     (\<forall>k i. a k = Some i \<longrightarrow> (\<exists>x. e i = Some x \<and> nl_socketaddr L x = Some k)) \<and>
     (\<forall>i x. e i = Some x \<longrightarrow> i < n \<and> (\<exists>k. nl_socketaddr L x = Some k \<and> a k = Some i) \<and>
        (\<exists>q ids. nl_peer_id L x = Some q \<and> p q = Some ids \<and> i \<in> set ids)) \<and>
     (\<forall>q ids i. p q = Some ids \<longrightarrow> i \<in> set ids \<longrightarrow> i < n)"

definition index_ok :: "('m, 'p, 'n) net_lib \<Rightarrow> ('m, 'p) manager \<Rightarrow> bool" where
  "index_ok L m \<longleftrightarrow>
     distinct (map fst (mg_addr_to_id m)) \<and> distinct (map fst (mg_id_to_info m)) \<and>
     maps_ok L (map_of (mg_addr_to_id m)) (entries m) (map_of (mg_peer_ids m)) (mg_next_id m)"

definition mgr_ok :: "('m, 'p, 'n) net_lib \<Rightarrow> ('m, 'p) manager \<Rightarrow> bool" where
  "mgr_ok L m \<longleftrightarrow> shuffle_ok m \<and> index_ok L m"

definition erase_pos :: "'m addr_info \<Rightarrow> 'm addr_info" where
  "erase_pos info = info\<lparr>ai_random_pos := 0\<rparr>"

text \<open>What the manager stores: an address per socket, without the position in the shuffled list.\<close>

definition mgr_view :: "('m, 'p) manager \<Rightarrow> socket_addr \<rightharpoonup> 'm addr_info" where
  "mgr_view m k = Option.bind (map_of (mg_addr_to_id m) k) (\<lambda>i. map_option erase_pos (map_of (mg_id_to_info m) i))"

lemma erase_pos_simps [simp]:
  "ai_addr (erase_pos info) = ai_addr info" "ai_last_connected (erase_pos info) = ai_last_connected info"
  "erase_pos (info\<lparr>ai_random_pos := x\<rparr>) = erase_pos info"
  by (simp_all add: erase_pos_def)

definition same_infos :: "('m, 'p) manager \<Rightarrow> ('m, 'p) manager \<Rightarrow> bool" where
  "same_infos m m' \<longleftrightarrow>
     mg_next_id m' = mg_next_id m \<and> mg_addr_to_id m' = mg_addr_to_id m \<and> mg_peer_ids m' = mg_peer_ids m \<and>
     map fst (mg_id_to_info m') = map fst (mg_id_to_info m) \<and> length (mg_random_ids m') = length (mg_random_ids m) \<and>
     (\<forall>i. map_option erase_pos (map_of (mg_id_to_info m') i) = map_option erase_pos (map_of (mg_id_to_info m) i))"

lemma same_infos_refl: "same_infos m m" by (simp add: same_infos_def)

lemma same_infos_trans: "same_infos a b \<Longrightarrow> same_infos b c \<Longrightarrow> same_infos a c" by (simp add: same_infos_def)

lemma same_infos_view: "same_infos m m' \<Longrightarrow> mgr_view m' = mgr_view m"
  by (rule ext) (simp add: mgr_view_def same_infos_def)

lemma map_option_erase_addr:
  "map_option erase_pos x = map_option erase_pos y \<Longrightarrow> map_option ai_addr x = map_option ai_addr y"
  by (cases x; cases y) (auto simp: erase_pos_def, metis addr_info.select_convs(1) addr_info.surjective addr_info.update_convs(6))

lemma same_infos_entries: "same_infos m m' \<Longrightarrow> entries m' = entries m"
  unfolding entries_def by (rule ext, rule map_option_erase_addr) (simp add: same_infos_def)

lemma maps_okD:
  assumes "maps_ok L a e p n"
  shows "a k = Some i \<Longrightarrow> \<exists>x. e i = Some x \<and> nl_socketaddr L x = Some k" and "e i = Some x \<Longrightarrow> i < n"
    and "e i = Some x \<Longrightarrow> \<exists>k. nl_socketaddr L x = Some k \<and> a k = Some i"
    and "e i = Some x \<Longrightarrow> \<exists>q ids. nl_peer_id L x = Some q \<and> p q = Some ids \<and> i \<in> set ids"
    and "p q = Some ids \<Longrightarrow> i \<in> set ids \<Longrightarrow> i < n"
  using assms unfolding maps_ok_def by blast+

lemma index_okD:
  assumes "index_ok L m"
  shows "distinct (map fst (mg_addr_to_id m))" and "distinct (map fst (mg_id_to_info m))"
    and "map_of (mg_addr_to_id m) k = Some i \<Longrightarrow>
      \<exists>info. map_of (mg_id_to_info m) i = Some info \<and> nl_socketaddr L (ai_addr info) = Some k"
    and "map_of (mg_id_to_info m) i = Some info \<Longrightarrow> i < mg_next_id m"
    and "map_of (mg_id_to_info m) i = Some info \<Longrightarrow>
      \<exists>k. nl_socketaddr L (ai_addr info) = Some k \<and> map_of (mg_addr_to_id m) k = Some i"
    and "map_of (mg_id_to_info m) i = Some info \<Longrightarrow>
      \<exists>p ids. nl_peer_id L (ai_addr info) = Some p \<and> map_of (mg_peer_ids m) p = Some ids \<and> i \<in> set ids"
    and "map_of (mg_peer_ids m) p = Some ids \<Longrightarrow> i \<in> set ids \<Longrightarrow> i < mg_next_id m"
proof -
  have d: "distinct (map fst (mg_addr_to_id m))" "distinct (map fst (mg_id_to_info m))"
    and mo: "maps_ok L (map_of (mg_addr_to_id m)) (entries m) (map_of (mg_peer_ids m)) (mg_next_id m)"
    using assms by (simp_all add: index_ok_def)
  show "distinct (map fst (mg_addr_to_id m))" "distinct (map fst (mg_id_to_info m))" by (fact d)+
  show "map_of (mg_addr_to_id m) k = Some i \<Longrightarrow>
      \<exists>info. map_of (mg_id_to_info m) i = Some info \<and> nl_socketaddr L (ai_addr info) = Some k"
    using maps_okD(1) [OF mo] by (fastforce simp: entries_def)
  show "map_of (mg_peer_ids m) p = Some ids \<Longrightarrow> i \<in> set ids \<Longrightarrow> i < mg_next_id m" by (rule maps_okD(5) [OF mo])
  assume "map_of (mg_id_to_info m) i = Some info"
  then have e: "entries m i = Some (ai_addr info)" by (simp add: entries_def)
  show "i < mg_next_id m" "\<exists>k. nl_socketaddr L (ai_addr info) = Some k \<and> map_of (mg_addr_to_id m) k = Some i"
    "\<exists>p ids. nl_peer_id L (ai_addr info) = Some p \<and> map_of (mg_peer_ids m) p = Some ids \<and> i \<in> set ids"
    using maps_okD(2,3,4) [OF mo e] by blast+
qed

lemma same_infos_index: "same_infos m m' \<Longrightarrow> index_ok L m \<Longrightarrow> index_ok L m'"
  using same_infos_entries [of m m'] by (simp add: index_ok_def same_infos_def)

text \<open>How the three maps change when an entry is removed or filed.\<close>

lemma maps_ok_remove:
  assumes ok: "maps_ok L a e p n" and k: "a k = Some i"
    and p': "\<And>q. p' q = p q \<or> p' q = map_option (removeAll i) (p q)"
  shows "maps_ok L (a(k := None)) (e(i := None)) p' n"
  unfolding maps_ok_def
proof (intro conjI allI impI)
  fix k' j assume "(a(k := None)) k' = Some j"
  then have kj: "a k' = Some j" "k' \<noteq> k" by (auto split: if_splits)
  then have "j \<noteq> i" using maps_okD(1) [OF ok kj(1)] maps_okD(1) [OF ok k] by auto
  then show "\<exists>x. (e(i := None)) j = Some x \<and> nl_socketaddr L x = Some k'" using maps_okD(1) [OF ok kj(1)] by simp
next
  fix j x assume "(e(i := None)) j = Some x"
  then have j: "e j = Some x" "j \<noteq> i" by (auto split: if_splits)
  show "j < n" by (rule maps_okD(2) [OF ok j(1)])
  obtain k' where k': "nl_socketaddr L x = Some k'" "a k' = Some j" using maps_okD(3) [OF ok j(1)] by blast
  then have "k' \<noteq> k" using k j(2) by auto
  then show "\<exists>k'. nl_socketaddr L x = Some k' \<and> (a(k := None)) k' = Some j" using k' by (intro exI [of _ k']) simp
  obtain q ids where "nl_peer_id L x = Some q" "p q = Some ids" "j \<in> set ids" using maps_okD(4) [OF ok j(1)] by blast
  then show "\<exists>q ids. nl_peer_id L x = Some q \<and> p' q = Some ids \<and> j \<in> set ids" using p' [of q] j(2) by auto
next
  fix q ids j assume "p' q = Some ids" "j \<in> set ids"
  then have "\<exists>js. p q = Some js \<and> j \<in> set js" using p' [of q] by (cases "p q") auto
  then show "j < n" using maps_okD(5) [OF ok] by blast
qed

lemma maps_ok_file:
  assumes ok: "maps_ok L a e p n" and x: "nl_socketaddr L x = Some k" "nl_peer_id L x = Some q"
    and free: "a k = None" "e n = None" and n': "n < n'"
    and ids: "set ids = insert n (case p q of None \<Rightarrow> {} | Some js \<Rightarrow> set js)"
  shows "maps_ok L (a(k \<mapsto> n)) (e(n \<mapsto> x)) (p(q \<mapsto> ids)) n'"
  unfolding maps_ok_def
proof (intro conjI allI impI)
  fix k' j assume "(a(k \<mapsto> n)) k' = Some j"
  then show "\<exists>y. (e(n \<mapsto> x)) j = Some y \<and> nl_socketaddr L y = Some k'"
    using maps_okD(1) [OF ok, of k' j] x(1) free(2) by (auto split: if_splits)
next
  fix j y assume "(e(n \<mapsto> x)) j = Some y"
  then consider "j = n" "y = x" | "j \<noteq> n" "e j = Some y" by (auto split: if_splits)
  note c = this
  show "j < n'" using c maps_okD(2) [OF ok] n' by (metis order_less_trans)
  show "\<exists>k'. nl_socketaddr L y = Some k' \<and> (a(k \<mapsto> n)) k' = Some j"
    using c
  proof cases
    case 1
    then show ?thesis using x(1) by (intro exI [of _ k]) simp
  next
    case 2
    then show ?thesis using maps_okD(3) [OF ok 2(2)] free(1) by (metis fun_upd_other option.distinct(1))
  qed
  show "\<exists>r js. nl_peer_id L y = Some r \<and> (p(q \<mapsto> ids)) r = Some js \<and> j \<in> set js"
    using c
  proof cases
    case 1
    then show ?thesis using x(2) ids by auto
  next
    case 2
    obtain r js where r: "nl_peer_id L y = Some r" "p r = Some js" "j \<in> set js" using maps_okD(4) [OF ok 2(2)] by blast
    then show ?thesis using ids by (cases "r = q") auto
  qed
next
  fix r js j assume "(p(q \<mapsto> ids)) r = Some js" "j \<in> set js"
  then have "j = n \<or> j < n" using ids maps_okD(5) [OF ok, of r _ j] by (auto split: if_splits option.splits)
  then show "j < n'" using n' by auto
qed

lemma update_keys_known: "map_of al k \<noteq> None \<Longrightarrow> map fst (AList.update k v al) = map fst al"
  by (induction al) (auto split: if_splits)

lemma swap_random_id_ok:
  assumes ok: "shuffle_ok m" and i: "i < length (mg_random_ids m)" and j: "j < length (mg_random_ids m)"
  shows "\<exists>m'. swap_random_id i j m = (m', Inr ()) \<and> shuffle_ok m' \<and> same_infos m m' \<and>
    mg_random_ids m' = (mg_random_ids m)[i := mg_random_ids m ! j, j := mg_random_ids m ! i]"
proof (cases "i = j")
  case True
  then show ?thesis using ok by (simp add: swap_random_id_def same_infos_refl)
next
  case False
  let ?R = "mg_random_ids m" and ?I = "mg_id_to_info m"
  let ?R' = "?R[i := ?R ! j, j := ?R ! i]"
  have d: "distinct ?R" and dm: "set ?R = dom (map_of ?I)" using ok by (simp_all add: shuffle_ok_def)
  have pos: "\<And>k. k < length ?R \<Longrightarrow> map_option ai_random_pos (map_of ?I (?R ! k)) = Some k"
    using ok by (simp add: shuffle_ok_def)
  obtain a b where a: "map_of ?I (?R ! i) = Some a" and b: "map_of ?I (?R ! j) = Some b"
    using pos [OF i] pos [OF j] by auto
  have ne: "?R ! i \<noteq> ?R ! j" using d i j False by (simp add: nth_eq_iff_index_eq)
  let ?I' = "AList.update (?R ! j) (b\<lparr>ai_random_pos := i\<rparr>) (AList.update (?R ! i) (a\<lparr>ai_random_pos := j\<rparr>) ?I)"
  let ?m = "m\<lparr>mg_id_to_info := ?I', mg_random_ids := ?R'\<rparr>"
  have run: "swap_random_id i j m = (?m, Inr ())"
    using False i j a b ne by (simp add: swap_random_id_def set_random_pos_def st_seq_apply st_bind_apply)
  have "set ?R' = set ?R" using i j by (rule set_swap)
  moreover have "dom (map_of ?I') = dom (map_of ?I)" using a b by auto
  moreover have "map_option ai_random_pos (map_of ?I' (?R' ! k)) = Some k" if "k < length ?R" for k
    using that pos [OF that] ne i j d by (auto simp: nth_list_update nth_eq_iff_index_eq)
  ultimately have "shuffle_ok ?m" using d dm i j by (simp add: shuffle_ok_def distinct_swap)
  moreover have "same_infos m ?m"
    using a b ne by (simp add: same_infos_def update_keys_known)
  ultimately show ?thesis using run by simp
qed

lemma shuffle_ok_butlast:
  assumes "shuffle_ok m" and R: "mg_random_ids m = R @ [i]"
  shows "shuffle_ok (m\<lparr>mg_random_ids := R, mg_peer_ids := P, mg_id_to_info := AList.delete i (mg_id_to_info m)\<rparr>)"
proof -
  have d: "i \<notin> set R" "distinct R" and dm: "insert i (set R) = dom (map_of (mg_id_to_info m))"
    using assms by (simp_all add: shuffle_ok_def)
  have pos: "map_option ai_random_pos (map_of (mg_id_to_info m) (R ! k)) = Some k" if "k < length R" for k
    using assms(1) that by (auto simp: shuffle_ok_def R nth_append dest: spec [of _ k])
  have "R ! k \<noteq> i" if "k < length R" for k using d(1) that nth_mem by blast
  then show ?thesis using d dm pos by (auto simp: shuffle_ok_def)
qed

lemma mgr_remove_absent:
  "Option.bind (nl_socketaddr L addr) (map_of (mg_addr_to_id m)) = None \<Longrightarrow> mgr_remove L addr m = (m, Inr None)"
  by (auto simp: mgr_remove_def st_bind_apply split: option.splits)

lemma mgr_remove_run:
  assumes ok: "mgr_ok L m" and k: "nl_socketaddr L addr = Some k" and i: "map_of (mg_addr_to_id m) k = Some i"
  shows "\<exists>m' info info'. mgr_remove L addr m = (m', Inr (Some info')) \<and> map_of (mg_id_to_info m) i = Some info \<and>
    erase_pos info' = erase_pos info \<and> mg_next_id m' = mg_next_id m \<and>
    mg_addr_to_id m' = AList.delete k (mg_addr_to_id m) \<and> shuffle_ok m' \<and>
    map fst (mg_id_to_info m') = removeAll i (map fst (mg_id_to_info m)) \<and>
    (\<forall>x. map_option erase_pos (map_of (mg_id_to_info m') x) =
       (if x = i then None else map_option erase_pos (map_of (mg_id_to_info m) x))) \<and>
    mg_peer_ids m' = (case Option.bind (nl_peer_id L addr) (\<lambda>p. map_option (Pair p) (map_of (mg_peer_ids m) p)) of
       None \<Rightarrow> mg_peer_ids m | Some (p, ids) \<Rightarrow> AList.update p (removeAll i ids) (mg_peer_ids m))"
proof -
  let ?R = "mg_random_ids m" and ?m1 = "m\<lparr>mg_addr_to_id := AList.delete k (mg_addr_to_id m)\<rparr>"
  have sh: "shuffle_ok m" using ok by (simp add: mgr_ok_def)
  obtain info where info: "map_of (mg_id_to_info m) i = Some info"
    using index_okD(3) [OF _ i] ok unfolding mgr_ok_def by blast
  then have "i \<in> set ?R" using sh by (auto simp: shuffle_ok_def)
  then obtain n where n: "n < length ?R" "?R ! n = i" by (auto simp: in_set_conv_nth)
  then have pos: "ai_random_pos info = n" using sh info by (auto simp: shuffle_ok_def)
  have ne: "?R \<noteq> []" and last: "length ?R - 1 < length ?R" using n by auto
  have "shuffle_ok ?m1" using sh by (simp add: shuffle_ok_def)
  then obtain m2 where swap: "swap_random_id n (length ?R - 1) ?m1 = (m2, Inr ())" and sh2: "shuffle_ok m2"
    and same: "same_infos ?m1 m2" and R2: "mg_random_ids m2 = ?R[n := ?R ! (length ?R - 1), length ?R - 1 := i]"
    using swap_random_id_ok [of ?m1 n "length ?R - 1"] n last by auto
  obtain info2 where info2: "map_of (mg_id_to_info m2) i = Some info2" and er: "erase_pos info2 = erase_pos info"
    using same info by (auto simp: same_infos_def dest!: spec [of _ i])
  let ?P = "case Option.bind (nl_peer_id L addr) (\<lambda>p. map_option (Pair p) (map_of (mg_peer_ids m) p)) of
       None \<Rightarrow> mg_peer_ids m | Some (p, ids) \<Rightarrow> AList.update p (removeAll i ids) (mg_peer_ids m)"
  let ?m' = "m2\<lparr>mg_random_ids := butlast (mg_random_ids m2), mg_peer_ids := ?P,
    mg_id_to_info := AList.delete i (mg_id_to_info m2)\<rparr>"
  have P2: "mg_peer_ids m2 = mg_peer_ids m" using same by (simp add: same_infos_def)
  have run: "mgr_remove L addr m = (?m', Inr (Some info2))"
    using k i info pos ne swap info2 P2
    by (auto simp: mgr_remove_def st_bind_apply st_seq_apply split: option.splits)
  have snoc: "mg_random_ids m2 = butlast (mg_random_ids m2) @ [i]"
  proof -
    have "length (mg_random_ids m2) = length ?R" "mg_random_ids m2 \<noteq> []" using R2 ne by auto
    moreover have "last (mg_random_ids m2) = i" using calculation last by (simp add: last_conv_nth R2)
    ultimately show ?thesis by (metis append_butlast_last_id)
  qed
  have "shuffle_ok ?m'" by (rule shuffle_ok_butlast [OF sh2 snoc])
  moreover have "map fst (AList.delete i (mg_id_to_info m2)) = removeAll i (map fst (mg_id_to_info m))"
    using same by (simp add: same_infos_def delete_keys)
  moreover have "mg_next_id m2 = mg_next_id m" "mg_addr_to_id m2 = AList.delete k (mg_addr_to_id m)"
    "\<forall>x. map_option erase_pos (map_of (mg_id_to_info m2) x) = map_option erase_pos (map_of (mg_id_to_info m) x)"
    using same by (simp_all add: same_infos_def)
  ultimately show ?thesis using run info er by (intro exI [of _ ?m'] exI [of _ info] exI [of _ info2]) simp
qed

lemma mgr_remove_ok:
  assumes ok: "mgr_ok L m" and k: "nl_socketaddr L addr = Some k" and i: "map_of (mg_addr_to_id m) k = Some i"
  shows "\<exists>m' info'. mgr_remove L addr m = (m', Inr (Some info')) \<and> mgr_view m k = Some (erase_pos info') \<and>
    mgr_ok L m' \<and> mgr_view m' = (mgr_view m)(k := None) \<and> mg_next_id m' = mg_next_id m \<and>
    mg_addr_to_id m' = AList.delete k (mg_addr_to_id m) \<and> map_of (mg_id_to_info m') i = None \<and>
    (\<forall>p. nl_peer_id L addr \<noteq> Some p \<longrightarrow> map_of (mg_peer_ids m') p = map_of (mg_peer_ids m) p)"
proof -
  have ix: "index_ok L m" using ok by (simp add: mgr_ok_def)
  obtain m' info info' where run: "mgr_remove L addr m = (m', Inr (Some info'))" and info: "map_of (mg_id_to_info m) i = Some info"
    and er: "erase_pos info' = erase_pos info" and nx: "mg_next_id m' = mg_next_id m"
    and A: "mg_addr_to_id m' = AList.delete k (mg_addr_to_id m)" and sh: "shuffle_ok m'"
    and keys: "map fst (mg_id_to_info m') = removeAll i (map fst (mg_id_to_info m))"
    and I: "\<And>x. map_option erase_pos (map_of (mg_id_to_info m') x) =
       (if x = i then None else map_option erase_pos (map_of (mg_id_to_info m) x))"
    and P: "mg_peer_ids m' = (case Option.bind (nl_peer_id L addr) (\<lambda>p. map_option (Pair p) (map_of (mg_peer_ids m) p)) of
       None \<Rightarrow> mg_peer_ids m | Some (p, ids) \<Rightarrow> AList.update p (removeAll i ids) (mg_peer_ids m))"
    using mgr_remove_run [OF assms] by blast
  have peers: "map_of (mg_peer_ids m') p = (if nl_peer_id L addr = Some p then map_option (removeAll i) (map_of (mg_peer_ids m) p)
      else map_of (mg_peer_ids m) p)" for p
    unfolding P by (cases "nl_peer_id L addr"; cases "map_of (mg_peer_ids m) (the (nl_peer_id L addr))") auto
  have "entries m' = (entries m)(i := None)"
  proof (rule ext)
    fix x show "entries m' x = ((entries m)(i := None)) x"
      using I [of x] map_option_erase_addr [of "map_of (mg_id_to_info m') x" "map_of (mg_id_to_info m) x"]
      by (cases "x = i") (simp_all add: entries_def)
  qed
  moreover have "maps_ok L (map_of (mg_addr_to_id m)) (entries m) (map_of (mg_peer_ids m)) (mg_next_id m)"
    using ix by (simp add: index_ok_def)
  ultimately have "index_ok L m'"
    using maps_ok_remove [of L "map_of (mg_addr_to_id m)" "entries m" "map_of (mg_peer_ids m)" "mg_next_id m" k i "map_of (mg_peer_ids m')"]
      i index_okD(1,2) [OF ix] nx A keys
    by (simp add: index_ok_def peers distinct_removeAll distinct_delete)
  moreover have "mgr_view m' = (mgr_view m)(k := None)"
  proof (rule ext)
    fix k'
    have "j \<noteq> i" if "map_of (mg_addr_to_id m) k' = Some j" "k' \<noteq> k" for j
      using index_okD(3) [OF ix that(1)] index_okD(3) [OF ix i] that(2) by auto
    then show "mgr_view m' k' = ((mgr_view m)(k := None)) k'"
      using I by (cases "k' = k"; cases "map_of (mg_addr_to_id m) k'") (auto simp: mgr_view_def A)
  qed
  moreover have "map_of (mg_id_to_info m') i = None" using I [of i] by simp
  ultimately show ?thesis
    using run sh nx A peers i info er by (intro exI [of _ m'] exI [of _ info']) (simp add: mgr_ok_def mgr_view_def)
qed

definition add_spec ::
  "('m, 'p, 'n) net_lib \<Rightarrow> 'm addr_info \<Rightarrow> (socket_addr \<rightharpoonup> 'm addr_info) \<Rightarrow> (socket_addr \<rightharpoonup> 'm addr_info)" where
  "add_spec L info v =
     (case nl_socketaddr L (ai_addr info) of
        None \<Rightarrow> v
      | Some k \<Rightarrow>
          if \<exists>old. v k = Some old \<and> ai_last_connected info \<le> ai_last_connected old then v
          else v(k := (if nl_peer_id L (ai_addr info) = None then None else Some (erase_pos info))))"

lemma mgr_get_view:
  "map_option erase_pos (mgr_get L addr m) = Option.bind (nl_socketaddr L addr) (mgr_view m)"
  by (cases "nl_socketaddr L addr"; cases "map_of (mg_addr_to_id m) (the (nl_socketaddr L addr))")
    (simp_all add: mgr_get_def mgr_view_def)

lemma checked_add_one:
  assumes "(n :: 'a::len word) \<noteq> - 1" and "1 < LENGTH('a)"
  shows "checked_add n 1 = Some (n + 1)"
proof -
  have "n < - 1" using assms(1) word_order.not_eq_extremum by blast
  then have "unat n < 2 ^ LENGTH('a) - 1" by (simp add: word_less_nat_alt unsigned_minus_1_eq_mask mask_eq_exp_minus_1)
  then show ?thesis by (simp add: checked_add_def)
qed

lemma shuffle_ok_snoc:
  assumes sh: "shuffle_ok m" and fresh: "map_of (mg_id_to_info m) n = None"
  shows "shuffle_ok (m\<lparr>mg_addr_to_id := a, mg_id_to_info := AList.update n (info\<lparr>ai_random_pos := length (mg_random_ids m)\<rparr>) (mg_id_to_info m),
    mg_peer_ids := p, mg_random_ids := mg_random_ids m @ [n], mg_next_id := x\<rparr>)"
proof -
  let ?R = "mg_random_ids m" and ?e = "info\<lparr>ai_random_pos := length (mg_random_ids m)\<rparr>"
  have new: "n \<notin> set ?R" using sh fresh by (auto simp: shuffle_ok_def)
  have "map_option ai_random_pos (((map_of (mg_id_to_info m))(n \<mapsto> ?e)) ((?R @ [n]) ! j)) = Some j"
    if "j < Suc (length ?R)" for j
  proof (cases "j < length ?R")
    case True
    then have "?R ! j \<noteq> n" using new nth_mem by metis
    then show ?thesis using True sh by (simp add: shuffle_ok_def nth_append)
  next
    case False
    then have "j = length ?R" using that by simp
    then show ?thesis by simp
  qed
  then show ?thesis using sh new by (simp add: shuffle_ok_def)
qed

lemma mgr_file_ok:
  assumes ok: "mgr_ok L m" and k: "nl_socketaddr L (ai_addr info) = Some k" and p: "nl_peer_id L (ai_addr info) = Some p"
    and free: "map_of (mg_addr_to_id m) k = None" and nx: "mg_next_id m \<noteq> - 1"
  shows "\<exists>m'. mgr_file k p info m = (m', Inr ()) \<and> mgr_ok L m' \<and> mgr_view m' = (mgr_view m)(k \<mapsto> erase_pos info) \<and>
    mg_next_id m' = mg_next_id m + 1 \<and> mg_addr_to_id m' = AList.update k (mg_next_id m) (mg_addr_to_id m) \<and>
    (\<forall>q. q \<noteq> p \<longrightarrow> map_of (mg_peer_ids m') q = map_of (mg_peer_ids m) q) \<and>
    (\<forall>i < mg_next_id m. map_of (mg_id_to_info m') i = map_of (mg_id_to_info m) i)"
proof -
  let ?n = "mg_next_id m" and ?R = "mg_random_ids m"
  let ?e = "info\<lparr>ai_random_pos := length ?R\<rparr>"
  let ?ids = "set_insert ?n (case map_of (mg_peer_ids m) p of None \<Rightarrow> [] | Some ids \<Rightarrow> ids)"
  let ?m = "m\<lparr>mg_addr_to_id := AList.update k ?n (mg_addr_to_id m), mg_id_to_info := AList.update ?n ?e (mg_id_to_info m),
    mg_peer_ids := AList.update p ?ids (mg_peer_ids m), mg_random_ids := ?R @ [?n], mg_next_id := ?n + 1\<rparr>"
  have ix: "index_ok L m" and sh: "shuffle_ok m" using ok by (simp_all add: mgr_ok_def)
  have fresh: "map_of (mg_id_to_info m) ?n = None"
    using index_okD(4) [OF ix, of ?n] by (cases "map_of (mg_id_to_info m) ?n") auto
  have lt: "?n < ?n + 1" using checked_add_one [OF nx, simplified] by (auto dest: checked_add_unat simp: word_less_nat_alt)
  have "mgr_file k p info m = (?m, Inr ())"
    using checked_add_one [OF nx, simplified] by (simp add: mgr_file_def st_seq_apply st_bind_apply)
  moreover have "shuffle_ok ?m" by (rule shuffle_ok_snoc [OF sh fresh])
  moreover have "index_ok L ?m"
  proof -
    have "entries ?m = (entries m)(?n \<mapsto> ai_addr info)" by (rule ext) (simp add: entries_def)
    moreover have "maps_ok L ((map_of (mg_addr_to_id m))(k \<mapsto> ?n)) ((entries m)(?n \<mapsto> ai_addr info))
        ((map_of (mg_peer_ids m))(p \<mapsto> ?ids)) (?n + 1)"
      using ix k p free fresh lt
      by (intro maps_ok_file) (auto simp: index_ok_def entries_def set_insert_def split: option.splits)
    ultimately show ?thesis using index_okD(1,2) [OF ix] by (simp add: index_ok_def distinct_update)
  qed
  moreover have "mgr_view ?m = (mgr_view m)(k \<mapsto> erase_pos info)"
  proof (rule ext)
    fix k'
    have "map_of (mg_addr_to_id m) k' \<noteq> Some ?n" using index_okD(3) [OF ix, of k' ?n] fresh by auto
    then show "mgr_view ?m k' = ((mgr_view m)(k \<mapsto> erase_pos info)) k'"
      by (cases "k' = k"; cases "map_of (mg_addr_to_id m) k'") (auto simp: mgr_view_def)
  qed
  ultimately show ?thesis by (intro exI [of _ ?m]) (simp add: mgr_ok_def)
qed

lemma mgr_add_ok:
  assumes ok: "mgr_ok L m" and nx: "mg_next_id m \<noteq> - 1"
  shows "\<exists>m'. mgr_add L info m = (m', Inr ()) \<and> mgr_ok L m' \<and> mgr_view m' = add_spec L info (mgr_view m) \<and>
    mg_next_id m' \<in> {mg_next_id m, mg_next_id m + 1}"
proof (cases "nl_socketaddr L (ai_addr info)")
  case None
  then show ?thesis using ok by (intro exI [of _ m]) (simp add: mgr_add_def add_spec_def)
next
  case k: (Some k)
  let ?file = "case nl_peer_id L (ai_addr info) of None \<Rightarrow> st_return () | Some p \<Rightarrow> mgr_file k p info"
  have filed: "\<exists>m'. ?file m1 = (m', Inr ()) \<and> mgr_ok L m' \<and>
      mgr_view m' = (mgr_view m1)(k := (if nl_peer_id L (ai_addr info) = None then None else Some (erase_pos info))) \<and>
      mg_next_id m' \<in> {mg_next_id m1, mg_next_id m1 + 1}"
    if "mgr_ok L m1" "map_of (mg_addr_to_id m1) k = None" "mg_next_id m1 \<noteq> - 1" for m1
  proof (cases "nl_peer_id L (ai_addr info)")
    case None
    have "mgr_view m1 k = None" using that(2) by (simp add: mgr_view_def)
    then have "(mgr_view m1)(k := None) = mgr_view m1" by (simp add: fun_upd_idem)
    then show ?thesis using None that by simp
  next
    case (Some p)
    then show ?thesis using mgr_file_ok [OF that(1) k Some that(2,3)] by auto
  qed
  show ?thesis
  proof (cases "map_of (mg_addr_to_id m) k")
    case None
    then show ?thesis
      using filed [OF ok None nx] k
      by (auto simp: mgr_add_def add_spec_def mgr_get_def mgr_view_def st_bind_apply Let_def)
  next
    case (Some i)
    obtain old where old: "map_of (mg_id_to_info m) i = Some old"
      using index_okD(3) [OF _ Some] ok by (auto simp: mgr_ok_def)
    then have view: "mgr_view m k = Some (erase_pos old)" using Some by (simp add: mgr_view_def)
    obtain m1 x where rem: "mgr_remove L (ai_addr info) m = (m1, Inr x)" and m1: "mgr_ok L m1" "mgr_view m1 = (mgr_view m)(k := None)"
      "mg_next_id m1 = mg_next_id m" "mg_addr_to_id m1 = AList.delete k (mg_addr_to_id m)"
      using mgr_remove_ok [OF ok k Some] by blast
    have "map_of (mg_addr_to_id m1) k = None" using m1(4) by simp
    from filed [OF m1(1) this] nx m1(3) obtain m' where m': "?file m1 = (m', Inr ())" "mgr_ok L m'"
      "mgr_view m' = (mgr_view m)(k := (if nl_peer_id L (ai_addr info) = None then None else Some (erase_pos info)))"
      "mg_next_id m' \<in> {mg_next_id m, mg_next_id m + 1}"
      unfolding m1(2) by auto
    have get: "mgr_get L (ai_addr info) m = Some old" using k Some old by (simp add: mgr_get_def)
    show ?thesis
    proof (cases "ai_last_connected old < ai_last_connected info")
      case True
      then have "add_spec L info (mgr_view m) = mgr_view m'" using k view m'(3) by (simp add: add_spec_def not_le [symmetric])
      moreover have "mgr_add L info m = (m', Inr ())"
        using k get rem True m'(1) by (simp add: mgr_add_def st_bind_apply st_seq_apply Let_def)
      ultimately show ?thesis using m' by simp
    next
      case False
      then have "add_spec L info (mgr_view m) = mgr_view m" using k view by (simp add: add_spec_def not_less)
      moreover have "mgr_add L info m = (m, Inr ())"
        using k get False by (simp add: mgr_add_def st_bind_apply Let_def)
      ultimately show ?thesis using ok by simp
    qed
  qed
qed

section \<open>Random selection\<close>

definition test_ip :: "ip_addr \<Rightarrow> bool" where
  "test_ip ip \<longleftrightarrow> is_unspecified ip \<or> is_loopback ip"

definition ip_of :: "('m, 'p, 'n) net_lib \<Rightarrow> 'm addr_info \<Rightarrow> ip_addr" where
  "ip_of L info = fst (the (nl_socketaddr L (ai_addr info)))"

text \<open>What a selection consists of: stored addresses that pass both tests, on pairwise different sockets and, except for test addresses, machines.\<close>

definition selection_ok ::
  "('m, 'p, 'n) net_lib \<Rightarrow> u64 \<Rightarrow> ('m addr_info \<Rightarrow> bool) \<Rightarrow> (socket_addr \<rightharpoonup> 'm addr_info) \<Rightarrow> 'm addr_info list \<Rightarrow> bool" where
  "selection_ok L now f v found \<longleftrightarrow>
     (\<forall>x\<in>set found. is_connectable x now \<and> f x \<and>
        (\<exists>k. nl_socketaddr L (ai_addr x) = Some k \<and> v k = Some (erase_pos x))) \<and>
     distinct (map (\<lambda>x. nl_socketaddr L (ai_addr x)) found) \<and>
     distinct (filter (\<lambda>ip. \<not> test_ip ip) (map (ip_of L) found))"

definition visited :: "('m, 'p) manager \<Rightarrow> nat \<Rightarrow> 'm addr_info list \<Rightarrow> bool" where
  "visited m i found \<longleftrightarrow>
     (\<forall>x\<in>set found. \<exists>j<i. map_option erase_pos (map_of (mg_id_to_info m) (mg_random_ids m ! j)) = Some (erase_pos x))"

lemma entry_socket:
  assumes ok: "mgr_ok L m" and i: "map_of (mg_id_to_info m) i = Some info"
  shows "\<exists>k. nl_socketaddr L (ai_addr info) = Some k \<and> map_of (mg_addr_to_id m) k = Some i \<and>
    mgr_view m k = Some (erase_pos info)"
  using index_okD(5) [OF _ i] ok i unfolding mgr_ok_def mgr_view_def by fastforce

lemma visited_fresh:
  assumes ok: "mgr_ok L m" and vis: "visited m i found" and i: "i < length (mg_random_ids m)"
    and info: "map_of (mg_id_to_info m) (mg_random_ids m ! i) = Some info"
  shows "nl_socketaddr L (ai_addr info) \<notin> (\<lambda>x. nl_socketaddr L (ai_addr x)) ` set found"
proof
  assume "nl_socketaddr L (ai_addr info) \<in> (\<lambda>x. nl_socketaddr L (ai_addr x)) ` set found"
  then obtain x where x: "x \<in> set found" "nl_socketaddr L (ai_addr x) = nl_socketaddr L (ai_addr info)" by auto
  obtain j y where j: "j < i" "map_of (mg_id_to_info m) (mg_random_ids m ! j) = Some y" "erase_pos y = erase_pos x"
    using vis x(1) unfolding visited_def by blast
  have "ai_addr y = ai_addr x" using j(3) by (metis erase_pos_simps(1))
  then have "mg_random_ids m ! j = mg_random_ids m ! i"
    using entry_socket [OF ok j(2)] entry_socket [OF ok info] x(2) by auto
  then show False using ok j(1) i by (simp add: mgr_ok_def shuffle_ok_def nth_eq_iff_index_eq)
qed

lemma visited_Suc:
  assumes "visited m i found"
  shows "visited m (Suc i) found"
    and "map_of (mg_id_to_info m) (mg_random_ids m ! i) = Some info \<Longrightarrow> visited m (Suc i) (found @ [info])"
proof -
  show old: "visited m (Suc i) found" using assms less_SucI unfolding visited_def by meson
  then show "map_of (mg_id_to_info m) (mg_random_ids m ! i) = Some info \<Longrightarrow> visited m (Suc i) (found @ [info])"
    by (auto simp: visited_def intro: exI [of _ i])
qed

lemma selection_ok_snoc:
  assumes sel: "selection_ok L now f v found" and ips: "ip_of L ` set found \<subseteq> set ips"
    and x: "is_connectable x now" "f x" "nl_socketaddr L (ai_addr x) = Some k" "v k = Some (erase_pos x)"
    and new: "nl_socketaddr L (ai_addr x) \<notin> (\<lambda>x. nl_socketaddr L (ai_addr x)) ` set found"
    and uniq: "test_ip (fst k) \<or> fst k \<notin> set ips"
  shows "selection_ok L now f v (found @ [x])"
proof -
  have "ip_of L x = fst k" using x(3) by (simp add: ip_of_def)
  then show ?thesis using assms by (cases k) (auto simp: selection_ok_def)
qed

lemma swap_step:
  assumes ok: "mgr_ok L m" and i: "i < length (mg_random_ids m)" and vis: "visited m i found"
  shows "\<exists>m' info. swap_random_id (i + r mod (length (mg_random_ids m) - i)) i m = (m', Inr ()) \<and> mgr_ok L m' \<and>
    same_infos m m' \<and> visited m' i found \<and> map_of (mg_id_to_info m') (mg_random_ids m' ! i) = Some info"
proof -
  let ?R = "mg_random_ids m" and ?j = "i + r mod (length (mg_random_ids m) - i)"
  have "r mod (length ?R - i) < length ?R - i" using i by simp
  then have j: "?j < length ?R" "i \<le> ?j" by simp_all
  have sh: "shuffle_ok m" using ok by (simp add: mgr_ok_def)
  obtain m' where m': "swap_random_id ?j i m = (m', Inr ())" "shuffle_ok m'" "same_infos m m'"
    and R': "mg_random_ids m' = ?R[?j := ?R ! i, i := ?R ! ?j]"
    using swap_random_id_ok [OF sh j(1) i] by blast
  have "mgr_ok L m'" using m'(2) same_infos_index [OF m'(3)] ok unfolding mgr_ok_def by blast
  moreover have "mg_random_ids m' ! k = ?R ! k" if "k < i" for k using that j(2) i by (simp add: R')
  then have "visited m' i found"
    using vis m'(3) unfolding visited_def same_infos_def by (metis (no_types, lifting))
  moreover have "map_of (mg_id_to_info m') (mg_random_ids m' ! i) \<noteq> None"
    using m'(2) i R' by (auto simp: shuffle_ok_def dest: spec [of _ i])
  ultimately show ?thesis using m' by blast
qed

lemma fetch_loop_ok:
  assumes "mgr_ok L m" and "i \<le> length (mg_random_ids m)" and "visited m i found"
    and "selection_ok L now f (mgr_view m) found" and "ip_of L ` set found \<subseteq> set ips"
  shows "\<exists>m' res. fetch_loop L rng now cnt f [i..<length (mg_random_ids m)] ips found m = (m', Inr res) \<and>
    mgr_ok L m' \<and> same_infos m m' \<and> selection_ok L now f (mgr_view m) res \<and>
    (length found < cnt \<longrightarrow> length res \<le> cnt)"
  using assms
proof (induction "length (mg_random_ids m) - i" arbitrary: i m ips found)
  case 0
  then show ?case by (intro exI [of _ m] exI [of _ found]) (simp add: same_infos_refl)
next
  case (Suc n)
  have i: "i < length (mg_random_ids m)" using Suc.hyps(2) by simp
  obtain m1 info where sw: "swap_random_id (i + rng i mod (length (mg_random_ids m) - i)) i m = (m1, Inr ())"
    and ok1: "mgr_ok L m1" and same: "same_infos m m1" and vis: "visited m1 i found"
    and info: "map_of (mg_id_to_info m1) (mg_random_ids m1 ! i) = Some info"
    using swap_step [OF Suc.prems(1) i Suc.prems(3)] by blast
  have len: "length (mg_random_ids m1) = length (mg_random_ids m)" and view: "mgr_view m1 = mgr_view m"
    using same same_infos_view by (auto simp: same_infos_def)
  obtain ip port where k: "nl_socketaddr L (ai_addr info) = Some (ip, port)" "mgr_view m (ip, port) = Some (erase_pos info)"
    using entry_socket [OF ok1 info] view by fastforce
  define found' where "found' = (if ((is_unspecified ip \<or> is_loopback ip) \<or> ip \<notin> set ips) \<and> is_connectable info now \<and> f info
    then found @ [info] else found)"
  have sel: "selection_ok L now f (mgr_view m) found'"
    using Suc.prems(4) selection_ok_snoc [OF Suc.prems(4,5) _ _ k visited_fresh [OF ok1 vis _ info]] i len
    by (auto simp: test_ip_def found'_def)
  have vis': "visited m1 (Suc i) found'" using visited_Suc [OF vis] info by (simp add: found'_def)
  have ips': "ip_of L ` set found' \<subseteq> set (set_insert ip ips)"
    using Suc.prems(5) k(1) by (auto simp: ip_of_def set_insert_def found'_def)
  have "n = length (mg_random_ids m1) - Suc i" "Suc i \<le> length (mg_random_ids m1)" using Suc.hyps(2) len by simp_all
  from Suc.hyps(1) [OF this(1) ok1 this(2) vis' sel [folded view] ips'] obtain m' res where
    loop: "fetch_loop L rng now cnt f [Suc i..<length (mg_random_ids m)] (set_insert ip ips) found' m1 = (m', Inr res)"
    and m': "mgr_ok L m'" "same_infos m1 m'" "selection_ok L now f (mgr_view m) res" "length found' < cnt \<longrightarrow> length res \<le> cnt"
    unfolding len view by blast
  have step: "fetch_loop L rng now cnt f [i..<length (mg_random_ids m)] ips found m =
      (if length found' = cnt then (m1, Inr found') else (m', Inr res))"
    using sw info k(1) loop i
    by (cases "((is_unspecified ip \<or> is_loopback ip) \<or> ip \<notin> set ips) \<and> is_connectable info now \<and> f info")
      (simp_all add: upt_conv_Cons st_bind_apply st_seq_apply found'_def)
  have short: "length found' \<le> Suc (length found)" by (simp add: found'_def)
  show ?case
  proof (cases "length found' = cnt")
    case True
    then show ?thesis using step ok1 same sel by (intro exI [of _ m1] exI [of _ found']) simp
  next
    case False
    then show ?thesis
      using step m' same_infos_trans [OF same m'(2)] short by (intro exI [of _ m'] exI [of _ res]) auto
  qed
qed

lemma fetch_random_ok:
  assumes "mgr_ok L m"
  shows "\<exists>m' res. fetch_random L rng now cnt f m = (m', Inr res) \<and> mgr_ok L m' \<and> mgr_view m' = mgr_view m \<and>
    mg_next_id m' = mg_next_id m \<and> selection_ok L now f (mgr_view m) res \<and> (0 < cnt \<longrightarrow> length res \<le> cnt)"
proof -
  have init: "selection_ok L now f (mgr_view m) []" "visited m 0 []" "ip_of L ` set [] \<subseteq> set []"
    by (simp_all add: selection_ok_def visited_def)
  obtain m' res where "fetch_loop L rng now cnt f [0..<length (mg_random_ids m)] [] [] m = (m', Inr res)"
    "mgr_ok L m'" "same_infos m m'" "selection_ok L now f (mgr_view m) res" "0 < cnt \<longrightarrow> length res \<le> cnt"
    using fetch_loop_ok [OF assms le0 init(2,1,3), of rng cnt] by (simp only: list.size) blast
  then show ?thesis
    using same_infos_view [of m m'] by (auto simp: fetch_random_def st_bind_apply same_infos_def)
qed

section \<open>Runs of the address manager\<close>

lemma mgr_update_run:
  assumes "mgr_ok L m" and "nl_socketaddr L addr = Some k" and "map_of (mg_addr_to_id m) k = Some i"
  shows "\<exists>info. map_of (mg_id_to_info m) i = Some info \<and>
    mgr_update L addr f m = m\<lparr>mg_id_to_info := AList.update i (f info) (mg_id_to_info m)\<rparr>"
  using index_okD(3) [of L m k i] assms by (auto simp: mgr_ok_def mgr_update_def)

lemma mgr_update_ok:
  assumes ok: "mgr_ok L m"
    and f: "\<And>i. ai_addr (f i) = ai_addr i" "\<And>i. ai_random_pos (f i) = ai_random_pos i"
  shows "mgr_ok L (mgr_update L addr f m)"
proof (cases "Option.bind (nl_socketaddr L addr) (map_of (mg_addr_to_id m))")
  case None
  then have "mgr_update L addr f m = m" by (auto simp: mgr_update_def split: option.splits)
  then show ?thesis using ok by simp
next
  case (Some i)
  then obtain k where k: "nl_socketaddr L addr = Some k" "map_of (mg_addr_to_id m) k = Some i" by (auto simp: bind_eq_Some_conv)
  then obtain info where info: "map_of (mg_id_to_info m) i = Some info"
    and upd: "mgr_update L addr f m = m\<lparr>mg_id_to_info := AList.update i (f info) (mg_id_to_info m)\<rparr>"
    using mgr_update_run [OF ok k] by blast
  let ?I = "AList.update i (f info) (mg_id_to_info m)" and ?m = "m\<lparr>mg_id_to_info := AList.update i (f info) (mg_id_to_info m)\<rparr>"
  have "entries ?m = entries m" using info f(1) by (intro ext) (simp add: entries_def)
  then have "index_ok L ?m" using ok info by (simp add: index_ok_def mgr_ok_def update_keys_known)
  moreover have "map_option ai_random_pos (map_of ?I x) = map_option ai_random_pos (map_of (mg_id_to_info m) x)" for x
    using info f(2) by simp
  moreover have "dom (map_of ?I) = dom (map_of (mg_id_to_info m))" using info by auto
  ultimately show ?thesis using ok by (simp add: upd mgr_ok_def shuffle_ok_def del: map_of_update)
qed

lemma mgr_update_view:
  assumes ok: "mgr_ok L m" and f: "\<And>i. erase_pos (f i) = f (erase_pos i)"
  shows "mgr_view (mgr_update L addr f m) =
      (case nl_socketaddr L addr of None \<Rightarrow> mgr_view m | Some k \<Rightarrow> (mgr_view m)(k := map_option f (mgr_view m k)))"
proof (cases "nl_socketaddr L addr")
  case None
  then show ?thesis by (simp add: mgr_update_def)
next
  case (Some k)
  have ix: "index_ok L m" using ok by (simp add: mgr_ok_def)
  show ?thesis
  proof (cases "map_of (mg_addr_to_id m) k")
    case None
    then show ?thesis using Some by (auto simp: mgr_update_def mgr_view_def)
  next
    case i: (Some i)
    obtain info where info: "map_of (mg_id_to_info m) i = Some info"
      and upd: "mgr_update L addr f m = m\<lparr>mg_id_to_info := AList.update i (f info) (mg_id_to_info m)\<rparr>"
      using mgr_update_run [OF ok Some i] by blast
    have inj: "k' = k" if "map_of (mg_addr_to_id m) k' = Some i" for k'
      using index_okD(3) [OF ix that] index_okD(3) [OF ix i] by auto
    have "mgr_view (mgr_update L addr f m) k' = ((mgr_view m)(k := map_option f (mgr_view m k))) k'" for k'
      using i info f inj [of k'] by (cases "map_of (mg_addr_to_id m) k'") (auto simp: mgr_view_def upd)
    then show ?thesis using Some by (intro ext) simp
  qed
qed

lemma mgr_update_frame:
  "mg_next_id (mgr_update L addr f m) = mg_next_id m" "mg_addr_to_id (mgr_update L addr f m) = mg_addr_to_id m"
  by (auto simp: mgr_update_def split: option.splits)

datatype 'm mgr_event =
    EvAdd "'m addr_info"
  | EvRemove 'm
  | EvTried u64 'm
  | EvFetch "nat \<Rightarrow> nat" u64 nat "'m addr_info \<Rightarrow> bool"

fun mgr_exec :: "('m, 'p, 'n) net_lib \<Rightarrow> 'm mgr_event \<Rightarrow> ('m, 'p, unit) mgr_op" where
  "mgr_exec L (EvAdd info) = mgr_add L info"
| "mgr_exec L (EvRemove addr) = st_seq (mgr_remove L addr) (st_return ())"
| "mgr_exec L (EvTried now addr) = st_modify (mgr_update L addr (mark_tried now))"
| "mgr_exec L (EvFetch rng now cnt f) = st_seq (fetch_random L rng now cnt f) (st_return ())"

fun spec_exec :: "('m, 'p, 'n) net_lib \<Rightarrow> 'm mgr_event \<Rightarrow> (socket_addr \<rightharpoonup> 'm addr_info) \<Rightarrow> (socket_addr \<rightharpoonup> 'm addr_info)" where
  "spec_exec L (EvAdd info) v = add_spec L info v"
| "spec_exec L (EvRemove addr) v = (case nl_socketaddr L addr of None \<Rightarrow> v | Some k \<Rightarrow> v(k := None))"
| "spec_exec L (EvTried now addr) v =
     (case nl_socketaddr L addr of None \<Rightarrow> v | Some k \<Rightarrow> v(k := map_option (mark_tried now) (v k)))"
| "spec_exec L (EvFetch rng now cnt f) v = v"

lemma mgr_remove_view:
  assumes ok: "mgr_ok L m"
  shows "\<exists>m' r. mgr_remove L addr m = (m', Inr r) \<and> mgr_ok L m' \<and> mg_next_id m' = mg_next_id m \<and>
    mgr_view m' = (case nl_socketaddr L addr of None \<Rightarrow> mgr_view m | Some k \<Rightarrow> (mgr_view m)(k := None)) \<and>
    map_option erase_pos r = Option.bind (nl_socketaddr L addr) (mgr_view m)"
proof (cases "Option.bind (nl_socketaddr L addr) (map_of (mg_addr_to_id m))")
  case None
  have "mgr_view m k = None" if "nl_socketaddr L addr = Some k" for k using None that by (simp add: mgr_view_def)
  then show ?thesis
    using mgr_remove_absent [OF None] ok
    by (intro exI [of _ m] exI [of _ None]) (auto simp: fun_upd_idem split: option.splits)
next
  case (Some i)
  then obtain k where k: "nl_socketaddr L addr = Some k" "map_of (mg_addr_to_id m) k = Some i"
    by (auto simp: bind_eq_Some_conv)
  obtain m' info where "mgr_remove L addr m = (m', Inr (Some info))" "mgr_view m k = Some (erase_pos info)" "mgr_ok L m'"
    "mgr_view m' = (mgr_view m)(k := None)" "mg_next_id m' = mg_next_id m"
    using mgr_remove_ok [OF ok k] by blast
  then show ?thesis using k(1) by (intro exI [of _ m'] exI [of _ "Some info"]) simp
qed

lemma mgr_exec_ok:
  assumes "mgr_ok L m" and "mg_next_id m \<noteq> - 1"
  shows "\<exists>m'. mgr_exec L e m = (m', Inr ()) \<and> mgr_ok L m' \<and> mgr_view m' = spec_exec L e (mgr_view m) \<and>
    mg_next_id m' \<in> {mg_next_id m, mg_next_id m + 1}"
proof (cases e)
  case (EvAdd info)
  then show ?thesis using mgr_add_ok [OF assms] by simp
next
  case (EvRemove addr)
  then show ?thesis using mgr_remove_view [OF assms(1), of addr] by (auto simp: st_seq_apply)
next
  case (EvTried now addr)
  then show ?thesis
    using mgr_update_ok [OF assms(1), of "mark_tried now" addr] mgr_update_view [OF assms(1), of "mark_tried now" addr]
    by (simp add: mark_tried_def erase_pos_def mgr_update_frame)
next
  case (EvFetch rng now cnt f)
  then show ?thesis using fetch_random_ok [OF assms(1), of rng now cnt f] by (auto simp: st_seq_apply)
qed

lemma manager_default_ok: "mgr_ok L manager_default" "mgr_view manager_default = Map.empty" "mg_next_id manager_default = 0"
  by (simp_all add: mgr_ok_def shuffle_ok_def index_ok_def maps_ok_def entries_def manager_default_def mgr_view_def fun_eq_iff)

lemma dom_mgr_view:
  assumes "mgr_ok L m"
  shows "dom (mgr_view m) = fst ` set (mg_addr_to_id m)" and "finite (dom (mgr_view m))"
proof -
  have ix: "index_ok L m" using assms by (simp add: mgr_ok_def)
  have "mgr_view m k \<noteq> None \<longleftrightarrow> map_of (mg_addr_to_id m) k \<noteq> None" for k
    using index_okD(3) [OF ix, of k] by (cases "map_of (mg_addr_to_id m) k") (auto simp: mgr_view_def)
  then show "dom (mgr_view m) = fst ` set (mg_addr_to_id m)" by (auto simp: dom_def map_of_eq_None_iff)
  then show "finite (dom (mgr_view m))" by simp
qed

lemma mgr_count_view:
  assumes "mgr_ok L m"
  shows "mgr_count m = card (dom (mgr_view m))"
proof -
  have "distinct (map fst (mg_addr_to_id m))" using assms index_okD(1) unfolding mgr_ok_def by blast
  from distinct_card [OF this] show ?thesis by (simp add: mgr_count_def dom_mgr_view(1) [OF assms])
qed

lemma unat_plus_one_le: "unat (n + 1) \<le> unat (n :: 'a::len word) + 1"
proof -
  have "unat (n + 1) = (unat n + unat (1 :: 'a word)) mod 2 ^ LENGTH('a)" by (rule unat_word_ariths(1))
  also have "\<dots> \<le> unat n + unat (1 :: 'a word)" by (rule mod_less_eq_dividend)
  finally show ?thesis by simp
qed

lemma mgr_run_ok:
  assumes "mgr_ok L m" and "unat (mg_next_id m) + length es < 2 ^ 64"
  shows "\<exists>m'. st_each (mgr_exec L) es m = (m', Inr ()) \<and> mgr_ok L m' \<and>
    mgr_view m' = fold (spec_exec L) es (mgr_view m) \<and> unat (mg_next_id m') \<le> unat (mg_next_id m) + length es"
  using assms
proof (induction es arbitrary: m)
  case Nil
  then show ?case by simp
next
  case (Cons e es)
  have "mg_next_id m \<noteq> - 1" using Cons.prems(2) by (auto simp: unsigned_minus_1_eq_mask mask_eq_exp_minus_1)
  then obtain m1 where m1: "mgr_exec L e m = (m1, Inr ())" "mgr_ok L m1" "mgr_view m1 = spec_exec L e (mgr_view m)"
    "mg_next_id m1 \<in> {mg_next_id m, mg_next_id m + 1}"
    using mgr_exec_ok [OF Cons.prems(1)] by blast
  have le: "unat (mg_next_id m1) \<le> unat (mg_next_id m) + 1"
    using m1(4) unat_plus_one_le [of "mg_next_id m"] by auto
  then have "unat (mg_next_id m1) + length es < 2 ^ 64" using Cons.prems(2) by simp
  from Cons.IH [OF m1(2) this] obtain m' where "st_each (mgr_exec L) es m1 = (m', Inr ())" "mgr_ok L m'"
    "mgr_view m' = fold (spec_exec L) es (mgr_view m1)" "unat (mg_next_id m') \<le> unat (mg_next_id m1) + length es"
    by blast
  then show ?case using m1 le by (simp add: st_seq_apply)
qed

section \<open>The manager as a map\<close>

text \<open>
  Property C25. The address manager refines a map from sockets to addresses: whatever sequence of
  additions, removals, dial marks and random selections is run on a new manager, none of the
  indices, positions and unwraps involved ever panics, the invariant holds, and the stored addresses are those
  of the abstract map; lookups and the count read that map, and a random selection of at most \<open>cnt\<close>
  consists of stored, connectable, accepted addresses on different machines.
\<close>

theorem addr_manager_refines_map:
  assumes "length es < 2 ^ 64"
  shows "\<exists>m. st_each (mgr_exec L) es manager_default = (m, Inr ()) \<and> mgr_ok L m \<and>
    mgr_view m = fold (spec_exec L) es Map.empty \<and> mgr_count m = card (dom (mgr_view m)) \<and>
    (\<forall>a. map_option erase_pos (mgr_get L a m) = Option.bind (nl_socketaddr L a) (mgr_view m)) \<and>
    (\<forall>rng now cnt f. \<exists>m' res. fetch_random L rng now cnt f m = (m', Inr res) \<and> mgr_view m' = mgr_view m \<and>
       selection_ok L now f (mgr_view m) res \<and> (0 < cnt \<longrightarrow> length res \<le> cnt))"
proof -
  obtain m where m: "st_each (mgr_exec L) es manager_default = (m, Inr ())" "mgr_ok L m"
    "mgr_view m = fold (spec_exec L) es Map.empty"
    using mgr_run_ok [OF manager_default_ok(1), of es L] assms by (auto simp: manager_default_ok)
  have "\<exists>m' res. fetch_random L rng now cnt f m = (m', Inr res) \<and> mgr_view m' = mgr_view m \<and>
      selection_ok L now f (mgr_view m) res \<and> (0 < cnt \<longrightarrow> length res \<le> cnt)" for rng now cnt f
    using fetch_random_ok [OF m(2), of rng now cnt f] by blast
  then show ?thesis using m mgr_count_view [OF m(2)] by (intro exI [of _ m]) (simp add: mgr_get_view)
qed

section \<open>A concrete library\<close>

type_synonym sample_addr = "32 word \<times> 16 word \<times> nat"

definition sample_to_vec :: "sample_addr \<Rightarrow> bytes" where
  "sample_to_vec = (\<lambda>(ip, port, p). to_be_bytes 4 ip @ to_be_bytes 2 port @ nat_to_be 8 p)"

definition sample_from_vec :: "bytes \<Rightarrow> sample_addr option" where
  "sample_from_vec bs =
     (if length bs = 14
      then Some (from_be_bytes (take 4 bs), from_be_bytes (take 2 (drop 4 bs)), be_nat (drop 6 bs)) else None)"

definition sample_collect :: "addr_proto list \<Rightarrow> sample_addr" where
  "sample_collect ps =
     (case ps of
        [OtherProto ip, Tcp port] \<Rightarrow> (from_be_bytes ip, port, 0)
      | [OtherProto ip, Tcp port, P2p p] \<Rightarrow> (from_be_bytes ip, port, be_nat p)
      | _ \<Rightarrow> (0, 0, 0))"

definition sample_net :: "(sample_addr, nat, ip_addr) net_lib" where
  "sample_net =
     \<lparr>nl_socketaddr = (\<lambda>(ip, port, p). Some (V4 ip, port)), nl_peer_id = (\<lambda>(ip, port, p). if p = 0 then None else Some p),
      nl_network = (\<lambda>ip. ip), nl_contains = (\<lambda>n ip. n = ip), nl_reachable = (\<lambda>ip. \<not> is_loopback ip),
      nl_iter = (\<lambda>(ip, port, p). [OtherProto (to_be_bytes 4 ip), Tcp port] @ (if p = 0 then [] else [P2p (nat_to_be 8 p)])),
      nl_collect = sample_collect, nl_to_vec = sample_to_vec, nl_from_vec = sample_from_vec,
      nl_peer_from_bytes = (\<lambda>bs. if bs = [] then None else Some (be_nat bs)), nl_peer_bytes = nat_to_be 8\<rparr>"

lemma sample_net_simps [simp]:
  "nl_socketaddr sample_net (ip, port, p) = Some (V4 ip, port)"
  "nl_peer_id sample_net (ip, port, p) = (if p = 0 then None else Some p)"
  "nl_network sample_net ip' = ip'" "nl_contains sample_net n ip' = (n = ip')" "nl_reachable sample_net ip' = (\<not> is_loopback ip')"
  by (simp_all add: sample_net_def)

definition sample_known :: "(sample_addr, nat) manager" where
  "sample_known = fst (mgr_add sample_net (addr_info_new (7, 80, 5) 0 100) manager_default)"

lemma sample_known_ok:
  "mgr_ok sample_net sample_known" "mgr_view sample_known = [(V4 7, 80) \<mapsto> addr_info_new (7, 80, 5) 0 100]"
  "mg_next_id sample_known \<in> {0, 1}"
proof -
  obtain m where m: "mgr_add sample_net (addr_info_new (7, 80, 5) 0 100) manager_default = (m, Inr ())" "mgr_ok sample_net m"
    "mgr_view m = add_spec sample_net (addr_info_new (7, 80, 5) 0 100) (mgr_view manager_default)" "mg_next_id m \<in> {0, 1}"
    using mgr_add_ok [OF manager_default_ok(1), of sample_net "addr_info_new (7, 80, 5) 0 100"]
    by (auto simp: manager_default_ok)
  have "sample_known = m" using m(1) by (simp add: sample_known_def)
  then show "mgr_ok sample_net sample_known" "mgr_view sample_known = [(V4 7, 80) \<mapsto> addr_info_new (7, 80, 5) 0 100]"
    "mg_next_id sample_known \<in> {0, 1}"
    using m by (simp_all add: manager_default_ok add_spec_def addr_info_new_def erase_pos_def)
qed

theorem addr_manager_refines_map_witness:
  "\<exists>m. st_each (mgr_exec sample_net) [EvAdd (addr_info_new (7, 80, 5) 0 100), EvRemove (7, 80, 6)] manager_default = (m, Inr ()) \<and>
     mgr_view m = Map.empty \<and> mgr_count m = 0"
proof -
  have "length [EvAdd (addr_info_new (7, 80, 5) 0 100), EvRemove (7, 80, 6) :: sample_addr mgr_event] < 2 ^ 64" by simp
  from addr_manager_refines_map [OF this, of sample_net] show ?thesis
    by (auto simp: add_spec_def addr_info_new_def)
qed

end
