(* ===== verification/Peer_Store.thy ===== *)
theory Peer_Store
  imports Addr_Manager
begin

text \<open>
  The peer store of \<open>core/network/src/peer_manager/peer_store\<close>: the networks a node has banned (\<open>ban_list.rs\<close>),
  the store over them and the known addresses (\<open>peer_store_impl.rs\<close>), and loading it from its files
  (\<open>peer_store_db.rs\<close>). The order in which a hash map is drained and the random choice of
  addresses to evict are arguments. The properties: bans are exact and effective, a full store stays bounded,
  its file round-trips, and a lookup of a replaced peer panics.
\<close>

section \<open>The ban list\<close>

definition CLEAR_INTERVAL_COUNTER :: u64 where "CLEAR_INTERVAL_COUNTER = 1024"

record 'n banned_addr =
  ba_address :: 'n
  ba_until :: u64
  ba_reason :: string
  ba_created :: u64

record 'n ban_list =
  bl_inner :: "('n \<times> 'n banned_addr) list"
  bl_insert_count :: u64

definition ban_list_new :: "'n ban_list" where
  "ban_list_new = \<lparr>bl_inner = [], bl_insert_count = 0\<rparr>"

definition clear_expires :: "u64 \<Rightarrow> 'n ban_list \<Rightarrow> 'n ban_list" where
  "clear_expires now bl = bl\<lparr>bl_inner := filter (\<lambda>(_, b). now < ba_until b) (bl_inner bl)\<rparr>"

definition ban :: "u64 \<Rightarrow> 'n banned_addr \<Rightarrow> 'n ban_list \<Rightarrow> 'n ban_list" where
  "ban now b bl =
     (let bl' = bl\<lparr>bl_inner := AList.update (ba_address b) b (bl_inner bl), bl_insert_count := bl_insert_count bl + 1\<rparr>
      in if bl_insert_count bl' mod CLEAR_INTERVAL_COUNTER = 0 then clear_expires now bl' else bl')"

definition unban_network :: "'n \<Rightarrow> 'n ban_list \<Rightarrow> 'n ban_list" where
  "unban_network n bl = bl\<lparr>bl_inner := AList.delete n (bl_inner bl)\<rparr>"

definition is_ip_banned_until :: "('m, 'p, 'n) net_lib \<Rightarrow> ip_addr \<Rightarrow> u64 \<Rightarrow> 'n ban_list \<Rightarrow> bool" where
  "is_ip_banned_until L ip now bl \<longleftrightarrow>
     (case map_of (bl_inner bl) (nl_network L ip) of
        Some b \<Rightarrow> now < ba_until b
      | None \<Rightarrow> False) \<or>
     list_ex (\<lambda>(n, b). now < ba_until b \<and> nl_contains L n ip) (bl_inner bl)"

definition ban_list_addr_banned :: "('m, 'p, 'n) net_lib \<Rightarrow> 'm \<Rightarrow> u64 \<Rightarrow> 'n ban_list \<Rightarrow> bool" where
  "ban_list_addr_banned L addr now bl =
     (case nl_socketaddr L addr of None \<Rightarrow> False | Some (ip, _) \<Rightarrow> is_ip_banned_until L ip now bl)"

definition get_banned_addrs :: "'n ban_list \<Rightarrow> 'n banned_addr list" where
  "get_banned_addrs bl = map snd (bl_inner bl)"

section \<open>The peer store\<close>

datatype session_type = Inbound | Outbound

record 'm connected_info =
  ci_addr :: 'm
  ci_session_type :: session_type
  ci_last_connected :: u64

record ('m, 'p, 'n) peer_store =
  ps_manager :: "('m, 'p) manager"
  ps_bans :: "'n ban_list"
  ps_peers :: "('p \<times> 'm connected_info) list"
  ps_default_score :: int
  ps_ban_score :: int
  ps_ban_timeout :: u64

type_synonym ('m, 'p, 'n, 'a) store_op = "(('m, 'p, 'n) peer_store, 'a) peer_op"

definition peer_store_new :: "('m, 'p) manager \<Rightarrow> 'n ban_list \<Rightarrow> ('m, 'p, 'n) peer_store" where
  "peer_store_new mgr bans =
     \<lparr>ps_manager = mgr, ps_bans = bans, ps_peers = [], ps_default_score = 100, ps_ban_score = 40,
      ps_ban_timeout = 24 * 3600 * 1000\<rparr>"

definition on_manager :: "('m, 'p, 'a) mgr_op \<Rightarrow> ('m, 'p, 'n, 'a) store_op" where
  "on_manager op s = (let (m', r) = op (ps_manager s) in (s\<lparr>ps_manager := m'\<rparr>, r))"

definition add_connected_peer ::
  "('m, 'p, 'n) net_lib \<Rightarrow> u64 \<Rightarrow> 'm \<Rightarrow> session_type \<Rightarrow> ('m, 'p, 'n, unit) store_op" where
  "add_connected_peer L now addr ty =
     st_bind (st_lift (ok_or PePanic (nl_peer_id L addr))) (\<lambda>p.
       st_modify (\<lambda>s. s\<lparr>ps_peers := AList.update p
         \<lparr>ci_addr = addr, ci_session_type = ty, ci_last_connected = now\<rparr> (ps_peers s)\<rparr>))"

text \<open>
  The two eviction rounds of \<open>check_purge\<close>: first the addresses that are not connectable, and if there
  are none, two of every group with more than four addresses among the larger half of the groups.
\<close>

definition group_by_network :: "('m, 'p, 'n) net_lib \<Rightarrow> 'm addr_info list \<Rightarrow> 'm addr_info list list" where
  "group_by_network L infos =
     map (\<lambda>g. filter (\<lambda>info. group_of L (ai_addr info) = g) infos)
       (remdups (map (\<lambda>info. group_of L (ai_addr info)) infos))"

definition eviction_candidates ::
  "('m, 'p, 'n) net_lib \<Rightarrow> ('m addr_info list list \<Rightarrow> 'm addr_info list list) \<Rightarrow>
     ('m addr_info list \<Rightarrow> 'm addr_info list) \<Rightarrow> 'm addr_info list \<Rightarrow> 'm list" where
  "eviction_candidates L drain pick infos =
     (let groups = group_by_network L infos;
          peers = sort_key (\<lambda>k. - int (length k)) (drain groups)
      in concat (map (\<lambda>addrs. if 4 < length addrs then map ai_addr (pick addrs) else [])
           (take (length groups div 2) peers)))"

definition remove_addrs :: "('m, 'p, 'n) net_lib \<Rightarrow> 'm list \<Rightarrow> ('m, 'p, 'n, unit) store_op" where
  "remove_addrs L = st_each (\<lambda>a. st_seq (on_manager (mgr_remove L a)) (st_return ()))"

definition check_purge ::
  "('m, 'p, 'n) net_lib \<Rightarrow> u64 \<Rightarrow> ('m addr_info list list \<Rightarrow> 'm addr_info list list) \<Rightarrow>
     ('m addr_info list \<Rightarrow> 'm addr_info list) \<Rightarrow> ('m, 'p, 'n, unit) store_op" where
  "check_purge L now drain pick =
     st_bind (st_gets ps_manager) (\<lambda>m.
       if mgr_count m < ADDR_COUNT_LIMIT then st_return ()
       else
         let candidates = map ai_addr (filter (\<lambda>info. \<not> is_connectable info now) (addrs_iter m))
         in
           st_seq (remove_addrs L candidates) (
           if candidates \<noteq> [] then st_return ()
           else
             st_bind (st_gets (\<lambda>s. eviction_candidates L drain pick (addrs_iter (ps_manager s)))) (\<lambda>evicted.
             st_seq (remove_addrs L evicted) (
             if evicted = [] then st_throw PeerStoreEvictionFailed else st_return ()))))"

definition is_addr_banned :: "('m, 'p, 'n) net_lib \<Rightarrow> 'm \<Rightarrow> u64 \<Rightarrow> ('m, 'p, 'n) peer_store \<Rightarrow> bool" where
  "is_addr_banned L addr now s = ban_list_addr_banned L addr now (ps_bans s)"

definition add_addr ::
  "('m, 'p, 'n) net_lib \<Rightarrow> u64 \<Rightarrow> u64 \<Rightarrow> ('m addr_info list list \<Rightarrow> 'm addr_info list list) \<Rightarrow>
     ('m addr_info list \<Rightarrow> 'm addr_info list) \<Rightarrow> 'm \<Rightarrow> ('m, 'p, 'n, unit) store_op" where
  "add_addr L now now' drain pick addr =
     st_bind (st_gets (is_addr_banned L addr now)) (\<lambda>banned.
       if banned then st_return ()
       else
         st_seq (check_purge L now' drain pick) (
         st_bind (st_gets ps_default_score) (\<lambda>score.
         on_manager (mgr_add L (addr_info_new addr 0 score)))))"

definition add_outbound_addr :: "('m, 'p, 'n) net_lib \<Rightarrow> u64 \<Rightarrow> u64 \<Rightarrow> 'm \<Rightarrow> ('m, 'p, 'n, unit) store_op" where
  "add_outbound_addr L now now' addr =
     st_bind (st_gets (is_addr_banned L addr now)) (\<lambda>banned.
       if banned then st_return ()
       else
         st_bind (st_gets ps_default_score) (\<lambda>score.
         on_manager (mgr_add L (addr_info_new addr now' score))))"

definition ban_network :: "u64 \<Rightarrow> u64 \<Rightarrow> 'n \<Rightarrow> u64 \<Rightarrow> string \<Rightarrow> ('m, 'p, 'n, unit) store_op" where
  "ban_network now now' network timeout reason =
     st_bind (st_lift (ok_or PePanic (checked_add now timeout))) (\<lambda>until.
       st_modify (\<lambda>s. s\<lparr>ps_bans := ban now'
         \<lparr>ba_address = network, ba_until = until, ba_reason = reason, ba_created = now\<rparr> (ps_bans s)\<rparr>))"

definition ban_addr :: "('m, 'p, 'n) net_lib \<Rightarrow> u64 \<Rightarrow> u64 \<Rightarrow> 'm \<Rightarrow> u64 \<Rightarrow> string \<Rightarrow> ('m, 'p, 'n, unit) store_op" where
  "ban_addr L now now' addr timeout reason =
     st_seq
       (case nl_socketaddr L addr of
          None \<Rightarrow> st_return ()
        | Some (ip, _) \<Rightarrow> ban_network now now' (nl_network L ip) timeout reason)
       (st_seq (on_manager (mgr_remove L addr)) (st_return ()))"

datatype report_result = ReportOk | ReportBanned

definition saturating_add_i32 :: "int \<Rightarrow> int \<Rightarrow> int" where
  "saturating_add_i32 a b = max (- (2 ^ 31)) (min (2 ^ 31 - 1) (a + b))"

definition peer_report :: "('m, 'p, 'n) net_lib \<Rightarrow> u64 \<Rightarrow> u64 \<Rightarrow> 'm \<Rightarrow> ('m, 'p, 'n, report_result) store_op" where
  "peer_report L now now' addr =
     st_bind (st_gets (\<lambda>s. mgr_get L addr (ps_manager s))) (\<lambda>found.
       case found of
         None \<Rightarrow> st_return ReportOk
       | Some info \<Rightarrow>
           let score = saturating_add_i32 (ai_score info) 0 in
           st_seq (st_modify (\<lambda>s. s\<lparr>ps_manager := mgr_update L addr (\<lambda>i. i\<lparr>ai_score := score\<rparr>) (ps_manager s)\<rparr>)) (
           st_bind (st_gets id) (\<lambda>s.
           if score < ps_ban_score s
           then st_seq (ban_addr L now now' addr (ps_ban_timeout s) ''report behaviour'') (st_return ReportBanned)
           else st_return ReportOk)))"

definition remove_disconnected_peer ::
  "('m, 'p, 'n) net_lib \<Rightarrow> 'm \<Rightarrow> ('m, 'p, 'n) peer_store \<Rightarrow> ('m, 'p, 'n) peer_store" where
  "remove_disconnected_peer L addr s =
     (case nl_peer_id L addr of
        None \<Rightarrow> s
      | Some p \<Rightarrow> s\<lparr>ps_peers := AList.delete p (ps_peers s)\<rparr>)"

definition is_connected_peer :: "'p \<Rightarrow> ('m, 'p, 'n) peer_store \<Rightarrow> bool" where
  "is_connected_peer p s = (map_of (ps_peers s) p \<noteq> None)"

definition recently_connected :: "u64 \<Rightarrow> 'm addr_info \<Rightarrow> bool" where
  "recently_connected now info \<longleftrightarrow>
     saturating_sub now ADDR_TRY_TIMEOUT_MS < ai_last_connected info \<and>
     ai_last_connected info \<le> saturating_sub now DIAL_INTERVAL"

definition fetch_addrs_to_attempt ::
  "('m, 'p, 'n) net_lib \<Rightarrow> (nat \<Rightarrow> nat) \<Rightarrow> u64 \<Rightarrow> u64 \<Rightarrow> nat \<Rightarrow> ('m, 'p, 'n, 'm addr_info list) store_op" where
  "fetch_addrs_to_attempt L rng now now' cnt =
     st_bind (st_gets id) (\<lambda>s.
       on_manager (fetch_random L rng now' cnt (\<lambda>info.
         (case nl_peer_id L (ai_addr info) of None \<Rightarrow> False | Some p \<Rightarrow> \<not> is_connected_peer p s) \<and>
         recently_connected now info)))"

definition fetch_addrs_to_feeler ::
  "('m, 'p, 'n) net_lib \<Rightarrow> (nat \<Rightarrow> nat) \<Rightarrow> u64 \<Rightarrow> u64 \<Rightarrow> nat \<Rightarrow> ('m, 'p, 'n, 'm addr_info list) store_op" where
  "fetch_addrs_to_feeler L rng now now' cnt =
     st_bind (st_gets id) (\<lambda>s.
       on_manager (fetch_random L rng now' cnt (\<lambda>info.
         (case nl_peer_id L (ai_addr info) of None \<Rightarrow> False | Some p \<Rightarrow> \<not> is_connected_peer p s) \<and>
         \<not> tried_in_last_minute info now \<and>
         \<not> saturating_sub now ADDR_TRY_TIMEOUT_MS < ai_last_connected info)))"

definition fetch_random_addrs ::
  "('m, 'p, 'n) net_lib \<Rightarrow> (nat \<Rightarrow> nat) \<Rightarrow> u64 \<Rightarrow> u64 \<Rightarrow> nat \<Rightarrow> ('m, 'p, 'n, 'm addr_info list) store_op" where
  "fetch_random_addrs L rng now now' cnt =
     st_bind (st_gets id) (\<lambda>s.
       on_manager (fetch_random L rng now' cnt (\<lambda>info.
         (case nl_peer_id L (ai_addr info) of None \<Rightarrow> False | Some p \<Rightarrow> is_connected_peer p s) \<or>
         saturating_sub now ADDR_TIMEOUT_MS < ai_last_connected info)))"

definition fetch_addr_by_peer_id :: "'p \<Rightarrow> u64 \<Rightarrow> u64 \<Rightarrow> ('m, 'p, 'n) peer_store \<Rightarrow> peer_error + 'm list" where
  "fetch_addr_by_peer_id p now now' s = get_by_peer_id p now' (recently_connected now) (ps_manager s)"

section \<open>The files of the store\<close>

text \<open>
  \<open>load\<close> adds the addresses and bans of a decoded file one by one; what cannot be opened or decoded
  gives the default. \<open>dump\<close> writes what the iterators yield.
\<close>

definition manager_load :: "('m, 'p, 'n) net_lib \<Rightarrow> 'm addr_info list \<Rightarrow> peer_error + ('m, 'p) manager" where
  "manager_load L addrs =
     (case st_each (mgr_add L) addrs manager_default of (m, Inl e) \<Rightarrow> Inl e | (m, Inr _) \<Rightarrow> Inr m)"

definition ban_list_load :: "u64 \<Rightarrow> 'n banned_addr list \<Rightarrow> 'n ban_list" where
  "ban_list_load now bans = foldl (\<lambda>bl b. ban now b bl) ban_list_new bans"

definition load_from_dir_or_default ::
  "('m, 'p, 'n) net_lib \<Rightarrow> u64 \<Rightarrow> 'm addr_info list option \<Rightarrow> 'n banned_addr list option \<Rightarrow>
     peer_error + ('m, 'p, 'n) peer_store" where
  "load_from_dir_or_default L now addrs bans =
     res_bind (case addrs of None \<Rightarrow> Inr manager_default | Some xs \<Rightarrow> manager_load L xs) (\<lambda>mgr.
       Inr (peer_store_new mgr (case bans of None \<Rightarrow> ban_list_new | Some bs \<Rightarrow> ban_list_load now bs)))"

section \<open>The peer store\<close>

lemma on_manager_apply: "on_manager op s = (s\<lparr>ps_manager := fst (op (ps_manager s))\<rparr>, snd (op (ps_manager s)))"
  by (simp add: on_manager_def split: prod.split)

text \<open>
  The expiry of old entries is invisible: at any time not before the clock of the last cleaning, the
  entries that still count are those of a map that is never cleaned.
\<close>

definition bans_agree :: "u64 \<Rightarrow> ('n \<rightharpoonup> 'n banned_addr) \<Rightarrow> 'n ban_list \<Rightarrow> bool" where
  "bans_agree clock f bl \<longleftrightarrow> distinct (map fst (bl_inner bl)) \<and>
     (\<forall>n b. clock < ba_until b \<longrightarrow> map_of (bl_inner bl) n = Some b \<longleftrightarrow> f n = Some b) \<and>
     (\<forall>n b. map_of (bl_inner bl) n = Some b \<longrightarrow> f n = Some b)"

lemma map_of_filter_value:
  "distinct (map fst al) \<Longrightarrow> map_of (filter (\<lambda>(_, v). P v) al) k = (case map_of al k of Some v \<Rightarrow> if P v then Some v else None | None \<Rightarrow> None)"
proof (induction al)
  case Nil
  then show ?case by simp
next
  case (Cons e al)
  obtain k' v where e: "e = (k', v)" by (cases e)
  have "map_of al k' = None" using Cons.prems e by (simp add: map_of_eq_None_iff)
  then show ?case using Cons e by (auto split: option.splits)
qed

lemma clear_expires_agree:
  assumes "bans_agree clock f bl" and "clock \<le> now"
  shows "bans_agree now f (clear_expires now bl)"
proof -
  have d: "distinct (map fst (bl_inner bl))" using assms(1) by (simp add: bans_agree_def)
  have "distinct (map fst (filter (\<lambda>(_, b). now < ba_until b) (bl_inner bl)))" using d by (rule distinct_map_filter)
  moreover have "map_of (filter (\<lambda>(_, b). now < ba_until b) (bl_inner bl)) n = Some b \<longleftrightarrow>
      map_of (bl_inner bl) n = Some b \<and> now < ba_until b" for n b
    by (auto simp: map_of_filter_value [OF d] split: option.splits)
  ultimately show ?thesis
    using assms unfolding bans_agree_def clear_expires_def by auto
qed

lemma ban_agree:
  assumes "bans_agree clock f bl" and "clock \<le> now"
  shows "bans_agree now (f(ba_address b \<mapsto> b)) (ban now b bl)"
proof -
  let ?bl = "bl\<lparr>bl_inner := AList.update (ba_address b) b (bl_inner bl), bl_insert_count := bl_insert_count bl + 1\<rparr>"
  have up: "bans_agree clock (f(ba_address b \<mapsto> b)) ?bl"
    using assms(1) by (auto simp: bans_agree_def distinct_update)
  have "bans_agree now (f(ba_address b \<mapsto> b)) ?bl"
    using up assms(2) unfolding bans_agree_def by auto
  then show ?thesis
    using clear_expires_agree [OF up assms(2)] by (simp add: ban_def Let_def)
qed

lemma bans_agree_banned:
  assumes "bans_agree clock f bl" and "clock \<le> t" and law: "\<And>ip. nl_contains L (nl_network L ip) ip"
  shows "is_ip_banned_until L ip t bl \<longleftrightarrow> (\<exists>n b. f n = Some b \<and> t < ba_until b \<and> nl_contains L n ip)"
proof -
  have d: "distinct (map fst (bl_inner bl))" using assms(1) by (simp add: bans_agree_def)
  have eq: "map_of (bl_inner bl) n = Some b \<longleftrightarrow> f n = Some b" if "t < ba_until b" for n b
    using assms(1,2) that unfolding bans_agree_def by auto
  have "is_ip_banned_until L ip t bl \<longleftrightarrow> (\<exists>n b. map_of (bl_inner bl) n = Some b \<and> t < ba_until b \<and> nl_contains L n ip)"
    using d law by (auto simp: is_ip_banned_until_def list_ex_iff split: option.splits)
  then show ?thesis using eq by blast
qed

lemma ban_addr_run:
  assumes ok: "mgr_ok L (ps_manager s)" and ip: "nl_socketaddr L addr = Some (ip, port)"
    and until: "checked_add now timeout = Some until"
  shows "\<exists>m. ban_addr L now now' addr timeout reason s =
      (s\<lparr>ps_bans := ban now' \<lparr>ba_address = nl_network L ip, ba_until = until, ba_reason = reason, ba_created = now\<rparr> (ps_bans s),
         ps_manager := m\<rparr>, Inr ()) \<and> mgr_ok L m \<and> mgr_view m = (mgr_view (ps_manager s))((ip, port) := None)"
proof -
  obtain m r where "mgr_remove L addr (ps_manager s) = (m, Inr r)" "mgr_ok L m"
    "mgr_view m = (mgr_view (ps_manager s))((ip, port) := None)"
    using mgr_remove_view [OF ok, of addr] ip by auto
  then show ?thesis
    using until ip by (auto simp: ban_addr_def ban_network_def st_seq_apply st_bind_apply on_manager_apply)
qed

lemma ban_inner:
  "now' < ba_until b \<Longrightarrow> map_of (bl_inner (ban now' b bl)) (ba_address b) = Some b"
proof -
  have "map_of (filter (\<lambda>(_, b). now' < ba_until b) (AList.update (ba_address b) b al)) (ba_address b) = Some b"
    if "now' < ba_until b" for al
    using that by (induction al) auto
  then show "now' < ba_until b \<Longrightarrow> map_of (bl_inner (ban now' b bl)) (ba_address b) = Some b"
    by (simp add: ban_def clear_expires_def Let_def)
qed

lemma banned_refused:
  assumes "is_addr_banned L addr now s"
  shows "add_addr L now now' drain pick addr s = (s, Inr ())" and "add_outbound_addr L now now'' addr s = (s, Inr ())"
  using assms by (simp_all add: add_addr_def add_outbound_addr_def st_bind_apply)

text \<open>
  A ban is effective: banning the address of a peer removes it from the known addresses,
  and until the ban ends every address of that machine counts as banned and
  neither discovery nor an outbound connection brings one back.
\<close>

theorem ban_addr_effective:
  assumes "mgr_ok L (ps_manager s)" and "nl_socketaddr L addr = Some (ip, port)"
    and "checked_add now timeout = Some until"
  shows "\<exists>s'. ban_addr L now now' addr timeout reason s = (s', Inr ()) \<and> mgr_ok L (ps_manager s') \<and>
    mgr_get L addr (ps_manager s') = None \<and>
    (\<forall>t a p. now' \<le> t \<and> t < until \<and> nl_socketaddr L a = Some (ip, p) \<longrightarrow>
       is_addr_banned L a t s' \<and>
       (\<forall>now1 drain pick. add_addr L t now1 drain pick a s' = (s', Inr ())) \<and>
       (\<forall>now1. add_outbound_addr L t now1 a s' = (s', Inr ())))"
proof -
  let ?b = "\<lparr>ba_address = nl_network L ip, ba_until = until, ba_reason = reason, ba_created = now\<rparr>"
  obtain m where run: "ban_addr L now now' addr timeout reason s = (s\<lparr>ps_bans := ban now' ?b (ps_bans s), ps_manager := m\<rparr>, Inr ())"
    and ok: "mgr_ok L m" and view: "mgr_view m = (mgr_view (ps_manager s))((ip, port) := None)"
    using ban_addr_run [OF assms] by blast
  let ?s = "s\<lparr>ps_bans := ban now' ?b (ps_bans s), ps_manager := m\<rparr>"
  have "map_option erase_pos (mgr_get L addr m) = None" using view assms(2) by (simp add: mgr_get_view)
  moreover have banned: "is_addr_banned L a t ?s" if "now' \<le> t" "t < until" "nl_socketaddr L a = Some (ip, p)" for t a p
  proof -
    have "now' < ba_until ?b" using that by simp
    from ban_inner [OF this] that show ?thesis
      by (simp add: is_addr_banned_def ban_list_addr_banned_def is_ip_banned_until_def)
  qed
  ultimately show ?thesis
    using run ok banned_refused [OF banned] by (intro exI [of _ ?s]) simp
qed

definition banned_by :: "(u64 \<times> 'n banned_addr) list \<Rightarrow> 'n \<rightharpoonup> 'n banned_addr" where
  "banned_by hist = foldl (\<lambda>f (_, b). f(ba_address b \<mapsto> b)) Map.empty hist"

lemma bans_agree_mono: "bans_agree clock f bl \<Longrightarrow> clock \<le> now \<Longrightarrow> bans_agree now f bl"
  unfolding bans_agree_def by auto

lemma bans_agree_run:
  assumes "sorted (map fst hist)" and "\<forall>x\<in>set hist. fst x \<le> clock"
  shows "bans_agree clock (banned_by hist) (foldl (\<lambda>bl (now, b). ban now b bl) ban_list_new hist)"
  using assms
proof (induction hist arbitrary: clock rule: rev_induct)
  case Nil
  then show ?case by (simp add: bans_agree_def ban_list_new_def banned_by_def)
next
  case (snoc e hist)
  obtain now b where e: "e = (now, b)" by (cases e)
  have pre: "sorted (map fst hist)" "\<forall>x\<in>set hist. fst x \<le> now" "now \<le> clock"
    using snoc.prems e by (auto simp: sorted_append)
  show ?case
    unfolding banned_by_def e foldl_append foldl.simps prod.case
    by (fold banned_by_def) (rule bans_agree_mono [OF ban_agree [OF snoc.IH [OF pre(1,2)] order_refl] pre(3)])
qed

text \<open>
  The ban list is exact: after any sequence of bans with a clock that does not run
  backwards, an address is banned at a later time if and only if the last ban of some network that
  contains it has not ended; the periodic removal of expired entries is never visible.
\<close>

theorem ban_list_exact:
  assumes "\<forall>ip. nl_contains L (nl_network L ip) ip" and "sorted (map fst hist)" and "\<forall>x\<in>set hist. fst x \<le> t"
  shows "is_ip_banned_until L ip t (foldl (\<lambda>bl (now, b). ban now b bl) ban_list_new hist) \<longleftrightarrow>
    (\<exists>n b. banned_by hist n = Some b \<and> t < ba_until b \<and> nl_contains L n ip)"
  using bans_agree_banned [OF bans_agree_run [OF assms(2,3)] order_refl] assms(1) by blast

section \<open>Stale entries of the peer index\<close>

lemma res_map_error:
  assumes "x \<in> set xs" and "f x = Inl e" and "\<And>y e'. f y = Inl e' \<Longrightarrow> e' = e"
  shows "res_map f xs = Inl e"
  using assms(1)
proof (induction xs)
  case Nil
  then show ?case by simp
next
  case (Cons y ys)
  show ?case
  proof (cases "f y")
    case (Inl e')
    then show ?thesis using assms(3) by simp
  next
    case (Inr v)
    then have "x \<noteq> y" using assms(2) by auto
    then show ?thesis using Cons Inr by simp
  qed
qed

definition stale_id :: "'p \<Rightarrow> ('m, 'p) manager \<Rightarrow> bool" where
  "stale_id p m \<longleftrightarrow> (\<exists>ids i. map_of (mg_peer_ids m) p = Some ids \<and> i \<in> set ids \<and> map_of (mg_id_to_info m) i = None)"

lemma stale_id_panics: "stale_id p m \<Longrightarrow> get_by_peer_id p now f m = Inl PePanic"
proof -
  assume "stale_id p m"
  then obtain ids i where ids: "map_of (mg_peer_ids m) p = Some ids" and i: "i \<in> set ids" "map_of (mg_id_to_info m) i = None"
    unfolding stale_id_def by blast
  have "res_map (\<lambda>i. ok_or PePanic (map_of (mg_id_to_info m) i)) ids = Inl PePanic"
    using i by (intro res_map_error [of i]) (auto simp: ok_or_def split: option.splits)
  then show ?thesis using ids by (simp add: get_by_peer_id_def)
qed

lemma mgr_replace_stale:
  assumes ok: "mgr_ok L m" and nx: "mg_next_id m \<noteq> - 1"
    and old: "mgr_view m k = Some old" "nl_peer_id L (ai_addr old) = Some p"
    and new: "nl_socketaddr L (ai_addr info) = Some k" "nl_peer_id L (ai_addr info) = Some q" "q \<noteq> p"
    and later: "ai_last_connected old < ai_last_connected info"
  shows "\<exists>m'. mgr_add L info m = (m', Inr ()) \<and> stale_id p m'"
proof -
  have ix: "index_ok L m" using ok by (simp add: mgr_ok_def)
  obtain i y where i: "map_of (mg_addr_to_id m) k = Some i" and y: "map_of (mg_id_to_info m) i = Some y" "erase_pos y = old"
    using old(1) by (auto simp: mgr_view_def bind_eq_Some_conv)
  have addr: "ai_addr y = ai_addr old" and lc: "ai_last_connected y = ai_last_connected old" using y(2) by auto
  obtain ids where ids: "map_of (mg_peer_ids m) p = Some ids" "i \<in> set ids"
    using index_okD(6) [OF ix y(1)] old(2) addr by auto
  obtain m1 x where rem: "mgr_remove L (ai_addr info) m = (m1, Inr x)" and m1: "mgr_ok L m1" "mg_next_id m1 = mg_next_id m"
    "mg_addr_to_id m1 = AList.delete k (mg_addr_to_id m)" "map_of (mg_id_to_info m1) i = None"
    "map_of (mg_peer_ids m1) p = map_of (mg_peer_ids m) p"
    using mgr_remove_ok [OF ok new(1) i] new(2,3) by auto
  have free: "map_of (mg_addr_to_id m1) k = None" using m1(3) by simp
  obtain m' where m': "mgr_file k q info m1 = (m', Inr ())" "map_of (mg_peer_ids m') p = map_of (mg_peer_ids m1) p"
    "\<forall>j < mg_next_id m1. map_of (mg_id_to_info m') j = map_of (mg_id_to_info m1) j"
    using mgr_file_ok [OF m1(1) new(1,2) free] nx m1(2) new(3) by metis
  have "i < mg_next_id m1" using index_okD(4) [OF ix y(1)] m1(2) by simp
  then have "stale_id p m'" using ids m'(2,3) m1(4,5) unfolding stale_id_def by auto
  moreover have "mgr_get L (ai_addr info) m = Some y" using new(1) i y(1) by (simp add: mgr_get_def)
  then have "mgr_add L info m = (m', Inr ())"
    using new(1,2) later lc rem m'(1) by (simp add: mgr_add_def st_bind_apply st_seq_apply Let_def)
  ultimately show ?thesis by blast
qed

text \<open>
  Property C39. When a socket changes hands, looking up its former peer panics: once an address
  learned under one peer has been connected to under another, the peer index keeps the removed
  entry, and every lookup of addresses of the former peer unwraps a missing value.
\<close>

theorem replaced_peer_panics:
  assumes "mgr_ok L (ps_manager s)" and "mg_next_id (ps_manager s) \<noteq> - 1"
    and "mgr_view (ps_manager s) k = Some old" and "nl_peer_id L (ai_addr old) = Some p"
    and "nl_socketaddr L addr = Some k" and "nl_peer_id L addr = Some q" and "q \<noteq> p"
    and "\<not> is_addr_banned L addr now s" and "ai_last_connected old < now'"
  shows "\<exists>s'. add_outbound_addr L now now' addr s = (s', Inr ()) \<and>
    (\<forall>t t'. fetch_addr_by_peer_id p t t' s' = Inl PePanic)"
proof -
  obtain m' where "mgr_add L (addr_info_new addr now' (ps_default_score s)) (ps_manager s) = (m', Inr ())" "stale_id p m'"
    using mgr_replace_stale [OF assms(1-4), of "addr_info_new addr now' (ps_default_score s)" q] assms(5-9)
    by (auto simp: addr_info_new_def)
  then show ?thesis
    using assms(8) stale_id_panics [of p m']
    by (auto simp: add_outbound_addr_def st_bind_apply on_manager_apply fetch_addr_by_peer_id_def)
qed

section \<open>Eviction\<close>

text \<open>The order in which a hash map is drained, and the random choice of two elements.\<close>

definition choices_ok ::
  "('m addr_info list list \<Rightarrow> 'm addr_info list list) \<Rightarrow> ('m addr_info list \<Rightarrow> 'm addr_info list) \<Rightarrow> bool" where
  "choices_ok drain pick \<longleftrightarrow>
     (\<forall>gs. mset (drain gs) = mset gs) \<and> (\<forall>xs. set (pick xs) \<subseteq> set xs \<and> length (pick xs) = min 2 (length xs))"

definition sockets_of :: "('m, 'p, 'n) net_lib \<Rightarrow> 'm list \<Rightarrow> socket_addr set" where
  "sockets_of L as = {k. \<exists>a\<in>set as. nl_socketaddr L a = Some k}"

lemma remove_addrs_Nil [simp]: "remove_addrs L [] = st_return ()"
  by (simp add: remove_addrs_def)

lemma remove_each_ok:
  assumes "mgr_ok L (ps_manager s)"
  shows "\<exists>m. remove_addrs L as s = (s\<lparr>ps_manager := m\<rparr>, Inr ()) \<and>
    mgr_ok L m \<and> mgr_view m = mgr_view (ps_manager s) |` (- sockets_of L as) \<and> mg_next_id m = mg_next_id (ps_manager s)"
  using assms
proof (induction as arbitrary: s)
  case Nil
  have "s\<lparr>ps_manager := ps_manager s\<rparr> = s" by simp
  then show ?case using Nil by (intro exI [of _ "ps_manager s"]) (simp add: sockets_of_def remove_addrs_def)
next
  case (Cons a as)
  obtain m1 r where m1: "mgr_remove L a (ps_manager s) = (m1, Inr r)" "mgr_ok L m1" "mg_next_id m1 = mg_next_id (ps_manager s)"
    and v1: "mgr_view m1 = (case nl_socketaddr L a of None \<Rightarrow> mgr_view (ps_manager s) | Some k \<Rightarrow> (mgr_view (ps_manager s))(k := None))"
    using mgr_remove_view [OF Cons.prems] by blast
  obtain m where m: "remove_addrs L as (s\<lparr>ps_manager := m1\<rparr>) =
      (s\<lparr>ps_manager := m\<rparr>, Inr ())" "mgr_ok L m" "mgr_view m = mgr_view m1 |` (- sockets_of L as)" "mg_next_id m = mg_next_id m1"
    using Cons.IH [of "s\<lparr>ps_manager := m1\<rparr>"] m1(2) by auto
  have "mgr_view m1 |` (- sockets_of L as) = mgr_view (ps_manager s) |` (- sockets_of L (a # as))"
    unfolding v1 by (rule ext) (auto simp: restrict_map_def sockets_of_def split: option.splits)
  moreover have "remove_addrs L (a # as) s = remove_addrs L as (s\<lparr>ps_manager := m1\<rparr>)"
    using m1(1) by (simp add: remove_addrs_def st_seq_apply on_manager_apply)
  ultimately show ?case using m m1 by (intro exI [of _ m]) simp
qed

lemma iter_socket:
  assumes ok: "mgr_ok L m" and x: "x \<in> set (addrs_iter m)"
  shows "\<exists>k. nl_socketaddr L (ai_addr x) = Some k \<and> mgr_view m k = Some (erase_pos x)"
proof -
  obtain i where "(i, x) \<in> set (mg_id_to_info m)" using x by (auto simp: addrs_iter_def)
  then have "map_of (mg_id_to_info m) i = Some x"
    using index_okD(2) [of L m] ok by (simp add: mgr_ok_def)
  then show ?thesis using entry_socket [OF ok] by blast
qed

lemma eviction_candidates_stored:
  assumes "choices_ok drain pick" and "a \<in> set (eviction_candidates L drain pick infos)"
  shows "\<exists>x\<in>set infos. a = ai_addr x"
proof -
  obtain g where g: "g \<in> set (take (length (group_by_network L infos) div 2)
      (sort_key (\<lambda>k. - int (length k)) (drain (group_by_network L infos))))" and a: "a \<in> ai_addr ` set (pick g)"
    using assms(2) by (auto simp: eviction_candidates_def Let_def split: if_splits)
  have "g \<in> set (drain (group_by_network L infos))" using in_set_takeD [OF g] by simp
  moreover have "set (drain (group_by_network L infos)) = set (group_by_network L infos)"
    using assms(1) mset_eq_setD unfolding choices_ok_def by blast
  ultimately have "set g \<subseteq> set infos" by (auto simp: group_by_network_def)
  moreover have "set (pick g) \<subseteq> set g" using assms(1) by (simp add: choices_ok_def)
  ultimately show ?thesis using a by blast
qed

lemma evicted_fewer:
  assumes ok: "mgr_ok L m" "mgr_ok L m'" and view: "mgr_view m' = mgr_view m |` (- sockets_of L as)"
    and as: "as \<noteq> []" "\<And>a. a \<in> set as \<Longrightarrow> \<exists>x\<in>set (addrs_iter m). a = ai_addr x"
  shows "mgr_count m' < mgr_count m"
proof -
  obtain a where a: "a \<in> set as" using as(1) by (cases as) auto
  obtain k where k: "nl_socketaddr L a = Some k" "mgr_view m k \<noteq> None" using as(2) [OF a] iter_socket [OF ok(1)] by fastforce
  have "dom (mgr_view m') = dom (mgr_view m) - sockets_of L as" unfolding view by auto
  moreover have "k \<in> dom (mgr_view m)" "k \<in> sockets_of L as" using a k by (auto simp: sockets_of_def)
  ultimately have "dom (mgr_view m') \<subset> dom (mgr_view m)" by blast
  then show ?thesis using psubset_card_mono dom_mgr_view(2) [OF ok(1)] by (simp add: mgr_count_view [OF ok(1)] mgr_count_view [OF ok(2)])
qed

lemma check_purge_ok:
  assumes ok: "mgr_ok L (ps_manager s)" and ch: "choices_ok drain pick"
  shows "\<exists>m r. check_purge L now drain pick s = (s\<lparr>ps_manager := m\<rparr>, r) \<and> mgr_ok L m \<and>
    mg_next_id m = mg_next_id (ps_manager s) \<and>
    (r = Inl PeerStoreEvictionFailed \<and> m = ps_manager s \<or>
     r = Inr () \<and> (mgr_count (ps_manager s) < ADDR_COUNT_LIMIT \<and> m = ps_manager s \<or> mgr_count m < mgr_count (ps_manager s)))"
proof (cases "mgr_count (ps_manager s) < ADDR_COUNT_LIMIT")
  case True
  have "s\<lparr>ps_manager := ps_manager s\<rparr> = s" by simp
  then show ?thesis
    using True ok by (intro exI [of _ "ps_manager s"] exI [of _ "Inr ()"]) (simp add: check_purge_def st_bind_apply)
next
  case False
  let ?old = "map ai_addr (filter (\<lambda>info. \<not> is_connectable info now) (addrs_iter (ps_manager s)))"
  let ?ev = "eviction_candidates L drain pick (addrs_iter (ps_manager s))"
  have id: "s\<lparr>ps_manager := ps_manager s\<rparr> = s" by simp
  obtain m where m: "remove_addrs L ?old s = (s\<lparr>ps_manager := m\<rparr>, Inr ())" "mgr_ok L m"
      "mgr_view m = mgr_view (ps_manager s) |` (- sockets_of L ?old)" "mg_next_id m = mg_next_id (ps_manager s)"
    using remove_each_ok [OF ok] by blast
  obtain n where n: "remove_addrs L ?ev s = (s\<lparr>ps_manager := n\<rparr>, Inr ())" "mgr_ok L n"
      "mgr_view n = mgr_view (ps_manager s) |` (- sockets_of L ?ev)" "mg_next_id n = mg_next_id (ps_manager s)"
    using remove_each_ok [OF ok] by blast
  show ?thesis
  proof (cases "?old = []")
    case old: False
    have "mgr_count m < mgr_count (ps_manager s)" by (rule evicted_fewer [OF ok m(2,3) old]) auto
    moreover have "check_purge L now drain pick s = (s\<lparr>ps_manager := m\<rparr>, Inr ())"
      using False old m(1) by (simp add: check_purge_def st_bind_apply st_seq_apply Let_def)
    ultimately show ?thesis using m by blast
  next
    case old: True
    then have run: "check_purge L now drain pick s =
        (if ?ev = [] then (s, Inl PeerStoreEvictionFailed) else (s\<lparr>ps_manager := n\<rparr>, Inr ()))"
      using False n(1) by (auto simp: check_purge_def st_bind_apply st_seq_apply Let_def)
    show ?thesis
    proof (cases "?ev = []")
      case True
      then show ?thesis using run ok id by (intro exI [of _ "ps_manager s"]) simp
    next
      case ev: False
      have "mgr_count n < mgr_count (ps_manager s)"
        by (rule evicted_fewer [OF ok n(2,3) ev]) (rule eviction_candidates_stored [OF ch])
      then show ?thesis using run ev n by (intro exI [of _ n]) simp
    qed
  qed
qed

lemma add_count:
  assumes "mgr_ok L m" and "mgr_add L info m = (m', Inr ())" and "mgr_ok L m'" and "mgr_view m' = add_spec L info (mgr_view m)"
  shows "mgr_count m' \<le> Suc (mgr_count m)"
proof -
  have "dom (add_spec L info v) \<subseteq> insert (the (nl_socketaddr L (ai_addr info))) (dom v)" for v
    by (auto simp: add_spec_def split: option.splits if_splits)
  then have "card (dom (mgr_view m')) \<le> card (insert (the (nl_socketaddr L (ai_addr info))) (dom (mgr_view m)))"
    unfolding assms(4) using dom_mgr_view(2) [OF assms(1)] by (intro card_mono) simp_all
  also have "\<dots> \<le> Suc (card (dom (mgr_view m)))" by (rule card_insert_le_m1 [of "Suc _", simplified]) simp
  finally show ?thesis by (simp add: mgr_count_view [OF assms(1)] mgr_count_view [OF assms(3)])
qed

text \<open>
  A full peer store stays bounded: adding a discovered address never panics, keeps the
  invariant, and never leaves more addresses than the limit of 16384 or, if outbound
  connections had filled the store beyond it, than before; when nothing can be evicted the store is unchanged.
\<close>

theorem add_addr_bounded:
  assumes "mgr_ok L (ps_manager s)" and "mg_next_id (ps_manager s) \<noteq> - 1" and "choices_ok drain pick"
  shows "\<exists>s' r. add_addr L now now' drain pick addr s = (s', r) \<and> mgr_ok L (ps_manager s') \<and>
    (r = Inr () \<or> r = Inl PeerStoreEvictionFailed \<and> s' = s) \<and>
    mgr_count (ps_manager s') \<le> max ADDR_COUNT_LIMIT (mgr_count (ps_manager s))"
proof (cases "is_addr_banned L addr now s")
  case True
  then show ?thesis using banned_refused(1) [OF True] assms(1) by (intro exI [of _ s] exI [of _ "Inr ()"]) simp
next
  case False
  obtain m r where purge: "check_purge L now' drain pick s = (s\<lparr>ps_manager := m\<rparr>, r)" and ok: "mgr_ok L m"
    "mg_next_id m = mg_next_id (ps_manager s)"
    and r: "r = Inl PeerStoreEvictionFailed \<and> m = ps_manager s \<or>
     r = Inr () \<and> (mgr_count (ps_manager s) < ADDR_COUNT_LIMIT \<and> m = ps_manager s \<or> mgr_count m < mgr_count (ps_manager s))"
    using check_purge_ok [OF assms(1,3)] by blast
  from r show ?thesis
  proof
    assume "r = Inl PeerStoreEvictionFailed \<and> m = ps_manager s"
    then show ?thesis using purge False ok by (auto simp: add_addr_def st_bind_apply st_seq_apply)
  next
    assume rr: "r = Inr () \<and> (mgr_count (ps_manager s) < ADDR_COUNT_LIMIT \<and> m = ps_manager s \<or> mgr_count m < mgr_count (ps_manager s))"
    let ?info = "addr_info_new addr 0 (ps_default_score s)"
    obtain m' where add: "mgr_add L ?info m = (m', Inr ())" "mgr_ok L m'" "mgr_view m' = add_spec L ?info (mgr_view m)"
      using mgr_add_ok [OF ok(1), of ?info] ok(2) assms(2) by auto
    have "mgr_count m' \<le> max ADDR_COUNT_LIMIT (mgr_count (ps_manager s))" using add_count [OF ok(1) add] rr by auto
    moreover have "add_addr L now now' drain pick addr s = (s\<lparr>ps_manager := m'\<rparr>, Inr ())"
      using purge False rr add(1) by (simp add: add_addr_def st_bind_apply st_seq_apply on_manager_apply)
    ultimately show ?thesis using add(2) by simp
  qed
qed

section \<open>The files of the store\<close>

lemma add_spec_fresh:
  "nl_socketaddr L (ai_addr x) = Some k \<Longrightarrow> nl_peer_id L (ai_addr x) \<noteq> None \<Longrightarrow> v k = None \<Longrightarrow>
     add_spec L x v = v(k \<mapsto> erase_pos x)"
  by (auto simp: add_spec_def)

lemma fold_add_spec:
  assumes "\<And>x. x \<in> set xs \<Longrightarrow> nl_socketaddr L (ai_addr x) \<noteq> None \<and> nl_peer_id L (ai_addr x) \<noteq> None"
    and "distinct (map (\<lambda>x. nl_socketaddr L (ai_addr x)) xs)"
    and "\<And>x k. x \<in> set xs \<Longrightarrow> nl_socketaddr L (ai_addr x) = Some k \<Longrightarrow> v k = None"
  shows "fold (add_spec L) xs v k =
    (case find (\<lambda>x. nl_socketaddr L (ai_addr x) = Some k) xs of Some x \<Rightarrow> Some (erase_pos x) | None \<Rightarrow> v k)"
  using assms
proof (induction xs arbitrary: v)
  case Nil
  then show ?case by simp
next
  case (Cons x xs)
  obtain k' where k': "nl_socketaddr L (ai_addr x) = Some k'" using Cons.prems(1) [of x] by auto
  have step: "add_spec L x v = v(k' \<mapsto> erase_pos x)"
    using add_spec_fresh [OF k'] Cons.prems(1) [of x] Cons.prems(3) [of x, OF _ k'] by simp
  have new: "\<forall>y\<in>set xs. nl_socketaddr L (ai_addr y) \<noteq> Some k'" using Cons.prems(2) k' by force
  have "fold (add_spec L) xs (v(k' \<mapsto> erase_pos x)) k =
      (case find (\<lambda>x. nl_socketaddr L (ai_addr x) = Some k) xs of Some y \<Rightarrow> Some (erase_pos y) | None \<Rightarrow> (v(k' \<mapsto> erase_pos x)) k)"
    using Cons.prems new by (intro Cons.IH) auto
  moreover have "find (\<lambda>x. nl_socketaddr L (ai_addr x) = Some k') xs = None" using new by (simp add: find_None_iff)
  ultimately show ?case using step k' by (cases "k = k'") (auto split: option.split)
qed

lemma exec_adds: "st_each (mgr_exec L) (map EvAdd xs) = st_each (mgr_add L) xs"
  by (induction xs) simp_all

lemma fold_spec_adds: "fold (spec_exec L) (map EvAdd xs) v = fold (add_spec L) xs v"
  by (induction xs arbitrary: v) simp_all

lemma addrs_iter_ok:
  assumes ok: "mgr_ok L m"
  shows "\<And>x. x \<in> set (addrs_iter m) \<Longrightarrow> nl_socketaddr L (ai_addr x) \<noteq> None \<and> nl_peer_id L (ai_addr x) \<noteq> None"
    and "distinct (map (\<lambda>x. nl_socketaddr L (ai_addr x)) (addrs_iter m))"
    and "mgr_view m k = (case find (\<lambda>x. nl_socketaddr L (ai_addr x) = Some k) (addrs_iter m) of Some x \<Rightarrow> Some (erase_pos x) | None \<Rightarrow> None)"
proof -
  have ix: "index_ok L m" using ok by (simp add: mgr_ok_def)
  have mem: "map_of (mg_id_to_info m) i = Some x" if "(i, x) \<in> set (mg_id_to_info m)" for i x
    using that index_okD(2) [OF ix] by simp
  show "nl_socketaddr L (ai_addr x) \<noteq> None \<and> nl_peer_id L (ai_addr x) \<noteq> None" if "x \<in> set (addrs_iter m)" for x
    using that mem index_okD(5,6) [OF ix] by (fastforce simp: addrs_iter_def)
  have "inj_on (\<lambda>e. nl_socketaddr L (ai_addr (snd e))) (set (mg_id_to_info m))"
  proof (rule inj_onI)
    fix e e' assume e: "e \<in> set (mg_id_to_info m)" "e' \<in> set (mg_id_to_info m)"
      and eq: "nl_socketaddr L (ai_addr (snd e)) = nl_socketaddr L (ai_addr (snd e'))"
    have "map_of (mg_id_to_info m) (fst e) = Some (snd e)" "map_of (mg_id_to_info m) (fst e') = Some (snd e')"
      using e mem by auto
    moreover from this have "fst e = fst e'"
      using index_okD(5) [OF ix, of "fst e" "snd e"] index_okD(5) [OF ix, of "fst e'" "snd e'"] eq by auto
    ultimately show "e = e'" by (simp add: prod_eq_iff)
  qed
  moreover have "distinct (mg_id_to_info m)" using index_okD(2) [OF ix] by (simp add: distinct_map)
  ultimately show "distinct (map (\<lambda>x. nl_socketaddr L (ai_addr x)) (addrs_iter m))"
    by (simp add: addrs_iter_def distinct_map comp_def)
  show "mgr_view m k = (case find (\<lambda>x. nl_socketaddr L (ai_addr x) = Some k) (addrs_iter m) of Some x \<Rightarrow> Some (erase_pos x) | None \<Rightarrow> None)"
  proof (cases "find (\<lambda>x. nl_socketaddr L (ai_addr x) = Some k) (addrs_iter m)")
    case (Some x)
    then have "x \<in> set (addrs_iter m)" "nl_socketaddr L (ai_addr x) = Some k" by (auto simp: find_Some_iff)
    then show ?thesis using Some iter_socket [OF ok] by fastforce
  next
    case None
    have "mgr_view m k = None"
    proof (rule ccontr)
      assume "mgr_view m k \<noteq> None"
      then obtain i y where "map_of (mg_addr_to_id m) k = Some i" "map_of (mg_id_to_info m) i = Some y"
        by (auto simp: mgr_view_def bind_eq_Some_conv)
      then have "y \<in> set (addrs_iter m)" "nl_socketaddr L (ai_addr y) = Some k"
        using index_okD(3) [OF ix, of k i] by (auto simp: addrs_iter_def dest!: map_of_SomeD intro: rev_image_eqI)
      then show False using None by (auto simp: find_None_iff)
    qed
    then show ?thesis using None by simp
  qed
qed

text \<open>
  The file of the address manager round-trips: loading what a dump writes gives a manager
  that stores the same address with the same history for every socket.
\<close>

theorem manager_dump_load:
  assumes "mgr_ok L m" and "length (addrs_iter m) < 2 ^ 64"
  shows "\<exists>m'. manager_load L (addrs_iter m) = Inr m' \<and> mgr_ok L m' \<and> mgr_view m' = mgr_view m"
proof -
  obtain m' where run: "st_each (mgr_add L) (addrs_iter m) manager_default = (m', Inr ())" "mgr_ok L m'"
    and view: "mgr_view m' = fold (add_spec L) (addrs_iter m) Map.empty"
    using mgr_run_ok [OF manager_default_ok(1), of "map EvAdd (addrs_iter m)" L] assms(2)
    by (auto simp: exec_adds fold_spec_adds manager_default_ok)
  have "mgr_view m' = mgr_view m"
    unfolding view by (rule ext) (simp add: fold_add_spec [OF addrs_iter_ok(1,2) [OF assms(1)]] addrs_iter_ok(3) [OF assms(1)])
  then show ?thesis using run by (simp add: manager_load_def)
qed

section \<open>Concrete runs\<close>

definition sample_store :: "(sample_addr, nat, ip_addr) peer_store" where
  "sample_store = peer_store_new sample_known ban_list_new"

lemma sample_store_simps [simp]:
  "ps_manager sample_store = sample_known" "is_addr_banned sample_net a now sample_store = False"
  by (simp_all add: sample_store_def peer_store_new_def is_addr_banned_def ban_list_addr_banned_def is_ip_banned_until_def
      ban_list_new_def split: option.split)

theorem ban_addr_effective_witness:
  "\<exists>s'. ban_addr sample_net 1000 1000 (7, 80, 5) 500 ''spam'' sample_store = (s', Inr ()) \<and>
     mgr_get sample_net (7, 80, 5) (ps_manager s') = None \<and> is_addr_banned sample_net (7, 81, 9) 1200 s' \<and>
     add_outbound_addr sample_net 1200 1200 (7, 81, 9) s' = (s', Inr ())"
proof -
  have "mgr_ok sample_net (ps_manager sample_store)" using sample_known_ok by simp
  moreover have "nl_socketaddr sample_net (7, 80, 5) = Some (V4 7, 80)" by simp
  moreover have "checked_add (1000 :: u64) 500 = Some 1500" by (simp add: checked_add_def)
  ultimately obtain s' where "ban_addr sample_net 1000 1000 (7, 80, 5) 500 ''spam'' sample_store = (s', Inr ())"
    "mgr_get sample_net (7, 80, 5) (ps_manager s') = None"
    and "\<forall>t a p. 1000 \<le> t \<and> t < 1500 \<and> nl_socketaddr sample_net a = Some (V4 7, p) \<longrightarrow>
       is_addr_banned sample_net a t s' \<and>
       (\<forall>now1 drain pick. add_addr sample_net t now1 drain pick a s' = (s', Inr ())) \<and>
       (\<forall>now1. add_outbound_addr sample_net t now1 a s' = (s', Inr ()))"
    using ban_addr_effective [of sample_net sample_store "(7, 80, 5)" "V4 7" 80 1000 500 1500 1000 "''spam''"] by blast
  then show ?thesis by (intro exI [of _ s']) (auto dest: spec [of _ 1200] spec [of _ "(7, 81, 9)"])
qed

theorem ban_list_exact_witness:
  "is_ip_banned_until sample_net (V4 7) 1200
     (foldl (\<lambda>bl (now, b). ban now b bl) ban_list_new [(1000, \<lparr>ba_address = V4 7, ba_until = 1500, ba_reason = ''x'', ba_created = 1000\<rparr>)])"
  using ban_list_exact [of sample_net "[(1000, \<lparr>ba_address = V4 7, ba_until = 1500, ba_reason = ''x'', ba_created = 1000\<rparr>)]" 1200 "V4 7"]
  by (simp add: banned_by_def)

theorem replaced_peer_panics_witness:
  "\<exists>s'. add_outbound_addr sample_net 1000 1000 (7, 80, 6) sample_store = (s', Inr ()) \<and>
     fetch_addr_by_peer_id 5 2000 2000 s' = Inl PePanic"
proof -
  have nx: "mg_next_id sample_known \<noteq> - 1" using sample_known_ok(3) by auto
  show ?thesis
    using replaced_peer_panics [of sample_net sample_store "(V4 7, 80)" "addr_info_new (7, 80, 5) 0 100" 5 "(7, 80, 6)" 6 1000 1000]
      sample_known_ok nx
    by (auto simp: addr_info_new_def)
qed

theorem add_addr_bounded_witness:
  "\<exists>s' r. add_addr sample_net 1000 1000 id (take 2) (8, 80, 4) sample_store = (s', r) \<and>
     mgr_count (ps_manager s') \<le> max ADDR_COUNT_LIMIT (mgr_count sample_known)"
proof -
  have nx: "mg_next_id sample_known \<noteq> - 1" using sample_known_ok(3) by auto
  have "choices_ok (id :: sample_addr addr_info list list \<Rightarrow> _) (take 2)"
    by (auto simp: choices_ok_def dest: in_set_takeD)
  then show ?thesis
    using add_addr_bounded [of sample_net sample_store id "take 2" 1000 1000 "(8, 80, 4)"] sample_known_ok nx by auto
qed

theorem manager_dump_load_witness:
  "\<exists>m'. manager_load sample_net (addrs_iter sample_known) = Inr m' \<and> mgr_view m' = mgr_view sample_known"
proof -
  have "length (addrs_iter sample_known) < 2 ^ 64"
    by (simp add: sample_known_def mgr_add_def mgr_get_def mgr_file_def manager_default_def addrs_iter_def addr_info_new_def
        st_bind_apply st_seq_apply checked_add_def)
  from manager_dump_load [OF sample_known_ok(1) this] show ?thesis by blast
qed

end
