(* ===== verification/Net_Message.thy ===== *)
theory Net_Message
  imports Prelude
begin

text \<open>
  The messages of \<open>core/network\<close>: endpoints (\<open>endpoint.rs\<close>), compression (\<open>compress.rs\<close>), the headers and
  body of a network message (\<open>message/mod.rs\<close>, \<open>str_to_trace\<close> of \<open>common/apm\<close>) and the
  responses of remote calls (\<open>rpc.rs\<close>). Rust strings are their UTF-8 bytes as characters. The compression
  library \<open>snap\<close> is a parameter.

  An identifier appended to an endpoint is read back and does not change the handler, a response
  survives its encoding, and compression is undone exactly up to the limit of eight megabytes, which is the property of this theory.
\<close>

section \<open>Strings\<close>

fun split_char :: "char \<Rightarrow> string \<Rightarrow> string list" where
  "split_char c [] = [[]]"
| "split_char c (x # xs) =
     (if x = c then [] # split_char c xs
      else case split_char c xs of [] \<Rightarrow> [[x]] | w # ws \<Rightarrow> (x # w) # ws)"

definition url_comps :: "string \<Rightarrow> string list" where
  "url_comps s = filter (\<lambda>part. part \<noteq> []) (split_char (CHR ''/'') s)"

definition starts_with :: "string \<Rightarrow> string \<Rightarrow> bool" where
  "starts_with s pat \<longleftrightarrow> take (length pat) s = pat"

definition rfind :: "char \<Rightarrow> string \<Rightarrow> nat option" where
  "rfind c s = (if c \<in> set s then Some (length s - 1 - length (takeWhile (\<lambda>x. x \<noteq> c) (rev s))) else None)"

definition bytes_of_string :: "string \<Rightarrow> bytes" where
  "bytes_of_string s = map (\<lambda>c. word_of_nat (of_char c)) s"

definition string_of_bytes :: "bytes \<Rightarrow> string" where
  "string_of_bytes bs = map (\<lambda>b. char_of (unat b)) bs"

text \<open>
  One scalar value of UTF-8 at the start of a byte string: whether it is well formed, and the number of
  bytes it has or that are replaced together.
\<close>

definition in_range :: "u8 \<Rightarrow> u8 \<Rightarrow> bytes \<Rightarrow> nat \<Rightarrow> bool" where
  "in_range lo hi bs i \<longleftrightarrow> i < length bs \<and> lo \<le> bs ! i \<and> bs ! i \<le> hi"

definition utf8_first :: "bytes \<Rightarrow> bool \<times> nat" where
  "utf8_first bs =
     (let b = bs ! 0; cont = in_range 0x80 0xBF bs in
      if b < 0x80 then (True, 1)
      else if 0xC2 \<le> b \<and> b \<le> 0xDF then (if cont 1 then (True, 2) else (False, 1))
      else if 0xE0 \<le> b \<and> b \<le> 0xEF then
        (if \<not> in_range (if b = 0xE0 then 0xA0 else 0x80) (if b = 0xED then 0x9F else 0xBF) bs 1 then (False, 1)
         else if \<not> cont 2 then (False, 2) else (True, 3))
      else if 0xF0 \<le> b \<and> b \<le> 0xF4 then
        (if \<not> in_range (if b = 0xF0 then 0x90 else 0x80) (if b = 0xF4 then 0x8F else 0xBF) bs 1 then (False, 1)
         else if \<not> cont 2 then (False, 2) else if \<not> cont 3 then (False, 3) else (True, 4))
      else (False, 1))"

lemma utf8_first_pos: "0 < snd (utf8_first bs)"
  by (simp add: utf8_first_def Let_def)

function utf8_chunks :: "bytes \<Rightarrow> (bool \<times> bytes) list" where
  "utf8_chunks [] = []"
| "utf8_chunks (b # bs) =
     (let (ok, n) = utf8_first (b # bs) in (ok, take n (b # bs)) # utf8_chunks (drop n (b # bs)))"
  by pat_completeness auto
termination
  by (relation "measure length") (use utf8_first_pos in \<open>auto simp: prod_eq_iff\<close>)

definition from_utf8 :: "bytes \<Rightarrow> string option" where
  "from_utf8 bs = (if \<forall>c\<in>set (utf8_chunks bs). fst c then Some (string_of_bytes bs) else None)"

definition from_utf8_lossy :: "bytes \<Rightarrow> string" where
  "from_utf8_lossy bs =
     string_of_bytes (concat (map (\<lambda>(ok, c). if ok then c else [0xEF, 0xBF, 0xBD]) (utf8_chunks bs)))"

section \<open>Endpoints\<close>

datatype net_error =
    NetPanic
  | NotEndpoint
  | UnexpectedScheme string
  | NotIdString
  | BadMessage
  | CodecError
  | NoReactor string
  | NoSessionId
  | NoRpcId
  | UnknownRpc nat u64
  | RpcDropped
  | RpcTimeout
  | RemoteResponse string
  | InvalidPeerId

datatype endpoint = Endpoint (full_url: string)

datatype url_scheme = GossipScheme | RpcCallScheme | RpcResponseScheme

definition GOSSIP_SCHEME :: string where "GOSSIP_SCHEME = ''/gossip''"
definition RPC_CALL_SCHEME :: string where "RPC_CALL_SCHEME = ''/rpc_call''"
definition RPC_RESPONSE_SCHEME :: string where "RPC_RESPONSE_SCHEME = ''/rpc_resp''"

definition endpoint_scheme :: "endpoint \<Rightarrow> net_error + url_scheme" where
  "endpoint_scheme e =
     (if starts_with (full_url e) GOSSIP_SCHEME then Inr GossipScheme
      else if starts_with (full_url e) RPC_CALL_SCHEME then Inr RpcCallScheme
      else if starts_with (full_url e) RPC_RESPONSE_SCHEME then Inr RpcResponseScheme
      else Inl NetPanic)"

definition endpoint_root :: "endpoint \<Rightarrow> net_error + string" where
  "endpoint_root e =
     (case url_comps (full_url e) of
        a # b # c # _ \<Rightarrow> Inr (''/'' @ a @ ''/'' @ b @ ''/'' @ c)
      | _ \<Rightarrow> Inl NetPanic)"

definition endpoint_parse :: "string \<Rightarrow> net_error + endpoint" where
  "endpoint_parse url =
     (if url = [] \<or> 120 < length url then Inl NotEndpoint
      else if \<not> starts_with url GOSSIP_SCHEME \<and> \<not> starts_with url RPC_CALL_SCHEME \<and> \<not> starts_with url RPC_RESPONSE_SCHEME
      then Inl (UnexpectedScheme url)
      else
        let comps = url_comps url in
        if length comps < 3 \<or> 4 < length comps then Inl NotEndpoint else Inr (Endpoint url))"

definition endpoint_extend :: "endpoint \<Rightarrow> string \<Rightarrow> net_error + endpoint" where
  "endpoint_extend e part = endpoint_parse (full_url e @ ''/'' @ dropWhile (\<lambda>c. c = CHR ''/'') part)"

definition extract_rpc_id_from :: "endpoint \<Rightarrow> net_error + u64" where
  "extract_rpc_id_from e =
     (case rfind (CHR ''/'') (full_url e) of
        None \<Rightarrow> Inl NotEndpoint
      | Some i \<Rightarrow>
          if length (full_url e) = i + 1 then Inl NotEndpoint
          else ok_or NotIdString (parse_u64 (drop (i + 1) (full_url e))))"

type_synonym rpc_endpoint = "endpoint \<times> u64"

definition rpc_endpoint_try_from :: "endpoint \<Rightarrow> net_error + rpc_endpoint" where
  "rpc_endpoint_try_from e = res_bind (extract_rpc_id_from e) (\<lambda>rid. Inr (e, rid))"

definition rpc_endpoint_parse :: "string \<Rightarrow> net_error + rpc_endpoint" where
  "rpc_endpoint_parse url =
     res_bind (endpoint_parse url) (\<lambda>e.
       if \<not> starts_with (full_url e) RPC_CALL_SCHEME \<and> \<not> starts_with (full_url e) RPC_RESPONSE_SCHEME
       then res_bind (endpoint_root e) (\<lambda>r. Inl (UnexpectedScheme r))
       else res_bind (extract_rpc_id_from e) (\<lambda>rid. Inr (e, rid)))"

section \<open>Compression\<close>

record snap =
  sn_compress :: "bytes \<Rightarrow> bytes option"
  sn_decompress_len :: "bytes \<Rightarrow> nat option"
  sn_decompress :: "bytes \<Rightarrow> nat \<Rightarrow> bytes option"

definition COMPRESSION_SIZE_THRESHOLD :: nat where "COMPRESSION_SIZE_THRESHOLD = 1024"
definition MAX_UNCOMPRESSED_LEN :: nat where "MAX_UNCOMPRESSED_LEN = 2 ^ 23"

definition net_compress :: "snap \<Rightarrow> bytes \<Rightarrow> bytes" where
  "net_compress S src =
     (let inner = 0 # src in
      if COMPRESSION_SIZE_THRESHOLD < length inner
      then case sn_compress S (drop 1 inner) of
             Some res \<Rightarrow> (take 1 inner @ res)[0 := 0x80]
           | None \<Rightarrow> inner
      else inner)"

definition net_decompress :: "snap \<Rightarrow> bytes \<Rightarrow> bytes option" where
  "net_decompress S src =
     (case src of
        [] \<Rightarrow> None
      | flag # body \<Rightarrow>
          if and flag 0x80 \<noteq> 0
          then case sn_decompress_len S body of
                 None \<Rightarrow> None
               | Some n \<Rightarrow> if MAX_UNCOMPRESSED_LEN < n then None else sn_decompress S body n
          else Some body)"

section \<open>Messages\<close>

record network_message =
  nm_headers :: "(string \<times> bytes) list"
  nm_url :: string
  nm_content :: bytes

definition hex_digit :: "char \<Rightarrow> nat option" where
  "hex_digit c =
     (let n = of_char c :: nat in
      if 48 \<le> n \<and> n \<le> 57 then Some (n - 48)
      else if 97 \<le> n \<and> n \<le> 102 then Some (n - 87)
      else if 65 \<le> n \<and> n \<le> 70 then Some (n - 55) else None)"

definition hex_step :: "nat option \<Rightarrow> char \<Rightarrow> nat option" where
  "hex_step acc c =
     (case acc of None \<Rightarrow> None
      | Some a \<Rightarrow> (case hex_digit c of None \<Rightarrow> None
          | Some d \<Rightarrow> if 16 * a + d < 2 ^ 64 then Some (16 * a + d) else None))"

definition parse_hex_u64 :: "string \<Rightarrow> u64 option" where
  "parse_hex_u64 s =
     (let ds = (if s \<noteq> [] \<and> hd s = CHR ''+'' then tl s else s)
      in if ds = [] then None else map_option word_of_nat (foldl hex_step (Some 0) ds))"

text \<open>The hexadecimal digit of a number.\<close>

definition nib :: "nat \<Rightarrow> char" where
  "nib d = char_of (if d < 10 then 48 + d else 87 + d)"

lemma nib_facts: "d < 16 \<Longrightarrow> hex_digit (nib d) = Some d \<and> nib d \<noteq> CHR ''+'' \<and> of_char (nib d) < (128 :: nat)"
  by (auto simp: nib_def hex_digit_def dest!: arg_cong [where f = "of_char :: char \<Rightarrow> nat"])

text \<open>\<open>str_to_trace\<close>; the outer \<open>None\<close> is the panic on more than 32 bytes.\<close>

definition str_to_trace :: "string \<Rightarrow> (u64 \<times> u64) option option" where
  "str_to_trace s =
     (if length s \<le> 16 then Some (map_option (\<lambda>low. (0, low)) (parse_hex_u64 s))
      else if length s \<le> 32 then
        let high = take (length s - 16) s; low = drop (length s - 16) s in
        Some (if from_utf8 (bytes_of_string high) = None then None
         else case parse_hex_u64 high of
           None \<Rightarrow> None
         | Some h \<Rightarrow>
             if from_utf8 (bytes_of_string low) = None then None
             else map_option (\<lambda>l. (h, l)) (parse_hex_u64 low))
      else None)"

definition set_trace_id :: "(u64 \<times> u64 \<Rightarrow> string) \<Rightarrow> u64 \<times> u64 \<Rightarrow> (string \<times> bytes) list \<Rightarrow> (string \<times> bytes) list" where
  "set_trace_id show_id tid hs = AList.update ''trace_id'' (bytes_of_string (show_id tid)) hs"

definition set_span_id :: "u64 \<Rightarrow> (string \<times> bytes) list \<Rightarrow> (string \<times> bytes) list" where
  "set_span_id sid hs = AList.update ''span_id'' (to_be_bytes 8 sid) hs"

definition network_message_new :: "endpoint \<Rightarrow> bytes \<Rightarrow> (string \<times> bytes) list \<Rightarrow> network_message" where
  "network_message_new e content hs = \<lparr>nm_headers = hs, nm_url = full_url e, nm_content = content\<rparr>"

definition message_trace_id :: "network_message \<Rightarrow> net_error + (u64 \<times> u64) option" where
  "message_trace_id m =
     (case map_of (nm_headers m) ''trace_id'' of
        None \<Rightarrow> Inr None
      | Some raw \<Rightarrow>
          (case from_utf8 raw of
             None \<Rightarrow> Inr None
           | Some s \<Rightarrow>
               (case str_to_trace s of
                  Some (Some tid) \<Rightarrow> Inr (Some tid)
                | _ \<Rightarrow> Inl NetPanic)))"

definition message_span_id :: "network_message \<Rightarrow> net_error + u64 option" where
  "message_span_id m =
     (case map_of (nm_headers m) ''span_id'' of
        None \<Rightarrow> Inr None
      | Some raw \<Rightarrow> if length raw < 8 then Inl NetPanic else Inr (Some (from_be_bytes (take 8 raw))))"

datatype rpc_response = RpcSuccess bytes | RpcError string

definition rpc_response_encode :: "rpc_response \<Rightarrow> bytes" where
  "rpc_response_encode r =
     (case r of RpcSuccess bs \<Rightarrow> 0 # bs | RpcError e \<Rightarrow> 1 # bytes_of_string e)"

text \<open>The inline decoding of a response in \<open>MessageReactor::react\<close>.\<close>

definition rpc_response_decode :: "bytes \<Rightarrow> rpc_response" where
  "rpc_response_decode content =
     (case content of
        [] \<Rightarrow> RpcError ''empty message''
      | tag # raw \<Rightarrow> if tag = 0 then RpcSuccess raw else RpcError (from_utf8_lossy raw))"

section \<open>Components of a path\<close>

lemma split_char_not_Nil [simp]: "split_char c s \<noteq> []"
  by (induction s) (auto split: list.splits)

lemma split_char_append:
  "split_char c (a @ c # b) = split_char c a @ split_char c b"
proof (induction a)
  case Nil
  then show ?case by simp
next
  case (Cons x a)
  then show ?case by (cases "split_char c a") auto
qed

lemma url_comps_append: "url_comps (a @ CHR ''/'' # b) = url_comps a @ url_comps b"
  by (simp add: url_comps_def split_char_append)

lemma split_char_none: "c \<notin> set s \<Longrightarrow> split_char c s = [s]"
  by (induction s) auto

lemma to_dec_no_slash: "CHR ''/'' \<notin> set (to_dec n)"
proof
  assume "CHR ''/'' \<in> set (to_dec n)"
  then obtain d where "d < 10" "CHR ''/'' = dec_digit d" using to_dec_digits by blast
  then show False by (auto simp: dec_digit_def dest!: arg_cong [where f = "of_char :: char \<Rightarrow> nat"])
qed

lemma url_comps_to_dec [simp]: "url_comps (to_dec n) = [to_dec n]"
  by (simp add: url_comps_def split_char_none to_dec_no_slash)

lemma rfind_append: "c \<notin> set b \<Longrightarrow> rfind c (a @ c # b) = Some (length a)"
proof -
  assume "c \<notin> set b"
  then have "takeWhile (\<lambda>x. x \<noteq> c) (rev b @ c # rev a) = rev b"
    by (subst takeWhile_append2) auto
  then show ?thesis by (simp add: rfind_def)
qed

lemma dropWhile_to_dec [simp]: "dropWhile (\<lambda>c. c = CHR ''/'') (to_dec n) = to_dec n"
  using to_dec_no_slash [of n] by (cases "to_dec n") auto

lemma endpoint_parse_ok:
  "endpoint_parse url = Inr e \<longleftrightarrow> e = Endpoint url \<and> url \<noteq> [] \<and> length url \<le> 120 \<and>
     (starts_with url GOSSIP_SCHEME \<or> starts_with url RPC_CALL_SCHEME \<or> starts_with url RPC_RESPONSE_SCHEME) \<and>
     length (url_comps url) \<in> {3, 4}"
  by (auto simp: endpoint_parse_def Let_def)

lemma starts_with_append: "starts_with a p \<Longrightarrow> starts_with (a @ b) p"
  unfolding starts_with_def by (metis append_take_drop_id append.assoc append_eq_conv_conj)

lemma endpoint_total:
  assumes "endpoint_parse url = Inr e"
  shows "\<exists>sc. endpoint_scheme e = Inr sc" and "\<exists>r. endpoint_root e = Inr r"
proof -
  have e: "e = Endpoint url" "length (url_comps url) \<in> {3, 4}"
    and sc: "starts_with url GOSSIP_SCHEME \<or> starts_with url RPC_CALL_SCHEME \<or> starts_with url RPC_RESPONSE_SCHEME"
    using assms by (auto simp: endpoint_parse_ok)
  then show "\<exists>sc. endpoint_scheme e = Inr sc" by (auto simp: endpoint_scheme_def)
  from e(2) obtain a b c r where "url_comps url = a # b # c # r"
    by (cases "url_comps url" rule: remdups_adj.cases) (auto simp: length_Suc_conv numeral_eq_Suc)
  then show "\<exists>r. endpoint_root e = Inr r" by (simp add: endpoint_root_def e(1))
qed

lemma starts_with_extend: "length p \<le> length a \<Longrightarrow> starts_with (a @ b) p = starts_with a p"
  by (simp add: starts_with_def)

lemma starts_with_length: "starts_with a p \<Longrightarrow> length p \<le> length a"
  unfolding starts_with_def by (metis length_take min.cobounded1)

lemma endpoint_scheme_extend:
  assumes "endpoint_scheme (Endpoint a) = Inr sc"
  shows "endpoint_scheme (Endpoint (a @ b)) = Inr sc"
proof (cases "starts_with a GOSSIP_SCHEME")
  case True
  then show ?thesis using assms starts_with_append by (simp add: endpoint_scheme_def)
next
  case False
  then have "starts_with a RPC_CALL_SCHEME \<or> starts_with a RPC_RESPONSE_SCHEME"
    using assms by (auto simp: endpoint_scheme_def split: if_splits)
  then have "9 \<le> length a"
    by (auto dest: starts_with_length simp: RPC_CALL_SCHEME_def RPC_RESPONSE_SCHEME_def)
  then have "starts_with (a @ b) p = starts_with a p" if "p \<in> {GOSSIP_SCHEME, RPC_CALL_SCHEME, RPC_RESPONSE_SCHEME}" for p
    using that by (intro starts_with_extend) (auto simp: GOSSIP_SCHEME_def RPC_CALL_SCHEME_def RPC_RESPONSE_SCHEME_def)
  then show ?thesis using assms by (auto simp: endpoint_scheme_def split: if_splits)
qed

text \<open>
  The identifier of a remote call travels in its path: appended to an endpoint of three
  components, it gives an endpoint again (if the length limit allows), from which the
  receiver reads the same identifier, and scheme and root, which select the handler,
  stay the same.
\<close>

lemma extended_endpoint:
  assumes "endpoint_parse url = Inr e" and "length (url_comps url) = 3" and "length url + 1 + length (to_dec (unat rid)) \<le> 120"
  shows "\<exists>e'. endpoint_extend e (to_dec (unat rid)) = Inr e' \<and> endpoint_parse (full_url e') = Inr e' \<and>
    rpc_endpoint_try_from e' = Inr (e', rid) \<and> endpoint_scheme e' = endpoint_scheme e \<and> endpoint_root e' = endpoint_root e"
proof -
  let ?u = "url @ ''/'' @ to_dec (unat rid)"
  have e: "e = Endpoint url" "url \<noteq> []"
    and sc: "starts_with url GOSSIP_SCHEME \<or> starts_with url RPC_CALL_SCHEME \<or> starts_with url RPC_RESPONSE_SCHEME"
    using assms(1) by (auto simp: endpoint_parse_ok)
  have "length ?u \<le> 120" using assms(3) by simp
  then have parse: "endpoint_parse ?u = Inr (Endpoint ?u)"
    using e sc assms(2) starts_with_append by (auto simp: endpoint_parse_ok url_comps_append)
  have "rfind (CHR ''/'') ?u = Some (length url)" using rfind_append [OF to_dec_no_slash] by simp
  then have "rpc_endpoint_try_from (Endpoint ?u) = Inr (Endpoint ?u, rid)"
    by (simp add: rpc_endpoint_try_from_def extract_rpc_id_from_def ok_or_def)
  moreover have "endpoint_scheme (Endpoint ?u) = endpoint_scheme e"
    using endpoint_total(1) [OF assms(1)] endpoint_scheme_extend e(1) by auto
  moreover obtain a b c where "url_comps url = [a, b, c]"
    using assms(2) by (auto simp: length_Suc_conv numeral_eq_Suc)
  then have "endpoint_root (Endpoint ?u) = endpoint_root e" by (simp add: endpoint_root_def e(1) url_comps_append)
  ultimately show ?thesis using parse e(1) by (intro exI [of _ "Endpoint ?u"]) (simp add: endpoint_extend_def)
qed

section \<open>Compression and responses\<close>

text \<open>What \<open>snap\<close> documents: decompressing compressed data, into a buffer of the announced size, gives it back.\<close>

definition snap_ok :: "snap \<Rightarrow> bool" where
  "snap_ok S \<longleftrightarrow> (\<forall>d c. sn_compress S d = Some c \<longrightarrow>
     sn_decompress_len S c = Some (length d) \<and> sn_decompress S c (length d) = Some d)"

text \<open>
  Compression is undone exactly: the receiver gets the data of the sender back, whatever
  the library does, unless they were compressed and are longer than eight megabytes; such a message
  is sent but refused by every receiver.
\<close>

theorem compress_roundtrip:
  assumes "snap_ok S"
  shows "net_decompress S (net_compress S data) =
    (if MAX_UNCOMPRESSED_LEN < length data \<and> sn_compress S data \<noteq> None then None else Some data)"
proof (cases "COMPRESSION_SIZE_THRESHOLD < Suc (length data)")
  case True
  then show ?thesis
    using assms by (cases "sn_compress S data") (auto simp: net_compress_def net_decompress_def snap_ok_def Let_def)
next
  case False
  then have "length data \<le> MAX_UNCOMPRESSED_LEN"
    by (simp add: COMPRESSION_SIZE_THRESHOLD_def MAX_UNCOMPRESSED_LEN_def)
  then show ?thesis using False by (simp add: net_compress_def net_decompress_def)
qed

text \<open>A stand-in for the library that stores the data as they are, with no length limit.\<close>

definition stored :: snap where
  "stored = \<lparr>sn_compress = Some, sn_decompress_len = (\<lambda>c. Some (length c)), sn_decompress = (\<lambda>c n. Some c)\<rparr>"

theorem compress_roundtrip_witness:
  "snap_ok stored \<and> net_decompress stored (net_compress stored (replicate 2000 7)) = Some (replicate 2000 7) \<and>
   net_decompress stored (net_compress stored (replicate (2 ^ 23 + 1) 7)) = None"
proof -
  have ok: "snap_ok stored" by (simp add: snap_ok_def stored_def)
  show ?thesis
    using ok compress_roundtrip [OF ok, of "replicate 2000 7"] compress_roundtrip [OF ok, of "replicate (2 ^ 23 + 1) 7"]
    by (simp add: MAX_UNCOMPRESSED_LEN_def stored_def del: length_replicate add: length_replicate)
qed

lemma utf8_chunks_concat: "concat (map snd (utf8_chunks bs)) = bs"
proof (induction bs rule: utf8_chunks.induct)
  case 1
  then show ?case by simp
next
  case (2 b bs)
  obtain ok n where first: "utf8_first (b # bs) = (ok, n)" by fastforce
  show ?case using "2.IH" [OF first [symmetric] refl] by (simp add: first)
qed

lemma string_bytes_string [simp]: "string_of_bytes (bytes_of_string s) = s"
proof -
  have "char_of (unat (word_of_nat (of_char c) :: u8)) = c" for c
  proof -
    have "of_char c < (256 :: nat)" by (metis char_of_char of_char_of mod_less_divisor zero_less_numeral)
    then have "unat (word_of_nat (of_char c) :: u8) = of_char c" by (simp add: unat_of_nat)
    then show ?thesis by simp
  qed
  then show ?thesis by (simp add: string_of_bytes_def bytes_of_string_def o_def)
qed

lemma from_utf8_lossy_valid: "from_utf8 bs = Some s \<Longrightarrow> from_utf8_lossy bs = s"
proof -
  assume "from_utf8 bs = Some s"
  then have all: "\<forall>c\<in>set (utf8_chunks bs). fst c" and s: "s = string_of_bytes bs"
    by (auto simp: from_utf8_def split: if_splits)
  have "map (\<lambda>(ok, c). if ok then c else [0xEF, 0xBF, 0xBD]) (utf8_chunks bs) = map snd (utf8_chunks bs)"
    using all by (intro map_cong) auto
  with utf8_chunks_concat [of bs] show ?thesis unfolding from_utf8_lossy_def s by metis
qed

text \<open>A Rust string is well-formed UTF-8, so a response is decoded to what was encoded.\<close>

definition response_text_ok :: "rpc_response \<Rightarrow> bool" where
  "response_text_ok r = (case r of RpcSuccess _ \<Rightarrow> True | RpcError e \<Rightarrow> from_utf8 (bytes_of_string e) \<noteq> None)"

lemma rpc_response_roundtrip: "response_text_ok r \<Longrightarrow> rpc_response_decode (rpc_response_encode r) = r"
proof (cases r)
  case (RpcError e)
  assume "response_text_ok r"
  then have "from_utf8 (bytes_of_string e) = Some e"
    using RpcError by (auto simp: response_text_ok_def from_utf8_def split: if_splits)
  from from_utf8_lossy_valid [OF this] show ?thesis
    using RpcError by (simp add: rpc_response_encode_def rpc_response_decode_def)
qed (simp add: rpc_response_encode_def rpc_response_decode_def)

lemma span_header_roundtrip:
  "map_of (nm_headers m) ''span_id'' = Some (to_be_bytes 8 sid) \<Longrightarrow> message_span_id m = Inr (Some sid)"
  by (simp add: message_span_id_def be_bytes_roundtrip)

end
