(* ===== verification/Peer_Manager.thy ===== *)
theory Peer_Manager
  imports Peer_Store Net_Message
begin

text \<open>
  The peer manager and the service loop of \<open>core/network\<close>: the registry of sessions (\<open>registry.rs\<close>), the
  manager over registry and peer store (\<open>peer_manager/mod.rs\<close>), the dialling rounds and the handlers of
  service events (\<open>service.rs\<close>). The transport library is not modelled: what the code
  asks of it is the list of commands in the state (their errors are ignored by the code), and what it
  reports are the arguments of the handlers. The clock readings of one operation are equal, and hash
  maps and sets are iterated in the order of the lists that stand for them. Counters of the metrics are
  left out.

  The properties: registry and store agree on who is connected, an address is never dialled for two
  purposes at once, a dialling round is bounded, and which sessions are accepted.
\<close>

section \<open>Sessions\<close>

datatype support_protocol = Ping | Identify | Discovery | Transmitter | Feeler

definition protocol_id :: "support_protocol \<Rightarrow> nat" where
  "protocol_id p = (case p of Ping \<Rightarrow> 1 | Identify \<Rightarrow> 2 | Discovery \<Rightarrow> 3 | Transmitter \<Rightarrow> 4 | Feeler \<Rightarrow> 5)"

datatype discovery_message = GetNodes u32 u32 "u32 option" | Nodes bool "bytes list list" | EmptyPayload

record identity =
  id_chain_id :: string
  id_addr_info :: "(bytes list \<times> bytes) option"

datatype ping_message = PingMsg u32 | PongMsg u32 | PingEmpty

datatype 'm net_cmd =
    CmdDial 'm nat
  | CmdDisconnect nat
  | CmdOpen nat "nat list"
  | CmdDiscovery nat discovery_message
  | CmdIdentify nat identity
  | CmdPing "nat list" ping_message
  | CmdData "nat list option" bytes

record ('m, 'p) session =
  ss_id :: nat
  ss_addr :: 'm
  ss_type :: session_type
  ss_remote_peer :: "'p option"

record 'm peer_info =
  pi_addr :: 'm
  pi_session_id :: nat
  pi_opened :: "nat list"
  pi_session_type :: session_type
  pi_listens :: "'m list"
  pi_reuse :: bool

definition peer_info_new :: "('m, 'p) session \<Rightarrow> 'm peer_info" where
  "peer_info_new ctx =
     \<lparr>pi_addr = ss_addr ctx, pi_session_id = ss_id ctx, pi_opened = [], pi_session_type = ss_type ctx, pi_listens = [],
      pi_reuse = False\<rparr>"

record ('m, 'p) online =
  on_peers :: "('p \<times> 'm peer_info) list"
  on_dialing :: "'m list"
  on_feeler :: "'m list"

definition connection_status :: "('m, 'p) online \<Rightarrow> nat \<times> nat \<times> nat" where
  "connection_status reg =
     (let num_out = length (filter (\<lambda>(_, i). pi_session_type i = Outbound) (on_peers reg))
      in (length (on_peers reg), length (on_peers reg) - num_out, num_out))"

record ('m, 'p) net_config =
  nc_max_connections :: nat
  nc_inbound_limit :: nat
  nc_local_peer :: 'p
  nc_bootstraps :: "'m list"

record ('m, 'p, 'n) net_state =
  ns_online :: "('m, 'p) online"
  ns_store :: "('m, 'p, 'n) peer_store"
  ns_bootstraps :: "('p \<times> 'm) list"
  ns_chain_id :: string
  ns_public_addrs :: "'m list"
  ns_consensus_list :: "'p list"
  ns_try_identify :: u8
  ns_commands :: "'m net_cmd list"

type_synonym ('m, 'p, 'n, 'a) net_op = "(('m, 'p, 'n) net_state, 'a) peer_op"

definition net_command :: "'m net_cmd \<Rightarrow> ('m, 'p, 'n, unit) net_op" where
  "net_command c = st_modify (\<lambda>s. s\<lparr>ns_commands := ns_commands s @ [c]\<rparr>)"

definition with_registry_mut :: "(('m, 'p) online \<Rightarrow> ('m, 'p) online) \<Rightarrow> ('m, 'p, 'n, unit) net_op" where
  "with_registry_mut f = st_modify (\<lambda>s. s\<lparr>ns_online := f (ns_online s)\<rparr>)"

definition with_peer_store_mut :: "('m, 'p, 'n, 'a) store_op \<Rightarrow> ('m, 'p, 'n, 'a) net_op" where
  "with_peer_store_mut op s = (let (st', r) = op (ns_store s) in (s\<lparr>ns_store := st'\<rparr>, r))"

definition is_online :: "'p \<Rightarrow> ('m, 'p) online \<Rightarrow> bool" where
  "is_online p reg \<longleftrightarrow> map_of (on_peers reg) p \<noteq> None"

section \<open>The manager\<close>

definition peer_manager_new ::
  "('m, 'p, 'n) net_lib \<Rightarrow> ('m, 'p) net_config \<Rightarrow> ('m, 'p, 'n) peer_store \<Rightarrow> peer_error + ('m, 'p, 'n) net_state" where
  "peer_manager_new L cfg loaded =
     res_bind (res_map (\<lambda>addr. res_bind (ok_or PePanic (nl_peer_id L addr)) (\<lambda>p. Inr (p, addr))) (nc_bootstraps cfg)) (\<lambda>known.
       Inr \<lparr>ns_online = \<lparr>on_peers = [], on_dialing = [], on_feeler = []\<rparr>, ns_store = loaded,
         ns_bootstraps = foldl (\<lambda>b (p, addr). if p = nc_local_peer cfg then b else AList.update p addr b) [] known,
         ns_chain_id = [], ns_public_addrs = [], ns_consensus_list = [], ns_try_identify = 0, ns_commands = []\<rparr>)"

definition dial_known :: "('m, 'p, 'n) net_lib \<Rightarrow> u64 \<Rightarrow> 'p \<Rightarrow> ('m, 'p, 'n, 'm list) net_op" where
  "dial_known L now p =
     st_bind (st_gets (\<lambda>s. fetch_addr_by_peer_id p now now (ns_store s))) (\<lambda>found.
     st_bind (st_lift found) (\<lambda>addrs.
     st_seq (with_peer_store_mut (st_modify (\<lambda>st. st\<lparr>ps_manager :=
         foldl (\<lambda>m a. mgr_update L a (mark_tried now) m) (ps_manager st) addrs\<rparr>)))
       (st_return addrs)))"

definition peers :: "('m, 'p, 'n) net_lib \<Rightarrow> u64 \<Rightarrow> 'p list \<Rightarrow> ('m, 'p, 'n, nat list \<times> 'm list) net_op" where
  "peers L now pids =
     st_bind (st_gets ns_online) (\<lambda>reg.
     st_bind
       (st_map (\<lambda>p. case map_of (on_peers reg) p of
            Some info \<Rightarrow> st_return ([pi_session_id info], [])
          | None \<Rightarrow> st_bind (dial_known L now p) (\<lambda>addrs. st_return ([], addrs))) pids)
       (\<lambda>parts. st_return (concat (map fst parts), concat (map snd parts))))"

definition unconnected_consensus_peer :: "('m, 'p, 'n) net_lib \<Rightarrow> u64 \<Rightarrow> ('m, 'p, 'n, 'm list) net_op" where
  "unconnected_consensus_peer L now =
     st_bind (st_gets (\<lambda>s. filter (\<lambda>p. \<not> is_online p (ns_online s)) (ns_consensus_list s))) (\<lambda>missing.
     st_bind (st_map (dial_known L now) missing) (\<lambda>parts. st_return (concat parts)))"

definition connected_consensus_peer :: "('m, 'p, 'n) net_state \<Rightarrow> 'm list" where
  "connected_consensus_peer s =
     concat (map (\<lambda>p. case map_of (on_peers (ns_online s)) p of
          None \<Rightarrow> []
        | Some info \<Rightarrow>
            (if pi_session_type info = Outbound \<or> pi_reuse info then [pi_addr info] else []) @ pi_listens info)
       (ns_consensus_list s))"

definition register :: "('m, 'p, 'n) net_lib \<Rightarrow> u64 \<Rightarrow> 'm peer_info \<Rightarrow> ('m, 'p, 'n, unit) net_op" where
  "register L now peer =
     st_bind (st_lift (ok_or PePanic (nl_peer_id L (pi_addr peer)))) (\<lambda>p.
     st_seq (with_registry_mut (\<lambda>reg. reg\<lparr>on_peers := AList.update p peer (on_peers reg)\<rparr>))
       (with_peer_store_mut (add_connected_peer L now (pi_addr peer) (pi_session_type peer))))"

definition unregister :: "('m, 'p, 'n) net_lib \<Rightarrow> 'm \<Rightarrow> ('m, 'p, 'n, unit) net_op" where
  "unregister L addr =
     st_seq (with_registry_mut (\<lambda>reg. reg\<lparr>on_feeler := removeAll addr (on_feeler reg)\<rparr>)) (
     st_bind (st_lift (ok_or PePanic (nl_peer_id L addr))) (\<lambda>p.
     st_bind (st_gets (\<lambda>s. map_of (on_peers (ns_online s)) p)) (\<lambda>removed.
     st_seq (with_registry_mut (\<lambda>reg. reg\<lparr>on_peers := AList.delete p (on_peers reg)\<rparr>)) (
     case removed of
       None \<Rightarrow> st_return ()
     | Some peer \<Rightarrow>
         st_seq (with_peer_store_mut (st_modify (remove_disconnected_peer L (pi_addr peer))))
           (st_seq (st_lift (ok_or PePanic (nl_peer_id L (pi_addr peer)))) (st_return ()))))))"

text \<open>\<open>open_protocol\<close>, \<open>close_protocol\<close> and the other writes through \<open>get_mut\<close> of the registry.\<close>

definition update_peer :: "'p \<Rightarrow> ('m peer_info \<Rightarrow> 'm peer_info) \<Rightarrow> ('m, 'p, 'n, unit) net_op" where
  "update_peer p f = with_registry_mut (\<lambda>reg.
     case map_of (on_peers reg) p of None \<Rightarrow> reg | Some info \<Rightarrow> reg\<lparr>on_peers := AList.update p (f info) (on_peers reg)\<rparr>)"

definition open_protocol :: "'p \<Rightarrow> nat \<Rightarrow> ('m, 'p, 'n, unit) net_op" where
  "open_protocol p proto = update_peer p (\<lambda>i. i\<lparr>pi_opened := set_insert proto (pi_opened i)\<rparr>)"

definition close_protocol :: "'p \<Rightarrow> nat \<Rightarrow> ('m, 'p, 'n, unit) net_op" where
  "close_protocol p proto = update_peer p (\<lambda>i. i\<lparr>pi_opened := removeAll proto (pi_opened i)\<rparr>)"

definition set_chain_id :: "string \<Rightarrow> ('m, 'p, 'n, unit) net_op" where
  "set_chain_id chain_id = st_modify (\<lambda>s. s\<lparr>ns_chain_id := chain_id\<rparr>)"

definition unconnected_bootstraps :: "('m, 'p, 'n) net_state \<Rightarrow> 'm list" where
  "unconnected_bootstraps s = map snd (filter (\<lambda>(p, _). \<not> is_online p (ns_online s)) (ns_bootstraps s))"

definition always_allow :: "('m, 'p, 'n) net_lib \<Rightarrow> u64 \<Rightarrow> 'm \<Rightarrow> ('m, 'p, 'n) net_state \<Rightarrow> peer_error + bool" where
  "always_allow L now addr s =
     res_bind (ok_or PePanic (nl_peer_id L addr)) (\<lambda>p.
       Inr (map_of (ns_bootstraps s) p \<noteq> None \<or> p \<in> set (ns_consensus_list s) \<or> \<not> is_addr_banned L addr now (ns_store s)))"

definition ban_id :: "('m, 'p, 'n) net_lib \<Rightarrow> u64 \<Rightarrow> 'p \<Rightarrow> u64 \<Rightarrow> string \<Rightarrow> ('m, 'p, 'n, nat option) net_op" where
  "ban_id L now p timeout reason =
     st_bind (st_gets (\<lambda>s. map_of (on_peers (ns_online s)) p)) (\<lambda>found.
     st_seq
       (case found of
          None \<Rightarrow> st_return ()
        | Some info \<Rightarrow> with_peer_store_mut (ban_addr L now now (pi_addr info) timeout reason))
       (st_return None))"

definition ban_session_id :: "('m, 'p, 'n) net_lib \<Rightarrow> u64 \<Rightarrow> nat \<Rightarrow> u64 \<Rightarrow> string \<Rightarrow> ('m, 'p, 'n, unit) net_op" where
  "ban_session_id L now sid timeout reason =
     st_bind (st_gets (\<lambda>s. find (\<lambda>(_, i). pi_session_id i = sid) (on_peers (ns_online s)))) (\<lambda>found.
     case found of
       None \<Rightarrow> st_return ()
     | Some (_, info) \<Rightarrow> with_peer_store_mut (ban_addr L now now (pi_addr info) timeout reason))"

section \<open>The service handle\<close>

datatype peer_tag = TagConsensus | TagAlwaysAllow | TagBan u64 | TagCustom string

definition net_tag :: "('m, 'p, 'n) net_lib \<Rightarrow> u64 \<Rightarrow> bytes \<Rightarrow> peer_tag \<Rightarrow> ('m, 'p, 'n, net_error + unit) net_op" where
  "net_tag L now bs tag =
     (case nl_peer_from_bytes L bs of
        None \<Rightarrow> st_return (Inl InvalidPeerId)
      | Some p \<Rightarrow>
          st_seq
            (case tag of
               TagConsensus \<Rightarrow> st_modify (\<lambda>s. s\<lparr>ns_consensus_list := set_insert p (ns_consensus_list s)\<rparr>)
             | TagBan until \<Rightarrow>
                 st_bind (ban_id L now p until ''ban from other module'') (\<lambda>sid.
                   case sid of None \<Rightarrow> st_return () | Some i \<Rightarrow> net_command (CmdDisconnect i))
             | _ \<Rightarrow> st_return ())
            (st_return (Inr ())))"

definition net_untag :: "('m, 'p, 'n) net_lib \<Rightarrow> bytes \<Rightarrow> peer_tag \<Rightarrow> ('m, 'p, 'n, net_error + unit) net_op" where
  "net_untag L bs tag =
     (case nl_peer_from_bytes L bs of
        None \<Rightarrow> st_return (Inl InvalidPeerId)
      | Some p \<Rightarrow>
          st_seq
            (case tag of
               TagConsensus \<Rightarrow> st_modify (\<lambda>s. s\<lparr>ns_consensus_list := removeAll p (ns_consensus_list s)\<rparr>)
             | _ \<Rightarrow> st_return ())
            (st_return (Inr ())))"

definition net_tag_consensus :: "('m, 'p, 'n) net_lib \<Rightarrow> bytes list \<Rightarrow> ('m, 'p, 'n, net_error + unit) net_op" where
  "net_tag_consensus L bss =
     (if \<exists>bs\<in>set bss. nl_peer_from_bytes L bs = None then st_return (Inl InvalidPeerId)
      else
        st_seq (st_modify (\<lambda>s. s\<lparr>ns_consensus_list := remdups (map (\<lambda>bs. the (nl_peer_from_bytes L bs)) bss)\<rparr>))
          (st_return (Inr ())))"

section \<open>Dialling\<close>

definition dial_feeler :: "('m, 'p, 'n) net_lib \<Rightarrow> 'm \<Rightarrow> ('m, 'p, 'n, unit) net_op" where
  "dial_feeler L addr =
     st_bind (st_lift (ok_or PePanic (nl_peer_id L addr))) (\<lambda>p.
     st_bind (st_gets ns_online) (\<lambda>reg.
     if \<not> is_online p reg \<and> addr \<notin> set (on_dialing reg) \<and> addr \<notin> set (on_feeler reg)
     then st_seq (with_registry_mut (\<lambda>reg. reg\<lparr>on_feeler := set_insert addr (on_feeler reg)\<rparr>))
            (net_command (CmdDial addr (protocol_id Identify)))
     else st_return ()))"

definition dial_identify :: "('m, 'p, 'n) net_lib \<Rightarrow> 'm \<Rightarrow> ('m, 'p, 'n, unit) net_op" where
  "dial_identify L addr =
     st_bind (st_lift (ok_or PePanic (nl_peer_id L addr))) (\<lambda>p.
     st_bind (st_gets ns_online) (\<lambda>reg.
     if \<not> is_online p reg \<and> addr \<notin> set (on_feeler reg) \<and> addr \<notin> set (on_dialing reg)
     then st_seq (with_registry_mut (\<lambda>reg. reg\<lparr>on_dialing := set_insert addr (on_dialing reg)\<rparr>))
            (net_command (CmdDial addr (protocol_id Identify)))
     else st_return ()))"

definition try_dial_observed_addr :: "('m, 'p, 'n) net_lib \<Rightarrow> nat \<Rightarrow> ('m, 'p, 'n, unit) net_op" where
  "try_dial_observed_addr L r =
     st_bind (st_gets ns_public_addrs) (\<lambda>addrs.
     if addrs = [] then st_return () else dial_identify L (addrs ! (r mod length addrs)))"

text \<open>The closure that fetches addresses and marks them as tried.\<close>

definition fetch_and_mark ::
  "('m, 'p, 'n) net_lib \<Rightarrow> u64 \<Rightarrow> ('m, 'p, 'n, 'm addr_info list) store_op \<Rightarrow> ('m, 'p, 'n, 'm list) net_op" where
  "fetch_and_mark L now fetch =
     with_peer_store_mut (
       st_bind fetch (\<lambda>infos.
       st_seq (st_modify (\<lambda>st. st\<lparr>ps_manager :=
           foldl (\<lambda>m i. mgr_update L (ai_addr i) (mark_tried now) m) (ps_manager st) infos\<rparr>))
         (st_return (map ai_addr infos))))"

definition try_dial_feeler :: "('m, 'p, 'n) net_lib \<Rightarrow> (nat \<Rightarrow> nat) \<Rightarrow> u64 \<Rightarrow> ('m, 'p, 'n, unit) net_op" where
  "try_dial_feeler L rng now =
     st_bind (fetch_and_mark L now (fetch_addrs_to_feeler L rng now now 10)) (st_each (dial_feeler L))"

definition round_addrs ::
  "('m, 'p, 'n) net_lib \<Rightarrow> (nat \<Rightarrow> nat) \<Rightarrow> (nat \<Rightarrow> 'm list \<Rightarrow> 'm list) \<Rightarrow> u64 \<Rightarrow> u8 \<Rightarrow> nat \<Rightarrow> ('m, 'p, 'n, 'm list) net_op" where
  "round_addrs L rng pick now tries cnt =
     (if 3 < tries
      then
        st_seq (st_modify (\<lambda>s. s\<lparr>ns_try_identify := 0\<rparr>)) (
        st_bind (st_gets unconnected_bootstraps) (\<lambda>bootnodes.
        if length bootnodes < cnt
        then st_bind (fetch_and_mark L now (fetch_addrs_to_attempt L rng now now (cnt - length bootnodes)))
               (\<lambda>addrs. st_return (addrs @ bootnodes))
        else st_return (pick cnt bootnodes)))
      else fetch_and_mark L now (fetch_addrs_to_attempt L rng now now cnt))"

definition try_dial_peers ::
  "('m, 'p, 'n) net_lib \<Rightarrow> ('m, 'p) net_config \<Rightarrow> (nat \<Rightarrow> nat) \<Rightarrow> (nat \<Rightarrow> 'm list \<Rightarrow> 'm list) \<Rightarrow> u64 \<Rightarrow> ('m, 'p, 'n, unit) net_op" where
  "try_dial_peers L cfg rng pick now =
     st_bind (st_gets (\<lambda>s. connection_status (ns_online s))) (\<lambda>(num_total, num_in, num_out).
     if nc_max_connections cfg < nc_inbound_limit cfg then st_throw PePanic
     else
       let cnt = nc_max_connections cfg - nc_inbound_limit cfg - num_in in
       if cnt = 0 then st_modify (\<lambda>s. s\<lparr>ns_try_identify := 0\<rparr>)
       else
         st_bind (st_gets (\<lambda>s. checked_add (ns_try_identify s) 1)) (\<lambda>next_count.
         st_bind (st_lift (ok_or PePanic next_count)) (\<lambda>tries.
         st_seq (st_modify (\<lambda>s. s\<lparr>ns_try_identify := tries\<rparr>)) (
         st_bind (round_addrs L rng pick now tries cnt) (st_each (dial_identify L))))))"

definition try_dial_consensus :: "('m, 'p, 'n) net_lib \<Rightarrow> u64 \<Rightarrow> ('m, 'p, 'n, unit) net_op" where
  "try_dial_consensus L now = st_bind (unconnected_consensus_peer L now) (st_each (dial_identify L))"

text \<open>One tick of the loop in \<open>run\<close>, and its start.\<close>

definition run_start :: "('m, 'p, 'n) net_lib \<Rightarrow> ('m, 'p) net_config \<Rightarrow> ('m, 'p, 'n, unit) net_op" where
  "run_start L cfg = st_each (dial_identify L) (nc_bootstraps cfg)"

definition run_tick ::
  "('m, 'p, 'n) net_lib \<Rightarrow> ('m, 'p) net_config \<Rightarrow> (nat \<Rightarrow> nat) \<Rightarrow> (nat \<Rightarrow> nat) \<Rightarrow> (nat \<Rightarrow> 'm list \<Rightarrow> 'm list) \<Rightarrow> nat \<Rightarrow> u64 \<Rightarrow>
     ('m, 'p, 'n, unit) net_op" where
  "run_tick L cfg rng rng' pick r now =
     st_seq (try_dial_consensus L now) (
     st_seq (try_dial_peers L cfg rng pick now) (
     st_seq (try_dial_feeler L rng' now)
       (try_dial_observed_addr L r)))"

section \<open>Service events\<close>

datatype 'm service_error =
    DialerError 'm bool
  | ProtocolError nat nat
  | OtherServiceError
  | ProtocolHandleError nat "nat option"

datatype ('m, 'p) service_event = SessionOpen "('m, 'p) session" | SessionClose "('m, 'p) session" | ListenEvent

text \<open>
  \<open>handle_error\<close>: the boolean of \<open>DialerError\<close> says that the node has dialled itself. The last branch ends
  the process.
\<close>

definition handle_error :: "('m, 'p, 'n) net_lib \<Rightarrow> u64 \<Rightarrow> 'm service_error \<Rightarrow> ('m, 'p, 'n, unit) net_op" where
  "handle_error L now err =
     (case err of
        DialerError addr connect_self \<Rightarrow>
          st_seq (with_registry_mut (\<lambda>reg. reg\<lparr>on_feeler := removeAll addr (on_feeler reg), on_dialing := removeAll addr (on_dialing reg)\<rparr>))
            (st_when
              (connect_self \<and> (case nl_socketaddr L addr of None \<Rightarrow> False | Some (ip, _) \<Rightarrow> nl_reachable L ip))
              (st_modify (\<lambda>s. s\<lparr>ns_public_addrs := set_insert addr (ns_public_addrs s)\<rparr>)))
      | ProtocolError sid proto \<Rightarrow>
          st_seq (ban_session_id L now sid 300000 (''ProtocolError id='' @ to_dec proto)) (net_command (CmdDisconnect sid))
      | OtherServiceError \<Rightarrow> st_return ()
      | ProtocolHandleError proto opt_sid \<Rightarrow>
          st_seq
            (case opt_sid of None \<Rightarrow> st_return () | Some sid \<Rightarrow> ban_session_id L now sid 300000
              (''protocol '' @ to_dec proto @ '' panic when process peer message''))
            (st_throw ProcessExit))"

definition session_open :: "('m, 'p, 'n) net_lib \<Rightarrow> ('m, 'p) net_config \<Rightarrow> u64 \<Rightarrow> ('m, 'p) session \<Rightarrow> ('m, 'p, 'n, unit) net_op" where
  "session_open L cfg now ctx =
     st_seq (with_registry_mut (\<lambda>reg. reg\<lparr>on_dialing := removeAll (ss_addr ctx) (on_dialing reg)\<rparr>)) (
     st_bind (st_gets id) (\<lambda>s.
     let (num_total, num_in, num_out) = connection_status (ns_online s) in
     if ss_addr ctx \<in> set (on_feeler (ns_online s)) then st_return ()
     else
       st_bind
         (if nc_max_connections cfg < num_total + 1 then st_return True
          else
            case ss_type ctx of
              Inbound \<Rightarrow> st_return (nc_inbound_limit cfg < num_in + 1)
            | Outbound \<Rightarrow>
                if nc_max_connections cfg < nc_inbound_limit cfg then st_throw PePanic
                else st_return (nc_max_connections cfg - nc_inbound_limit cfg < num_out + 1))
         (\<lambda>disable.
       st_bind (if disable then st_lift (always_allow L now (ss_addr ctx) s) else st_return True) (\<lambda>allowed.
       if disable \<and> \<not> allowed then net_command (CmdDisconnect (ss_id ctx))
       else register L now (peer_info_new ctx)))))"

definition handle_event :: "('m, 'p, 'n) net_lib \<Rightarrow> ('m, 'p) net_config \<Rightarrow> u64 \<Rightarrow> ('m, 'p) service_event \<Rightarrow> ('m, 'p, 'n, unit) net_op" where
  "handle_event L cfg now ev =
     (case ev of
        SessionOpen ctx \<Rightarrow> session_open L cfg now ctx
      | SessionClose ctx \<Rightarrow> unregister L (ss_addr ctx)
      | ListenEvent \<Rightarrow> st_return ())"

section \<open>The address manager under the store\<close>

text \<open>
  The indices of the address manager agree as long as its counter has not reached its last value; there
  the counter stays.
\<close>

definition mgr_inv :: "('m, 'p, 'n) net_lib \<Rightarrow> ('m, 'p) manager \<Rightarrow> bool" where
  "mgr_inv L m \<longleftrightarrow> mg_next_id m = - 1 \<or> mgr_ok L m"

definition store_safe :: "('m, 'p, 'n) net_lib \<Rightarrow> ('m, 'p, 'n, 'a) store_op \<Rightarrow> bool" where
  "store_safe L op \<longleftrightarrow> keeps ps_peers op \<and> preserves (\<lambda>st. mgr_inv L (ps_manager st)) op"

named_theorems store_intros

lemma keeps_swap: "keeps mg_next_id (swap_random_id i j)"
  unfolding swap_random_id_def set_random_pos_def by (intro frame_intros) auto

lemma keeps_mgr_remove: "keeps mg_next_id (mgr_remove L addr)"
  unfolding mgr_remove_def by (intro frame_intros keeps_swap) (auto split: option.splits)

lemma keeps_fetch_loop: "keeps mg_next_id (fetch_loop L rng now cnt f is ips found)"
proof (induction "is" arbitrary: ips found)
  case Nil
  then show ?case by (simp only: fetch_loop.simps frame_intros)
next
  case (Cons i "is")
  show ?case
    unfolding fetch_loop.simps Let_def
    by (intro frame_intros keeps_swap) (auto intro!: frame_intros Cons split: prod.split)
qed

lemma mgr_inv_remove [store_intros]: "preserves (mgr_inv L) (mgr_remove L addr)"
proof -
  have "mg_next_id (fst (mgr_remove L addr m)) = mg_next_id m" for m :: "('a, 'b) manager"
    using keeps_mgr_remove [of L addr] by (simp add: keeps_def)
  moreover have "mgr_ok L m \<Longrightarrow> mgr_ok L (fst (mgr_remove L addr m))" for m
    using mgr_remove_view [of L m addr] by auto
  ultimately show ?thesis by (auto simp: preserves_def mgr_inv_def)
qed

lemma mgr_inv_fetch [store_intros]: "preserves (mgr_inv L) (fetch_random L rng now cnt f)"
proof -
  have "keeps mg_next_id (fetch_random L rng now cnt f)"
    unfolding fetch_random_def by (intro frame_intros keeps_fetch_loop)
  then have "mg_next_id (fst (fetch_random L rng now cnt f m)) = mg_next_id m" for m
    by (simp add: keeps_def)
  moreover have "mgr_ok L m \<Longrightarrow> mgr_ok L (fst (fetch_random L rng now cnt f m))" for m
    using fetch_random_ok [of L m rng now cnt f] by auto
  ultimately show ?thesis by (auto simp: preserves_def mgr_inv_def)
qed

lemma mgr_inv_add [store_intros]: "preserves (mgr_inv L) (mgr_add L info)"
proof -
  have full: "preserves (\<lambda>m. mg_next_id m = - 1) (mgr_file k p info)" for k p
    by (auto simp: preserves_def mgr_file_def st_seq_apply st_bind_apply checked_add_def unsigned_minus_1_eq_mask mask_eq_exp_minus_1)
  have "preserves (\<lambda>m. mg_next_id m = - 1) (mgr_remove L (ai_addr info))"
    using keeps_mgr_remove [of L "ai_addr info"] by (auto simp: preserves_def keeps_def)
  with full have "preserves (\<lambda>m. mg_next_id m = - 1) (mgr_add L info)"
    unfolding mgr_add_def Let_def by (intro inv_intros)
  then show ?thesis
    using mgr_add_ok [of L _ info] unfolding preserves_def mgr_inv_def by (metis fst_conv)
qed

lemma mgr_inv_tried: "mgr_inv L m \<Longrightarrow> mgr_inv L (mgr_update L a (mark_tried now) m)"
  using mgr_update_ok [of L m "mark_tried now" a]
  by (auto simp: mgr_inv_def mgr_update_frame mark_tried_def)

lemma mgr_inv_all_tried: "mgr_inv L m \<Longrightarrow> mgr_inv L (foldl (\<lambda>m a. mgr_update L (g a) (mark_tried now) m) m as)"
  by (induction "as" arbitrary: m) (simp_all add: mgr_inv_tried)

section \<open>Operations on the store\<close>

lemma store_safe_on_manager [store_intros]: "preserves (mgr_inv L) op \<Longrightarrow> store_safe L (on_manager op)"
  by (auto simp: store_safe_def keeps_def preserves_def on_manager_apply)

lemma store_safe_basic [store_intros]:
  "store_safe L (st_return x)" "store_safe L (st_throw e)" "store_safe L (st_gets g)" "store_safe L (st_lift r)"
  by (simp_all add: store_safe_def frame_intros inv_intros)

lemma store_safe_bind [store_intros]: "store_safe L m \<Longrightarrow> (\<And>x. store_safe L (g x)) \<Longrightarrow> store_safe L (st_bind m g)"
  by (auto simp: store_safe_def intro: frame_intros inv_intros)

lemma store_safe_seq [store_intros]: "store_safe L m \<Longrightarrow> store_safe L n \<Longrightarrow> store_safe L (st_seq m n)"
  by (auto simp: store_safe_def intro: frame_intros inv_intros)

lemma store_safe_if [store_intros]: "store_safe L m \<Longrightarrow> store_safe L n \<Longrightarrow> store_safe L (if c then m else n)"
  by simp

lemma store_safe_option [store_intros]:
  "store_safe L m \<Longrightarrow> (\<And>x. store_safe L (n x)) \<Longrightarrow> store_safe L (case z of None \<Rightarrow> m | Some x \<Rightarrow> n x)"
  by (cases z) simp_all

lemma store_safe_each [store_intros]: "(\<And>x. store_safe L (g x)) \<Longrightarrow> store_safe L (st_each g xs)"
  by (auto simp: store_safe_def intro: frame_intros inv_intros)

lemma store_safe_bans [store_intros]: "store_safe L (st_modify (\<lambda>s. s\<lparr>ps_bans := f s\<rparr>))"
  by (simp add: store_safe_def keeps_def preserves_def)

lemma store_safe_mark [store_intros]:
  "store_safe L (st_modify (\<lambda>st. st\<lparr>ps_manager := foldl (\<lambda>m a. mgr_update L (g a) (mark_tried now) m) (ps_manager st) as\<rparr>))"
  by (simp add: store_safe_def keeps_def preserves_def mgr_inv_all_tried)

lemma store_safe_ban_addr [store_intros]: "store_safe L (ban_addr L now now' addr timeout reason)"
  unfolding ban_addr_def ban_network_def by (intro store_intros) (auto intro!: store_intros split: prod.split)

lemma store_safe_add_outbound [store_intros]: "store_safe L (add_outbound_addr L now now' addr)"
  unfolding add_outbound_addr_def by (intro store_intros)

lemma store_safe_add_addr [store_intros]: "store_safe L (add_addr L now now' drain pick addr)"
  unfolding add_addr_def check_purge_def remove_addrs_def Let_def by (intro store_intros)

lemma store_safe_fetch [store_intros]:
  "store_safe L (fetch_addrs_to_attempt L rng now now' cnt)" "store_safe L (fetch_addrs_to_feeler L rng now now' cnt)"
  "store_safe L (fetch_random_addrs L rng now now' cnt)"
  unfolding fetch_addrs_to_attempt_def fetch_addrs_to_feeler_def fetch_random_addrs_def by (intro store_intros)+

section \<open>Registry and store\<close>

text \<open>
  The invariant of the network state: every registered peer stands under the identifier of its address, the
  peer store has the same connections, and no address is dialled both as a peer and as a feeler.
\<close>

definition agree :: "('m, 'p) online \<Rightarrow> ('p \<times> 'm connected_info) list \<Rightarrow> bool" where
  "agree reg conns \<longleftrightarrow> (\<forall>p. map_option (\<lambda>c. (ci_addr c, ci_session_type c)) (map_of conns p) =
     map_option (\<lambda>i. (pi_addr i, pi_session_type i)) (map_of (on_peers reg) p))"

definition registry_ok :: "('m, 'p, 'n) net_lib \<Rightarrow> ('m, 'p) online \<Rightarrow> bool" where
  "registry_ok L reg \<longleftrightarrow> distinct (map fst (on_peers reg)) \<and>
     (\<forall>p i. map_of (on_peers reg) p = Some i \<longrightarrow> nl_peer_id L (pi_addr i) = Some p) \<and>
     set (on_dialing reg) \<inter> set (on_feeler reg) = {}"

definition net_ok :: "('m, 'p, 'n) net_lib \<Rightarrow> ('m, 'p, 'n) net_state \<Rightarrow> bool" where
  "net_ok L s \<longleftrightarrow> registry_ok L (ns_online s) \<and> agree (ns_online s) (ps_peers (ns_store s)) \<and>
     mgr_inv L (ps_manager (ns_store s))"

lemma net_ok_command [inv_intros]: "preserves (net_ok L) (net_command c)"
  by (simp add: preserves_def net_command_def net_ok_def)

lemma net_ok_store [inv_intros]: "store_safe L op \<Longrightarrow> preserves (net_ok L) (with_peer_store_mut op)"
  by (auto simp: preserves_def net_ok_def with_peer_store_mut_def store_safe_def keeps_def split: prod.split)
     (metis fst_conv)+

lemma net_ok_registry:
  assumes "\<And>reg. on_peers (f reg) = on_peers reg" and "\<And>reg. set (on_dialing (f reg)) \<subseteq> set (on_dialing reg)"
    and "\<And>reg. set (on_feeler (f reg)) \<subseteq> set (on_feeler reg)"
  shows "preserves (net_ok L) (with_registry_mut f)"
  using assms by (fastforce simp: preserves_def with_registry_mut_def net_ok_def registry_ok_def agree_def)

lemma net_ok_update_peer:
  assumes "\<And>i. pi_addr (f i) = pi_addr i" and "\<And>i. pi_session_type (f i) = pi_session_type i"
  shows "preserves (net_ok L) (update_peer p f)"
  using assms
  by (auto simp: preserves_def update_peer_def with_registry_mut_def net_ok_def registry_ok_def agree_def distinct_update
      simp del: map_of_eq_Some_iff Some_eq_map_of_iff split: option.splits if_splits)

lemma net_ok_protocols [inv_intros]:
  "preserves (net_ok L) (open_protocol p proto)" "preserves (net_ok L) (close_protocol p proto)"
  unfolding open_protocol_def close_protocol_def by (rule net_ok_update_peer; simp)+

lemma register_apply:
  assumes "nl_peer_id L (pi_addr peer) = Some p"
  shows "register L now peer s =
    (s\<lparr>ns_online := (ns_online s)\<lparr>on_peers := AList.update p peer (on_peers (ns_online s))\<rparr>,
       ns_store := (ns_store s)\<lparr>ps_peers := AList.update p
         \<lparr>ci_addr = pi_addr peer, ci_session_type = pi_session_type peer, ci_last_connected = now\<rparr> (ps_peers (ns_store s))\<rparr>\<rparr>, Inr ())"
  using assms
  by (simp add: register_def st_bind_apply st_seq_apply with_registry_mut_def with_peer_store_mut_def add_connected_peer_def ok_or_def)

lemma net_ok_register [inv_intros]: "preserves (net_ok L) (register L now peer)"
proof (cases "nl_peer_id L (pi_addr peer)")
  case None
  then show ?thesis by (simp add: preserves_def register_def st_bind_apply ok_or_def)
next
  case (Some p)
  then show ?thesis
    by (auto simp: preserves_def register_apply [OF Some] net_ok_def registry_ok_def agree_def distinct_update)
qed

lemma unregister_apply:
  assumes "registry_ok L (ns_online s)" and "nl_peer_id L addr = Some p"
  shows "unregister L addr s =
    (s\<lparr>ns_online := (ns_online s)\<lparr>on_peers := AList.delete p (on_peers (ns_online s)), on_feeler := removeAll addr (on_feeler (ns_online s))\<rparr>,
       ns_store := (if is_online p (ns_online s) then (ns_store s)\<lparr>ps_peers := AList.delete p (ps_peers (ns_store s))\<rparr> else ns_store s)\<rparr>, Inr ())"
proof (cases "map_of (on_peers (ns_online s)) p")
  case None
  then show ?thesis
    using assms(2) by (simp add: unregister_def st_bind_apply st_seq_apply with_registry_mut_def ok_or_def is_online_def)
next
  case (Some peer)
  have "nl_peer_id L (pi_addr peer) = Some p" using assms(1) Some by (simp add: registry_ok_def)
  then show ?thesis
    using assms(2) Some
    by (simp add: unregister_def st_bind_apply st_seq_apply with_registry_mut_def with_peer_store_mut_def ok_or_def
        is_online_def remove_disconnected_peer_def)
qed

lemma net_ok_unregister [inv_intros]: "preserves (net_ok L) (unregister L addr)"
proof (cases "nl_peer_id L addr")
  case None
  then show ?thesis
    by (auto simp: preserves_def unregister_def st_bind_apply st_seq_apply with_registry_mut_def ok_or_def net_ok_def registry_ok_def agree_def)
next
  case (Some p)
  have "net_ok L (fst (unregister L addr s))" if "net_ok L s" for s
  proof -
    have "registry_ok L (ns_online s)" using that by (simp add: net_ok_def)
    from unregister_apply [OF this Some] that show ?thesis
      by (auto simp: net_ok_def registry_ok_def agree_def is_online_def distinct_delete
          simp del: map_of_eq_Some_iff Some_eq_map_of_iff split: if_splits)
  qed
  then show ?thesis by (simp add: preserves_def)
qed

lemma net_ok_other [inv_intros]:
  "preserves (net_ok L) (st_modify (\<lambda>s. s\<lparr>ns_consensus_list := f s\<rparr>))"
  "preserves (net_ok L) (st_modify (\<lambda>s. s\<lparr>ns_public_addrs := g s\<rparr>))"
  "preserves (net_ok L) (st_modify (\<lambda>s. s\<lparr>ns_try_identify := h s\<rparr>))"
  "preserves (net_ok L) (set_chain_id c)"
  by (simp_all add: preserves_def net_ok_def set_chain_id_def)

lemma net_ok_dial_known [inv_intros]: "preserves (net_ok L) (dial_known L now p)"
  unfolding dial_known_def by (intro inv_intros store_safe_mark [where g = "\<lambda>a. a"])

lemma net_ok_peers [inv_intros]:
  "preserves (net_ok L) (peers L now pids)" "preserves (net_ok L) (unconnected_consensus_peer L now)"
  unfolding peers_def unconnected_consensus_peer_def by (intro inv_intros)+

lemma net_ok_bans [inv_intros]:
  "preserves (net_ok L) (ban_id L now p timeout reason)" "preserves (net_ok L) (ban_session_id L now sid timeout reason)"
  unfolding ban_id_def ban_session_id_def
  by (intro inv_intros store_intros) (auto intro!: inv_intros store_intros split: prod.split)

lemma net_ok_tags [inv_intros]:
  "preserves (net_ok L) (net_tag L now bs tag)" "preserves (net_ok L) (net_untag L bs tag)" "preserves (net_ok L) (net_tag_consensus L bss)"
  unfolding net_tag_def net_untag_def net_tag_consensus_def
  by (intro inv_intros; cases tag; auto intro!: inv_intros)+

text \<open>Both kinds of dialling: a command is issued exactly if the address is free, which it then no longer is.\<close>

definition can_dial :: "('m, 'p, 'n) net_lib \<Rightarrow> ('m, 'p) online \<Rightarrow> 'm \<Rightarrow> bool" where
  "can_dial L reg addr \<longleftrightarrow> (\<exists>p. nl_peer_id L addr = Some p \<and> \<not> is_online p reg) \<and>
     addr \<notin> set (on_dialing reg) \<and> addr \<notin> set (on_feeler reg)"

lemma dial_identify_apply:
  "dial_identify L addr s =
    (if can_dial L (ns_online s) addr
     then (s\<lparr>ns_online := (ns_online s)\<lparr>on_dialing := on_dialing (ns_online s) @ [addr]\<rparr>,
             ns_commands := ns_commands s @ [CmdDial addr (protocol_id Identify)]\<rparr>, Inr ())
     else (s, if nl_peer_id L addr = None then Inl PePanic else Inr ()))"
  by (auto simp: dial_identify_def can_dial_def st_bind_apply st_seq_apply with_registry_mut_def net_command_def ok_or_def
      set_insert_def split: option.splits)

lemma dial_feeler_apply:
  "dial_feeler L addr s =
    (if can_dial L (ns_online s) addr
     then (s\<lparr>ns_online := (ns_online s)\<lparr>on_feeler := on_feeler (ns_online s) @ [addr]\<rparr>,
             ns_commands := ns_commands s @ [CmdDial addr (protocol_id Identify)]\<rparr>, Inr ())
     else (s, if nl_peer_id L addr = None then Inl PePanic else Inr ()))"
  by (auto simp: dial_feeler_def can_dial_def st_bind_apply st_seq_apply with_registry_mut_def net_command_def ok_or_def
      set_insert_def split: option.splits)

lemma net_ok_dial [inv_intros]:
  "preserves (net_ok L) (dial_identify L addr)" "preserves (net_ok L) (dial_feeler L addr)"
  by (auto simp: preserves_def dial_identify_apply dial_feeler_apply can_dial_def net_ok_def registry_ok_def agree_def is_online_def)

lemma store_safe_fetch_mark: "store_safe L fetch \<Longrightarrow> preserves (net_ok L) (fetch_and_mark L now fetch)"
  unfolding fetch_and_mark_def by (intro inv_intros store_intros store_safe_mark [where g = ai_addr])

lemmas net_ok_attempt [inv_intros] = store_safe_fetch_mark [OF store_safe_fetch(1)] store_safe_fetch_mark [OF store_safe_fetch(2)]

lemma net_ok_rounds [inv_intros]:
  "preserves (net_ok L) (try_dial_observed_addr L r)" "preserves (net_ok L) (try_dial_feeler L rng now)"
  "preserves (net_ok L) (try_dial_consensus L now)" "preserves (net_ok L) (run_start L cfg)"
  unfolding try_dial_observed_addr_def try_dial_feeler_def try_dial_consensus_def run_start_def by (intro inv_intros)+

lemma net_ok_try_dial_peers [inv_intros]: "preserves (net_ok L) (try_dial_peers L cfg rng pick now)"
  unfolding try_dial_peers_def round_addrs_def Let_def by (intro inv_intros) (auto intro!: inv_intros split: prod.split)

lemma net_ok_tick [inv_intros]: "preserves (net_ok L) (run_tick L cfg rng rng' pick r now)"
  unfolding run_tick_def by (intro inv_intros)

lemma net_ok_handle_error [inv_intros]: "preserves (net_ok L) (handle_error L now err)"
  unfolding handle_error_def by (cases err) (auto intro!: inv_intros net_ok_registry)

lemma net_ok_session_open [inv_intros]: "preserves (net_ok L) (session_open L cfg now ctx)"
  unfolding session_open_def
  by (intro inv_intros net_ok_registry; (cases "ss_type ctx")?; auto simp: Let_def intro!: inv_intros split: prod.split)

lemma net_ok_handle_event [inv_intros]: "preserves (net_ok L) (handle_event L cfg now ev)"
  unfolding handle_event_def by (cases ev) (auto intro!: inv_intros)

section \<open>Which sessions are accepted\<close>

definition below_limits :: "('m, 'p) net_config \<Rightarrow> session_type \<Rightarrow> nat \<times> nat \<times> nat \<Rightarrow> bool" where
  "below_limits cfg ty status = (case status of (num_total, num_in, num_out) \<Rightarrow>
     num_total < nc_max_connections cfg \<and>
     (case ty of Inbound \<Rightarrow> num_in < nc_inbound_limit cfg
      | Outbound \<Rightarrow> num_out < nc_max_connections cfg - nc_inbound_limit cfg))"

text \<open>
  Property C28. Which sessions are accepted: a session that is no feeler is registered exactly if the
  limits leave room or its peer is a bootstrap node, in the consensus list or not banned, and is
  disconnected otherwise. So the limits on connections bind banned peers only, and below the limits
  a banned peer is accepted.
\<close>

theorem session_admission:
  assumes "nl_peer_id L (ss_addr ctx) = Some p" and "ss_addr ctx \<notin> set (on_feeler (ns_online s))"
    and "nc_inbound_limit cfg \<le> nc_max_connections cfg"
  shows "\<exists>s'. session_open L cfg now ctx s = (s', Inr ()) \<and>
    (if below_limits cfg (ss_type ctx) (connection_status (ns_online s)) \<or> map_of (ns_bootstraps s) p \<noteq> None \<or>
        p \<in> set (ns_consensus_list s) \<or> \<not> is_addr_banned L (ss_addr ctx) now (ns_store s)
     then on_peers (ns_online s') = AList.update p (peer_info_new ctx) (on_peers (ns_online s)) \<and> ns_commands s' = ns_commands s
     else on_peers (ns_online s') = on_peers (ns_online s) \<and> ns_commands s' = ns_commands s @ [CmdDisconnect (ss_id ctx)])"
proof -
  obtain num_total num_in num_out where st: "connection_status (ns_online s) = (num_total, num_in, num_out)"
    by (cases "connection_status (ns_online s)")
  let ?s = "s\<lparr>ns_online := (ns_online s)\<lparr>on_dialing := removeAll (ss_addr ctx) (on_dialing (ns_online s))\<rparr>\<rparr>"
  have "connection_status (ns_online ?s) = (num_total, num_in, num_out)" using st by (simp add: connection_status_def)
  moreover have "nl_peer_id L (pi_addr (peer_info_new ctx)) = Some p" using assms(1) by (simp add: peer_info_new_def)
  ultimately show ?thesis
    using assms st
    by (cases "ss_type ctx")
      (auto simp: session_open_def below_limits_def st_bind_apply st_seq_apply with_registry_mut_def register_apply net_command_def
        always_allow_def ok_or_def not_less not_le Let_def split: if_splits)
qed

section \<open>A round of dialling\<close>

lemma dial_each:
  assumes "\<forall>a\<in>set as. nl_peer_id L a \<noteq> None"
  shows "\<exists>s' ds. st_each (dial_identify L) as s = (s', Inr ()) \<and>
    ns_commands s' = ns_commands s @ map (\<lambda>a. CmdDial a (protocol_id Identify)) ds \<and> length ds \<le> length as \<and>
    distinct ds \<and> (\<forall>a\<in>set ds. can_dial L (ns_online s) a) \<and> ns_try_identify s' = ns_try_identify s"
  using assms
proof (induction "as" arbitrary: s)
  case Nil
  then show ?case by (intro exI [of _ s] exI [of _ "[]"]) simp
next
  case (Cons a "as")
  show ?case
  proof (cases "can_dial L (ns_online s) a")
    case True
    define s1 where "s1 = s\<lparr>ns_online := (ns_online s)\<lparr>on_dialing := on_dialing (ns_online s) @ [a]\<rparr>,
             ns_commands := ns_commands s @ [CmdDial a (protocol_id Identify)]\<rparr>"
    obtain s' ds where run: "st_each (dial_identify L) as s1 = (s', Inr ())"
      "ns_commands s' = ns_commands s1 @ map (\<lambda>a. CmdDial a (protocol_id Identify)) ds" "length ds \<le> length as"
      "distinct ds" "\<forall>a\<in>set ds. can_dial L (ns_online s1) a" "ns_try_identify s' = ns_try_identify s1"
      using Cons by fastforce
    have free: "can_dial L (ns_online s) b \<and> b \<noteq> a" if "b \<in> set ds" for b
      using run(5) that by (auto simp: s1_def can_dial_def is_online_def)
    have step: "dial_identify L a s = (s1, Inr ())" using True by (simp add: dial_identify_apply s1_def)
    show ?thesis
      using run free True by (intro exI [of _ s'] exI [of _ "a # ds"]) (auto simp: st_seq_apply step s1_def)
  next
    case False
    then have step: "dial_identify L a s = (s, Inr ())" using Cons.prems by (simp add: dial_identify_apply)
    obtain s' ds where "st_each (dial_identify L) as s = (s', Inr ())"
      "ns_commands s' = ns_commands s @ map (\<lambda>a. CmdDial a (protocol_id Identify)) ds" "length ds \<le> length as"
      "distinct ds" "\<forall>a\<in>set ds. can_dial L (ns_online s) a" "ns_try_identify s' = ns_try_identify s"
      using Cons by fastforce
    then show ?thesis by (intro exI [of _ s'] exI [of _ ds]) (simp add: st_seq_apply step)
  qed
qed

lemma attempt_fetch:
  assumes "mgr_ok L (ps_manager (ns_store s))" and "0 < cnt"
  shows "\<exists>st as. fetch_and_mark L now (fetch_addrs_to_attempt L rng now now cnt) s = (s\<lparr>ns_store := st\<rparr>, Inr as) \<and>
    length as \<le> cnt \<and> (\<forall>a\<in>set as. nl_peer_id L a \<noteq> None)"
proof -
  let ?f = "\<lambda>info. (case nl_peer_id L (ai_addr info) of None \<Rightarrow> False | Some p \<Rightarrow> \<not> is_connected_peer p (ns_store s)) \<and>
         recently_connected now info"
  obtain m res where "fetch_random L rng now cnt ?f (ps_manager (ns_store s)) = (m, Inr res)"
    and sel: "selection_ok L now ?f (mgr_view (ps_manager (ns_store s))) res" "length res \<le> cnt"
    using fetch_random_ok [OF assms(1), of rng now cnt ?f] assms(2) by blast
  moreover have "nl_peer_id L (ai_addr x) \<noteq> None" if "x \<in> set res" for x
    using sel(1) that by (fastforce simp: selection_ok_def split: option.splits)
  ultimately show ?thesis
    by (auto simp: fetch_and_mark_def fetch_addrs_to_attempt_def with_peer_store_mut_def st_bind_apply st_seq_apply on_manager_apply)
qed

text \<open>The addresses of a round: few enough, and all of them with a peer identifier.\<close>

lemma round_addrs_ok:
  assumes ok: "mgr_ok L (ps_manager (ns_store s))" and pos: "0 < cnt"
    and boots: "\<forall>a\<in>set (unconnected_bootstraps s). nl_peer_id L a \<noteq> None"
    and pick: "\<forall>n xs. length (pick n xs) \<le> n \<and> set (pick n xs) \<subseteq> set xs"
  shows "\<exists>t as. round_addrs L rng pick now tries cnt s =
      (s\<lparr>ns_try_identify := (if 3 < tries then 0 else ns_try_identify s), ns_store := t\<rparr>, Inr as) \<and>
    length as \<le> cnt \<and> (\<forall>a\<in>set as. nl_peer_id L a \<noteq> None)"
proof (cases "3 < tries")
  case False
  have "s\<lparr>ns_try_identify := ns_try_identify s\<rparr> = s" by simp
  then show ?thesis using False attempt_fetch [OF ok pos, of now rng] by (auto simp: round_addrs_def)
next
  case True
  define s1 where "s1 = s\<lparr>ns_try_identify := 0\<rparr>"
  let ?boots = "unconnected_bootstraps s"
  have b1: "unconnected_bootstraps s1 = ?boots" by (simp add: unconnected_bootstraps_def s1_def)
  have run: "round_addrs L rng pick now tries cnt s =
      (if length ?boots < cnt
       then st_bind (fetch_and_mark L now (fetch_addrs_to_attempt L rng now now (cnt - length ?boots))) (\<lambda>addrs. st_return (addrs @ ?boots)) s1
       else (s1, Inr (pick cnt ?boots)))"
    using True b1 by (simp add: round_addrs_def st_bind_apply st_seq_apply s1_def [symmetric])
  show ?thesis
  proof (cases "length ?boots < cnt")
    case less: True
    have "mgr_ok L (ps_manager (ns_store s1))" "0 < cnt - length ?boots" using ok less by (simp_all add: s1_def)
    from attempt_fetch [OF this] obtain t "as" where
      f: "fetch_and_mark L now (fetch_addrs_to_attempt L rng now now (cnt - length ?boots)) s1 = (s1\<lparr>ns_store := t\<rparr>, Inr as)"
        "length as \<le> cnt - length ?boots" "\<forall>a\<in>set as. nl_peer_id L a \<noteq> None" by blast
    then show ?thesis
      unfolding run using True less boots
      by (intro exI [of _ t] exI [of _ "as @ ?boots"]) (auto simp: st_bind_apply s1_def)
  next
    case False
    have "s1\<lparr>ns_store := ns_store s\<rparr> = s1" by (simp add: s1_def)
    moreover have "\<forall>a\<in>set (pick cnt ?boots). nl_peer_id L a \<noteq> None" using pick boots by blast
    ultimately show ?thesis
      unfolding run using True False pick
      by (intro exI [of _ "ns_store s"] exI [of _ "pick cnt ?boots"]) (auto simp: s1_def)
  qed
qed

text \<open>
  A round of dialling is bounded: with the configured limits and a sound store, the round
  that looks for peers returns, the number of connections it asks for is at most the number of free
  places the code computes, the addresses are pairwise different, and none of them is
  already being dialled, probed or connected. The counter of rounds never overflows.
\<close>

theorem dial_round_bounded:
  assumes "mgr_ok L (ps_manager (ns_store s))" and "nc_inbound_limit cfg \<le> nc_max_connections cfg" and "ns_try_identify s \<le> 3"
    and "\<forall>(p, a)\<in>set (ns_bootstraps s). nl_peer_id L a = Some p"
    and "\<forall>n xs. length (pick n xs) \<le> n \<and> set (pick n xs) \<subseteq> set xs"
  shows "\<exists>s' ds. try_dial_peers L cfg rng pick now s = (s', Inr ()) \<and>
    ns_commands s' = ns_commands s @ map (\<lambda>a. CmdDial a (protocol_id Identify)) ds \<and>
    length ds \<le> nc_max_connections cfg - nc_inbound_limit cfg - fst (snd (connection_status (ns_online s))) \<and>
    distinct ds \<and> (\<forall>a\<in>set ds. can_dial L (ns_online s) a) \<and> ns_try_identify s' \<le> 3"
proof -
  obtain num_total num_in num_out where st: "connection_status (ns_online s) = (num_total, num_in, num_out)"
    by (cases "connection_status (ns_online s)")
  define cnt where "cnt = nc_max_connections cfg - nc_inbound_limit cfg - num_in"
  show ?thesis
  proof (cases "cnt = 0")
    case True
    then show ?thesis
      using assms(2) st
      by (intro exI [of _ "s\<lparr>ns_try_identify := 0\<rparr>"] exI [of _ "[]"]) (simp add: try_dial_peers_def st_bind_apply cnt_def)
  next
    case False
    define tries where "tries = ns_try_identify s + 1"
    define s1 where "s1 = s\<lparr>ns_try_identify := tries\<rparr>"
    have add: "checked_add (ns_try_identify s) 1 = Some tries"
      using assms(3) by (simp add: checked_add_def tries_def word_le_nat_alt)
    have "\<forall>a\<in>set (unconnected_bootstraps s1). nl_peer_id L a \<noteq> None"
      using assms(4) by (auto simp: unconnected_bootstraps_def s1_def)
    moreover have "mgr_ok L (ps_manager (ns_store s1))" "ns_try_identify s1 = tries" using assms(1) by (simp_all add: s1_def)
    ultimately obtain t "as" where
      c: "round_addrs L rng pick now tries cnt s1 = (s1\<lparr>ns_try_identify := (if 3 < tries then 0 else tries), ns_store := t\<rparr>, Inr as)"
        "length as \<le> cnt" "\<forall>a\<in>set as. nl_peer_id L a \<noteq> None"
      using round_addrs_ok [OF _ _ _ assms(5), of L s1 cnt rng now tries] False by auto
    from dial_each [OF c(3), of "s1\<lparr>ns_try_identify := (if 3 < tries then 0 else tries), ns_store := t\<rparr>"] obtain s' ds where
      "st_each (dial_identify L) as (s1\<lparr>ns_try_identify := (if 3 < tries then 0 else tries), ns_store := t\<rparr>) = (s', Inr ())"
      "ns_commands s' = ns_commands s @ map (\<lambda>a. CmdDial a (protocol_id Identify)) ds" "length ds \<le> length as"
      "distinct ds" "\<forall>a\<in>set ds. can_dial L (ns_online s) a" "ns_try_identify s' = (if 3 < tries then 0 else tries)"
      by (auto simp: s1_def)
    moreover have "try_dial_peers L cfg rng pick now s = st_bind (round_addrs L rng pick now tries cnt) (st_each (dial_identify L)) s1"
      using assms(2) st False add by (simp add: try_dial_peers_def cnt_def st_bind_apply st_seq_apply ok_or_def s1_def)
    ultimately show ?thesis
      using c(1,2) st by (intro exI [of _ s'] exI [of _ ds]) (auto simp: st_bind_apply cnt_def)
  qed
qed

section \<open>A concrete state\<close>

text \<open>One inbound peer is connected, which is all that \<open>sample_cfg\<close> allows; one bootstrap node is known.\<close>

definition sample_cfg :: "(sample_addr, nat) net_config" where
  "sample_cfg = \<lparr>nc_max_connections = 3, nc_inbound_limit = 1, nc_local_peer = 1, nc_bootstraps = [(9, 80, 2)]\<rparr>"

definition sample_session :: "nat \<Rightarrow> sample_addr \<Rightarrow> (sample_addr, nat) session" where
  "sample_session i a = \<lparr>ss_id = i, ss_addr = a, ss_type = Inbound, ss_remote_peer = Some (snd (snd a))\<rparr>"

definition sample_state :: "(sample_addr, nat, ip_addr) net_state" where
  "sample_state =
     \<lparr>ns_online = \<lparr>on_peers = [(5, peer_info_new (sample_session 1 (7, 80, 5)))], on_dialing = [], on_feeler = []\<rparr>,
      ns_store = sample_store, ns_bootstraps = [(2, (9, 80, 2))], ns_chain_id = [], ns_public_addrs = [],
      ns_consensus_list = [], ns_try_identify = 3, ns_commands = []\<rparr>"

lemma sample_status: "connection_status (ns_online sample_state) = (1, 1, 0)"
  by (simp add: connection_status_def sample_state_def peer_info_new_def sample_session_def)

theorem session_admission_witness:
  "\<not> below_limits sample_cfg Inbound (connection_status (ns_online sample_state)) \<and>
   (\<exists>s'. session_open sample_net sample_cfg 1000 (sample_session 2 (8, 80, 6)) sample_state = (s', Inr ()) \<and>
      is_online 6 (ns_online s') \<and> ns_commands s' = [])"
  using session_admission [of sample_net "sample_session 2 (8, 80, 6)" 6 sample_state sample_cfg 1000] sample_status
  by (auto simp: sample_session_def sample_state_def sample_cfg_def below_limits_def is_online_def)

theorem dial_round_bounded_witness:
  "\<exists>s' ds. try_dial_peers sample_net sample_cfg (\<lambda>i. i) take 1000 sample_state = (s', Inr ()) \<and> length ds \<le> 1 \<and>
     ns_commands s' = map (\<lambda>a. CmdDial a (protocol_id Identify)) ds"
proof -
  have "\<forall>n (xs :: sample_addr list). length (take n xs) \<le> n \<and> set (take n xs) \<subseteq> set xs" by (simp add: set_take_subset)
  then show ?thesis
    using dial_round_bounded [of sample_net sample_state sample_cfg take "\<lambda>i. i" 1000] sample_known_ok(1) sample_status
    by (auto simp: sample_state_def sample_cfg_def)
qed

end
