(* ===== verification/Net_Discovery.thy ===== *)
theory Net_Discovery
  imports Peer_Manager
begin

text \<open>
  The discovery protocol, \<open>core/network/src/protocols/discovery\<close>. As in the code the protocol is generic in
  its address manager: the record \<open>addr_mgr\<close> holds the methods of the trait \<open>AddressManager\<close>, the protocol is
  written over it, and \<open>discovery_address_manager\<close> is the implementation over the peer manager. The Bloom
  filter of known addresses and the wire format come from libraries: the filter is the parameter
  \<open>known_lib\<close>, and a received message is what decoding yields. Instants are numbers of
  milliseconds. Handlers return the commands they give to the transport.

  The properties: every message that a node sends passes the check of its receiver, an
  answer holds valid addresses only and no more than asked for, and a second request
  ends the session.
\<close>

section \<open>Messages\<close>

definition listen_port :: "u32 \<Rightarrow> 16 word option" where
  "listen_port port = (if port \<le> 0xFFFF then Some (ucast port) else None)"

definition node_addrs :: "('m, 'p, 'n) net_lib \<Rightarrow> bytes list \<Rightarrow> 'm list" where
  "node_addrs L node = List.map_filter (nl_from_vec L) node"

definition node_with_addrs :: "('m, 'p, 'n) net_lib \<Rightarrow> 'm list \<Rightarrow> bytes list" where
  "node_with_addrs L addrs = map (nl_to_vec L) addrs"

datatype misbehavior =
    DuplicateGetNodes
  | DuplicateFirstNodes
  | TooManyItems bool nat
  | TooManyAddresses nat
  | InvalidData

definition ANNOUNCE_THRESHOLD :: nat where "ANNOUNCE_THRESHOLD = 10"
definition MAX_ADDR_TO_SEND :: nat where "MAX_ADDR_TO_SEND = 1000"
definition MAX_ADDRS :: nat where "MAX_ADDRS = 3"
definition ANNOUNCE_INTERVAL :: nat where "ANNOUNCE_INTERVAL = 3600 * 24 * 1000"

definition verify_nodes_message :: "bool \<Rightarrow> bytes list list \<Rightarrow> misbehavior option" where
  "verify_nodes_message announce items =
     (let early = (if announce
            then if ANNOUNCE_THRESHOLD < length items then Some (TooManyItems announce (length items)) else None
            else if MAX_ADDR_TO_SEND < length items then Some (TooManyItems announce (length items)) else None)
      in case early of
           Some m \<Rightarrow> Some m
         | None \<Rightarrow> map_option (\<lambda>item. TooManyAddresses (length item)) (find (\<lambda>item. MAX_ADDRS < length item) items))"

section \<open>The address manager of the protocol\<close>

record ('m, 'p, 's) addr_mgr =
  am_register :: "('m, 'p) session \<Rightarrow> ('s, unit) peer_op"
  am_unregister :: "('m, 'p) session \<Rightarrow> ('s, unit) peer_op"
  am_is_valid :: "'m \<Rightarrow> bool"
  am_add_new_addr :: "nat \<Rightarrow> 'm \<Rightarrow> ('s, unit) peer_op"
  am_add_new_addrs :: "nat \<Rightarrow> 'm list \<Rightarrow> ('s, unit) peer_op"
  am_misbehave :: "nat \<Rightarrow> misbehavior \<Rightarrow> bool"
  am_get_random :: "nat \<Rightarrow> ('s, 'm list) peer_op"
  am_consensus_list :: "'s \<Rightarrow> 'm list"
  am_add_reuse_port_addr :: "'m \<Rightarrow> ('s, unit) peer_op"

record ('m, 'f) known_lib =
  kn_new :: 'f
  kn_insert :: "'m \<Rightarrow> 'f \<Rightarrow> 'f"
  kn_contains :: "'m \<Rightarrow> 'f \<Rightarrow> bool"

datatype 'm remote_address = RInit (to_inner: 'm) | RListen (to_inner: 'm)

definition change_to_listen :: "'m remote_address \<Rightarrow> 'm remote_address" where
  "change_to_listen r = (case r of RInit a \<Rightarrow> RListen a | RListen a \<Rightarrow> RListen a)"

definition update_port :: "('m, 'p, 'n) net_lib \<Rightarrow> 16 word \<Rightarrow> 'm remote_address \<Rightarrow> 'm remote_address" where
  "update_port L port r =
     (case r of
        RInit a \<Rightarrow> RListen (nl_collect L (map (\<lambda>x. case x of Tcp _ \<Rightarrow> Tcp port | _ \<Rightarrow> x) (nl_iter L a)))
      | RListen a \<Rightarrow> RListen a)"

record ('m, 'f) session_state =
  se_known :: 'f
  se_remote :: "'m remote_address"
  se_last_announce :: "nat option"
  se_announce :: "'m list"
  se_received_get_nodes :: bool
  se_received_nodes :: bool

definition session_state_new ::
  "('m, 'p, 'n) net_lib \<Rightarrow> ('m, 'f) known_lib \<Rightarrow> ('m, 'p, 's) addr_mgr \<Rightarrow> 'm list \<Rightarrow> ('m, 'p) session \<Rightarrow>
     ('m, 'f) session_state \<times> 'm net_cmd list" where
  "session_state_new L K A listens ctx =
     (let blank = \<lparr>se_known = kn_new K, se_remote = RInit (ss_addr ctx), se_last_announce = None, se_announce = [],
            se_received_get_nodes = False, se_received_nodes = False\<rparr>
      in if ss_type ctx = Outbound
         then
           let ports = List.map_filter (\<lambda>a. if am_is_valid A a then map_option snd (nl_socketaddr L a) else None) listens;
               port = (case ports of [] \<Rightarrow> None | p # _ \<Rightarrow> Some (ucast p))
           in (blank\<lparr>se_known := kn_insert K (ss_addr ctx) (kn_new K), se_remote := RListen (ss_addr ctx)\<rparr>,
               [CmdDiscovery (ss_id ctx) (GetNodes 1 (word_of_nat MAX_ADDR_TO_SEND) port)])
         else (blank, []))"

definition check_timer :: "nat \<Rightarrow> nat \<Rightarrow> ('m, 'f) session_state \<Rightarrow> ('m, 'f) session_state \<times> 'm option" where
  "check_timer now interval st =
     (if (case se_last_announce st of None \<Rightarrow> True | Some t \<Rightarrow> interval < now - t)
      then (st\<lparr>se_last_announce := Some now\<rparr>, case se_remote st of RListen a \<Rightarrow> Some a | RInit _ \<Rightarrow> None)
      else (st, None))"

definition send_messages ::
  "('m, 'p, 'n) net_lib \<Rightarrow> nat \<Rightarrow> ('m, 'f) session_state \<Rightarrow> ('m, 'f) session_state \<times> 'm net_cmd list" where
  "send_messages L sid st =
     (if se_announce st = [] then (st, [])
      else (st\<lparr>se_announce := []\<rparr>,
            [CmdDiscovery sid (Nodes True (map (\<lambda>a. node_with_addrs L [a]) (se_announce st)))]))"

section \<open>The protocol\<close>

type_synonym ('m, 'f, 's) discovery = "(nat \<times> ('m, 'f) session_state) list \<times> 's"

type_synonym ('m, 'f, 's) disc_op = "(('m, 'f, 's) discovery, 'm net_cmd list) peer_op"

definition on_snd :: "('s, 'e, 'a) st \<Rightarrow> ('x \<times> 's, 'e, 'a) st" where
  "on_snd op = (\<lambda>(x, s). let (s', r) = op s in ((x, s'), r))"

definition put_session :: "nat \<Rightarrow> ('m, 'f) session_state \<Rightarrow> (('m, 'f, 's) discovery, unit) peer_op" where
  "put_session sid st = st_modify (\<lambda>(ss, s). (AList.update sid st ss, s))"

definition discovery_connected ::
  "('m, 'p, 'n) net_lib \<Rightarrow> ('m, 'f) known_lib \<Rightarrow> ('m, 'p, 's) addr_mgr \<Rightarrow> 'm list \<Rightarrow> ('m, 'p) session \<Rightarrow> ('m, 'f, 's) disc_op" where
  "discovery_connected L K A listens ctx =
     st_seq (on_snd (am_register A ctx)) (
     let (st, out) = session_state_new L K A listens ctx in
     st_seq (put_session (ss_id ctx) st) (st_return out))"

definition discovery_disconnected :: "('m, 'p, 's) addr_mgr \<Rightarrow> ('m, 'p) session \<Rightarrow> ('m, 'f, 's) disc_op" where
  "discovery_disconnected A ctx =
     st_seq (st_modify (\<lambda>(ss, s). (AList.delete (ss_id ctx) ss, s))) (
     st_seq (on_snd (am_unregister A ctx)) (st_return []))"

definition received_get_nodes ::
  "('m, 'p, 'n) net_lib \<Rightarrow> ('m, 'f) known_lib \<Rightarrow> ('m, 'p, 's) addr_mgr \<Rightarrow> (nat \<Rightarrow> 'm list \<Rightarrow> 'm list) \<Rightarrow> nat \<Rightarrow>
     u32 \<Rightarrow> u32 \<Rightarrow> u32 option \<Rightarrow> ('m, 'f) session_state \<Rightarrow> ('m, 'f, 's) disc_op" where
  "received_get_nodes L K A pick sid version cnt port st =
     (if se_received_get_nodes st \<and> am_misbehave A sid DuplicateGetNodes then st_return [CmdDisconnect sid]
      else
        st_seq (put_session sid (st\<lparr>se_received_get_nodes := True\<rparr>)) (
        st_bind (on_snd (am_get_random A 2500)) (\<lambda>items.
        let st1 = st\<lparr>se_received_get_nodes := True\<rparr>;
            p = Option.bind port listen_port;
            st2 = (case p of None \<Rightarrow> st1
                   | Some q \<Rightarrow>
                       let r = update_port L q (se_remote st1)
                       in st1\<lparr>se_remote := r, se_known := kn_insert K (to_inner r) (se_known st1)\<rparr>);
            st3 = (if 1 \<le> version then st2\<lparr>se_remote := change_to_listen (se_remote st2)\<rparr> else st2);
            limit = min MAX_ADDR_TO_SEND (unat cnt);
            items' = (if limit < length items then pick limit items else items);
            st4 = st3\<lparr>se_known := foldl (\<lambda>f a. kn_insert K a f) (se_known st3) items'\<rparr>
        in
          st_seq (put_session sid st2) (
          st_seq (case p of None \<Rightarrow> st_return ()
                  | Some _ \<Rightarrow> (case se_remote st2 of RListen a \<Rightarrow> on_snd (am_add_new_addr A sid a) | RInit _ \<Rightarrow> st_return ())) (
          st_seq (put_session sid st3) (
          st_seq (if 1 \<le> version then on_snd (am_add_reuse_port_addr A (to_inner (se_remote st3))) else st_return ()) (
          st_seq (put_session sid st4)
            (st_return [CmdDiscovery sid (Nodes False (map (\<lambda>a. node_with_addrs L [a]) items'))]))))))))"

definition received_nodes ::
  "('m, 'p, 'n) net_lib \<Rightarrow> ('m, 'f) known_lib \<Rightarrow> ('m, 'p, 's) addr_mgr \<Rightarrow> nat \<Rightarrow> bool \<Rightarrow> bytes list list \<Rightarrow> ('m, 'f, 's) disc_op" where
  "received_nodes L K A sid announce items =
     (let bad = (case verify_nodes_message announce items of None \<Rightarrow> False | Some m \<Rightarrow> am_misbehave A sid m) in
      if bad then st_return [CmdDisconnect sid]
      else
        st_bind (st_gets (\<lambda>(ss, _). map_of ss sid)) (\<lambda>found.
        case found of
          None \<Rightarrow> st_return []
        | Some st \<Rightarrow>
            if \<not> announce \<and> se_received_nodes st
            then st_return (if am_misbehave A sid DuplicateFirstNodes then [CmdDisconnect sid] else [])
            else
              let addrs = concat (map (node_addrs L) items);
                  st' = st\<lparr>se_known := foldl (\<lambda>f a. kn_insert K a f) (se_known st) addrs,
                           se_received_nodes := se_received_nodes st \<or> \<not> announce\<rparr>
              in st_seq (put_session sid st') (st_seq (on_snd (am_add_new_addrs A sid addrs)) (st_return []))))"

definition discovery_received ::
  "('m, 'p, 'n) net_lib \<Rightarrow> ('m, 'f) known_lib \<Rightarrow> ('m, 'p, 's) addr_mgr \<Rightarrow> (nat \<Rightarrow> 'm list \<Rightarrow> 'm list) \<Rightarrow> ('m, 'p) session \<Rightarrow>
     discovery_message option \<Rightarrow> ('m, 'f, 's) disc_op" where
  "discovery_received L K A pick ctx decoded =
     (case decoded of
        None \<Rightarrow> st_return (if am_misbehave A (ss_id ctx) InvalidData then [CmdDisconnect (ss_id ctx)] else [])
      | Some EmptyPayload \<Rightarrow> st_return []
      | Some (GetNodes version cnt port) \<Rightarrow>
          st_bind (st_gets (\<lambda>(ss, _). map_of ss (ss_id ctx))) (\<lambda>found.
          case found of
            None \<Rightarrow> st_return []
          | Some st \<Rightarrow> received_get_nodes L K A pick (ss_id ctx) version cnt port st)
      | Some (Nodes announce items) \<Rightarrow> received_nodes L K A (ss_id ctx) announce items)"

text \<open>
  \<open>notify\<close>: first every session sends what has been collected for it and may contribute its own address,
  then every address to announce is handed to three sessions of a random order.
\<close>

fun notify_sessions ::
  "('m, 'p, 'n) net_lib \<Rightarrow> ('m, 'p, 's) addr_mgr \<Rightarrow> nat \<Rightarrow> (nat \<times> ('m, 'f) session_state) list \<Rightarrow>
     (nat \<times> ('m, 'f) session_state) list \<times> 'm net_cmd list \<times> 'm list" where
  "notify_sessions L A now [] = ([], [], [])"
| "notify_sessions L A now ((sid, st) # ss) =
     (let (st1, out) = send_messages L sid st;
          (st2, addr) = check_timer now ANNOUNCE_INTERVAL st1;
          (ss', outs, addrs) = notify_sessions L A now ss
      in ((sid, st2) # ss', out @ outs,
          (case addr of None \<Rightarrow> [] | Some a \<Rightarrow> if am_is_valid A a then [a] else []) @ addrs))"

definition announce_to ::
  "('m, 'f) known_lib \<Rightarrow> 'm \<Rightarrow> (nat \<times> ('m, 'f) session_state) list \<Rightarrow> nat \<Rightarrow> (nat \<times> ('m, 'f) session_state) list" where
  "announce_to K addr ss key =
     (case map_of ss key of
        None \<Rightarrow> ss
      | Some st \<Rightarrow>
          if length (se_announce st) < ANNOUNCE_THRESHOLD \<and> \<not> kn_contains K addr (se_known st)
          then AList.update key (st\<lparr>se_announce := se_announce st @ [addr], se_known := kn_insert K addr (se_known st)\<rparr>) ss
          else ss)"

definition announce_all ::
  "('m, 'f) known_lib \<Rightarrow> (nat \<Rightarrow> nat list \<Rightarrow> nat list) \<Rightarrow> 'm list \<Rightarrow> (nat \<times> ('m, 'f) session_state) list \<Rightarrow>
     (nat \<times> ('m, 'f) session_state) list" where
  "announce_all K shuffle addrs ss =
     snd (foldl (\<lambda>(keys, ss) (i, addr).
            let keys' = shuffle i keys in (keys', foldl (announce_to K addr) ss (take 3 keys')))
          (map fst ss, ss) (enumerate 0 addrs))"

definition discovery_notify ::
  "('m, 'p, 'n) net_lib \<Rightarrow> ('m, 'f) known_lib \<Rightarrow> ('m, 'p, 's) addr_mgr \<Rightarrow> (nat \<Rightarrow> nat list \<Rightarrow> nat list) \<Rightarrow> nat \<Rightarrow> ('m, 'f, 's) disc_op" where
  "discovery_notify L K A shuffle now =
     (\<lambda>(ss, s).
        let (ss', outs, addrs) = notify_sessions L A now ss
        in ((announce_all K shuffle (am_consensus_list A s @ addrs) ss', s), Inr outs))"

section \<open>The implementation over the peer manager\<close>

definition disc_is_valid_addr :: "('m, 'p, 'n) net_lib \<Rightarrow> bool \<Rightarrow> 'm \<Rightarrow> bool" where
  "disc_is_valid_addr L local addr =
     (if \<not> local
      then \<not> (case nl_socketaddr L addr of None \<Rightarrow> True | Some (ip, _) \<Rightarrow> \<not> nl_reachable L ip)
      else True)"

text \<open>A failed eviction is logged and otherwise ignored.\<close>

definition ignore_eviction :: "('s, unit) peer_op \<Rightarrow> ('s, unit) peer_op" where
  "ignore_eviction op s =
     (case op s of (s', Inl PeerStoreEvictionFailed) \<Rightarrow> (s', Inr ()) | r \<Rightarrow> r)"

text \<open>What the store draws at random when it evicts, for the \<open>i\<close>-th address of a message.\<close>

type_synonym 'm draws =
  "nat \<Rightarrow> ('m addr_info list list \<Rightarrow> 'm addr_info list list) \<times> ('m addr_info list \<Rightarrow> 'm addr_info list)"

definition add_addrs :: "('m, 'p, 'n) net_lib \<Rightarrow> u64 \<Rightarrow> 'm draws \<Rightarrow> 'm list \<Rightarrow> ('m, 'p, 'n, unit) net_op" where
  "add_addrs L now ch addrs =
     st_each (\<lambda>(i, a). with_peer_store_mut (ignore_eviction (add_addr L now now (fst (ch i)) (snd (ch i)) a))) (enumerate 0 addrs)"

definition disc_add_new_addrs :: "('m, 'p, 'n) net_lib \<Rightarrow> bool \<Rightarrow> u64 \<Rightarrow> 'm draws \<Rightarrow> 'm list \<Rightarrow> ('m, 'p, 'n, unit) net_op" where
  "disc_add_new_addrs L local now ch addrs =
     (if addrs = [] then st_return () else add_addrs L now ch (filter (disc_is_valid_addr L local) addrs))"

definition disc_get_random ::
  "('m, 'p, 'n) net_lib \<Rightarrow> bool \<Rightarrow> (nat \<Rightarrow> nat) \<Rightarrow> u64 \<Rightarrow> nat \<Rightarrow> ('m, 'p, 'n, 'm list) net_op" where
  "disc_get_random L local rng now n =
     st_bind (with_peer_store_mut (fetch_random_addrs L rng now now n)) (\<lambda>infos.
     st_return (filter (disc_is_valid_addr L local) (map ai_addr infos)))"

definition disc_add_reuse_port_addr :: "('m, 'p, 'n) net_lib \<Rightarrow> u64 \<Rightarrow> 'm \<Rightarrow> ('m, 'p, 'n, unit) net_op" where
  "disc_add_reuse_port_addr L now addr =
     st_bind (st_lift (ok_or PePanic (nl_peer_id L addr))) (\<lambda>p.
     st_seq (update_peer p (\<lambda>i. i\<lparr>pi_reuse := True\<rparr>))
       (with_peer_store_mut (add_outbound_addr L now now addr)))"

definition discovery_address_manager ::
  "('m, 'p, 'n) net_lib \<Rightarrow> bool \<Rightarrow> (nat \<Rightarrow> nat) \<Rightarrow> 'm draws \<Rightarrow> u64 \<Rightarrow> ('m, 'p, ('m, 'p, 'n) net_state) addr_mgr" where
  "discovery_address_manager L local rng ch now =
     \<lparr>am_register = (\<lambda>ctx. st_bind (st_lift (ok_or PePanic (nl_peer_id L (ss_addr ctx)))) (\<lambda>p. open_protocol p (protocol_id Discovery))),
      am_unregister = (\<lambda>ctx. st_bind (st_lift (ok_or PePanic (nl_peer_id L (ss_addr ctx)))) (\<lambda>p. close_protocol p (protocol_id Discovery))),
      am_is_valid = disc_is_valid_addr L local,
      am_add_new_addr = (\<lambda>_ a. disc_add_new_addrs L local now ch [a]),
      am_add_new_addrs = (\<lambda>_. disc_add_new_addrs L local now ch),
      am_misbehave = (\<lambda>_ _. True),
      am_get_random = disc_get_random L local rng now,
      am_consensus_list = connected_consensus_peer,
      am_add_reuse_port_addr = disc_add_reuse_port_addr L now\<rparr>"

section \<open>What the protocol sends\<close>

text \<open>
  The contract of an address manager: a random selection consists of valid addresses, misbehaviour ends
  the session, and no method breaks the invariant of its state.
\<close>

locale address_manager =
  fixes A :: "('m, 'p, 's) addr_mgr" and I :: "'s \<Rightarrow> bool"
  assumes random_valid: "am_get_random A n s = (s', Inr items) \<Longrightarrow> a \<in> set items \<Longrightarrow> am_is_valid A a"
    and strict: "am_misbehave A sid kind"
    and keeps_inv: "preserves I (am_register A ctx)" "preserves I (am_unregister A ctx)" "preserves I (am_add_new_addr A sid a)"
      "preserves I (am_add_new_addrs A sid as)" "preserves I (am_get_random A n)" "preserves I (am_add_reuse_port_addr A a)"

definition sessions_ok :: "(nat \<times> ('m, 'f) session_state) list \<Rightarrow> bool" where
  "sessions_ok ss \<longleftrightarrow> (\<forall>x\<in>set ss. length (se_announce (snd x)) \<le> ANNOUNCE_THRESHOLD)"

text \<open>A message that its receiver does not answer with the end of the session.\<close>

definition acceptable :: "('m, 'p, 'n) net_lib \<Rightarrow> ('m \<Rightarrow> bool) \<Rightarrow> 'm net_cmd \<Rightarrow> bool" where
  "acceptable L valid c =
     (case c of
        CmdDiscovery _ (Nodes announce items) \<Rightarrow>
          verify_nodes_message announce items = None \<and>
          (\<exists>addrs. items = map (\<lambda>a. [nl_to_vec L a]) addrs \<and> (announce \<or> (\<forall>a\<in>set addrs. valid a)))
      | _ \<Rightarrow> True)"

lemma alist_update_elem: "x \<in> set (AList.update k v al) \<Longrightarrow> x = (k, v) \<or> x \<in> set al"
  by (induction al) (auto split: if_splits)

lemma sessions_ok_update:
  "sessions_ok ss \<Longrightarrow> length (se_announce st) \<le> ANNOUNCE_THRESHOLD \<Longrightarrow> sessions_ok (AList.update sid st ss)"
  unfolding sessions_ok_def by (auto dest: alist_update_elem)

lemma sessions_ok_lookup: "sessions_ok ss \<Longrightarrow> map_of ss sid = Some st \<Longrightarrow> length (se_announce st) \<le> ANNOUNCE_THRESHOLD"
  unfolding sessions_ok_def by (auto dest!: map_of_SomeD)

lemma sessions_ok_delete: "sessions_ok ss \<Longrightarrow> sessions_ok (AList.delete sid ss)"
  unfolding sessions_ok_def by (auto simp: AList.delete_eq)

lemma sessions_ok_announce: "sessions_ok ss \<Longrightarrow> sessions_ok (announce_to K addr ss key)"
  unfolding announce_to_def by (auto split: option.splits intro!: sessions_ok_update)

lemma sessions_ok_announce_keys: "sessions_ok ss \<Longrightarrow> sessions_ok (foldl (announce_to K addr) ss keys)"
  by (induction keys arbitrary: ss) (simp_all add: sessions_ok_announce)

lemma sessions_ok_announce_all: "sessions_ok ss \<Longrightarrow> sessions_ok (announce_all K shuffle addrs ss)"
proof -
  have "sessions_ok (snd (foldl (\<lambda>(keys, ss) (i, addr).
            let keys' = shuffle i keys in (keys', foldl (announce_to K addr) ss (take 3 keys'))) (keys, ss) xs))"
    if "sessions_ok ss" for keys ss xs
    using that by (induction xs arbitrary: keys ss) (auto simp: Let_def sessions_ok_announce_keys)
  then show "sessions_ok ss \<Longrightarrow> sessions_ok (announce_all K shuffle addrs ss)" by (simp add: announce_all_def)
qed

lemma singles_verified:
  assumes "length addrs \<le> (if announce then ANNOUNCE_THRESHOLD else MAX_ADDR_TO_SEND)" and "announce \<or> (\<forall>a\<in>set addrs. valid a)"
  shows "acceptable L valid (CmdDiscovery sid (Nodes announce (map (\<lambda>a. node_with_addrs L [a]) addrs)))"
proof -
  have "find (\<lambda>item. MAX_ADDRS < length item) (map (\<lambda>a. [nl_to_vec L a]) addrs) = None"
    by (auto simp: find_None_iff MAX_ADDRS_def)
  then show ?thesis
    using assms by (auto simp: acceptable_def verify_nodes_message_def node_with_addrs_def Let_def split: if_splits)
qed

lemma notify_sessions_ok:
  assumes "sessions_ok ss" and "notify_sessions L A now ss = (ss', outs, addrs)"
  shows "sessions_ok ss' \<and> (\<forall>c\<in>set outs. acceptable L valid c)"
  using assms
proof (induction ss arbitrary: ss' outs addrs)
  case Nil
  then show ?case by (simp add: sessions_ok_def)
next
  case (Cons x ss)
  obtain sid st where x: "x = (sid, st)" by (cases x)
  have st: "length (se_announce st) \<le> ANNOUNCE_THRESHOLD" "sessions_ok ss" using Cons.prems(1) x by (simp_all add: sessions_ok_def)
  obtain st1 out where send: "send_messages L sid st = (st1, out)" by fastforce
  obtain st2 addr where timer: "check_timer now ANNOUNCE_INTERVAL st1 = (st2, addr)" by fastforce
  obtain ss1 outs1 addrs1 where rest: "notify_sessions L A now ss = (ss1, outs1, addrs1)" using prod_cases3 by blast
  have "length (se_announce st2) \<le> ANNOUNCE_THRESHOLD"
    using send timer st(1) by (auto simp: send_messages_def check_timer_def split: if_splits)
  moreover have "\<forall>c\<in>set out. acceptable L valid c"
    using send st(1) by (auto simp: send_messages_def intro!: singles_verified split: if_splits)
  ultimately show ?case
    using Cons.IH [OF st(2) rest] Cons.prems(2) by (auto simp: x send timer rest sessions_ok_def)
qed

context address_manager
begin

definition sound :: "('m, 'f, 's) discovery \<Rightarrow> bool" where
  "sound d \<longleftrightarrow> sessions_ok (fst d) \<and> I (snd d)"

definition sends_ok :: "('m, 'p, 'n) net_lib \<Rightarrow> ('m, 'f, 's) disc_op \<Rightarrow> bool" where
  "sends_ok L op \<longleftrightarrow> (\<forall>d. sound d \<longrightarrow> sound (fst (op d)) \<and>
     (\<forall>out c. snd (op d) = Inr out \<longrightarrow> c \<in> set out \<longrightarrow> acceptable L (am_is_valid A) c))"

lemma sound_on_snd: "preserves I op \<Longrightarrow> preserves sound (on_snd op)"
  unfolding preserves_def sound_def on_snd_def by (auto split: prod.splits)

lemma sound_put: "length (se_announce st) \<le> ANNOUNCE_THRESHOLD \<Longrightarrow> preserves sound (put_session sid st)"
  by (auto simp: preserves_def sound_def put_session_def sessions_ok_update split: prod.splits)

lemma sends_seq: "preserves sound m \<Longrightarrow> sends_ok L n \<Longrightarrow> sends_ok L (st_seq m n)"
  unfolding sends_ok_def preserves_def by (fastforce simp: st_seq_apply split: prod.splits sum.splits)

lemma sends_return: "(\<And>c. c \<in> set out \<Longrightarrow> acceptable L (am_is_valid A) c) \<Longrightarrow> sends_ok L (st_return out)"
  by (simp add: sends_ok_def)

lemma acceptable_other: "acceptable L valid (CmdDisconnect sid)" "acceptable L valid (CmdDiscovery sid (GetNodes v n p))"
  by (simp_all add: acceptable_def)

lemma connected_sends: "sends_ok L (discovery_connected L K A listens ctx)"
proof -
  obtain st out where new: "session_state_new L K A listens ctx = (st, out)" by fastforce
  have "length (se_announce st) \<le> ANNOUNCE_THRESHOLD" "\<And>c. c \<in> set out \<Longrightarrow> acceptable L (am_is_valid A) c"
    using new by (auto simp: session_state_new_def Let_def acceptable_other split: if_splits)
  then show ?thesis
    unfolding discovery_connected_def new prod.case Let_def
    by (intro sends_seq sends_return sound_on_snd sound_put keeps_inv)
qed

lemma disconnected_sends: "sends_ok L (discovery_disconnected A ctx)"
  unfolding discovery_disconnected_def
  by (intro sends_seq sends_return sound_on_snd keeps_inv)
    (auto simp: preserves_def sound_def sessions_ok_delete split: prod.splits)

lemma duplicate_request_disconnects:
  "se_received_get_nodes st \<Longrightarrow> received_get_nodes L K A pick sid version cnt port st d = (d, Inr [CmdDisconnect sid])"
  by (simp add: received_get_nodes_def strict)

lemma sends_bind:
  assumes "preserves sound m" and "\<And>d d' x. m d = (d', Inr x) \<Longrightarrow> sends_ok L (g x)"
  shows "sends_ok L (st_bind m g)"
proof -
  have "sound (fst (st_bind m g d)) \<and> (\<forall>out c. snd (st_bind m g d) = Inr out \<longrightarrow> c \<in> set out \<longrightarrow> acceptable L (am_is_valid A) c)"
    if "sound d" for d
  proof -
    obtain d' r where run: "m d = (d', r)" by fastforce
    have "sound d'" using preservesD [OF assms(1) that run] .
    then show ?thesis using assms(2) [of d d'] run by (cases r; cases d') (auto simp: st_bind_apply sends_ok_def)
  qed
  then show ?thesis by (simp add: sends_ok_def)
qed

lemma get_nodes_sends:
  assumes st: "length (se_announce st) \<le> ANNOUNCE_THRESHOLD" and pick: "\<And>n xs. length (pick n xs) \<le> n \<and> set (pick n xs) \<subseteq> set xs"
  shows "sends_ok L (received_get_nodes L K A pick sid version cnt port st)"
proof (cases "se_received_get_nodes st")
  case True
  then show ?thesis by (simp add: sends_ok_def duplicate_request_disconnects acceptable_other)
next
  case False
  have answer: "acceptable L (am_is_valid A) (CmdDiscovery sid (Nodes False (map (\<lambda>a. node_with_addrs L [a])
      (if n < length items then pick n items else items))))"
    if "on_snd (am_get_random A 2500) d = (d', Inr items)" and "n \<le> MAX_ADDR_TO_SEND" for d d' items n
  proof (rule singles_verified)
    have valid: "am_is_valid A a" if "a \<in> set items" for a
      using \<open>on_snd _ d = _\<close> random_valid that by (auto simp: on_snd_def split: prod.splits)
    show "False \<or> (\<forall>a\<in>set (if n < length items then pick n items else items). am_is_valid A a)"
      using valid pick [of n items] by auto
    show "length (if n < length items then pick n items else items) \<le> (if False then ANNOUNCE_THRESHOLD else MAX_ADDR_TO_SEND)"
      using that(2) pick [of n items] by auto
  qed
  have rest: "preserves sound (case r of RListen a \<Rightarrow> on_snd (am_add_new_addr A sid a) | RInit _ \<Rightarrow> st_return ())" for r
    by (cases r) (auto intro!: inv_intros sound_on_snd keeps_inv)
  show ?thesis
    unfolding received_get_nodes_def Let_def
    using False st
    by (simp only: if_False simp_thms)
      (intro sends_seq sends_bind sends_return sound_put sound_on_snd keeps_inv inv_intros rest;
       auto intro!: answer simp: if_distrib [of se_announce] split: option.split split del: if_split cong: if_cong)
qed

lemma lookup_sends:
  assumes "\<And>st. length (se_announce st) \<le> ANNOUNCE_THRESHOLD \<Longrightarrow> sends_ok L (g (Some st))" and "sends_ok L (g None)"
  shows "sends_ok L (st_bind (st_gets (\<lambda>(ss, _). map_of ss sid)) g)"
proof -
  have "sends_ok L (g (map_of ss sid))" if "sound (ss, s)" for ss s
    using that assms sessions_ok_lookup [of ss sid] by (cases "map_of ss sid") (auto simp: sound_def)
  then show ?thesis by (auto simp: sends_ok_def st_bind_apply)
qed

lemma nodes_sends: "sends_ok L (received_nodes L K A sid announce items)"
  unfolding received_nodes_def Let_def
  by (auto intro!: lookup_sends sends_seq sends_return sound_put sound_on_snd keeps_inv simp: acceptable_other split: if_splits)

lemma received_sends:
  assumes pick: "\<And>n xs. length (pick n xs) \<le> n \<and> set (pick n xs) \<subseteq> set xs"
  shows "sends_ok L (discovery_received L K A pick ctx decoded)"
  unfolding discovery_received_def
  by (cases decoded; (cases "the decoded")?)
    (auto intro!: lookup_sends get_nodes_sends [OF _ pick] nodes_sends sends_return simp: acceptable_other split: if_splits)

lemma notify_sends: "sends_ok L (discovery_notify L K A shuffle now)"
proof -
  have "sound (fst (discovery_notify L K A shuffle now (ss, s))) \<and>
     (\<forall>out c. snd (discovery_notify L K A shuffle now (ss, s)) = Inr out \<longrightarrow> c \<in> set out \<longrightarrow> acceptable L (am_is_valid A) c)"
    if "sound (ss, s)" for ss s
  proof -
    obtain ss' outs addrs where n: "notify_sessions L A now ss = (ss', outs, addrs)" using prod_cases3 by blast
    have "sessions_ok ss'" "\<forall>c\<in>set outs. acceptable L (am_is_valid A) c"
      using notify_sessions_ok [OF _ n] that by (simp_all add: sound_def)
    then show ?thesis using that by (auto simp: discovery_notify_def n sound_def sessions_ok_announce_all)
  qed
  then show ?thesis by (auto simp: sends_ok_def)
qed

end

section \<open>The address manager of the node\<close>

lemma store_safe_ignore [store_intros]: "store_safe L op \<Longrightarrow> store_safe L (ignore_eviction op)"
  unfolding store_safe_def keeps_def preserves_def ignore_eviction_def
  by (auto split: prod.split sum.split peer_error.split) (metis fst_conv)+

lemma net_ok_add_addrs [inv_intros]: "preserves (net_ok L) (add_addrs L now ch addrs)"
  unfolding add_addrs_def by (intro inv_intros) (auto intro!: inv_intros store_intros split: prod.split)

lemma net_ok_reuse [inv_intros]: "preserves (net_ok L) (disc_add_reuse_port_addr L now addr)"
  unfolding disc_add_reuse_port_addr_def by (intro inv_intros store_intros net_ok_update_peer) simp_all

interpretation disc: address_manager "discovery_address_manager L local rng ch now" "net_ok L" for L local rng ch now
proof
  fix n s s' items a
  assume "am_get_random (discovery_address_manager L local rng ch now) n s = (s', Inr items)" and "a \<in> set items"
  then show "am_is_valid (discovery_address_manager L local rng ch now) a"
    by (auto simp: discovery_address_manager_def disc_get_random_def st_bind_apply split: prod.splits sum.splits)
qed (auto simp: discovery_address_manager_def disc_add_new_addrs_def disc_get_random_def intro!: inv_intros store_intros)

datatype ('m, 'p) disc_event =
    DConnected "'m list" "('m, 'p) session"
  | DDisconnected "('m, 'p) session"
  | DReceived "('m, 'p) session" "discovery_message option"
  | DNotify nat

definition disc_exec ::
  "('m, 'p, 'n) net_lib \<Rightarrow> ('m, 'f) known_lib \<Rightarrow> (nat \<Rightarrow> 'm list \<Rightarrow> 'm list) \<Rightarrow> (nat \<Rightarrow> nat list \<Rightarrow> nat list) \<Rightarrow>
     (nat \<Rightarrow> nat) \<Rightarrow> 'm draws \<Rightarrow> u64 \<Rightarrow> ('m, 'p) disc_event \<Rightarrow> ('m, 'f, ('m, 'p, 'n) net_state) disc_op" where
  "disc_exec L K pick shuffle rng ch now ev =
     (let A = discovery_address_manager L False rng ch now in
      case ev of
        DConnected listens ctx \<Rightarrow> discovery_connected L K A listens ctx
      | DDisconnected ctx \<Rightarrow> discovery_disconnected A ctx
      | DReceived ctx decoded \<Rightarrow> discovery_received L K A pick ctx decoded
      | DNotify t \<Rightarrow> discovery_notify L K A shuffle t)"

text \<open>The states of the protocol beside other parts of the node, which may change the network state in any sound way.\<close>

inductive disc_reach :: "('m, 'p, 'n) net_lib \<Rightarrow> ('m, 'f) known_lib \<Rightarrow> ('m, 'f, ('m, 'p, 'n) net_state) discovery \<Rightarrow> bool"
  for L K where
  start: "net_ok L s \<Longrightarrow> disc_reach L K ([], s)"
| handle: "disc_reach L K d \<Longrightarrow> \<forall>n xs. length (pick n xs) \<le> n \<and> set (pick n xs) \<subseteq> set xs \<Longrightarrow>
    disc_reach L K (fst (disc_exec L K pick shuffle rng ch now ev d))"
| others: "disc_reach L K (ss, s) \<Longrightarrow> net_ok L s' \<Longrightarrow> disc_reach L K (ss, s')"

lemma disc_exec_sends:
  assumes "\<forall>n xs. length (pick n xs) \<le> n \<and> set (pick n xs) \<subseteq> set xs" and "sessions_ok (fst d)" and "net_ok L (snd d)"
    and "disc_exec L K pick shuffle rng ch now ev d = (d', r)"
  shows "sessions_ok (fst d') \<and> net_ok L (snd d') \<and>
    (\<forall>out. r = Inr out \<longrightarrow> (\<forall>c\<in>set out. acceptable L (disc_is_valid_addr L False) c))"
proof -
  have "disc.sends_ok L False rng ch now L (disc_exec L K pick shuffle rng ch now ev)"
    unfolding disc_exec_def Let_def using assms(1)
    by (cases ev) (auto intro!: disc.connected_sends disc.disconnected_sends disc.received_sends disc.notify_sends)
  moreover have "am_is_valid (discovery_address_manager L False rng ch now) = disc_is_valid_addr L False"
    by (simp add: discovery_address_manager_def)
  ultimately show ?thesis
    using assms(2-4) unfolding disc.sends_ok_def disc.sound_def by (metis fst_conv snd_conv)
qed

lemma disc_reach_sound: "disc_reach L K d \<Longrightarrow> sessions_ok (fst d) \<and> net_ok L (snd d)"
proof (induction rule: disc_reach.induct)
  case (handle d pick shuffle rng ch now ev)
  obtain d' r where run: "disc_exec L K pick shuffle rng ch now ev d = (d', r)" by fastforce
  from disc_exec_sends [OF handle(2) _ _ run] handle.IH show ?case by (simp add: run)
qed (simp_all add: sessions_ok_def)

text \<open>
  Honest nodes accept each other's discovery messages: in every reachable state and
  for every event, a list of nodes that the protocol sends passes the check of its receiver, which
  ends a session otherwise, and every address in an answer is publicly reachable.
\<close>

theorem discovery_messages_accepted:
  assumes "disc_reach L K d" and "\<forall>n xs. length (pick n xs) \<le> n \<and> set (pick n xs) \<subseteq> set xs"
    and "disc_exec L K pick shuffle rng ch now ev d = (d', Inr out)" and "CmdDiscovery sid (Nodes announce items) \<in> set out"
  shows "verify_nodes_message announce items = None \<and>
    (\<exists>addrs. items = map (\<lambda>a. [nl_to_vec L a]) addrs \<and>
       (announce \<or> (\<forall>a\<in>set addrs. \<exists>ip port. nl_socketaddr L a = Some (ip, port) \<and> nl_reachable L ip)))"
proof -
  have "acceptable L (disc_is_valid_addr L False) (CmdDiscovery sid (Nodes announce items))"
    using disc_exec_sends [OF assms(2) _ _ assms(3)] disc_reach_sound [OF assms(1)] assms(4) by blast
  moreover have "disc_is_valid_addr L False a \<longleftrightarrow> (\<exists>ip port. nl_socketaddr L a = Some (ip, port) \<and> nl_reachable L ip)" for a
    by (auto simp: disc_is_valid_addr_def split: option.splits)
  ultimately show ?thesis by (auto simp: acceptable_def)
qed

section \<open>A concrete run\<close>

definition sample_known_lib :: "(sample_addr, sample_addr list) known_lib" where
  "sample_known_lib = \<lparr>kn_new = [], kn_insert = (#), kn_contains = (\<lambda>a f. a \<in> set f)\<rparr>"

definition sample_fresh :: "(sample_addr, nat, ip_addr) net_state" where
  "sample_fresh = sample_state\<lparr>ns_online := \<lparr>on_peers = [], on_dialing = [], on_feeler = []\<rparr>\<rparr>"

definition sample_draws :: "sample_addr draws" where
  "sample_draws = (\<lambda>_. (id, take 2))"

lemma sample_fresh_ok: "net_ok sample_net sample_fresh"
  using sample_known_ok(1)
  by (simp add: net_ok_def registry_ok_def agree_def mgr_inv_def sample_fresh_def sample_state_def sample_store_def peer_store_new_def)

definition sample_opened :: "(sample_addr, sample_addr list) session_state" where
  "sample_opened = \<lparr>se_known = [], se_remote = RInit (7, 80, 5), se_last_announce = None, se_announce = [],
     se_received_get_nodes = False, se_received_nodes = False\<rparr>"

lemma sample_opened_reach: "disc_reach sample_net sample_known_lib ([(1, sample_opened)], sample_fresh)"
proof -
  have "fst (disc_exec sample_net sample_known_lib take (\<lambda>_ ks. ks) id sample_draws 1000
      (DConnected [] (sample_session 1 (7, 80, 5))) ([], sample_fresh)) = ([(1, sample_opened)], sample_fresh)"
    by (simp add: disc_exec_def discovery_connected_def discovery_address_manager_def on_snd_def open_protocol_def update_peer_def
        with_registry_mut_def put_session_def session_state_new_def sample_session_def sample_fresh_def sample_opened_def
        sample_known_lib_def st_seq_apply st_bind_apply ok_or_def)
  moreover have "\<forall>n xs. length (take n xs) \<le> n \<and> set (take n xs) \<subseteq> set (xs :: sample_addr list)" by (simp add: set_take_subset)
  ultimately show ?thesis using disc_reach.handle [OF disc_reach.start [OF sample_fresh_ok]] by metis
qed

theorem discovery_messages_accepted_witness:
  "\<exists>d' out items. disc_exec sample_net sample_known_lib take (\<lambda>_ ks. ks) id sample_draws 1000
       (DReceived (sample_session 1 (7, 80, 5)) (Some (GetNodes 0 5 None))) ([(1, sample_opened)], sample_fresh) = (d', Inr out) \<and>
     CmdDiscovery 1 (Nodes False items) \<in> set out \<and> verify_nodes_message False items = None"
proof -
  let ?f = "\<lambda>info. (case nl_peer_id sample_net (ai_addr info) of None \<Rightarrow> False | Some p \<Rightarrow> is_connected_peer p sample_store) \<or>
         saturating_sub 1000 ADDR_TIMEOUT_MS < ai_last_connected info"
  obtain m res where "fetch_random sample_net id 1000 2500 ?f sample_known = (m, Inr res)"
    using fetch_random_ok [OF sample_known_ok(1), of id 1000 2500 ?f] by blast
  moreover have "ns_store sample_fresh = sample_store" by (simp add: sample_fresh_def sample_state_def)
  ultimately obtain t items where "disc_get_random sample_net False id 1000 2500 sample_fresh = (t, Inr items)"
    by (simp add: disc_get_random_def with_peer_store_mut_def fetch_random_addrs_def on_manager_apply st_bind_apply)
  then have "\<exists>d' items. disc_exec sample_net sample_known_lib take (\<lambda>_ ks. ks) id sample_draws 1000
       (DReceived (sample_session 1 (7, 80, 5)) (Some (GetNodes 0 5 None))) ([(1, sample_opened)], sample_fresh) =
       (d', Inr [CmdDiscovery 1 (Nodes False items)])"
    by (simp add: disc_exec_def discovery_received_def received_get_nodes_def discovery_address_manager_def
        on_snd_def sample_session_def sample_opened_def put_session_def st_seq_apply st_bind_apply Let_def)
  moreover have "\<forall>n xs. length (take n xs) \<le> n \<and> set (take n xs) \<subseteq> set (xs :: sample_addr list)" by (simp add: set_take_subset)
  ultimately show ?thesis
    using discovery_messages_accepted [OF sample_opened_reach] by (metis list.set_intros(1))
qed

end
