(* ===== verification/Net_Protocols.thy ===== *)
theory Net_Protocols
  imports Net_Discovery
begin

text \<open>
  The identify, ping, feeler and transmitter protocols of \<open>core/network/src/protocols\<close> over the peer manager.
  The state of a protocol is a pair of its own table of sessions and the network state. A message is what
  decoding yields, instants are numbers of milliseconds, and the receipt of a message
  by the transmitter is the subject of the router.

  The properties: a peer of another chain, one that repeats itself or one that sends too many addresses
  is disconnected before anything it says is stored, and a peer that does not answer a ping is
  disconnected by the first check after the timeout.
\<close>

section \<open>Identify\<close>

record remote_info =
  ri_connected_at :: nat
  ri_timeout :: nat
  ri_has_received :: bool

type_synonym ('m, 'p, 'n) ident = "(nat \<times> remote_info) list \<times> ('m, 'p, 'n) net_state"

type_synonym ('m, 'p, 'n, 'a) ident_op = "(('m, 'p, 'n) ident, 'a) peer_op"

definition IDENT_MAX_ADDRS :: nat where "IDENT_MAX_ADDRS = 10"
definition DEFAULT_TIMEOUT :: nat where "DEFAULT_TIMEOUT = 8000"

definition session_peer :: "('m, 'p, 'n) net_lib \<Rightarrow> ('m, 'p) session \<Rightarrow> ('s, 'p) peer_op" where
  "session_peer L ctx = st_lift (ok_or PePanic (nl_peer_id L (ss_addr ctx)))"

definition globally_reachable :: "('m, 'p, 'n) net_lib \<Rightarrow> 'm \<Rightarrow> bool" where
  "globally_reachable L a = (case nl_socketaddr L a of None \<Rightarrow> False | Some (ip, _) \<Rightarrow> nl_reachable L ip)"

definition remote_info_new :: "nat \<Rightarrow> ('m, 'p) session \<Rightarrow> ('s, remote_info) peer_op" where
  "remote_info_new t ctx =
     (case ss_remote_peer ctx of
        None \<Rightarrow> st_throw PePanic
      | Some _ \<Rightarrow> st_return \<lparr>ri_connected_at = t, ri_timeout = DEFAULT_TIMEOUT, ri_has_received = False\<rparr>)"

definition put_info :: "nat \<Rightarrow> remote_info \<Rightarrow> ('m, 'p, 'n, unit) ident_op" where
  "put_info sid info = st_modify (\<lambda>(infos, s). (AList.update sid info infos, s))"

definition info_of :: "nat \<Rightarrow> ('m, 'p, 'n, remote_info) ident_op" where
  "info_of sid = st_bind (st_gets (\<lambda>(infos, _). map_of infos sid)) (\<lambda>found. st_lift (ok_or PePanic found))"

definition check_duplicate :: "nat \<Rightarrow> ('m, 'p, 'n, bool) ident_op" where
  "check_duplicate sid =
     st_bind (info_of sid) (\<lambda>info.
     if ri_has_received info then st_return True
     else st_seq (put_info sid (info\<lparr>ri_has_received := True\<rparr>)) (st_return False))"

definition received_identify :: "('m, 'p) session \<Rightarrow> string \<Rightarrow> ('m, 'p, 'n, bool) net_op" where
  "received_identify ctx chain_id =
     st_bind (st_gets id) (\<lambda>s.
     if ns_chain_id s = chain_id
     then
       st_seq
         (st_when (ss_type ctx = Outbound)
           (if ss_addr ctx \<in> set (on_feeler (ns_online s))
            then net_command (CmdOpen (ss_id ctx) [protocol_id Feeler])
            else net_command (CmdOpen (ss_id ctx)
                   (map protocol_id [Ping, Identify, Discovery, Transmitter]))))
         (st_return False)
     else st_return True)"

definition process_listens ::
  "('m, 'p, 'n) net_lib \<Rightarrow> u64 \<Rightarrow> 'm draws \<Rightarrow> ('m, 'p) session \<Rightarrow> 'm list \<Rightarrow> ('m, 'p, 'n, bool) net_op" where
  "process_listens L now ch ctx listens =
     (if IDENT_MAX_ADDRS < length listens then st_return True
      else
        let reachable = filter (globally_reachable L) listens in
        st_seq (add_addrs L now ch reachable) (
        st_bind (session_peer L ctx) (\<lambda>p.
        st_seq (update_peer p (\<lambda>i. i\<lparr>pi_listens := reachable\<rparr>)) (st_return False))))"

text \<open>
  \<open>process_observed\<close>: the result are the addresses for which a dialling future is made. The futures are
  dropped without being awaited, so no command is given.
\<close>

definition observed_addrs :: "('m, 'p, 'n) net_lib \<Rightarrow> 'p \<Rightarrow> 'm list \<Rightarrow> 'm \<Rightarrow> 'm list" where
  "observed_addrs L local public observed =
     (let source = (if nl_peer_id L observed = None
                    then nl_collect L (nl_iter L observed @ [P2p (nl_peer_bytes L local)]) else observed)
      in map (\<lambda>(_, port). nl_collect L (map (\<lambda>x. case x of Tcp _ \<Rightarrow> Tcp port | _ \<Rightarrow> x) (nl_iter L source)))
           (List.map_filter (nl_socketaddr L) (take IDENT_MAX_ADDRS public)) @ [source])"

definition process_observed ::
  "('m, 'p, 'n) net_lib \<Rightarrow> 'p \<Rightarrow> ('m, 'p) session \<Rightarrow> 'm option \<Rightarrow> ('m, 'p, 'n, 'm list) ident_op" where
  "process_observed L local ctx observed =
     (case observed of
        None \<Rightarrow> st_return []
      | Some a \<Rightarrow>
          st_seq (info_of (ss_id ctx)) (
          if \<not> globally_reachable L a then st_return []
          else if ss_type ctx = Inbound then st_return []
          else st_gets (\<lambda>(_, s). observed_addrs L local (ns_public_addrs s) a)))"

definition identify_connected ::
  "('m, 'p, 'n) net_lib \<Rightarrow> u64 \<Rightarrow> nat \<Rightarrow> ('m, 'p) session \<Rightarrow> ('m, 'p, 'n, unit) ident_op" where
  "identify_connected L now t ctx =
     st_bind (session_peer L ctx) (\<lambda>p.
     st_seq (on_snd (open_protocol p (protocol_id Identify))) (
     st_seq (st_when (ss_type ctx = Outbound) (on_snd (with_peer_store_mut (add_outbound_addr L now now (ss_addr ctx))))) (
     st_bind (remote_info_new t ctx) (\<lambda>info.
     st_seq (put_info (ss_id ctx) info) (
     st_bind (st_gets snd) (\<lambda>s.
     let listen_addrs = take IDENT_MAX_ADDRS (filter (globally_reachable L) (ns_public_addrs s)) in
     on_snd (net_command (CmdIdentify (ss_id ctx)
       \<lparr>id_chain_id = ns_chain_id s, id_addr_info = Some (map (nl_to_vec L) listen_addrs, nl_to_vec L (ss_addr ctx))\<rparr>))))))))"

definition identify_disconnected :: "('m, 'p, 'n) net_lib \<Rightarrow> u64 \<Rightarrow> ('m, 'p) session \<Rightarrow> ('m, 'p, 'n, unit) ident_op" where
  "identify_disconnected L now ctx =
     st_seq (info_of (ss_id ctx)) (
     st_seq (st_modify (\<lambda>(infos, s). (AList.delete (ss_id ctx) infos, s))) (
     st_bind (session_peer L ctx) (\<lambda>p.
     st_seq (on_snd (close_protocol p (protocol_id Identify))) (
     st_when (ss_type ctx = Outbound) (
       st_bind (st_gets (\<lambda>(_, s). is_addr_banned L (ss_addr ctx) now (ns_store s))) (\<lambda>banned.
       st_when (\<not> banned) (on_snd (with_peer_store_mut (add_outbound_addr L now now (ss_addr ctx)))))))))) "

definition identify_received ::
  "('m, 'p, 'n) net_lib \<Rightarrow> 'p \<Rightarrow> u64 \<Rightarrow> 'm draws \<Rightarrow> ('m, 'p) session \<Rightarrow> identity option \<Rightarrow> ('m, 'p, 'n, unit) ident_op" where
  "identify_received L local now ch ctx decoded =
     (let disconnect = on_snd (net_command (CmdDisconnect (ss_id ctx))) in
      case decoded of
        None \<Rightarrow> st_seq (info_of (ss_id ctx)) disconnect
      | Some msg \<Rightarrow>
          (case id_addr_info msg of
             None \<Rightarrow> disconnect
           | Some (listens, observed) \<Rightarrow>
               st_bind (check_duplicate (ss_id ctx)) (\<lambda>d1. if d1 then disconnect else
               st_bind (on_snd (received_identify ctx (id_chain_id msg))) (\<lambda>d2. if d2 then disconnect else
               st_bind (on_snd (process_listens L now ch ctx (List.map_filter (nl_from_vec L) listens))) (\<lambda>d3. if d3 then disconnect else
               st_seq (process_observed L local ctx (nl_from_vec L observed)) (st_return ()))))))"

definition identify_notify :: "nat \<Rightarrow> ('m, 'p, 'n, unit) ident_op" where
  "identify_notify t =
     st_bind (st_gets fst) (\<lambda>infos.
     st_each (\<lambda>(sid, info).
         st_when (\<not> ri_has_received info \<and> ri_connected_at info + ri_timeout info \<le> t) (on_snd (net_command (CmdDisconnect sid))))
       infos)"

section \<open>Ping\<close>

record ping_status =
  pg_processing :: bool
  pg_last_sent :: nat
  pg_nonce :: u32

record ping_config =
  pc_timeout :: nat
  pc_start :: nat

type_synonym ('m, 'p, 'n) pinger = "(nat \<times> ping_status) list \<times> ('m, 'p, 'n) net_state"

type_synonym ('m, 'p, 'n) ping_op = "(('m, 'p, 'n) pinger, unit) peer_op"

definition ping_nonce :: "nat \<Rightarrow> nat \<Rightarrow> u32" where
  "ping_nonce t start = word_of_nat ((t - start) div 1000)"

definition ping_peers :: "ping_config \<Rightarrow> nat \<Rightarrow> ('m, 'p, 'n) ping_op" where
  "ping_peers cfg t =
     (\<lambda>(ps, s).
        let n = ping_nonce t (pc_start cfg);
            targets = map fst (filter (\<lambda>(_, st). \<not> pg_processing st) ps);
            ps' = map (\<lambda>(sid, st). (sid, if pg_processing st then st
                    else st\<lparr>pg_processing := True, pg_last_sent := t, pg_nonce := n\<rparr>)) ps
        in (if targets = [] then st_return () else on_snd (net_command (CmdPing targets (PingMsg n)))) (ps', s))"

definition ping_connected :: "('m, 'p, 'n) net_lib \<Rightarrow> nat \<Rightarrow> ('m, 'p) session \<Rightarrow> ('m, 'p, 'n) ping_op" where
  "ping_connected L t ctx =
     st_seq (st_modify (\<lambda>(ps, s).
         (case map_of ps (ss_id ctx) of
            None \<Rightarrow> AList.update (ss_id ctx) \<lparr>pg_processing = False, pg_last_sent = t, pg_nonce = 0\<rparr> ps
          | Some _ \<Rightarrow> ps, s))) (
     st_bind (session_peer L ctx) (\<lambda>p. on_snd (open_protocol p (protocol_id Ping))))"

definition ping_disconnected :: "('m, 'p, 'n) net_lib \<Rightarrow> ('m, 'p) session \<Rightarrow> ('m, 'p, 'n) ping_op" where
  "ping_disconnected L ctx =
     st_seq (st_modify (\<lambda>(ps, s). (AList.delete (ss_id ctx) ps, s))) (
     st_bind (session_peer L ctx) (\<lambda>p. on_snd (close_protocol p (protocol_id Ping))))"

definition ping_received :: "('m, 'p) session \<Rightarrow> ping_message option \<Rightarrow> ('m, 'p, 'n) ping_op" where
  "ping_received ctx decoded =
     (case decoded of
        Some (PingMsg n) \<Rightarrow> on_snd (net_command (CmdPing [ss_id ctx] (PongMsg n)))
      | Some (PongMsg n) \<Rightarrow>
          st_bind (st_gets (\<lambda>(ps, _). map_of ps (ss_id ctx))) (\<lambda>found.
          case found of
            None \<Rightarrow> st_return ()
          | Some st \<Rightarrow>
              if pg_processing st \<and> n = pg_nonce st
              then st_modify (\<lambda>(ps, s). (AList.update (ss_id ctx) (st\<lparr>pg_processing := False\<rparr>) ps, s))
              else on_snd (net_command (CmdDisconnect (ss_id ctx))))
      | _ \<Rightarrow> st_return ())"

definition ping_check :: "ping_config \<Rightarrow> nat \<Rightarrow> ('m, 'p, 'n) ping_op" where
  "ping_check cfg t =
     st_bind (st_gets fst) (\<lambda>ps.
     st_each (\<lambda>(sid, st). on_snd (net_command (CmdDisconnect sid)))
       (filter (\<lambda>(_, st). pg_processing st \<and> pc_timeout cfg \<le> t - pg_last_sent st) ps))"

definition ping_notify :: "ping_config \<Rightarrow> nat \<Rightarrow> nat \<Rightarrow> ('m, 'p, 'n) ping_op" where
  "ping_notify cfg token t =
     (if token = 0 then ping_peers cfg t else if token = 1 then ping_check cfg t else st_throw PePanic)"

section \<open>Feeler and transmitter\<close>

definition feeler_connected :: "('m, 'p, 'n) net_lib \<Rightarrow> u64 \<Rightarrow> ('m, 'p) session \<Rightarrow> ('m, 'p, 'n, unit) net_op" where
  "feeler_connected L now ctx =
     st_seq (st_when (ss_type ctx = Outbound) (with_peer_store_mut (add_outbound_addr L now now (ss_addr ctx))))
       (net_command (CmdDisconnect (ss_id ctx)))"

definition feeler_disconnected :: "('m, 'p) session \<Rightarrow> ('m, 'p, 'n, unit) net_op" where
  "feeler_disconnected ctx = with_registry_mut (\<lambda>reg. reg\<lparr>on_feeler := removeAll (ss_addr ctx) (on_feeler reg)\<rparr>)"

definition transmitter_connected :: "('m, 'p, 'n) net_lib \<Rightarrow> ('m, 'p) session \<Rightarrow> ('m, 'p, 'n, unit) net_op" where
  "transmitter_connected L ctx = st_bind (session_peer L ctx) (\<lambda>p. open_protocol p (protocol_id Transmitter))"

definition transmitter_disconnected :: "('m, 'p, 'n) net_lib \<Rightarrow> ('m, 'p) session \<Rightarrow> ('m, 'p, 'n, unit) net_op" where
  "transmitter_disconnected L ctx = st_bind (session_peer L ctx) (\<lambda>p. close_protocol p (protocol_id Transmitter))"

section \<open>The protocols keep the network state sound\<close>

abbreviation net_ok_snd :: "('m, 'p, 'n) net_lib \<Rightarrow> 'x \<times> ('m, 'p, 'n) net_state \<Rightarrow> bool" where
  "net_ok_snd L d \<equiv> net_ok L (snd d)"

lemma on_snd_apply: "on_snd op (x, s) = ((x, fst (op s)), snd (op s))"
  by (simp add: on_snd_def split: prod.split)

lemma preserves_on_snd [inv_intros]: "preserves (net_ok L) op \<Longrightarrow> preserves (net_ok_snd L) (on_snd op)"
  by (auto simp: preserves_def on_snd_apply)

lemma preserves_table [inv_intros]: "preserves (net_ok_snd L) (st_modify (\<lambda>(x, s). (f x s, s)))"
  by (auto simp: preserves_def)

lemma net_ok_session_peer [inv_intros]: "preserves P (session_peer L ctx)"
  unfolding session_peer_def by (intro inv_intros)

lemma net_ok_info [inv_intros]:
  "preserves (net_ok_snd L) (info_of sid)" "preserves (net_ok_snd L) (put_info sid info)" "preserves P (remote_info_new t ctx)"
  unfolding info_of_def put_info_def remote_info_new_def by (intro inv_intros)+

lemma net_ok_check_duplicate [inv_intros]: "preserves (net_ok_snd L) (check_duplicate sid)"
  unfolding check_duplicate_def by (intro inv_intros)

lemma net_ok_listens [inv_intros]:
  "preserves (net_ok L) (received_identify ctx chain_id)" "preserves (net_ok L) (process_listens L now ch ctx listens)"
  unfolding received_identify_def process_listens_def Let_def by (intro inv_intros net_ok_update_peer; simp)+

lemma net_ok_observed [inv_intros]: "preserves (net_ok_snd L) (process_observed L local ctx observed)"
  unfolding process_observed_def by (intro inv_intros)

lemma net_ok_identify [inv_intros]:
  "preserves (net_ok_snd L) (identify_connected L now t ctx)" "preserves (net_ok_snd L) (identify_disconnected L now ctx)"
  "preserves (net_ok_snd L) (identify_received L local now ch ctx decoded)" "preserves (net_ok_snd L) (identify_notify t)"
  unfolding identify_connected_def identify_disconnected_def identify_received_def identify_notify_def Let_def
  by (intro inv_intros store_intros; auto intro!: inv_intros store_intros split: prod.split)+

lemma net_ok_ping [inv_intros]:
  "preserves (net_ok_snd L) (ping_connected L t ctx)" "preserves (net_ok_snd L) (ping_disconnected L ctx)"
  "preserves (net_ok_snd L) (ping_received ctx decoded)" "preserves (net_ok_snd L) (ping_notify cfg token t)"
proof -
  show "preserves (net_ok_snd L) (ping_connected L t ctx)" "preserves (net_ok_snd L) (ping_disconnected L ctx)"
    unfolding ping_connected_def ping_disconnected_def by (intro inv_intros)+
  show "preserves (net_ok_snd L) (ping_received ctx decoded)"
    unfolding ping_received_def by (cases decoded; (cases "the decoded")?) (auto intro!: inv_intros split: option.split)
  have "preserves (net_ok_snd L) (ping_peers cfg t)"
    using preservesD [OF net_ok_command] by (auto simp: preserves_def ping_peers_def Let_def on_snd_apply net_command_def net_ok_def)
  moreover have "preserves (net_ok_snd L) (ping_check cfg t)"
    unfolding ping_check_def by (intro inv_intros) (auto intro!: inv_intros split: prod.split)
  ultimately show "preserves (net_ok_snd L) (ping_notify cfg token t)"
    unfolding ping_notify_def by (intro inv_intros)
qed

lemma net_ok_feeler [inv_intros]:
  "preserves (net_ok L) (feeler_connected L now ctx)" "preserves (net_ok L) (feeler_disconnected ctx)"
  "preserves (net_ok L) (transmitter_connected L ctx)" "preserves (net_ok L) (transmitter_disconnected L ctx)"
  unfolding feeler_connected_def feeler_disconnected_def transmitter_connected_def transmitter_disconnected_def
  by (intro inv_intros store_intros net_ok_registry; auto)+

section \<open>Peers that are not identified\<close>

text \<open>
  What an identify message must satisfy before it has an effect: if the session has already
  sent one, if it names another chain, or if it lists more than ten addresses, the session is
  disconnected, and neither the peer store nor the registered peers change.
\<close>

theorem unidentified_peer_rejected:
  assumes "map_of infos (ss_id ctx) = Some info" and "id_addr_info msg = Some (listens, observed)"
    and "ri_has_received info \<or> id_chain_id msg \<noteq> ns_chain_id s \<or> IDENT_MAX_ADDRS < length (List.map_filter (nl_from_vec L) listens)"
  shows "\<exists>infos' s' cs. identify_received L local now ch ctx (Some msg) (infos, s) = ((infos', s'), Inr ()) \<and>
    ns_store s' = ns_store s \<and> ns_online s' = ns_online s \<and> ns_commands s' = ns_commands s @ cs @ [CmdDisconnect (ss_id ctx)]"
proof (cases "ri_has_received info")
  case True
  then show ?thesis
    using assms(1,2)
    by (intro exI [of _ infos] exI [of _ "s\<lparr>ns_commands := ns_commands s @ [CmdDisconnect (ss_id ctx)]\<rparr>"] exI [of _ "[]"])
      (simp add: identify_received_def Let_def check_duplicate_def info_of_def st_bind_apply st_seq_apply on_snd_apply net_command_def ok_or_def)
next
  case False
  let ?infos = "AList.update (ss_id ctx) (info\<lparr>ri_has_received := True\<rparr>) infos"
  have dup: "check_duplicate (ss_id ctx) (infos, s) = ((?infos, s), Inr False)"
    using assms(1) False by (simp add: check_duplicate_def info_of_def put_info_def st_bind_apply st_seq_apply ok_or_def)
  show ?thesis
  proof (cases "id_chain_id msg = ns_chain_id s")
    case same: False
    then show ?thesis
      using assms(2)
      by (intro exI [of _ ?infos] exI [of _ "s\<lparr>ns_commands := ns_commands s @ [CmdDisconnect (ss_id ctx)]\<rparr>"] exI [of _ "[]"])
        (simp add: identify_received_def Let_def dup st_bind_apply on_snd_apply net_command_def received_identify_def)
  next
    case same: True
    then have many: "IDENT_MAX_ADDRS < length (List.map_filter (nl_from_vec L) listens)" using assms(3) False by simp
    obtain cs where id: "received_identify ctx (id_chain_id msg) s = (s\<lparr>ns_commands := ns_commands s @ cs\<rparr>, Inr False)"
    proof (cases "ss_type ctx = Outbound")
      case True
      let ?cs = "[CmdOpen (ss_id ctx) (if ss_addr ctx \<in> set (on_feeler (ns_online s)) then [protocol_id Feeler]
          else map protocol_id [Ping, Identify, Discovery, Transmitter])]"
      show ?thesis
        by (rule that [of ?cs]) (simp add: received_identify_def st_bind_apply st_seq_apply st_when_def net_command_def same True)
    next
      case False
      then show ?thesis using same that [of "[]"] by (simp add: received_identify_def st_bind_apply st_seq_apply st_when_def)
    qed
    show ?thesis
      using assms(2) many
      by (intro exI [of _ ?infos] exI [of _ "s\<lparr>ns_commands := ns_commands s @ cs @ [CmdDisconnect (ss_id ctx)]\<rparr>"] exI [of _ cs])
        (simp add: identify_received_def Let_def dup id st_bind_apply on_snd_apply net_command_def process_listens_def)
  qed
qed

theorem unidentified_peer_rejected_witness:
  "\<exists>infos' s' cs. identify_received sample_net 1 1000 sample_draws (sample_session 1 (7, 80, 5))
       (Some \<lparr>id_chain_id = ''other'', id_addr_info = Some ([], [])\<rparr>)
       ([(1, \<lparr>ri_connected_at = 0, ri_timeout = 8000, ri_has_received = False\<rparr>)], sample_state) = ((infos', s'), Inr ()) \<and>
     ns_commands s' = cs @ [CmdDisconnect 1]"
proof -
  let ?ctx = "sample_session 1 (7, 80, 5)" and ?info = "\<lparr>ri_connected_at = 0, ri_timeout = 8000, ri_has_received = False\<rparr>"
    and ?msg = "\<lparr>id_chain_id = ''other'', id_addr_info = Some ([], [])\<rparr>"
  have "map_of [(1, ?info)] (ss_id ?ctx) = Some ?info" "id_addr_info ?msg = Some ([], [])" "id_chain_id ?msg \<noteq> ns_chain_id sample_state"
    by (simp_all add: sample_session_def sample_state_def)
  from unidentified_peer_rejected [OF this(1,2) disjI2 [OF disjI1 [OF this(3)]], of sample_net 1 1000 sample_draws] show ?thesis
    by (auto simp: sample_session_def sample_state_def)
qed

section \<open>Silent peers\<close>

datatype ('m, 'p) ping_event =
    PgConnected nat "('m, 'p) session"
  | PgDisconnected "('m, 'p) session"
  | PgReceived "('m, 'p) session" "ping_message option"
  | PgNotify nat nat

definition ping_exec :: "('m, 'p, 'n) net_lib \<Rightarrow> ping_config \<Rightarrow> ('m, 'p) ping_event \<Rightarrow> ('m, 'p, 'n) ping_op" where
  "ping_exec L cfg ev =
     (case ev of
        PgConnected t ctx \<Rightarrow> ping_connected L t ctx
      | PgDisconnected ctx \<Rightarrow> ping_disconnected L ctx
      | PgReceived ctx decoded \<Rightarrow> ping_received ctx decoded
      | PgNotify token t \<Rightarrow> ping_notify cfg token t)"

text \<open>The events with which a session answers a ping of the nonce \<open>n\<close> or ends.\<close>

definition answers :: "nat \<Rightarrow> u32 \<Rightarrow> ('m, 'p) ping_event \<Rightarrow> bool" where
  "answers sid n ev =
     (case ev of
        PgDisconnected ctx \<Rightarrow> ss_id ctx = sid
      | PgReceived ctx (Some (PongMsg m)) \<Rightarrow> ss_id ctx = sid \<and> m = n
      | _ \<Rightarrow> False)"

lemma ping_check_table: "fst (fst (ping_check cfg t d)) = fst (d :: ('m, 'p, 'n) pinger)"
proof -
  have "keeps fst (ping_check cfg t :: ('m, 'p, 'n) ping_op)"
    unfolding ping_check_def by (intro frame_intros) (auto simp: keeps_def on_snd_apply)
  then show ?thesis unfolding keeps_def by blast
qed

lemma waiting_stays:
  assumes "map_of (fst d) sid = Some st" and "pg_processing st" and "\<not> answers sid (pg_nonce st) ev"
  shows "map_of (fst (fst (ping_exec L cfg ev d))) sid = Some st"
proof -
  obtain ps s where d: "d = (ps, s)" by (cases d)
  have st: "map_of ps sid = Some st" using assms(1) d by simp
  have open_close: "fst (fst (st_bind (session_peer L ctx) (\<lambda>p. on_snd (f p)) (ps', s))) = ps'" for ps' f ctx
    by (cases "nl_peer_id L (ss_addr ctx)") (simp_all add: session_peer_def st_bind_apply on_snd_apply ok_or_def)
  show ?thesis
  proof (cases ev)
    case (PgConnected t ctx)
    then show ?thesis
      using st by (auto simp: open_close ping_exec_def ping_connected_def st_seq_apply d split: option.splits)
  next
    case (PgDisconnected ctx)
    then show ?thesis
      using st assms(3) by (simp add: open_close ping_exec_def ping_disconnected_def st_seq_apply d answers_def)
  next
    case (PgReceived ctx decoded)
    then show ?thesis
      using st assms(2,3)
      by (cases decoded; (cases "the decoded")?)
        (auto simp: ping_exec_def ping_received_def answers_def d st_bind_apply on_snd_apply split: option.split)
  next
    case (PgNotify token t)
    have "fst (fst (ping_peers cfg t d)) = map (\<lambda>(sid, st). (sid, if pg_processing st then st
        else st\<lparr>pg_processing := True, pg_last_sent := t, pg_nonce := ping_nonce t (pc_start cfg)\<rparr>)) ps"
      by (simp add: ping_peers_def d Let_def on_snd_apply)
    then have "map_of (fst (fst (ping_peers cfg t d))) sid = Some st" using st assms(2) by (simp add: map_of_map)
    then show ?thesis using PgNotify st by (simp add: ping_exec_def ping_notify_def ping_check_table d)
  qed
qed

lemma check_disconnects:
  assumes "map_of (fst d) sid = Some st" and "pg_processing st" and "pc_timeout cfg \<le> t - pg_last_sent st"
  shows "CmdDisconnect sid \<in> set (ns_commands (snd (fst (ping_notify cfg 1 t d))))"
proof -
  have each: "ns_commands (snd (fst (st_each (\<lambda>(sid, st). on_snd (net_command (CmdDisconnect sid))) xs (ps, s)))) =
      ns_commands s @ map (\<lambda>x. CmdDisconnect (fst x)) xs" for xs :: "(nat \<times> ping_status) list" and ps s
    by (induction xs arbitrary: s) (auto simp: st_seq_apply on_snd_apply net_command_def)
  obtain ps s where d: "d = (ps, s)" by (cases d)
  have "(sid, st) \<in> set ps" using assms(1) d by (simp add: map_of_SomeD)
  then show ?thesis using assms(2,3) by (force simp: each ping_notify_def ping_check_def st_bind_apply d)
qed

text \<open>
  Property C30. A silent peer does not stay connected: after a round of pings, whatever else happens, a
  session that neither sends back the nonce of its ping nor ends is told to disconnect by the
  first check that comes at least the timeout after that round.
\<close>

theorem silent_peer_disconnected:
  assumes "map_of (fst d) sid = Some st" and "pg_last_sent st \<le> t0"
    and "d1 = fst (ping_notify cfg 0 t0 d)" and "map_of (fst d1) sid = Some st1"
    and "\<forall>ev\<in>set evs. \<not> answers sid (pg_nonce st1) ev" and "t0 + pc_timeout cfg \<le> t"
  shows "CmdDisconnect sid \<in>
    set (ns_commands (snd (fst (ping_notify cfg 1 t (foldl (\<lambda>d ev. fst (ping_exec L cfg ev d)) d1 evs)))))"
proof -
  obtain ps s where d: "d = (ps, s)" by (cases d)
  have "fst d1 = map (\<lambda>(sid, st). (sid, if pg_processing st then st
      else st\<lparr>pg_processing := True, pg_last_sent := t0, pg_nonce := ping_nonce t0 (pc_start cfg)\<rparr>)) ps"
    by (simp add: assms(3) ping_notify_def ping_peers_def d Let_def on_snd_apply)
  then have "st1 = (if pg_processing st then st
      else st\<lparr>pg_processing := True, pg_last_sent := t0, pg_nonce := ping_nonce t0 (pc_start cfg)\<rparr>)"
    using assms(1,4) d by (simp add: map_of_map)
  then have st1: "pg_processing st1" "pg_last_sent st1 \<le> t0" using assms(2) by auto
  have "map_of (fst (foldl (\<lambda>d ev. fst (ping_exec L cfg ev d)) d' evs)) sid = Some st1"
    if "map_of (fst d') sid = Some st1" for d'
    using assms(5) that
  proof (induction evs arbitrary: d')
    case (Cons ev evs)
    then show ?case using waiting_stays [OF _ st1(1), of d' sid ev L cfg] by simp
  qed simp
  from check_disconnects [OF this [OF assms(4)] st1(1), of cfg t] st1(2) assms(6) show ?thesis by simp
qed

theorem silent_peer_disconnected_witness:
  "CmdDisconnect 1 \<in> set (ns_commands (snd (fst (ping_notify \<lparr>pc_timeout = 500, pc_start = 0\<rparr> 1 3000
     (foldl (\<lambda>d ev. fst (ping_exec sample_net \<lparr>pc_timeout = 500, pc_start = 0\<rparr> ev d))
       (fst (ping_notify \<lparr>pc_timeout = 500, pc_start = 0\<rparr> 0 2000
          ([(1, \<lparr>pg_processing = False, pg_last_sent = 1000, pg_nonce = 0\<rparr>)], sample_state)))
       [PgReceived (sample_session 1 (7, 80, 5)) (Some (PingMsg 9)), PgNotify 0 2500])))))"
proof -
  let ?cfg = "\<lparr>pc_timeout = 500, pc_start = 0\<rparr>" and ?st = "\<lparr>pg_processing = False, pg_last_sent = 1000, pg_nonce = 0\<rparr>"
  let ?st1 = "\<lparr>pg_processing = True, pg_last_sent = 2000, pg_nonce = 2\<rparr>"
  have "map_of (fst (fst (ping_notify ?cfg 0 2000 ([(1, ?st)], sample_state)))) 1 = Some ?st1"
    by (simp add: ping_notify_def ping_peers_def ping_nonce_def on_snd_apply)
  from silent_peer_disconnected [of "([(1, ?st)], sample_state)" 1 ?st 2000, OF _ _ refl this,
      of "[PgReceived (sample_session 1 (7, 80, 5)) (Some (PingMsg 9)), PgNotify 0 2500]" 3000 sample_net]
  show ?thesis by (simp add: answers_def)
qed

end
