(* ===== verification/Net_Router.thy ===== *)
theory Net_Router
  imports Net_Protocols
begin

text \<open>
  Messages between nodes: the table of open calls (\<open>reactor/rpc_map.rs\<close>), the router and its reactors
  (\<open>reactor/router.rs\<close>, \<open>reactor/mod.rs\<close>), gossip and remote calls (\<open>outbound\<close>) and the registration of handlers
  (\<open>service.rs\<close>). The encoding of messages on the wire, the codecs of their bodies and the text of a trace
  identifier come from libraries or other components and are parameters. What a handler does with a message is
  not modelled: routing ends with its delivery. A oneshot channel is a number; its content is in the
  state once it has been sent. The connected address that a context carries for log messages is left out.

  The properties: a remote call returns what the other side answers, only the session
  that was called can answer, and which headers of a remote message make the router panic.
\<close>

section \<open>Open calls\<close>

record rpc_map =
  rm_next_id :: u64
  rm_map :: "((nat \<times> u64) \<times> nat) list"
  rm_fresh :: nat
  rm_sent :: "(nat \<times> rpc_response) list"

definition rpc_map_new :: rpc_map where
  "rpc_map_new = \<lparr>rm_next_id = 0, rm_map = [], rm_fresh = 0, rm_sent = []\<rparr>"

type_synonym 'a rpc_op = "(rpc_map, net_error, 'a) st"

definition next_rpc_id :: "u64 rpc_op" where
  "next_rpc_id = (\<lambda>r. (r\<lparr>rm_next_id := rm_next_id r + 1\<rparr>, Inr (rm_next_id r)))"

definition rpc_insert :: "nat \<Rightarrow> u64 \<Rightarrow> nat rpc_op" where
  "rpc_insert sid rid =
     (\<lambda>r. (r\<lparr>rm_map := AList.update (sid, rid) (rm_fresh r) (rm_map r), rm_fresh := rm_fresh r + 1\<rparr>, Inr (rm_fresh r)))"

definition rpc_contains :: "nat \<Rightarrow> u64 \<Rightarrow> rpc_map \<Rightarrow> bool" where
  "rpc_contains sid rid r \<longleftrightarrow> map_of (rm_map r) (sid, rid) \<noteq> None"

definition rpc_take :: "nat \<Rightarrow> u64 \<Rightarrow> nat rpc_op" where
  "rpc_take sid rid =
     (\<lambda>r. case map_of (rm_map r) (sid, rid) of
            None \<Rightarrow> (r, Inl (UnknownRpc sid rid))
          | Some ch \<Rightarrow> (r\<lparr>rm_map := AList.delete (sid, rid) (rm_map r)\<rparr>, Inr ch))"

section \<open>Router\<close>

record 'p net_ctx =
  cx_session_id :: "nat option"
  cx_remote_peer :: "'p option"
  cx_rpc_id :: "u64 option"
  cx_span :: "((u64 \<times> u64) \<times> u64) option"

definition net_ctx_new :: "'p net_ctx" where
  "net_ctx_new = \<lparr>cx_session_id = None, cx_remote_peer = None, cx_rpc_id = None, cx_span = None\<rparr>"

text \<open>A reactor is the codec of its messages; \<open>None\<close> is the reactor of responses, whose handler does nothing.\<close>

type_synonym 'b reactor = "(bytes \<Rightarrow> 'b option) option"

datatype ('p, 'b) delivery = Handled "'p net_ctx" 'b | Noop | Answered nat | Stale

definition decode_body :: "'b reactor \<Rightarrow> 'p net_ctx \<Rightarrow> bytes \<Rightarrow> net_error + ('p, 'b) delivery" where
  "decode_body rx ctx content =
     (case rx of
        None \<Rightarrow> Inr Noop
      | Some dec \<Rightarrow> (case dec content of None \<Rightarrow> Inl CodecError | Some b \<Rightarrow> Inr (Handled ctx b)))"

definition react :: "'b reactor \<Rightarrow> nat \<Rightarrow> 'p \<Rightarrow> endpoint \<Rightarrow> network_message \<Rightarrow> ('p, 'b) delivery rpc_op" where
  "react rx sid peer e m =
     (let ctx = net_ctx_new\<lparr>cx_session_id := Some sid, cx_remote_peer := Some peer\<rparr> in
      st_bind (st_lift (message_trace_id m)) (\<lambda>trace.
      st_bind (st_lift (message_span_id m)) (\<lambda>span.
      let ctx' = (case (trace, span) of (Some t, Some s) \<Rightarrow> ctx\<lparr>cx_span := Some (t, s)\<rparr> | _ \<Rightarrow> ctx) in
      st_bind (st_lift (endpoint_scheme e)) (\<lambda>sc.
      case sc of
        GossipScheme \<Rightarrow> st_lift (decode_body rx ctx' (nm_content m))
      | RpcCallScheme \<Rightarrow>
          st_bind (st_lift (decode_body rx ctx' (nm_content m))) (\<lambda>d.
          st_bind (st_lift (rpc_endpoint_try_from e)) (\<lambda>(_, rid).
          st_return (case d of Handled c b \<Rightarrow> Handled (c\<lparr>cx_rpc_id := Some rid\<rparr>) b | _ \<Rightarrow> d)))
      | RpcResponseScheme \<Rightarrow>
          let content = rpc_response_decode (nm_content m) in
          st_bind (st_lift (rpc_endpoint_try_from e)) (\<lambda>(_, rid).
          st_bind (st_gets (rpc_contains sid rid)) (\<lambda>known.
          if \<not> known then st_return Stale
          else
            st_bind (rpc_take sid rid) (\<lambda>ch.
            st_seq (st_modify (\<lambda>r. r\<lparr>rm_sent := AList.update ch content (rm_sent r)\<rparr>))
              (st_return (Answered ch)))))))))"

type_synonym 'b reactor_map = "(string \<times> 'b reactor) list"

definition register_reactor :: "endpoint \<Rightarrow> 'b reactor \<Rightarrow> 'b reactor_map \<Rightarrow> net_error + 'b reactor_map" where
  "register_reactor e rx rs = res_bind (endpoint_root e) (\<lambda>root. Inr (AList.update root rx rs))"

definition register_endpoint_handler :: "string \<Rightarrow> (bytes \<Rightarrow> 'b option) \<Rightarrow> 'b reactor_map \<Rightarrow> net_error + 'b reactor_map" where
  "register_endpoint_handler url dec rs =
     res_bind (endpoint_parse url) (\<lambda>e.
     res_bind (endpoint_scheme e) (\<lambda>sc.
     if sc = RpcResponseScheme then Inl (UnexpectedScheme ''use register_rpc_response() instead'')
     else register_reactor e (Some dec) rs))"

definition register_rpc_response :: "string \<Rightarrow> 'b reactor_map \<Rightarrow> net_error + 'b reactor_map" where
  "register_rpc_response url rs =
     res_bind (endpoint_parse url) (\<lambda>e.
     res_bind (endpoint_scheme e) (\<lambda>sc.
     if sc \<noteq> RpcResponseScheme then Inl (UnexpectedScheme url) else register_reactor e None rs))"

definition route_message ::
  "(bytes \<Rightarrow> network_message option) \<Rightarrow> 'b reactor_map \<Rightarrow> nat \<Rightarrow> 'p \<Rightarrow> bytes \<Rightarrow> ('p, 'b) delivery rpc_op" where
  "route_message dec rs sid peer data =
     st_bind (st_lift (ok_or BadMessage (dec data))) (\<lambda>m.
     st_bind (st_lift (endpoint_parse (nm_url m))) (\<lambda>e.
     st_bind (st_lift (endpoint_root e)) (\<lambda>root.
     st_bind (st_lift (ok_or (NoReactor root) (map_of rs root))) (\<lambda>rx.
     react rx sid peer e m))))"

text \<open>\<open>TransmitterProtocol::received\<close>: a session without a public key panics, and the error of a route is logged.\<close>

definition transmitter_received ::
  "(bytes \<Rightarrow> network_message option) \<Rightarrow> 'b reactor_map \<Rightarrow> ('m, 'p) session \<Rightarrow> bytes \<Rightarrow> ('p, 'b) delivery rpc_op" where
  "transmitter_received dec rs ctx data =
     st_bind (st_lift (ok_or NetPanic (ss_remote_peer ctx))) (\<lambda>peer. route_message dec rs (ss_id ctx) peer data)"

section \<open>Outbound messages\<close>

record wire =
  w_encode :: "network_message \<Rightarrow> bytes option"
  w_decode :: "bytes \<Rightarrow> network_message option"
  w_show_trace :: "u64 \<times> u64 \<Rightarrow> string"

type_synonym ('m, 'p, 'n, 'a) out_op = "(rpc_map \<times> ('m, 'p, 'n) net_state, net_error, 'a) st"

definition on_fst :: "('s, 'e, 'a) st \<Rightarrow> ('s \<times> 'x, 'e, 'a) st" where
  "on_fst op = (\<lambda>(s, x). let (s', r) = op s in ((s', x), r))"

definition panicking :: "('s, 'a) peer_op \<Rightarrow> ('s, net_error, 'a) st" where
  "panicking op = (\<lambda>s. let (s', r) = op s in (s', case r of Inl _ \<Rightarrow> Inl NetPanic | Inr x \<Rightarrow> Inr x))"

definition message_headers :: "wire \<Rightarrow> 'p net_ctx \<Rightarrow> (string \<times> bytes) list" where
  "message_headers W cx =
     (case cx_span cx of None \<Rightarrow> [] | Some (t, s) \<Rightarrow> set_span_id s (set_trace_id (w_show_trace W) t []))"

definition package_message :: "wire \<Rightarrow> 'p net_ctx \<Rightarrow> string \<Rightarrow> bytes option \<Rightarrow> net_error + bytes" where
  "package_message W cx url body =
     res_bind (endpoint_parse url) (\<lambda>e.
     res_bind (ok_or CodecError body) (\<lambda>data.
     ok_or BadMessage (w_encode W (network_message_new e data (message_headers W cx)))))"

definition send_to_peers :: "('m, 'p, 'n) net_lib \<Rightarrow> u64 \<Rightarrow> bytes list \<Rightarrow> bytes \<Rightarrow> (('m, 'p, 'n) net_state, net_error, unit) st" where
  "send_to_peers L now ids data =
     st_bind (st_lift (res_map (\<lambda>bs. ok_or InvalidPeerId (nl_peer_from_bytes L bs)) ids)) (\<lambda>pids.
     st_bind (panicking (peers L now pids)) (\<lambda>(connected, unconnected).
     st_seq (st_each (\<lambda>a. panicking (net_command (CmdDial a (protocol_id Identify)))) unconnected)
       (panicking (net_command (CmdData (Some connected) data)))))"

definition gossip_broadcast :: "wire \<Rightarrow> 'p net_ctx \<Rightarrow> string \<Rightarrow> bytes option \<Rightarrow> (('m, 'p, 'n) net_state, net_error, unit) st" where
  "gossip_broadcast W cx url body =
     st_bind (st_lift (package_message W cx url body)) (\<lambda>msg. panicking (net_command (CmdData None msg)))"

definition gossip_multicast ::
  "('m, 'p, 'n) net_lib \<Rightarrow> wire \<Rightarrow> u64 \<Rightarrow> 'p net_ctx \<Rightarrow> string \<Rightarrow> bytes list \<Rightarrow> bytes option \<Rightarrow> (('m, 'p, 'n) net_state, net_error, unit) st" where
  "gossip_multicast L W now cx url ids body =
     st_bind (st_lift (package_message W cx url body)) (\<lambda>msg. send_to_peers L now ids msg)"

text \<open>The entry of a call is removed when its guard is dropped, also by an early return.\<close>

definition drop_guard :: "nat \<Rightarrow> u64 \<Rightarrow> rpc_map \<Rightarrow> rpc_map" where
  "drop_guard sid rid r = fst (rpc_take sid rid r)"

definition guarded :: "nat \<Rightarrow> u64 \<Rightarrow> ('m, 'p, 'n, 'a) out_op \<Rightarrow> ('m, 'p, 'n, 'a) out_op" where
  "guarded sid rid op =
     (\<lambda>d. case op d of ((r, s), Inl e) \<Rightarrow> ((drop_guard sid rid r, s), Inl e) | x \<Rightarrow> x)"

text \<open>\<open>call\<close> up to the point where it waits, and from there on; \<open>call_finish\<close> runs when the channel is ready or the timeout is over.\<close>

definition call_start :: "wire \<Rightarrow> 'p net_ctx \<Rightarrow> string \<Rightarrow> bytes option \<Rightarrow> ('m, 'p, 'n, nat \<times> u64 \<times> nat) out_op" where
  "call_start W cx url body =
     st_bind (st_lift (endpoint_parse url)) (\<lambda>e.
     st_bind (st_lift (ok_or NoSessionId (cx_session_id cx))) (\<lambda>sid.
     st_bind (on_fst next_rpc_id) (\<lambda>rid.
     st_bind (on_fst (rpc_insert sid rid)) (\<lambda>ch.
     guarded sid rid (
       st_bind (st_lift (ok_or CodecError body)) (\<lambda>data.
       st_bind (st_lift (endpoint_extend e (to_dec (unat rid)))) (\<lambda>e'.
       st_bind (st_lift (endpoint_root e')) (\<lambda>_.
       st_bind (st_lift (ok_or BadMessage (w_encode W (network_message_new e' data (message_headers W cx))))) (\<lambda>msg.
       st_seq (on_snd (panicking (net_command (CmdData (Some [sid]) msg))))
         (st_return (sid, rid, ch)))))))))))"

definition call_finish :: "(bytes \<Rightarrow> 'b option) \<Rightarrow> nat \<times> u64 \<times> nat \<Rightarrow> ('m, 'p, 'n, 'b) out_op" where
  "call_finish dec = (\<lambda>(sid, rid, ch) (r, s).
     ((drop_guard sid rid r, s),
      case map_of (rm_sent r) ch of
        Some (RpcSuccess v) \<Rightarrow> ok_or CodecError (dec v)
      | Some (RpcError e) \<Rightarrow> Inl (RemoteResponse e)
      | None \<Rightarrow> if ch \<in> snd ` set (rm_map r) then Inl RpcTimeout else Inl RpcDropped))"

text \<open>\<open>response\<close>: the result is the encoded body, or the text of the error to report.\<close>

definition rpc_respond :: "wire \<Rightarrow> 'p net_ctx \<Rightarrow> string \<Rightarrow> string + bytes option \<Rightarrow> ('m, 'p, 'n, unit) out_op" where
  "rpc_respond W cx url ret =
     st_bind (st_lift (endpoint_parse url)) (\<lambda>e.
     st_bind (st_lift (ok_or NoSessionId (cx_session_id cx))) (\<lambda>sid.
     st_bind (st_lift (ok_or NoRpcId (cx_rpc_id cx))) (\<lambda>rid.
     st_bind (st_lift (case ret of Inl msg \<Rightarrow> Inr (RpcError msg) | Inr body \<Rightarrow> res_bind (ok_or CodecError body) (\<lambda>b. Inr (RpcSuccess b)))) (\<lambda>resp.
     st_bind (st_lift (endpoint_extend e (to_dec (unat rid)))) (\<lambda>e'.
     st_bind (st_lift (endpoint_root e')) (\<lambda>_.
     st_bind (st_lift (ok_or BadMessage (w_encode W (network_message_new e' (rpc_response_encode resp) (message_headers W cx))))) (\<lambda>msg.
     on_snd (panicking (net_command (CmdData (Some [sid]) msg))))))))))"

section \<open>A call and its answer\<close>

text \<open>
  What the libraries promise: a message that has been encoded decodes to itself, encoding into a growing buffer does
  not fail, and the text of a trace identifier is read back.
\<close>

definition wire_ok :: "wire \<Rightarrow> bool" where
  "wire_ok W \<longleftrightarrow> (\<forall>m. \<exists>bs. w_encode W m = Some bs \<and> w_decode W bs = Some m) \<and>
     (\<forall>t. from_utf8 (bytes_of_string (w_show_trace W t)) = Some (w_show_trace W t) \<and> str_to_trace (w_show_trace W t) = Some (Some t))"

lemma to_dec_length: "n < 10 ^ Suc k \<Longrightarrow> length (to_dec n) \<le> Suc k"
proof (induction k arbitrary: n)
  case 0
  then show ?case by (simp add: to_dec.simps)
next
  case (Suc k)
  show ?case
  proof (cases "n < 10")
    case False
    have "n div 10 < 10 ^ Suc k" using Suc.prems by (simp add: less_mult_imp_div_less mult.commute)
    then show ?thesis using Suc.IH [of "n div 10"] False by (subst to_dec.simps) simp
  qed (simp add: to_dec.simps)
qed

lemma rpc_id_length: "length (to_dec (unat (rid :: u64))) \<le> 20"
proof -
  have "unat rid < 10 ^ Suc 19" using unat_bound [of rid] by simp
  then show ?thesis using to_dec_length [of "unat rid" 19] by simp
qed

lemma headers_read:
  assumes "wire_ok W" and "nm_headers m = message_headers W cx"
  shows "message_trace_id m = Inr (map_option fst (cx_span cx))" and "message_span_id m = Inr (map_option snd (cx_span cx))"
  using assms
  by (cases "cx_span cx";
      auto simp: message_headers_def set_trace_id_def set_span_id_def message_trace_id_def message_span_id_def wire_ok_def
        be_bytes_roundtrip split: option.splits)+

text \<open>An endpoint without an identifier, short enough for every identifier.\<close>

definition base_endpoint :: "string \<Rightarrow> url_scheme \<Rightarrow> string \<Rightarrow> bool" where
  "base_endpoint url sc root \<longleftrightarrow> length (url_comps url) = 3 \<and> length url \<le> 99 \<and>
     endpoint_parse url = Inr (Endpoint url) \<and> endpoint_scheme (Endpoint url) = Inr sc \<and> endpoint_root (Endpoint url) = Inr root"

lemma base_endpoint_extend:
  assumes "base_endpoint url sc root"
  shows "\<exists>e. endpoint_extend (Endpoint url) (to_dec (unat rid)) = Inr e \<and> endpoint_parse (full_url e) = Inr e \<and>
    rpc_endpoint_try_from e = Inr (e, rid) \<and> endpoint_scheme e = Inr sc \<and> endpoint_root e = Inr root"
proof -
  have "length url + 1 + length (to_dec (unat rid)) \<le> 120" using assms rpc_id_length [of rid] by (simp add: base_endpoint_def)
  then show ?thesis using assms extended_endpoint [of url "Endpoint url" rid] by (auto simp: base_endpoint_def)
qed

lemma call_start_ok:
  assumes W: "wire_ok W" and e: "base_endpoint url sc root" and sid: "cx_session_id cx = Some sid"
  shows "\<exists>e' msg. call_start W cx url (Some body) (r, s) =
      ((r\<lparr>rm_next_id := rm_next_id r + 1, rm_map := AList.update (sid, rm_next_id r) (rm_fresh r) (rm_map r), rm_fresh := rm_fresh r + 1\<rparr>,
        s\<lparr>ns_commands := ns_commands s @ [CmdData (Some [sid]) msg]\<rparr>), Inr (sid, rm_next_id r, rm_fresh r)) \<and>
    endpoint_extend (Endpoint url) (to_dec (unat (rm_next_id r))) = Inr e' \<and>
    w_decode W msg = Some (network_message_new e' body (message_headers W cx))"
proof -
  obtain e' where e': "endpoint_extend (Endpoint url) (to_dec (unat (rm_next_id r))) = Inr e'" "endpoint_root e' = Inr root"
    using base_endpoint_extend [OF e] by blast
  obtain msg where "w_encode W (network_message_new e' body (message_headers W cx)) = Some msg"
    "w_decode W msg = Some (network_message_new e' body (message_headers W cx))"
    using W unfolding wire_ok_def by meson
  then show ?thesis
    using e sid e'
    by (intro exI [of _ e'] exI [of _ msg])
      (simp add: call_start_def base_endpoint_def st_bind_apply st_seq_apply on_fst_def next_rpc_id_def rpc_insert_def guarded_def
        on_snd_apply panicking_def net_command_def ok_or_def)
qed

lemma route_ok:
  assumes "dec data = Some m" and "endpoint_parse (nm_url m) = Inr e" and "endpoint_root e = Inr root" and "map_of rs root = Some rx"
  shows "route_message dec rs sid peer data r = react rx sid peer e m r"
  using assms by (simp add: route_message_def st_bind_apply ok_or_def)

lemma react_call:
  assumes "wire_ok W" and "nm_headers m = message_headers W cx" and "endpoint_scheme e = Inr RpcCallScheme"
    and "rpc_endpoint_try_from e = Inr (e, rid)" and "dec (nm_content m) = Some q"
  shows "react (Some dec) sid peer e m r = (r, Inr (Handled
    \<lparr>cx_session_id = Some sid, cx_remote_peer = Some peer, cx_rpc_id = Some rid, cx_span = cx_span cx\<rparr> q))"
  using assms(3-5)
  by (cases "cx_span cx")
    (simp_all add: react_def headers_read [OF assms(1,2)] decode_body_def st_bind_apply net_ctx_new_def Let_def)

lemma react_response:
  assumes "wire_ok W" and "nm_headers m = message_headers W cx" and "endpoint_scheme e = Inr RpcResponseScheme"
    and "rpc_endpoint_try_from e = Inr (e, rid)" and "map_of (rm_map r) (sid, rid) = Some ch"
  shows "react rx sid peer e m r = (r\<lparr>rm_map := AList.delete (sid, rid) (rm_map r),
      rm_sent := AList.update ch (rpc_response_decode (nm_content m)) (rm_sent r)\<rparr>, Inr (Answered ch))"
  using assms(3-5)
  by (simp add: react_def headers_read [OF assms(1,2)] st_bind_apply st_seq_apply rpc_contains_def rpc_take_def Let_def)

lemma respond_ok:
  assumes W: "wire_ok W" and e: "base_endpoint url sc root" and "cx_session_id cx = Some sid" and "cx_rpc_id cx = Some rid"
  shows "\<exists>e' msg. rpc_respond W cx url (Inr (Some answer)) (r, s) =
      ((r, s\<lparr>ns_commands := ns_commands s @ [CmdData (Some [sid]) msg]\<rparr>), Inr ()) \<and>
    endpoint_extend (Endpoint url) (to_dec (unat rid)) = Inr e' \<and>
    w_decode W msg = Some (network_message_new e' (rpc_response_encode (RpcSuccess answer)) (message_headers W cx))"
proof -
  obtain e' where e': "endpoint_extend (Endpoint url) (to_dec (unat rid)) = Inr e'" "endpoint_root e' = Inr root"
    using base_endpoint_extend [OF e] by blast
  obtain msg where "w_encode W (network_message_new e' (rpc_response_encode (RpcSuccess answer)) (message_headers W cx)) = Some msg"
    "w_decode W msg = Some (network_message_new e' (rpc_response_encode (RpcSuccess answer)) (message_headers W cx))"
    using W unfolding wire_ok_def by meson
  then show ?thesis
    using e assms(3,4) e'
    by (intro exI [of _ e'] exI [of _ msg])
      (simp add: rpc_respond_def base_endpoint_def st_bind_apply on_snd_apply panicking_def net_command_def ok_or_def)
qed


section \<open>Who can answer a call\<close>

text \<open>Different open calls wait on different channels.\<close>

definition rpc_ok :: "rpc_map \<Rightarrow> bool" where
  "rpc_ok r \<longleftrightarrow> (\<forall>k k' ch. map_of (rm_map r) k = Some ch \<longrightarrow> map_of (rm_map r) k' = Some ch \<longrightarrow> k = k') \<and>
     (\<forall>k ch. map_of (rm_map r) k = Some ch \<longrightarrow> ch < rm_fresh r)"

lemma rpc_ok_take: "rpc_ok r \<Longrightarrow> rpc_ok (fst (rpc_take sid rid r))"
  by (auto simp: rpc_take_def rpc_ok_def split: option.splits)

lemma rpc_ok_insert: "rpc_ok r \<Longrightarrow> rpc_ok (fst (rpc_insert sid rid r))"
  by (auto simp: rpc_insert_def rpc_ok_def split: if_splits) (metis less_irrefl less_SucI)+

text \<open>The operations on the table of open calls, in any order and with any arguments.\<close>

inductive rpc_reach :: "rpc_map \<Rightarrow> bool" where
  created: "rpc_reach rpc_map_new"
| counted: "rpc_reach r \<Longrightarrow> rpc_reach (fst (next_rpc_id r))"
| inserted: "rpc_reach r \<Longrightarrow> rpc_reach (fst (rpc_insert sid rid r))"
| taken: "rpc_reach r \<Longrightarrow> rpc_reach (fst (rpc_take sid rid r))"
| sent: "rpc_reach r \<Longrightarrow> rpc_reach (r\<lparr>rm_sent := AList.update ch c (rm_sent r)\<rparr>)"

lemma rpc_reach_ok: "rpc_reach r \<Longrightarrow> rpc_ok r"
  by (induction rule: rpc_reach.induct) (auto simp: rpc_ok_take rpc_ok_insert, simp_all add: rpc_ok_def rpc_map_new_def next_rpc_id_def)

lemma react_cases:
  "fst (react rx sid peer e m r) = r \<or>
   (\<exists>rid ch content. map_of (rm_map r) (sid, rid) = Some ch \<and> fst (react rx sid peer e m r) =
      r\<lparr>rm_map := AList.delete (sid, rid) (rm_map r), rm_sent := AList.update ch content (rm_sent r)\<rparr>)"
  by (auto simp: react_def Let_def st_bind_apply st_seq_apply rpc_contains_def rpc_take_def
      split: sum.split url_scheme.split prod.split) blast

lemma route_cases:
  "fst (route_message dec rs sid peer data r) = r \<or>
   (\<exists>rid ch content. map_of (rm_map r) (sid, rid) = Some ch \<and> fst (route_message dec rs sid peer data r) =
      r\<lparr>rm_map := AList.delete (sid, rid) (rm_map r), rm_sent := AList.update ch content (rm_sent r)\<rparr>)"
proof (cases "\<exists>m e root rx. dec data = Some m \<and> endpoint_parse (nm_url m) = Inr e \<and> endpoint_root e = Inr root \<and> map_of rs root = Some rx")
  case True
  then obtain m e root rx where "dec data = Some m" "endpoint_parse (nm_url m) = Inr e" "endpoint_root e = Inr root" "map_of rs root = Some rx"
    by blast
  then show ?thesis by (simp only: route_ok react_cases)
next
  case False
  then have "fst (route_message dec rs sid peer data r) = r"
    by (auto simp: route_message_def st_bind_apply ok_or_def split: option.splits sum.splits)
  then show ?thesis by simp
qed

text \<open>Routing, calling and finishing a call consist of these operations.\<close>

lemma rpc_reach_route: "rpc_reach r \<Longrightarrow> rpc_reach (fst (route_message dec rs sid peer data r))"
  using route_cases [of dec rs sid peer data r]
proof (elim disjE exE conjE)
  fix rid ch content
  assume "rpc_reach r" and entry: "map_of (rm_map r) (sid, rid) = Some ch" and r': "fst (route_message dec rs sid peer data r) =
      r\<lparr>rm_map := AList.delete (sid, rid) (rm_map r), rm_sent := AList.update ch content (rm_sent r)\<rparr>"
  have "rpc_reach (fst (rpc_take sid rid r))" using \<open>rpc_reach r\<close> by (rule rpc_reach.taken)
  from rpc_reach.sent [OF this, of ch content] show ?thesis unfolding r' by (simp add: rpc_take_def entry)
qed simp

lemma rpc_reach_start: "rpc_reach r \<Longrightarrow> rpc_reach (fst (fst (call_start W cx url body (r, s))))"
proof -
  assume "rpc_reach r"
  then have ins: "rpc_reach (fst (rpc_insert sid (rm_next_id r) (fst (next_rpc_id r))))" for sid
    by (intro rpc_reach.intros)
  then have "rpc_reach (drop_guard sid (rm_next_id r) (fst (rpc_insert sid (rm_next_id r) (fst (next_rpc_id r)))))" for sid
    unfolding drop_guard_def by (rule rpc_reach.taken)
  with ins \<open>rpc_reach r\<close> show ?thesis
    by (auto simp: call_start_def st_bind_apply st_seq_apply on_fst_def next_rpc_id_def rpc_insert_def guarded_def on_snd_apply
        panicking_def net_command_def split: sum.split)
qed

lemma rpc_reach_finish: "rpc_reach r \<Longrightarrow> rpc_reach (fst (fst (call_finish dec call (r, s))))"
  by (cases call) (simp add: call_finish_def drop_guard_def rpc_reach.taken)

text \<open>
  Property C29. Only the session that was called can answer: while a call waits, no message from
  another session, whatever it contains and however many calls are open, removes
  its entry or puts anything into its channel.
\<close>

theorem foreign_session_cannot_answer:
  assumes "rpc_reach r" and "map_of (rm_map r) (sid, rid) = Some ch" and "sid' \<noteq> sid"
    and "route_message (w_decode W) rs sid' peer data r = (r', d)"
  shows "map_of (rm_map r') (sid, rid) = Some ch \<and> map_of (rm_sent r') ch = map_of (rm_sent r) ch"
proof -
  have ok: "rpc_ok r" using assms(1) by (rule rpc_reach_ok)
  have r': "r' = fst (route_message (w_decode W) rs sid' peer data r)" using assms(4) by simp
  show ?thesis
    using route_cases [of "w_decode W" rs sid' peer data r] unfolding r' [symmetric]
  proof (elim disjE exE conjE)
    fix rid' ch' content
    assume entry: "map_of (rm_map r) (sid', rid') = Some ch'"
      and r': "r' = r\<lparr>rm_map := AList.delete (sid', rid') (rm_map r), rm_sent := AList.update ch' content (rm_sent r)\<rparr>"
    have "ch' \<noteq> ch" using ok assms(2,3) entry unfolding rpc_ok_def by blast
    then show ?thesis using assms(2,3) by (simp add: r')
  qed (simp add: assms(2))
qed

section \<open>Hostile headers\<close>

definition hostile_headers :: "network_message \<Rightarrow> bool" where
  "hostile_headers m \<longleftrightarrow>
     (case map_of (nm_headers m) ''trace_id'' of
        None \<Rightarrow> False
      | Some raw \<Rightarrow> (case from_utf8 raw of None \<Rightarrow> False | Some t \<Rightarrow> str_to_trace t \<in> {None, Some None})) \<or>
     (case map_of (nm_headers m) ''span_id'' of None \<Rightarrow> False | Some raw \<Rightarrow> length raw < 8)"

text \<open>
  Property C40. A message from the network can make its reader panic: this happens for every message to a
  registered endpoint whose trace header is text but not a number in hexadecimal notation of
  at most 32 digits, or whose span header is shorter than eight bytes.
\<close>

theorem hostile_headers_panic:
  assumes "w_decode W data = Some m" and "endpoint_parse (nm_url m) = Inr e" and "endpoint_root e = Inr root"
    and "map_of rs root = Some rx" and "hostile_headers m"
  shows "route_message (w_decode W) rs sid peer data r = (r, Inl NetPanic)"
proof -
  have "message_trace_id m = Inl NetPanic \<or> (\<exists>t. message_trace_id m = Inr t) \<and> message_span_id m = Inl NetPanic"
    using assms(5)
    by (auto simp: hostile_headers_def message_trace_id_def message_span_id_def split: option.splits)
  then have "react rx sid peer e m r = (r, Inl NetPanic)" by (auto simp: react_def st_bind_apply Let_def)
  then show ?thesis unfolding route_ok [where dec = "w_decode W" and data = data, OF assms(1-4)] .
qed

section \<open>A concrete wire format\<close>

text \<open>Every byte is preceded by a one and every string ends with a zero; trace identifiers are written with 32 digits.\<close>

definition put_bytes :: "bytes \<Rightarrow> bytes" where
  "put_bytes bs = concat (map (\<lambda>b. [1, b]) bs) @ [0]"

fun get_bytes :: "bytes \<Rightarrow> (bytes \<times> bytes) option" where
  "get_bytes (t # b # rest) =
     (if t = 0 then Some ([], b # rest) else map_option (\<lambda>(bs, r). (b # bs, r)) (get_bytes rest))"
| "get_bytes [t] = (if t = 0 then Some ([], []) else None)"
| "get_bytes [] = None"

lemma get_put_bytes: "get_bytes (put_bytes bs @ rest) = Some (bs, rest)"
proof (induction bs)
  case Nil
  then show ?case by (cases rest) (simp_all add: put_bytes_def)
qed (simp add: put_bytes_def)

fun put_headers :: "(string \<times> bytes) list \<Rightarrow> bytes" where
  "put_headers [] = [0]"
| "put_headers ((k, v) # hs) = 1 # put_bytes (bytes_of_string k) @ put_bytes v @ put_headers hs"

fun get_headers :: "nat \<Rightarrow> bytes \<Rightarrow> ((string \<times> bytes) list \<times> bytes) option" where
  "get_headers (Suc n) (t # rest) =
     (if t = 0 then Some ([], rest)
      else Option.bind (get_bytes rest) (\<lambda>(k, r1).
           Option.bind (get_bytes r1) (\<lambda>(v, r2).
           map_option (\<lambda>(hs, r3). ((string_of_bytes k, v) # hs, r3)) (get_headers n r2))))"
| "get_headers _ _ = None"

lemma get_put_headers: "length hs < n \<Longrightarrow> get_headers n (put_headers hs @ rest) = Some (hs, rest)"
proof (induction hs arbitrary: n)
  case Nil
  then show ?case by (cases n) simp_all
next
  case (Cons x hs)
  obtain k v where x: "x = (k, v)" by (cases x)
  obtain n' where "n = Suc n'" using Cons.prems by (cases n) auto
  then show ?case using Cons by (simp add: x get_put_bytes)
qed

definition sample_encode :: "network_message \<Rightarrow> bytes option" where
  "sample_encode m = Some (put_headers (nm_headers m) @ put_bytes (bytes_of_string (nm_url m)) @ put_bytes (nm_content m))"

definition sample_decode :: "bytes \<Rightarrow> network_message option" where
  "sample_decode bs =
     Option.bind (get_headers (Suc (length bs)) bs) (\<lambda>(hs, r1).
     Option.bind (get_bytes r1) (\<lambda>(url, r2).
     map_option (\<lambda>(content, _). \<lparr>nm_headers = hs, nm_url = string_of_bytes url, nm_content = content\<rparr>) (get_bytes r2)))"

lemma put_headers_length: "length hs < length (put_headers hs)"
  by (induction hs rule: put_headers.induct) simp_all

lemma sample_wire_roundtrip: "\<exists>bs. sample_encode m = Some bs \<and> sample_decode bs = Some m"
proof -
  let ?rest = "put_bytes (bytes_of_string (nm_url m)) @ put_bytes (nm_content m)"
  have "length (nm_headers m) < Suc (length (put_headers (nm_headers m) @ ?rest))"
    using put_headers_length [of "nm_headers m"] by simp
  then show ?thesis
    using get_put_headers [of "nm_headers m"] get_put_bytes [of "nm_content m" "[]"]
    by (simp add: sample_encode_def sample_decode_def get_put_bytes)
qed

fun hexn :: "nat \<Rightarrow> nat \<Rightarrow> string" where
  "hexn 0 n = []"
| "hexn (Suc k) n = hexn k (n div 16) @ [nib (n mod 16)]"

lemma hexn_length [simp]: "length (hexn k n) = k"
  by (induction k arbitrary: n) simp_all

lemma hexn_chars: "c \<in> set (hexn k n) \<Longrightarrow> \<exists>d < 16. c = nib d"
  by (induction k arbitrary: n) (auto intro: exI [of _ "_ mod 16"])

lemma hexn_fold: "n < 16 ^ k \<Longrightarrow> k \<le> 16 \<Longrightarrow> foldl hex_step (Some 0) (hexn k n) = Some n"
proof (induction k arbitrary: n)
  case (Suc k)
  have "n div 16 < 16 ^ k" using Suc.prems(1) by (simp add: less_mult_imp_div_less mult.commute)
  moreover have "(16 :: nat) ^ Suc k \<le> 16 ^ 16" using Suc.prems(2) by (intro power_increasing) simp_all
  then have "n < 2 ^ 64" using Suc.prems(1) by simp
  ultimately show ?case using Suc.IH [of "n div 16"] Suc.prems(2) nib_facts [of "n mod 16"] by (simp add: hex_step_def)
qed simp

lemma parse_hexn: "parse_hex_u64 (hexn 16 (unat (w :: u64))) = Some w"
proof -
  have "unat w < 16 ^ 16" using unat_bound [of w] by simp
  from hexn_fold [OF this] have "foldl hex_step (Some 0) (hexn 16 (unat w)) = Some (unat w)" by simp
  moreover have "hexn 16 (unat w) \<noteq> []" by (metis hexn_length list.size(3) zero_neq_numeral)
  moreover from this have "hd (hexn 16 (unat w)) \<noteq> CHR ''+''"
    using hexn_chars [OF hd_in_set] nib_facts by metis
  ultimately show ?thesis by (simp add: parse_hex_u64_def)
qed

lemma ascii_utf8: "\<forall>b\<in>set bs. b < 0x80 \<Longrightarrow> \<forall>c\<in>set (utf8_chunks bs). fst c"
proof (induction bs rule: utf8_chunks.induct)
  case (2 b bs)
  have first: "utf8_first (b # bs) = (True, 1)" using "2.prems" by (simp add: utf8_first_def)
  show ?case using "2.IH" [OF first [symmetric] refl] "2.prems" by (simp add: first)
qed simp

lemma hexn_utf8: "from_utf8 (bytes_of_string (hexn k n)) = Some (hexn k n)"
proof -
  have "word_of_nat (of_char c) < (0x80 :: u8)" if "c \<in> set (hexn k n)" for c
  proof -
    obtain d where "d < 16" "c = nib d" using hexn_chars [OF \<open>c \<in> _\<close>] by blast
    then have "of_char c < (128 :: nat)" using nib_facts by simp
    then show ?thesis by (simp add: word_less_nat_alt unat_of_nat)
  qed
  then have "\<forall>b\<in>set (bytes_of_string (hexn k n)). b < 0x80" by (auto simp: bytes_of_string_def)
  from ascii_utf8 [OF this] show ?thesis by (simp add: from_utf8_def)
qed

definition sample_wire :: wire where
  "sample_wire = \<lparr>w_encode = sample_encode, w_decode = sample_decode,
     w_show_trace = (\<lambda>(h, l). hexn 32 (unat h * 2 ^ 64 + unat l))\<rparr>"

lemma hexn_append: "hexn (j + k) (m * 16 ^ k + n) = hexn j m @ hexn k n" if "n < 16 ^ k"
  using that
proof (induction k arbitrary: n)
  case (Suc k)
  have "n div 16 < 16 ^ k" using Suc.prems by (simp add: less_mult_imp_div_less mult.commute)
  moreover have "m * 16 ^ Suc k + n = n + m * 16 ^ k * 16" by simp
  then have "(m * 16 ^ Suc k + n) div 16 = m * 16 ^ k + n div 16" "(m * 16 ^ Suc k + n) mod 16 = n mod 16"
    by (simp_all only: div_mult_self1 mod_mult_self1 zero_neq_numeral not_False_eq_True)
  ultimately show ?case using Suc.IH by simp
qed simp

lemma sample_wire_ok: "wire_ok sample_wire"
proof -
  have "hexn 32 (unat h * 2 ^ 64 + unat l) = hexn 16 (unat h) @ hexn 16 (unat l)" for h l :: u64
    using hexn_append [of "unat l" 16 16 "unat h"] unat_bound [of l] by simp
  then have "str_to_trace (hexn 32 (unat h * 2 ^ 64 + unat l)) = Some (Some (h, l))" for h l :: u64
    by (simp add: str_to_trace_def hexn_utf8 parse_hexn)
  then show ?thesis using sample_wire_roundtrip hexn_utf8 by (auto simp: wire_ok_def sample_wire_def)
qed

lemma sample_endpoints:
  "base_endpoint ''/rpc_call/sync/pull'' RpcCallScheme ''/rpc_call/sync/pull''"
  "base_endpoint ''/rpc_resp/sync/pull'' RpcResponseScheme ''/rpc_resp/sync/pull''"
  by (simp_all add: base_endpoint_def endpoint_parse_def endpoint_scheme_def endpoint_root_def url_comps_def starts_with_def
      GOSSIP_SCHEME_def RPC_CALL_SCHEME_def RPC_RESPONSE_SCHEME_def)


definition sample_open :: rpc_map where
  "sample_open = fst (rpc_insert 3 0 (fst (next_rpc_id rpc_map_new)))"

theorem foreign_session_cannot_answer_witness:
  "map_of (rm_map (fst (route_message (w_decode sample_wire) [(''/rpc_resp/sync/pull'', None :: bytes reactor)] 4 (6 :: nat) [1, 2, 3] sample_open)))
     (3, 0) = Some 0"
proof -
  have "rpc_reach sample_open" unfolding sample_open_def by (intro rpc_reach.intros)
  moreover have "map_of (rm_map sample_open) (3, 0) = Some 0"
    by (simp add: sample_open_def rpc_insert_def next_rpc_id_def rpc_map_new_def)
  ultimately show ?thesis
    using foreign_session_cannot_answer [of sample_open 3 0 0 4 sample_wire "[(''/rpc_resp/sync/pull'', None :: bytes reactor)]" "6 :: nat" "[1, 2, 3]"]
    by (cases "route_message (w_decode sample_wire) [(''/rpc_resp/sync/pull'', None :: bytes reactor)] 4 (6 :: nat) [1, 2, 3] sample_open") auto
qed

theorem hostile_headers_panic_witness:
  "route_message (w_decode sample_wire) [(''/rpc_call/sync/pull'', Some (Some :: bytes \<Rightarrow> bytes option))] 4 (6 :: nat)
     (the (sample_encode \<lparr>nm_headers = [(''span_id'', [1])], nm_url = ''/rpc_call/sync/pull'', nm_content = []\<rparr>)) rpc_map_new =
   (rpc_map_new, Inl NetPanic)"
proof -
  let ?m = "\<lparr>nm_headers = [(''span_id'', [1])], nm_url = ''/rpc_call/sync/pull'', nm_content = []\<rparr>"
  obtain bs where bs: "sample_encode ?m = Some bs" "sample_decode bs = Some ?m" using sample_wire_roundtrip by blast
  then have "w_decode sample_wire bs = Some ?m" by (simp add: sample_wire_def)
  moreover have "hostile_headers ?m" by (simp add: hostile_headers_def)
  moreover have "endpoint_parse (nm_url ?m) = Inr (Endpoint ''/rpc_call/sync/pull'')"
    "endpoint_root (Endpoint ''/rpc_call/sync/pull'') = Inr ''/rpc_call/sync/pull''"
    using sample_endpoints(1) by (simp_all add: base_endpoint_def)
  ultimately show ?thesis
    using hostile_headers_panic [of sample_wire bs ?m "Endpoint ''/rpc_call/sync/pull''" "''/rpc_call/sync/pull''"
        "[(''/rpc_call/sync/pull'', Some (Some :: bytes \<Rightarrow> bytes option))]" "Some Some" 4 "6 :: nat" rpc_map_new] bs(1)
    by simp
qed

end
