(* ===== verification/Net_Node.thy ===== *)
theory Net_Node
  imports Net_Router
begin

text \<open>
  The network service of a node as one state machine: the peer manager, the dialling rounds, the handlers of
  the transport and of the protocols, and the calls of other components, in any order.
  A step that fails leaves the state that it has reached, as a panic in the code does.

  The property: in every reachable state the registry and the peer store agree on who is connected, no
  address is dialled for two purposes, and the address book is consistent.
\<close>

record ('m, 'p, 'n, 'f) net_node =
  nd_net :: "('m, 'p, 'n) net_state"
  nd_discovery :: "(nat \<times> ('m, 'f) session_state) list"
  nd_identify :: "(nat \<times> remote_info) list"
  nd_ping :: "(nat \<times> ping_status) list"

definition node_net :: "(('m, 'p, 'n) net_state, 'e, 'a) st \<Rightarrow> ('m, 'p, 'n, 'f) net_node \<Rightarrow> ('m, 'p, 'n, 'f) net_node" where
  "node_net op n = n\<lparr>nd_net := fst (op (nd_net n))\<rparr>"

definition node_discovery :: "('m, 'f, ('m, 'p, 'n) net_state) disc_op \<Rightarrow> ('m, 'p, 'n, 'f) net_node \<Rightarrow> ('m, 'p, 'n, 'f) net_node" where
  "node_discovery op n = (let ((t, s), _) = op (nd_discovery n, nd_net n) in n\<lparr>nd_discovery := t, nd_net := s\<rparr>)"

definition node_identify :: "('m, 'p, 'n, unit) ident_op \<Rightarrow> ('m, 'p, 'n, 'f) net_node \<Rightarrow> ('m, 'p, 'n, 'f) net_node" where
  "node_identify op n = (let ((t, s), _) = op (nd_identify n, nd_net n) in n\<lparr>nd_identify := t, nd_net := s\<rparr>)"

definition node_ping :: "('m, 'p, 'n) ping_op \<Rightarrow> ('m, 'p, 'n, 'f) net_node \<Rightarrow> ('m, 'p, 'n, 'f) net_node" where
  "node_ping op n = (let ((t, s), _) = op (nd_ping n, nd_net n) in n\<lparr>nd_ping := t, nd_net := s\<rparr>)"

text \<open>\<open>NetworkService::new\<close>, as far as the state is concerned: the store is loaded from its files and no session is open.\<close>

definition network_service_new ::
  "('m, 'p, 'n) net_lib \<Rightarrow> ('m, 'p) net_config \<Rightarrow> u64 \<Rightarrow> 'm addr_info list option \<Rightarrow> 'n banned_addr list option \<Rightarrow>
     peer_error + ('m, 'p, 'n, 'f) net_node" where
  "network_service_new L cfg now addrs bans =
     res_bind (load_from_dir_or_default L now addrs bans) (\<lambda>store.
     res_bind (peer_manager_new L cfg store) (\<lambda>s.
     Inr \<lparr>nd_net = s, nd_discovery = [], nd_identify = [], nd_ping = []\<rparr>))"

inductive node_reach ::
  "('m, 'p, 'n) net_lib \<Rightarrow> ('m, 'f) known_lib \<Rightarrow> ('m, 'p) net_config \<Rightarrow> ping_config \<Rightarrow> ('m, 'p, 'n, 'f) net_node \<Rightarrow> bool"
  for L K cfg pcfg where
  created: "network_service_new L cfg now addrs bans = Inr n \<Longrightarrow> node_reach L K cfg pcfg n"
| chain_id: "node_reach L K cfg pcfg n \<Longrightarrow> node_reach L K cfg pcfg (node_net (set_chain_id c) n)"
| started: "node_reach L K cfg pcfg n \<Longrightarrow> node_reach L K cfg pcfg (node_net (run_start L cfg) n)"
| tick: "node_reach L K cfg pcfg n \<Longrightarrow> node_reach L K cfg pcfg (node_net (run_tick L cfg rng rng' pick i now) n)"
| service_event: "node_reach L K cfg pcfg n \<Longrightarrow> node_reach L K cfg pcfg (node_net (handle_event L cfg now ev) n)"
| service_error: "node_reach L K cfg pcfg n \<Longrightarrow> node_reach L K cfg pcfg (node_net (handle_error L now err) n)"
| tag: "node_reach L K cfg pcfg n \<Longrightarrow> node_reach L K cfg pcfg (node_net (net_tag L now bs t) n)"
| untag: "node_reach L K cfg pcfg n \<Longrightarrow> node_reach L K cfg pcfg (node_net (net_untag L bs t) n)"
| tag_consensus: "node_reach L K cfg pcfg n \<Longrightarrow> node_reach L K cfg pcfg (node_net (net_tag_consensus L bss) n)"
| broadcast: "node_reach L K cfg pcfg n \<Longrightarrow>
    node_reach L K cfg pcfg (node_net (gossip_broadcast W (cx :: 'p net_ctx) url body) n)"
| multicast: "node_reach L K cfg pcfg n \<Longrightarrow>
    node_reach L K cfg pcfg (node_net (gossip_multicast L W now cx url ids body) n)"
| discovery: "node_reach L K cfg pcfg n \<Longrightarrow> \<forall>k xs. length (pick k xs) \<le> k \<and> set (pick k xs) \<subseteq> set xs \<Longrightarrow>
    node_reach L K cfg pcfg (node_discovery (disc_exec L K pick shuffle rng ch now dev) n)"
| identify_open: "node_reach L K cfg pcfg n \<Longrightarrow> node_reach L K cfg pcfg (node_identify (identify_connected L now t ctx) n)"
| identify_close: "node_reach L K cfg pcfg n \<Longrightarrow> node_reach L K cfg pcfg (node_identify (identify_disconnected L now ctx) n)"
| identify_message: "node_reach L K cfg pcfg n \<Longrightarrow>
    node_reach L K cfg pcfg (node_identify (identify_received L (nc_local_peer cfg) now ch ctx decoded) n)"
| identify_timer: "node_reach L K cfg pcfg n \<Longrightarrow> node_reach L K cfg pcfg (node_identify (identify_notify t) n)"
| ping: "node_reach L K cfg pcfg n \<Longrightarrow> node_reach L K cfg pcfg (node_ping (ping_exec L pcfg pev) n)"
| feeler_open: "node_reach L K cfg pcfg n \<Longrightarrow> node_reach L K cfg pcfg (node_net (feeler_connected L now ctx) n)"
| feeler_close: "node_reach L K cfg pcfg n \<Longrightarrow> node_reach L K cfg pcfg (node_net (feeler_disconnected (ctx :: ('m, 'p) session)) n)"
| transmitter_open: "node_reach L K cfg pcfg n \<Longrightarrow> node_reach L K cfg pcfg (node_net (transmitter_connected L ctx) n)"
| transmitter_close: "node_reach L K cfg pcfg n \<Longrightarrow> node_reach L K cfg pcfg (node_net (transmitter_disconnected L ctx) n)"

section \<open>Every step keeps the state sound\<close>

definition node_ok :: "('m, 'p, 'n) net_lib \<Rightarrow> ('m, 'p, 'n, 'f) net_node \<Rightarrow> bool" where
  "node_ok L n \<longleftrightarrow> net_ok L (nd_net n) \<and> sessions_ok (nd_discovery n)"

lemma node_ok_net: "preserves (net_ok L) op \<Longrightarrow> node_ok L n \<Longrightarrow> node_ok L (node_net op n)"
  by (simp add: node_ok_def node_net_def preserves_def)

lemma node_ok_identify: "preserves (net_ok_snd L) op \<Longrightarrow> node_ok L n \<Longrightarrow> node_ok L (node_identify op n)"
  unfolding node_ok_def node_identify_def preserves_def by (auto split: prod.splits) (metis fst_conv snd_conv)

lemma node_ok_ping: "preserves (net_ok_snd L) op \<Longrightarrow> node_ok L n \<Longrightarrow> node_ok L (node_ping op n)"
  unfolding node_ok_def node_ping_def preserves_def by (auto split: prod.splits) (metis fst_conv snd_conv)

lemma node_ok_discovery:
  assumes "\<forall>k xs. length (pick k xs) \<le> k \<and> set (pick k xs) \<subseteq> set xs" and "node_ok L n"
  shows "node_ok L (node_discovery (disc_exec L K pick shuffle rng ch now dev) n)"
proof -
  obtain t s r where run: "disc_exec L K pick shuffle rng ch now dev (nd_discovery n, nd_net n) = ((t, s), r)"
    by (metis prod.exhaust)
  from disc_exec_sends [OF assms(1) _ _ run] assms(2) show ?thesis by (simp add: node_ok_def node_discovery_def run)
qed

lemma preserves_panicking [inv_intros]: "preserves P op \<Longrightarrow> preserves P (panicking op)"
  by (auto simp: preserves_def panicking_def split: prod.splits)

lemma net_ok_gossip [inv_intros]:
  "preserves (net_ok L) (gossip_broadcast W cx url body)" "preserves (net_ok L) (gossip_multicast L W now cx url ids body)"
  unfolding gossip_broadcast_def gossip_multicast_def send_to_peers_def
  by (intro inv_intros; auto intro!: inv_intros split: prod.split)+

lemma net_ok_ping_exec: "preserves (net_ok_snd L) (ping_exec L cfg ev)"
  unfolding ping_exec_def by (cases ev) (auto intro!: inv_intros)

lemma manager_load_inv: "manager_load L xs = Inr m \<Longrightarrow> mgr_inv L m"
proof -
  assume load: "manager_load L xs = Inr m"
  have "preserves (mgr_inv L) (st_each (mgr_add L) xs)" by (intro inv_intros mgr_inv_add)
  moreover have "mgr_inv L manager_default" by (simp add: mgr_inv_def manager_default_ok)
  ultimately show ?thesis using load by (auto simp: manager_load_def preserves_def split: prod.splits sum.splits)
qed

lemma network_service_new_ok: "network_service_new L cfg now addrs bans = Inr n \<Longrightarrow> node_ok L n"
proof -
  assume "network_service_new L cfg now addrs bans = Inr n"
  then obtain store s where load: "load_from_dir_or_default L now addrs bans = Inr store"
    and s: "peer_manager_new L cfg store = Inr s" and n: "nd_net n = s" "nd_discovery n = []"
    by (auto simp: network_service_new_def res_bind_def split: sum.splits)
  obtain m where "(case addrs of None \<Rightarrow> Inr manager_default | Some xs \<Rightarrow> manager_load L xs) = Inr m"
    and store: "ps_manager store = m" "ps_peers store = []"
    using load by (auto simp: load_from_dir_or_default_def peer_store_new_def res_bind_def split: sum.splits)
  then have "mgr_inv L m" by (cases addrs) (auto simp: mgr_inv_def manager_default_ok dest: manager_load_inv)
  moreover have "ns_online s = \<lparr>on_peers = [], on_dialing = [], on_feeler = []\<rparr>" "ns_store s = store"
    using s by (auto simp: peer_manager_new_def res_bind_def split: sum.splits)
  ultimately show ?thesis by (simp add: node_ok_def net_ok_def registry_ok_def agree_def sessions_ok_def n store)
qed

lemma node_reach_ok: "node_reach L K cfg pcfg n \<Longrightarrow> node_ok L n"
proof (induction rule: node_reach.induct)
  case (created now addrs bans n)
  then show ?case by (rule network_service_new_ok)
next
  case (ping n pev)
  then show ?case by (intro node_ok_ping net_ok_ping_exec)
qed (assumption | intro node_ok_net node_ok_identify node_ok_discovery inv_intros)+



end
