(* ===== verification/Protocol_Types.thy ===== *)
theory Protocol_Types
  imports Prelude
begin

text \<open>
  The data model shared by every component: the structs of
  \<open>protocol/src/types\<close> (transactions, proposals, headers, blocks, proofs,
  receipts, execution results, metadata) as records with the fields of the
  source, in its order, and the pure conversions between them. The hash function
  and the RLP encoding live in third-party crates: operations that use them take
  them as arguments.
\<close>

section \<open>Transactions\<close>

datatype transaction_action = Call h160 | Create

record access_list_item =
  ali_address :: h160
  ali_storage_keys :: "hash list"

record transaction =
  tx_nonce :: u256
  tx_max_priority_fee_per_gas :: u256
  tx_gas_price :: u256
  tx_gas_limit :: u256
  tx_action :: transaction_action
  tx_value :: u256
  tx_data :: bytes
  tx_access_list :: "access_list_item list"

record signature_components =
  sc_r :: bytes
  sc_s :: bytes
  sc_standard_v :: u8

record unverified_transaction =
  utx_unsigned :: transaction
  utx_signature :: "signature_components option"
  utx_chain_id :: u64
  utx_hash :: hash

type_synonym public_key = "512 word"

record signed_transaction =
  stx_transaction :: unverified_transaction
  stx_sender :: h160
  stx_public :: "public_key option"

definition is_eth_sig :: "signature_components \<Rightarrow> bool" where
  "is_eth_sig sc = (sc_standard_v sc \<le> 1)"

text \<open>
  \<open>From<Bytes>\<close> slices \<open>bytes[0..32]\<close>, \<open>bytes[32..64]\<close> and indexes
  \<open>bytes[64]\<close>: a shorter input panics, which is \<open>None\<close> here.
\<close>

definition signature_from_bytes :: "bytes \<Rightarrow> signature_components option" where
  "signature_from_bytes bs =
     (if 64 < length bs then
        Some \<lparr>sc_r = take 32 bs, sc_s = take 32 (drop 32 bs), sc_standard_v = bs ! 64\<rparr>
      else None)"

definition signature_as_bytes :: "signature_components \<Rightarrow> bytes" where
  "signature_as_bytes sc = sc_r sc @ sc_s sc @ [sc_standard_v sc]"

definition get_to :: "signed_transaction \<Rightarrow> h160 option" where
  "get_to stx = (case tx_action (utx_unsigned (stx_transaction stx)) of
      Call to \<Rightarrow> Some to | Create \<Rightarrow> None)"

definition public_to_address :: "(bytes \<Rightarrow> hash) \<Rightarrow> public_key \<Rightarrow> h160" where
  "public_to_address digest public =
     from_be_bytes (drop 12 (to_be_bytes 32 (digest (to_be_bytes 64 public))))"

definition recover_intact_pub_key :: "public_key \<Rightarrow> bytes" where
  "recover_intact_pub_key public = take 65 (4 # to_be_bytes 64 public)"

abbreviation stx_hash :: "signed_transaction \<Rightarrow> hash" where
  "stx_hash stx \<equiv> utx_hash (stx_transaction stx)"

abbreviation stx_unsigned :: "signed_transaction \<Rightarrow> transaction" where
  "stx_unsigned stx \<equiv> utx_unsigned (stx_transaction stx)"

section \<open>Hashing\<close>

definition NIL_DATA :: hash where
  "NIL_DATA = 0xc5d2460186f7233c927e7db2dcc703c0e500b653ca82273b7bfad8045d85a470"

definition RLP_NULL :: hash where
  "RLP_NULL = 0x56e81f171bcc55a6ff8345e692c0f86e5b48e01b996cadc001622fb5e363b421"

definition hasher_digest :: "(bytes \<Rightarrow> bytes) \<Rightarrow> bytes \<Rightarrow> hash" where
  "hasher_digest keccak bs = (if bs = [] then NIL_DATA else from_be_bytes (take 32 (keccak bs)))"

section \<open>Execution results and receipts\<close>

record evm_log =
  log_address :: h160
  log_topics :: "hash list"
  log_data :: bytes

datatype exit_succeed = Stopped | Returned | Suicided
datatype exit_revert = Reverted
datatype exit_error = OutOfGas | OtherError string
datatype exit_reason = Succeed exit_succeed | ExitErr exit_error | Revert exit_revert | Fatal string

definition is_succeed :: "exit_reason \<Rightarrow> bool" where
  "is_succeed r = (case r of Succeed _ \<Rightarrow> True | _ \<Rightarrow> False)"

record tx_resp =
  tr_exit_reason :: exit_reason
  tr_ret :: bytes
  tr_gas_used :: u64
  tr_remain_gas :: u64
  tr_logs :: "evm_log list"
  tr_code_address :: "hash option"

record exec_resp =
  er_state_root :: hash
  er_receipt_root :: hash
  er_gas_used :: u64
  er_tx_resp :: "tx_resp list"

type_synonym bloom = "2048 word"

record receipt =
  rc_tx_hash :: hash
  rc_block_number :: u64
  rc_block_hash :: hash
  rc_tx_index :: u32
  rc_state_root :: hash
  rc_used_gas :: u256
  rc_logs_bloom :: bloom
  rc_logs :: "evm_log list"
  rc_code_address :: "hash option"
  rc_sender :: h160
  rc_ret :: exit_reason

definition receipt_status :: "receipt \<Rightarrow> u256" where
  "receipt_status r = (case rc_ret r of Succeed _ \<Rightarrow> 1 | _ \<Rightarrow> 0)"

section \<open>Proposals, headers and blocks\<close>

record block_proof =
  pf_number :: u64
  pf_round :: u64
  pf_block_hash :: hash
  pf_signature :: bytes
  pf_bitmap :: bytes

record proposal =
  pp_prev_hash :: hash
  pp_proposer :: h160
  pp_transactions_root :: hash
  pp_signed_txs_hash :: hash
  pp_timestamp :: u64
  pp_number :: u64
  pp_gas_limit :: u256
  pp_extra_data :: bytes
  pp_mixed_hash :: "hash option"
  pp_base_fee_per_gas :: u256
  pp_proof :: block_proof
  pp_last_checkpoint_block_hash :: hash
  pp_chain_id :: u64
  pp_tx_hashes :: "hash list"

record header =
  hd_prev_hash :: hash
  hd_proposer :: h160
  hd_state_root :: hash
  hd_transactions_root :: hash
  hd_signed_txs_hash :: hash
  hd_receipts_root :: hash
  hd_log_bloom :: bloom
  hd_difficulty :: u256
  hd_timestamp :: u64
  hd_number :: u64
  hd_gas_used :: u256
  hd_gas_limit :: u256
  hd_extra_data :: bytes
  hd_mixed_hash :: "hash option"
  hd_nonce :: h64
  hd_base_fee_per_gas :: u256
  hd_proof :: block_proof
  hd_last_checkpoint_block_hash :: hash
  hd_chain_id :: u64

record block =
  bk_header :: header
  bk_tx_hashes :: "hash list"

record rich_block =
  rb_block :: block
  rb_txs :: "signed_transaction list"

definition proposal_from_block :: "block \<Rightarrow> proposal" where
  "proposal_from_block b =
     \<lparr>pp_prev_hash = hd_prev_hash (bk_header b),
      pp_proposer = hd_proposer (bk_header b),
      pp_transactions_root = hd_transactions_root (bk_header b),
      pp_signed_txs_hash = hd_signed_txs_hash (bk_header b),
      pp_timestamp = hd_timestamp (bk_header b),
      pp_number = hd_number (bk_header b),
      pp_gas_limit = hd_gas_limit (bk_header b),
      pp_extra_data = hd_extra_data (bk_header b),
      pp_mixed_hash = hd_mixed_hash (bk_header b),
      pp_base_fee_per_gas = hd_base_fee_per_gas (bk_header b),
      pp_proof = hd_proof (bk_header b),
      pp_last_checkpoint_block_hash = hd_last_checkpoint_block_hash (bk_header b),
      pp_chain_id = hd_chain_id (bk_header b),
      pp_tx_hashes = bk_tx_hashes b\<rparr>"

definition proposal_from_header :: "header \<Rightarrow> proposal" where
  "proposal_from_header h =
     \<lparr>pp_prev_hash = hd_prev_hash h,
      pp_proposer = hd_proposer h,
      pp_transactions_root = hd_transactions_root h,
      pp_signed_txs_hash = hd_signed_txs_hash h,
      pp_timestamp = hd_timestamp h,
      pp_number = hd_number h,
      pp_gas_limit = hd_gas_limit h,
      pp_extra_data = hd_extra_data h,
      pp_mixed_hash = hd_mixed_hash h,
      pp_base_fee_per_gas = hd_base_fee_per_gas h,
      pp_proof = hd_proof h,
      pp_last_checkpoint_block_hash = hd_last_checkpoint_block_hash h,
      pp_chain_id = hd_chain_id h,
      pp_tx_hashes = []\<rparr>"

text \<open>
  \<open>Block::new\<close>; \<open>log_bloom_of\<close> is \<open>Bloom::from(BloomInput::Raw(rlp::encode_list(..)))\<close>
  on a list of logs and \<open>bloom_of_blooms\<close> the same on a list of blooms.
\<close>

definition block_new ::
  "(evm_log list \<Rightarrow> bloom) \<Rightarrow> (bloom list \<Rightarrow> bloom) \<Rightarrow> proposal \<Rightarrow> exec_resp \<Rightarrow> block" where
  "block_new log_bloom_of bloom_of_blooms p resp =
     (let logs = map (\<lambda>r. log_bloom_of (tr_logs r)) (er_tx_resp resp) in
      \<lparr>bk_header =
         \<lparr>hd_prev_hash = pp_prev_hash p,
          hd_proposer = pp_proposer p,
          hd_state_root = er_state_root resp,
          hd_transactions_root = pp_transactions_root p,
          hd_signed_txs_hash = pp_signed_txs_hash p,
          hd_receipts_root = er_receipt_root resp,
          hd_log_bloom = bloom_of_blooms logs,
          hd_difficulty = 1,
          hd_timestamp = pp_timestamp p,
          hd_number = pp_number p,
          hd_gas_used = ucast (er_gas_used resp),
          hd_gas_limit = pp_gas_limit p,
          hd_extra_data = pp_extra_data p,
          hd_mixed_hash = pp_mixed_hash p,
          hd_nonce = 0,
          hd_base_fee_per_gas = pp_base_fee_per_gas p,
          hd_proof = pp_proof p,
          hd_last_checkpoint_block_hash = pp_last_checkpoint_block_hash p,
          hd_chain_id = pp_chain_id p\<rparr>,
       bk_tx_hashes = pp_tx_hashes p\<rparr>)"

record executor_context =
  ec_block_number :: u256
  ec_block_hash :: hash
  ec_block_coinbase :: h160
  ec_block_timestamp :: u256
  ec_chain_id :: u256
  ec_difficulty :: u256
  ec_origin :: h160
  ec_gas_price :: u256
  ec_block_gas_limit :: u256
  ec_block_base_fee_per_gas :: u256
  ec_logs :: "evm_log list"

definition executor_context_from_proposal :: "(proposal \<Rightarrow> hash) \<Rightarrow> proposal \<Rightarrow> executor_context" where
  "executor_context_from_proposal hash_of h =
     \<lparr>ec_block_number = ucast (pp_number h),
      ec_block_hash = hash_of h,
      ec_block_coinbase = pp_proposer h,
      ec_block_timestamp = ucast (pp_timestamp h),
      ec_chain_id = ucast (pp_chain_id h),
      ec_difficulty = 1,
      ec_origin = pp_proposer h,
      ec_gas_price = 1,
      ec_block_gas_limit = pp_gas_limit h,
      ec_block_base_fee_per_gas = pp_base_fee_per_gas h,
      ec_logs = []\<rparr>"

definition executor_context_from_header :: "(header \<Rightarrow> hash) \<Rightarrow> header \<Rightarrow> executor_context" where
  "executor_context_from_header hash_of h =
     \<lparr>ec_block_number = ucast (hd_number h),
      ec_block_hash = hash_of h,
      ec_block_coinbase = hd_proposer h,
      ec_block_timestamp = ucast (hd_timestamp h),
      ec_chain_id = ucast (hd_chain_id h),
      ec_difficulty = 1,
      ec_origin = hd_proposer h,
      ec_gas_price = 1,
      ec_block_gas_limit = hd_gas_limit h,
      ec_block_base_fee_per_gas = hd_base_fee_per_gas h,
      ec_logs = []\<rparr>"

section \<open>Metadata\<close>

record metadata_version =
  mv_start :: u64
  mv_end :: u64

definition metadata_version_contains :: "metadata_version \<Rightarrow> u64 \<Rightarrow> bool" where
  "metadata_version_contains v number = (mv_start v \<le> number \<and> number < mv_end v)"

record validator =
  vd_pub_key :: bytes
  vd_propose_weight :: u32
  vd_vote_weight :: u32

text \<open>
  A \<open>Hex\<close> value is only built by \<open>Hex::encode\<close> and \<open>Hex::from_string\<close>; the
  validator records carry it as the byte string \<open>as_bytes\<close> gives.
\<close>

record validator_extend =
  ve_bls_pub_key :: bytes
  ve_pub_key :: bytes
  ve_address :: h160
  ve_propose_weight :: u32
  ve_vote_weight :: u32

record metadata =
  md_version :: metadata_version
  md_epoch :: u64
  md_gas_limit :: u64
  md_gas_price :: u64
  md_interval :: u64
  md_verifier_list :: "validator_extend list"
  md_propose_ratio :: u64
  md_prevote_ratio :: u64
  md_precommit_ratio :: u64
  md_brake_ratio :: u64
  md_tx_num_limit :: u64
  md_max_tx_size :: u64
  md_last_checkpoint_block_hash :: hash

record duration_config =
  dc_propose_ratio :: u64
  dc_prevote_ratio :: u64
  dc_precommit_ratio :: u64
  dc_brake_ratio :: u64

definition duration_config_from_metadata :: "metadata \<Rightarrow> duration_config" where
  "duration_config_from_metadata m =
     \<lparr>dc_propose_ratio = md_propose_ratio m, dc_prevote_ratio = md_prevote_ratio m,
      dc_precommit_ratio = md_precommit_ratio m, dc_brake_ratio = md_brake_ratio m\<rparr>"

definition validator_from_extend :: "validator_extend \<Rightarrow> validator" where
  "validator_from_extend ve =
     \<lparr>vd_pub_key = ve_pub_key ve, vd_propose_weight = ve_propose_weight ve,
      vd_vote_weight = ve_vote_weight ve\<rparr>"

section \<open>Facts\<close>

text \<open>
  The block that a node builds from a proposal and its execution converts back to
  that proposal: nothing the proposer signed is lost or altered by execution.
\<close>

lemma proposal_from_block_new:
  "proposal_from_block (block_new f g p resp) = p"
  by (simp add: proposal_from_block_def block_new_def Let_def)

lemma block_new_fields [simp]:
  "hd_number (bk_header (block_new f g p resp)) = pp_number p"
  "hd_state_root (bk_header (block_new f g p resp)) = er_state_root resp"
  "hd_base_fee_per_gas (bk_header (block_new f g p resp)) = pp_base_fee_per_gas p"
  "bk_tx_hashes (block_new f g p resp) = pp_tx_hashes p"
  by (simp_all add: block_new_def Let_def)

lemma signature_bytes_roundtrip:
  assumes "length (sc_r sc) = 32" and "length (sc_s sc) = 32"
  shows "signature_from_bytes (signature_as_bytes sc) = Some sc"
  using assms
  by (simp add: signature_from_bytes_def signature_as_bytes_def nth_append)

section \<open>Sample values\<close>

text \<open>A transaction with a given hash, sender, nonce and gas price, for concrete runs.\<close>

definition sample_stx :: "hash \<Rightarrow> h160 \<Rightarrow> u256 \<Rightarrow> u256 \<Rightarrow> signed_transaction" where
  "sample_stx h sender nonce price =
     \<lparr>stx_transaction =
        \<lparr>utx_unsigned =
           \<lparr>tx_nonce = nonce, tx_max_priority_fee_per_gas = 0, tx_gas_price = price,
            tx_gas_limit = 21000, tx_action = Create, tx_value = 0, tx_data = [], tx_access_list = []\<rparr>,
         utx_signature = None, utx_chain_id = 5, utx_hash = h\<rparr>,
      stx_sender = sender, stx_public = None\<rparr>"

lemma sample_stx_simps [simp]:
  "stx_hash (sample_stx h a n g) = h"
  "stx_sender (sample_stx h a n g) = a"
  "tx_nonce (stx_unsigned (sample_stx h a n g)) = n"
  "tx_gas_price (stx_unsigned (sample_stx h a n g)) = g"
  "tx_data (stx_unsigned (sample_stx h a n g)) = []"
  by (simp_all add: sample_stx_def)

text \<open>A block of a given number, for concrete runs.\<close>

definition sample_header :: "u64 \<Rightarrow> header" where
  "sample_header n =
     \<lparr>hd_prev_hash = 0, hd_proposer = 0, hd_state_root = 0, hd_transactions_root = 0, hd_signed_txs_hash = 0,
      hd_receipts_root = 0, hd_log_bloom = 0, hd_difficulty = 0, hd_timestamp = 0, hd_number = n,
      hd_gas_used = 0, hd_gas_limit = 0, hd_extra_data = [], hd_mixed_hash = None, hd_nonce = 0,
      hd_base_fee_per_gas = 0,
      hd_proof = \<lparr>pf_number = 0, pf_round = 0, pf_block_hash = 0, pf_signature = [], pf_bitmap = []\<rparr>,
      hd_last_checkpoint_block_hash = 0, hd_chain_id = 1\<rparr>"

definition sample_block :: "u64 \<Rightarrow> hash list \<Rightarrow> block" where
  "sample_block n hs = \<lparr>bk_header = sample_header n, bk_tx_hashes = hs\<rparr>"

lemma sample_block_simps [simp]:
  "bk_header (sample_block n hs) = sample_header n" "hd_number (sample_header n) = n"
  "bk_tx_hashes (sample_block n hs) = hs"
  by (simp_all add: sample_block_def sample_header_def)

end
