(* ===== verification/Pool.thy ===== *)
theory Pool
  imports Protocol_Types
begin

text \<open>
  The priority pool of the mempool: \<open>core/mempool/src/pool.rs\<close> and
  \<open>core/mempool/src/tx_wrapper.rs\<close>. A \<open>TxPtr\<close> is an \<open>Arc<TxDigest>\<close> whose
  \<open>is_dropped\<close> flag is shared by every clone of the pointer, so the model keeps
  the digests in a store and pointers are positions of that store. The
  \<open>ArrayQueue\<close> and the array of the \<open>BinaryHeap\<close> are lists of pointers. A
  \<open>DashMap\<close> that is iterated is an association list; the order in which it is
  iterated is the parameter \<open>iter\<close> of the operations that iterate it.
\<close>

section \<open>Digests and their order\<close>

record tx_digest =
  td_hash :: hash
  td_gas_price :: u256
  td_nonce :: u256
  td_sender :: h160
  td_is_dropped :: bool

type_synonym tx_ptr = nat

definition tx_digest_from :: "signed_transaction \<Rightarrow> tx_digest" where
  "tx_digest_from stx =
     \<lparr>td_hash = stx_hash stx,
      td_gas_price = tx_gas_price (stx_unsigned stx),
      td_nonce = tx_nonce (stx_unsigned stx),
      td_sender = stx_sender stx,
      td_is_dropped = False\<rparr>"

datatype ordering = Less | Equal | Greater

definition word_cmp :: "'a::len word \<Rightarrow> 'a word \<Rightarrow> ordering" where
  "word_cmp a b = (if a < b then Less else if a = b then Equal else Greater)"

definition tx_digest_eq :: "tx_digest \<Rightarrow> tx_digest \<Rightarrow> bool" where
  "tx_digest_eq a b = (td_hash a = td_hash b)"

definition tx_digest_cmp :: "tx_digest \<Rightarrow> tx_digest \<Rightarrow> ordering" where
  "tx_digest_cmp a b =
     (if td_gas_price a \<noteq> td_gas_price b then word_cmp (td_gas_price a) (td_gas_price b)
      else case word_cmp (td_nonce a) (td_nonce b) of
          Greater \<Rightarrow> Less
        | Less \<Rightarrow> Greater
        | Equal \<Rightarrow> Equal)"

definition tx_digest_le :: "tx_digest \<Rightarrow> tx_digest \<Rightarrow> bool" where
  "tx_digest_le a b = (tx_digest_cmp a b \<noteq> Greater)"

section \<open>The binary heap\<close>

text \<open>
  \<open>BinaryHeap::push\<close> of the standard library: the element is appended to the
  array and moved up while it is greater than its parent. \<open>iter\<close> and \<open>drain\<close>
  visit the array from its first element to its last.
\<close>

definition heap_parent :: "nat \<Rightarrow> nat" where
  "heap_parent pos = (pos - 1) div 2"

lemma heap_parent_less: "0 < pos \<Longrightarrow> heap_parent pos < pos"
  by (simp add: heap_parent_def)

function sift_up :: "('p \<Rightarrow> 'p \<Rightarrow> bool) \<Rightarrow> 'p list \<Rightarrow> nat \<Rightarrow> 'p list" where
  "sift_up le q pos =
     (if pos = 0 then q
      else if le (q ! pos) (q ! heap_parent pos) then q
      else sift_up le (q[pos := q ! heap_parent pos, heap_parent pos := q ! pos]) (heap_parent pos))"
  by pat_completeness auto
termination
  by (relation "measure (\<lambda>(le, q, pos). pos)") (auto simp: heap_parent_less)

declare sift_up.simps [simp del]

definition heap_push :: "('p \<Rightarrow> 'p \<Rightarrow> bool) \<Rightarrow> 'p \<Rightarrow> 'p list \<Rightarrow> 'p list" where
  "heap_push le x q = sift_up le (q @ [x]) (length q)"

section \<open>The bucket of system script transactions\<close>

record sys_tx_bucket =
  sb_hash_data_map :: "hash \<rightharpoonup> bytes"
  sb_tx_buckets :: "(bytes \<times> (hash \<times> signed_transaction) list) list"

datatype pool_error = ReachLimit nat | PoolPanic

definition sys_bucket_new :: sys_tx_bucket where
  "sys_bucket_new = \<lparr>sb_hash_data_map = Map.empty, sb_tx_buckets = []\<rparr>"

definition sys_bucket_insert :: "signed_transaction \<Rightarrow> sys_tx_bucket \<Rightarrow> sys_tx_bucket" where
  "sys_bucket_insert stx b =
     (let data = tx_data (stx_unsigned stx);
          bucket = (case map_of (sb_tx_buckets b) data of None \<Rightarrow> [] | Some m \<Rightarrow> m)
      in b\<lparr>sb_hash_data_map := (sb_hash_data_map b)(stx_hash stx \<mapsto> data),
           sb_tx_buckets := AList.update data (btree_insert (stx_hash stx) stx bucket)
                              (sb_tx_buckets b)\<rparr>)"

definition sys_bucket_package ::
  "((bytes \<times> (hash \<times> signed_transaction) list) list \<Rightarrow> (bytes \<times> (hash \<times> signed_transaction) list) list)
   \<Rightarrow> sys_tx_bucket \<Rightarrow> pool_error + hash list" where
  "sys_bucket_package iter b =
     res_map (\<lambda>kv. case snd kv of [] \<Rightarrow> Inl PoolPanic | (h, _) # _ \<Rightarrow> Inr h)
       (iter (sb_tx_buckets b))"

definition sys_bucket_get :: "sys_tx_bucket \<Rightarrow> hash \<Rightarrow> signed_transaction option" where
  "sys_bucket_get b h =
     (case sb_hash_data_map b h of
        None \<Rightarrow> None
      | Some data \<Rightarrow>
          (case map_of (sb_tx_buckets b) data of None \<Rightarrow> None | Some m \<Rightarrow> map_of m h))"

definition sys_bucket_flush :: "hash list \<Rightarrow> sys_tx_bucket \<Rightarrow> sys_tx_bucket" where
  "sys_bucket_flush hashes b =
     foldl (\<lambda>b h. case sb_hash_data_map b h of
                None \<Rightarrow> b
              | Some data \<Rightarrow>
                  b\<lparr>sb_hash_data_map := (sb_hash_data_map b)(h := None),
                    sb_tx_buckets := AList.delete data (sb_tx_buckets b)\<rparr>)
       b hashes"

definition sys_bucket_contains :: "sys_tx_bucket \<Rightarrow> hash \<Rightarrow> bool" where
  "sys_bucket_contains b h =
     (case sb_hash_data_map b h of
        None \<Rightarrow> False
      | Some data \<Rightarrow>
          (case map_of (sb_tx_buckets b) data of None \<Rightarrow> False | Some m \<Rightarrow> map_of m h \<noteq> None))"

section \<open>The pool\<close>

record priority_pool =
  pl_store :: "tx_digest list"
  pl_sys_tx_bucket :: sys_tx_bucket
  pl_occupied_nonce :: "h160 \<rightharpoonup> (u256 \<times> tx_ptr) list"
  pl_co_queue :: "tx_ptr list"
  pl_co_cap :: nat
  pl_real_queue :: "tx_ptr list"
  pl_tx_map :: "(hash \<times> signed_transaction) list"

definition pool_new :: "nat \<Rightarrow> priority_pool" where
  "pool_new sz =
     \<lparr>pl_store = [], pl_sys_tx_bucket = sys_bucket_new, pl_occupied_nonce = Map.empty,
      pl_co_queue = [], pl_co_cap = sz, pl_real_queue = [], pl_tx_map = []\<rparr>"

abbreviation deref :: "priority_pool \<Rightarrow> tx_ptr \<Rightarrow> tx_digest" where
  "deref s p \<equiv> pl_store s ! p"

definition ptr_le :: "tx_digest list \<Rightarrow> tx_ptr \<Rightarrow> tx_ptr \<Rightarrow> bool" where
  "ptr_le st p p' = tx_digest_le (st ! p) (st ! p')"

definition get_tx_ptr :: "signed_transaction \<Rightarrow> priority_pool \<Rightarrow> tx_ptr \<times> priority_pool" where
  "get_tx_ptr stx s = (length (pl_store s), s\<lparr>pl_store := pl_store s @ [tx_digest_from stx]\<rparr>)"

definition set_dropped :: "tx_ptr \<Rightarrow> priority_pool \<Rightarrow> priority_pool" where
  "set_dropped p s = s\<lparr>pl_store := (pl_store s)[p := (deref s p)\<lparr>td_is_dropped := True\<rparr>]\<rparr>"

definition occupy_nonce :: "tx_ptr \<Rightarrow> priority_pool \<Rightarrow> priority_pool" where
  "occupy_nonce p s =
     (let d = deref s p;
          m = (case pl_occupied_nonce s (td_sender d) of None \<Rightarrow> [] | Some m \<Rightarrow> m);
          s' = s\<lparr>pl_occupied_nonce :=
                   (pl_occupied_nonce s)(td_sender d \<mapsto> btree_insert (td_nonce d) p m)\<rparr>
      in case map_of m (td_nonce d) of None \<Rightarrow> s' | Some old_ptr \<Rightarrow> set_dropped old_ptr s')"

definition co_push :: "tx_ptr \<Rightarrow> priority_pool \<Rightarrow> priority_pool" where
  "co_push p s =
     (if length (pl_co_queue s) < pl_co_cap s then s\<lparr>pl_co_queue := pl_co_queue s @ [p]\<rparr> else s)"

definition pool_len :: "priority_pool \<Rightarrow> nat" where
  "pool_len s = length (pl_tx_map s)"

definition reach_limit :: "priority_pool \<Rightarrow> bool" where
  "reach_limit s = (pool_len s > pl_co_cap s)"

definition pool_size :: "priority_pool \<Rightarrow> nat" where
  "pool_size s = pl_co_cap s div 2"

definition pool_insert :: "signed_transaction \<Rightarrow> (priority_pool, pool_error, unit) st" where
  "pool_insert stx s =
     (if reach_limit s then (s, Inl (ReachLimit (length (pl_tx_map s))))
      else
        let (p, s1) = get_tx_ptr stx s;
            s2 = co_push p s1;
            s3 = occupy_nonce p s2
        in (s3\<lparr>pl_tx_map := AList.update (stx_hash stx) stx (pl_tx_map s3)\<rparr>, Inr ()))"

definition insert_system_script_tx :: "signed_transaction \<Rightarrow> (priority_pool, pool_error, unit) st" where
  "insert_system_script_tx stx s =
     (s\<lparr>pl_sys_tx_bucket := sys_bucket_insert stx (pl_sys_tx_bucket s)\<rparr>, Inr ())"

definition move_co_queue :: "priority_pool \<Rightarrow> priority_pool" where
  "move_co_queue s =
     s\<lparr>pl_real_queue :=
         foldl (\<lambda>q p. heap_push (ptr_le (pl_store s)) p q) (pl_real_queue s) (pl_co_queue s),
       pl_co_queue := []\<rparr>"

definition pool_package ::
  "((bytes \<times> (hash \<times> signed_transaction) list) list \<Rightarrow> (bytes \<times> (hash \<times> signed_transaction) list) list)
   \<Rightarrow> nat \<Rightarrow> (priority_pool, pool_error, hash list) st" where
  "pool_package iter limit s =
     (case sys_bucket_package iter (pl_sys_tx_bucket s) of
        Inl e \<Rightarrow> (s, Inl e)
      | Inr ret \<Rightarrow>
          let s' = move_co_queue s
          in (s', Inr (ret @ take limit (map (\<lambda>p. td_hash (deref s' p))
                                (filter (\<lambda>p. \<not> td_is_dropped (deref s' p)) (pl_real_queue s'))))))"

definition pool_contains :: "priority_pool \<Rightarrow> hash \<Rightarrow> bool" where
  "pool_contains s h = (map_of (pl_tx_map s) h \<noteq> None \<or> sys_bucket_contains (pl_sys_tx_bucket s) h)"

definition get_by_hash :: "priority_pool \<Rightarrow> hash \<Rightarrow> signed_transaction option" where
  "get_by_hash s h =
     (case map_of (pl_tx_map s) h of
        Some tx \<Rightarrow> Some tx
      | None \<Rightarrow> sys_bucket_get (pl_sys_tx_bucket s) h)"

definition get_tx_count_by_address :: "priority_pool \<Rightarrow> h160 \<Rightarrow> nat" where
  "get_tx_count_by_address s address =
     (case pl_occupied_nonce s address of
        Some m \<Rightarrow> length (filter (\<lambda>(n, p). \<not> td_is_dropped (deref s p)) m)
      | None \<Rightarrow> 0)"

definition get_residual ::
  "hash list \<Rightarrow> (signed_transaction \<Rightarrow> bool) \<Rightarrow> priority_pool \<Rightarrow> priority_pool" where
  "get_residual hashes nonce_check s =
     (let m1 = foldl (\<lambda>m h. AList.delete h m) (pl_tx_map s) hashes;
          m2 = foldl (\<lambda>m p. if td_is_dropped (deref s p)
                             then AList.delete (td_hash (deref s p)) m else m)
                 m1 (pl_real_queue s @ pl_co_queue s)
      in s\<lparr>pl_real_queue := [], pl_co_queue := [],
           pl_tx_map := filter (\<lambda>(h, tx). nonce_check tx) m2\<rparr>)"

definition requeue :: "signed_transaction \<Rightarrow> priority_pool \<Rightarrow> priority_pool" where
  "requeue tx s =
     (let (p, s1) = get_tx_ptr tx s;
          s2 = occupy_nonce p s1
      in s2\<lparr>pl_real_queue := heap_push (ptr_le (pl_store s2)) p (pl_real_queue s2)\<rparr>)"

definition pool_flush ::
  "((hash \<times> signed_transaction) list \<Rightarrow> (hash \<times> signed_transaction) list)
   \<Rightarrow> hash list \<Rightarrow> (signed_transaction \<Rightarrow> bool) \<Rightarrow> priority_pool \<Rightarrow> priority_pool" where
  "pool_flush iter hashes nonce_check s =
     (let s1 = get_residual hashes nonce_check s;
          s2 = s1\<lparr>pl_occupied_nonce := Map.empty,
                  pl_sys_tx_bucket := sys_bucket_flush hashes (pl_sys_tx_bucket s1)\<rparr>
      in foldl (\<lambda>s kv. requeue (snd kv) s) s2 (iter (pl_tx_map s1)))"

section \<open>Heap order\<close>

definition heap_ok :: "('p \<Rightarrow> 'p \<Rightarrow> bool) \<Rightarrow> 'p list \<Rightarrow> bool" where
  "heap_ok le q = (\<forall>i < length q. 0 < i \<longrightarrow> le (q ! i) (q ! heap_parent i))"

definition heap_but :: "('p \<Rightarrow> 'p \<Rightarrow> bool) \<Rightarrow> 'p list \<Rightarrow> nat \<Rightarrow> bool" where
  "heap_but le q pos =
     ((\<forall>i < length q. 0 < i \<longrightarrow> i \<noteq> pos \<longrightarrow> le (q ! i) (q ! heap_parent i)) \<and>
      (\<forall>i < length q. 0 < i \<longrightarrow> 0 < pos \<longrightarrow> heap_parent i = pos \<longrightarrow>
          le (q ! i) (q ! heap_parent pos)))"

text \<open>What a priority order has to offer for the heap to work.\<close>

locale priority_order =
  fixes le :: "'p \<Rightarrow> 'p \<Rightarrow> bool"
  assumes le_refl: "le a a"
    and le_trans: "le a b \<Longrightarrow> le b c \<Longrightarrow> le a c"
    and le_total: "le a b \<or> le b a"
begin

lemma swap_heap_but:
  assumes hb: "heap_but le q pos" and len: "pos < length q" and pos: "0 < pos"
    and gt: "\<not> le (q ! pos) (q ! heap_parent pos)"
  shows "heap_but le (q[pos := q ! heap_parent pos, heap_parent pos := q ! pos]) (heap_parent pos)"
proof -
  let ?par = "heap_parent pos"
  let ?q = "q[pos := q ! ?par, ?par := q ! pos]"
  from pos have par: "?par < pos" by (rule heap_parent_less)
  with len have plen: "?par < length q" by simp
  from gt le_total have up: "le (q ! ?par) (q ! pos)" by blast
  have nth: "?q ! i = (if i = ?par then q ! pos else if i = pos then q ! ?par else q ! i)"
    if "i < length q" for i
    using that len plen par by (simp add: nth_list_update)
  have h1: "le (q ! i) (q ! heap_parent i)" if "i < length q" "0 < i" "i \<noteq> pos" for i
    using hb that by (simp add: heap_but_def)
  have h2: "le (q ! i) (q ! ?par)" if "i < length q" "0 < i" "heap_parent i = pos" for i
    using hb that pos by (simp add: heap_but_def)
  have A: "le (?q ! i) (?q ! heap_parent i)" if i: "i < length q" "0 < i" "i \<noteq> ?par" for i
  proof -
    have pi: "heap_parent i < length q" using i heap_parent_less [of i] by simp
    consider "i = pos" | "i \<noteq> pos" "heap_parent i = pos" | "i \<noteq> pos" "heap_parent i = ?par"
      | "i \<noteq> pos" "heap_parent i \<noteq> pos" "heap_parent i \<noteq> ?par" by blast
    then show ?thesis
    proof cases
      case 1
      then show ?thesis using nth [OF i(1)] nth [OF pi] par up by simp
    next
      case 2
      then show ?thesis using nth [OF i(1)] nth [OF pi] i par h2 [OF i(1,2)] by simp
    next
      case 3
      then have "le (q ! i) (q ! pos)" using h1 [OF i(1,2)] up le_trans by metis
      with 3 show ?thesis using nth [OF i(1)] nth [OF pi] i by simp
    next
      case 4
      then show ?thesis using nth [OF i(1)] nth [OF pi] i h1 [OF i(1,2)] by simp
    qed
  qed
  have B: "le (?q ! i) (?q ! heap_parent ?par)"
    if i: "i < length q" "0 < i" "0 < ?par" "heap_parent i = ?par" for i
  proof -
    have gp: "heap_parent ?par < ?par" using i(3) by (rule heap_parent_less)
    have gpl: "heap_parent ?par < length q" using gp plen by simp
    have pg: "le (q ! ?par) (q ! heap_parent ?par)" using h1 [OF plen i(3)] par by simp
    have igp: "i \<noteq> ?par" using i heap_parent_less [of i] by auto
    have "le (?q ! i) (q ! ?par)"
      using nth [OF i(1)] igp h1 [OF i(1,2)] i(4) le_refl by (cases "i = pos") auto
    from this pg have "le (?q ! i) (q ! heap_parent ?par)" by (rule le_trans)
    then show ?thesis using nth [OF gpl] gp par by simp
  qed
  from A B show ?thesis by (auto simp: heap_but_def)
qed

lemma sift_up_heap: "heap_but le q pos \<Longrightarrow> pos < length q \<Longrightarrow> heap_ok le (sift_up le q pos)"
proof (induction pos arbitrary: q rule: less_induct)
  case (less pos)
  show ?case
  proof (cases "pos = 0 \<or> le (q ! pos) (q ! heap_parent pos)")
    case True
    then have "sift_up le q pos = q" by (subst sift_up.simps) auto
    moreover have "heap_ok le q"
      using True less.prems unfolding heap_ok_def heap_but_def by blast
    ultimately show ?thesis by simp
  next
    case False
    let ?par = "heap_parent pos"
    let ?q = "q[pos := q ! ?par, ?par := q ! pos]"
    from False have par: "?par < pos" by (simp add: heap_parent_less)
    have "heap_but le ?q ?par"
      using swap_heap_but less.prems False by simp
    then have "heap_ok le (sift_up le ?q ?par)"
      using less.IH [OF par, of ?q] less.prems par by simp
    moreover have "sift_up le q pos = sift_up le ?q ?par"
      using False by (subst sift_up.simps) simp
    ultimately show ?thesis by simp
  qed
qed

lemma heap_root_max:
  assumes "heap_ok le q" and "i < length q"
  shows "le (q ! i) (q ! 0)"
  using assms(2)
proof (induction i rule: less_induct)
  case (less i)
  show ?case
  proof (cases "i = 0")
    case True
    then show ?thesis by (simp add: le_refl)
  next
    case False
    then have par: "heap_parent i < i" by (simp add: heap_parent_less)
    with assms(1) less.prems False have "le (q ! i) (q ! heap_parent i)"
      by (simp add: heap_ok_def)
    moreover have "le (q ! heap_parent i) (q ! 0)"
      using less.IH [OF par] less.prems par by simp
    ultimately show ?thesis by (rule le_trans)
  qed
qed

lemma heap_push_ok:
  assumes "heap_ok le q"
  shows "heap_ok le (heap_push le x q)"
proof -
  have below: "i < Suc (length q) \<Longrightarrow> 0 < i \<Longrightarrow> heap_parent i < length q" for i
    using heap_parent_less [of i] by simp
  have no_child: "i < Suc (length q) \<Longrightarrow> 0 < i \<Longrightarrow> heap_parent i \<noteq> length q" for i
    using below [of i] by simp
  have "heap_but le (q @ [x]) (length q)"
    using assms below no_child unfolding heap_but_def heap_ok_def
    by (simp add: nth_append)
  then show ?thesis by (simp add: heap_push_def sift_up_heap)
qed

lemma heap_foldl_push_ok: "heap_ok le q \<Longrightarrow> heap_ok le (foldl (\<lambda>q p. heap_push le p q) q ps)"
  by (induction ps arbitrary: q) (simp_all add: heap_push_ok)

end

lemma mset_swap_parent:
  assumes "pos < length q" and "0 < pos"
  shows "mset (q[pos := q ! heap_parent pos, heap_parent pos := q ! pos]) = mset q"
  using assms heap_parent_less [of pos] by (simp add: mset_swap)

lemma mset_sift_up: "pos < length q \<Longrightarrow> mset (sift_up le q pos) = mset q"
proof (induction pos arbitrary: q rule: less_induct)
  case (less pos)
  show ?case
  proof (cases "pos = 0 \<or> le (q ! pos) (q ! heap_parent pos)")
    case True
    then have "sift_up le q pos = q" by (subst sift_up.simps) auto
    then show ?thesis by simp
  next
    case False
    then have par: "heap_parent pos < pos" by (simp add: heap_parent_less)
    let ?q = "q[pos := q ! heap_parent pos, heap_parent pos := q ! pos]"
    have "sift_up le q pos = sift_up le ?q (heap_parent pos)"
      using False by (subst sift_up.simps) simp
    then show ?thesis
      using less.IH [OF par, of ?q] less.prems par mset_swap_parent [of pos q] by simp
  qed
qed

lemma mset_heap_push [simp]: "mset (heap_push le x q) = add_mset x (mset q)"
  by (simp add: heap_push_def mset_sift_up)

lemma set_heap_push [simp]: "set (heap_push le x q) = insert x (set q)"
  by (metis mset_heap_push set_mset_add_mset_insert set_mset_mset)

lemma distinct_heap_push [simp]: "distinct (heap_push le x q) \<longleftrightarrow> x \<notin> set q \<and> distinct q"
  by (metis distinct.simps(2) mset.simps(2) mset_eq_imp_distinct_iff mset_heap_push)

lemma mset_foldl_heap_push: "mset (foldl (\<lambda>q p. heap_push le p q) q ps) = mset q + mset ps"
  by (induction ps arbitrary: q) simp_all

text \<open>Digests are ordered by gas price, and by descending nonce among equal prices.\<close>

lemma tx_digest_le_iff:
  "tx_digest_le a b \<longleftrightarrow>
     td_gas_price a < td_gas_price b \<or>
     td_gas_price a = td_gas_price b \<and> td_nonce b \<le> td_nonce a"
  by (auto simp: tx_digest_le_def tx_digest_cmp_def word_cmp_def)

interpretation ptr_order: priority_order "ptr_le st" for st
  by unfold_locales (auto simp: ptr_le_def tx_digest_le_iff)

section \<open>The pool invariant\<close>

text \<open>
  \<open>occ_find\<close> looks a sender and nonce up in the occupied-nonce index.
  \<open>ptr_inv\<close>: the queued pointers are distinct and allocated, the index files each
  of its pointers under the sender and nonce of its digest and never holds a
  dropped one, and every queued pointer that is not dropped is the one filed under
  its sender and nonce.
\<close>

definition occ_find :: "(h160 \<rightharpoonup> (u256 \<times> tx_ptr) list) \<Rightarrow> h160 \<Rightarrow> u256 \<Rightarrow> tx_ptr option" where
  "occ_find occ a n = (case occ a of None \<Rightarrow> None | Some m \<Rightarrow> map_of m n)"

definition entry_ok :: "tx_digest list \<Rightarrow> h160 \<Rightarrow> u256 \<Rightarrow> tx_ptr \<Rightarrow> bool" where
  "entry_ok st a n p =
     (p < length st \<and> td_sender (st ! p) = a \<and> td_nonce (st ! p) = n \<and> \<not> td_is_dropped (st ! p))"

definition occ_inv :: "tx_digest list \<Rightarrow> (h160 \<rightharpoonup> (u256 \<times> tx_ptr) list) \<Rightarrow> bool" where
  "occ_inv st occ =
     ((\<forall>a m. occ a = Some m \<longrightarrow> btree_ok m) \<and>
      (\<forall>a n p. occ_find occ a n = Some p \<longrightarrow> entry_ok st a n p))"

definition ptr_inv :: "tx_digest list \<Rightarrow> (h160 \<rightharpoonup> (u256 \<times> tx_ptr) list) \<Rightarrow> tx_ptr list \<Rightarrow> bool" where
  "ptr_inv st occ ps =
     (distinct ps \<and> (\<forall>p \<in> set ps. p < length st) \<and> occ_inv st occ \<and>
      (\<forall>p \<in> set ps. \<not> td_is_dropped (st ! p) \<longrightarrow>
         occ_find occ (td_sender (st ! p)) (td_nonce (st ! p)) = Some p))"

definition map_inv :: "(hash \<times> signed_transaction) list \<Rightarrow> bool" where
  "map_inv tm = (distinct (map fst tm) \<and> (\<forall>e \<in> set tm. fst e = stx_hash (snd e)))"

text \<open>
  \<open>sys_inv D\<close>: no bucket is empty and each bucket files hashes whose call data
  (\<open>D h\<close>) is the key of the bucket.
\<close>

definition bucket_ok ::
  "(hash \<Rightarrow> bytes) \<Rightarrow> (hash \<rightharpoonup> bytes) \<Rightarrow> bytes \<Rightarrow> (hash \<times> signed_transaction) list \<Rightarrow> bool" where
  "bucket_ok D hm d m =
     (m \<noteq> [] \<and> btree_ok m \<and> (\<forall>h \<in> fst ` set m. D h = d \<and> hm h = Some d))"

definition sys_inv :: "(hash \<Rightarrow> bytes) \<Rightarrow> sys_tx_bucket \<Rightarrow> bool" where
  "sys_inv D b =
     (distinct (map fst (sb_tx_buckets b)) \<and>
      (\<forall>h d. sb_hash_data_map b h = Some d \<longrightarrow> d = D h) \<and>
      (\<forall>d m. map_of (sb_tx_buckets b) d = Some m \<longrightarrow> bucket_ok D (sb_hash_data_map b) d m))"

definition pool_wf :: "(hash \<Rightarrow> bytes) \<Rightarrow> priority_pool \<Rightarrow> bool" where
  "pool_wf D s =
     (ptr_inv (pl_store s) (pl_occupied_nonce s) (pl_real_queue s @ pl_co_queue s) \<and>
      heap_ok (ptr_le (pl_store s)) (pl_real_queue s) \<and>
      map_inv (pl_tx_map s) \<and>
      (\<forall>p \<in> set (pl_real_queue s @ pl_co_queue s). td_hash (deref s p) \<in> fst ` set (pl_tx_map s)) \<and>
      length (pl_tx_map s) \<le> Suc (pl_co_cap s) \<and>
      sys_inv D (pl_sys_tx_bucket s))"

text \<open>Two stores that agree on everything but the dropped flags of the older one.\<close>

definition store_grows :: "tx_digest list \<Rightarrow> tx_digest list \<Rightarrow> bool" where
  "store_grows st st' =
     (length st \<le> length st' \<and>
      (\<forall>p < length st. td_hash (st' ! p) = td_hash (st ! p) \<and>
         td_gas_price (st' ! p) = td_gas_price (st ! p) \<and>
         td_nonce (st' ! p) = td_nonce (st ! p) \<and> td_sender (st' ! p) = td_sender (st ! p)))"

lemma store_grows_heap_ok:
  assumes "store_grows st st'" and "\<forall>p \<in> set q. p < length st" and "heap_ok (ptr_le st) q"
  shows "heap_ok (ptr_le st') q"
  unfolding heap_ok_def
proof (intro allI impI)
  fix i
  assume i: "i < length q" "0 < i"
  then have par: "heap_parent i < length q"
    using heap_parent_less [of i] by simp
  have "q ! i < length st" and "q ! heap_parent i < length st"
    using assms(2) i(1) par by simp_all
  moreover have "ptr_le st (q ! i) (q ! heap_parent i)"
    using assms(3) i by (simp add: heap_ok_def)
  ultimately show "ptr_le st' (q ! i) (q ! heap_parent i)"
    using assms(1) by (simp add: ptr_le_def tx_digest_le_iff store_grows_def)
qed

lemma occupy_nonce_frame [simp]:
  "pl_sys_tx_bucket (occupy_nonce p s) = pl_sys_tx_bucket s"
  "pl_co_queue (occupy_nonce p s) = pl_co_queue s"
  "pl_co_cap (occupy_nonce p s) = pl_co_cap s"
  "pl_real_queue (occupy_nonce p s) = pl_real_queue s"
  "pl_tx_map (occupy_nonce p s) = pl_tx_map s"
  "length (pl_store (occupy_nonce p s)) = length (pl_store s)"
  by (simp_all add: occupy_nonce_def set_dropped_def Let_def split: option.split)

lemma occupy_nonce_store_grows: "store_grows (pl_store s) (pl_store (occupy_nonce p s))"
  by (auto simp: occupy_nonce_def set_dropped_def Let_def store_grows_def nth_update_in
      split: option.split)

lemma store_grows_append: "store_grows st (st @ ds)"
  by (simp add: store_grows_def nth_append)

lemma store_grows_trans: "store_grows a b \<Longrightarrow> store_grows b c \<Longrightarrow> store_grows a c"
  by (simp add: store_grows_def)

lemma occ_find_insert:
  assumes "\<forall>a m. occ a = Some m \<longrightarrow> btree_ok m"
  shows "occ_find (occ(a \<mapsto> btree_insert n p (case occ a of None \<Rightarrow> [] | Some m \<Rightarrow> m))) a' n' =
     (if a' = a \<and> n' = n then Some p else occ_find occ a' n')"
proof -
  have "btree_ok (case occ a of None \<Rightarrow> [] | Some m \<Rightarrow> m)"
    using assms by (auto split: option.split)
  then show ?thesis
    by (auto simp: occ_find_def map_of_btree_insert split: option.split)
qed

definition drop_at :: "tx_ptr option \<Rightarrow> tx_digest list \<Rightarrow> tx_digest list" where
  "drop_at old st = (case old of None \<Rightarrow> st | Some p \<Rightarrow> st[p := (st ! p)\<lparr>td_is_dropped := True\<rparr>])"

lemma drop_at_simps [simp]:
  "length (drop_at old st) = length st"
  "p < length st \<Longrightarrow> td_hash (drop_at old st ! p) = td_hash (st ! p)"
  "p < length st \<Longrightarrow> td_sender (drop_at old st ! p) = td_sender (st ! p)"
  "p < length st \<Longrightarrow> td_nonce (drop_at old st ! p) = td_nonce (st ! p)"
  "p < length st \<Longrightarrow> td_is_dropped (drop_at old st ! p) \<longleftrightarrow> td_is_dropped (st ! p) \<or> old = Some p"
  by (auto simp: drop_at_def nth_update_in split: option.split)

lemma occupy_nonce_eq:
  assumes "p < length (pl_store s)"
  shows "pl_store (occupy_nonce p s) =
      drop_at (occ_find (pl_occupied_nonce s) (td_sender (deref s p)) (td_nonce (deref s p))) (pl_store s)"
    and "pl_occupied_nonce (occupy_nonce p s) =
      (pl_occupied_nonce s)(td_sender (deref s p) \<mapsto>
         btree_insert (td_nonce (deref s p)) p
           (case pl_occupied_nonce s (td_sender (deref s p)) of None \<Rightarrow> [] | Some m \<Rightarrow> m))"
  by (auto simp: occupy_nonce_def set_dropped_def drop_at_def occ_find_def Let_def split: option.splits)

text \<open>
  The step every insertion makes: a new live digest is filed under its sender and
  nonce, the digest filed there before is dropped, and the new pointer may be
  queued.
\<close>

lemma occupy_nonce_inv:
  assumes inv: "ptr_inv st occ ps" and live: "\<not> td_is_dropped d"
    and st: "pl_store s = st @ [d]" and occ: "pl_occupied_nonce s = occ"
    and ps': "distinct ps'" "set ps' \<subseteq> insert (length st) (set ps)"
  shows "ptr_inv (pl_store (occupy_nonce (length st) s))
           (pl_occupied_nonce (occupy_nonce (length st) s)) ps'"
proof -
  let ?p = "length st" and ?a = "td_sender d" and ?n = "td_nonce d"
  let ?old = "occ_find occ ?a ?n"
  let ?st = "drop_at ?old (st @ [d])"
  let ?occ = "occ(?a \<mapsto> btree_insert ?n ?p (case occ ?a of None \<Rightarrow> [] | Some m \<Rightarrow> m))"
  have s': "pl_store (occupy_nonce ?p s) = ?st" "pl_occupied_nonce (occupy_nonce ?p s) = ?occ"
    using occupy_nonce_eq [of ?p s] by (simp_all add: st occ)
  from inv have sorted: "\<forall>a m. occ a = Some m \<longrightarrow> btree_ok m"
    and entry: "\<And>a n p. occ_find occ a n = Some p \<Longrightarrow> entry_ok st a n p"
    by (auto simp: ptr_inv_def occ_inv_def)
  note find = occ_find_insert [OF sorted]
  have fresh: "?old \<noteq> Some ?p"
    using entry by (force simp: entry_ok_def)
  have "occ_inv ?st ?occ"
    unfolding occ_inv_def find
  proof (intro conjI allI impI)
    fix a m assume "?occ a = Some m"
    then show "btree_ok m"
      using sorted by (auto simp: btree_insert_ok split: if_splits option.split)
  next
    fix a n p assume f: "(if a = ?a \<and> n = ?n then Some ?p else occ_find occ a n) = Some p"
    show "entry_ok ?st a n p"
    proof (cases "a = ?a \<and> n = ?n")
      case True
      with f have p: "p = ?p" by simp
      show ?thesis unfolding p using True fresh live by (simp add: entry_ok_def)
    next
      case False
      with f have "occ_find occ a n = Some p" by simp
      then have e: "entry_ok st a n p" by (rule entry)
      then have "?old \<noteq> Some p"
        using entry [of ?a ?n p] False by (auto simp: entry_ok_def)
      with e show ?thesis by (simp add: entry_ok_def nth_append)
    qed
  qed
  moreover have "\<forall>p \<in> set ps'. p < length ?st"
    using ps'(2) inv by (fastforce simp: ptr_inv_def)
  moreover have "occ_find ?occ (td_sender (?st ! p)) (td_nonce (?st ! p)) = Some p"
    if p: "p \<in> set ps'" and nd: "\<not> td_is_dropped (?st ! p)" for p
  proof (cases "p = ?p")
    case True
    then show ?thesis by (simp add: find)
  next
    case False
    with p ps'(2) inv have pin: "p \<in> set ps" and pl: "p < length st"
      by (auto simp: ptr_inv_def)
    then have core: "td_sender (?st ! p) = td_sender (st ! p)" "td_nonce (?st ! p) = td_nonce (st ! p)"
      "\<not> td_is_dropped (st ! p)" "?old \<noteq> Some p"
      using nd by (simp_all add: nth_append)
    with pin inv have "occ_find occ (td_sender (st ! p)) (td_nonce (st ! p)) = Some p"
      by (simp add: ptr_inv_def)
    with core show ?thesis by (auto simp: find)
  qed
  ultimately show ?thesis
    using ps'(1) by (simp add: ptr_inv_def s')
qed

section \<open>Every operation keeps the invariant\<close>

lemma pool_new_wf: "pool_wf D (pool_new cap)"
  by (simp add: pool_wf_def pool_new_def ptr_inv_def occ_inv_def occ_find_def heap_ok_def
      map_inv_def sys_inv_def sys_bucket_new_def)

lemma map_inv_update: "map_inv tm \<Longrightarrow> map_inv (AList.update (stx_hash tx) tx tm)"
  unfolding map_inv_def using alist_update_facts(1,4) by fastforce

lemma store_grows_hash_in:
  assumes "store_grows (pl_store s) st'"
    and "\<forall>p \<in> set ps. p < length (pl_store s)"
    and "\<forall>p \<in> set ps. td_hash (deref s p) \<in> H"
  shows "\<forall>p \<in> set ps. td_hash (st' ! p) \<in> H"
  using assms by (simp add: store_grows_def)

lemma tx_digest_from_simps [simp]:
  "td_hash (tx_digest_from stx) = stx_hash stx"
  "td_nonce (tx_digest_from stx) = tx_nonce (stx_unsigned stx)"
  "td_sender (tx_digest_from stx) = stx_sender stx"
  "\<not> td_is_dropped (tx_digest_from stx)"
  by (simp_all add: tx_digest_from_def)

lemma occupy_new_hash:
  assumes "pl_store s = st @ [d]"
  shows "td_hash (pl_store (occupy_nonce (length st) s) ! length st) = td_hash d"
  using occupy_nonce_store_grows [of s "length st"] assms by (simp add: store_grows_def)

text \<open>
  What admitting a transaction does to the pointers: \<open>s1\<close> is the pool with the new
  digest allocated, \<open>q\<close> and \<open>c\<close> the queues afterwards.
\<close>

lemma admit_ptrs:
  assumes wf: "pool_wf D s" and st: "pl_store s1 = pl_store s @ [tx_digest_from tx]"
    and occ: "pl_occupied_nonce s1 = pl_occupied_nonce s"
    and ps': "distinct ps'"
      "set ps' \<subseteq> insert (length (pl_store s)) (set (pl_real_queue s @ pl_co_queue s))"
    and keys: "insert (stx_hash tx) (fst ` set (pl_tx_map s)) \<subseteq> H"
  shows "ptr_inv (pl_store (occupy_nonce (length (pl_store s)) s1))
           (pl_occupied_nonce (occupy_nonce (length (pl_store s)) s1)) ps'"
    and "heap_ok (ptr_le (pl_store (occupy_nonce (length (pl_store s)) s1))) (pl_real_queue s)"
    and "\<forall>p \<in> set ps'. td_hash (pl_store (occupy_nonce (length (pl_store s)) s1) ! p) \<in> H"
proof -
  let ?p = "length (pl_store s)" and ?ps = "pl_real_queue s @ pl_co_queue s"
  from wf have inv: "ptr_inv (pl_store s) (pl_occupied_nonce s) ?ps"
    and heap: "heap_ok (ptr_le (pl_store s)) (pl_real_queue s)"
    and hashes: "\<forall>p \<in> set ?ps. td_hash (deref s p) \<in> fst ` set (pl_tx_map s)"
    by (simp_all add: pool_wf_def)
  from inv have bound: "\<forall>p \<in> set ?ps. p < length (pl_store s)"
    by (simp add: ptr_inv_def)
  show "ptr_inv (pl_store (occupy_nonce ?p s1)) (pl_occupied_nonce (occupy_nonce ?p s1)) ps'"
    by (rule occupy_nonce_inv [OF inv _ st occ ps']) simp
  have grow: "store_grows (pl_store s) (pl_store (occupy_nonce ?p s1))"
    by (rule store_grows_trans [OF _ occupy_nonce_store_grows]) (simp add: st store_grows_append)
  show "heap_ok (ptr_le (pl_store (occupy_nonce ?p s1))) (pl_real_queue s)"
    by (rule store_grows_heap_ok [OF grow _ heap]) (use bound in auto)
  have "\<forall>p \<in> set ?ps. td_hash (pl_store (occupy_nonce ?p s1) ! p) \<in> H"
    by (rule store_grows_hash_in [OF grow bound]) (use hashes keys in blast)
  moreover have "td_hash (pl_store (occupy_nonce ?p s1) ! ?p) \<in> H"
    using occupy_new_hash [OF st] keys by simp
  ultimately show "\<forall>p \<in> set ps'. td_hash (pl_store (occupy_nonce ?p s1) ! p) \<in> H"
    using ps'(2) by blast
qed

lemma pool_insert_wf:
  assumes "pool_wf D s"
  shows "pool_wf D (fst (pool_insert stx s))"
proof (cases "reach_limit s")
  case True
  then show ?thesis using assms by (simp add: pool_insert_def)
next
  case False
  let ?p = "length (pl_store s)"
  define s2 where "s2 = co_push ?p (s\<lparr>pl_store := pl_store s @ [tx_digest_from stx]\<rparr>)"
  define s3 where "s3 = occupy_nonce ?p s2"
  define tm where "tm = AList.update (stx_hash stx) stx (pl_tx_map s)"
  have s2: "pl_store s2 = pl_store s @ [tx_digest_from stx]"
    "pl_occupied_nonce s2 = pl_occupied_nonce s" "pl_real_queue s2 = pl_real_queue s"
    "pl_tx_map s2 = pl_tx_map s" "pl_co_cap s2 = pl_co_cap s"
    "pl_sys_tx_bucket s2 = pl_sys_tx_bucket s"
    "pl_co_queue s2 = pl_co_queue s \<or> pl_co_queue s2 = pl_co_queue s @ [?p]"
    by (auto simp: s2_def co_push_def)
  have bound: "\<forall>p \<in> set (pl_real_queue s @ pl_co_queue s). p < ?p"
    and dist: "distinct (pl_real_queue s @ pl_co_queue s)"
    using assms by (auto simp: pool_wf_def ptr_inv_def)
  have ps': "distinct (pl_real_queue s3 @ pl_co_queue s3)"
    "set (pl_real_queue s3 @ pl_co_queue s3) \<subseteq> insert ?p (set (pl_real_queue s @ pl_co_queue s))"
    using s2(3,7) bound dist by (auto simp: s3_def)
  have keys: "insert (stx_hash stx) (fst ` set (pl_tx_map s)) \<subseteq> fst ` set tm"
    by (simp add: tm_def alist_update_facts(2))
  note admitted = admit_ptrs [OF assms s2(1,2) ps' keys, folded s3_def]
  have "length tm \<le> Suc (pl_co_cap s)"
    using False alist_update_facts(3) [of "stx_hash stx" stx "pl_tx_map s"]
    by (simp add: reach_limit_def pool_len_def tm_def)
  with assms admitted s2 have "pool_wf D (s3\<lparr>pl_tx_map := tm\<rparr>)"
    by (simp add: pool_wf_def s3_def tm_def map_inv_update)
  moreover have "fst (pool_insert stx s) = s3\<lparr>pl_tx_map := tm\<rparr>"
    using False s2(4)
    by (simp add: pool_insert_def get_tx_ptr_def Let_def s3_def s2_def tm_def)
  ultimately show ?thesis by simp
qed

lemma move_co_queue_wf:
  assumes "pool_wf D s"
  shows "pool_wf D (move_co_queue s)"
proof -
  let ?q = "foldl (\<lambda>q p. heap_push (ptr_le (pl_store s)) p q) (pl_real_queue s) (pl_co_queue s)"
  have m: "mset ?q = mset (pl_real_queue s @ pl_co_queue s)"
    by (simp add: mset_foldl_heap_push)
  then have same: "set ?q = set (pl_real_queue s @ pl_co_queue s)"
    "distinct ?q = distinct (pl_real_queue s @ pl_co_queue s)"
    by (metis mset_eq_setD, metis mset_eq_imp_distinct_iff)
  have "heap_ok (ptr_le (pl_store s)) ?q"
    using assms by (intro ptr_order.heap_foldl_push_ok) (simp add: pool_wf_def)
  with assms same show ?thesis
    by (simp add: pool_wf_def move_co_queue_def ptr_inv_def)
qed

lemma pool_package_wf: "pool_wf D s \<Longrightarrow> pool_wf D (fst (pool_package iter limit s))"
  by (simp add: pool_package_def Let_def move_co_queue_wf split: sum.split)

lemma bucket_ok_other:
  "bucket_ok D hm d m \<Longrightarrow> D h \<noteq> d \<Longrightarrow> bucket_ok D (hm(h := x)) d m"
  unfolding bucket_ok_def by fastforce

lemma bucket_ok_insert:
  assumes "m = [] \<or> bucket_ok D hm d m" and "D h = d"
  shows "bucket_ok D (hm(h \<mapsto> d)) d (btree_insert h stx m)"
  using assms by (auto simp: bucket_ok_def btree_ok_def [of "[_]"] btree_insert_ok set_btree_insert_keys)

lemma sys_bucket_insert_inv:
  assumes inv: "sys_inv D b" and data: "D (stx_hash stx) = tx_data (stx_unsigned stx)"
  shows "sys_inv D (sys_bucket_insert stx b)"
proof -
  let ?d = "tx_data (stx_unsigned stx)" and ?h = "stx_hash stx"
  let ?m = "case map_of (sb_tx_buckets b) ?d of None \<Rightarrow> [] | Some m \<Rightarrow> m"
  let ?hm = "(sb_hash_data_map b)(?h \<mapsto> ?d)"
  have "?m = [] \<or> bucket_ok D (sb_hash_data_map b) ?d ?m"
    using inv by (cases "map_of (sb_tx_buckets b) ?d") (simp_all add: sys_inv_def)
  then have new: "bucket_ok D ?hm ?d (btree_insert ?h stx ?m)"
    using data by (rule bucket_ok_insert)
  have "bucket_ok D ?hm d m" if "map_of (sb_tx_buckets b) d = Some m" "d \<noteq> ?d" for d m
    using that inv data by (simp add: sys_inv_def bucket_ok_other)
  with new inv data show ?thesis
    by (auto simp: sys_inv_def sys_bucket_insert_def Let_def alist_update_facts(1) split: if_splits)
qed

lemma insert_system_script_tx_wf:
  "pool_wf D s \<Longrightarrow> D (stx_hash stx) = tx_data (stx_unsigned stx) \<Longrightarrow>
   pool_wf D (fst (insert_system_script_tx stx s))"
  by (simp add: pool_wf_def insert_system_script_tx_def sys_bucket_insert_inv)

lemma sys_bucket_flush_inv: "sys_inv D b \<Longrightarrow> sys_inv D (sys_bucket_flush hashes b)"
proof (induction hashes arbitrary: b)
  case Nil
  then show ?case by (simp add: sys_bucket_flush_def)
next
  case (Cons h hashes)
  let ?b = "case sb_hash_data_map b h of None \<Rightarrow> b
     | Some data \<Rightarrow> b\<lparr>sb_hash_data_map := (sb_hash_data_map b)(h := None),
                     sb_tx_buckets := AList.delete data (sb_tx_buckets b)\<rparr>"
  have "sys_inv D ?b"
  proof (cases "sb_hash_data_map b h")
    case None
    then show ?thesis using Cons.prems by simp
  next
    case (Some data)
    from Cons.prems have inv: "distinct (map fst (sb_tx_buckets b))"
      "\<And>h d. sb_hash_data_map b h = Some d \<Longrightarrow> d = D h"
      "\<And>d m. map_of (sb_tx_buckets b) d = Some m \<Longrightarrow> bucket_ok D (sb_hash_data_map b) d m"
      by (simp_all add: sys_inv_def)
    have "d \<noteq> data \<Longrightarrow> D h \<noteq> d" for d
      using inv(2) [OF Some] by simp
    with inv show ?thesis
      by (auto simp: sys_inv_def distinct_delete Some intro!: bucket_ok_other split: if_splits)
  qed
  then have "sys_inv D (sys_bucket_flush hashes ?b)" by (rule Cons.IH)
  then show ?case by (simp add: sys_bucket_flush_def)
qed

lemma map_inv_delete: "map_inv tm \<Longrightarrow> map_inv (AList.delete h tm)"
  by (simp add: map_inv_def AList.delete_eq distinct_map_filter)

lemma map_inv_filter: "map_inv tm \<Longrightarrow> map_inv (filter P tm)"
  by (simp add: map_inv_def distinct_map_filter)

lemma alist_delete_length: "length (AList.delete h tm) \<le> length tm"
  by (simp add: AList.delete_eq)

definition dropped_hashes :: "priority_pool \<Rightarrow> hash set" where
  "dropped_hashes s =
     (\<lambda>p. td_hash (deref s p)) ` {p \<in> set (pl_real_queue s @ pl_co_queue s). td_is_dropped (deref s p)}"

lemma foldl_delete_hashes:
  "foldl (\<lambda>m h. AList.delete h m) m hs = filter (\<lambda>e. fst e \<notin> set hs) m"
  by (induction hs arbitrary: m) (auto simp: AList.delete_eq split_def intro: filter_cong)

lemma foldl_delete_dropped:
  "foldl (\<lambda>m p. if d p then AList.delete (f p) m else m) m ps =
   filter (\<lambda>e. fst e \<notin> f ` {p \<in> set ps. d p}) m"
proof -
  have "foldl (\<lambda>m p. if d p then AList.delete (f p) m else m) m ps =
      foldl (\<lambda>m h. AList.delete h m) m (map f (filter d ps))"
    by (induction ps arbitrary: m) simp_all
  then show ?thesis by (simp add: foldl_delete_hashes)
qed

lemma get_residual_tx_map:
  "pl_tx_map (get_residual hashes nc s) =
     filter (\<lambda>(h, tx). h \<notin> set hashes \<and> h \<notin> dropped_hashes s \<and> nc tx) (pl_tx_map s)"
  unfolding get_residual_def Let_def foldl_delete_hashes foldl_delete_dropped dropped_hashes_def
  by (simp add: split_def conj_ac)

lemma get_residual_frame [simp]:
  "pl_real_queue (get_residual hashes nc s) = []" "pl_co_queue (get_residual hashes nc s) = []"
  "pl_co_cap (get_residual hashes nc s) = pl_co_cap s"
  "pl_sys_tx_bucket (get_residual hashes nc s) = pl_sys_tx_bucket s"
  by (simp_all add: get_residual_def Let_def)

lemma requeue_frame [simp]:
  "pl_tx_map (requeue tx s) = pl_tx_map s"
  "pl_co_queue (requeue tx s) = pl_co_queue s"
  "pl_co_cap (requeue tx s) = pl_co_cap s"
  "pl_sys_tx_bucket (requeue tx s) = pl_sys_tx_bucket s"
  by (simp_all add: requeue_def get_tx_ptr_def Let_def)

lemma requeue_wf:
  assumes wf: "pool_wf D s" and tx: "stx_hash tx \<in> fst ` set (pl_tx_map s)"
  shows "pool_wf D (requeue tx s)"
proof -
  let ?p = "length (pl_store s)"
  define s1 where "s1 = s\<lparr>pl_store := pl_store s @ [tx_digest_from tx]\<rparr>"
  define s2 where "s2 = occupy_nonce ?p s1"
  define q where "q = heap_push (ptr_le (pl_store s2)) ?p (pl_real_queue s)"
  have bound: "\<forall>p \<in> set (pl_real_queue s @ pl_co_queue s). p < ?p"
    and dist: "distinct (pl_real_queue s @ pl_co_queue s)"
    using wf by (auto simp: pool_wf_def ptr_inv_def)
  then have ps': "distinct (q @ pl_co_queue s)"
    "set (q @ pl_co_queue s) \<subseteq> insert ?p (set (pl_real_queue s @ pl_co_queue s))"
    by (auto simp: q_def)
  have "pl_store s1 = pl_store s @ [tx_digest_from tx]"
    "pl_occupied_nonce s1 = pl_occupied_nonce s"
    "insert (stx_hash tx) (fst ` set (pl_tx_map s)) \<subseteq> fst ` set (pl_tx_map s)"
    using tx by (simp_all add: s1_def)
  note admitted = admit_ptrs [OF wf this(1,2) ps' this(3), folded s2_def]
  have "heap_ok (ptr_le (pl_store s2)) q"
    unfolding q_def by (rule ptr_order.heap_push_ok) (rule admitted(2))
  with wf admitted have "pool_wf D (s2\<lparr>pl_real_queue := q\<rparr>)"
    by (simp add: pool_wf_def s2_def s1_def)
  moreover have "requeue tx s = s2\<lparr>pl_real_queue := q\<rparr>"
    by (simp add: requeue_def get_tx_ptr_def Let_def s2_def s1_def q_def)
  ultimately show ?thesis by simp
qed

lemma foldl_requeue_wf:
  "pool_wf D s \<Longrightarrow> fst ` set kvs \<subseteq> fst ` set (pl_tx_map s) \<Longrightarrow> \<forall>e \<in> set kvs. fst e = stx_hash (snd e) \<Longrightarrow>
   pool_wf D (foldl (\<lambda>s kv. requeue (snd kv) s) s kvs)"
  by (induction kvs arbitrary: s) (simp_all add: requeue_wf)

lemma pool_flush_wf:
  assumes wf: "pool_wf D s" and iter: "\<And>xs. mset (iter xs) = mset xs"
  shows "pool_wf D (pool_flush iter hashes nc s)"
proof -
  let ?s1 = "get_residual hashes nc s"
  let ?s2 = "?s1\<lparr>pl_occupied_nonce := Map.empty,
      pl_sys_tx_bucket := sys_bucket_flush hashes (pl_sys_tx_bucket ?s1)\<rparr>"
  from wf have tm: "map_inv (pl_tx_map s)" by (simp add: pool_wf_def)
  have "pool_wf D ?s2"
    using wf tm order_trans [OF length_filter_le, of "pl_tx_map s" "Suc (pl_co_cap s)"]
    by (simp add: pool_wf_def get_residual_tx_map map_inv_filter get_residual_frame ptr_inv_def
        occ_inv_def occ_find_def heap_ok_def sys_bucket_flush_inv)
  moreover have "set (iter (pl_tx_map ?s1)) = set (pl_tx_map ?s1)"
    by (rule mset_eq_setD [OF iter])
  moreover have "\<forall>e \<in> set (pl_tx_map ?s1). fst e = stx_hash (snd e)"
    using tm by (simp add: get_residual_tx_map map_inv_def)
  ultimately have "pool_wf D (foldl (\<lambda>s kv. requeue (snd kv) s) ?s2 (iter (pl_tx_map ?s1)))"
    by (intro foldl_requeue_wf) simp_all
  then show ?thesis by (simp only: pool_flush_def Let_def)
qed

section \<open>Reachable pools\<close>

text \<open>
  The pool as a state machine. The background task of \<open>PriorityPool::new\<close> moves the
  concurrent queue into the heap at any time; insertions, packaging and flushes
  are atomic steps (the flush lock keeps flushes apart from everything else).
  \<open>D\<close> gives the call data of the transaction with a given hash: a hash determines
  its transaction.
\<close>

inductive pool_reachable :: "(hash \<Rightarrow> bytes) \<Rightarrow> nat \<Rightarrow> priority_pool \<Rightarrow> bool" for D cap where
  reach_new: "pool_reachable D cap (pool_new cap)"
| reach_insert: "pool_reachable D cap s \<Longrightarrow> pool_reachable D cap (fst (pool_insert stx s))"
| reach_insert_sys: "pool_reachable D cap s \<Longrightarrow> D (stx_hash stx) = tx_data (stx_unsigned stx) \<Longrightarrow>
    pool_reachable D cap (fst (insert_system_script_tx stx s))"
| reach_task: "pool_reachable D cap s \<Longrightarrow> pool_reachable D cap (move_co_queue s)"
| reach_package: "pool_reachable D cap s \<Longrightarrow> pool_reachable D cap (fst (pool_package iter limit s))"
| reach_flush: "pool_reachable D cap s \<Longrightarrow> (\<And>xs. mset (iter xs) = mset xs) \<Longrightarrow>
    pool_reachable D cap (pool_flush iter hashes nc s)"

lemma reachable_wf: "pool_reachable D cap s \<Longrightarrow> pool_wf D s"
  by (induction rule: pool_reachable.induct)
    (simp_all add: pool_new_wf pool_insert_wf insert_system_script_tx_wf move_co_queue_wf
      pool_package_wf pool_flush_wf)

lemma foldl_requeue_frame:
  "pl_tx_map (foldl (\<lambda>s kv. requeue (snd kv) s) s kvs) = pl_tx_map s"
  "pl_co_queue (foldl (\<lambda>s kv. requeue (snd kv) s) s kvs) = pl_co_queue s"
  "pl_co_cap (foldl (\<lambda>s kv. requeue (snd kv) s) s kvs) = pl_co_cap s"
  "pl_sys_tx_bucket (foldl (\<lambda>s kv. requeue (snd kv) s) s kvs) = pl_sys_tx_bucket s"
  by (induction kvs arbitrary: s) simp_all

lemma pool_flush_frame:
  "pl_tx_map (pool_flush iter hashes nc s) = pl_tx_map (get_residual hashes nc s)"
  "pl_co_queue (pool_flush iter hashes nc s) = []"
  "pl_co_cap (pool_flush iter hashes nc s) = pl_co_cap s"
  "pl_sys_tx_bucket (pool_flush iter hashes nc s) = sys_bucket_flush hashes (pl_sys_tx_bucket s)"
  by (simp_all add: pool_flush_def Let_def foldl_requeue_frame)

lemma pool_insert_frame [simp]:
  "pl_co_cap (fst (pool_insert stx s)) = pl_co_cap s"
  "pl_sys_tx_bucket (fst (pool_insert stx s)) = pl_sys_tx_bucket s"
  by (simp_all add: pool_insert_def get_tx_ptr_def co_push_def Let_def)

lemma reachable_cap: "pool_reachable D cap s \<Longrightarrow> pl_co_cap s = cap"
  by (induction rule: pool_reachable.induct)
    (simp_all add: pool_new_def insert_system_script_tx_def move_co_queue_def pool_package_def
      Let_def pool_flush_frame split: sum.split)

lemma sys_package_ok:
  assumes "sys_inv D b" and "\<And>xs. mset (iter xs) = mset xs"
  shows "sys_bucket_package iter b = Inr (map (\<lambda>kv. fst (hd (snd kv))) (iter (sb_tx_buckets b)))"
  unfolding sys_bucket_package_def
proof (rule res_map_all_ok)
  fix kv assume "kv \<in> set (iter (sb_tx_buckets b))"
  then have "kv \<in> set (sb_tx_buckets b)"
    using mset_eq_setD [OF assms(2)] by blast
  then have "map_of (sb_tx_buckets b) (fst kv) = Some (snd kv)"
    using assms(1) by (simp add: sys_inv_def)
  then have "bucket_ok D (sb_hash_data_map b) (fst kv) (snd kv)"
    using assms(1) unfolding sys_inv_def by blast
  then have "snd kv \<noteq> []" by (simp add: bucket_ok_def)
  then show "(case snd kv of [] \<Rightarrow> Inl PoolPanic | (h, _) # _ \<Rightarrow> Inr h) = Inr (fst (hd (snd kv)))"
    by (auto split: list.split)
qed

lemma sys_packaged_contained:
  assumes "sys_inv D b" and "\<And>xs. mset (iter xs) = mset xs"
    and "sys_bucket_package iter b = Inr hs" and "h \<in> set hs"
  shows "sys_bucket_contains b h"
proof -
  from assms obtain kv where kv: "kv \<in> set (iter (sb_tx_buckets b))" "h = fst (hd (snd kv))"
    using sys_package_ok [OF assms(1,2)] by auto
  then have "kv \<in> set (sb_tx_buckets b)"
    using mset_eq_setD [OF assms(2)] by blast
  then have m: "map_of (sb_tx_buckets b) (fst kv) = Some (snd kv)"
    using assms(1) by (simp add: sys_inv_def)
  then have ok: "bucket_ok D (sb_hash_data_map b) (fst kv) (snd kv)"
    using assms(1) by (simp add: sys_inv_def)
  then have "hd (snd kv) \<in> set (snd kv)" by (simp add: bucket_ok_def)
  with ok kv(2) have "sb_hash_data_map b h = Some (fst kv)" "map_of (snd kv) h \<noteq> None"
    by (auto simp: bucket_ok_def map_of_eq_None_iff)
  with m show ?thesis by (simp add: sys_bucket_contains_def)
qed

lemma mset_move_co_queue:
  "mset (pl_real_queue (move_co_queue s)) = mset (pl_real_queue s) + mset (pl_co_queue s)"
  by (simp add: move_co_queue_def mset_foldl_heap_push)

lemma live_ptrs_distinct:
  assumes inv: "ptr_inv st occ ps"
  shows "distinct (map (\<lambda>p. (td_sender (st ! p), td_nonce (st ! p)))
           (filter (\<lambda>p. \<not> td_is_dropped (st ! p)) ps))"
proof -
  let ?L = "filter (\<lambda>p. \<not> td_is_dropped (st ! p)) ps"
  have "inj_on (\<lambda>p. (td_sender (st ! p), td_nonce (st ! p))) (set ?L)"
  proof (rule inj_onI)
    fix p p' assume p: "p \<in> set ?L" "p' \<in> set ?L"
      and eq: "(td_sender (st ! p), td_nonce (st ! p)) = (td_sender (st ! p'), td_nonce (st ! p'))"
    from p have "occ_find occ (td_sender (st ! p)) (td_nonce (st ! p)) = Some p"
      "occ_find occ (td_sender (st ! p')) (td_nonce (st ! p')) = Some p'"
      using inv unfolding ptr_inv_def by auto
    then show "p = p'" using eq by (metis Pair_inject option.inject)
  qed
  then show ?thesis
    using inv by (simp add: distinct_map ptr_inv_def)
qed

lemma pool_package_ok:
  assumes wf: "pool_wf D s" and iter: "\<And>xs. mset (iter xs) = mset xs"
  shows "pool_package iter limit s = (move_co_queue s,
     Inr (map (\<lambda>kv. fst (hd (snd kv))) (iter (sb_tx_buckets (pl_sys_tx_bucket s))) @
          map (\<lambda>p. td_hash (deref s p))
            (take limit (filter (\<lambda>p. \<not> td_is_dropped (deref s p)) (pl_real_queue (move_co_queue s))))))"
proof -
  have "sys_inv D (pl_sys_tx_bucket s)" using wf by (simp add: pool_wf_def)
  moreover have "pl_store (move_co_queue s) = pl_store s" by (simp add: move_co_queue_def)
  ultimately show ?thesis
    by (simp add: pool_package_def sys_package_ok [OF _ iter] Let_def take_map)
qed

lemma requeue_hashes:
  assumes "\<forall>p \<in> set (pl_real_queue s). p < length (pl_store s)"
  shows "mset (map (\<lambda>p. td_hash (deref (requeue tx s) p)) (pl_real_queue (requeue tx s))) =
           add_mset (stx_hash tx) (mset (map (\<lambda>p. td_hash (deref s p)) (pl_real_queue s)))"
    and "\<forall>p \<in> set (pl_real_queue (requeue tx s)). p < length (pl_store (requeue tx s))"
proof -
  let ?s1 = "s\<lparr>pl_store := pl_store s @ [tx_digest_from tx]\<rparr>" and ?p = "length (pl_store s)"
  let ?s2 = "occupy_nonce ?p ?s1"
  have rq: "requeue tx s = ?s2\<lparr>pl_real_queue := heap_push (ptr_le (pl_store ?s2)) ?p (pl_real_queue s)\<rparr>"
    by (simp add: requeue_def get_tx_ptr_def Let_def)
  have new: "td_hash (pl_store ?s2 ! ?p) = stx_hash tx"
    using occupy_new_hash [of ?s1 "pl_store s" "tx_digest_from tx"] by simp
  have grow: "store_grows (pl_store s) (pl_store ?s2)"
    by (rule store_grows_trans [OF _ occupy_nonce_store_grows]) (simp add: store_grows_append)
  then have old: "map (\<lambda>p. td_hash (pl_store ?s2 ! p)) (pl_real_queue s) =
      map (\<lambda>p. td_hash (deref s p)) (pl_real_queue s)"
    using assms by (simp add: store_grows_def)
  have "mset (map f (heap_push le x q)) = add_mset (f x) (mset (map f q))" for f :: "nat \<Rightarrow> hash" and le x q
    by (simp add: mset_map)
  note push = this [of "\<lambda>p. td_hash (pl_store ?s2 ! p)"]
  show "mset (map (\<lambda>p. td_hash (deref (requeue tx s) p)) (pl_real_queue (requeue tx s))) =
           add_mset (stx_hash tx) (mset (map (\<lambda>p. td_hash (deref s p)) (pl_real_queue s)))"
    unfolding rq by (simp add: push new old del: mset_map map_eq_conv)
  show "\<forall>p \<in> set (pl_real_queue (requeue tx s)). p < length (pl_store (requeue tx s))"
    unfolding rq using assms by auto
qed

lemma foldl_requeue_hashes:
  "\<forall>p \<in> set (pl_real_queue s). p < length (pl_store s) \<Longrightarrow>
   mset (map (\<lambda>p. td_hash (deref (foldl (\<lambda>s kv. requeue (snd kv) s) s kvs) p))
      (pl_real_queue (foldl (\<lambda>s kv. requeue (snd kv) s) s kvs))) =
   mset (map (\<lambda>p. td_hash (deref s p)) (pl_real_queue s)) + mset (map (\<lambda>kv. stx_hash (snd kv)) kvs)"
proof (induction kvs arbitrary: s)
  case Nil
  then show ?case by simp
next
  case (Cons kv kvs)
  note rq = requeue_hashes [OF Cons.prems, of "snd kv"]
  show ?case
    using Cons.IH [OF rq(2)] rq(1) by simp
qed

lemma pool_flush_queue:
  assumes "map_inv (pl_tx_map s)" and "\<And>xs. mset (iter xs) = mset xs"
  shows "mset (map (\<lambda>p. td_hash (deref (pool_flush iter hashes nc s) p))
             (pl_real_queue (pool_flush iter hashes nc s))) =
         mset (map fst (pl_tx_map (get_residual hashes nc s)))"
proof -
  let ?tm = "pl_tx_map (get_residual hashes nc s)"
  have "\<forall>e \<in> set ?tm. stx_hash (snd e) = fst e"
    using assms(1) by (auto simp: get_residual_tx_map map_inv_def)
  then have "map (\<lambda>kv. stx_hash (snd kv)) ?tm = map fst ?tm" by simp
  then have "mset (map (\<lambda>kv. stx_hash (snd kv)) (iter ?tm)) = mset (map fst ?tm)"
    using arg_cong [OF assms(2) [of ?tm], of "image_mset (\<lambda>kv. stx_hash (snd kv))"]
    by (simp flip: mset_map del: map_eq_conv)
  then show ?thesis
    unfolding pool_flush_def Let_def by (subst foldl_requeue_hashes) simp_all
qed

lemma pool_insert_state:
  assumes wf: "pool_wf D s" and room: "\<not> reach_limit s"
  shows "snd (pool_insert stx s) = Inr ()"
    and "pl_tx_map (fst (pool_insert stx s)) = AList.update (stx_hash stx) stx (pl_tx_map s)"
    and "pl_store (fst (pool_insert stx s)) =
      drop_at (occ_find (pl_occupied_nonce s) (stx_sender stx) (tx_nonce (stx_unsigned stx)))
        (pl_store s @ [tx_digest_from stx])"
    and "occ_find (pl_occupied_nonce (fst (pool_insert stx s))) a n =
      (if a = stx_sender stx \<and> n = tx_nonce (stx_unsigned stx) then Some (length (pl_store s))
       else occ_find (pl_occupied_nonce s) a n)"
    and "pl_co_queue (fst (pool_insert stx s)) =
      (if length (pl_co_queue s) < pl_co_cap s then pl_co_queue s @ [length (pl_store s)]
       else pl_co_queue s)"
proof -
  let ?p = "length (pl_store s)"
  define s2 where "s2 = co_push ?p (s\<lparr>pl_store := pl_store s @ [tx_digest_from stx]\<rparr>)"
  have s2: "pl_store s2 = pl_store s @ [tx_digest_from stx]" "pl_tx_map s2 = pl_tx_map s"
    "pl_occupied_nonce s2 = pl_occupied_nonce s"
    "pl_co_queue s2 = (if length (pl_co_queue s) < pl_co_cap s then pl_co_queue s @ [?p] else pl_co_queue s)"
    by (simp_all add: s2_def co_push_def)
  have ins: "pool_insert stx s =
      ((occupy_nonce ?p s2)\<lparr>pl_tx_map := AList.update (stx_hash stx) stx (pl_tx_map s)\<rparr>, Inr ())"
    using room s2(2) by (simp add: pool_insert_def get_tx_ptr_def Let_def s2_def)
  have sorted: "\<forall>a m. pl_occupied_nonce s a = Some m \<longrightarrow> btree_ok m"
    using wf by (simp add: pool_wf_def ptr_inv_def occ_inv_def)
  note occ = occupy_nonce_eq [of ?p s2, simplified s2(1,3), simplified]
  show "snd (pool_insert stx s) = Inr ()"
    and "pl_tx_map (fst (pool_insert stx s)) = AList.update (stx_hash stx) stx (pl_tx_map s)"
    and "pl_co_queue (fst (pool_insert stx s)) =
      (if length (pl_co_queue s) < pl_co_cap s then pl_co_queue s @ [?p] else pl_co_queue s)"
    by (simp_all add: ins s2(4))
  show "pl_store (fst (pool_insert stx s)) =
      drop_at (occ_find (pl_occupied_nonce s) (stx_sender stx) (tx_nonce (stx_unsigned stx)))
        (pl_store s @ [tx_digest_from stx])"
    by (simp add: ins occ(1))
  show "occ_find (pl_occupied_nonce (fst (pool_insert stx s))) a n =
      (if a = stx_sender stx \<and> n = tx_nonce (stx_unsigned stx) then Some ?p
       else occ_find (pl_occupied_nonce s) a n)"
    by (simp add: ins occ(2) occ_find_insert [OF sorted] del: map_upd_triv fun_upd_apply)
qed

section \<open>What the pool promises\<close>

lemma mset_id: "mset (id xs) = mset xs"
  by simp

definition sample_pool :: priority_pool where
  "sample_pool =
     fst (pool_insert (sample_stx 3 7 5 20) (fst (pool_insert (sample_stx 2 7 1 10)
       (fst (insert_system_script_tx (sample_stx 1 9 0 0) (pool_new 10))))))"

lemma sample_pool_reachable: "pool_reachable (\<lambda>_. []) 10 sample_pool"
  unfolding sample_pool_def by (intro reach_insert reach_insert_sys reach_new) simp

text \<open>
  Property C9. Packaging a reachable pool never panics, whatever the order in
  which the buckets are visited. It returns one hash per bucket of system script
  transactions and then at most \<open>limit\<close> hashes of queued transactions; those are
  live and have pairwise different (sender, nonce), every returned hash can be
  found in the pool, and the head of the queue they are taken from has the highest
  priority of all queued transactions.
\<close>

theorem pool_package_safe:
  assumes "pool_reachable D cap s" and "\<And>xs. mset (iter xs) = mset xs"
  shows "\<exists>sys live. pool_package iter limit s =
           (move_co_queue s, Inr (sys @ map (\<lambda>p. td_hash (deref s p)) live)) \<and>
         length sys = length (sb_tx_buckets (pl_sys_tx_bucket s)) \<and>
         length live \<le> limit \<and>
         set live \<subseteq> {p \<in> set (pl_real_queue s @ pl_co_queue s). \<not> td_is_dropped (deref s p)} \<and>
         distinct (map (\<lambda>p. (td_sender (deref s p), td_nonce (deref s p))) live) \<and>
         (\<forall>h \<in> set (sys @ map (\<lambda>p. td_hash (deref s p)) live). pool_contains s h) \<and>
         (\<forall>p \<in> set (pl_real_queue s @ pl_co_queue s).
            tx_digest_le (deref s p) (deref s (hd (pl_real_queue (move_co_queue s)))))"
proof -
  let ?s' = "move_co_queue s" and ?b = "pl_sys_tx_bucket s"
  let ?sys = "map (\<lambda>kv. fst (hd (snd kv))) (iter (sb_tx_buckets ?b))"
  let ?all = "filter (\<lambda>p. \<not> td_is_dropped (deref s p)) (pl_real_queue ?s')"
  let ?live = "take limit ?all"
  have wf: "pool_wf D s" using assms(1) by (rule reachable_wf)
  then have wf': "pool_wf D ?s'" by (rule move_co_queue_wf)
  have st: "pl_store ?s' = pl_store s" "pl_tx_map ?s' = pl_tx_map s" "pl_co_queue ?s' = []"
    by (simp_all add: move_co_queue_def)
  have inv: "ptr_inv (pl_store s) (pl_occupied_nonce ?s') (pl_real_queue ?s')"
    and sys: "sys_inv D ?b" and heap: "heap_ok (ptr_le (pl_store s)) (pl_real_queue ?s')"
    and hashes: "\<forall>p \<in> set (pl_real_queue ?s'). td_hash (deref s p) \<in> fst ` set (pl_tx_map s)"
    using wf wf' st by (simp_all add: pool_wf_def)
  have q: "set (pl_real_queue ?s') = set (pl_real_queue s @ pl_co_queue s)"
    using mset_move_co_queue [of s] by (intro mset_eq_setD) simp
  have live: "set ?live \<subseteq> {p \<in> set (pl_real_queue s @ pl_co_queue s). \<not> td_is_dropped (deref s p)}"
    unfolding q [symmetric] using set_take_subset [of limit ?all] by simp
  have "distinct (map (\<lambda>p. (td_sender (deref s p), td_nonce (deref s p))) ?live)"
    using live_ptrs_distinct [OF inv] by (simp only: take_map [symmetric] distinct_take)
  moreover have "length ?sys = length (sb_tx_buckets ?b)"
    using assms(2) by (metis length_map size_mset)
  moreover have "sys_bucket_package iter ?b = Inr ?sys"
    by (rule sys_package_ok [OF sys assms(2)])
  then have "\<forall>h \<in> set ?sys. sys_bucket_contains ?b h"
    using sys_packaged_contained [OF sys assms(2)] by blast
  moreover have "\<forall>h \<in> set (map (\<lambda>p. td_hash (deref s p)) ?live). map_of (pl_tx_map s) h \<noteq> None"
    using live q hashes by (auto simp: map_of_eq_None_iff)
  moreover have "tx_digest_le (deref s p) (deref s (hd (pl_real_queue ?s')))"
    if "p \<in> set (pl_real_queue ?s')" for p
    using that ptr_order.heap_root_max [OF heap]
    by (metis hd_conv_nth in_set_conv_nth list.size(3) not_less_zero ptr_le_def)
  ultimately show ?thesis
    using pool_package_ok [OF wf assms(2), of limit] live q
    by (intro exI [of _ ?sys] exI [of _ ?live]) (auto simp: pool_contains_def)
qed

theorem pool_package_safe_witness:
  "\<exists>sys live. pool_package id 2 sample_pool =
       (move_co_queue sample_pool, Inr (sys @ map (\<lambda>p. td_hash (deref sample_pool p)) live)) \<and>
     length sys = 1 \<and> length live \<le> 2 \<and>
     distinct (map (\<lambda>p. (td_sender (deref sample_pool p), td_nonce (deref sample_pool p))) live)"
proof -
  have "length (sb_tx_buckets (pl_sys_tx_bucket sample_pool)) = 1" by code_simp
  then show ?thesis
    using pool_package_safe [where iter = id and limit = 2, OF sample_pool_reachable mset_id] by auto
qed

text \<open>
  A reachable pool of capacity \<open>cap\<close> never holds more than \<open>cap + 1\<close>
  transactions. An insertion fails exactly when it holds \<open>cap + 1\<close>, with the
  number of transactions as the error, and then changes nothing; an accepted
  transaction is found under its hash, every other hash keeps its transaction, and
  the transaction is the only live one of its sender and nonce.
\<close>

theorem pool_insert_correct:
  assumes "pool_reachable D cap s"
  shows "length (pl_tx_map s) \<le> cap + 1 \<and>
         (case pool_insert stx s of
            (s', Inl e) \<Rightarrow> s' = s \<and> e = ReachLimit (length (pl_tx_map s)) \<and> length (pl_tx_map s) = cap + 1
          | (s', Inr _) \<Rightarrow> length (pl_tx_map s) \<le> cap \<and>
              (\<forall>h. get_by_hash s' h = (if h = stx_hash stx then Some stx else get_by_hash s h)) \<and>
              (\<exists>p. occ_find (pl_occupied_nonce s') (stx_sender stx) (tx_nonce (stx_unsigned stx)) = Some p \<and>
                   td_hash (deref s' p) = stx_hash stx \<and> \<not> td_is_dropped (deref s' p)))"
proof -
  have wf: "pool_wf D s" and cap: "pl_co_cap s = cap"
    using assms by (rule reachable_wf, rule reachable_cap)
  then have len: "length (pl_tx_map s) \<le> cap + 1" by (simp add: pool_wf_def)
  show ?thesis
  proof (cases "reach_limit s")
    case True
    then show ?thesis
      using len cap by (simp add: pool_insert_def reach_limit_def pool_len_def)
  next
    case False
    obtain s' where s': "pool_insert stx s = (s', Inr ())"
      using pool_insert_state(1) [OF wf False] by (metis prod.collapse)
    note ins = pool_insert_state [OF wf False, of stx, unfolded s' fst_conv]
    have "occ_inv (pl_store s') (pl_occupied_nonce s')"
      using pool_insert_wf [OF wf, of stx] s' by (simp add: pool_wf_def ptr_inv_def)
    moreover have find: "occ_find (pl_occupied_nonce s') (stx_sender stx) (tx_nonce (stx_unsigned stx))
        = Some (length (pl_store s))"
      by (simp add: ins(4))
    ultimately have "\<not> td_is_dropped (deref s' (length (pl_store s)))"
      by (auto simp: occ_inv_def entry_ok_def)
    moreover have "td_hash (deref s' (length (pl_store s))) = stx_hash stx"
      by (simp add: ins(3))
    moreover have "pl_sys_tx_bucket s' = pl_sys_tx_bucket s"
      using pool_insert_frame(2) [of stx s] s' by simp
    then have "get_by_hash s' h = (if h = stx_hash stx then Some stx else get_by_hash s h)" for h
      by (simp add: get_by_hash_def ins(2) split: option.split)
    moreover have "length (pl_tx_map s) \<le> cap"
      using False cap by (simp add: reach_limit_def pool_len_def)
    ultimately show ?thesis
      using len find by (simp add: s')
  qed
qed

theorem pool_insert_correct_witness:
  "length (pl_tx_map sample_pool) \<le> 10 + 1 \<and>
   get_by_hash (fst (pool_insert (sample_stx 4 8 1 1) sample_pool)) 4 = Some (sample_stx 4 8 1 1)"
proof -
  have "\<exists>s'. pool_insert (sample_stx 4 8 1 1) sample_pool = (s', Inr ())"
    by (simp add: pool_insert_def reach_limit_def pool_len_def Let_def get_tx_ptr_def)
       (code_simp)
  then show ?thesis
    using pool_insert_correct [OF sample_pool_reachable, of "sample_stx 4 8 1 1"] by auto
qed

lemma sys_bucket_flush_map:
  "sb_hash_data_map (sys_bucket_flush hashes b) h =
     (if h \<in> set hashes then None else sb_hash_data_map b h)"
proof -
  have "sb_hash_data_map (foldl (\<lambda>b h. case sb_hash_data_map b h of
                None \<Rightarrow> b
              | Some data \<Rightarrow>
                  b\<lparr>sb_hash_data_map := (sb_hash_data_map b)(h := None),
                    sb_tx_buckets := AList.delete data (sb_tx_buckets b)\<rparr>) b hashes) h =
     (if h \<in> set hashes then None else sb_hash_data_map b h)"
    by (induction hashes arbitrary: b) (auto split: option.split)
  then show ?thesis by (simp add: sys_bucket_flush_def)
qed

lemma map_of_filter_key:
  assumes "distinct (map fst m)"
  shows "map_of (filter (\<lambda>(k, v). P k v) m) k =
     (case map_of m k of None \<Rightarrow> None | Some v \<Rightarrow> if P k v then Some v else None)"
  using assms by (induction m) (auto split: option.splits simp: map_of_eq_None_iff)

text \<open>
  Property C10. After a flush a transaction is in the pool exactly if it was there
  before, is not one of the flushed hashes, was not replaced (no queued digest of
  its hash is dropped) and passes the nonce check; the queue then holds each of
  the remaining transactions exactly once, the concurrent queue is empty, and no
  flushed hash, of a system script transaction or not, is found any more.
\<close>

theorem pool_flush_exact:
  assumes "pool_reachable D cap s" and "\<And>xs. mset (iter xs) = mset xs"
  shows "(\<forall>h. map_of (pl_tx_map (pool_flush iter hashes nc s)) h =
            (if h \<in> set hashes \<or> h \<in> dropped_hashes s then None
             else case map_of (pl_tx_map s) h of
                 None \<Rightarrow> None | Some tx \<Rightarrow> if nc tx then Some tx else None)) \<and>
         mset (map (\<lambda>p. td_hash (deref (pool_flush iter hashes nc s) p))
             (pl_real_queue (pool_flush iter hashes nc s))) =
           mset (map fst (pl_tx_map (pool_flush iter hashes nc s))) \<and>
         pl_co_queue (pool_flush iter hashes nc s) = [] \<and>
         (\<forall>h \<in> set hashes. \<not> pool_contains (pool_flush iter hashes nc s) h)"
proof -
  have tm: "map_inv (pl_tx_map s)"
    using reachable_wf [OF assms(1)] by (simp add: pool_wf_def)
  then have dist: "distinct (map fst (pl_tx_map s))" by (simp add: map_inv_def)
  have look: "map_of (pl_tx_map (pool_flush iter hashes nc s)) h =
            (if h \<in> set hashes \<or> h \<in> dropped_hashes s then None
             else case map_of (pl_tx_map s) h of
                 None \<Rightarrow> None | Some tx \<Rightarrow> if nc tx then Some tx else None)" for h
    unfolding pool_flush_frame get_residual_tx_map map_of_filter_key [OF dist]
    by (auto split: option.split)
  have "\<not> pool_contains (pool_flush iter hashes nc s) h" if "h \<in> set hashes" for h
    using that look [of h]
    by (simp add: pool_contains_def sys_bucket_contains_def pool_flush_frame(4) sys_bucket_flush_map)
  with look show ?thesis
    using pool_flush_queue [OF tm assms(2), of hashes nc] by (simp add: pool_flush_frame)
qed

theorem pool_flush_exact_witness:
  "pool_contains sample_pool 2 \<and> pool_contains sample_pool 1 \<and>
   \<not> pool_contains (pool_flush id [1, 2] (\<lambda>_. True) sample_pool) 2 \<and>
   \<not> pool_contains (pool_flush id [1, 2] (\<lambda>_. True) sample_pool) 1"
proof -
  have "\<forall>h \<in> set [1, 2]. \<not> pool_contains (pool_flush id [1, 2] (\<lambda>_. True) sample_pool) h"
    using pool_flush_exact [where iter = id, OF sample_pool_reachable mset_id, of "[1, 2]" "\<lambda>_. True"] by blast
  moreover have "pool_contains sample_pool 2" "pool_contains sample_pool 1"
    by code_simp+
  ultimately show ?thesis by simp
qed

text \<open>
  The transaction count of an address is the number of nonces the
  pool has a live transaction for, and the live queued transactions of the address
  are never more than that.
\<close>

theorem get_tx_count_correct:
  assumes "pool_reachable D cap s"
  shows "get_tx_count_by_address s a = card {n. occ_find (pl_occupied_nonce s) a n \<noteq> None} \<and>
    length (filter (\<lambda>p. td_sender (deref s p) = a \<and> \<not> td_is_dropped (deref s p))
       (pl_real_queue s @ pl_co_queue s)) \<le> get_tx_count_by_address s a"
proof -
  let ?occ = "pl_occupied_nonce s" and ?ps = "pl_real_queue s @ pl_co_queue s"
  have inv: "ptr_inv (pl_store s) ?occ ?ps"
    using reachable_wf [OF assms] by (simp add: pool_wf_def)
  then have occ: "occ_inv (pl_store s) ?occ" by (simp add: ptr_inv_def)
  have count: "get_tx_count_by_address s a = card {n. occ_find ?occ a n \<noteq> None}
      \<and> finite {n. occ_find ?occ a n \<noteq> None}"
  proof (cases "?occ a")
    case None
    then show ?thesis by (simp add: get_tx_count_by_address_def occ_find_def)
  next
    case (Some m)
    have dist: "distinct (map fst m)"
      using occ Some by (simp add: occ_inv_def btree_ok_distinct)
    have "\<not> td_is_dropped (deref s p)" if "(n, p) \<in> set m" for n p
    proof -
      have "occ_find ?occ a n = Some p" using Some that dist by (simp add: occ_find_def)
      then show ?thesis using occ by (auto simp: occ_inv_def entry_ok_def)
    qed
    then have "filter (\<lambda>(n, p). \<not> td_is_dropped (deref s p)) m = m"
      by (auto simp: filter_id_conv)
    moreover have "{n. occ_find ?occ a n \<noteq> None} = fst ` set m"
      using Some by (auto simp: occ_find_def map_of_eq_None_iff dom_map_of_conv_image_fst [symmetric])
    moreover have "card (fst ` set m) = length m"
      using dist by (metis distinct_card length_map set_map)
    ultimately show ?thesis
      using Some by (simp add: get_tx_count_by_address_def)
  qed
  let ?L = "filter (\<lambda>p. td_sender (deref s p) = a \<and> \<not> td_is_dropped (deref s p)) ?ps"
  have find: "occ_find ?occ a (td_nonce (deref s p)) = Some p" if "p \<in> set ?L" for p
    using that inv unfolding ptr_inv_def by auto
  have "inj_on (\<lambda>p. td_nonce (deref s p)) (set ?L)"
    by (rule inj_on_inverseI [where g = "\<lambda>n. the (occ_find ?occ a n)"]) (simp only: find option.sel)
  then have "length ?L = card ((\<lambda>p. td_nonce (deref s p)) ` set ?L)"
    using inv by (simp add: card_image distinct_card ptr_inv_def del: set_filter set_append filter_append)
  also have "\<dots> \<le> card {n. occ_find ?occ a n \<noteq> None}"
    using find count by (intro card_mono) (auto simp del: set_filter)
  finally show ?thesis using count by simp
qed

theorem get_tx_count_correct_witness:
  "get_tx_count_by_address sample_pool 7 =
     card {n. occ_find (pl_occupied_nonce sample_pool) 7 n \<noteq> None} \<and>
   get_tx_count_by_address sample_pool 7 = 2"
proof -
  have "get_tx_count_by_address sample_pool 7 = 2" by code_simp
  then show ?thesis
    using get_tx_count_correct [OF sample_pool_reachable, of 7] by blast
qed

text \<open>
  Submitting the same transaction twice loses it: the second insertion
  is accepted and marks the first digest as dropped, and because the next flush
  removes the hash of every dropped digest from the pool, the transaction is gone
  after it although it was never packaged.
\<close>

theorem duplicate_insert_lost:
  assumes "pool_reachable D cap s"
    and "length (pl_co_queue s) < cap" and "length (pl_tx_map s) < cap"
  shows "snd (pool_insert stx s) = Inr () \<and>
         snd (pool_insert stx (fst (pool_insert stx s))) = Inr () \<and>
         map_of (pl_tx_map (fst (pool_insert stx (fst (pool_insert stx s))))) (stx_hash stx) = Some stx \<and>
         map_of (pl_tx_map (pool_flush iter [] nc (fst (pool_insert stx (fst (pool_insert stx s))))))
           (stx_hash stx) = None"
proof -
  let ?p = "length (pl_store s)" and ?a = "stx_sender stx" and ?n = "tx_nonce (stx_unsigned stx)"
  define s1 where "s1 = fst (pool_insert stx s)"
  define s2 where "s2 = fst (pool_insert stx s1)"
  have cap: "pl_co_cap s = cap" using assms(1) by (rule reachable_cap)
  have wf: "pool_wf D s" "pool_wf D s1" "pool_wf D s2"
    using reachable_wf [OF assms(1)] by (simp_all add: s1_def s2_def pool_insert_wf)
  have room: "\<not> reach_limit s" using assms(3) cap by (simp add: reach_limit_def pool_len_def)
  note r1 = pool_insert_state [OF wf(1) room, of stx, folded s1_def]
  have "length (pl_tx_map s1) \<le> pl_co_cap s1"
    using alist_update_facts(3) [of "stx_hash stx" stx "pl_tx_map s"] assms(3) cap r1(2)
    by (simp add: s1_def)
  then have "\<not> reach_limit s1" by (simp add: reach_limit_def pool_len_def)
  note r2 = pool_insert_state [OF wf(2) this, of stx, folded s2_def]
  have "?p \<in> set (pl_co_queue s2)"
    using r1(5) r2(5) assms(2) cap by simp
  moreover have "td_hash (deref s2 ?p) = stx_hash stx" "td_is_dropped (deref s2 ?p)"
    by (simp_all add: r2(3) r1(4) r1(3) nth_append)
  ultimately have gone: "stx_hash stx \<in> dropped_hashes s2"
    unfolding dropped_hashes_def by (metis (mono_tags, lifting) UnCI image_eqI mem_Collect_eq set_append)
  have "distinct (map fst (pl_tx_map s2))" using wf(3) by (simp add: pool_wf_def map_inv_def)
  then have "map_of (pl_tx_map (pool_flush iter [] nc s2)) (stx_hash stx) = None"
    using gone by (simp add: pool_flush_frame get_residual_tx_map map_of_filter_key split: option.split)
  then show ?thesis
    using r1(1) r2(1,2) by (simp add: s1_def s2_def)
qed

theorem duplicate_insert_lost_witness:
  "map_of (pl_tx_map (pool_flush id [] (\<lambda>_. True)
     (fst (pool_insert (sample_stx 2 7 1 10) (fst (pool_insert (sample_stx 2 7 1 10) (pool_new 4))))))) 2 = None"
  using duplicate_insert_lost [OF reach_new [of "\<lambda>_. []" 4], of "sample_stx 2 7 1 10" id "\<lambda>_. True"]
  by (simp add: pool_new_def)

end
