(* ===== verification/Storage_Adapter.thy ===== *)
theory Storage_Adapter
  imports Protocol_Types
begin

text \<open>
  The key-value layer of \<open>core/storage\<close>: the storage categories, the binary keys
  (\<open>CommonPrefix\<close>, \<open>CommonHashKey\<close>), the interface \<open>StorageAdapter\<close> as a record of
  operations on encoded keys and values, and its two implementations, the
  in-memory adapter (\<open>adapter/memory.rs\<close>) and the adapter over RocksDB
  (\<open>adapter/rocks.rs\<close>), whose library operations are a parameter. The locale
  \<open>kv_adapter\<close> is the contract the storage relies on.
\<close>

section \<open>Categories and keys\<close>

datatype storage_category =
  CatBlock | CatBlockHeader | CatReceipt | CatSignedTransaction | CatWal | CatHashHeight | CatCode

datatype storage_error =
    GetNone
  | BatchDecode
  | BatchLengthMismatch
  | CategoryNotFound string
  | RocksDB string
  | StorageCodec string
  | StoragePanic

type_synonym common_prefix = bytes

definition common_prefix_new :: "u64 \<Rightarrow> common_prefix" where
  "common_prefix_new block_height = to_be_bytes 8 block_height"

definition common_prefix_height :: "common_prefix \<Rightarrow> u64" where
  "common_prefix_height p = from_be_bytes p"

definition make_hash_key :: "common_prefix \<Rightarrow> hash \<Rightarrow> bytes" where
  "make_hash_key p h = p @ to_be_bytes 32 h"

text \<open>\<open>From<&[u8]>\<close> and \<open>decode\<close> slice the first eight bytes and panic when there are fewer.\<close>

definition common_prefix_from :: "bytes \<Rightarrow> common_prefix option" where
  "common_prefix_from bs = (if 8 \<le> length bs then Some (take 8 bs) else None)"

record common_hash_key =
  chk_prefix :: common_prefix
  chk_hash :: hash

definition common_hash_key_new :: "u64 \<Rightarrow> hash \<Rightarrow> common_hash_key" where
  "common_hash_key_new block_height h = \<lparr>chk_prefix = common_prefix_new block_height, chk_hash = h\<rparr>"

definition common_hash_key_height :: "common_hash_key \<Rightarrow> u64" where
  "common_hash_key_height k = common_prefix_height (chk_prefix k)"

definition common_hash_key_encode :: "common_hash_key \<Rightarrow> bytes" where
  "common_hash_key_encode k = make_hash_key (chk_prefix k) (chk_hash k)"

text \<open>\<open>Hash::from_slice\<close> panics unless it gets 32 bytes.\<close>

definition common_hash_key_decode :: "bytes \<Rightarrow> common_hash_key option" where
  "common_hash_key_decode bs =
     (case common_prefix_from bs of
        None \<Rightarrow> None
      | Some p \<Rightarrow>
          if length (drop 8 bs) = 32
          then Some \<lparr>chk_prefix = p, chk_hash = from_be_bytes (drop 8 bs)\<rparr> else None)"

text \<open>
  \<open>ToString\<close> and \<open>FromStr\<close>; \<open>disp\<close> is the \<open>Display\<close> of \<open>H256\<close>, \<open>as_bytes\<close> gives the bytes
  of a string.
\<close>

definition common_hash_key_to_string :: "(hash \<Rightarrow> string) \<Rightarrow> common_hash_key \<Rightarrow> string" where
  "common_hash_key_to_string disp k = to_dec (unat (common_hash_key_height k)) @ '':'' @ disp (chk_hash k)"

fun split_colon :: "string \<Rightarrow> string list" where
  "split_colon [] = [[]]"
| "split_colon (c # cs) =
     (if c = CHR '':'' then [] # split_colon cs
      else case split_colon cs of p # ps \<Rightarrow> (c # p) # ps | [] \<Rightarrow> [[c]])"

definition common_hash_key_from_str ::
  "(bytes \<Rightarrow> bytes) \<Rightarrow> (string \<Rightarrow> bytes) \<Rightarrow> string \<Rightarrow> common_hash_key option" where
  "common_hash_key_from_str keccak as_bytes s =
     (let parts = split_colon s
      in if length parts < 2 then None
         else case parse_u64 (parts ! 0) of
             None \<Rightarrow> None
           | Some height \<Rightarrow>
               Some (common_hash_key_new height (hasher_digest keccak (as_bytes (parts ! 1)))))"

section \<open>The interface\<close>

type_synonym kv_batch = "(bytes \<times> bytes option) list"

record 'd storage_adapter =
  ad_get :: "storage_category \<Rightarrow> bytes \<Rightarrow> 'd \<Rightarrow> 'd \<times> (storage_error + bytes option)"
  ad_insert :: "storage_category \<Rightarrow> bytes \<Rightarrow> bytes \<Rightarrow> 'd \<Rightarrow> 'd \<times> (storage_error + unit)"
  ad_remove :: "storage_category \<Rightarrow> bytes \<Rightarrow> 'd \<Rightarrow> 'd \<times> (storage_error + unit)"
  ad_contains :: "storage_category \<Rightarrow> bytes \<Rightarrow> 'd \<Rightarrow> 'd \<times> (storage_error + bool)"
  ad_batch :: "storage_category \<Rightarrow> bytes list \<Rightarrow> bytes option list \<Rightarrow> 'd \<Rightarrow> 'd \<times> (storage_error + unit)"
  ad_iter :: "storage_category \<Rightarrow> bytes \<Rightarrow> 'd \<Rightarrow> 'd \<times> (storage_error + (bytes \<times> bytes) list)"

section \<open>The in-memory adapter\<close>

type_synonym category = "(bytes \<times> bytes) list"
type_synonym mem_db = "storage_category \<rightharpoonup> category"

definition mem_new :: mem_db where
  "mem_new = Map.empty"

text \<open>\<open>entry(category).or_insert_with(HashMap::new)\<close>\<close>

definition mem_entry :: "storage_category \<Rightarrow> mem_db \<Rightarrow> category" where
  "mem_entry c db = (case db c of None \<Rightarrow> [] | Some m \<Rightarrow> m)"

definition mem_insert :: "storage_category \<Rightarrow> bytes \<Rightarrow> bytes \<Rightarrow> mem_db \<Rightarrow> mem_db \<times> (storage_error + unit)" where
  "mem_insert c k v db = (db(c \<mapsto> AList.update k v (mem_entry c db)), Inr ())"

definition mem_get :: "storage_category \<Rightarrow> bytes \<Rightarrow> mem_db \<Rightarrow> mem_db \<times> (storage_error + bytes option)" where
  "mem_get c k db = (db(c \<mapsto> mem_entry c db), Inr (map_of (mem_entry c db) k))"

definition mem_remove :: "storage_category \<Rightarrow> bytes \<Rightarrow> mem_db \<Rightarrow> mem_db \<times> (storage_error + unit)" where
  "mem_remove c k db = (db(c \<mapsto> AList.delete k (mem_entry c db)), Inr ())"

definition mem_contains :: "storage_category \<Rightarrow> bytes \<Rightarrow> mem_db \<Rightarrow> mem_db \<times> (storage_error + bool)" where
  "mem_contains c k db = (db(c \<mapsto> mem_entry c db), Inr (map_of (mem_entry c db) k \<noteq> None))"

definition apply_pair :: "category \<Rightarrow> bytes \<times> bytes option \<Rightarrow> category" where
  "apply_pair m kv =
     (case snd kv of Some v \<Rightarrow> AList.update (fst kv) v m | None \<Rightarrow> AList.delete (fst kv) m)"

definition mem_batch_modify ::
  "storage_category \<Rightarrow> bytes list \<Rightarrow> bytes option list \<Rightarrow> mem_db \<Rightarrow> mem_db \<times> (storage_error + unit)" where
  "mem_batch_modify c keys vals db =
     (if length keys \<noteq> length vals then (db, Inl BatchLengthMismatch)
      else (db(c \<mapsto> foldl apply_pair (mem_entry c db) (zip keys vals)), Inr ()))"

text \<open>The iterator visits the whole category in the order of the hash map and ignores the prefix.\<close>

definition mem_prepare_iter ::
  "(category \<Rightarrow> category) \<Rightarrow> storage_category \<Rightarrow> bytes \<Rightarrow> mem_db
   \<Rightarrow> mem_db \<times> (storage_error + (bytes \<times> bytes) list)" where
  "mem_prepare_iter iter c prefix db = (db(c \<mapsto> mem_entry c db), Inr (iter (mem_entry c db)))"

definition memory_adapter :: "(category \<Rightarrow> category) \<Rightarrow> mem_db storage_adapter" where
  "memory_adapter iter =
     \<lparr>ad_get = mem_get, ad_insert = mem_insert, ad_remove = mem_remove, ad_contains = mem_contains,
      ad_batch = mem_batch_modify, ad_iter = mem_prepare_iter iter\<rparr>"

section \<open>The RocksDB adapter\<close>

record 'd rocks_lib =
  rk_cf_handle :: "'d \<Rightarrow> string \<Rightarrow> bool"
  rk_get_cf :: "'d \<Rightarrow> string \<Rightarrow> bytes \<Rightarrow> string + bytes option"
  rk_put_cf :: "'d \<Rightarrow> string \<Rightarrow> bytes \<Rightarrow> bytes \<Rightarrow> string + 'd"
  rk_delete_cf :: "'d \<Rightarrow> string \<Rightarrow> bytes \<Rightarrow> string + 'd"
  rk_write :: "'d \<Rightarrow> (string \<times> bytes \<times> bytes option) list \<Rightarrow> string + 'd"
  rk_prefix_iterator_cf :: "'d \<Rightarrow> string \<Rightarrow> bytes \<Rightarrow> (bytes \<times> bytes) list"

fun map_category :: "storage_category \<Rightarrow> string" where
  "map_category CatBlock = ''c1''"
| "map_category CatBlockHeader = ''c2''"
| "map_category CatSignedTransaction = ''c3''"
| "map_category CatReceipt = ''c4''"
| "map_category CatWal = ''c5''"
| "map_category CatHashHeight = ''c6''"
| "map_category CatCode = ''c7''"

definition get_column :: "'d rocks_lib \<Rightarrow> 'd \<Rightarrow> storage_category \<Rightarrow> storage_error + string" where
  "get_column R db c =
     (if rk_cf_handle R db (map_category c) then Inr (map_category c)
      else Inl (CategoryNotFound (map_category c)))"

definition rocks_err :: "string + 'a \<Rightarrow> storage_error + 'a" where
  "rocks_err r = (case r of Inl e \<Rightarrow> Inl (RocksDB e) | Inr x \<Rightarrow> Inr x)"

definition rocks_update :: "'d \<Rightarrow> storage_error + 'd \<Rightarrow> 'd \<times> (storage_error + unit)" where
  "rocks_update db r = (case r of Inl e \<Rightarrow> (db, Inl e) | Inr db' \<Rightarrow> (db', Inr ()))"

definition rocks_insert ::
  "'d rocks_lib \<Rightarrow> storage_category \<Rightarrow> bytes \<Rightarrow> bytes \<Rightarrow> 'd \<Rightarrow> 'd \<times> (storage_error + unit)" where
  "rocks_insert R c k v db =
     rocks_update db (res_bind (get_column R db c) (\<lambda>column. rocks_err (rk_put_cf R db column k v)))"

definition rocks_get ::
  "'d rocks_lib \<Rightarrow> storage_category \<Rightarrow> bytes \<Rightarrow> 'd \<Rightarrow> 'd \<times> (storage_error + bytes option)" where
  "rocks_get R c k db =
     (db, res_bind (get_column R db c) (\<lambda>column. rocks_err (rk_get_cf R db column k)))"

definition rocks_remove ::
  "'d rocks_lib \<Rightarrow> storage_category \<Rightarrow> bytes \<Rightarrow> 'd \<Rightarrow> 'd \<times> (storage_error + unit)" where
  "rocks_remove R c k db =
     rocks_update db (res_bind (get_column R db c) (\<lambda>column. rocks_err (rk_delete_cf R db column k)))"

definition rocks_contains ::
  "'d rocks_lib \<Rightarrow> storage_category \<Rightarrow> bytes \<Rightarrow> 'd \<Rightarrow> 'd \<times> (storage_error + bool)" where
  "rocks_contains R c k db =
     (db, res_bind (get_column R db c) (\<lambda>column.
            res_bind (rocks_err (rk_get_cf R db column k)) (\<lambda>v. Inr (v \<noteq> None))))"

definition rocks_batch_modify ::
  "'d rocks_lib \<Rightarrow> storage_category \<Rightarrow> bytes list \<Rightarrow> bytes option list \<Rightarrow> 'd
   \<Rightarrow> 'd \<times> (storage_error + unit)" where
  "rocks_batch_modify R c keys vals db =
     (if length keys \<noteq> length vals then (db, Inl BatchLengthMismatch)
      else rocks_update db
             (res_bind (get_column R db c) (\<lambda>column.
                rocks_err (rk_write R db (map (Pair column) (zip keys vals))))))"

definition rocks_prepare_iter ::
  "'d rocks_lib \<Rightarrow> storage_category \<Rightarrow> bytes \<Rightarrow> 'd \<Rightarrow> 'd \<times> (storage_error + (bytes \<times> bytes) list)" where
  "rocks_prepare_iter R c prefix db =
     (db, res_bind (get_column R db c) (\<lambda>column. Inr (rk_prefix_iterator_cf R db column prefix)))"

definition rocks_adapter :: "'d rocks_lib \<Rightarrow> 'd storage_adapter" where
  "rocks_adapter R =
     \<lparr>ad_get = rocks_get R, ad_insert = rocks_insert R, ad_remove = rocks_remove R,
      ad_contains = rocks_contains R, ad_batch = rocks_batch_modify R, ad_iter = rocks_prepare_iter R\<rparr>"

section \<open>The contract of an adapter\<close>

type_synonym kv_view = "storage_category \<Rightarrow> bytes \<rightharpoonup> bytes"

definition view_batch :: "(bytes \<rightharpoonup> bytes) \<Rightarrow> kv_batch \<Rightarrow> (bytes \<rightharpoonup> bytes)" where
  "view_batch m pairs = foldl (\<lambda>m kv. m(fst kv := snd kv)) m pairs"

text \<open>
  An adapter is a map from categories and keys to values: \<open>view\<close> is that map. Reading
  leaves it alone, every update changes it as the operation says, and a batch is
  applied as a whole or not at all.
\<close>

locale kv_adapter =
  fixes A :: "'d storage_adapter" and view :: "'d \<Rightarrow> kv_view"
  assumes get_ok: "\<exists>d'. ad_get A c k d = (d', Inr (view d c k)) \<and> view d' = view d"
    and insert_ok: "\<exists>d'. ad_insert A c k v d = (d', Inr ()) \<and> view d' = (view d)(c := (view d c)(k \<mapsto> v))"
    and remove_ok: "\<exists>d'. ad_remove A c k d = (d', Inr ()) \<and> view d' = (view d)(c := (view d c)(k := None))"
    and contains_ok: "\<exists>d'. ad_contains A c k d = (d', Inr (view d c k \<noteq> None)) \<and> view d' = view d"
    and batch_ok: "length keys = length vals \<Longrightarrow> \<exists>d'. ad_batch A c keys vals d = (d', Inr ()) \<and>
      view d' = (view d)(c := view_batch (view d c) (zip keys vals))"
    and batch_mismatch: "length keys \<noteq> length vals \<Longrightarrow> ad_batch A c keys vals d = (d, Inl BatchLengthMismatch)"

lemma view_batch_Nil [simp]: "view_batch m [] = m"
  by (simp add: view_batch_def)

lemma view_batch_Cons [simp]: "view_batch m (kv # kvs) = view_batch (m(fst kv := snd kv)) kvs"
  by (simp add: view_batch_def)

lemma view_batch_other: "k \<notin> fst ` set kvs \<Longrightarrow> view_batch m kvs k = m k"
  by (induction kvs arbitrary: m) auto

lemma view_batch_distinct:
  "distinct (map fst kvs) \<Longrightarrow> (k, v) \<in> set kvs \<Longrightarrow> view_batch m kvs k = v"
proof (induction kvs arbitrary: m)
  case Nil
  then show ?case by simp
next
  case (Cons kv kvs)
  then show ?case
    using view_batch_other [of k kvs "m(fst kv := snd kv)"] by force
qed

text \<open>The in-memory adapter meets the contract.\<close>

definition mem_view :: "mem_db \<Rightarrow> kv_view" where
  "mem_view db c = map_of (mem_entry c db)"

lemma mem_entry_upd [simp]: "mem_entry c' (db(c \<mapsto> m)) = (if c' = c then m else mem_entry c' db)"
  by (simp add: mem_entry_def)

lemma mem_view_upd [simp]: "mem_view (db(c \<mapsto> m)) = (mem_view db)(c := map_of m)"
  by (rule ext) (simp add: mem_view_def)

lemma map_of_apply_pair [simp]: "map_of (apply_pair m kv) = (map_of m)(fst kv := snd kv)"
  by (simp add: apply_pair_def split: option.split)

lemma map_of_foldl_apply: "map_of (foldl apply_pair m kvs) = view_batch (map_of m) kvs"
  by (induction kvs arbitrary: m) simp_all

lemma mem_view_entry: "map_of (mem_entry c db) = mem_view db c"
  by (simp add: mem_view_def)

interpretation mem: kv_adapter "memory_adapter iter" mem_view for iter
  by unfold_locales
    (simp_all add: memory_adapter_def mem_get_def mem_insert_def mem_remove_def mem_contains_def
      mem_batch_modify_def map_of_foldl_apply mem_view_entry del: fun_upd_apply)

text \<open>
  The documented behaviour of RocksDB the adapter relies on, for a database whose
  column families exist and whose operations do not fail: reads see the last write
  of their column family and key, and a write batch is applied in order.
\<close>

definition rocks_apply ::
  "(string \<Rightarrow> bytes \<Rightarrow> bytes option) \<Rightarrow> (string \<times> bytes \<times> bytes option) list \<Rightarrow> string \<Rightarrow> bytes \<Rightarrow> bytes option" where
  "rocks_apply m ops = foldl (\<lambda>m (cf, k, v). m(cf := (m cf)(k := v))) m ops"

definition rocks_read :: "'d rocks_lib \<Rightarrow> 'd \<Rightarrow> string \<Rightarrow> bytes \<Rightarrow> bytes option" where
  "rocks_read R db cf k = (case rk_get_cf R db cf k of Inr v \<Rightarrow> v | Inl _ \<Rightarrow> None)"

definition rocks_ok :: "'d rocks_lib \<Rightarrow> bool" where
  "rocks_ok R \<longleftrightarrow>
     (\<forall>db cf. rk_cf_handle R db cf) \<and>
     (\<forall>db cf k. rk_get_cf R db cf k = Inr (rocks_read R db cf k)) \<and>
     (\<forall>db cf k v. \<exists>db'. rk_put_cf R db cf k v = Inr db' \<and>
        rocks_read R db' = (rocks_read R db)(cf := (rocks_read R db cf)(k \<mapsto> v))) \<and>
     (\<forall>db cf k. \<exists>db'. rk_delete_cf R db cf k = Inr db' \<and>
        rocks_read R db' = (rocks_read R db)(cf := (rocks_read R db cf)(k := None))) \<and>
     (\<forall>db ops. \<exists>db'. rk_write R db ops = Inr db' \<and>
        rocks_read R db' = rocks_apply (rocks_read R db) ops)"

definition rocks_view :: "'d rocks_lib \<Rightarrow> 'd \<Rightarrow> kv_view" where
  "rocks_view R db c = rocks_read R db (map_category c)"

lemma map_category_inject: "map_category c = map_category c' \<longleftrightarrow> c = c'"
  by (cases c; cases c') simp_all

lemma rocks_view_upd:
  "rocks_read R db' = (rocks_read R db)(map_category c := m) \<Longrightarrow> rocks_view R db' = (rocks_view R db)(c := m)"
  by (rule ext) (simp add: rocks_view_def map_category_inject)

lemma rocks_apply_column:
  "rocks_apply m (map (Pair cf) kvs) = m(cf := view_batch (m cf) kvs)"
proof (induction kvs arbitrary: m)
  case Nil
  then show ?case by (simp add: rocks_apply_def)
next
  case (Cons kv kvs)
  obtain k v where kv: "kv = (k, v)" by (cases kv)
  have "rocks_apply m (map (Pair cf) (kv # kvs)) =
      rocks_apply (m(cf := (m cf)(k := v))) (map (Pair cf) kvs)"
    by (simp add: rocks_apply_def kv)
  also have "\<dots> = m(cf := view_batch (m cf) (kv # kvs))"
    unfolding Cons.IH by (rule ext) (simp add: kv)
  finally show ?case .
qed

text \<open>
  Both adapters implement one map from categories and keys to values: the
  in-memory adapter unconditionally, the RocksDB adapter over a database that
  behaves as documented. Reads change nothing, insertions and removals touch one
  key of one category (no two categories share a column family), and a batch with
  as many keys as values is applied in order; a batch of unequal lengths is
  rejected without effect.
\<close>

theorem adapters_meet_contract:
  assumes "rocks_ok R"
  shows "kv_adapter (memory_adapter iter) mem_view \<and> kv_adapter (rocks_adapter R) (rocks_view R)"
proof -
  note ok = assms [unfolded rocks_ok_def]
  have col: "get_column R db c = Inr (map_category c)" for db c
    using ok by (simp add: get_column_def)
  have get: "rk_get_cf R db cf k = Inr (rocks_read R db cf k)" for db cf k
    using ok by blast
  have "kv_adapter (rocks_adapter R) (rocks_view R)"
  proof unfold_locales
    fix c k v d
    obtain d' where d': "rk_put_cf R d (map_category c) k v = Inr d'"
      "rocks_read R d' = (rocks_read R d)(map_category c := (rocks_read R d (map_category c))(k \<mapsto> v))"
      using ok by blast
    then show "\<exists>d'. ad_insert (rocks_adapter R) c k v d = (d', Inr ()) \<and>
        rocks_view R d' = (rocks_view R d)(c := (rocks_view R d c)(k \<mapsto> v))"
      using rocks_view_upd [OF d'(2)]
      by (simp add: rocks_adapter_def rocks_insert_def col rocks_err_def rocks_update_def rocks_view_def)
  next
    fix c k d
    obtain d' where d': "rk_delete_cf R d (map_category c) k = Inr d'"
      "rocks_read R d' = (rocks_read R d)(map_category c := (rocks_read R d (map_category c))(k := None))"
      using ok by blast
    then show "\<exists>d'. ad_remove (rocks_adapter R) c k d = (d', Inr ()) \<and>
        rocks_view R d' = (rocks_view R d)(c := (rocks_view R d c)(k := None))"
      using rocks_view_upd [OF d'(2)]
      by (simp add: rocks_adapter_def rocks_remove_def col rocks_err_def rocks_update_def rocks_view_def)
  next
    fix c d and keys :: "bytes list" and vals :: "bytes option list"
    assume len: "length keys = length vals"
    obtain d' where d': "rk_write R d (map (Pair (map_category c)) (zip keys vals)) = Inr d'"
      "rocks_read R d' = rocks_apply (rocks_read R d) (map (Pair (map_category c)) (zip keys vals))"
      using ok by blast
    then show "\<exists>d'. ad_batch (rocks_adapter R) c keys vals d = (d', Inr ()) \<and>
        rocks_view R d' = (rocks_view R d)(c := view_batch (rocks_view R d c) (zip keys vals))"
      using len rocks_view_upd [OF d'(2) [unfolded rocks_apply_column]]
      by (simp add: rocks_adapter_def rocks_batch_modify_def col rocks_err_def rocks_update_def rocks_view_def)
  qed (simp_all add: rocks_adapter_def rocks_get_def rocks_contains_def rocks_batch_modify_def col get
      rocks_err_def rocks_view_def)
  then show ?thesis using mem.kv_adapter_axioms by blast
qed

definition sample_rocks :: "(string \<Rightarrow> bytes \<Rightarrow> bytes option) rocks_lib" where
  "sample_rocks =
     \<lparr>rk_cf_handle = (\<lambda>_ _. True), rk_get_cf = (\<lambda>db cf k. Inr (db cf k)),
      rk_put_cf = (\<lambda>db cf k v. Inr (db(cf := (db cf)(k \<mapsto> v)))),
      rk_delete_cf = (\<lambda>db cf k. Inr (db(cf := (db cf)(k := None)))),
      rk_write = (\<lambda>db ops. Inr (rocks_apply db ops)),
      rk_prefix_iterator_cf = (\<lambda>_ _ _. [])\<rparr>"

lemma sample_rocks_ok: "rocks_ok sample_rocks"
proof -
  have "rocks_read sample_rocks db = db" for db
    by (simp add: rocks_read_def sample_rocks_def fun_eq_iff)
  then show ?thesis by (simp add: rocks_ok_def) (simp add: sample_rocks_def)
qed

theorem adapters_meet_contract_witness:
  "kv_adapter (memory_adapter rev) mem_view \<and> kv_adapter (rocks_adapter sample_rocks) (rocks_view sample_rocks)"
  by (rule adapters_meet_contract [OF sample_rocks_ok])

text \<open>
  A block number and a hash survive the 40-byte binary key, keys are
  equal only for equal numbers and hashes, and a key starts with the prefix of
  exactly its own number: a prefix scan of one block never meets a key of another.
\<close>

theorem common_hash_key_codec:
  "common_hash_key_decode (common_hash_key_encode (common_hash_key_new n h)) = Some (common_hash_key_new n h) \<and>
   common_hash_key_height (common_hash_key_new n h) = n \<and>
   length (common_hash_key_encode (common_hash_key_new n h)) = 40 \<and>
   (common_hash_key_encode (common_hash_key_new n h) = common_hash_key_encode (common_hash_key_new n' h')
      \<longleftrightarrow> n = n' \<and> h = h') \<and>
   (take 8 (common_hash_key_encode (common_hash_key_new n h)) = common_prefix_new n' \<longleftrightarrow> n = n')"
proof -
  have n: "from_be_bytes (to_be_bytes 8 m) = m" for m :: u64 by (simp add: be_bytes_roundtrip)
  have h: "from_be_bytes (to_be_bytes 32 m) = m" for m :: hash by (simp add: be_bytes_roundtrip)
  have inj: "to_be_bytes 8 m = to_be_bytes 8 m' \<longleftrightarrow> m = m'" for m m' :: u64 by (metis n)
  have inj': "to_be_bytes 32 m = to_be_bytes 32 m' \<longleftrightarrow> m = m'" for m m' :: hash by (metis h)
  show ?thesis
    by (simp add: common_hash_key_decode_def common_hash_key_encode_def common_hash_key_new_def
        common_hash_key_height_def common_prefix_height_def make_hash_key_def common_prefix_new_def
        common_prefix_from_def n h inj inj')
qed

end
