(* ===== verification/Storage.thy ===== *)
theory Storage
  imports Storage_Adapter
begin

text \<open>
  The chain storage \<open>core/storage/src/lib.rs\<close> over an adapter \<open>A\<close>: blocks, headers,
  transactions, receipts, contract code and the latest block and proof, with the
  caches of \<open>core/storage/src/cache.rs\<close> in front of the reads. The environment \<open>E\<close>
  holds what comes from elsewhere: the value codecs, the encoding of hash keys, the
  hash of a header, the two fixed keys, and what the LRU caches of the \<open>lru\<close> crate
  keep after an insertion.
\<close>

section \<open>State and environment\<close>

type_synonym 'v val_codec = "('v \<Rightarrow> bytes) \<times> (bytes \<Rightarrow> string + 'v)"

record storage_env =
  se_block :: "block val_codec"
  se_header :: "header val_codec"
  se_proof :: "block_proof val_codec"
  se_stx :: "signed_transaction val_codec"
  se_receipt :: "receipt val_codec"
  se_u64 :: "u64 val_codec"
  se_bytes :: "bytes val_codec"
  se_hash :: "hash val_codec"
  se_hash_key :: "hash \<Rightarrow> bytes"
  se_header_hash :: "header \<Rightarrow> hash"
  se_latest_block_key :: hash
  se_latest_proof_key :: hash
  se_keep_blocks :: "(u64 \<rightharpoonup> block) \<Rightarrow> (u64 \<rightharpoonup> block)"
  se_keep_numbers :: "(hash \<rightharpoonup> u64) \<Rightarrow> (hash \<rightharpoonup> u64)"
  se_keep_headers :: "(u64 \<rightharpoonup> header) \<Rightarrow> (u64 \<rightharpoonup> header)"
  se_keep_txs :: "(hash \<rightharpoonup> signed_transaction) \<Rightarrow> (hash \<rightharpoonup> signed_transaction)"
  se_keep_codes :: "(hash \<rightharpoonup> bytes) \<Rightarrow> (hash \<rightharpoonup> bytes)"
  se_keep_receipts :: "(hash \<rightharpoonup> receipt) \<Rightarrow> (hash \<rightharpoonup> receipt)"

record 'd impl_storage =
  is_db :: 'd
  is_blocks :: "u64 \<rightharpoonup> block"
  is_block_numbers :: "hash \<rightharpoonup> u64"
  is_headers :: "u64 \<rightharpoonup> header"
  is_transactions :: "hash \<rightharpoonup> signed_transaction"
  is_codes :: "hash \<rightharpoonup> bytes"
  is_receipts :: "hash \<rightharpoonup> receipt"
  is_latest_block :: "block option"
  is_latest_proof :: "block_proof option"

type_synonym ('d, 'v) storage_op = "('d impl_storage, storage_error, 'v) st"

definition storage_new :: "'d \<Rightarrow> 'd impl_storage" where
  "storage_new db =
     \<lparr>is_db = db, is_blocks = Map.empty, is_block_numbers = Map.empty, is_headers = Map.empty,
      is_transactions = Map.empty, is_codes = Map.empty, is_receipts = Map.empty,
      is_latest_block = None, is_latest_proof = None\<rparr>"

section \<open>Typed access to the adapter\<close>

definition schema_get ::
  "'d storage_adapter \<Rightarrow> storage_category \<Rightarrow> (bytes \<Rightarrow> string + 'v) \<Rightarrow> bytes \<Rightarrow> ('d, 'v option) storage_op" where
  "schema_get A c dec k s =
     (case ad_get A c k (is_db s) of
        (d, r) \<Rightarrow>
          (s\<lparr>is_db := d\<rparr>,
           res_bind r (\<lambda>opt_bytes. case opt_bytes of
               None \<Rightarrow> Inr None
             | Some bs \<Rightarrow> (case dec bs of Inl e \<Rightarrow> Inl (StorageCodec e) | Inr v \<Rightarrow> Inr (Some v)))))"

definition schema_insert ::
  "'d storage_adapter \<Rightarrow> storage_category \<Rightarrow> bytes \<Rightarrow> bytes \<Rightarrow> ('d, unit) storage_op" where
  "schema_insert A c k v s = (case ad_insert A c k v (is_db s) of (d, r) \<Rightarrow> (s\<lparr>is_db := d\<rparr>, r))"

definition schema_remove :: "'d storage_adapter \<Rightarrow> storage_category \<Rightarrow> bytes \<Rightarrow> ('d, unit) storage_op" where
  "schema_remove A c k s = (case ad_remove A c k (is_db s) of (d, r) \<Rightarrow> (s\<lparr>is_db := d\<rparr>, r))"

definition schema_batch ::
  "'d storage_adapter \<Rightarrow> storage_category \<Rightarrow> bytes list \<Rightarrow> bytes option list \<Rightarrow> ('d, unit) storage_op" where
  "schema_batch A c ks vs s = (case ad_batch A c ks vs (is_db s) of (d, r) \<Rightarrow> (s\<lparr>is_db := d\<rparr>, r))"

text \<open>
  \<open>get_cache!\<close> returns early on a hit; otherwise the value is read and \<open>put_cache!\<close>
  stores what was found.
\<close>

definition cached_get ::
  "('d impl_storage \<Rightarrow> 'k \<rightharpoonup> 'v) \<Rightarrow> ('k \<Rightarrow> 'v \<Rightarrow> 'd impl_storage \<Rightarrow> 'd impl_storage) \<Rightarrow> 'k
   \<Rightarrow> ('d, 'v option) storage_op \<Rightarrow> ('d, 'v option) storage_op" where
  "cached_get get_cache put_cache k fetch s =
     (case get_cache s k of
        Some v \<Rightarrow> (s, Inr (Some v))
      | None \<Rightarrow>
          st_bind fetch
            (\<lambda>ret. st_seq (st_modify (\<lambda>s. case ret of None \<Rightarrow> s | Some v \<Rightarrow> put_cache k v s))
                     (st_return ret)) s)"

definition put_block :: "storage_env \<Rightarrow> u64 \<Rightarrow> block \<Rightarrow> 'd impl_storage \<Rightarrow> 'd impl_storage" where
  "put_block E h b s = s\<lparr>is_blocks := se_keep_blocks E ((is_blocks s)(h \<mapsto> b))\<rparr>"

definition put_number :: "storage_env \<Rightarrow> hash \<Rightarrow> u64 \<Rightarrow> 'd impl_storage \<Rightarrow> 'd impl_storage" where
  "put_number E h n s = s\<lparr>is_block_numbers := se_keep_numbers E ((is_block_numbers s)(h \<mapsto> n))\<rparr>"

definition put_header :: "storage_env \<Rightarrow> u64 \<Rightarrow> header \<Rightarrow> 'd impl_storage \<Rightarrow> 'd impl_storage" where
  "put_header E h x s = s\<lparr>is_headers := se_keep_headers E ((is_headers s)(h \<mapsto> x))\<rparr>"

definition put_tx :: "storage_env \<Rightarrow> hash \<Rightarrow> signed_transaction \<Rightarrow> 'd impl_storage \<Rightarrow> 'd impl_storage" where
  "put_tx E h x s = s\<lparr>is_transactions := se_keep_txs E ((is_transactions s)(h \<mapsto> x))\<rparr>"

definition put_code :: "storage_env \<Rightarrow> hash \<Rightarrow> bytes \<Rightarrow> 'd impl_storage \<Rightarrow> 'd impl_storage" where
  "put_code E h x s = s\<lparr>is_codes := se_keep_codes E ((is_codes s)(h \<mapsto> x))\<rparr>"

definition put_receipt :: "storage_env \<Rightarrow> hash \<Rightarrow> receipt \<Rightarrow> 'd impl_storage \<Rightarrow> 'd impl_storage" where
  "put_receipt E h x s = s\<lparr>is_receipts := se_keep_receipts E ((is_receipts s)(h \<mapsto> x))\<rparr>"

section \<open>Blocks\<close>

definition get_block_number_by_hash ::
  "'d storage_adapter \<Rightarrow> storage_env \<Rightarrow> hash \<Rightarrow> ('d, u64 option) storage_op" where
  "get_block_number_by_hash A E h =
     cached_get is_block_numbers (put_number E) h
       (schema_get A CatHashHeight (snd (se_u64 E)) (se_hash_key E h))"

definition storage_get_block :: "'d storage_adapter \<Rightarrow> storage_env \<Rightarrow> u64 \<Rightarrow> ('d, block option) storage_op" where
  "storage_get_block A E height =
     cached_get is_blocks (put_block E) height
       (schema_get A CatBlock (snd (se_block E)) (common_prefix_new height))"

definition storage_get_block_header ::
  "'d storage_adapter \<Rightarrow> storage_env \<Rightarrow> u64 \<Rightarrow> ('d, header option) storage_op" where
  "storage_get_block_header A E height s =
     (case is_headers s height of
        Some x \<Rightarrow> (s, Inr (Some x))
      | None \<Rightarrow>
          st_bind (schema_get A CatBlockHeader (snd (se_header E)) (common_prefix_new height))
            (\<lambda>opt_header. case opt_header of
                Some x \<Rightarrow> st_seq (st_modify (put_header E height x)) (st_return opt_header)
              | None \<Rightarrow>
                  st_bind (storage_get_block A E height)
                    (\<lambda>ret. st_return (map_option bk_header ret))) s)"

definition storage_set_block :: "'d storage_adapter \<Rightarrow> storage_env \<Rightarrow> block \<Rightarrow> ('d, unit) storage_op" where
  "storage_set_block A E b =
     (let n = hd_number (bk_header b)
      in st_seq (schema_insert A CatBlock (common_prefix_new n) (fst (se_block E) b))
          (st_seq (schema_insert A CatBlockHeader (common_prefix_new n) (fst (se_header E) (bk_header b)))
            (schema_insert A CatHashHeight (se_hash_key E (se_header_hash E (bk_header b)))
               (fst (se_u64 E) n))))"

definition storage_remove_block :: "'d storage_adapter \<Rightarrow> u64 \<Rightarrow> ('d, unit) storage_op" where
  "storage_remove_block A height = schema_remove A CatBlock (common_prefix_new height)"

definition ensure_get ::
  "'d storage_adapter \<Rightarrow> storage_category \<Rightarrow> (bytes \<Rightarrow> string + 'v) \<Rightarrow> bytes \<Rightarrow> ('d, 'v) storage_op" where
  "ensure_get A c dec k = st_bind (schema_get A c dec k) (\<lambda>opt. st_lift (ok_or GetNone opt))"

definition get_latest_block :: "'d storage_adapter \<Rightarrow> storage_env \<Rightarrow> ('d, block) storage_op" where
  "get_latest_block A E s =
     (case is_latest_block s of
        Some b \<Rightarrow> (s, Inr b)
      | None \<Rightarrow> ensure_get A CatBlock (snd (se_block E)) (se_hash_key E (se_latest_block_key E)) s)"

definition set_latest_block :: "'d storage_adapter \<Rightarrow> storage_env \<Rightarrow> block \<Rightarrow> ('d, unit) storage_op" where
  "set_latest_block A E b =
     st_seq (schema_insert A CatBlock (se_hash_key E (se_latest_block_key E)) (fst (se_block E) b))
       (st_modify (\<lambda>s. s\<lparr>is_latest_block := Some b\<rparr>))"

definition get_latest_block_header :: "'d storage_adapter \<Rightarrow> storage_env \<Rightarrow> ('d, header) storage_op" where
  "get_latest_block_header A E s =
     (case is_latest_block s of
        Some b \<Rightarrow> (s, Inr (bk_header b))
      | None \<Rightarrow>
          st_bind (ensure_get A CatBlock (snd (se_block E)) (se_hash_key E (se_latest_block_key E)))
            (\<lambda>b. st_return (bk_header b)) s)"

definition storage_insert_block :: "'d storage_adapter \<Rightarrow> storage_env \<Rightarrow> block \<Rightarrow> ('d, unit) storage_op" where
  "storage_insert_block A E b = st_seq (storage_set_block A E b) (set_latest_block A E b)"

definition get_block_by_hash :: "'d storage_adapter \<Rightarrow> storage_env \<Rightarrow> hash \<Rightarrow> ('d, block option) storage_op" where
  "get_block_by_hash A E h =
     st_bind (get_block_number_by_hash A E h)
       (\<lambda>opt. case opt of Some num \<Rightarrow> storage_get_block A E num | None \<Rightarrow> st_return None)"

definition update_latest_proof :: "'d storage_adapter \<Rightarrow> storage_env \<Rightarrow> block_proof \<Rightarrow> ('d, unit) storage_op" where
  "update_latest_proof A E p =
     st_seq (schema_insert A CatBlock (se_hash_key E (se_latest_proof_key E)) (fst (se_proof E) p))
       (st_modify (\<lambda>s. s\<lparr>is_latest_proof := Some p\<rparr>))"

definition get_latest_proof :: "'d storage_adapter \<Rightarrow> storage_env \<Rightarrow> ('d, block_proof) storage_op" where
  "get_latest_proof A E s =
     (case is_latest_proof s of
        Some p \<Rightarrow> (s, Inr p)
      | None \<Rightarrow> ensure_get A CatBlock (snd (se_proof E)) (se_hash_key E (se_latest_proof_key E)) s)"

section \<open>Transactions, receipts and code\<close>

definition batch_insert_stxs ::
  "'d storage_adapter \<Rightarrow> storage_env \<Rightarrow> signed_transaction list \<Rightarrow> u64 \<Rightarrow> ('d, unit) storage_op" where
  "batch_insert_stxs A E stxs block_number =
     st_seq (schema_batch A CatSignedTransaction
               (map (\<lambda>tx. common_hash_key_encode (common_hash_key_new block_number (stx_hash tx))) stxs)
               (map (\<lambda>tx. Some (fst (se_stx E) tx)) stxs))
       (schema_batch A CatHashHeight
          (map (\<lambda>tx. se_hash_key E (stx_hash tx)) stxs)
          (map (\<lambda>tx. Some (fst (se_u64 E) block_number)) stxs))"

definition batch_insert_receipts ::
  "'d storage_adapter \<Rightarrow> storage_env \<Rightarrow> receipt list \<Rightarrow> u64 \<Rightarrow> ('d, unit) storage_op" where
  "batch_insert_receipts A E receipts block_number =
     st_seq (schema_batch A CatReceipt
               (map (\<lambda>r. common_hash_key_encode (common_hash_key_new block_number (rc_tx_hash r))) receipts)
               (map (\<lambda>r. Some (fst (se_receipt E) r)) receipts))
       (schema_batch A CatHashHeight
          (map (\<lambda>r. se_hash_key E (rc_tx_hash r)) receipts)
          (map (\<lambda>r. Some (fst (se_u64 E) block_number)) receipts))"

definition insert_transactions ::
  "'d storage_adapter \<Rightarrow> storage_env \<Rightarrow> u64 \<Rightarrow> signed_transaction list \<Rightarrow> ('d, unit) storage_op" where
  "insert_transactions A E block_height signed_txs = batch_insert_stxs A E signed_txs block_height"

definition insert_receipts ::
  "'d storage_adapter \<Rightarrow> storage_env \<Rightarrow> u64 \<Rightarrow> receipt list \<Rightarrow> ('d, unit) storage_op" where
  "insert_receipts A E block_height receipts = batch_insert_receipts A E receipts block_height"

text \<open>The value filed under a hash and the block number that is recorded for the hash.\<close>

definition get_at_number ::
  "'d storage_adapter \<Rightarrow> storage_env \<Rightarrow> storage_category \<Rightarrow> (bytes \<Rightarrow> string + 'v) \<Rightarrow> hash
   \<Rightarrow> ('d, 'v option) storage_op" where
  "get_at_number A E c dec h =
     st_bind (schema_get A CatHashHeight (snd (se_u64 E)) (se_hash_key E h))
       (\<lambda>opt. case opt of
           Some block_height \<Rightarrow>
             schema_get A c dec (common_hash_key_encode (common_hash_key_new block_height h))
         | None \<Rightarrow> st_return None)"

definition get_transaction_by_hash ::
  "'d storage_adapter \<Rightarrow> storage_env \<Rightarrow> hash \<Rightarrow> ('d, signed_transaction option) storage_op" where
  "get_transaction_by_hash A E h =
     cached_get is_transactions (put_tx E) h (get_at_number A E CatSignedTransaction (snd (se_stx E)) h)"

definition get_receipt_by_hash ::
  "'d storage_adapter \<Rightarrow> storage_env \<Rightarrow> hash \<Rightarrow> ('d, receipt option) storage_op" where
  "get_receipt_by_hash A E h =
     cached_get is_receipts (put_receipt E) h (get_at_number A E CatReceipt (snd (se_receipt E)) h)"

definition insert_code ::
  "'d storage_adapter \<Rightarrow> storage_env \<Rightarrow> hash \<Rightarrow> hash \<Rightarrow> bytes \<Rightarrow> ('d, unit) storage_op" where
  "insert_code A E code_address code_hash code =
     st_seq (schema_insert A CatCode (se_hash_key E code_hash) (fst (se_bytes E) code))
       (schema_insert A CatCode (se_hash_key E code_address) (fst (se_hash E) code_hash))"

definition get_code_by_hash :: "'d storage_adapter \<Rightarrow> storage_env \<Rightarrow> hash \<Rightarrow> ('d, bytes option) storage_op" where
  "get_code_by_hash A E h =
     cached_get is_codes (put_code E) h (schema_get A CatCode (snd (se_bytes E)) (se_hash_key E h))"

definition get_code_by_address :: "'d storage_adapter \<Rightarrow> storage_env \<Rightarrow> hash \<Rightarrow> ('d, bytes option) storage_op" where
  "get_code_by_address A E address =
     st_bind (schema_get A CatCode (snd (se_hash E)) (se_hash_key E address))
       (\<lambda>code_hash. case code_hash of Some h \<Rightarrow> get_code_by_hash A E h | None \<Rightarrow> st_return None)"

section \<open>Batched lookups\<close>

fun scan_found ::
  "u64 \<Rightarrow> hash list \<Rightarrow> nat \<Rightarrow> (bytes \<times> bytes) list \<Rightarrow> (hash \<times> bytes) list
   \<Rightarrow> storage_error + (hash \<times> bytes) list" where
  "scan_found height hashes 0 entries found = Inr found"
| "scan_found height hashes (Suc n) [] found = Inr found"
| "scan_found height hashes (Suc n) ((k, v) # entries) found =
     (case common_hash_key_decode k of
        None \<Rightarrow> Inl StoragePanic
      | Some key \<Rightarrow>
          if common_hash_key_height key \<noteq> height then Inr found
          else if chk_hash key \<notin> set hashes then scan_found height hashes (Suc n) entries found
          else scan_found height hashes n entries (found @ [(chk_hash key, v)]))"

definition BATCH_VALUE_DECODE_NUMBER :: nat where
  "BATCH_VALUE_DECODE_NUMBER = 1000"

fun chunks :: "nat \<Rightarrow> 'a list \<Rightarrow> 'a list list" where
  "chunks n xs = (if xs = [] \<or> n = 0 then [] else take n xs # chunks n (drop n xs))"

declare chunks.simps [simp del]

definition decode_pair :: "(bytes \<Rightarrow> string + 'v) \<Rightarrow> hash \<times> bytes \<Rightarrow> storage_error + hash \<times> 'v" where
  "decode_pair dec kv =
     (case dec (snd kv) of Inl e \<Rightarrow> Inl (StorageCodec e) | Inr v \<Rightarrow> Inr (fst kv, v))"

definition decode_found ::
  "(bytes \<Rightarrow> string + 'v) \<Rightarrow> (hash \<times> bytes) list \<Rightarrow> storage_error + (hash \<times> 'v) list" where
  "decode_found dec found =
     (if length found \<le> BATCH_VALUE_DECODE_NUMBER then res_map (decode_pair dec) found
      else res_bind (res_map (res_map (decode_pair dec)) (chunks BATCH_VALUE_DECODE_NUMBER found))
             (\<lambda>vss. Inr (concat vss)))"

fun remove_each :: "hash list \<Rightarrow> (hash \<rightharpoonup> 'v) \<Rightarrow> 'v option list" where
  "remove_each [] m = []"
| "remove_each (h # hs) m = m h # remove_each hs (m(h := None))"

definition get_values ::
  "'d storage_adapter \<Rightarrow> storage_category \<Rightarrow> (bytes \<Rightarrow> string + 'v) \<Rightarrow> u64 \<Rightarrow> hash list
   \<Rightarrow> ('d, 'v option list) storage_op" where
  "get_values A c dec block_height hashes s =
     (case ad_iter A c (common_prefix_new block_height) (is_db s) of
        (d, r) \<Rightarrow>
          (s\<lparr>is_db := d\<rparr>,
           res_bind r (\<lambda>entries.
           res_bind (scan_found block_height hashes (length hashes) entries []) (\<lambda>found.
           res_bind (decode_found dec found) (\<lambda>vals.
             Inr (remove_each hashes (foldl (\<lambda>m kv. m(fst kv \<mapsto> snd kv)) Map.empty vals)))))))"

definition get_transactions ::
  "'d storage_adapter \<Rightarrow> storage_env \<Rightarrow> u64 \<Rightarrow> hash list \<Rightarrow> ('d, signed_transaction option list) storage_op" where
  "get_transactions A E block_height hashes =
     get_values A CatSignedTransaction (snd (se_stx E)) block_height hashes"

definition get_receipts ::
  "'d storage_adapter \<Rightarrow> storage_env \<Rightarrow> u64 \<Rightarrow> hash list \<Rightarrow> ('d, receipt option list) storage_op" where
  "get_receipts A E block_height hashes =
     (if hashes = [] then st_return [] else get_values A CatReceipt (snd (se_receipt E)) block_height hashes)"

section \<open>What the storage holds\<close>

text \<open>The reads as functions of the contents of the database alone.\<close>

definition read_val :: "(bytes \<Rightarrow> string + 'v) \<Rightarrow> bytes option \<Rightarrow> storage_error + 'v option" where
  "read_val dec opt_bytes =
     (case opt_bytes of
        None \<Rightarrow> Inr None
      | Some bs \<Rightarrow> (case dec bs of Inl e \<Rightarrow> Inl (StorageCodec e) | Inr v \<Rightarrow> Inr (Some v)))"

definition spec_block :: "storage_env \<Rightarrow> kv_view \<Rightarrow> u64 \<Rightarrow> storage_error + block option" where
  "spec_block E V h = read_val (snd (se_block E)) (V CatBlock (common_prefix_new h))"

definition spec_number :: "storage_env \<Rightarrow> kv_view \<Rightarrow> hash \<Rightarrow> storage_error + u64 option" where
  "spec_number E V h = read_val (snd (se_u64 E)) (V CatHashHeight (se_hash_key E h))"

definition spec_header :: "storage_env \<Rightarrow> kv_view \<Rightarrow> u64 \<Rightarrow> storage_error + header option" where
  "spec_header E V h =
     res_bind (read_val (snd (se_header E)) (V CatBlockHeader (common_prefix_new h)))
       (\<lambda>opt. case opt of
           Some x \<Rightarrow> Inr (Some x)
         | None \<Rightarrow> res_bind (spec_block E V h) (\<lambda>b. Inr (map_option bk_header b)))"

definition spec_by_hash :: "storage_env \<Rightarrow> kv_view \<Rightarrow> hash \<Rightarrow> storage_error + block option" where
  "spec_by_hash E V h =
     res_bind (spec_number E V h)
       (\<lambda>opt. case opt of Some n \<Rightarrow> spec_block E V n | None \<Rightarrow> Inr None)"

definition spec_at ::
  "storage_env \<Rightarrow> storage_category \<Rightarrow> (bytes \<Rightarrow> string + 'v) \<Rightarrow> kv_view \<Rightarrow> hash \<Rightarrow> storage_error + 'v option" where
  "spec_at E c dec V h =
     res_bind (spec_number E V h)
       (\<lambda>opt. case opt of
           Some n \<Rightarrow> read_val dec (V c (common_hash_key_encode (common_hash_key_new n h)))
         | None \<Rightarrow> Inr None)"

definition spec_code :: "storage_env \<Rightarrow> kv_view \<Rightarrow> hash \<Rightarrow> storage_error + bytes option" where
  "spec_code E V h = read_val (snd (se_bytes E)) (V CatCode (se_hash_key E h))"

definition spec_latest_block :: "storage_env \<Rightarrow> kv_view \<Rightarrow> storage_error + block" where
  "spec_latest_block E V =
     res_bind (read_val (snd (se_block E)) (V CatBlock (se_hash_key E (se_latest_block_key E)))) (ok_or GetNone)"

definition spec_latest_proof :: "storage_env \<Rightarrow> kv_view \<Rightarrow> storage_error + block_proof" where
  "spec_latest_proof E V =
     res_bind (read_val (snd (se_proof E)) (V CatBlock (se_hash_key E (se_latest_proof_key E)))) (ok_or GetNone)"

text \<open>Every cached value is what a read of the database would give.\<close>

definition cache_ok :: "('k \<rightharpoonup> 'v) \<Rightarrow> ('k \<Rightarrow> storage_error + 'v option) \<Rightarrow> bool" where
  "cache_ok cache spec \<longleftrightarrow> (\<forall>k v. cache k = Some v \<longrightarrow> spec k = Inr (Some v))"

definition coherent :: "storage_env \<Rightarrow> ('d \<Rightarrow> kv_view) \<Rightarrow> 'd impl_storage \<Rightarrow> bool" where
  "coherent E view s \<longleftrightarrow>
     cache_ok (is_blocks s) (spec_block E (view (is_db s))) \<and>
     cache_ok (is_block_numbers s) (spec_number E (view (is_db s))) \<and>
     cache_ok (is_headers s) (spec_header E (view (is_db s))) \<and>
     cache_ok (is_transactions s) (spec_at E CatSignedTransaction (snd (se_stx E)) (view (is_db s))) \<and>
     cache_ok (is_codes s) (spec_code E (view (is_db s))) \<and>
     cache_ok (is_receipts s) (spec_at E CatReceipt (snd (se_receipt E)) (view (is_db s))) \<and>
     (\<forall>b. is_latest_block s = Some b \<longrightarrow> spec_latest_block E (view (is_db s)) = Inr b) \<and>
     (\<forall>p. is_latest_proof s = Some p \<longrightarrow> spec_latest_proof E (view (is_db s)) = Inr p)"

text \<open>An LRU cache never holds anything but what was put into it.\<close>

definition lru_ok :: "storage_env \<Rightarrow> bool" where
  "lru_ok E \<longleftrightarrow>
     (\<forall>m. se_keep_blocks E m \<subseteq>\<^sub>m m) \<and> (\<forall>m. se_keep_numbers E m \<subseteq>\<^sub>m m) \<and>
     (\<forall>m. se_keep_headers E m \<subseteq>\<^sub>m m) \<and> (\<forall>m. se_keep_txs E m \<subseteq>\<^sub>m m) \<and>
     (\<forall>m. se_keep_codes E m \<subseteq>\<^sub>m m) \<and> (\<forall>m. se_keep_receipts E m \<subseteq>\<^sub>m m)"

lemma cache_ok_put:
  assumes "cache_ok cache spec" and "\<forall>m. keep m \<subseteq>\<^sub>m m" and "spec k = Inr (Some v)"
  shows "cache_ok (keep (cache(k \<mapsto> v))) spec"
  unfolding cache_ok_def
proof (intro allI impI)
  fix k' v' assume "keep (cache(k \<mapsto> v)) k' = Some v'"
  then have "(cache(k \<mapsto> v)) k' = Some v'"
    using assms(2) by (metis domI map_le_def)
  then show "spec k' = Inr (Some v')"
    using assms(1,3) by (auto simp: cache_ok_def split: if_splits)
qed

lemma coherent_put:
  assumes "coherent E view s" and "lru_ok E"
  shows "spec_block E (view (is_db s)) h = Inr (Some b) \<Longrightarrow> coherent E view (put_block E h b s)"
    and "spec_number E (view (is_db s)) k = Inr (Some n) \<Longrightarrow> coherent E view (put_number E k n s)"
    and "spec_header E (view (is_db s)) h = Inr (Some x) \<Longrightarrow> coherent E view (put_header E h x s)"
    and "spec_at E CatSignedTransaction (snd (se_stx E)) (view (is_db s)) k = Inr (Some t) \<Longrightarrow>
      coherent E view (put_tx E k t s)"
    and "spec_code E (view (is_db s)) k = Inr (Some c) \<Longrightarrow> coherent E view (put_code E k c s)"
    and "spec_at E CatReceipt (snd (se_receipt E)) (view (is_db s)) k = Inr (Some r) \<Longrightarrow>
      coherent E view (put_receipt E k r s)"
  using assms
  by (simp_all add: coherent_def lru_ok_def put_block_def put_number_def put_header_def put_tx_def
      put_code_def put_receipt_def cache_ok_put)

lemma coherent_db: "coherent E view s \<Longrightarrow> view d = view (is_db s) \<Longrightarrow> coherent E view (s\<lparr>is_db := d\<rparr>)"
  by (simp add: coherent_def)

text \<open>
  \<open>transparent\<close>: the operation returns what the specification says of the database
  contents, leaves the contents alone and keeps the caches coherent.
\<close>

definition transparent ::
  "storage_env \<Rightarrow> ('d \<Rightarrow> kv_view) \<Rightarrow> ('d, 'v) storage_op \<Rightarrow> (kv_view \<Rightarrow> storage_error + 'v)
   \<Rightarrow> 'd impl_storage \<Rightarrow> bool" where
  "transparent E view op spec s \<longleftrightarrow>
     (\<exists>s'. op s = (s', spec (view (is_db s))) \<and> coherent E view s' \<and> view (is_db s') = view (is_db s))"

lemma transparent_snd: "transparent E view op spec s \<Longrightarrow> snd (op s) = spec (view (is_db s))"
  by (auto simp: transparent_def)

lemma transparent_bind:
  assumes "transparent E view op f s"
    and "\<And>v s'. f (view (is_db s)) = Inr v \<Longrightarrow> coherent E view s' \<Longrightarrow> view (is_db s') = view (is_db s) \<Longrightarrow>
      transparent E view (g v) (h v) s'"
  shows "transparent E view (st_bind op g) (\<lambda>V. res_bind (f V) (\<lambda>v. h v V)) s"
proof -
  obtain s' where s': "op s = (s', f (view (is_db s)))" "coherent E view s'" "view (is_db s') = view (is_db s)"
    using assms(1) by (auto simp: transparent_def)
  show ?thesis
  proof (cases "f (view (is_db s))")
    case (Inl e)
    with s' show ?thesis by (simp add: transparent_def st_bind_apply)
  next
    case (Inr v)
    then have "transparent E view (g v) (h v) s'" using assms(2) s' by blast
    with s' Inr show ?thesis by (simp add: transparent_def st_bind_apply)
  qed
qed

lemma transparent_return: "coherent E view s \<Longrightarrow> transparent E view (st_return v) (\<lambda>_. Inr v) s"
  by (simp add: transparent_def)

text \<open>
  A cached read is transparent when the read behind it is, the cache agrees with the
  specification and storing a correct value keeps the caches coherent.
\<close>

lemma transparent_cached_get:
  assumes "coherent E view s" and "transparent E view fetch (\<lambda>V. spec V k) s"
    and "\<And>v. cache s k = Some v \<Longrightarrow> spec (view (is_db s)) k = Inr (Some v)"
    and "\<And>s v. coherent E view s \<Longrightarrow> spec (view (is_db s)) k = Inr (Some v) \<Longrightarrow>
      coherent E view (put k v s) \<and> is_db (put k v s) = is_db s"
  shows "transparent E view (cached_get cache put k fetch) (\<lambda>V. spec V k) s"
proof (cases "cache s k")
  case (Some v)
  with assms(1,3) show ?thesis by (simp add: transparent_def cached_get_def)
next
  case None
  obtain s' where s': "fetch s = (s', spec (view (is_db s)) k)" "coherent E view s'"
    "view (is_db s') = view (is_db s)"
    using assms(2) by (auto simp: transparent_def)
  show ?thesis
  proof (cases "spec (view (is_db s)) k")
    case (Inl e)
    with None s' show ?thesis by (simp add: transparent_def cached_get_def st_bind_apply)
  next
    case (Inr opt)
    show ?thesis
    proof (cases opt)
      case None
      with Inr s' \<open>cache s k = None\<close> show ?thesis
        by (simp add: transparent_def cached_get_def st_bind_apply st_seq_apply)
    next
      case (Some v)
      then have "coherent E view (put k v s')" "is_db (put k v s') = is_db s'"
        using assms(4) [OF s'(2)] Inr s'(3) by simp_all
      with Inr Some s' \<open>cache s k = None\<close> show ?thesis
        by (simp add: transparent_def cached_get_def st_bind_apply st_seq_apply)
    qed
  qed
qed

context kv_adapter
begin

lemma schema_get_transparent:
  assumes "coherent E view s"
  shows "transparent E view (schema_get A c dec k) (\<lambda>V. read_val dec (V c k)) s"
proof -
  obtain d' where d': "ad_get A c k (is_db s) = (d', Inr (view (is_db s) c k))" "view d' = view (is_db s)"
    using get_ok by blast
  then show ?thesis
    using coherent_db [OF assms d'(2)]
    by (simp add: transparent_def schema_get_def read_val_def)
qed

lemma schema_insert_view:
  obtains d' where "schema_insert A c k v s = (s\<lparr>is_db := d'\<rparr>, Inr ())"
    and "view d' = (view (is_db s))(c := (view (is_db s) c)(k \<mapsto> v))"
proof -
  obtain d' where d': "ad_insert A c k v (is_db s) = (d', Inr ())"
    "view d' = (view (is_db s))(c := (view (is_db s) c)(k \<mapsto> v))"
    using insert_ok by blast
  then show ?thesis using that [of d'] by (simp add: schema_insert_def)
qed

lemma schema_batch_view:
  assumes "length ks = length vs"
  obtains d' where "schema_batch A c ks vs s = (s\<lparr>is_db := d'\<rparr>, Inr ())"
    and "view d' = (view (is_db s))(c := view_batch (view (is_db s) c) (zip ks vs))"
proof -
  obtain d' where d': "ad_batch A c ks vs (is_db s) = (d', Inr ())"
    "view d' = (view (is_db s))(c := view_batch (view (is_db s) c) (zip ks vs))"
    using batch_ok [OF assms] by blast
  then show ?thesis using that [of d'] by (simp add: schema_batch_def)
qed

lemma get_block_transparent:
  assumes "coherent E view s" and "lru_ok E"
  shows "transparent E view (storage_get_block A E h) (\<lambda>V. spec_block E V h) s"
  unfolding storage_get_block_def
proof (rule transparent_cached_get [OF assms(1)])
  show "transparent E view (schema_get A CatBlock (snd (se_block E)) (common_prefix_new h))
      (\<lambda>V. spec_block E V h) s"
    using schema_get_transparent [OF assms(1)] by (simp add: spec_block_def)
  show "is_blocks s h = Some v \<Longrightarrow> spec_block E (view (is_db s)) h = Inr (Some v)" for v
    using assms(1) by (simp add: coherent_def cache_ok_def)
qed (simp add: coherent_put [OF _ assms(2)], simp add: put_block_def)

lemma get_number_transparent:
  assumes "coherent E view s" and "lru_ok E"
  shows "transparent E view (get_block_number_by_hash A E h) (\<lambda>V. spec_number E V h) s"
  unfolding get_block_number_by_hash_def
proof (rule transparent_cached_get [OF assms(1)])
  show "transparent E view (schema_get A CatHashHeight (snd (se_u64 E)) (se_hash_key E h))
      (\<lambda>V. spec_number E V h) s"
    using schema_get_transparent [OF assms(1)] by (simp add: spec_number_def)
  show "is_block_numbers s h = Some v \<Longrightarrow> spec_number E (view (is_db s)) h = Inr (Some v)" for v
    using assms(1) by (simp add: coherent_def cache_ok_def)
qed (simp add: coherent_put [OF _ assms(2)], simp add: put_number_def)

lemma get_code_by_hash_transparent:
  assumes "coherent E view s" and "lru_ok E"
  shows "transparent E view (get_code_by_hash A E h) (\<lambda>V. spec_code E V h) s"
  unfolding get_code_by_hash_def
proof (rule transparent_cached_get [OF assms(1)])
  show "transparent E view (schema_get A CatCode (snd (se_bytes E)) (se_hash_key E h))
      (\<lambda>V. spec_code E V h) s"
    using schema_get_transparent [OF assms(1)] by (simp add: spec_code_def)
  show "is_codes s h = Some v \<Longrightarrow> spec_code E (view (is_db s)) h = Inr (Some v)" for v
    using assms(1) by (simp add: coherent_def cache_ok_def)
qed (simp add: coherent_put [OF _ assms(2)], simp add: put_code_def)

lemma get_at_number_transparent:
  assumes "coherent E view s"
  shows "transparent E view (get_at_number A E c dec h) (\<lambda>V. spec_at E c dec V h) s"
  unfolding get_at_number_def spec_at_def spec_number_def
proof (rule transparent_bind [OF schema_get_transparent [OF assms]])
  fix opt s' assume "coherent E view s'"
  then show "transparent E view
      (case opt of None \<Rightarrow> st_return None
        | Some n \<Rightarrow> schema_get A c dec (common_hash_key_encode (common_hash_key_new n h)))
      (\<lambda>V. case opt of None \<Rightarrow> Inr None
        | Some n \<Rightarrow> read_val dec (V c (common_hash_key_encode (common_hash_key_new n h)))) s'"
    by (cases opt) (simp_all add: transparent_return schema_get_transparent)
qed

lemma get_transaction_transparent:
  assumes "coherent E view s" and "lru_ok E"
  shows "transparent E view (get_transaction_by_hash A E h)
    (\<lambda>V. spec_at E CatSignedTransaction (snd (se_stx E)) V h) s"
  unfolding get_transaction_by_hash_def
proof (rule transparent_cached_get [OF assms(1)], rule get_at_number_transparent [OF assms(1)])
  show "is_transactions s h = Some v \<Longrightarrow>
      spec_at E CatSignedTransaction (snd (se_stx E)) (view (is_db s)) h = Inr (Some v)" for v
    using assms(1) by (simp add: coherent_def cache_ok_def)
qed (simp add: coherent_put [OF _ assms(2)], simp add: put_tx_def)

lemma get_receipt_transparent:
  assumes "coherent E view s" and "lru_ok E"
  shows "transparent E view (get_receipt_by_hash A E h)
    (\<lambda>V. spec_at E CatReceipt (snd (se_receipt E)) V h) s"
  unfolding get_receipt_by_hash_def
proof (rule transparent_cached_get [OF assms(1)], rule get_at_number_transparent [OF assms(1)])
  show "is_receipts s h = Some v \<Longrightarrow>
      spec_at E CatReceipt (snd (se_receipt E)) (view (is_db s)) h = Inr (Some v)" for v
    using assms(1) by (simp add: coherent_def cache_ok_def)
qed (simp add: coherent_put [OF _ assms(2)], simp add: put_receipt_def)

lemma get_block_by_hash_transparent:
  assumes "coherent E view s" and "lru_ok E"
  shows "transparent E view (get_block_by_hash A E h) (\<lambda>V. spec_by_hash E V h) s"
  unfolding get_block_by_hash_def spec_by_hash_def
proof (rule transparent_bind [OF get_number_transparent [OF assms]])
  fix opt s' assume "coherent E view s'"
  then show "transparent E view (case opt of None \<Rightarrow> st_return None | Some n \<Rightarrow> storage_get_block A E n)
      (\<lambda>V. case opt of None \<Rightarrow> Inr None | Some n \<Rightarrow> spec_block E V n) s'"
    by (cases opt) (simp_all add: transparent_return get_block_transparent [OF _ assms(2)])
qed

lemma transparent_map:
  assumes "transparent E view op f s"
  shows "transparent E view (st_bind op (\<lambda>x. st_return (g x))) (\<lambda>V. res_bind (f V) (\<lambda>x. Inr (g x))) s"
  by (rule transparent_bind [OF assms transparent_return])

lemma get_block_header_transparent:
  assumes "coherent E view s" and "lru_ok E"
  shows "transparent E view (storage_get_block_header A E h) (\<lambda>V. spec_header E V h) s"
proof (cases "is_headers s h")
  case (Some x)
  then have "spec_header E (view (is_db s)) h = Inr (Some x)"
    using assms(1) by (simp add: coherent_def cache_ok_def)
  with Some assms(1) show ?thesis by (simp add: transparent_def storage_get_block_header_def)
next
  case None
  let ?K = "\<lambda>opt_header. case opt_header of
      Some x \<Rightarrow> st_seq (st_modify (put_header E h x)) (st_return opt_header)
    | None \<Rightarrow> st_bind (storage_get_block A E h) (\<lambda>ret. st_return (map_option bk_header ret))"
  have "transparent E view
      (st_bind (schema_get A CatBlockHeader (snd (se_header E)) (common_prefix_new h)) ?K)
      (\<lambda>V. spec_header E V h) s"
    unfolding spec_header_def
  proof (rule transparent_bind [OF schema_get_transparent [OF assms(1)]])
    fix opt s'
    assume opt: "read_val (snd (se_header E)) (view (is_db s) CatBlockHeader (common_prefix_new h)) = Inr opt"
      and s': "coherent E view s'" "view (is_db s') = view (is_db s)"
    show "transparent E view (?K opt)
        (\<lambda>V. case opt of None \<Rightarrow> res_bind (spec_block E V h) (\<lambda>b. Inr (map_option bk_header b))
          | Some x \<Rightarrow> Inr (Some x)) s'"
    proof (cases opt)
      case None
      then show ?thesis using transparent_map [OF get_block_transparent [OF s'(1) assms(2)]] by simp
    next
      case (Some x)
      have "coherent E view (put_header E h x s')"
        using opt s' Some by (intro coherent_put(3) assms(2)) (simp_all add: spec_header_def)
      with Some show ?thesis
        by (simp add: transparent_def st_seq_apply put_header_def)
    qed
  qed
  with None show ?thesis by (simp add: transparent_def storage_get_block_header_def)
qed

lemma ensure_get_transparent:
  assumes "coherent E view s"
  shows "transparent E view (ensure_get A c dec k)
    (\<lambda>V. res_bind (read_val dec (V c k)) (ok_or GetNone)) s"
  unfolding ensure_get_def
  by (rule transparent_bind [OF schema_get_transparent [OF assms]])
    (simp add: transparent_def st_lift_def)

lemma get_latest_block_transparent:
  assumes "coherent E view s"
  shows "transparent E view (get_latest_block A E) (spec_latest_block E) s"
proof (cases "is_latest_block s")
  case None
  then show ?thesis
    using ensure_get_transparent [OF assms, of CatBlock "snd (se_block E)"]
    by (simp add: transparent_def get_latest_block_def spec_latest_block_def)
next
  case (Some b)
  then have "spec_latest_block E (view (is_db s)) = Inr b" using assms by (simp add: coherent_def)
  with Some assms show ?thesis by (simp add: transparent_def get_latest_block_def)
qed

lemma get_latest_block_header_transparent:
  assumes "coherent E view s"
  shows "transparent E view (get_latest_block_header A E)
    (\<lambda>V. res_bind (spec_latest_block E V) (\<lambda>b. Inr (bk_header b))) s"
proof (cases "is_latest_block s")
  case None
  then show ?thesis
    using transparent_map [OF ensure_get_transparent [OF assms, of CatBlock "snd (se_block E)"], of _ bk_header]
    by (simp add: transparent_def get_latest_block_header_def spec_latest_block_def)
next
  case (Some b)
  then have "spec_latest_block E (view (is_db s)) = Inr b" using assms by (simp add: coherent_def)
  with Some assms show ?thesis by (simp add: transparent_def get_latest_block_header_def)
qed

lemma get_latest_proof_transparent:
  assumes "coherent E view s"
  shows "transparent E view (get_latest_proof A E) (spec_latest_proof E) s"
proof (cases "is_latest_proof s")
  case None
  then show ?thesis
    using ensure_get_transparent [OF assms, of CatBlock "snd (se_proof E)"]
    by (simp add: transparent_def get_latest_proof_def spec_latest_proof_def)
next
  case (Some b)
  then have "spec_latest_proof E (view (is_db s)) = Inr b" using assms by (simp add: coherent_def)
  with Some assms show ?thesis by (simp add: transparent_def get_latest_proof_def)
qed

end

section \<open>Writes\<close>

text \<open>
  Hash keys are unambiguous and no hash key has the width of a block key: the
  encoding of a hash is its RLP string, 33 bytes for an \<open>H256\<close>.
\<close>

definition keys_ok :: "storage_env \<Rightarrow> bool" where
  "keys_ok E \<longleftrightarrow> inj (se_hash_key E) \<and> (\<forall>h. length (se_hash_key E h) \<noteq> 8) \<and>
     se_latest_block_key E \<noteq> se_latest_proof_key E"

definition codec_rt :: "'v val_codec \<Rightarrow> 'v \<Rightarrow> bool" where
  "codec_rt c v \<longleftrightarrow> snd c (fst c v) = Inr v"

lemma common_prefix_inj [simp]: "common_prefix_new m = common_prefix_new n \<longleftrightarrow> m = n"
proof -
  have "from_be_bytes (to_be_bytes 8 m) = m" for m :: u64 by (simp add: be_bytes_roundtrip)
  then show ?thesis unfolding common_prefix_new_def by metis
qed

lemma length_common_prefix [simp]: "length (common_prefix_new n) = 8"
  by (simp add: common_prefix_new_def)

lemma keys_ok_simps:
  assumes "keys_ok E"
  shows "se_hash_key E h \<noteq> common_prefix_new n" and "common_prefix_new n \<noteq> se_hash_key E h"
    and "se_hash_key E h = se_hash_key E h' \<longleftrightarrow> h = h'"
    and "se_latest_block_key E \<noteq> se_latest_proof_key E"
    and "se_latest_proof_key E \<noteq> se_latest_block_key E"
  using assms length_common_prefix [of n] unfolding keys_ok_def by (metis, metis, auto simp: inj_eq)

lemma coherent_transfer:
  assumes "coherent E view s" and "view d = V'"
    and "\<And>k v. is_blocks s k = Some v \<Longrightarrow> spec_block E (view (is_db s)) k = Inr (Some v) \<Longrightarrow>
      spec_block E V' k = Inr (Some v)"
    and "\<And>k v. is_block_numbers s k = Some v \<Longrightarrow> spec_number E (view (is_db s)) k = Inr (Some v) \<Longrightarrow>
      spec_number E V' k = Inr (Some v)"
    and "\<And>k v. is_headers s k = Some v \<Longrightarrow> spec_header E (view (is_db s)) k = Inr (Some v) \<Longrightarrow>
      spec_header E V' k = Inr (Some v)"
    and "\<And>k v. is_transactions s k = Some v \<Longrightarrow>
      spec_at E CatSignedTransaction (snd (se_stx E)) (view (is_db s)) k = Inr (Some v) \<Longrightarrow>
      spec_at E CatSignedTransaction (snd (se_stx E)) V' k = Inr (Some v)"
    and "\<And>k v. is_codes s k = Some v \<Longrightarrow> spec_code E (view (is_db s)) k = Inr (Some v) \<Longrightarrow>
      spec_code E V' k = Inr (Some v)"
    and "\<And>k v. is_receipts s k = Some v \<Longrightarrow>
      spec_at E CatReceipt (snd (se_receipt E)) (view (is_db s)) k = Inr (Some v) \<Longrightarrow>
      spec_at E CatReceipt (snd (se_receipt E)) V' k = Inr (Some v)"
    and "\<And>b. lb = Some b \<Longrightarrow> spec_latest_block E V' = Inr b"
    and "\<And>p. lp = Some p \<Longrightarrow> spec_latest_proof E V' = Inr p"
  shows "coherent E view (s\<lparr>is_db := d, is_latest_block := lb, is_latest_proof := lp\<rparr>)"
  using assms unfolding coherent_def cache_ok_def by simp

text \<open>The contents after a block is inserted.\<close>

definition with_block :: "storage_env \<Rightarrow> block \<Rightarrow> kv_view \<Rightarrow> kv_view" where
  "with_block E b V = (let n = hd_number (bk_header b) in
     V(CatBlock := (V CatBlock)(common_prefix_new n \<mapsto> fst (se_block E) b),
       CatBlockHeader := (V CatBlockHeader)(common_prefix_new n \<mapsto> fst (se_header E) (bk_header b)),
       CatHashHeight := (V CatHashHeight)
         (se_hash_key E (se_header_hash E (bk_header b)) \<mapsto> fst (se_u64 E) n)))"

definition with_latest :: "storage_env \<Rightarrow> block \<Rightarrow> kv_view \<Rightarrow> kv_view" where
  "with_latest E b V =
     V(CatBlock := (V CatBlock)(se_hash_key E (se_latest_block_key E) \<mapsto> fst (se_block E) b))"

text \<open>
  No cache holds something else under the height or the hash of the block: a node
  writes each height once.
\<close>

definition block_fresh :: "storage_env \<Rightarrow> block \<Rightarrow> 'd impl_storage \<Rightarrow> bool" where
  "block_fresh E b s \<longleftrightarrow> (let n = hd_number (bk_header b); h = se_header_hash E (bk_header b) in
     is_blocks s n \<in> {None, Some b} \<and> is_headers s n \<in> {None, Some (bk_header b)} \<and>
     is_block_numbers s h \<in> {None, Some n} \<and> is_transactions s h = None \<and> is_receipts s h = None)"

definition block_rt :: "storage_env \<Rightarrow> block \<Rightarrow> bool" where
  "block_rt E b \<longleftrightarrow> codec_rt (se_block E) b \<and> codec_rt (se_header E) (bk_header b) \<and>
     codec_rt (se_u64 E) (hd_number (bk_header b))"

lemma spec_with_block:
  assumes "keys_ok E" and "block_rt E b"
  defines "n \<equiv> hd_number (bk_header b)" and "h \<equiv> se_header_hash E (bk_header b)"
  shows "spec_block E (with_latest E b (with_block E b V)) m = (if m = n then Inr (Some b) else spec_block E V m)"
    and "spec_number E (with_latest E b (with_block E b V)) k =
      (if k = h then Inr (Some n) else spec_number E V k)"
    and "spec_code E (with_latest E b (with_block E b V)) k = spec_code E V k"
    and "spec_latest_block E (with_latest E b (with_block E b V)) = Inr b"
    and "spec_latest_proof E (with_latest E b (with_block E b V)) = spec_latest_proof E V"
  using assms(2)
  by (simp_all add: spec_block_def spec_number_def spec_code_def spec_latest_block_def
      spec_latest_proof_def with_latest_def with_block_def Let_def read_val_def block_rt_def codec_rt_def
      keys_ok_simps [OF assms(1)] n_def h_def)

lemma spec_header_with_block:
  assumes "keys_ok E" and "block_rt E b"
  shows "spec_header E (with_latest E b (with_block E b V)) m =
    (if m = hd_number (bk_header b) then Inr (Some (bk_header b)) else spec_header E V m)"
proof (cases "m = hd_number (bk_header b)")
  case True
  with assms(2) show ?thesis
    by (simp add: spec_header_def with_latest_def with_block_def Let_def read_val_def block_rt_def codec_rt_def)
next
  case False
  then have "with_latest E b (with_block E b V) CatBlockHeader (common_prefix_new m) =
      V CatBlockHeader (common_prefix_new m)"
    by (simp add: with_latest_def with_block_def Let_def)
  with False show ?thesis
    by (simp add: spec_header_def spec_with_block [OF assms] cong: option.case_cong)
qed

lemma spec_at_with_block:
  assumes "keys_ok E" and "block_rt E b" and "k \<noteq> se_header_hash E (bk_header b)"
    and "c = CatSignedTransaction \<or> c = CatReceipt"
  shows "spec_at E c dec (with_latest E b (with_block E b V)) k = spec_at E c dec V k"
proof -
  have "with_latest E b (with_block E b V) c = V c"
    using assms(4) by (auto simp: with_latest_def with_block_def Let_def)
  then show ?thesis using assms(3) by (simp add: spec_at_def spec_with_block [OF assms(1,2)] cong: option.case_cong)
qed

context kv_adapter
begin

lemma set_block_view:
  "\<exists>d'. storage_set_block A E b s = (s\<lparr>is_db := d'\<rparr>, Inr ()) \<and> view d' = with_block E b (view (is_db s))"
proof -
  let ?n = "hd_number (bk_header b)"
  obtain d1 where d1: "schema_insert A CatBlock (common_prefix_new ?n) (fst (se_block E) b) s =
      (s\<lparr>is_db := d1\<rparr>, Inr ())"
    "view d1 = (view (is_db s))(CatBlock := (view (is_db s) CatBlock)(common_prefix_new ?n \<mapsto> fst (se_block E) b))"
    by (rule schema_insert_view)
  obtain d2 where d2: "schema_insert A CatBlockHeader (common_prefix_new ?n)
      (fst (se_header E) (bk_header b)) (s\<lparr>is_db := d1\<rparr>) = (s\<lparr>is_db := d1\<rparr>\<lparr>is_db := d2\<rparr>, Inr ())"
    "view d2 = (view d1)(CatBlockHeader := (view d1 CatBlockHeader)
      (common_prefix_new ?n \<mapsto> fst (se_header E) (bk_header b)))"
    using schema_insert_view [of CatBlockHeader _ _ "s\<lparr>is_db := d1\<rparr>"] by auto
  obtain d3 where d3: "schema_insert A CatHashHeight (se_hash_key E (se_header_hash E (bk_header b)))
      (fst (se_u64 E) ?n) (s\<lparr>is_db := d2\<rparr>) = (s\<lparr>is_db := d2\<rparr>\<lparr>is_db := d3\<rparr>, Inr ())"
    "view d3 = (view d2)(CatHashHeight := (view d2 CatHashHeight)
      (se_hash_key E (se_header_hash E (bk_header b)) \<mapsto> fst (se_u64 E) ?n))"
    using schema_insert_view [of CatHashHeight _ _ "s\<lparr>is_db := d2\<rparr>"] by auto
  have "view d3 = with_block E b (view (is_db s))"
    unfolding d3(2) d2(2) d1(2) with_block_def Let_def by (rule ext) simp
  with d1(1) d2(1) d3(1) show ?thesis
    by (intro exI [of _ d3]) (simp add: storage_set_block_def Let_def st_seq_apply)
qed

lemma insert_block_view:
  "\<exists>d'. storage_insert_block A E b s = (s\<lparr>is_db := d', is_latest_block := Some b\<rparr>, Inr ()) \<and>
     view d' = with_latest E b (with_block E b (view (is_db s)))"
proof -
  obtain d1 where d1: "storage_set_block A E b s = (s\<lparr>is_db := d1\<rparr>, Inr ())"
    "view d1 = with_block E b (view (is_db s))"
    using set_block_view by blast
  obtain d2 where d2: "schema_insert A CatBlock (se_hash_key E (se_latest_block_key E))
      (fst (se_block E) b) (s\<lparr>is_db := d1\<rparr>) = (s\<lparr>is_db := d1\<rparr>\<lparr>is_db := d2\<rparr>, Inr ())"
    "view d2 = with_latest E b (view d1)"
    using schema_insert_view [of CatBlock _ _ "s\<lparr>is_db := d1\<rparr>"] by (auto simp: with_latest_def)
  from d1 d2 show ?thesis
    by (intro exI [of _ d2]) (simp add: storage_insert_block_def set_latest_block_def st_seq_apply)
qed

lemma insert_block_coherent:
  assumes "coherent E view s" and "keys_ok E" and "block_rt E b" and "block_fresh E b s"
  shows "\<exists>s'. storage_insert_block A E b s = (s', Inr ()) \<and> coherent E view s' \<and>
    view (is_db s') = with_latest E b (with_block E b (view (is_db s)))"
proof -
  let ?V' = "with_latest E b (with_block E b (view (is_db s)))"
  obtain d' where d': "storage_insert_block A E b s = (s\<lparr>is_db := d', is_latest_block := Some b\<rparr>, Inr ())"
    "view d' = ?V'"
    using insert_block_view by blast
  note sp = spec_with_block [OF assms(2,3)] spec_header_with_block [OF assms(2,3)]
  have "coherent E view (s\<lparr>is_db := d', is_latest_block := Some b, is_latest_proof := is_latest_proof s\<rparr>)"
  proof (rule coherent_transfer [OF assms(1) d'(2)])
    show "spec_at E CatSignedTransaction (snd (se_stx E)) ?V' k = Inr (Some v)"
      if "is_transactions s k = Some v"
        "spec_at E CatSignedTransaction (snd (se_stx E)) (view (is_db s)) k = Inr (Some v)" for k v
      using that assms(4)
      by (subst spec_at_with_block [OF assms(2,3)]) (auto simp: block_fresh_def Let_def)
    show "spec_at E CatReceipt (snd (se_receipt E)) ?V' k = Inr (Some v)"
      if "is_receipts s k = Some v"
        "spec_at E CatReceipt (snd (se_receipt E)) (view (is_db s)) k = Inr (Some v)" for k v
      using that assms(4)
      by (subst spec_at_with_block [OF assms(2,3)]) (auto simp: block_fresh_def Let_def)
  qed (use assms(1,4) in \<open>auto simp: sp block_fresh_def Let_def coherent_def\<close>)
  with d' show ?thesis by simp
qed

end

text \<open>The contents after values are filed under their hashes at a block number.\<close>

definition with_filed ::
  "storage_env \<Rightarrow> storage_category \<Rightarrow> ('v \<Rightarrow> bytes) \<Rightarrow> ('v \<Rightarrow> hash) \<Rightarrow> u64 \<Rightarrow> 'v list \<Rightarrow> kv_view \<Rightarrow> kv_view" where
  "with_filed E c enc hash n xs V =
     V(c := view_batch (V c)
         (zip (map (\<lambda>x. common_hash_key_encode (common_hash_key_new n (hash x))) xs)
              (map (\<lambda>x. Some (enc x)) xs)),
       CatHashHeight := view_batch (V CatHashHeight)
         (zip (map (\<lambda>x. se_hash_key E (hash x)) xs) (map (\<lambda>x. Some (fst (se_u64 E) n)) xs)))"

lemma view_batch_same:
  assumes "inj_on f (set xs)" and "x \<in> set xs"
  shows "view_batch m (zip (map f xs) (map (\<lambda>x. Some (g x)) xs)) (f x) = Some (g x)"
  using assms
proof (induction xs arbitrary: m)
  case Nil
  then show ?case by simp
next
  case (Cons y ys)
  show ?case
  proof (cases "x \<in> set ys")
    case True
    with Cons show ?thesis by simp
  next
    case False
    with Cons have "x = y" "f x \<notin> f ` set ys" by (auto simp: inj_on_def)
    then have "f y \<notin> fst ` set (zip (map f ys) (map (\<lambda>x. Some (g x)) ys))"
      by (auto dest: set_zip_leftD)
    then show ?thesis using \<open>x = y\<close> by (simp add: view_batch_other)
  qed
qed

lemma view_batch_const:
  "view_batch m (zip (map f xs) (map (\<lambda>x. Some v) xs)) k = (if k \<in> f ` set xs then Some v else m k)"
  by (induction xs arbitrary: m) auto

lemma common_hash_key_inj [simp]:
  "common_hash_key_encode (common_hash_key_new n h) = common_hash_key_encode (common_hash_key_new n' h') \<longleftrightarrow>
   n = n' \<and> h = h'"
proof -
  have h: "from_be_bytes (to_be_bytes 32 m) = m" for m :: hash by (simp add: be_bytes_roundtrip)
  have n: "from_be_bytes (to_be_bytes 8 m) = m" for m :: u64 by (simp add: be_bytes_roundtrip)
  have "to_be_bytes 32 h = to_be_bytes 32 h' \<longleftrightarrow> h = h'" by (metis h)
  moreover have "to_be_bytes 8 n = to_be_bytes 8 n' \<longleftrightarrow> n = n'" by (metis n)
  ultimately show ?thesis
    by (simp add: common_hash_key_encode_def make_hash_key_def common_hash_key_new_def common_prefix_new_def)
qed

lemma spec_with_filed:
  assumes "c = CatSignedTransaction \<or> c = CatReceipt" and "keys_ok E" and "codec_rt (se_u64 E) n"
  shows "spec_block E (with_filed E c enc hash n xs V) m = spec_block E V m"
    and "spec_header E (with_filed E c enc hash n xs V) m = spec_header E V m"
    and "spec_code E (with_filed E c enc hash n xs V) k = spec_code E V k"
    and "spec_latest_block E (with_filed E c enc hash n xs V) = spec_latest_block E V"
    and "spec_latest_proof E (with_filed E c enc hash n xs V) = spec_latest_proof E V"
    and "spec_number E (with_filed E c enc hash n xs V) k =
      (if k \<in> hash ` set xs then Inr (Some n) else spec_number E V k)"
proof -
  have V: "with_filed E c enc hash n xs V c' = V c'" if "c' \<in> {CatBlock, CatBlockHeader, CatCode}" for c'
    using that assms(1) by (auto simp: with_filed_def)
  show "spec_block E (with_filed E c enc hash n xs V) m = spec_block E V m"
    and "spec_header E (with_filed E c enc hash n xs V) m = spec_header E V m"
    and "spec_code E (with_filed E c enc hash n xs V) k = spec_code E V k"
    and "spec_latest_block E (with_filed E c enc hash n xs V) = spec_latest_block E V"
    and "spec_latest_proof E (with_filed E c enc hash n xs V) = spec_latest_proof E V"
    by (simp_all add: spec_block_def spec_header_def spec_code_def spec_latest_block_def spec_latest_proof_def V
        cong: option.case_cong)
  have "se_hash_key E k \<in> (\<lambda>x. se_hash_key E (hash x)) ` set xs \<longleftrightarrow> k \<in> hash ` set xs"
    by (auto simp: keys_ok_simps [OF assms(2)])
  then show "spec_number E (with_filed E c enc hash n xs V) k =
      (if k \<in> hash ` set xs then Inr (Some n) else spec_number E V k)"
    using assms(3)
    by (simp add: spec_number_def with_filed_def view_batch_const read_val_def codec_rt_def)
qed

lemma spec_at_with_filed:
  assumes "c = CatSignedTransaction \<or> c = CatReceipt" and "keys_ok E" and "codec_rt (se_u64 E) n"
  shows "distinct (map hash xs) \<Longrightarrow> x \<in> set xs \<Longrightarrow> dec (enc x) = Inr x \<Longrightarrow>
      spec_at E c dec (with_filed E c enc hash n xs V) (hash x) = Inr (Some x)"
    and "k \<notin> hash ` set xs \<Longrightarrow> c' = CatSignedTransaction \<or> c' = CatReceipt \<Longrightarrow>
      spec_at E c' dec' (with_filed E c enc hash n xs V) k = spec_at E c' dec' V k"
    and "c' \<noteq> c \<Longrightarrow> c' = CatSignedTransaction \<or> c' = CatReceipt \<Longrightarrow> spec_number E V k = Inr (Some n) \<Longrightarrow>
      spec_at E c' dec' (with_filed E c enc hash n xs V) k = spec_at E c' dec' V k"
proof -
  have c: "c \<noteq> CatHashHeight" using assms(1) by auto
  let ?key = "\<lambda>x. common_hash_key_encode (common_hash_key_new n (hash x))"
  show "spec_at E c dec (with_filed E c enc hash n xs V) (hash x) = Inr (Some x)"
    if "distinct (map hash xs)" "x \<in> set xs" "dec (enc x) = Inr x"
  proof -
    have "inj_on ?key (set xs)" using that(1) by (auto simp: distinct_map inj_on_def)
    from view_batch_same [OF this that(2)]
    have "with_filed E c enc hash n xs V c (?key x) = Some (enc x)"
      using c by (simp add: with_filed_def)
    with that show ?thesis
      by (simp add: spec_at_def spec_with_filed [OF assms] read_val_def)
  qed
  show "spec_at E c' dec' (with_filed E c enc hash n xs V) k = spec_at E c' dec' V k"
    if "k \<notin> hash ` set xs" and c': "c' = CatSignedTransaction \<or> c' = CatReceipt"
  proof -
    have "with_filed E c enc hash n xs V c' (common_hash_key_encode (common_hash_key_new m k)) =
        V c' (common_hash_key_encode (common_hash_key_new m k))" for m
    proof -
      have "common_hash_key_encode (common_hash_key_new m k) \<notin>
          fst ` set (zip (map ?key xs) (map (\<lambda>x. Some (enc x)) xs))"
        using that(1) by (auto dest!: set_zip_leftD)
      then show ?thesis using c' c by (auto simp: with_filed_def view_batch_other)
    qed
    with that(1) show ?thesis
      by (simp add: spec_at_def spec_with_filed [OF assms] cong: option.case_cong)
  qed
  show "spec_at E c' dec' (with_filed E c enc hash n xs V) k = spec_at E c' dec' V k"
    if "c' \<noteq> c" and c': "c' = CatSignedTransaction \<or> c' = CatReceipt" and "spec_number E V k = Inr (Some n)"
  proof -
    have "with_filed E c enc hash n xs V c' = V c'" using that(1) c' by (auto simp: with_filed_def)
    with that(3) show ?thesis by (simp add: spec_at_def spec_with_filed [OF assms])
  qed
qed

text \<open>
  No cache holds anything about the hashes that are filed, except that the other
  of the two values may be cached when it is filed at the same block.
\<close>

definition filed_fresh ::
  "storage_env \<Rightarrow> kv_view \<Rightarrow> u64 \<Rightarrow> hash set \<Rightarrow> (hash \<rightharpoonup> 'a) \<Rightarrow> (hash \<rightharpoonup> 'b) \<Rightarrow> (hash \<rightharpoonup> u64) \<Rightarrow> bool" where
  "filed_fresh E V n hs own other numbers \<longleftrightarrow>
     (\<forall>h\<in>hs. own h = None \<and> numbers h \<in> {None, Some n} \<and>
        (other h = None \<or> spec_number E V h = Inr (Some n)))"

context kv_adapter
begin

lemma file_view:
  "\<exists>d'. st_seq (schema_batch A c (map (\<lambda>x. common_hash_key_encode (common_hash_key_new n (hash x))) xs)
         (map (\<lambda>x. Some (enc x)) xs))
       (schema_batch A CatHashHeight (map (\<lambda>x. se_hash_key E (hash x)) xs)
         (map (\<lambda>x. Some (fst (se_u64 E) n)) xs)) s = (s\<lparr>is_db := d'\<rparr>, Inr ()) \<and>
     (c \<noteq> CatHashHeight \<longrightarrow> view d' = with_filed E c enc hash n xs (view (is_db s)))"
proof -
  let ?ks = "map (\<lambda>x. common_hash_key_encode (common_hash_key_new n (hash x))) xs"
  let ?vs = "map (\<lambda>x. Some (enc x)) xs"
  let ?hs = "map (\<lambda>x. se_hash_key E (hash x)) xs"
  let ?ns = "map (\<lambda>x. Some (fst (se_u64 E) n)) xs"
  obtain d1 where d1: "schema_batch A c ?ks ?vs s = (s\<lparr>is_db := d1\<rparr>, Inr ())"
    "view d1 = (view (is_db s))(c := view_batch (view (is_db s) c) (zip ?ks ?vs))"
    by (rule schema_batch_view [of ?ks ?vs]) simp_all
  obtain d2 where d2: "schema_batch A CatHashHeight ?hs ?ns (s\<lparr>is_db := d1\<rparr>) =
      (s\<lparr>is_db := d1\<rparr>\<lparr>is_db := d2\<rparr>, Inr ())"
    "view d2 = (view d1)(CatHashHeight := view_batch (view d1 CatHashHeight) (zip ?hs ?ns))"
    using schema_batch_view [of ?hs ?ns CatHashHeight "s\<lparr>is_db := d1\<rparr>"] by auto
  have "view d2 = with_filed E c enc hash n xs (view (is_db s))" if "c \<noteq> CatHashHeight"
    using that unfolding d2(2) d1(2) with_filed_def by (intro ext) simp
  with d1(1) d2(1) show ?thesis
    by (intro exI [of _ d2]) (simp add: st_seq_apply)
qed

lemma insert_transactions_coherent:
  assumes "coherent E view s" and "keys_ok E" and "codec_rt (se_u64 E) n"
    and "filed_fresh E (view (is_db s)) n (stx_hash ` set txs) (is_transactions s) (is_receipts s) (is_block_numbers s)"
  shows "\<exists>s'. insert_transactions A E n txs s = (s', Inr ()) \<and> coherent E view s' \<and>
    view (is_db s') = with_filed E CatSignedTransaction (fst (se_stx E)) stx_hash n txs (view (is_db s)) \<and>
    (\<exists>d'. s' = s\<lparr>is_db := d'\<rparr>)"
proof -
  obtain d' where d': "insert_transactions A E n txs s = (s\<lparr>is_db := d'\<rparr>, Inr ())"
    "view d' = with_filed E CatSignedTransaction (fst (se_stx E)) stx_hash n txs (view (is_db s))"
    using file_view [of CatSignedTransaction n stx_hash txs "fst (se_stx E)" E s]
    by (auto simp: insert_transactions_def batch_insert_stxs_def)
  note sp = spec_with_filed [OF disjI1 [OF refl] assms(2,3)]
  note at = spec_at_with_filed [OF disjI1 [OF refl] assms(2,3)]
  have "coherent E view (s\<lparr>is_db := d', is_latest_block := is_latest_block s, is_latest_proof := is_latest_proof s\<rparr>)"
  proof (rule coherent_transfer [OF assms(1) d'(2)])
    fix k v assume "is_transactions s k = Some v"
      and *: "spec_at E CatSignedTransaction (snd (se_stx E)) (view (is_db s)) k = Inr (Some v)"
    then have "k \<notin> stx_hash ` set txs" using assms(4) by (auto simp: filed_fresh_def)
    with * show "spec_at E CatSignedTransaction (snd (se_stx E)) (with_filed E CatSignedTransaction (fst (se_stx E)) stx_hash n txs (view (is_db s))) k = Inr (Some v)"
      by (simp add: at(2))
  next
    fix k v assume "is_receipts s k = Some v"
      and *: "spec_at E CatReceipt (snd (se_receipt E)) (view (is_db s)) k = Inr (Some v)"
    then have "k \<notin> stx_hash ` set txs \<or> spec_number E (view (is_db s)) k = Inr (Some n)"
      using assms(4) by (auto simp: filed_fresh_def)
    with * show "spec_at E CatReceipt (snd (se_receipt E)) (with_filed E CatSignedTransaction (fst (se_stx E)) stx_hash n txs (view (is_db s))) k = Inr (Some v)"
      by (auto simp: at(2,3))
  next
    fix k v assume "is_block_numbers s k = Some v" and "spec_number E (view (is_db s)) k = Inr (Some v)"
    then show "spec_number E (with_filed E CatSignedTransaction (fst (se_stx E)) stx_hash n txs (view (is_db s))) k = Inr (Some v)"
      using assms(4) by (auto simp: sp filed_fresh_def)
  qed (use assms(1) in \<open>simp_all add: sp coherent_def\<close>)
  with d' show ?thesis by auto
qed

lemma insert_receipts_coherent:
  assumes "coherent E view s" and "keys_ok E" and "codec_rt (se_u64 E) n"
    and "filed_fresh E (view (is_db s)) n (rc_tx_hash ` set rs) (is_receipts s) (is_transactions s) (is_block_numbers s)"
  shows "\<exists>s'. insert_receipts A E n rs s = (s', Inr ()) \<and> coherent E view s' \<and>
    view (is_db s') = with_filed E CatReceipt (fst (se_receipt E)) rc_tx_hash n rs (view (is_db s)) \<and>
    (\<exists>d'. s' = s\<lparr>is_db := d'\<rparr>)"
proof -
  obtain d' where d': "insert_receipts A E n rs s = (s\<lparr>is_db := d'\<rparr>, Inr ())"
    "view d' = with_filed E CatReceipt (fst (se_receipt E)) rc_tx_hash n rs (view (is_db s))"
    using file_view [of CatReceipt n rc_tx_hash rs "fst (se_receipt E)" E s]
    by (auto simp: insert_receipts_def batch_insert_receipts_def)
  note sp = spec_with_filed [OF disjI2 [OF refl] assms(2,3)]
  note at = spec_at_with_filed [OF disjI2 [OF refl] assms(2,3)]
  have "coherent E view (s\<lparr>is_db := d', is_latest_block := is_latest_block s, is_latest_proof := is_latest_proof s\<rparr>)"
  proof (rule coherent_transfer [OF assms(1) d'(2)])
    fix k v assume "is_receipts s k = Some v"
      and *: "spec_at E CatReceipt (snd (se_receipt E)) (view (is_db s)) k = Inr (Some v)"
    then have "k \<notin> rc_tx_hash ` set rs" using assms(4) by (auto simp: filed_fresh_def)
    with * show "spec_at E CatReceipt (snd (se_receipt E)) (with_filed E CatReceipt (fst (se_receipt E)) rc_tx_hash n rs (view (is_db s))) k = Inr (Some v)"
      by (simp add: at(2))
  next
    fix k v assume "is_transactions s k = Some v"
      and *: "spec_at E CatSignedTransaction (snd (se_stx E)) (view (is_db s)) k = Inr (Some v)"
    then have "k \<notin> rc_tx_hash ` set rs \<or> spec_number E (view (is_db s)) k = Inr (Some n)"
      using assms(4) by (auto simp: filed_fresh_def)
    with * show "spec_at E CatSignedTransaction (snd (se_stx E)) (with_filed E CatReceipt (fst (se_receipt E)) rc_tx_hash n rs (view (is_db s))) k = Inr (Some v)"
      by (auto simp: at(2,3))
  next
    fix k v assume "is_block_numbers s k = Some v" and "spec_number E (view (is_db s)) k = Inr (Some v)"
    then show "spec_number E (with_filed E CatReceipt (fst (se_receipt E)) rc_tx_hash n rs (view (is_db s))) k = Inr (Some v)"
      using assms(4) by (auto simp: sp filed_fresh_def)
  qed (use assms(1) in \<open>simp_all add: sp coherent_def\<close>)
  with d' show ?thesis by auto
qed

end

section \<open>Batched lookups return what single lookups return\<close>

lemma res_map_append:
  "res_map f (xs @ ys) = res_bind (res_map f xs) (\<lambda>as. res_bind (res_map f ys) (\<lambda>bs. Inr (as @ bs)))"
proof (induction xs)
  case Nil
  then show ?case by (cases "res_map f ys") simp_all
next
  case (Cons x xs)
  then show ?case
    by (cases "f x"; cases "res_map f xs"; cases "res_map f ys") simp_all
qed

lemma res_map_concat:
  "res_bind (res_map (res_map f) xss) (\<lambda>vss. Inr (concat vss)) = res_map f (concat xss)"
proof (induction xss)
  case Nil
  then show ?case by simp
next
  case (Cons xs xss)
  show ?case
  proof (cases "res_map f xs")
    case (Inl e)
    then show ?thesis by (simp add: res_map_append)
  next
    case (Inr ys)
    with Cons show ?thesis
      by (cases "res_map (res_map f) xss") (simp_all add: res_map_append Cons [symmetric])
  qed
qed

lemma concat_chunks: "0 < n \<Longrightarrow> concat (chunks n xs) = xs"
proof (induction n xs rule: chunks.induct)
  case (1 n xs)
  then show ?case
    by (subst chunks.simps) (auto simp: append_take_drop_id)
qed

text \<open>Decoding in chunks of a thousand is decoding one after the other.\<close>

lemma decode_found_sequential: "decode_found dec found = res_map (decode_pair dec) found"
  by (simp add: decode_found_def res_map_concat concat_chunks BATCH_VALUE_DECODE_NUMBER_def)

definition filed_entry :: "u64 \<Rightarrow> hash \<times> bytes \<Rightarrow> bytes \<times> bytes" where
  "filed_entry n hv = (common_hash_key_encode (common_hash_key_new n (fst hv)), snd hv)"

definition other_height :: "u64 \<Rightarrow> (bytes \<times> bytes) list \<Rightarrow> bool" where
  "other_height n entries \<longleftrightarrow>
     (case entries of
        [] \<Rightarrow> True
      | (k, v) # _ \<Rightarrow> (case common_hash_key_decode k of None \<Rightarrow> False | Some key \<Rightarrow> common_hash_key_height key \<noteq> n))"

lemma hash_key_decode_new [simp]:
  "common_hash_key_decode (common_hash_key_encode (common_hash_key_new n h)) = Some (common_hash_key_new n h)"
  "common_hash_key_height (common_hash_key_new n h) = n" "chk_hash (common_hash_key_new n h) = h"
proof -
  have n: "from_be_bytes (to_be_bytes 8 m) = m" for m :: u64 by (simp add: be_bytes_roundtrip)
  have h: "from_be_bytes (to_be_bytes 32 m) = m" for m :: hash by (simp add: be_bytes_roundtrip)
  show "common_hash_key_decode (common_hash_key_encode (common_hash_key_new n h)) = Some (common_hash_key_new n h)"
    "common_hash_key_height (common_hash_key_new n h) = n" "chk_hash (common_hash_key_new n h) = h"
    by (simp_all add: common_hash_key_decode_def common_hash_key_encode_def common_hash_key_new_def
        common_hash_key_height_def common_prefix_height_def make_hash_key_def common_prefix_new_def
        common_prefix_from_def n h)
qed

lemma scan_found_prefix:
  assumes "other_height n rest"
  shows "scan_found n hashes c (map (filed_entry n) kvs @ rest) found =
    Inr (found @ take c (filter (\<lambda>kv. fst kv \<in> set hashes) kvs))"
proof (induction kvs arbitrary: c found)
  case Nil
  show ?case
  proof (cases rest)
    case Nil
    then show ?thesis by (cases c) simp_all
  next
    case (Cons kv rest')
    with assms show ?thesis
      by (cases c; cases kv) (auto simp: other_height_def split: option.splits)
  qed
next
  case (Cons kv kvs)
  then show ?case by (cases c) (simp_all add: filed_entry_def)
qed

lemma remove_each_distinct: "distinct hs \<Longrightarrow> remove_each hs m = map m hs"
proof (induction hs arbitrary: m)
  case (Cons h hs)
  then have "map (m(h := None)) hs = map m hs" by (intro map_cong) auto
  with Cons show ?case by simp
qed simp

lemma filter_hashes_short:
  assumes "distinct (map fst kvs)"
  shows "length (filter (\<lambda>kv. fst kv \<in> set hashes) kvs) \<le> length hashes"
proof -
  have "length (filter (\<lambda>kv. fst kv \<in> set hashes) kvs) = card (set (map fst (filter (\<lambda>kv. fst kv \<in> set hashes) kvs)))"
    using distinct_card [OF distinct_map_filter [OF assms, of "\<lambda>kv. fst kv \<in> set hashes"]] by simp
  also have "\<dots> \<le> card (set hashes)" by (intro card_mono) auto
  also have "\<dots> \<le> length hashes" by (rule card_length)
  finally show ?thesis .
qed

lemma res_map_decode_pairs:
  assumes "\<And>kv. kv \<in> set kvs \<Longrightarrow> dec (snd kv) = Inr (val (snd kv))"
  shows "res_map (decode_pair dec) kvs = Inr (map (\<lambda>kv. (fst kv, val (snd kv))) kvs)"
  using assms by (induction kvs) (simp_all add: decode_pair_def)

lemma foldl_upd_distinct:
  "distinct (map fst kvs) \<Longrightarrow>
   foldl (\<lambda>m kv. m(fst kv \<mapsto> snd kv)) m kvs k = (case map_of kvs k of None \<Rightarrow> m k | Some v \<Rightarrow> Some v)"
proof (induction kvs arbitrary: m)
  case (Cons kv kvs)
  then have "map_of kvs (fst kv) = None" by (simp add: map_of_eq_None_iff)
  with Cons show ?case by (simp del: map_of_eq_None_iff split: option.split)
qed simp

lemma get_values_lookup:
  assumes "ad_iter A c (common_prefix_new n) (is_db s) = (d', Inr (map (filed_entry n) kvs @ rest))"
    and "distinct (map fst kvs)" and "other_height n rest" and "distinct hashes"
    and "\<And>h bs. h \<in> set hashes \<Longrightarrow> (h, bs) \<in> set kvs \<Longrightarrow> dec bs = Inr (val bs)"
  shows "get_values A c dec n hashes s =
    (s\<lparr>is_db := d'\<rparr>, Inr (map (\<lambda>h. map_option val (map_of kvs h)) hashes))"
proof -
  let ?P = "\<lambda>kv. fst kv \<in> set hashes"
  let ?vals = "map (\<lambda>kv. (fst kv, val (snd kv))) (filter ?P kvs)"
  have found: "scan_found n hashes (length hashes) (map (filed_entry n) kvs @ rest) [] = Inr (filter ?P kvs)"
    using filter_hashes_short [OF assms(2)] by (simp add: scan_found_prefix [OF assms(3)])
  have decode: "decode_found dec (filter ?P kvs) = Inr ?vals"
    unfolding decode_found_sequential by (rule res_map_decode_pairs) (use assms(5) in auto)
  have "distinct (map fst ?vals)"
    using distinct_map_filter [OF assms(2), of ?P] by (simp add: comp_def)
  then have "foldl (\<lambda>m kv. m(fst kv \<mapsto> snd kv)) Map.empty ?vals h = map_of ?vals h" for h
    by (simp add: foldl_upd_distinct split: option.split)
  moreover have "map_of ?vals h = map_option val (map_of kvs h)" if "h \<in> set hashes" for h
    using that by (induction kvs) auto
  ultimately show ?thesis
    using assms(1) found decode
    by (simp add: get_values_def remove_each_distinct [OF assms(4)])
qed

text \<open>
  What the scan relies on: the entries of a block come first and once each, and the
  entry behind them, if there is one, belongs to another block.
\<close>

definition prefix_first :: "kv_view \<Rightarrow> storage_category \<Rightarrow> u64 \<Rightarrow> (bytes \<times> bytes) list \<Rightarrow> bool" where
  "prefix_first V c n entries \<longleftrightarrow>
     (\<exists>kvs rest. entries = map (filed_entry n) kvs @ rest \<and> distinct (map fst kvs) \<and> other_height n rest \<and>
        (\<forall>h. V c (common_hash_key_encode (common_hash_key_new n h)) = map_of kvs h))"

lemma get_values_single:
  assumes "ad_iter A c (common_prefix_new n) (is_db s) = (d', Inr entries)"
    and "prefix_first V c n entries" and "distinct hashes"
    and "res_map (\<lambda>h. read_val dec (V c (common_hash_key_encode (common_hash_key_new n h)))) hashes = Inr vs"
  shows "get_values A c dec n hashes s = (s\<lparr>is_db := d'\<rparr>, Inr vs)"
proof -
  define val where "val bs = (case dec bs of Inr v \<Rightarrow> v | Inl _ \<Rightarrow> undefined)" for bs
  obtain kvs rest where kvs: "entries = map (filed_entry n) kvs @ rest" "distinct (map fst kvs)"
    "other_height n rest" "\<And>h. V c (common_hash_key_encode (common_hash_key_new n h)) = map_of kvs h"
    using assms(2) by (auto simp: prefix_first_def)
  have all: "\<exists>v. read_val dec (map_of kvs h) = Inr v" if "h \<in> set hashes" for h
    using assms(4) that unfolding kvs(4)
    by (induction hashes arbitrary: vs) (auto simp: res_bind_eq_Inr)
  have dec: "dec bs = Inr (val bs)" if "h \<in> set hashes" "(h, bs) \<in> set kvs" for h bs
    using all [OF that(1)] that(2) kvs(2)
    by (auto simp: read_val_def val_def split: sum.splits)
  have "read_val dec (map_of kvs h) = Inr (map_option val (map_of kvs h))" if "h \<in> set hashes" for h
    using dec [OF that] by (cases "map_of kvs h") (auto simp: read_val_def dest: map_of_SomeD)
  then have "vs = map (\<lambda>h. map_option val (map_of kvs h)) hashes"
    using assms(4) unfolding kvs(4) by (subst (asm) res_map_all_ok [of hashes]) auto
  then show ?thesis
    using get_values_lookup [where val = val, OF assms(1) [unfolded kvs(1)] kvs(2,3) assms(3) dec] by simp
qed

section \<open>Properties\<close>

text \<open>
  A small environment for the instances below: one block, header and proof with
  constant encodings, hash keys of 33 bytes, unbounded caches.
\<close>

definition sample_env :: "block \<Rightarrow> signed_transaction \<Rightarrow> receipt \<Rightarrow> storage_env" where
  "sample_env b tx r =
     \<lparr>se_block = (\<lambda>_. [1], \<lambda>_. Inr b), se_header = (\<lambda>_. [2], \<lambda>_. Inr (bk_header b)),
      se_proof = (\<lambda>_. [3], \<lambda>_. Inr (hd_proof (bk_header b))), se_stx = (\<lambda>_. [4], \<lambda>_. Inr tx),
      se_receipt = (\<lambda>_. [5], \<lambda>_. Inr r), se_u64 = (to_be_bytes 8, \<lambda>bs. Inr (from_be_bytes bs)),
      se_bytes = (id, Inr), se_hash = (to_be_bytes 32, \<lambda>bs. Inr (from_be_bytes bs)),
      se_hash_key = (\<lambda>h. 160 # to_be_bytes 32 h), se_header_hash = (\<lambda>h. ucast (hd_number h)),
      se_latest_block_key = 1000, se_latest_proof_key = 1001,
      se_keep_blocks = id, se_keep_numbers = id, se_keep_headers = id, se_keep_txs = id,
      se_keep_codes = id, se_keep_receipts = id\<rparr>"

lemma sample_env_ok: "lru_ok (sample_env b tx r)" "keys_ok (sample_env b tx r)"
  "block_rt (sample_env b tx r) b" "codec_rt (se_u64 (sample_env b tx r)) n"
proof -
  have h: "from_be_bytes (to_be_bytes 32 m) = m" for m :: hash by (simp add: be_bytes_roundtrip)
  have n: "from_be_bytes (to_be_bytes 8 m) = m" for m :: u64 by (simp add: be_bytes_roundtrip)
  show "lru_ok (sample_env b tx r)" by (simp add: lru_ok_def sample_env_def)
  show "keys_ok (sample_env b tx r)"
    by (simp add: keys_ok_def sample_env_def) (rule injI, metis h list.inject)
  show "block_rt (sample_env b tx r) b" by (simp add: block_rt_def codec_rt_def sample_env_def n)
  show "codec_rt (se_u64 (sample_env b tx r)) n" by (simp add: codec_rt_def sample_env_def n)
qed

lemma coherent_new: "coherent E view (storage_new d)"
  by (simp add: coherent_def storage_new_def cache_ok_def)


definition sample_rc :: receipt where
  "sample_rc =
     \<lparr>rc_tx_hash = 1, rc_block_number = 3, rc_block_hash = 3, rc_tx_index = 0, rc_state_root = 0,
      rc_used_gas = 0, rc_logs_bloom = 0, rc_logs = [], rc_code_address = None, rc_sender = 2,
      rc_ret = Succeed Stopped\<rparr>"

definition sample_senv :: storage_env where
  "sample_senv = sample_env (sample_block 3 [1]) (sample_stx 1 2 3 4) sample_rc"

lemmas sample_senv_ok = sample_env_ok [of "sample_block 3 [1]" "sample_stx 1 2 3 4" sample_rc, folded sample_senv_def]

definition sample_storage :: "mem_db impl_storage" where
  "sample_storage = storage_new mem_new"



lemma sample_fresh: "block_fresh sample_senv (sample_block 3 [1]) sample_storage"
  by (simp add: block_fresh_def Let_def sample_storage_def storage_new_def)


text \<open>
  The transactions and receipts of a block, written one batch after
  the other under the block's number, are found again by their hashes, provided the
  hashes are distinct and no cache holds them yet.
\<close>

theorem filed_transactions_visible:
  assumes "kv_adapter A view" and "coherent E view s" and "lru_ok E" and "keys_ok E" and "codec_rt (se_u64 E) n"
    and "distinct (map stx_hash txs)" and "\<forall>tx\<in>set txs. codec_rt (se_stx E) tx"
    and "map rc_tx_hash rs = map stx_hash txs" and "\<forall>r\<in>set rs. codec_rt (se_receipt E) r"
    and "\<forall>h\<in>stx_hash ` set txs. is_transactions s h = None \<and> is_receipts s h = None \<and>
      is_block_numbers s h \<in> {None, Some n}"
  shows "\<exists>s'. st_seq (insert_transactions A E n txs) (insert_receipts A E n rs) s = (s', Inr ()) \<and>
    coherent E view s' \<and>
    (\<forall>tx\<in>set txs. snd (get_transaction_by_hash A E (stx_hash tx) s') = Inr (Some tx)) \<and>
    (\<forall>r\<in>set rs. snd (get_receipt_by_hash A E (rc_tx_hash r) s') = Inr (Some r))"
proof -
  have hashes: "rc_tx_hash ` set rs = stx_hash ` set txs" "distinct (map rc_tx_hash rs)"
    using assms(6,8) by (metis list.set_map, simp)
  have "filed_fresh E (view (is_db s)) n (stx_hash ` set txs) (is_transactions s) (is_receipts s) (is_block_numbers s)"
    using assms(10) by (simp add: filed_fresh_def)
  from kv_adapter.insert_transactions_coherent [OF assms(1,2,4,5) this]
  obtain s1 d1 where s1: "insert_transactions A E n txs s = (s1, Inr ())" "coherent E view s1"
    "view (is_db s1) = with_filed E CatSignedTransaction (fst (se_stx E)) stx_hash n txs (view (is_db s))"
    "s1 = s\<lparr>is_db := d1\<rparr>"
    by blast
  note sp1 = spec_with_filed [OF disjI1 [OF refl] assms(4,5)] and at1 = spec_at_with_filed [OF disjI1 [OF refl] assms(4,5)]
  have "filed_fresh E (view (is_db s1)) n (rc_tx_hash ` set rs) (is_receipts s1) (is_transactions s1) (is_block_numbers s1)"
    unfolding filed_fresh_def hashes using assms(10) by (simp add: s1(4))
  from kv_adapter.insert_receipts_coherent [OF assms(1) s1(2) assms(4,5) this]
  obtain s2 where s2: "insert_receipts A E n rs s1 = (s2, Inr ())" "coherent E view s2"
    "view (is_db s2) = with_filed E CatReceipt (fst (se_receipt E)) rc_tx_hash n rs (view (is_db s1))"
    by blast
  note at2 = spec_at_with_filed [OF disjI2 [OF refl] assms(4,5)]
  have "snd (get_transaction_by_hash A E (stx_hash tx) s2) = Inr (Some tx)" if "tx \<in> set txs" for tx
  proof -
    have "spec_number E (view (is_db s1)) (stx_hash tx) = Inr (Some n)"
      using that unfolding s1(3) sp1 by simp
    moreover have "spec_at E CatSignedTransaction (snd (se_stx E)) (view (is_db s1)) (stx_hash tx) = Inr (Some tx)"
      unfolding s1(3) using at1(1) [OF assms(6) that] assms(7) that by (simp add: codec_rt_def)
    ultimately show ?thesis
      using transparent_snd [OF kv_adapter.get_transaction_transparent [OF assms(1) s2(2) assms(3)]]
      by (simp add: s2(3) at2(3))
  qed
  moreover have "snd (get_receipt_by_hash A E (rc_tx_hash r) s2) = Inr (Some r)" if "r \<in> set rs" for r
    using transparent_snd [OF kv_adapter.get_receipt_transparent [OF assms(1) s2(2) assms(3)], of "rc_tx_hash r"]
      at2(1) [OF hashes(2) that, of "snd (se_receipt E)" "fst (se_receipt E)" "view (is_db s1)"] assms(9) that
    by (simp add: s2(3) codec_rt_def)
  ultimately show ?thesis using s1(1) s2(1,2) by (simp add: st_seq_apply)
qed

theorem filed_transactions_visible_witness:
  "\<exists>s'. st_seq (insert_transactions (memory_adapter id) sample_senv 3 [sample_stx 1 2 3 4])
      (insert_receipts (memory_adapter id) sample_senv 3 [sample_rc]) sample_storage = (s', Inr ()) \<and>
    snd (get_transaction_by_hash (memory_adapter id) sample_senv 1 s') = Inr (Some (sample_stx 1 2 3 4)) \<and>
    snd (get_receipt_by_hash (memory_adapter id) sample_senv 1 s') = Inr (Some sample_rc)"
proof -
  have rt: "codec_rt (se_stx sample_senv) (sample_stx 1 2 3 4)" "codec_rt (se_receipt sample_senv) sample_rc"
    by (simp_all add: codec_rt_def sample_senv_def sample_env_def)
  have h: "rc_tx_hash sample_rc = 1" by (simp add: sample_rc_def)
  have none: "is_transactions sample_storage k = None" "is_receipts sample_storage k = None"
    "is_block_numbers sample_storage k = None" for k
    by (simp_all add: sample_storage_def storage_new_def)
  show ?thesis
    using filed_transactions_visible [OF mem.kv_adapter_axioms [of id]
        coherent_new [of sample_senv mem_view mem_new, folded sample_storage_def] sample_senv_ok(1,2,4),
        of "[sample_stx 1 2 3 4]" "[sample_rc]" 3]
    by (simp add: rt h none) blast
qed

text \<open>
  Looking up a list of distinct hashes of one block in a single scan
  gives exactly what looking each of them up gives, for transactions and for
  receipts, also when more than a thousand values are decoded in chunks.
\<close>

theorem batched_lookup_matches_single:
  assumes "ad_iter A CatSignedTransaction (common_prefix_new n) (is_db s) = (d1, Inr entries)"
    and "prefix_first V CatSignedTransaction n entries"
    and "ad_iter A CatReceipt (common_prefix_new n) (is_db s) = (d2, Inr rentries)"
    and "prefix_first V CatReceipt n rentries"
    and "distinct hashes"
    and "res_map (\<lambda>h. read_val (snd (se_stx E))
      (V CatSignedTransaction (common_hash_key_encode (common_hash_key_new n h)))) hashes = Inr txs"
    and "res_map (\<lambda>h. read_val (snd (se_receipt E))
      (V CatReceipt (common_hash_key_encode (common_hash_key_new n h)))) hashes = Inr rs"
  shows "snd (get_transactions A E n hashes s) = Inr txs \<and> snd (get_receipts A E n hashes s) = Inr rs"
  using get_values_single [OF assms(1,2,5,6)] get_values_single [OF assms(3,4,5,7)] assms(7)
  by (cases hashes) (simp_all add: get_transactions_def get_receipts_def)

definition sample_view :: kv_view where
  "sample_view c k =
     (if c = CatSignedTransaction \<and> k = common_hash_key_encode (common_hash_key_new 3 1) then Some [4] else None)"

definition sample_reader :: "unit storage_adapter" where
  "sample_reader =
     \<lparr>ad_get = (\<lambda>c k d. (d, Inr (sample_view c k))), ad_insert = (\<lambda>_ _ _ d. (d, Inl StoragePanic)),
      ad_remove = (\<lambda>_ _ d. (d, Inl StoragePanic)), ad_contains = (\<lambda>c k d. (d, Inr (sample_view c k \<noteq> None))),
      ad_batch = (\<lambda>_ _ _ d. (d, Inl StoragePanic)),
      ad_iter = (\<lambda>c p d. (d, Inr (if c = CatSignedTransaction then [filed_entry 3 (1, [4])] else [])))\<rparr>"

theorem batched_lookup_matches_single_witness:
  "snd (get_transactions sample_reader sample_senv 3 [1, 2] (storage_new ())) = Inr [Some (sample_stx 1 2 3 4), None] \<and>
   snd (get_receipts sample_reader sample_senv 3 [1, 2] (storage_new ())) = Inr [None, None]"
proof (rule batched_lookup_matches_single [where V = sample_view])
  show "ad_iter sample_reader CatSignedTransaction (common_prefix_new 3) (is_db (storage_new ())) =
      (is_db (storage_new ()), Inr (map (filed_entry 3) [(1, [4])] @ []))"
    "ad_iter sample_reader CatReceipt (common_prefix_new 3) (is_db (storage_new ())) =
      (is_db (storage_new ()), Inr (map (filed_entry 3) [] @ []))"
    by (simp_all add: sample_reader_def)
  show "prefix_first sample_view CatSignedTransaction 3 (map (filed_entry 3) [(1, [4])] @ [])"
    unfolding prefix_first_def
    by (intro exI [of _ "[(1, [4])]"] exI [of _ "[]"]) (simp add: other_height_def sample_view_def)
  show "prefix_first sample_view CatReceipt 3 (map (filed_entry 3) [] @ [])"
    unfolding prefix_first_def
    by (intro exI [of _ "[]"] exI [of _ "[]"]) (simp add: other_height_def sample_view_def)
qed (simp_all add: sample_view_def read_val_def sample_senv_def sample_env_def)

text \<open>
  Writes do not touch the caches. When a height is cached, setting a
  block at that height is not seen by \<open>get_block\<close>, which keeps returning the cached
  block though the database holds the new one; and removing the block is not seen
  either.
\<close>

theorem cached_block_stale:
  assumes "kv_adapter A view" and "keys_ok E" and "block_rt E b"
    and "is_blocks s (hd_number (bk_header b)) = Some old"
  shows "\<exists>s1 s2. storage_set_block A E b s = (s1, Inr ()) \<and>
    storage_get_block A E (hd_number (bk_header b)) s1 = (s1, Inr (Some old)) \<and>
    spec_block E (view (is_db s1)) (hd_number (bk_header b)) = Inr (Some b) \<and>
    storage_remove_block A (hd_number (bk_header b)) s1 = (s2, Inr ()) \<and>
    storage_get_block A E (hd_number (bk_header b)) s2 = (s2, Inr (Some old)) \<and>
    spec_block E (view (is_db s2)) (hd_number (bk_header b)) = Inr None \<and>
    spec_header E (view (is_db s2)) (hd_number (bk_header b)) = Inr (Some (bk_header b))"
proof -
  let ?n = "hd_number (bk_header b)"
  obtain d1 where d1: "storage_set_block A E b s = (s\<lparr>is_db := d1\<rparr>, Inr ())"
    "view d1 = with_block E b (view (is_db s))"
    using kv_adapter.set_block_view [OF assms(1)] by blast
  obtain d2 where d2: "ad_remove A CatBlock (common_prefix_new ?n) d1 = (d2, Inr ())"
    "view d2 = (view d1)(CatBlock := (view d1 CatBlock)(common_prefix_new ?n := None))"
    using kv_adapter.remove_ok [OF assms(1)] by blast
  have hdr: "view d2 CatBlockHeader = view d1 CatBlockHeader" by (simp add: d2(2))
  have "spec_block E (view d1) ?n = Inr (Some b)"
    "spec_block E (view d2) ?n = Inr None"
    "spec_header E (view d2) ?n = Inr (Some (bk_header b))"
    using assms(3)
    by (simp_all add: spec_block_def spec_header_def hdr)
      (simp_all add: d1(2) d2(2) with_block_def Let_def read_val_def block_rt_def codec_rt_def)
  with d1(1) d2(1) assms(4) show ?thesis
    by (intro exI [of _ "s\<lparr>is_db := d1\<rparr>"] exI [of _ "s\<lparr>is_db := d2\<rparr>"])
      (simp add: storage_get_block_def cached_get_def storage_remove_block_def schema_remove_def)
qed

theorem cached_block_stale_witness:
  "\<exists>s1. storage_set_block (memory_adapter id) sample_senv (sample_block 3 [1])
       (put_block sample_senv 3 (sample_block 3 []) sample_storage) = (s1, Inr ()) \<and>
     storage_get_block (memory_adapter id) sample_senv 3 s1 = (s1, Inr (Some (sample_block 3 [])))"
proof -
  have "is_blocks (put_block sample_senv 3 (sample_block 3 []) sample_storage) (hd_number (bk_header (sample_block 3 [1])))
      = Some (sample_block 3 [])"
    by (simp add: put_block_def sample_senv_def sample_env_def)
  from cached_block_stale [OF mem.kv_adapter_axioms [of id] sample_senv_ok(2,3) this]
  show ?thesis unfolding sample_block_simps by blast
qed

end
