(* ===== verification/Rlp_Codec.thy ===== *)
theory Rlp_Codec
  imports Protocol_Types
begin

text \<open>
  The RLP codecs of \<open>protocol/src/codec\<close>. An RLP value is a tree of byte strings and
  lists; \<open>rlp\<close>, \<open>val_at\<close>, \<open>list_at\<close> and \<open>item_count\<close> are the tree view that the
  \<open>Rlp\<close> reader gives of its input. How the \<open>rlp\<close> crate encodes the primitive types,
  how \<open>ethereum\<close> encodes logs and actions, how \<open>bincode\<close> serialises exit reasons and
  how a tree becomes bytes is the parameter \<open>L\<close>; \<open>rlp_lib_ok L\<close> states that decoding
  undoes encoding for each of these types.
\<close>

section \<open>RLP trees and the library\<close>

datatype rlp = RStr bytes | RList "rlp list"

datatype decoder_error =
    RlpExpectedToBeList
  | RlpInconsistentLengthAndData
  | RlpIncorrectListLen
  | RlpIndexOutOfBounds
  | RlpCustom string
  | RlpPrimitive

type_synonym 'a codec = "('a \<Rightarrow> rlp) \<times> (rlp \<Rightarrow> decoder_error + 'a)"

record rlp_lib =
  rl_u8 :: "u8 codec"
  rl_u32 :: "u32 codec"
  rl_u64 :: "u64 codec"
  rl_u256 :: "u256 codec"
  rl_h64 :: "h64 codec"
  rl_h160 :: "h160 codec"
  rl_h256 :: "hash codec"
  rl_bloom :: "bloom codec"
  rl_bytes :: "bytes codec"
  rl_opt_h256 :: "hash option codec"
  rl_opt_public :: "public_key option codec"
  rl_action :: "transaction_action codec"
  rl_log :: "evm_log codec"
  rl_exit_ser :: "exit_reason \<Rightarrow> bytes"
  rl_exit_de :: "bytes \<Rightarrow> exit_reason option"
  rl_out :: "rlp \<Rightarrow> bytes"

definition codec_ok :: "'a codec \<Rightarrow> bool" where
  "codec_ok c \<longleftrightarrow> (\<forall>x. snd c (fst c x) = Inr x)"

definition rlp_lib_ok :: "rlp_lib \<Rightarrow> bool" where
  "rlp_lib_ok L \<longleftrightarrow>
     codec_ok (rl_u8 L) \<and> codec_ok (rl_u32 L) \<and> codec_ok (rl_u64 L) \<and> codec_ok (rl_u256 L) \<and>
     codec_ok (rl_h64 L) \<and> codec_ok (rl_h160 L) \<and> codec_ok (rl_h256 L) \<and> codec_ok (rl_bloom L) \<and>
     codec_ok (rl_bytes L) \<and> codec_ok (rl_opt_h256 L) \<and> codec_ok (rl_opt_public L) \<and>
     codec_ok (rl_action L) \<and> codec_ok (rl_log L) \<and>
     (\<forall>e. rl_exit_de L (rl_exit_ser L e) = Some e)"

definition item_count :: "rlp \<Rightarrow> decoder_error + nat" where
  "item_count r = (case r of RList xs \<Rightarrow> Inr (length xs) | RStr _ \<Rightarrow> Inl RlpExpectedToBeList)"

definition rlp_at :: "nat \<Rightarrow> rlp \<Rightarrow> decoder_error + rlp" where
  "rlp_at i r =
     (case r of
        RList xs \<Rightarrow> if i < length xs then Inr (xs ! i) else Inl RlpIndexOutOfBounds
      | RStr _ \<Rightarrow> Inl RlpExpectedToBeList)"

definition val_at :: "(rlp \<Rightarrow> decoder_error + 'a) \<Rightarrow> nat \<Rightarrow> rlp \<Rightarrow> decoder_error + 'a" where
  "val_at d i r = res_bind (rlp_at i r) d"

definition encode_list :: "'a codec \<Rightarrow> 'a list \<Rightarrow> rlp" where
  "encode_list c xs = RList (map (fst c) xs)"

definition decode_list :: "(rlp \<Rightarrow> decoder_error + 'a) \<Rightarrow> rlp \<Rightarrow> decoder_error + 'a list" where
  "decode_list d r = (case r of RList xs \<Rightarrow> res_map d xs | RStr _ \<Rightarrow> Inl RlpExpectedToBeList)"

definition list_at :: "(rlp \<Rightarrow> decoder_error + 'a) \<Rightarrow> nat \<Rightarrow> rlp \<Rightarrow> decoder_error + 'a list" where
  "list_at d i r = res_bind (rlp_at i r) (decode_list d)"

definition exit_decode :: "rlp_lib \<Rightarrow> string \<Rightarrow> rlp \<Rightarrow> decoder_error + exit_reason" where
  "exit_decode L msg r =
     res_bind (snd (rl_bytes L) r) (\<lambda>raw. ok_or (RlpCustom msg) (rl_exit_de L raw))"

section \<open>Blocks, proposals, receipts\<close>

definition proof_encode :: "rlp_lib \<Rightarrow> block_proof \<Rightarrow> rlp" where
  "proof_encode L x =
     RList
       [fst (rl_u64 L) (pf_number x),
        fst (rl_u64 L) (pf_round x),
        fst (rl_h256 L) (pf_block_hash x),
        fst (rl_bytes L) (pf_signature x),
        fst (rl_bytes L) (pf_bitmap x)]"

definition proof_decode :: "rlp_lib \<Rightarrow> rlp \<Rightarrow> decoder_error + block_proof" where
  "proof_decode L r =
     (case r of
        RList xs \<Rightarrow>
          if length xs = 5 then
          res_bind (val_at (snd (rl_u64 L)) 0 r) (\<lambda>number.
          res_bind (val_at (snd (rl_u64 L)) 1 r) (\<lambda>round.
          res_bind (val_at (snd (rl_h256 L)) 2 r) (\<lambda>block_hash.
          res_bind (val_at (snd (rl_bytes L)) 3 r) (\<lambda>signature.
          res_bind (val_at (snd (rl_bytes L)) 4 r) (\<lambda>bitmap.
            Inr \<lparr>pf_number = number, pf_round = round, pf_block_hash = block_hash,
               pf_signature = signature, pf_bitmap = bitmap\<rparr>)))))
          else Inl RlpExpectedToBeList
      | RStr _ \<Rightarrow> Inl RlpExpectedToBeList)"

definition proposal_encode :: "rlp_lib \<Rightarrow> proposal \<Rightarrow> rlp" where
  "proposal_encode L x =
     RList
       [fst (rl_h256 L) (pp_prev_hash x),
        fst (rl_h160 L) (pp_proposer x),
        fst (rl_h256 L) (pp_transactions_root x),
        fst (rl_h256 L) (pp_signed_txs_hash x),
        fst (rl_u64 L) (pp_timestamp x),
        fst (rl_u64 L) (pp_number x),
        fst (rl_u256 L) (pp_gas_limit x),
        fst (rl_bytes L) (pp_extra_data x),
        fst (rl_opt_h256 L) (pp_mixed_hash x),
        fst (rl_u256 L) (pp_base_fee_per_gas x),
        proof_encode L (pp_proof x),
        fst (rl_h256 L) (pp_last_checkpoint_block_hash x),
        fst (rl_u64 L) (pp_chain_id x),
        encode_list (rl_h256 L) (pp_tx_hashes x)]"

definition proposal_decode :: "rlp_lib \<Rightarrow> rlp \<Rightarrow> decoder_error + proposal" where
  "proposal_decode L r =
     (case r of
        RList xs \<Rightarrow>
          if length xs = 14 then
          res_bind (val_at (snd (rl_h256 L)) 0 r) (\<lambda>prev_hash.
          res_bind (val_at (snd (rl_h160 L)) 1 r) (\<lambda>proposer.
          res_bind (val_at (snd (rl_h256 L)) 2 r) (\<lambda>transactions_root.
          res_bind (val_at (snd (rl_h256 L)) 3 r) (\<lambda>signed_txs_hash.
          res_bind (val_at (snd (rl_u64 L)) 4 r) (\<lambda>timestamp.
          res_bind (val_at (snd (rl_u64 L)) 5 r) (\<lambda>number.
          res_bind (val_at (snd (rl_u256 L)) 6 r) (\<lambda>gas_limit.
          res_bind (val_at (snd (rl_bytes L)) 7 r) (\<lambda>extra_data.
          res_bind (val_at (snd (rl_opt_h256 L)) 8 r) (\<lambda>mixed_hash.
          res_bind (val_at (snd (rl_u256 L)) 9 r) (\<lambda>base_fee_per_gas.
          res_bind (val_at (proof_decode L) 10 r) (\<lambda>proof.
          res_bind (val_at (snd (rl_h256 L)) 11 r) (\<lambda>last_checkpoint_block_hash.
          res_bind (val_at (snd (rl_u64 L)) 12 r) (\<lambda>chain_id.
          res_bind (list_at (snd (rl_h256 L)) 13 r) (\<lambda>tx_hashes.
            Inr \<lparr>pp_prev_hash = prev_hash, pp_proposer = proposer,
               pp_transactions_root = transactions_root,
               pp_signed_txs_hash = signed_txs_hash, pp_timestamp = timestamp,
               pp_number = number, pp_gas_limit = gas_limit, pp_extra_data = extra_data,
               pp_mixed_hash = mixed_hash, pp_base_fee_per_gas = base_fee_per_gas,
               pp_proof = proof, pp_last_checkpoint_block_hash = last_checkpoint_block_hash,
               pp_chain_id = chain_id, pp_tx_hashes = tx_hashes\<rparr>))))))))))))))
          else Inl RlpInconsistentLengthAndData
      | RStr _ \<Rightarrow> Inl RlpInconsistentLengthAndData)"

definition header_encode :: "rlp_lib \<Rightarrow> header \<Rightarrow> rlp" where
  "header_encode L x =
     RList
       [fst (rl_h256 L) (hd_prev_hash x),
        fst (rl_h160 L) (hd_proposer x),
        fst (rl_h256 L) (hd_state_root x),
        fst (rl_h256 L) (hd_transactions_root x),
        fst (rl_h256 L) (hd_signed_txs_hash x),
        fst (rl_h256 L) (hd_receipts_root x),
        fst (rl_bloom L) (hd_log_bloom x),
        fst (rl_u256 L) (hd_difficulty x),
        fst (rl_u64 L) (hd_timestamp x),
        fst (rl_u64 L) (hd_number x),
        fst (rl_u256 L) (hd_gas_used x),
        fst (rl_u256 L) (hd_gas_limit x),
        fst (rl_bytes L) (hd_extra_data x),
        fst (rl_opt_h256 L) (hd_mixed_hash x),
        fst (rl_h64 L) (hd_nonce x),
        fst (rl_u256 L) (hd_base_fee_per_gas x),
        proof_encode L (hd_proof x),
        fst (rl_h256 L) (hd_last_checkpoint_block_hash x),
        fst (rl_u64 L) (hd_chain_id x)]"

definition header_decode :: "rlp_lib \<Rightarrow> rlp \<Rightarrow> decoder_error + header" where
  "header_decode L r =
     (case r of
        RList xs \<Rightarrow>
          if length xs = 19 then
          res_bind (val_at (snd (rl_h256 L)) 0 r) (\<lambda>prev_hash.
          res_bind (val_at (snd (rl_h160 L)) 1 r) (\<lambda>proposer.
          res_bind (val_at (snd (rl_h256 L)) 2 r) (\<lambda>state_root.
          res_bind (val_at (snd (rl_h256 L)) 3 r) (\<lambda>transactions_root.
          res_bind (val_at (snd (rl_h256 L)) 4 r) (\<lambda>signed_txs_hash.
          res_bind (val_at (snd (rl_h256 L)) 5 r) (\<lambda>receipts_root.
          res_bind (val_at (snd (rl_bloom L)) 6 r) (\<lambda>log_bloom.
          res_bind (val_at (snd (rl_u256 L)) 7 r) (\<lambda>difficulty.
          res_bind (val_at (snd (rl_u64 L)) 8 r) (\<lambda>timestamp.
          res_bind (val_at (snd (rl_u64 L)) 9 r) (\<lambda>number.
          res_bind (val_at (snd (rl_u256 L)) 10 r) (\<lambda>gas_used.
          res_bind (val_at (snd (rl_u256 L)) 11 r) (\<lambda>gas_limit.
          res_bind (val_at (snd (rl_bytes L)) 12 r) (\<lambda>extra_data.
          res_bind (val_at (snd (rl_opt_h256 L)) 13 r) (\<lambda>mixed_hash.
          res_bind (val_at (snd (rl_h64 L)) 14 r) (\<lambda>nonce.
          res_bind (val_at (snd (rl_u256 L)) 15 r) (\<lambda>base_fee_per_gas.
          res_bind (val_at (proof_decode L) 16 r) (\<lambda>proof.
          res_bind (val_at (snd (rl_h256 L)) 17 r) (\<lambda>last_checkpoint_block_hash.
          res_bind (val_at (snd (rl_u64 L)) 18 r) (\<lambda>chain_id.
            Inr \<lparr>hd_prev_hash = prev_hash, hd_proposer = proposer, hd_state_root = state_root,
               hd_transactions_root = transactions_root,
               hd_signed_txs_hash = signed_txs_hash, hd_receipts_root = receipts_root,
               hd_log_bloom = log_bloom, hd_difficulty = difficulty,
               hd_timestamp = timestamp, hd_number = number, hd_gas_used = gas_used,
               hd_gas_limit = gas_limit, hd_extra_data = extra_data,
               hd_mixed_hash = mixed_hash, hd_nonce = nonce,
               hd_base_fee_per_gas = base_fee_per_gas, hd_proof = proof,
               hd_last_checkpoint_block_hash = last_checkpoint_block_hash,
               hd_chain_id = chain_id\<rparr>)))))))))))))))))))
          else Inl RlpExpectedToBeList
      | RStr _ \<Rightarrow> Inl RlpExpectedToBeList)"

definition block_encode :: "rlp_lib \<Rightarrow> block \<Rightarrow> rlp" where
  "block_encode L x =
     RList
       [header_encode L (bk_header x),
        encode_list (rl_h256 L) (bk_tx_hashes x)]"

definition block_decode :: "rlp_lib \<Rightarrow> rlp \<Rightarrow> decoder_error + block" where
  "block_decode L r =
     (case r of
        RList xs \<Rightarrow>
          if length xs = 2 then
          res_bind (val_at (header_decode L) 0 r) (\<lambda>header.
          res_bind (list_at (snd (rl_h256 L)) 1 r) (\<lambda>tx_hashes.
            Inr \<lparr>bk_header = header, bk_tx_hashes = tx_hashes\<rparr>))
          else Inl RlpExpectedToBeList
      | RStr _ \<Rightarrow> Inl RlpExpectedToBeList)"

definition validator_encode :: "rlp_lib \<Rightarrow> validator \<Rightarrow> rlp" where
  "validator_encode L x =
     RList
       [fst (rl_bytes L) (vd_pub_key x),
        fst (rl_u32 L) (vd_propose_weight x),
        fst (rl_u32 L) (vd_vote_weight x)]"

definition validator_decode :: "rlp_lib \<Rightarrow> rlp \<Rightarrow> decoder_error + validator" where
  "validator_decode L r =
     (case r of
        RList xs \<Rightarrow>
          if length xs = 3 then
          res_bind (val_at (snd (rl_bytes L)) 0 r) (\<lambda>pub_key.
          res_bind (val_at (snd (rl_u32 L)) 1 r) (\<lambda>propose_weight.
          res_bind (val_at (snd (rl_u32 L)) 2 r) (\<lambda>vote_weight.
            Inr \<lparr>vd_pub_key = pub_key, vd_propose_weight = propose_weight,
               vd_vote_weight = vote_weight\<rparr>)))
          else Inl RlpExpectedToBeList
      | RStr _ \<Rightarrow> Inl RlpExpectedToBeList)"

definition tx_resp_encode :: "rlp_lib \<Rightarrow> tx_resp \<Rightarrow> rlp" where
  "tx_resp_encode L x =
     RList
       [fst (rl_bytes L) (rl_exit_ser L (tr_exit_reason x)),
        fst (rl_bytes L) (tr_ret x),
        fst (rl_u64 L) (tr_gas_used x),
        fst (rl_u64 L) (tr_remain_gas x),
        encode_list (rl_log L) (tr_logs x),
        fst (rl_opt_h256 L) (tr_code_address x)]"

definition tx_resp_decode :: "rlp_lib \<Rightarrow> rlp \<Rightarrow> decoder_error + tx_resp" where
  "tx_resp_decode L r =
     (case r of
        RList xs \<Rightarrow>
          if length xs = 6 then
          res_bind (val_at (exit_decode L ''field exit reason'') 0 r) (\<lambda>exit_reason.
          res_bind (val_at (snd (rl_bytes L)) 1 r) (\<lambda>ret.
          res_bind (val_at (snd (rl_u64 L)) 2 r) (\<lambda>gas_used.
          res_bind (val_at (snd (rl_u64 L)) 3 r) (\<lambda>remain_gas.
          res_bind (list_at (snd (rl_log L)) 4 r) (\<lambda>logs.
          res_bind (val_at (snd (rl_opt_h256 L)) 5 r) (\<lambda>code_address.
            Inr \<lparr>tr_exit_reason = exit_reason, tr_ret = ret, tr_gas_used = gas_used,
               tr_remain_gas = remain_gas, tr_logs = logs, tr_code_address = code_address\<rparr>))))))
          else Inl RlpExpectedToBeList
      | RStr _ \<Rightarrow> Inl RlpExpectedToBeList)"

definition executor_context_encode :: "rlp_lib \<Rightarrow> executor_context \<Rightarrow> rlp" where
  "executor_context_encode L x =
     RList
       [fst (rl_u256 L) (ec_block_number x),
        fst (rl_h256 L) (ec_block_hash x),
        fst (rl_h160 L) (ec_block_coinbase x),
        fst (rl_u256 L) (ec_block_timestamp x),
        fst (rl_u256 L) (ec_chain_id x),
        fst (rl_u256 L) (ec_difficulty x),
        fst (rl_h160 L) (ec_origin x),
        fst (rl_u256 L) (ec_gas_price x),
        fst (rl_u256 L) (ec_block_gas_limit x),
        fst (rl_u256 L) (ec_block_base_fee_per_gas x),
        encode_list (rl_log L) (ec_logs x)]"

definition executor_context_decode :: "rlp_lib \<Rightarrow> rlp \<Rightarrow> decoder_error + executor_context" where
  "executor_context_decode L r =
     (case r of
        RList xs \<Rightarrow>
          if length xs = 11 then
          res_bind (val_at (snd (rl_u256 L)) 0 r) (\<lambda>block_number.
          res_bind (val_at (snd (rl_h256 L)) 1 r) (\<lambda>block_hash.
          res_bind (val_at (snd (rl_h160 L)) 2 r) (\<lambda>block_coinbase.
          res_bind (val_at (snd (rl_u256 L)) 3 r) (\<lambda>block_timestamp.
          res_bind (val_at (snd (rl_u256 L)) 4 r) (\<lambda>chain_id.
          res_bind (val_at (snd (rl_u256 L)) 5 r) (\<lambda>difficulty.
          res_bind (val_at (snd (rl_h160 L)) 6 r) (\<lambda>origin.
          res_bind (val_at (snd (rl_u256 L)) 7 r) (\<lambda>gas_price.
          res_bind (val_at (snd (rl_u256 L)) 8 r) (\<lambda>block_gas_limit.
          res_bind (val_at (snd (rl_u256 L)) 9 r) (\<lambda>block_base_fee_per_gas.
          res_bind (list_at (snd (rl_log L)) 10 r) (\<lambda>logs.
            Inr \<lparr>ec_block_number = block_number, ec_block_hash = block_hash,
               ec_block_coinbase = block_coinbase, ec_block_timestamp = block_timestamp,
               ec_chain_id = chain_id, ec_difficulty = difficulty, ec_origin = origin,
               ec_gas_price = gas_price, ec_block_gas_limit = block_gas_limit,
               ec_block_base_fee_per_gas = block_base_fee_per_gas, ec_logs = logs\<rparr>)))))))))))
          else Inl RlpExpectedToBeList
      | RStr _ \<Rightarrow> Inl RlpExpectedToBeList)"

definition receipt_encode :: "rlp_lib \<Rightarrow> receipt \<Rightarrow> rlp" where
  "receipt_encode L x =
     RList
       [fst (rl_h256 L) (rc_tx_hash x),
        fst (rl_u64 L) (rc_block_number x),
        fst (rl_h256 L) (rc_block_hash x),
        fst (rl_u32 L) (rc_tx_index x),
        fst (rl_h256 L) (rc_state_root x),
        fst (rl_u256 L) (rc_used_gas x),
        fst (rl_bloom L) (rc_logs_bloom x),
        encode_list (rl_log L) (rc_logs x),
        fst (rl_opt_h256 L) (rc_code_address x),
        fst (rl_h160 L) (rc_sender x),
        fst (rl_bytes L) (rl_exit_ser L (rc_ret x))]"

definition receipt_decode :: "rlp_lib \<Rightarrow> rlp \<Rightarrow> decoder_error + receipt" where
  "receipt_decode L r =
     (case r of
        RList xs \<Rightarrow>
          if length xs = 11 then
          res_bind (val_at (snd (rl_h256 L)) 0 r) (\<lambda>tx_hash.
          res_bind (val_at (snd (rl_u64 L)) 1 r) (\<lambda>block_number.
          res_bind (val_at (snd (rl_h256 L)) 2 r) (\<lambda>block_hash.
          res_bind (val_at (snd (rl_u32 L)) 3 r) (\<lambda>tx_index.
          res_bind (val_at (snd (rl_h256 L)) 4 r) (\<lambda>state_root.
          res_bind (val_at (snd (rl_u256 L)) 5 r) (\<lambda>used_gas.
          res_bind (val_at (snd (rl_bloom L)) 6 r) (\<lambda>logs_bloom.
          res_bind (list_at (snd (rl_log L)) 7 r) (\<lambda>logs.
          res_bind (val_at (snd (rl_opt_h256 L)) 8 r) (\<lambda>code_address.
          res_bind (val_at (snd (rl_h160 L)) 9 r) (\<lambda>sender.
          res_bind (val_at (exit_decode L ''Decode exit reason'') 10 r) (\<lambda>ret.
            Inr \<lparr>rc_tx_hash = tx_hash, rc_block_number = block_number,
               rc_block_hash = block_hash, rc_tx_index = tx_index,
               rc_state_root = state_root, rc_used_gas = used_gas,
               rc_logs_bloom = logs_bloom, rc_logs = logs, rc_code_address = code_address,
               rc_sender = sender, rc_ret = ret\<rparr>)))))))))))
          else Inl RlpExpectedToBeList
      | RStr _ \<Rightarrow> Inl RlpExpectedToBeList)"

section \<open>Transactions\<close>

text \<open>
  \<open>SignatureComponents::rlp_append\<close> adds three items to the list being built; for an
  Ethereum signature it slices \<open>r[0..32]\<close> and \<open>s[0..32]\<close>, which panics (\<open>None\<close>) when
  they are shorter.
\<close>

definition u256_from_bytes :: "bytes \<Rightarrow> u256" where
  "u256_from_bytes bs = from_be_bytes bs"

definition signature_append :: "rlp_lib \<Rightarrow> signature_components \<Rightarrow> rlp list option" where
  "signature_append L sc =
     (if is_eth_sig sc then
        (if 32 \<le> length (sc_r sc) \<and> 32 \<le> length (sc_s sc) then
           Some [fst (rl_u8 L) (sc_standard_v sc),
                 fst (rl_u256 L) (u256_from_bytes (take 32 (sc_r sc))),
                 fst (rl_u256 L) (u256_from_bytes (take 32 (sc_s sc)))]
         else None)
      else
        Some [fst (rl_u8 L) (sc_standard_v sc), fst (rl_bytes L) (sc_r sc), fst (rl_bytes L) (sc_s sc)])"

definition access_item_encode :: "rlp_lib \<Rightarrow> access_list_item \<Rightarrow> rlp" where
  "access_item_encode L a =
     RList [fst (rl_h160 L) (ali_address a), encode_list (rl_h256 L) (ali_storage_keys a)]"

definition utx_encode :: "rlp_lib \<Rightarrow> unverified_transaction \<Rightarrow> rlp option" where
  "utx_encode L x =
     (let t = utx_unsigned x;
          body =
            [fst (rl_u64 L) (utx_chain_id x),
             fst (rl_u256 L) (tx_nonce t),
             fst (rl_u256 L) (tx_max_priority_fee_per_gas t),
             fst (rl_u256 L) (tx_gas_price t),
             fst (rl_u256 L) (tx_gas_limit t),
             fst (rl_action L) (tx_action t),
             fst (rl_u256 L) (tx_value t),
             fst (rl_bytes L) (tx_data t),
             RList (map (access_item_encode L) (tx_access_list t))]
      in case utx_signature x of
           None \<Rightarrow> Some (RList body)
         | Some sc \<Rightarrow> map_option (\<lambda>sig. RList (body @ sig)) (signature_append L sc))"

definition utx_rlp_bytes :: "rlp_lib \<Rightarrow> unverified_transaction \<Rightarrow> bytes option" where
  "utx_rlp_bytes L x = map_option (\<lambda>item. 2 # rl_out L item) (utx_encode L x)"

definition utx_rehash ::
  "rlp_lib \<Rightarrow> (bytes \<Rightarrow> bytes) \<Rightarrow> unverified_transaction \<Rightarrow> unverified_transaction option" where
  "utx_rehash L keccak x =
     map_option (\<lambda>bs. x\<lparr>utx_hash := hasher_digest keccak bs\<rparr>) (utx_rlp_bytes L x)"

definition utx_check_hash :: "rlp_lib \<Rightarrow> (bytes \<Rightarrow> bytes) \<Rightarrow> unverified_transaction \<Rightarrow> bool option" where
  "utx_check_hash L keccak x =
     map_option (\<lambda>bs. hasher_digest keccak bs = utx_hash x) (utx_rlp_bytes L x)"

definition transaction_encode ::
  "rlp_lib \<Rightarrow> transaction \<Rightarrow> u64 \<Rightarrow> signature_components option \<Rightarrow> bytes option" where
  "transaction_encode L t chain_id signature =
     utx_rlp_bytes L \<lparr>utx_unsigned = t, utx_signature = signature, utx_chain_id = chain_id, utx_hash = 0\<rparr>"

definition signature_hash :: "rlp_lib \<Rightarrow> (bytes \<Rightarrow> bytes) \<Rightarrow> unverified_transaction \<Rightarrow> hash option" where
  "signature_hash L keccak x =
     map_option (hasher_digest keccak) (transaction_encode L (utx_unsigned x) (utx_chain_id x) None)"

definition access_item_decode :: "rlp_lib \<Rightarrow> rlp \<Rightarrow> decoder_error + access_list_item" where
  "access_item_decode L r =
     res_bind (item_count r) (\<lambda>n.
       if n \<noteq> 2 then Inl (RlpCustom ''Unknown access list length'')
       else
         res_bind (val_at (snd (rl_h160 L)) 0 r) (\<lambda>address.
         res_bind (list_at (snd (rl_h256 L)) 1 r) (\<lambda>storage_keys.
           Inr \<lparr>ali_address = address, ali_storage_keys = storage_keys\<rparr>)))"

definition access_list_decode :: "rlp_lib \<Rightarrow> rlp \<Rightarrow> decoder_error + access_list_item list" where
  "access_list_decode L r =
     res_bind (item_count r) (\<lambda>n. res_map (\<lambda>i. res_bind (rlp_at i r) (access_item_decode L)) [0..<n])"

text \<open>
  The components \<open>r\<close> and \<open>s\<close> of the signature are both read at position 10, as the
  code does. \<open>None\<close> is a panic, which the final \<open>hash()\<close> could raise.
\<close>

definition signature_part_decode :: "rlp_lib \<Rightarrow> bool \<Rightarrow> rlp \<Rightarrow> decoder_error + bytes" where
  "signature_part_decode L eth_tx_flag r =
     (if eth_tx_flag then res_bind (val_at (snd (rl_u256 L)) 10 r) (\<lambda>tmp. Inr (to_be_bytes 32 tmp))
      else val_at (snd (rl_bytes L)) 10 r)"

definition utx_decode_fields :: "rlp_lib \<Rightarrow> rlp \<Rightarrow> decoder_error + unverified_transaction" where
  "utx_decode_fields L r =
     res_bind (item_count r) (\<lambda>n.
       if n \<noteq> 12 then Inl RlpIncorrectListLen
       else
         res_bind (val_at (snd (rl_u64 L)) 0 r) (\<lambda>chain_id.
         res_bind (val_at (snd (rl_u256 L)) 1 r) (\<lambda>nonce.
         res_bind (val_at (snd (rl_u256 L)) 2 r) (\<lambda>max_priority_fee_per_gas.
         res_bind (val_at (snd (rl_u256 L)) 3 r) (\<lambda>gas_price.
         res_bind (val_at (snd (rl_u256 L)) 4 r) (\<lambda>gas_limit.
         res_bind (val_at (snd (rl_action L)) 5 r) (\<lambda>action.
         res_bind (val_at (snd (rl_u256 L)) 6 r) (\<lambda>val.
         res_bind (val_at (snd (rl_bytes L)) 7 r) (\<lambda>data.
         res_bind (rlp_at 8 r) (\<lambda>accl_rlp.
         res_bind (access_list_decode L accl_rlp) (\<lambda>access_list.
         res_bind (val_at (snd (rl_u8 L)) 9 r) (\<lambda>v.
         res_bind (signature_part_decode L (v \<le> 1) r) (\<lambda>sig_r.
         res_bind (signature_part_decode L (v \<le> 1) r) (\<lambda>sig_s.
           Inr \<lparr>utx_unsigned =
                  \<lparr>tx_nonce = nonce, tx_max_priority_fee_per_gas = max_priority_fee_per_gas,
                   tx_gas_price = gas_price, tx_gas_limit = gas_limit, tx_action = action,
                   tx_value = val, tx_data = data, tx_access_list = access_list\<rparr>,
                utx_signature = Some \<lparr>sc_r = sig_r, sc_s = sig_s, sc_standard_v = v\<rparr>,
                utx_chain_id = chain_id, utx_hash = 0\<rparr>))))))))))))))"

definition utx_decode ::
  "rlp_lib \<Rightarrow> (bytes \<Rightarrow> bytes) \<Rightarrow> rlp \<Rightarrow> (decoder_error + unverified_transaction) option" where
  "utx_decode L keccak r =
     (case utx_decode_fields L r of
        Inl e \<Rightarrow> Some (Inl e)
      | Inr x \<Rightarrow> map_option Inr (utx_rehash L keccak x))"

definition stx_encode :: "rlp_lib \<Rightarrow> signed_transaction \<Rightarrow> rlp option" where
  "stx_encode L x =
     map_option (\<lambda>t. RList [t, fst (rl_h160 L) (stx_sender x), fst (rl_opt_public L) (stx_public x)])
       (utx_encode L (stx_transaction x))"

definition stx_decode ::
  "rlp_lib \<Rightarrow> (bytes \<Rightarrow> bytes) \<Rightarrow> rlp \<Rightarrow> (decoder_error + signed_transaction) option" where
  "stx_decode L keccak r =
     (case r of
        RList [t, a, p] \<Rightarrow>
          (case utx_decode L keccak t of
             None \<Rightarrow> None
           | Some (Inl e) \<Rightarrow> Some (Inl e)
           | Some (Inr transaction) \<Rightarrow>
               Some (res_bind (snd (rl_h160 L) a) (\<lambda>sender.
                     res_bind (snd (rl_opt_public L) p) (\<lambda>public.
                       Inr \<lparr>stx_transaction = transaction, stx_sender = sender, stx_public = public\<rparr>))))
      | _ \<Rightarrow> Some (Inl RlpInconsistentLengthAndData))"

text \<open>
  \<open>TryFrom<UnverifiedTransaction>\<close>: \<open>recover\<close> is \<open>secp256k1_recover\<close>, which gives the
  uncompressed public key without its leading byte. \<open>None\<close> is a panic.
\<close>

datatype types_error = Unsigned | TypesCrypto

definition signed_from_unverified ::
  "rlp_lib \<Rightarrow> (bytes \<Rightarrow> bytes) \<Rightarrow> (hash \<Rightarrow> bytes \<Rightarrow> public_key option) \<Rightarrow> unverified_transaction
   \<Rightarrow> (types_error + signed_transaction) option" where
  "signed_from_unverified L keccak recover utx =
     (case utx_signature utx of
        None \<Rightarrow> Some (Inl Unsigned)
      | Some sc \<Rightarrow>
          map_option
            (\<lambda>h. case recover h (signature_as_bytes sc) of
                   None \<Rightarrow> Inl TypesCrypto
                 | Some public \<Rightarrow>
                     Inr \<lparr>stx_transaction = utx,
                          stx_sender = public_to_address (hasher_digest keccak) public,
                          stx_public = Some public\<rparr>)
            (signature_hash L keccak utx))"

section \<open>Round trips\<close>

lemma codec_okD: "codec_ok c \<Longrightarrow> snd c (fst c x) = Inr x"
  by (simp add: codec_ok_def)

lemma val_at_RList [simp]: "i < length xs \<Longrightarrow> val_at d i (RList xs) = d (xs ! i)"
  by (simp add: val_at_def rlp_at_def)

lemma list_at_RList [simp]: "i < length xs \<Longrightarrow> list_at d i (RList xs) = decode_list d (xs ! i)"
  by (simp add: list_at_def rlp_at_def)

lemma decode_encode_list: "codec_ok c \<Longrightarrow> decode_list (snd c) (encode_list c xs) = Inr xs"
  by (simp add: decode_list_def encode_list_def codec_ok_def, induction xs) simp_all

lemma rlp_lib_okD:
  assumes "rlp_lib_ok L"
  shows "snd (rl_u8 L) (fst (rl_u8 L) a1) = Inr a1"
    and "snd (rl_u32 L) (fst (rl_u32 L) a2) = Inr a2"
    and "snd (rl_u64 L) (fst (rl_u64 L) a3) = Inr a3"
    and "snd (rl_u256 L) (fst (rl_u256 L) a4) = Inr a4"
    and "snd (rl_h64 L) (fst (rl_h64 L) a5) = Inr a5"
    and "snd (rl_h160 L) (fst (rl_h160 L) a6) = Inr a6"
    and "snd (rl_h256 L) (fst (rl_h256 L) a7) = Inr a7"
    and "snd (rl_bloom L) (fst (rl_bloom L) a8) = Inr a8"
    and "snd (rl_bytes L) (fst (rl_bytes L) a9) = Inr a9"
    and "snd (rl_opt_h256 L) (fst (rl_opt_h256 L) b1) = Inr b1"
    and "snd (rl_opt_public L) (fst (rl_opt_public L) b2) = Inr b2"
    and "snd (rl_action L) (fst (rl_action L) b3) = Inr b3"
    and "decode_list (snd (rl_log L)) (encode_list (rl_log L) b4) = Inr b4"
    and "decode_list (snd (rl_h256 L)) (encode_list (rl_h256 L) b5) = Inr b5"
    and "exit_decode L msg (fst (rl_bytes L) (rl_exit_ser L b6)) = Inr b6"
  using assms by (simp_all add: rlp_lib_ok_def codec_okD decode_encode_list exit_decode_def)

lemma proof_roundtrip: "rlp_lib_ok L \<Longrightarrow> proof_decode L (proof_encode L p) = Inr p"
  by (simp add: proof_decode_def proof_encode_def rlp_lib_okD)

lemma header_roundtrip: "rlp_lib_ok L \<Longrightarrow> header_decode L (header_encode L h) = Inr h"
  by (simp add: header_decode_def header_encode_def rlp_lib_okD proof_roundtrip)

lemma proposal_roundtrip: "rlp_lib_ok L \<Longrightarrow> proposal_decode L (proposal_encode L p) = Inr p"
  by (simp add: proposal_decode_def proposal_encode_def rlp_lib_okD proof_roundtrip)

lemma block_roundtrip: "rlp_lib_ok L \<Longrightarrow> block_decode L (block_encode L b) = Inr b"
  by (simp add: block_decode_def block_encode_def rlp_lib_okD header_roundtrip)

lemma validator_roundtrip: "rlp_lib_ok L \<Longrightarrow> validator_decode L (validator_encode L v) = Inr v"
  by (simp add: validator_decode_def validator_encode_def rlp_lib_okD)

lemma tx_resp_roundtrip: "rlp_lib_ok L \<Longrightarrow> tx_resp_decode L (tx_resp_encode L t) = Inr t"
  by (simp add: tx_resp_decode_def tx_resp_encode_def rlp_lib_okD)

lemma receipt_roundtrip: "rlp_lib_ok L \<Longrightarrow> receipt_decode L (receipt_encode L r) = Inr r"
  by (simp add: receipt_decode_def receipt_encode_def rlp_lib_okD)

lemma executor_context_roundtrip:
  "rlp_lib_ok L \<Longrightarrow> executor_context_decode L (executor_context_encode L c) = Inr c"
  by (simp add: executor_context_decode_def executor_context_encode_def rlp_lib_okD)

text \<open>A library that satisfies the laws: fixed-width strings for words.\<close>

definition word_codec :: "nat \<Rightarrow> 'a::len word codec" where
  "word_codec n =
     (\<lambda>w. RStr (to_be_bytes n w),
      \<lambda>r. case r of RStr bs \<Rightarrow> Inr (from_be_bytes bs) | RList _ \<Rightarrow> Inl RlpPrimitive)"

definition option_codec :: "'a codec \<Rightarrow> 'a option codec" where
  "option_codec c =
     (\<lambda>x. case x of None \<Rightarrow> RList [] | Some y \<Rightarrow> RList [fst c y],
      \<lambda>r. case r of RList [] \<Rightarrow> Inr None | RList [y] \<Rightarrow> res_bind (snd c y) (\<lambda>v. Inr (Some v))
                 | _ \<Rightarrow> Inl RlpPrimitive)"

definition bytes_codec :: "bytes codec" where
  "bytes_codec = (RStr, \<lambda>r. case r of RStr bs \<Rightarrow> Inr bs | RList _ \<Rightarrow> Inl RlpPrimitive)"

definition action_codec :: "transaction_action codec" where
  "action_codec =
     (\<lambda>a. case a of Call to \<Rightarrow> RStr (to_be_bytes 20 to) | Create \<Rightarrow> RStr [],
      \<lambda>r. case r of RStr [] \<Rightarrow> Inr Create | RStr bs \<Rightarrow> Inr (Call (from_be_bytes bs)) | RList _ \<Rightarrow> Inl RlpPrimitive)"

definition log_codec :: "evm_log codec" where
  "log_codec =
     (\<lambda>l. RList [RStr (to_be_bytes 20 (log_address l)), encode_list (word_codec 32) (log_topics l), RStr (log_data l)],
      \<lambda>r. case r of
          RList [RStr a, ts, RStr d] \<Rightarrow>
            res_bind (decode_list (snd (word_codec 32)) ts)
              (\<lambda>topics. Inr \<lparr>log_address = from_be_bytes a, log_topics = topics, log_data = d\<rparr>)
        | _ \<Rightarrow> Inl RlpPrimitive)"

definition chars_to_bytes :: "string \<Rightarrow> bytes" where
  "chars_to_bytes s = map (\<lambda>c. word_of_nat (of_char c)) s"

definition bytes_to_chars :: "bytes \<Rightarrow> string" where
  "bytes_to_chars bs = map (\<lambda>b. char_of (unat b)) bs"

fun exit_ser :: "exit_reason \<Rightarrow> bytes" where
  "exit_ser (Succeed Stopped) = [0]"
| "exit_ser (Succeed Returned) = [1]"
| "exit_ser (Succeed Suicided) = [2]"
| "exit_ser (Revert Reverted) = [3]"
| "exit_ser (ExitErr OutOfGas) = [4]"
| "exit_ser (ExitErr (OtherError s)) = 5 # chars_to_bytes s"
| "exit_ser (Fatal s) = 6 # chars_to_bytes s"

definition exit_de :: "bytes \<Rightarrow> exit_reason option" where
  "exit_de bs =
     (case bs of
        [] \<Rightarrow> None
      | t # s \<Rightarrow>
          if t = 0 then Some (Succeed Stopped) else if t = 1 then Some (Succeed Returned)
          else if t = 2 then Some (Succeed Suicided) else if t = 3 then Some (Revert Reverted)
          else if t = 4 then Some (ExitErr OutOfGas)
          else if t = 5 then Some (ExitErr (OtherError (bytes_to_chars s)))
          else Some (Fatal (bytes_to_chars s)))"

definition sample_rlp_lib :: rlp_lib where
  "sample_rlp_lib =
     \<lparr>rl_u8 = word_codec 1, rl_u32 = word_codec 4, rl_u64 = word_codec 8, rl_u256 = word_codec 32,
      rl_h64 = word_codec 8, rl_h160 = word_codec 20, rl_h256 = word_codec 32, rl_bloom = word_codec 256,
      rl_bytes = bytes_codec, rl_opt_h256 = option_codec (word_codec 32),
      rl_opt_public = option_codec (word_codec 64), rl_action = action_codec, rl_log = log_codec,
      rl_exit_ser = exit_ser, rl_exit_de = exit_de, rl_out = (\<lambda>_. [])\<rparr>"

lemma word_codec_ok: "LENGTH('a) = 8 * n \<Longrightarrow> codec_ok (word_codec n :: 'a::len word codec)"
  by (simp add: codec_ok_def word_codec_def be_bytes_roundtrip)

lemma option_codec_ok: "codec_ok c \<Longrightarrow> codec_ok (option_codec c)"
  by (auto simp: codec_ok_def option_codec_def split: option.split)

lemma action_codec_ok: "codec_ok action_codec"
  unfolding codec_ok_def
proof
  fix a
  show "snd action_codec (fst action_codec a) = Inr a"
  proof (cases a)
    case (Call to)
    have "to_be_bytes 20 to \<noteq> []" by (metis length_to_be_bytes list.size(3) zero_neq_numeral)
    then obtain b bs where "to_be_bytes 20 to = b # bs" by (meson neq_Nil_conv)
    moreover have "from_be_bytes (to_be_bytes 20 to) = to" by (simp add: be_bytes_roundtrip)
    ultimately show ?thesis using Call by (simp add: action_codec_def)
  qed (simp add: action_codec_def)
qed

lemma chars_bytes_roundtrip: "bytes_to_chars (chars_to_bytes s) = s"
  by (induction s) (simp_all add: bytes_to_chars_def chars_to_bytes_def unat_of_nat)

lemma exit_ser_roundtrip: "exit_de (exit_ser e) = Some e"
  by (induction e rule: exit_ser.induct) (simp_all add: exit_de_def chars_bytes_roundtrip)

lemma sample_rlp_lib_ok: "rlp_lib_ok sample_rlp_lib"
proof -
  have "codec_ok (word_codec 32 :: hash codec)" by (simp add: word_codec_ok)
  note topics = decode_encode_list [OF this]
  have "codec_ok log_codec"
    by (simp add: codec_ok_def log_codec_def be_bytes_roundtrip topics)
  moreover have "codec_ok bytes_codec" by (simp add: codec_ok_def bytes_codec_def)
  ultimately show ?thesis
    by (simp add: rlp_lib_ok_def sample_rlp_lib_def word_codec_ok option_codec_ok action_codec_ok
        exit_ser_roundtrip)
qed

text \<open>
  Property C13. Decoding undoes encoding for proofs, proposals, headers, blocks and
  validators, and the decoders accept nothing but lists of exactly the number of
  fields (5, 14, 19, 2 and 3).
\<close>

theorem block_codec_roundtrip:
  assumes "rlp_lib_ok L"
  shows "proof_decode L (proof_encode L pf) = Inr pf \<and>
         proposal_decode L (proposal_encode L pp) = Inr pp \<and>
         header_decode L (header_encode L hdr) = Inr hdr \<and>
         block_decode L (block_encode L bk) = Inr bk \<and>
         validator_decode L (validator_encode L vd) = Inr vd \<and>
         (is_ok (proof_decode L r) \<longrightarrow> item_count r = Inr 5) \<and>
         (is_ok (proposal_decode L r) \<longrightarrow> item_count r = Inr 14) \<and>
         (is_ok (header_decode L r) \<longrightarrow> item_count r = Inr 19) \<and>
         (is_ok (block_decode L r) \<longrightarrow> item_count r = Inr 2) \<and>
         (is_ok (validator_decode L r) \<longrightarrow> item_count r = Inr 3)"
proof -
  have "is_ok (proof_decode L r) \<longrightarrow> item_count r = Inr 5"
    by (cases r) (simp_all add: proof_decode_def item_count_def)
  moreover have "is_ok (proposal_decode L r) \<longrightarrow> item_count r = Inr 14"
    by (cases r) (simp_all add: proposal_decode_def item_count_def)
  moreover have "is_ok (header_decode L r) \<longrightarrow> item_count r = Inr 19"
    by (cases r) (simp_all add: header_decode_def item_count_def)
  moreover have "is_ok (block_decode L r) \<longrightarrow> item_count r = Inr 2"
    by (cases r) (simp_all add: block_decode_def item_count_def)
  moreover have "is_ok (validator_decode L r) \<longrightarrow> item_count r = Inr 3"
    by (cases r) (simp_all add: validator_decode_def item_count_def)
  ultimately show ?thesis
    using assms by (simp add: proof_roundtrip proposal_roundtrip header_roundtrip block_roundtrip
        validator_roundtrip)
qed

theorem block_codec_roundtrip_witness:
  "proof_decode sample_rlp_lib (proof_encode sample_rlp_lib
     \<lparr>pf_number = 3, pf_round = 1, pf_block_hash = 7, pf_signature = [1], pf_bitmap = []\<rparr>) =
   Inr \<lparr>pf_number = 3, pf_round = 1, pf_block_hash = 7, pf_signature = [1], pf_bitmap = []\<rparr>"
  using block_codec_roundtrip [OF sample_rlp_lib_ok] by blast

text \<open>
  Decoding undoes encoding for execution results, receipts and executor
  contexts, exit reasons included.
\<close>

theorem receipt_codec_roundtrip:
  assumes "rlp_lib_ok L"
  shows "tx_resp_decode L (tx_resp_encode L tr) = Inr tr \<and>
         receipt_decode L (receipt_encode L rc) = Inr rc \<and>
         executor_context_decode L (executor_context_encode L ec) = Inr ec"
  using assms by (simp add: tx_resp_roundtrip receipt_roundtrip executor_context_roundtrip)

theorem receipt_codec_roundtrip_witness:
  "tx_resp_decode sample_rlp_lib (tx_resp_encode sample_rlp_lib
     \<lparr>tr_exit_reason = Revert Reverted, tr_ret = [9], tr_gas_used = 5, tr_remain_gas = 6, tr_logs = [],
      tr_code_address = None\<rparr>) =
   Inr \<lparr>tr_exit_reason = Revert Reverted, tr_ret = [9], tr_gas_used = 5, tr_remain_gas = 6, tr_logs = [],
      tr_code_address = None\<rparr>"
  using receipt_codec_roundtrip [OF sample_rlp_lib_ok] by blast

lemma access_item_roundtrip: "rlp_lib_ok L \<Longrightarrow> access_item_decode L (access_item_encode L a) = Inr a"
  by (simp add: access_item_decode_def access_item_encode_def item_count_def rlp_lib_okD)

lemma access_list_roundtrip:
  assumes "rlp_lib_ok L"
  shows "access_list_decode L (RList (map (access_item_encode L) as)) = Inr as"
proof -
  have "res_map (\<lambda>i. res_bind (rlp_at i (RList (map (access_item_encode L) as))) (access_item_decode L))
      [0..<length as] = Inr (map (\<lambda>i. as ! i) [0..<length as])"
    by (rule res_map_all_ok) (simp add: rlp_at_def access_item_roundtrip [OF assms])
  then show ?thesis by (simp add: access_list_decode_def item_count_def map_nth)
qed

text \<open>
  Property C37. Decoding the encoding of a signed transaction gives back its body but
  not its signature: the decoder reads both \<open>r\<close> and \<open>s\<close> at the position of \<open>r\<close>, so the
  decoded \<open>s\<close> is \<open>r\<close>. The round trip restores the signature only when \<open>r\<close> and \<open>s\<close> are
  equal, and the hash of the decoded transaction is computed from the wrong
  signature.
\<close>

theorem utx_decode_loses_s:
  assumes "rlp_lib_ok L" and "utx_signature x = Some sc"
    and "is_eth_sig sc \<longrightarrow> length (sc_r sc) = 32 \<and> length (sc_s sc) = 32"
  shows "\<exists>item y. utx_encode L x = Some item \<and> utx_decode L keccak item = Some (Inr y) \<and>
           utx_unsigned y = utx_unsigned x \<and> utx_chain_id y = utx_chain_id x \<and>
           utx_signature y = Some (sc\<lparr>sc_s := sc_r sc\<rparr>) \<and>
           (utx_signature y = utx_signature x \<longleftrightarrow> sc_s sc = sc_r sc) \<and>
           utx_check_hash L keccak y = Some True"
proof -
  let ?sc = "sc\<lparr>sc_s := sc_r sc\<rparr>"
  let ?y0 = "x\<lparr>utx_signature := Some ?sc, utx_hash := 0\<rparr>"
  obtain sig where sig: "signature_append L sc = Some sig" "length sig = 3"
    "sig ! 0 = fst (rl_u8 L) (sc_standard_v sc)"
    "sig ! 1 = (if is_eth_sig sc then fst (rl_u256 L) (u256_from_bytes (take 32 (sc_r sc)))
                else fst (rl_bytes L) (sc_r sc))"
    using assms(3) by (cases "is_eth_sig sc") (auto simp: signature_append_def)
  obtain sig' where sig': "signature_append L ?sc = Some sig'"
    using assms(3) by (cases "is_eth_sig sc") (auto simp: signature_append_def is_eth_sig_def)
  obtain item where item: "utx_encode L x = Some item"
    using assms(2) sig(1) by (simp add: utx_encode_def Let_def)
  have part: "signature_part_decode L (is_eth_sig sc) item = Inr (sc_r sc)"
    using item assms sig
    by (auto simp: utx_encode_def Let_def signature_part_decode_def nth_append rlp_lib_okD
        u256_from_bytes_def be_bytes_roundtrip_bytes)
  have fields: "utx_decode_fields L item = Inr ?y0"
    using item part assms(1,2) sig
    by (auto simp: utx_encode_def Let_def utx_decode_fields_def item_count_def nth_append rlp_at_def
        rlp_lib_okD access_list_roundtrip is_eth_sig_def)
  obtain bs where bs: "utx_rlp_bytes L ?y0 = Some bs"
    using sig' by (simp add: utx_rlp_bytes_def utx_encode_def Let_def)
  let ?y = "?y0\<lparr>utx_hash := hasher_digest keccak bs\<rparr>"
  have "utx_rlp_bytes L ?y = Some bs"
    using bs by (simp add: utx_rlp_bytes_def utx_encode_def Let_def)
  moreover have "utx_decode L keccak item = Some (Inr ?y)"
    using fields bs by (simp add: utx_decode_def utx_rehash_def)
  moreover have "?sc = sc \<longleftrightarrow> sc_s sc = sc_r sc" by (cases sc) auto
  ultimately show ?thesis
    using item assms(2) by (intro exI [of _ item] exI [of _ ?y]) (simp add: utx_check_hash_def)
qed

theorem utx_decode_loses_s_witness:
  "\<exists>item y. utx_encode sample_rlp_lib
       ((stx_transaction (sample_stx 1 2 3 4))\<lparr>utx_signature := Some \<lparr>sc_r = [1], sc_s = [2], sc_standard_v = 4\<rparr>\<rparr>)
         = Some item \<and>
     utx_decode sample_rlp_lib (\<lambda>bs. bs) item = Some (Inr y) \<and>
     utx_signature y = Some \<lparr>sc_r = [1], sc_s = [1], sc_standard_v = 4\<rparr>"
proof -
  have "\<not> is_eth_sig \<lparr>sc_r = [1], sc_s = [2], sc_standard_v = 4\<rparr>"
    by (simp add: is_eth_sig_def word_le_nat_alt)
  then show ?thesis
    using utx_decode_loses_s [OF sample_rlp_lib_ok,
      of "(stx_transaction (sample_stx 1 2 3 4))\<lparr>utx_signature := Some \<lparr>sc_r = [1], sc_s = [2], sc_standard_v = 4\<rparr>\<rparr>"
         "\<lparr>sc_r = [1], sc_s = [2], sc_standard_v = 4\<rparr>" "\<lambda>bs. bs"]
    by auto
qed

end
