(* ===== verification/Precompiles.thy ===== *)
theory Precompiles
  imports Protocol_Types
begin

unbundle bit_operations_syntax

text \<open>
  The precompiled contracts of \<open>core/executor/src/precompiles\<close>. Hash functions, the
  recovery of secp256k1 keys, the arithmetic of the BN curve and the big integers of
  \<open>rug\<close> come from third-party crates and are the fields of \<open>crypto_lib\<close>; the input
  parsing, the gas rules, the BLAKE2b compression function and the padding of the
  results are the repository's. A panic is the error \<open>PcPanic\<close>.
\<close>

section \<open>Types and libraries\<close>

datatype pc_error = PcOutOfGas | PcOther string | PcPanic

record pc_output =
  po_exit_status :: exit_succeed
  po_cost :: u64
  po_output :: bytes
  po_logs :: "evm_log list"

type_synonym precompile_fn = "bytes \<Rightarrow> u64 option \<Rightarrow> pc_error + pc_output"

text \<open>Field elements by their value, curve points by their Jacobian coordinates.\<close>

type_synonym g1 = "nat \<times> nat \<times> nat"
type_synonym fq2 = "nat \<times> nat"
type_synonym g2 = "fq2 \<times> fq2 \<times> fq2"

record crypto_lib =
  cl_sha256 :: "bytes \<Rightarrow> bytes"
  cl_ripemd160 :: "bytes \<Rightarrow> bytes"
  cl_keccak :: "bytes \<Rightarrow> bytes"
  cl_recoverable :: "bytes \<Rightarrow> bytes option"
  cl_recover :: "bytes \<Rightarrow> bytes \<Rightarrow> bytes option"
  cl_fq :: "bytes \<Rightarrow> nat option"
  cl_fr :: "bytes \<Rightarrow> nat option"
  cl_fq_be :: "nat \<Rightarrow> bytes option"
  cl_g1_new :: "nat \<Rightarrow> nat \<Rightarrow> g1 option"
  cl_g1_zero :: g1
  cl_g1_add :: "g1 \<Rightarrow> g1 \<Rightarrow> g1"
  cl_g1_mul :: "g1 \<Rightarrow> nat \<Rightarrow> g1"
  cl_affine :: "g1 \<Rightarrow> (nat \<times> nat) option"
  cl_g2_new :: "fq2 \<Rightarrow> fq2 \<Rightarrow> g2 option"
  cl_g2_zero :: g2
  cl_pairing_is_one :: "(g1 \<times> g2) list \<Rightarrow> bool"
  cl_from_digits :: "bytes \<Rightarrow> nat"
  cl_to_digits :: "nat \<Rightarrow> bytes"
  cl_significant_bits :: "nat \<Rightarrow> nat"
  cl_pow_mod :: "nat \<Rightarrow> nat \<Rightarrow> nat \<Rightarrow> nat option"

definition precompile_address :: "u8 \<Rightarrow> h160" where
  "precompile_address addr = ucast addr"

definition pc_returned :: "u64 \<Rightarrow> bytes \<Rightarrow> pc_output" where
  "pc_returned gas out = \<lparr>po_exit_status = Returned, po_cost = gas, po_output = out, po_logs = []\<rparr>"

definition over_limit :: "u64 option \<Rightarrow> u64 \<Rightarrow> bool" where
  "over_limit gas_limit gas = (case gas_limit of Some limit \<Rightarrow> limit < gas | None \<Rightarrow> False)"

text \<open>The cost per word of input; an overflow of the multiplication or the sum panics.\<close>

definition word_gas :: "nat \<Rightarrow> nat \<Rightarrow> bytes \<Rightarrow> pc_error + u64" where
  "word_gas per min_gas input =
     (let cost = (length input + 31) div 32 * per + min_gas
      in if cost < 2 ^ 64 then Inr (word_of_nat cost) else Inl PcPanic)"

section \<open>Identity and the hash functions\<close>

definition identity_gas_cost :: "bytes \<Rightarrow> pc_error + u64" where
  "identity_gas_cost input = word_gas 3 15 input"

definition identity_exec :: precompile_fn where
  "identity_exec input gas_limit =
     res_bind (identity_gas_cost input) (\<lambda>gas.
       if over_limit gas_limit gas then Inl PcOutOfGas else Inr (pc_returned gas input))"

definition sha256_gas_cost :: "bytes \<Rightarrow> pc_error + u64" where
  "sha256_gas_cost input = word_gas 12 60 input"

definition sha256_exec :: "crypto_lib \<Rightarrow> precompile_fn" where
  "sha256_exec L input gas_limit =
     res_bind (sha256_gas_cost input) (\<lambda>gas.
       if over_limit gas_limit gas then Inl PcOutOfGas else Inr (pc_returned gas (cl_sha256 L input)))"

definition ripemd160_gas_cost :: "bytes \<Rightarrow> pc_error + u64" where
  "ripemd160_gas_cost input = word_gas 120 600 input"

definition ripemd160_exec :: "crypto_lib \<Rightarrow> precompile_fn" where
  "ripemd160_exec L input gas_limit =
     res_bind (ripemd160_gas_cost input) (\<lambda>gas.
       if over_limit gas_limit gas then Inl PcOutOfGas else Inr (pc_returned gas (cl_ripemd160 L input)))"

section \<open>Signature recovery\<close>

definition recover_signature :: "bytes \<Rightarrow> bytes option" where
  "recover_signature input =
     (let tmp = take 32 (drop 32 input)
      in if (tmp ! 31 = 27 \<or> tmp ! 31 = 28) \<and> take 31 tmp = replicate 31 0
         then Some (take 64 (drop 64 input) @ [tmp ! 31 - 27])
         else None)"

definition ecrecover_exec :: "crypto_lib \<Rightarrow> precompile_fn" where
  "ecrecover_exec L origin_input gas_limit =
     (if over_limit gas_limit 3000 then Inl PcOutOfGas
      else
        let input = take 128 origin_input @ replicate (128 - length origin_input) 0
        in case recover_signature input of
             None \<Rightarrow> Inl (PcOther ''Invalid signature'')
           | Some sig \<Rightarrow>
               (case cl_recoverable L sig of
                  None \<Rightarrow> Inl (PcOther ''Verify signature failed'')
                | Some s \<Rightarrow>
                    (case cl_recover L s (take 32 input) of
                       None \<Rightarrow> Inl (PcOther ''Verify signature failed'')
                     | Some p \<Rightarrow>
                         Inr (pc_returned 3000
                           (replicate 12 0 @ to_be_bytes 32 (hasher_digest (cl_keccak L) p))))))"

section \<open>Curve operations\<close>

definition read_point :: "crypto_lib \<Rightarrow> bytes \<Rightarrow> nat \<Rightarrow> pc_error + g1" where
  "read_point L input start =
     (if length input < start + 64 then Inl (PcOther ''Invalid input length'')
      else
        res_bind (ok_or (PcOther ''Invalid X coordinate'') (cl_fq L (take 32 (drop start input)))) (\<lambda>px.
        res_bind (ok_or (PcOther ''Invalid Y coordinate'') (cl_fq L (take 32 (drop (start + 32) input)))) (\<lambda>py.
          if px = 0 \<and> py = 0 then Inr (cl_g1_zero L)
          else ok_or (PcOther ''Invalid curve point'') (cl_g1_new L px py))))"

definition read_fr :: "crypto_lib \<Rightarrow> bytes \<Rightarrow> nat \<Rightarrow> pc_error + nat" where
  "read_fr L input start =
     (if length input < start + 32 then Inl (PcOther ''Invalid input length'')
      else ok_or (PcOther ''Invalid field element'') (cl_fr L (take 32 (drop start input))))"

definition point_bytes :: "crypto_lib \<Rightarrow> g1 \<Rightarrow> pc_error + bytes" where
  "point_bytes L p =
     (case cl_affine L p of
        None \<Rightarrow> Inr (replicate 64 0)
      | Some (x, y) \<Rightarrow>
          res_bind (ok_or (PcOther ''Invalid sum X'') (cl_fq_be L x)) (\<lambda>bx.
          res_bind (ok_or (PcOther ''Invalid sum Y'') (cl_fq_be L y)) (\<lambda>byt. Inr (bx @ byt))))"

definition ec_add_exec :: "crypto_lib \<Rightarrow> precompile_fn" where
  "ec_add_exec L input gas_limit =
     (if over_limit gas_limit 150 then Inl PcOutOfGas
      else
        res_bind (read_point L input 0) (\<lambda>p1.
        res_bind (read_point L input 64) (\<lambda>p2.
        res_bind (point_bytes L (cl_g1_add L p1 p2)) (\<lambda>out. Inr (pc_returned 150 out)))))"

definition ec_mul_exec :: "crypto_lib \<Rightarrow> precompile_fn" where
  "ec_mul_exec L input gas_limit =
     (if over_limit gas_limit 6000 then Inl PcOutOfGas
      else
        res_bind (read_point L input 0) (\<lambda>p.
        res_bind (read_fr L input 64) (\<lambda>fr.
        res_bind (point_bytes L (cl_g1_mul L p fr)) (\<lambda>out. Inr (pc_returned 6000 out)))))"

definition pairing_gas_cost :: "bytes \<Rightarrow> pc_error + u64" where
  "pairing_gas_cost input =
     (let cost = length input div 192 * 34000 + 45000
      in if cost < 2 ^ 64 then Inr (word_of_nat cost) else Inl PcPanic)"

definition index_range :: "bytes \<Rightarrow> nat \<Rightarrow> nat \<Rightarrow> bytes" where
  "index_range input i offset = take 32 (drop (i * 192 + offset) input)"

definition pairing_pair :: "crypto_lib \<Rightarrow> bytes \<Rightarrow> nat \<Rightarrow> pc_error + g1 \<times> g2" where
  "pairing_pair L input i =
     res_bind (ok_or (PcOther ''Invalid X coordinate'') (cl_fq L (index_range input i 0))) (\<lambda>a_x.
     res_bind (ok_or (PcOther ''Invalid Y coordinate'') (cl_fq L (index_range input i 32))) (\<lambda>a_y.
     res_bind (ok_or (PcOther ''Invalid imaginary coeff X coordinate'') (cl_fq L (index_range input i 64))) (\<lambda>b_a_y.
     res_bind (ok_or (PcOther ''Invalid imaginary coeff Y coordinate'') (cl_fq L (index_range input i 96))) (\<lambda>b_a_x.
     res_bind (ok_or (PcOther ''Invalid real coeff X coordinate'') (cl_fq L (index_range input i 128))) (\<lambda>b_b_y.
     res_bind (ok_or (PcOther ''Invalid real coeff Y coordinate'') (cl_fq L (index_range input i 160))) (\<lambda>b_b_x.
     res_bind (if a_x = 0 \<and> a_y = 0 then Inr (cl_g1_zero L)
               else ok_or (PcOther ''Not on curve'') (cl_g1_new L a_x a_y)) (\<lambda>a.
     res_bind (if (b_a_x, b_a_y) = (0, 0) \<and> (b_b_x, b_b_y) = (0, 0) then Inr (cl_g2_zero L)
               else ok_or (PcOther ''Not on curve'') (cl_g2_new L (b_a_x, b_a_y) (b_b_x, b_b_y))) (\<lambda>b.
       Inr (a, b)))))))))"

definition ec_pairing_exec :: "crypto_lib \<Rightarrow> precompile_fn" where
  "ec_pairing_exec L input gas_limit =
     (if input = [] then Inr (pc_returned 45000 (to_be_bytes 32 (1 :: u256)))
      else
        res_bind (pairing_gas_cost input) (\<lambda>gas.
          if over_limit gas_limit gas then Inl PcOutOfGas
          else
            res_bind (res_map (pairing_pair L input) [0..<length input div 192]) (\<lambda>pairs.
              Inr (pc_returned gas
                (to_be_bytes 32 (if cl_pairing_is_one L pairs then 1 else 0 :: u256))))))"

section \<open>BLAKE2b compression\<close>

definition le_u64 :: "bytes \<Rightarrow> u64" where
  "le_u64 bs = from_be_bytes (rev bs)"

definition parse_round :: "bytes \<Rightarrow> u32" where
  "parse_round input = from_be_bytes (take 4 input)"

definition parse_h :: "bytes \<Rightarrow> u64 list" where
  "parse_h input = map (\<lambda>i. le_u64 (take 8 (drop (4 + i * 8) input))) [0..<8]"

definition parse_m :: "bytes \<Rightarrow> u64 list" where
  "parse_m input = map (\<lambda>i. le_u64 (take 8 (drop (68 + i * 8) input))) [0..<16]"

definition parse_t :: "bytes \<Rightarrow> u64 \<times> u64" where
  "parse_t input = (le_u64 (take 8 (drop 196 input)), le_u64 (take 8 (drop 204 input)))"

definition BLAKE_SIGMA :: "nat list list" where
  "BLAKE_SIGMA =
     [ [0, 1, 2, 3, 4, 5, 6, 7, 8, 9, 10, 11, 12, 13, 14, 15],
      [14, 10, 4, 8, 9, 15, 13, 6, 1, 12, 0, 2, 11, 7, 5, 3],
      [11, 8, 12, 0, 5, 2, 15, 13, 10, 14, 3, 6, 7, 1, 9, 4],
      [7, 9, 3, 1, 13, 12, 11, 14, 2, 6, 5, 10, 4, 0, 15, 8],
      [9, 0, 5, 7, 2, 4, 10, 15, 14, 1, 11, 12, 6, 8, 3, 13],
      [2, 12, 6, 10, 0, 11, 8, 3, 4, 13, 7, 5, 15, 14, 1, 9],
      [12, 5, 1, 15, 14, 13, 4, 10, 0, 7, 6, 3, 9, 2, 8, 11],
      [13, 11, 7, 14, 12, 1, 3, 9, 5, 0, 15, 4, 8, 6, 2, 10],
      [6, 15, 14, 9, 11, 3, 0, 8, 12, 2, 13, 7, 1, 4, 10, 5],
      [10, 2, 8, 4, 7, 6, 1, 5, 15, 11, 9, 14, 3, 12, 13, 0] ]"

definition BLAKE_IV :: "u64 list" where
  "BLAKE_IV =
     [0x6a09e667f3bcc908, 0xbb67ae8584caa73b, 0x3c6ef372fe94f82b, 0xa54ff53a5f1d36f1,
      0x510e527fade682d1, 0x9b05688c2b3e6c1f, 0x1f83d9abfb41bd6b, 0x5be0cd19137e2179]"

definition blake_g :: "nat \<Rightarrow> nat \<Rightarrow> nat \<Rightarrow> nat \<Rightarrow> u64 \<Rightarrow> u64 \<Rightarrow> u64 list \<Rightarrow> u64 list" where
  "blake_g a b c d x y v =
     (let v = v[a := v ! a + v ! b + x];
          v = v[d := word_rotr 32 (v ! d XOR v ! a)];
          v = v[c := v ! c + v ! d];
          v = v[b := word_rotr 24 (v ! b XOR v ! c)];
          v = v[a := v ! a + v ! b + y];
          v = v[d := word_rotr 16 (v ! d XOR v ! a)];
          v = v[c := v ! c + v ! d]
      in v[b := word_rotr 63 (v ! b XOR v ! c)])"

definition blake_round :: "u64 list \<Rightarrow> nat \<Rightarrow> u64 list \<Rightarrow> u64 list" where
  "blake_round m i v =
     (let s = BLAKE_SIGMA ! (i mod 10);
          v = blake_g 0 4 8 12 (m ! (s ! 0)) (m ! (s ! 1)) v;
          v = blake_g 1 5 9 13 (m ! (s ! 2)) (m ! (s ! 3)) v;
          v = blake_g 2 6 10 14 (m ! (s ! 4)) (m ! (s ! 5)) v;
          v = blake_g 3 7 11 15 (m ! (s ! 6)) (m ! (s ! 7)) v;
          v = blake_g 0 5 10 15 (m ! (s ! 8)) (m ! (s ! 9)) v;
          v = blake_g 1 6 11 12 (m ! (s ! 10)) (m ! (s ! 11)) v;
          v = blake_g 2 7 8 13 (m ! (s ! 12)) (m ! (s ! 13)) v
      in blake_g 3 4 9 14 (m ! (s ! 14)) (m ! (s ! 15)) v)"

definition compress :: "u64 list \<Rightarrow> u64 list \<Rightarrow> u64 \<times> u64 \<Rightarrow> bool \<Rightarrow> nat \<Rightarrow> u64 list" where
  "compress h m t f rounds =
     (let v = h @ BLAKE_IV;
          v = v[12 := v ! 12 XOR fst t];
          v = v[13 := v ! 13 XOR snd t];
          v = (if f then v[14 := NOT (v ! 14)] else v);
          v = fold (blake_round m) [0..<rounds] v
      in map (\<lambda>i. h ! i XOR (v ! i XOR v ! (i + 8))) [0..<8])"

definition blake2_f_gas_cost :: "bytes \<Rightarrow> u64" where
  "blake2_f_gas_cost input = ucast (parse_round input) * 1"

definition blake2_f_exec :: precompile_fn where
  "blake2_f_exec input gas_limit =
     (if length input \<noteq> 213 then Inl (PcOther ''Input length must be 213'')
      else
        let gas = blake2_f_gas_cost input
        in if over_limit gas_limit gas then Inl PcOutOfGas
           else if input ! 212 \<noteq> 1 \<and> input ! 212 \<noteq> 0 then Inl (PcOther ''Invalid f value'')
           else
             let h = compress (parse_h input) (parse_m input) (parse_t input) (input ! 212 = 1)
                       (unat (parse_round input))
             in Inr (pc_returned gas (concat (map (\<lambda>w. rev (to_be_bytes 8 w)) h))))"

section \<open>Modular exponentiation\<close>

record large_number =
  ln_b_size :: nat
  ln_e_size :: nat
  ln_m_size :: nat
  ln_base :: nat
  ln_exponent :: nat
  ln_modulo :: nat

definition MAX_NUM_SIZE :: nat where
  "MAX_NUM_SIZE = 1024"

definition parse_big_uint :: "crypto_lib \<Rightarrow> bytes \<Rightarrow> bool \<Rightarrow> pc_error + nat" where
  "parse_big_uint L input is_parse_size =
     (let res = cl_from_digits L input
      in if is_parse_size \<and> MAX_NUM_SIZE < res then Inl (PcOther ''The big size must be at most 1024'')
         else Inr res)"

definition large_number_parse :: "crypto_lib \<Rightarrow> bytes \<Rightarrow> pc_error + large_number" where
  "large_number_parse L input =
     (if length input < 96 then Inl (PcOther ''Input length must be at least 96'')
      else
        res_bind (parse_big_uint L (take 32 input) True) (\<lambda>base_size.
        res_bind (parse_big_uint L (take 32 (drop 32 input)) True) (\<lambda>exponent_size.
        res_bind (parse_big_uint L (take 32 (drop 64 input)) True) (\<lambda>modulo_size.
          if length input < base_size + exponent_size + modulo_size + 96
          then Inl (PcOther ''Insufficient input len'')
          else
            let e_start = 96 + base_size; m_start = e_start + exponent_size
            in res_bind (parse_big_uint L (take base_size (drop 96 input)) False) (\<lambda>base.
               res_bind (parse_big_uint L (take exponent_size (drop e_start input)) False) (\<lambda>exponent.
               res_bind (parse_big_uint L (drop m_start input) False) (\<lambda>modulo.
                 Inr \<lparr>ln_b_size = base_size, ln_e_size = exponent_size, ln_m_size = modulo_size,
                      ln_base = base, ln_exponent = exponent, ln_modulo = modulo\<rparr>)))))))"

definition multiplication_complexity :: "large_number \<Rightarrow> nat" where
  "multiplication_complexity n = ((max (ln_b_size n) (ln_m_size n) + 7) div 8) ^ 2"

text \<open>\<open>significant_bits() - 1\<close> is a subtraction of \<open>u32\<close> values: on zero it panics.\<close>

definition bits_minus_one :: "crypto_lib \<Rightarrow> nat \<Rightarrow> pc_error + nat" where
  "bits_minus_one L n =
     (if cl_significant_bits L n = 0 then Inl PcPanic else Inr (cl_significant_bits L n - 1))"

definition iterator_count :: "crypto_lib \<Rightarrow> large_number \<Rightarrow> pc_error + nat" where
  "iterator_count L n =
     res_bind
       (if ln_e_size n \<le> 32 \<and> ln_exponent n = 0 then Inr 0
        else if ln_e_size n \<le> 32 then bits_minus_one L (ln_exponent n)
        else res_bind (bits_minus_one L (ln_exponent n AND cl_from_digits L (replicate 32 255)))
               (\<lambda>b. Inr (8 * (ln_e_size n - 32) + b)))
       (\<lambda>iter_count. Inr (max iter_count 1))"

definition modexp_gas_cost :: "crypto_lib \<Rightarrow> bytes \<Rightarrow> pc_error + u64" where
  "modexp_gas_cost L input =
     (case large_number_parse L input of
        Inl _ \<Rightarrow> Inl PcPanic
      | Inr n \<Rightarrow>
          res_bind (iterator_count L n) (\<lambda>iter.
            let gas = max (multiplication_complexity n * iter div 3) 200
            in if gas < 2 ^ 64 then Inr (word_of_nat gas) else Inl PcPanic))"

definition large_number_calc :: "crypto_lib \<Rightarrow> large_number \<Rightarrow> pc_error + nat" where
  "large_number_calc L n =
     (if ln_b_size n = 0 \<and> ln_m_size n = 0 then Inr 0
      else ok_or (PcOther ''Overflow'') (cl_pow_mod L (ln_base n) (ln_exponent n) (ln_modulo n)))"

definition modexp_output :: "crypto_lib \<Rightarrow> nat \<Rightarrow> u64 \<Rightarrow> nat \<Rightarrow> pc_error + pc_output" where
  "modexp_output L m_size gas v =
     (let res = cl_to_digits L v
      in if m_size < length res then Inl (PcOther ''Exec failed'')
         else if length res < m_size then Inr (pc_returned gas (replicate (m_size - length res) 0 @ res))
         else Inr (pc_returned gas res))"

definition modexp_exec :: "crypto_lib \<Rightarrow> precompile_fn" where
  "modexp_exec L input gas_limit =
     res_bind (large_number_parse L input) (\<lambda>n.
     res_bind (modexp_gas_cost L input) (\<lambda>gas.
       if over_limit gas_limit gas then Inl PcOutOfGas
       else res_bind (large_number_calc L n) (modexp_output L (ln_m_size n) gas)))"

section \<open>The precompile set\<close>

definition build_precompile_set :: "crypto_lib \<Rightarrow> h160 \<rightharpoonup> precompile_fn" where
  "build_precompile_set L =
     map_of [(precompile_address 1, ecrecover_exec L), (precompile_address 2, sha256_exec L),
             (precompile_address 3, ripemd160_exec L), (precompile_address 4, identity_exec),
             (precompile_address 5, modexp_exec L), (precompile_address 6, ec_add_exec L),
             (precompile_address 7, ec_mul_exec L), (precompile_address 8, ec_pairing_exec L),
             (precompile_address 9, blake2_f_exec)]"


section \<open>Facts on big-endian digits\<close>

lemma be_nat_append: "be_nat (xs @ ys) = be_nat xs * 256 ^ length ys + be_nat ys"
  by (induction ys rule: rev_induct) (simp_all flip: append_assoc add: algebra_simps)

lemma be_nat_zeros [simp]: "be_nat (replicate n 0) = 0"
  by (induction n) (simp_all flip: replicate_append_same)

lemma be_nat_ones: "be_nat (replicate n 255) = 256 ^ n - 1"
proof (induction n)
  case (Suc n)
  have "be_nat (replicate (Suc n) 255) = 256 * (256 ^ n - 1) + 255"
    by (simp flip: replicate_append_same add: Suc)
  moreover have "1 \<le> (256 :: nat) ^ n" by simp
  ultimately show ?case by (simp add: algebra_simps)
qed simp

definition big_ok :: "crypto_lib \<Rightarrow> bool" where
  "big_ok L \<longleftrightarrow>
     (\<forall>bs. cl_from_digits L bs = be_nat bs) \<and>
     (\<forall>n. be_nat (cl_to_digits L n) = n \<and> (cl_to_digits L n = [] \<or> hd (cl_to_digits L n) \<noteq> 0)) \<and>
     (\<forall>n k. cl_significant_bits L n \<le> k \<longleftrightarrow> n < 2 ^ k) \<and>
     (\<forall>b e m. cl_pow_mod L b e m = (if m = 0 then None else Some (b ^ e mod m)))"

lemma digits_length:
  assumes "be_nat ds = v" and "ds = [] \<or> hd ds \<noteq> 0" and "v < 256 ^ k"
  shows "length ds \<le> k"
proof (cases ds)
  case (Cons d ds')
  with assms(2) have "d \<noteq> 0" by simp
  then have "1 \<le> unat d" by (simp add: unat_gt_0 Suc_le_eq)
  then have "256 ^ length ds' \<le> unat d * 256 ^ length ds'" by simp
  also have "\<dots> \<le> v"
    using be_nat_append [of "[d]" ds'] Cons assms(1) by (simp add: be_nat_def)
  finally have "(256 :: nat) ^ length ds' < 256 ^ k" using assms(3) by linarith
  then show ?thesis using Cons by (simp add: power_less_imp_less_exp Suc_leI)
qed simp

lemma padded_digits:
  assumes "be_nat ds = v" and "length ds \<le> k"
  shows "replicate (k - length ds) 0 @ ds = nat_to_be k v"
  using nat_to_be_be_nat [of "replicate (k - length ds) 0 @ ds" k] assms
  by (simp add: be_nat_append)

lemma modexp_output_padded:
  assumes "big_ok L" and "v < 256 ^ k"
  shows "modexp_output L k gas v = Inr (pc_returned gas (nat_to_be k v))"
proof -
  have v: "be_nat (cl_to_digits L v) = v" "cl_to_digits L v = [] \<or> hd (cl_to_digits L v) \<noteq> 0"
    using assms(1) by (simp_all add: big_ok_def)
  have len: "length (cl_to_digits L v) \<le> k" by (rule digits_length [OF v assms(2)])
  with padded_digits [OF v(1) len] show ?thesis
    by (cases "length (cl_to_digits L v) < k") (simp_all add: modexp_output_def Let_def)
qed

section \<open>Modular exponentiation on well-formed input\<close>

definition modexp_input :: "bytes \<Rightarrow> bytes \<Rightarrow> bytes \<Rightarrow> bytes" where
  "modexp_input b e m =
     nat_to_be 32 (length b) @ nat_to_be 32 (length e) @ nat_to_be 32 (length m) @ b @ e @ m"

definition modexp_bits :: "crypto_lib \<Rightarrow> bytes \<Rightarrow> nat" where
  "modexp_bits L e =
     (if length e \<le> 32 then cl_significant_bits L (be_nat e)
      else 8 * (length e - 32) + cl_significant_bits L (be_nat e mod 2 ^ 256))"

definition modexp_gas :: "crypto_lib \<Rightarrow> bytes \<Rightarrow> bytes \<Rightarrow> bytes \<Rightarrow> nat" where
  "modexp_gas L b e m =
     max (((max (length b) (length m) + 7) div 8) ^ 2 * max (modexp_bits L e - 1) 1 div 3) 200"

lemma parse_modexp_input:
  assumes "big_ok L" and "length b \<le> 1024" and "length e \<le> 1024" and "length m \<le> 1024"
  shows "large_number_parse L (modexp_input b e m) =
    Inr \<lparr>ln_b_size = length b, ln_e_size = length e, ln_m_size = length m,
         ln_base = be_nat b, ln_exponent = be_nat e, ln_modulo = be_nat m\<rparr>"
proof -
  have size: "be_nat (nat_to_be 32 n) = n" if "n \<le> 1024" for n
    using that by (simp add: be_nat_nat_to_be)
  show ?thesis
    using assms
    by (simp add: large_number_parse_def modexp_input_def parse_big_uint_def big_ok_def size
        MAX_NUM_SIZE_def Let_def)
qed

lemma low_word_bits:
  assumes "big_ok L"
  shows "n AND cl_from_digits L (replicate 32 255) = n mod 2 ^ 256"
proof -
  have "cl_from_digits L (replicate 32 255) = mask 256"
    using assms by (simp add: big_ok_def be_nat_ones mask_eq_exp_minus_1 power_mult [of 2 8 32, simplified])
  then show ?thesis by (simp add: take_bit_eq_mod flip: take_bit_eq_mask)
qed

lemma bits_zero: "big_ok L \<Longrightarrow> cl_significant_bits L n = 0 \<longleftrightarrow> n = 0"
  by (metis big_ok_def le_zero_eq less_one power_0)

lemma bits_le_256: "big_ok L \<Longrightarrow> n < 2 ^ 256 \<Longrightarrow> cl_significant_bits L n \<le> 256"
  by (simp add: big_ok_def)

lemma iterator_count_input:
  assumes "big_ok L" and "ln_e_size n = length e" and "ln_exponent n = be_nat e"
  shows "iterator_count L n =
    (if 32 < length e \<and> be_nat e mod 2 ^ 256 = 0 then Inl PcPanic
     else Inr (max (modexp_bits L e - 1) 1))"
proof (cases "length e \<le> 32")
  case True
  have z: "cl_significant_bits L 0 = 0" using bits_zero [OF assms(1)] by blast
  show ?thesis
    using assms True by (cases "be_nat e = 0") (simp_all add: iterator_count_def bits_minus_one_def bits_zero z modexp_bits_def)
next
  case False
  then show ?thesis
    using assms bits_zero [OF assms(1), of "be_nat e mod 2 ^ 256"]
    by (cases "be_nat e mod 2 ^ 256 = 0")
       (simp_all add: iterator_count_def bits_minus_one_def low_word_bits modexp_bits_def)
qed

lemma modexp_gas_bound:
  assumes "big_ok L" and "length b \<le> 1024" and "length e \<le> 1024" and "length m \<le> 1024"
  shows "modexp_gas L b e m < 2 ^ 64"
proof -
  define c where "c = (max (length b) (length m) + 7) div 8"
  define bits where "bits = modexp_bits L e"
  have "c \<le> 128" using assms(2,4) by (simp add: c_def)
  then have c: "c ^ 2 \<le> 128 ^ 2" by (rule power_mono) simp
  have "be_nat e < 2 ^ 256" if "length e \<le> 32"
  proof -
    have "be_nat e < 256 ^ length e" by (rule be_nat_bound)
    also have "\<dots> \<le> 256 ^ 32" using that by (rule power_increasing) simp
    finally show ?thesis by simp
  qed
  then have "length e \<le> 32 \<Longrightarrow> cl_significant_bits L (be_nat e) \<le> 256"
    using bits_le_256 [OF assms(1)] by simp
  moreover have "cl_significant_bits L (be_nat e mod 2 ^ 256) \<le> 256"
    by (rule bits_le_256 [OF assms(1)]) simp
  ultimately have "bits \<le> 8192" using assms(3) by (cases "length e \<le> 32") (simp_all add: bits_def modexp_bits_def)
  then have "max (bits - 1) 1 \<le> 8192" by simp
  with c have "c ^ 2 * max (bits - 1) 1 \<le> 128 ^ 2 * 8192" by (rule mult_le_mono)
  then show ?thesis
    by (simp add: modexp_gas_def flip: c_def bits_def)
qed

lemma modexp_gas_cost_input:
  assumes "big_ok L" and "length b \<le> 1024" and "length e \<le> 1024" and "length m \<le> 1024"
  shows "modexp_gas_cost L (modexp_input b e m) =
    (if 32 < length e \<and> be_nat e mod 2 ^ 256 = 0 then Inl PcPanic
     else Inr (word_of_nat (modexp_gas L b e m)))"
proof -
  let ?n = "\<lparr>ln_b_size = length b, ln_e_size = length e, ln_m_size = length m,
             ln_base = be_nat b, ln_exponent = be_nat e, ln_modulo = be_nat m\<rparr>"
  have "iterator_count L ?n =
    (if 32 < length e \<and> be_nat e mod 2 ^ 256 = 0 then Inl PcPanic
     else Inr (max (modexp_bits L e - 1) 1))"
    by (rule iterator_count_input) (simp_all add: assms(1))
  moreover have "max (multiplication_complexity ?n * max (modexp_bits L e - 1) 1 div 3) 200 = modexp_gas L b e m"
    by (simp only: multiplication_complexity_def modexp_gas_def large_number.select_convs)
  ultimately show ?thesis
    unfolding modexp_gas_cost_def parse_modexp_input [OF assms] sum.case
    by (cases "32 < length e \<and> be_nat e mod 2 ^ 256 = 0")
       (simp_all only: res_bind_simps Let_def modexp_gas_bound [OF assms] if_True if_False simp_thms)
qed

section \<open>Gas\<close>

lemma over_limit_le: "\<not> over_limit (Some limit) gas \<Longrightarrow> gas \<le> limit"
  by (simp add: over_limit_def)

named_theorems exec_defs \<open>the precompiled contracts\<close>

lemmas [exec_defs] =
  identity_exec_def sha256_exec_def ripemd160_exec_def ecrecover_exec_def ec_add_exec_def
  ec_mul_exec_def ec_pairing_exec_def blake2_f_exec_def modexp_exec_def modexp_output_def

lemma exec_within_limit:
  "identity_exec input (Some limit) = Inr out \<Longrightarrow> po_cost out \<le> limit"
  "sha256_exec L input (Some limit) = Inr out \<Longrightarrow> po_cost out \<le> limit"
  "ripemd160_exec L input (Some limit) = Inr out \<Longrightarrow> po_cost out \<le> limit"
  "ecrecover_exec L input (Some limit) = Inr out \<Longrightarrow> po_cost out \<le> limit"
  "ec_add_exec L input (Some limit) = Inr out \<Longrightarrow> po_cost out \<le> limit"
  "ec_mul_exec L input (Some limit) = Inr out \<Longrightarrow> po_cost out \<le> limit"
  "input \<noteq> [] \<Longrightarrow> ec_pairing_exec L input (Some limit) = Inr out \<Longrightarrow> po_cost out \<le> limit"
  "blake2_f_exec input (Some limit) = Inr out \<Longrightarrow> po_cost out \<le> limit"
  "modexp_exec L input (Some limit) = Inr out \<Longrightarrow> po_cost out \<le> limit"
  by (auto simp: exec_defs res_bind_eq_Inr Let_def pc_returned_def dest: over_limit_le
      split: if_splits option.splits)

lemma length_compress [simp]: "length (compress h m t f rounds) = 8"
  by (simp add: compress_def Let_def)

section \<open>A concrete library\<close>

fun digits256 :: "nat \<Rightarrow> bytes" where
  "digits256 n = (if n = 0 then [] else digits256 (n div 256) @ [word_of_nat (n mod 256)])"

fun nat_bits :: "nat \<Rightarrow> nat" where
  "nat_bits n = (if n = 0 then 0 else Suc (nat_bits (n div 2)))"

declare digits256.simps [simp del] nat_bits.simps [simp del]

definition sample_crypto_lib :: crypto_lib where
  "sample_crypto_lib =
     \<lparr>cl_sha256 = (\<lambda>_. replicate 32 7), cl_ripemd160 = (\<lambda>_. replicate 20 7), cl_keccak = (\<lambda>_. replicate 32 7),
      cl_recoverable = Some, cl_recover = (\<lambda>s h. Some s), cl_fq = (\<lambda>bs. Some (be_nat bs)),
      cl_fr = (\<lambda>bs. Some (be_nat bs)), cl_fq_be = (\<lambda>n. Some (nat_to_be 32 n)),
      cl_g1_new = (\<lambda>x y. Some (x, y, 1)), cl_g1_zero = (0, 0, 0), cl_g1_add = (\<lambda>p q. p),
      cl_g1_mul = (\<lambda>p n. p), cl_affine = (\<lambda>(x, y, z). if z = 0 then None else Some (x, y)),
      cl_g2_new = (\<lambda>x y. Some (x, y, (1, 0))), cl_g2_zero = ((0, 0), (0, 0), (0, 0)),
      cl_pairing_is_one = (\<lambda>ps. ps = []), cl_from_digits = be_nat, cl_to_digits = digits256,
      cl_significant_bits = nat_bits,
      cl_pow_mod = (\<lambda>b e m. if m = 0 then None else Some (b ^ e mod m))\<rparr>"

lemma digits256_value: "be_nat (digits256 n) = n"
proof (induction n rule: digits256.induct)
  case (1 n)
  then show ?case by (subst digits256.simps) (simp add: unat_byte_of_nat)
qed

lemma digits256_no_zero: "digits256 n = [] \<or> hd (digits256 n) \<noteq> 0"
proof (induction n rule: digits256.induct)
  case (1 n)
  show ?case
  proof (cases "n < 256")
    case True
    then have "digits256 n = (if n = 0 then [] else [word_of_nat n])"
      by (simp add: digits256.simps [of n] digits256.simps [of 0])
    moreover have "n \<noteq> 0 \<Longrightarrow> (word_of_nat n :: u8) \<noteq> 0"
      using True by (simp add: word_of_nat_eq_0_iff nat_dvd_not_less)
    ultimately show ?thesis by simp
  next
    case False
    then have n: "n \<noteq> 0" "n div 256 \<noteq> 0" by auto
    have "digits256 (n div 256) \<noteq> []" using n(2) by (subst digits256.simps) simp
    then show ?thesis using 1 [OF n(1)] n(1) by (subst digits256.simps) simp
  qed
qed

lemma nat_bits_le: "nat_bits n \<le> k \<longleftrightarrow> n < 2 ^ k"
proof (induction n arbitrary: k rule: nat_bits.induct)
  case (1 n)
  show ?case
  proof (cases k)
    case 0
    then show ?thesis by (simp add: nat_bits.simps [of n])
  next
    case (Suc j)
    have "n \<noteq> 0 \<Longrightarrow> nat_bits (n div 2) \<le> j \<longleftrightarrow> n div 2 < 2 ^ j" by (rule 1)
    then show ?thesis using Suc by (auto simp: nat_bits.simps [of n])
  qed
qed

lemma sample_big_ok: "big_ok sample_crypto_lib"
  unfolding big_ok_def sample_crypto_lib_def
  by (simp add: digits256_value digits256_no_zero nat_bits_le)

section \<open>Properties\<close>

text \<open>
  Property C16. On an input that announces exactly the base, exponent and modulus it
  carries, each of at most 1024 bytes, the modular exponentiation returns
  \<open>b ^ e mod m\<close> in as many bytes as the modulus has, for the price of the gas rule;
  it refuses a limit below that price and a zero modulus. An exponent of more than 32
  bytes whose low 256 bits are zero makes the gas computation panic.
\<close>

theorem modexp_correct:
  assumes "big_ok L" and "length b \<le> 1024" and "length e \<le> 1024" and "length m \<le> 1024"
  shows "modexp_exec L (modexp_input b e m) limit =
    (if 32 < length e \<and> be_nat e mod 2 ^ 256 = 0 then Inl PcPanic
     else if over_limit limit (word_of_nat (modexp_gas L b e m)) then Inl PcOutOfGas
     else if b = [] \<and> m = [] then Inr (pc_returned (word_of_nat (modexp_gas L b e m)) [])
     else if be_nat m = 0 then Inl (PcOther ''Overflow'')
     else Inr (pc_returned (word_of_nat (modexp_gas L b e m))
                (nat_to_be (length m) (be_nat b ^ be_nat e mod be_nat m))))"
proof -
  have pow: "cl_pow_mod L x y z = (if z = 0 then None else Some (x ^ y mod z))" for x y z
    using assms(1) by (simp add: big_ok_def)
  have "be_nat b ^ be_nat e mod be_nat m < 256 ^ length m" if "be_nat m \<noteq> 0"
    using be_nat_bound [of m] mod_less_divisor [of "be_nat m" "be_nat b ^ be_nat e"] that by linarith
  note out = modexp_output_padded [OF assms(1) this]
  have empty: "modexp_output L 0 gas 0 = Inr (pc_returned gas [])" for gas
    using modexp_output_padded [OF assms(1), of 0 0] by simp
  show ?thesis
    by (cases "be_nat m = 0")
       (simp_all add: modexp_exec_def parse_modexp_input [OF assms] modexp_gas_cost_input [OF assms]
          large_number_calc_def pow out empty)
qed

theorem modexp_correct_witness:
  "modexp_exec sample_crypto_lib (modexp_input [3] [2] [0, 5]) (Some 200) = Inr (pc_returned 200 [0, 4])"
proof -
  have "be_nat [3] = 3" "be_nat [2] = 2" "be_nat [0, 5] = 5" by (simp_all add: be_nat_def)
  moreover have "nat_bits 2 = 2" by (simp add: nat_bits.simps)
  then have "modexp_gas sample_crypto_lib [3] [2] [0, 5] = 200"
    by (simp add: modexp_gas_def modexp_bits_def sample_crypto_lib_def be_nat_def)
  ultimately show ?thesis
    using modexp_correct [OF sample_big_ok, of "[3]" "[2]" "[0, 5]" "Some 200"]
    by (simp add: over_limit_def numeral_2_eq_2)
qed

text \<open>
  A precompiled contract that succeeds under a gas limit costs at most
  that limit. The one exception is the pairing check on empty input, which answers
  before it looks at the limit.
\<close>

theorem precompile_within_limit:
  assumes "build_precompile_set L a = Some f" and "f input (Some limit) = Inr out"
    and "limit < po_cost out"
  shows "a = precompile_address 8 \<and> input = [] \<and> po_cost out = 45000"
proof -
  have "a = precompile_address 8 \<and> f = ec_pairing_exec L"
    using assms by (auto simp: build_precompile_set_def dest: exec_within_limit split: if_splits)
  moreover from this have "input = []" using assms(2,3) exec_within_limit(7) by fastforce
  ultimately show ?thesis using assms(2) by (auto simp: ec_pairing_exec_def pc_returned_def)
qed

theorem precompile_within_limit_witness:
  "build_precompile_set sample_crypto_lib (precompile_address 8) = Some (ec_pairing_exec sample_crypto_lib) \<and>
   ec_pairing_exec sample_crypto_lib [] (Some 0) = Inr (pc_returned 45000 (to_be_bytes 32 (1 :: u256))) \<and>
   po_cost (pc_returned 45000 (to_be_bytes 32 (1 :: u256))) = 45000"
proof -
  have set: "build_precompile_set sample_crypto_lib (precompile_address 8) = Some (ec_pairing_exec sample_crypto_lib)"
    by (simp add: build_precompile_set_def precompile_address_def)
  have run: "ec_pairing_exec sample_crypto_lib [] (Some 0) = Inr (pc_returned 45000 (to_be_bytes 32 (1 :: u256)))"
    by (simp add: ec_pairing_exec_def)
  have "(0 :: u64) < po_cost (pc_returned 45000 (to_be_bytes 32 (1 :: u256)))"
    by (simp add: pc_returned_def)
  with precompile_within_limit [OF set run] set run show ?thesis by blast
qed



end
