(* ===== verification/Executor.thy ===== *)
theory Executor
  imports Storage Rlp_Codec Precompiles
begin

text \<open>
  The execution layer \<open>core/executor\<close>: the trie wrapper \<open>MPTTrie\<close>, the backend that
  presents the state trie and the code store to the EVM (\<open>adapter/mod.rs\<close>), the
  native-token system script (\<open>system.rs\<close>), the EVM runner (\<open>vm.rs\<close>) and the block
  executor (\<open>lib.rs\<close>), together with the Merkle root over hashes (\<open>common/merkle\<close>). The
  Patricia trie of \<open>cita_trie\<close>, the EVM interpreter of the \<open>evm\<close> crate, the tree of
  \<open>static_merkle_tree\<close> and the RLP form of accounts are fields of the environment. A
  panic is the error \<open>XePanic\<close>.
\<close>

section \<open>State and environment\<close>

datatype exec_error = XeTrie string | XeRemoveFailed | XePanic

record account =
  ac_nonce :: u256
  ac_balance :: u256
  ac_storage_root :: hash
  ac_code_hash :: hash

record basic =
  bs_balance :: u256
  bs_nonce :: u256

record ('t, 'p) trie_lib =
  tl_new :: 'p
  tl_from :: "'t \<Rightarrow> bytes \<Rightarrow> string + 'p"
  tl_get :: "'t \<Rightarrow> 'p \<Rightarrow> bytes \<Rightarrow> string + bytes option"
  tl_contains :: "'t \<Rightarrow> 'p \<Rightarrow> bytes \<Rightarrow> string + bool"
  tl_insert :: "'t \<Rightarrow> 'p \<Rightarrow> bytes \<Rightarrow> bytes \<Rightarrow> 'p \<times> (string + unit)"
  tl_remove :: "'t \<Rightarrow> 'p \<Rightarrow> bytes \<Rightarrow> 'p \<times> (string + bool)"
  tl_root :: "'t \<Rightarrow> 'p \<Rightarrow> 't \<times> 'p \<times> (string + bytes)"

record 'p mpt_trie =
  mt_root :: hash
  mt_trie :: 'p

record ('d, 't, 'p) exec_backend =
  ax_ctx :: executor_context
  ax_trie :: "'p mpt_trie"
  ax_storage :: "'d impl_storage"
  ax_db :: 't

type_synonym ('d, 't, 'p, 'v) exec_op = "(('d, 't, 'p) exec_backend, exec_error, 'v) st"

datatype evm_apply =
    ApModify h160 basic "bytes option" "(hash \<times> hash) list" bool
  | ApDelete h160

datatype evm_tx =
    EvmCall h160 h160 u256 bytes u64 "(h160 \<times> hash list) list"
  | EvmCreate h160 u256 bytes u64 "(h160 \<times> hash list) list"

record evm_out =
  eo_exit_reason :: exit_reason
  eo_ret :: bytes
  eo_gas :: u64
  eo_used_gas :: u64
  eo_values :: "evm_apply list"
  eo_logs :: "evm_log list"
  eo_create_address :: h160

record ('d, 't, 'p) exec_env =
  xe_adapter :: "'d storage_adapter"
  xe_storage :: storage_env
  xe_trie :: "('t, 'p) trie_lib"
  xe_account :: "account val_codec"
  xe_rlp :: rlp_lib
  xe_keccak :: "bytes \<Rightarrow> bytes"
  xe_crypto :: crypto_lib
  xe_evm :: "(h160 \<rightharpoonup> precompile_fn) \<Rightarrow> evm_tx \<Rightarrow> ('d, 't, 'p) exec_backend
             \<Rightarrow> ('d, 't, 'p) exec_backend \<times> (exec_error + evm_out)"
  xe_tree_root :: "(hash \<Rightarrow> hash \<Rightarrow> hash) \<Rightarrow> hash list \<Rightarrow> hash option"

section \<open>Merkle roots\<close>

definition merkle_merge :: "(bytes \<Rightarrow> bytes) \<Rightarrow> hash \<Rightarrow> hash \<Rightarrow> hash" where
  "merkle_merge keccak left right = hasher_digest keccak (to_be_bytes 32 left @ to_be_bytes 32 right)"

definition get_root_hash ::
  "(bytes \<Rightarrow> bytes) \<Rightarrow> ((hash \<Rightarrow> hash \<Rightarrow> hash) \<Rightarrow> hash list \<Rightarrow> hash option) \<Rightarrow> hash list \<Rightarrow> hash option" where
  "get_root_hash keccak tree_root hashes = tree_root (merkle_merge keccak) hashes"

definition root_or_default ::
  "(bytes \<Rightarrow> bytes) \<Rightarrow> ((hash \<Rightarrow> hash \<Rightarrow> hash) \<Rightarrow> hash list \<Rightarrow> hash option) \<Rightarrow> hash list \<Rightarrow> hash" where
  "root_or_default keccak tree_root hashes =
     (case get_root_hash keccak tree_root hashes of None \<Rightarrow> 0 | Some h \<Rightarrow> h)"

section \<open>The trie wrapper\<close>

definition mpt_new :: "('t, 'p) trie_lib \<Rightarrow> 'p mpt_trie" where
  "mpt_new T = \<lparr>mt_root = 0, mt_trie = tl_new T\<rparr>"

definition mpt_from_root :: "('t, 'p) trie_lib \<Rightarrow> 't \<Rightarrow> hash \<Rightarrow> exec_error + 'p mpt_trie" where
  "mpt_from_root T db root =
     (case tl_from T db (to_be_bytes 32 root) of
        Inl e \<Rightarrow> Inl (XeTrie e)
      | Inr p \<Rightarrow> Inr \<lparr>mt_root = root, mt_trie = p\<rparr>)"

definition mpt_get :: "('t, 'p) trie_lib \<Rightarrow> 't \<Rightarrow> 'p mpt_trie \<Rightarrow> bytes \<Rightarrow> exec_error + bytes option" where
  "mpt_get T db m key = (case tl_get T db (mt_trie m) key of Inl e \<Rightarrow> Inl (XeTrie e) | Inr v \<Rightarrow> Inr v)"

definition mpt_contains :: "('t, 'p) trie_lib \<Rightarrow> 't \<Rightarrow> 'p mpt_trie \<Rightarrow> bytes \<Rightarrow> exec_error + bool" where
  "mpt_contains T db m key =
     (case tl_contains T db (mt_trie m) key of Inl e \<Rightarrow> Inl (XeTrie e) | Inr v \<Rightarrow> Inr v)"

definition mpt_insert ::
  "('t, 'p) trie_lib \<Rightarrow> 't \<Rightarrow> bytes \<Rightarrow> bytes \<Rightarrow> 'p mpt_trie \<Rightarrow> 'p mpt_trie \<times> (exec_error + unit)" where
  "mpt_insert T db key val m =
     (case tl_insert T db (mt_trie m) key val of
        (p, Inl e) \<Rightarrow> (m\<lparr>mt_trie := p\<rparr>, Inl (XeTrie e))
      | (p, Inr _) \<Rightarrow> (m\<lparr>mt_trie := p\<rparr>, Inr ()))"

definition mpt_remove ::
  "('t, 'p) trie_lib \<Rightarrow> 't \<Rightarrow> bytes \<Rightarrow> 'p mpt_trie \<Rightarrow> 'p mpt_trie \<times> (exec_error + unit)" where
  "mpt_remove T db key m =
     (case tl_remove T db (mt_trie m) key of
        (p, Inl e) \<Rightarrow> (m\<lparr>mt_trie := p\<rparr>, Inl (XeTrie e))
      | (p, Inr removed) \<Rightarrow> (m\<lparr>mt_trie := p\<rparr>, if removed then Inr () else Inl XeRemoveFailed))"

text \<open>\<open>MerkleRoot::from_slice\<close> panics unless the library returns 32 bytes.\<close>

definition mpt_commit ::
  "('t, 'p) trie_lib \<Rightarrow> 't \<Rightarrow> 'p mpt_trie \<Rightarrow> 't \<times> 'p mpt_trie \<times> (exec_error + hash)" where
  "mpt_commit T db m =
     (case tl_root T db (mt_trie m) of
        (db', p, Inl e) \<Rightarrow> (db', m\<lparr>mt_trie := p\<rparr>, Inl (XeTrie e))
      | (db', p, Inr root_bytes) \<Rightarrow>
          if length root_bytes \<noteq> 32 then (db', m\<lparr>mt_trie := p\<rparr>, Inl XePanic)
          else
            let root = from_be_bytes root_bytes
            in (db', \<lparr>mt_root = root, mt_trie = p\<rparr>, Inr root))"

section \<open>The backend\<close>

definition address_key :: "h160 \<Rightarrow> bytes" where
  "address_key a = to_be_bytes 20 a"

definition account_default :: account where
  "account_default = \<lparr>ac_nonce = 0, ac_balance = 0, ac_storage_root = RLP_NULL, ac_code_hash = NIL_DATA\<rparr>"

definition backend_from_root ::
  "('d, 't, 'p) exec_env \<Rightarrow> hash \<Rightarrow> 't \<Rightarrow> 'd impl_storage \<Rightarrow> executor_context
   \<Rightarrow> exec_error + ('d, 't, 'p) exec_backend" where
  "backend_from_root E state_root db storage ctx =
     res_bind (mpt_from_root (xe_trie E) db state_root)
       (\<lambda>trie. Inr \<lparr>ax_ctx = ctx, ax_trie = trie, ax_storage = storage, ax_db = db\<rparr>)"

definition set_gas_price :: "u256 \<Rightarrow> ('d, 't, 'p) exec_backend \<Rightarrow> ('d, 't, 'p) exec_backend" where
  "set_gas_price gas_price s = s\<lparr>ax_ctx := (ax_ctx s)\<lparr>ec_gas_price := gas_price\<rparr>\<rparr>"

definition get_logs :: "('d, 't, 'p, evm_log list) exec_op" where
  "get_logs s = (s\<lparr>ax_ctx := (ax_ctx s)\<lparr>ec_logs := []\<rparr>\<rparr>, Inr (ec_logs (ax_ctx s)))"

definition state_root :: "('d, 't, 'p) exec_backend \<Rightarrow> hash" where
  "state_root s = mt_root (ax_trie s)"

definition backend_get :: "('d, 't, 'p) exec_env \<Rightarrow> bytes \<Rightarrow> ('d, 't, 'p) exec_backend \<Rightarrow> bytes option" where
  "backend_get E key s =
     (case mpt_get (xe_trie E) (ax_db s) (ax_trie s) key of Inl _ \<Rightarrow> None | Inr v \<Rightarrow> v)"

definition backend_exists :: "('d, 't, 'p) exec_env \<Rightarrow> h160 \<Rightarrow> ('d, 't, 'p) exec_backend \<Rightarrow> bool" where
  "backend_exists E address s =
     (case mpt_contains (xe_trie E) (ax_db s) (ax_trie s) (address_key address) of Inl _ \<Rightarrow> False | Inr b \<Rightarrow> b)"

definition backend_basic :: "('d, 't, 'p) exec_env \<Rightarrow> h160 \<Rightarrow> ('d, 't, 'p) exec_backend \<Rightarrow> basic" where
  "backend_basic E address s =
     (case mpt_get (xe_trie E) (ax_db s) (ax_trie s) (address_key address) of
        Inr (Some raw) \<Rightarrow>
          (case snd (xe_account E) raw of
             Inl _ \<Rightarrow> \<lparr>bs_balance = 0, bs_nonce = 0\<rparr>
           | Inr account \<Rightarrow> \<lparr>bs_balance = ac_balance account, bs_nonce = ac_nonce account\<rparr>)
      | _ \<Rightarrow> \<lparr>bs_balance = 0, bs_nonce = 0\<rparr>)"

definition backend_code :: "('d, 't, 'p) exec_env \<Rightarrow> h160 \<Rightarrow> ('d, 't, 'p, bytes) exec_op" where
  "backend_code E address s =
     (case mpt_get (xe_trie E) (ax_db s) (ax_trie s) (address_key address) of
        Inl _ \<Rightarrow> (s, Inl XePanic)
      | Inr None \<Rightarrow> (s, Inr [])
      | Inr (Some raw) \<Rightarrow>
          (case snd (xe_account E) raw of
             Inl _ \<Rightarrow> (s, Inl XePanic)
           | Inr account \<Rightarrow>
               if ac_code_hash account = NIL_DATA then (s, Inr [])
               else
                 (case get_code_by_hash (xe_adapter E) (xe_storage E) (ac_code_hash account) (ax_storage s) of
                    (st, Inr (Some code)) \<Rightarrow> (s\<lparr>ax_storage := st\<rparr>, Inr code)
                  | (st, _) \<Rightarrow> (s\<lparr>ax_storage := st\<rparr>, Inl XePanic))))"

definition backend_storage ::
  "('d, 't, 'p) exec_env \<Rightarrow> h160 \<Rightarrow> hash \<Rightarrow> ('d, 't, 'p) exec_backend \<Rightarrow> exec_error + hash" where
  "backend_storage E address index s =
     (case mpt_get (xe_trie E) (ax_db s) (ax_trie s) (address_key address) of
        Inr (Some raw) \<Rightarrow>
          (case snd (xe_account E) raw of
             Inl _ \<Rightarrow> Inr 0
           | Inr account \<Rightarrow>
               if ac_storage_root account = RLP_NULL then Inr 0
               else
                 (case mpt_from_root (xe_trie E) (ax_db s) (ac_storage_root account) of
                    Inl _ \<Rightarrow> Inr 0
                  | Inr trie \<Rightarrow>
                      (case mpt_get (xe_trie E) (ax_db s) trie (to_be_bytes 32 index) of
                         Inr (Some res) \<Rightarrow> if length res = 32 then Inr (from_be_bytes res) else Inl XePanic
                       | _ \<Rightarrow> Inr 0)))
      | _ \<Rightarrow> Inr 0)"

definition backend_original_storage ::
  "('d, 't, 'p) exec_env \<Rightarrow> h160 \<Rightarrow> hash \<Rightarrow> ('d, 't, 'p) exec_backend \<Rightarrow> exec_error + hash option" where
  "backend_original_storage E address index s =
     res_bind (backend_storage E address index s) (\<lambda>v. Inr (Some v))"

section \<open>Applying the changes of a transaction\<close>

definition unwrap :: "'e + 'a \<Rightarrow> exec_error + 'a" where
  "unwrap r = (case r of Inl _ \<Rightarrow> Inl XePanic | Inr x \<Rightarrow> Inr x)"

text \<open>The state trie with the backend's database: insert and commit, or remove.\<close>

definition trie_insert :: "('d, 't, 'p) exec_env \<Rightarrow> bytes \<Rightarrow> bytes \<Rightarrow> ('d, 't, 'p, unit) exec_op" where
  "trie_insert E key val s =
     (case mpt_insert (xe_trie E) (ax_db s) key val (ax_trie s) of (m, r) \<Rightarrow> (s\<lparr>ax_trie := m\<rparr>, unwrap r))"

definition trie_remove :: "('d, 't, 'p) exec_env \<Rightarrow> bytes \<Rightarrow> ('d, 't, 'p, exec_error + unit) exec_op" where
  "trie_remove E key s =
     (case mpt_remove (xe_trie E) (ax_db s) key (ax_trie s) of (m, r) \<Rightarrow> (s\<lparr>ax_trie := m\<rparr>, Inr r))"

definition trie_commit :: "('d, 't, 'p) exec_env \<Rightarrow> ('d, 't, 'p, unit) exec_op" where
  "trie_commit E s =
     (case mpt_commit (xe_trie E) (ax_db s) (ax_trie s) of
        (db, m, r) \<Rightarrow> (s\<lparr>ax_db := db, ax_trie := m\<rparr>, res_bind (unwrap r) (\<lambda>_. Inr ())))"

definition old_account ::
  "('d, 't, 'p) exec_env \<Rightarrow> h160 \<Rightarrow> ('d, 't, 'p) exec_backend \<Rightarrow> exec_error + account" where
  "old_account E address s =
     (case mpt_get (xe_trie E) (ax_db s) (ax_trie s) (address_key address) of
        Inr (Some raw) \<Rightarrow> unwrap (snd (xe_account E) raw)
      | _ \<Rightarrow> Inr account_default)"

definition storage_trie ::
  "('d, 't, 'p) exec_env \<Rightarrow> 't \<Rightarrow> bool \<Rightarrow> account \<Rightarrow> exec_error + 'p mpt_trie" where
  "storage_trie E db reset_storage old =
     (if (if reset_storage then RLP_NULL else ac_storage_root old) = RLP_NULL then Inr (mpt_new (xe_trie E))
      else unwrap (mpt_from_root (xe_trie E) db (ac_storage_root old)))"

definition storage_inserts ::
  "('d, 't, 'p) exec_env \<Rightarrow> 't \<Rightarrow> (hash \<times> hash) list \<Rightarrow> 'p mpt_trie \<Rightarrow> 'p mpt_trie" where
  "storage_inserts E db storage m =
     foldl (\<lambda>m (k, v). fst (mpt_insert (xe_trie E) db (to_be_bytes 32 k) (to_be_bytes 32 v) m)) m storage"

text \<open>\<open>storage_trie.commit().unwrap_or(RLP_NULL)\<close>\<close>

definition commit_storage ::
  "('d, 't, 'p) exec_env \<Rightarrow> 'p mpt_trie \<Rightarrow> ('d, 't, 'p, hash) exec_op" where
  "commit_storage E m s =
     (case mpt_commit (xe_trie E) (ax_db s) m of
        (db, _, Inr root) \<Rightarrow> (s\<lparr>ax_db := db\<rparr>, Inr root)
      | (db, _, Inl XePanic) \<Rightarrow> (s\<lparr>ax_db := db\<rparr>, Inl XePanic)
      | (db, _, Inl _) \<Rightarrow> (s\<lparr>ax_db := db\<rparr>, Inr RLP_NULL))"

definition store_code ::
  "('d, 't, 'p) exec_env \<Rightarrow> h160 \<Rightarrow> bytes option \<Rightarrow> hash \<Rightarrow> ('d, 't, 'p, hash) exec_op" where
  "store_code E address code old_hash s =
     (case code of
        None \<Rightarrow> (s, Inr old_hash)
      | Some c \<Rightarrow>
          let new_code_hash = hasher_digest (xe_keccak E) c
          in if new_code_hash = old_hash then (s, Inr old_hash)
             else case insert_code (xe_adapter E) (xe_storage E) (ucast address) new_code_hash c (ax_storage s) of
                 (st, r) \<Rightarrow> (s\<lparr>ax_storage := st\<rparr>, res_bind (unwrap r) (\<lambda>_. Inr new_code_hash)))"

definition apply_account ::
  "('d, 't, 'p) exec_env \<Rightarrow> h160 \<Rightarrow> basic \<Rightarrow> bytes option \<Rightarrow> (hash \<times> hash) list \<Rightarrow> bool
   \<Rightarrow> ('d, 't, 'p, bool) exec_op" where
  "apply_account E address b code storage reset_storage =
     st_bind (st_gets (old_account E address)) (\<lambda>r.
     st_bind (st_lift r) (\<lambda>old.
     st_bind (st_gets ax_db) (\<lambda>db.
     st_bind (st_lift (storage_trie E db reset_storage old)) (\<lambda>trie.
     st_bind (commit_storage E (storage_inserts E db storage trie)) (\<lambda>new_storage_root.
     st_bind (store_code E address code (ac_code_hash old)) (\<lambda>code_hash.
       let new_account = \<lparr>ac_nonce = bs_nonce b, ac_balance = bs_balance b,
                          ac_storage_root = new_storage_root, ac_code_hash = code_hash\<rparr>
       in st_seq (trie_insert E (address_key address) (fst (xe_account E) new_account))
          (st_seq (trie_commit E)
             (st_return (ac_balance new_account = 0 \<and> ac_nonce new_account = 0 \<and>
                         ac_code_hash new_account = 0)))))))))"

definition apply_one :: "('d, 't, 'p) exec_env \<Rightarrow> bool \<Rightarrow> evm_apply \<Rightarrow> ('d, 't, 'p, unit) exec_op" where
  "apply_one E delete_empty a =
     (case a of
        ApModify address b code storage reset_storage \<Rightarrow>
          st_bind (apply_account E address b code storage reset_storage) (\<lambda>is_empty.
            st_when (is_empty \<and> delete_empty)
              (st_bind (trie_remove E (address_key address)) (\<lambda>r.
               st_seq (st_lift (unwrap r)) (trie_commit E))))
      | ApDelete address \<Rightarrow> st_bind (trie_remove E (address_key address)) (\<lambda>_. st_return ()))"

definition backend_apply ::
  "('d, 't, 'p) exec_env \<Rightarrow> evm_apply list \<Rightarrow> evm_log list \<Rightarrow> bool \<Rightarrow> ('d, 't, 'p, unit) exec_op" where
  "backend_apply E values logs delete_empty =
     st_seq (st_each (apply_one E delete_empty) values)
       (st_modify (\<lambda>s. s\<lparr>ax_ctx := (ax_ctx s)\<lparr>ec_logs := logs\<rparr>\<rparr>))"

section \<open>The native-token script\<close>

definition NATIVE_TOKEN_ISSUE_ADDRESS :: h160 where
  "NATIVE_TOKEN_ISSUE_ADDRESS = - 1"

definition is_call_system_script :: "transaction_action \<Rightarrow> bool" where
  "is_call_system_script action =
     (case action of Call addr \<Rightarrow> addr = NATIVE_TOKEN_ISSUE_ADDRESS | Create \<Rightarrow> False)"

definition u256_as_u64 :: "u256 \<Rightarrow> exec_error + u64" where
  "u256_as_u64 x = (if unat x < 2 ^ 64 then Inr (ucast x) else Inl XePanic)"

definition revert_resp :: "u256 \<Rightarrow> exec_error + tx_resp" where
  "revert_resp gas_limit =
     res_bind (ok_or XePanic (checked_sub gas_limit 1)) (\<lambda>rest.
     res_bind (u256_as_u64 rest) (\<lambda>remain.
       Inr \<lparr>tr_exit_reason = Revert Reverted, tr_ret = [], tr_gas_used = 1, tr_remain_gas = remain,
            tr_logs = [], tr_code_address = None\<rparr>))"

definition token_balance :: "bool \<Rightarrow> basic \<Rightarrow> u256 \<Rightarrow> u256 option" where
  "token_balance direction account value =
     (if direction then checked_add (bs_balance account) value else checked_sub (bs_balance account) value)"

definition token_apply ::
  "('d, 't, 'p) exec_env \<Rightarrow> transaction \<Rightarrow> h160 \<Rightarrow> basic \<Rightarrow> bool \<Rightarrow> ('d, 't, 'p, tx_resp) exec_op" where
  "token_apply E tx l2_addr account direction =
     st_bind (st_lift (ok_or XePanic (token_balance direction account (tx_value tx)))) (\<lambda>balance.
     st_bind (st_lift (ok_or XePanic (checked_add (bs_nonce account) 1))) (\<lambda>nonce.
     st_seq (backend_apply E
               [ApModify l2_addr \<lparr>bs_balance = balance, bs_nonce = nonce\<rparr> None [] False] [] False)
     (st_bind (st_lift (u256_as_u64 (tx_gas_limit tx))) (\<lambda>remain.
        st_return \<lparr>tr_exit_reason = Succeed Returned,
           tr_ret = rl_out (xe_rlp E) (fst (rl_u256 (xe_rlp E)) balance),
           tr_gas_used = 0, tr_remain_gas = remain, tr_logs = [], tr_code_address = None\<rparr>))))"

definition call_native_token :: "('d, 't, 'p) exec_env \<Rightarrow> signed_transaction \<Rightarrow> ('d, 't, 'p, tx_resp) exec_op" where
  "call_native_token E stx =
     (let tx = stx_unsigned stx
      in if length (tx_data tx) < 21 \<or> 1 < tx_data tx ! 0 then st_lift (revert_resp (tx_gas_limit tx))
         else
           let direction = tx_data tx ! 0 = 0;
               l2_addr = from_be_bytes (take 20 (drop 1 (tx_data tx)))
           in st_bind (st_gets (backend_basic E l2_addr)) (\<lambda>account.
                if \<not> direction \<and> bs_balance account < tx_value tx then st_lift (revert_resp (tx_gas_limit tx))
                else token_apply E tx l2_addr account direction))"

definition sys_inner_exec :: "('d, 't, 'p) exec_env \<Rightarrow> signed_transaction \<Rightarrow> ('d, 't, 'p, tx_resp) exec_op" where
  "sys_inner_exec E stx =
     (case tx_action (stx_unsigned stx) of
        Call _ \<Rightarrow> call_native_token E stx
      | Create \<Rightarrow> st_throw XePanic)"

section \<open>The EVM runner\<close>

definition code_address :: "('d, 't, 'p) exec_env \<Rightarrow> h160 \<Rightarrow> u256 \<Rightarrow> hash" where
  "code_address E sender nonce =
     hasher_digest (xe_keccak E)
       (rl_out (xe_rlp E) (RList [fst (rl_h160 (xe_rlp E)) sender, fst (rl_u256 (xe_rlp E)) nonce]))"

definition evm_request :: "signed_transaction \<Rightarrow> exec_error + evm_tx" where
  "evm_request stx =
     (let tx = stx_unsigned stx;
          access_list = map (\<lambda>x. (ali_address x, ali_storage_keys x)) (tx_access_list tx)
      in res_bind (u256_as_u64 (tx_gas_limit tx)) (\<lambda>gas_limit.
           case tx_action tx of
             Call addr \<Rightarrow> Inr (EvmCall (stx_sender stx) addr (tx_value tx) (tx_data tx) gas_limit access_list)
           | Create \<Rightarrow> Inr (EvmCreate (stx_sender stx) (tx_value tx) (tx_data tx) gas_limit access_list)))"

definition evm_inner_exec :: "('d, 't, 'p) exec_env \<Rightarrow> signed_transaction \<Rightarrow> ('d, 't, 'p, tx_resp) exec_op" where
  "evm_inner_exec E stx =
     st_bind (st_gets (\<lambda>s. bs_nonce (backend_basic E (stx_sender stx) s))) (\<lambda>old_nonce.
     st_bind (st_lift (evm_request stx)) (\<lambda>req.
     st_bind (xe_evm E (build_precompile_set (xe_crypto E)) req) (\<lambda>out.
     st_bind
       (if is_succeed (eo_exit_reason out)
        then st_seq (backend_apply E (eo_values out) (eo_logs out) True)
               (st_return (if tx_action (stx_unsigned stx) = Create
                           then Some (code_address E (stx_sender stx) old_nonce) else None))
        else st_return None)
       (\<lambda>address.
          st_return \<lparr>tr_exit_reason = eo_exit_reason out, tr_ret = eo_ret out,
                     tr_gas_used = eo_used_gas out, tr_remain_gas = eo_gas out,
                     tr_logs = [], tr_code_address = address\<rparr>))))"

section \<open>The block executor\<close>

definition evm_call ::
  "('d, 't, 'p) exec_env \<Rightarrow> h160 option \<Rightarrow> h160 option \<Rightarrow> bytes \<Rightarrow> ('d, 't, 'p, tx_resp) exec_op" where
  "evm_call E from to data =
     (let caller = (case from of Some a \<Rightarrow> a | None \<Rightarrow> 0)
      in st_bind
           (xe_evm E Map.empty
              (case to of
                 Some addr \<Rightarrow> EvmCall caller addr 0 data (- 1) []
               | None \<Rightarrow> EvmCreate caller 0 data (- 1) []))
           (\<lambda>out. st_return
              \<lparr>tr_exit_reason = eo_exit_reason out, tr_ret = eo_ret out,
               tr_gas_used = eo_used_gas out, tr_remain_gas = eo_gas out, tr_logs = [],
               tr_code_address = (if to = None then Some (ucast (eo_create_address out)) else None)\<rparr>))"

definition exec_one :: "('d, 't, 'p) exec_env \<Rightarrow> signed_transaction \<Rightarrow> ('d, 't, 'p, tx_resp) exec_op" where
  "exec_one E tx =
     st_seq (st_modify (set_gas_price (tx_gas_price (stx_unsigned tx))))
     (st_bind (if is_call_system_script (tx_action (stx_unsigned tx))
               then sys_inner_exec E tx else evm_inner_exec E tx) (\<lambda>r.
      st_bind get_logs (\<lambda>logs. st_return (r\<lparr>tr_logs := logs\<rparr>))))"

fun exec_loop ::
  "('d, 't, 'p) exec_env \<Rightarrow> u64 \<Rightarrow> signed_transaction list \<Rightarrow> ('d, 't, 'p, u64 \<times> tx_resp list) exec_op" where
  "exec_loop E gas_use [] = st_return (gas_use, [])"
| "exec_loop E gas_use (tx # txs) =
     st_bind (exec_one E tx) (\<lambda>r.
     st_bind (st_lift (ok_or XePanic (checked_add gas_use (tr_gas_used r)))) (\<lambda>gas_use.
     st_bind (exec_loop E gas_use txs) (\<lambda>(gas_use, rs). st_return (gas_use, r # rs))))"

definition exec_block ::
  "('d, 't, 'p) exec_env \<Rightarrow> signed_transaction list \<Rightarrow> ('d, 't, 'p, exec_resp) exec_op" where
  "exec_block E txs =
     st_bind (exec_loop E 0 txs) (\<lambda>(gas_use, rs).
     st_bind (st_gets state_root) (\<lambda>root.
       st_return
         \<lparr>er_state_root = root,
          er_receipt_root = root_or_default (xe_keccak E) (xe_tree_root E)
             (map (\<lambda>r. hasher_digest (xe_keccak E) (tr_ret r)) rs),
          er_gas_used = gas_use, er_tx_resp = rs\<rparr>))"

definition exec_get_account ::
  "('d, 't, 'p) exec_env \<Rightarrow> h160 \<Rightarrow> ('d, 't, 'p) exec_backend \<Rightarrow> exec_error + account" where
  "exec_get_account E address s =
     (case backend_get E (address_key address) s of
        Some raw \<Rightarrow> unwrap (snd (xe_account E) raw)
      | None \<Rightarrow> Inr account_default)"

section \<open>What the trie library promises\<close>

text \<open>
  \<open>ok db p\<close>: the nodes that the handle \<open>p\<close> refers to are in the database; \<open>tv db p\<close> is the
  map it stands for. Growing the database keeps every handle and every root that
  could be opened.
\<close>

definition extends ::
  "('t, 'p) trie_lib \<Rightarrow> ('t \<Rightarrow> 'p \<Rightarrow> bool) \<Rightarrow> ('t \<Rightarrow> 'p \<Rightarrow> bytes \<rightharpoonup> bytes) \<Rightarrow> 't \<Rightarrow> 't \<Rightarrow> bool" where
  "extends T ok tv db db' \<longleftrightarrow>
     (\<forall>q. ok db q \<longrightarrow> ok db' q \<and> tv db' q = tv db q) \<and>
     (\<forall>r q. tl_from T db r = Inr q \<longrightarrow> (\<exists>q'. tl_from T db' r = Inr q' \<and> tv db' q' = tv db q))"

definition reopens ::
  "('t, 'p) trie_lib \<Rightarrow> ('t \<Rightarrow> 'p \<Rightarrow> bytes \<rightharpoonup> bytes) \<Rightarrow> 't \<Rightarrow> bytes \<Rightarrow> (bytes \<rightharpoonup> bytes) \<Rightarrow> bool" where
  "reopens T tv db r m \<longleftrightarrow>
     (\<exists>q. tl_from T db r = Inr q \<and> tv db q = m) \<and> (r = to_be_bytes 32 RLP_NULL \<longrightarrow> m = Map.empty)"

definition trie_lib_ok ::
  "('t, 'p) trie_lib \<Rightarrow> ('t \<Rightarrow> 'p \<Rightarrow> bool) \<Rightarrow> ('t \<Rightarrow> 'p \<Rightarrow> bytes \<rightharpoonup> bytes) \<Rightarrow> bool" where
  "trie_lib_ok T ok tv \<longleftrightarrow>
     (\<forall>db. ok db (tl_new T) \<and> tv db (tl_new T) = Map.empty) \<and>
     (\<forall>db r q. tl_from T db r = Inr q \<longrightarrow> ok db q) \<and>
     (\<forall>db p k. ok db p \<longrightarrow> tl_get T db p k = Inr (tv db p k)) \<and>
     (\<forall>db p k v. ok db p \<longrightarrow>
        (\<exists>p'. tl_insert T db p k v = (p', Inr ()) \<and> ok db p' \<and> tv db p' = (tv db p)(k \<mapsto> v))) \<and>
     (\<forall>db p k. ok db p \<longrightarrow>
        (\<exists>p'. tl_remove T db p k = (p', Inr (tv db p k \<noteq> None)) \<and> ok db p' \<and> tv db p' = (tv db p)(k := None))) \<and>
     (\<forall>db p db' p' r. ok db p \<and> tl_root T db p = (db', p', Inr r) \<longrightarrow>
        length r = 32 \<and> ok db' p' \<and> tv db' p' = tv db p \<and> extends T ok tv db db' \<and> reopens T tv db' r (tv db p))"

text \<open>The library commits without an input-output error.\<close>

definition commits :: "('t, 'p) trie_lib \<Rightarrow> ('t \<Rightarrow> 'p \<Rightarrow> bool) \<Rightarrow> 't \<Rightarrow> bool" where
  "commits T ok db \<longleftrightarrow> (\<forall>p. ok db p \<longrightarrow> (\<exists>db' p' r. tl_root T db p = (db', p', Inr r)))"

definition trie_content ::
  "('t \<Rightarrow> 'p \<Rightarrow> bytes \<rightharpoonup> bytes) \<Rightarrow> ('d, 't, 'p) exec_backend \<Rightarrow> bytes \<rightharpoonup> bytes" where
  "trie_content tv s = tv (ax_db s) (mt_trie (ax_trie s))"

definition accounts ::
  "('d, 't, 'p) exec_env \<Rightarrow> ('t \<Rightarrow> 'p \<Rightarrow> bytes \<rightharpoonup> bytes) \<Rightarrow> ('d, 't, 'p) exec_backend \<Rightarrow> h160 \<rightharpoonup> account" where
  "accounts E tv s a =
     (case trie_content tv s (address_key a) of
        None \<Rightarrow> None
      | Some raw \<Rightarrow> (case snd (xe_account E) raw of Inl _ \<Rightarrow> None | Inr account \<Rightarrow> Some account))"

definition root_view ::
  "('t, 'p) trie_lib \<Rightarrow> ('t \<Rightarrow> 'p \<Rightarrow> bytes \<rightharpoonup> bytes) \<Rightarrow> 't \<Rightarrow> hash \<Rightarrow> bytes \<rightharpoonup> bytes" where
  "root_view T tv db root =
     (if root = RLP_NULL then Map.empty
      else case tl_from T db (to_be_bytes 32 root) of Inl _ \<Rightarrow> Map.empty | Inr q \<Rightarrow> tv db q)"

definition account_or_default :: "(h160 \<rightharpoonup> account) \<Rightarrow> h160 \<Rightarrow> account" where
  "account_or_default m a = (case m a of None \<Rightarrow> account_default | Some account \<Rightarrow> account)"

definition storage_view ::
  "('d, 't, 'p) exec_env \<Rightarrow> ('t \<Rightarrow> 'p \<Rightarrow> bytes \<rightharpoonup> bytes) \<Rightarrow> ('d, 't, 'p) exec_backend \<Rightarrow> h160
   \<Rightarrow> bytes \<rightharpoonup> bytes" where
  "storage_view E tv s a =
     root_view (xe_trie E) tv (ax_db s) (ac_storage_root (account_or_default (accounts E tv s) a))"

definition backend_ok ::
  "('d, 't, 'p) exec_env \<Rightarrow> ('t \<Rightarrow> 'p \<Rightarrow> bool) \<Rightarrow> ('t \<Rightarrow> 'p \<Rightarrow> bytes \<rightharpoonup> bytes) \<Rightarrow> ('d, 't, 'p) exec_backend
   \<Rightarrow> bool" where
  "backend_ok E ok tv s \<longleftrightarrow>
     ok (ax_db s) (mt_trie (ax_trie s)) \<and>
     (\<forall>a raw. trie_content tv s (address_key a) = Some raw \<longrightarrow> is_ok (snd (xe_account E) raw)) \<and>
     (\<forall>a account. accounts E tv s a = Some account \<and> ac_storage_root account \<noteq> RLP_NULL \<longrightarrow>
        is_ok (tl_from (xe_trie E) (ax_db s) (to_be_bytes 32 (ac_storage_root account))))"

definition account_rt :: "('d, 't, 'p) exec_env \<Rightarrow> bool" where
  "account_rt E \<longleftrightarrow> (\<forall>a. snd (xe_account E) (fst (xe_account E) a) = Inr a)"

lemma address_key_inject [simp]: "address_key a = address_key b \<longleftrightarrow> a = b"
proof
  assume "address_key a = address_key b"
  then have "from_be_bytes (address_key a) = (from_be_bytes (address_key b) :: h160)" by simp
  then show "a = b" unfolding address_key_def by (simp add: be_bytes_roundtrip)
qed simp

lemma root_bytes: "length r = 32 \<Longrightarrow> to_be_bytes 32 (from_be_bytes r :: hash) = r"
  by (rule be_bytes_roundtrip_bytes) simp_all

section \<open>The wrapper and the backend over a correct library\<close>

lemma trie_lib_okD:
  assumes "trie_lib_ok T ok tv"
  shows "ok db (tl_new T)" and "tv db (tl_new T) = Map.empty"
    and "tl_from T db r = Inr q \<Longrightarrow> ok db q"
    and "ok db p \<Longrightarrow> tl_get T db p k = Inr (tv db p k)"
    and "ok db p \<Longrightarrow> \<exists>p'. tl_insert T db p k v = (p', Inr ()) \<and> ok db p' \<and> tv db p' = (tv db p)(k \<mapsto> v)"
    and "ok db p \<Longrightarrow> \<exists>p'. tl_remove T db p k = (p', Inr (tv db p k \<noteq> None)) \<and> ok db p' \<and>
           tv db p' = (tv db p)(k := None)"
    and "ok db p \<Longrightarrow> tl_root T db p = (db', p', Inr root) \<Longrightarrow>
           length root = 32 \<and> ok db' p' \<and> tv db' p' = tv db p \<and> extends T ok tv db db' \<and>
           reopens T tv db' root (tv db p)"
  using assms unfolding trie_lib_ok_def by (elim conjE, simp)+

lemma mpt_get_ok:
  "trie_lib_ok T ok tv \<Longrightarrow> ok db (mt_trie m) \<Longrightarrow> mpt_get T db m k = Inr (tv db (mt_trie m) k)"
  by (simp add: mpt_get_def trie_lib_okD(4))

lemma mpt_insert_ok:
  assumes "trie_lib_ok T ok tv" and "ok db (mt_trie m)"
  obtains p where "mpt_insert T db k v m = (m\<lparr>mt_trie := p\<rparr>, Inr ())" and "ok db p"
    and "tv db p = (tv db (mt_trie m))(k \<mapsto> v)"
proof -
  obtain p where "tl_insert T db (mt_trie m) k v = (p, Inr ())" and "ok db p"
    and "tv db p = (tv db (mt_trie m))(k \<mapsto> v)"
    using trie_lib_okD(5) [OF assms] by blast
  then show thesis using that by (simp add: mpt_insert_def)
qed

lemma mpt_remove_ok:
  assumes "trie_lib_ok T ok tv" and "ok db (mt_trie m)"
  obtains p where "fst (mpt_remove T db k m) = m\<lparr>mt_trie := p\<rparr>" and "ok db p"
    and "tv db p = (tv db (mt_trie m))(k := None)"
proof -
  obtain p where "tl_remove T db (mt_trie m) k = (p, Inr (tv db (mt_trie m) k \<noteq> None))" and "ok db p"
    and "tv db p = (tv db (mt_trie m))(k := None)"
    using trie_lib_okD(6) [OF assms] by blast
  then show thesis using that by (simp add: mpt_remove_def)
qed

lemma mpt_commit_ok:
  assumes "trie_lib_ok T ok tv" and "ok db (mt_trie m)" and "mpt_commit T db m = (db', m', Inr root)"
  shows "mt_root m' = root" and "ok db' (mt_trie m')" and "tv db' (mt_trie m') = tv db (mt_trie m)"
    and "extends T ok tv db db'" and "reopens T tv db' (to_be_bytes 32 root) (tv db (mt_trie m))"
proof -
  obtain db1 p r0 where run: "tl_root T db (mt_trie m) = (db1, p, r0)" by (cases "tl_root T db (mt_trie m)")
  with assms(3) obtain r where r0: "r0 = Inr r" by (cases r0) (simp_all add: mpt_commit_def)
  have r: "root = from_be_bytes r" "length r = 32" and m': "m' = \<lparr>mt_root = root, mt_trie = p\<rparr>"
    and db1: "db1 = db'"
    using assms(3) run r0 by (auto simp: mpt_commit_def Let_def split: if_splits)
  have root: "tl_root T db (mt_trie m) = (db', p, Inr r)" using run r0 db1 by simp
  note law = trie_lib_okD(7) [OF assms(1,2) root]
  from law show "mt_root m' = root" "ok db' (mt_trie m')" "tv db' (mt_trie m') = tv db (mt_trie m)"
    "extends T ok tv db db'" "reopens T tv db' (to_be_bytes 32 root) (tv db (mt_trie m))"
    using m' r by (simp_all add: root_bytes)
qed

lemma mpt_commit_total:
  assumes "trie_lib_ok T ok tv" and "ok db (mt_trie m)" and "commits T ok db"
  obtains db' m' root where "mpt_commit T db m = (db', m', Inr root)"
proof -
  obtain db' p r where root: "tl_root T db (mt_trie m) = (db', p, Inr r)"
    using assms(2,3) by (auto simp: commits_def)
  moreover have "length r = 32" using trie_lib_okD(7) [OF assms(1,2) root] by simp
  ultimately show thesis using that by (simp add: mpt_commit_def Let_def)
qed

lemma root_view_reopens: "reopens T tv db (to_be_bytes 32 root) m \<Longrightarrow> root_view T tv db root = m"
  by (auto simp: reopens_def root_view_def)

lemma root_view_extends:
  assumes "extends T ok tv db db'" and "root \<noteq> RLP_NULL \<Longrightarrow> is_ok (tl_from T db (to_be_bytes 32 root))"
  shows "root_view T tv db' root = root_view T tv db root"
    and "root \<noteq> RLP_NULL \<Longrightarrow> is_ok (tl_from T db' (to_be_bytes 32 root))"
proof -
  have "\<exists>q q'. tl_from T db (to_be_bytes 32 root) = Inr q \<and> tl_from T db' (to_be_bytes 32 root) = Inr q' \<and> tv db' q' = tv db q"
    if "root \<noteq> RLP_NULL"
    using assms that by (cases "tl_from T db (to_be_bytes 32 root)") (auto simp: extends_def)
  then show "root_view T tv db' root = root_view T tv db root"
    "root \<noteq> RLP_NULL \<Longrightarrow> is_ok (tl_from T db' (to_be_bytes 32 root))"
    by (auto simp: root_view_def)
qed

lemma extends_trans: "extends T ok tv a b \<Longrightarrow> extends T ok tv b c \<Longrightarrow> extends T ok tv a c"
  unfolding extends_def by metis

lemma old_account_ok:
  assumes "trie_lib_ok (xe_trie E) ok tv" and "backend_ok E ok tv s"
  shows "old_account E a s = Inr (account_or_default (accounts E tv s) a)"
proof (cases "trie_content tv s (address_key a)")
  case None
  then show ?thesis
    using assms by (simp add: old_account_def mpt_get_ok backend_ok_def accounts_def account_or_default_def trie_content_def)
next
  case (Some raw)
  then have "is_ok (snd (xe_account E) raw)" using assms(2) unfolding backend_ok_def by blast
  then obtain account where "snd (xe_account E) raw = Inr account"
    by (cases "snd (xe_account E) raw") simp_all
  then show ?thesis
    using assms Some
    by (simp add: old_account_def mpt_get_ok backend_ok_def accounts_def account_or_default_def trie_content_def unwrap_def)
qed

lemma storage_trie_ok:
  assumes "trie_lib_ok (xe_trie E) ok tv" and "backend_ok E ok tv s"
  obtains m where
    "storage_trie E (ax_db s) reset (account_or_default (accounts E tv s) a) = Inr m" and "ok (ax_db s) (mt_trie m)"
    and "tv (ax_db s) (mt_trie m) = (if reset then Map.empty else storage_view E tv s a)"
proof -
  define old where "old = account_or_default (accounts E tv s) a"
  show thesis
  proof (cases "reset \<or> ac_storage_root old = RLP_NULL")
    case True
    then have "storage_trie E (ax_db s) reset old = Inr (mpt_new (xe_trie E))" by (auto simp: storage_trie_def)
    moreover have "ok (ax_db s) (mt_trie (mpt_new (xe_trie E)))"
      "tv (ax_db s) (mt_trie (mpt_new (xe_trie E))) = Map.empty"
      using trie_lib_okD(1,2) [OF assms(1)] by (simp_all add: mpt_new_def)
    ultimately show thesis
      using that [of "mpt_new (xe_trie E)"] True by (auto simp: storage_view_def root_view_def simp flip: old_def)
  next
    case False
    then have "accounts E tv s a = Some old"
      by (cases "accounts E tv s a") (simp_all add: old_def account_or_default_def account_default_def)
    then have "is_ok (tl_from (xe_trie E) (ax_db s) (to_be_bytes 32 (ac_storage_root old)))"
      using assms(2) False unfolding backend_ok_def by blast
    then obtain q where q: "tl_from (xe_trie E) (ax_db s) (to_be_bytes 32 (ac_storage_root old)) = Inr q"
      by (cases "tl_from (xe_trie E) (ax_db s) (to_be_bytes 32 (ac_storage_root old))") simp_all
    then have "ok (ax_db s) q" by (rule trie_lib_okD(3) [OF assms(1)])
    then show thesis
      using that [of "\<lparr>mt_root = ac_storage_root old, mt_trie = q\<rparr>"] q False
      by (simp add: storage_trie_def mpt_from_root_def unwrap_def storage_view_def root_view_def flip: old_def)
  qed
qed

definition write_slot :: "(bytes \<rightharpoonup> bytes) \<Rightarrow> hash \<times> hash \<Rightarrow> (bytes \<rightharpoonup> bytes)" where
  "write_slot m kv = m(to_be_bytes 32 (fst kv) \<mapsto> to_be_bytes 32 (snd kv))"

definition write_slots :: "(hash \<times> hash) list \<Rightarrow> (bytes \<rightharpoonup> bytes) \<Rightarrow> (bytes \<rightharpoonup> bytes)" where
  "write_slots storage m = foldl write_slot m storage"

lemma storage_inserts_ok:
  assumes "trie_lib_ok (xe_trie E) ok tv" and "ok db (mt_trie m)"
  shows "ok db (mt_trie (storage_inserts E db storage m)) \<and>
         tv db (mt_trie (storage_inserts E db storage m)) = write_slots storage (tv db (mt_trie m))"
  using assms(2)
proof (induction storage arbitrary: m)
  case Nil
  then show ?case by (simp add: storage_inserts_def write_slots_def)
next
  case (Cons kv storage)
  obtain p where p: "mpt_insert (xe_trie E) db (to_be_bytes 32 (fst kv)) (to_be_bytes 32 (snd kv)) m =
      (m\<lparr>mt_trie := p\<rparr>, Inr ())" "ok db p"
    "tv db p = write_slot (tv db (mt_trie m)) kv"
    unfolding write_slot_def by (rule mpt_insert_ok [OF assms(1) Cons.prems])
  have step: "storage_inserts E db (kv # storage) m = storage_inserts E db storage (m\<lparr>mt_trie := p\<rparr>)"
    using p(1) by (cases kv) (simp add: storage_inserts_def)
  show ?case
    using Cons.IH [of "m\<lparr>mt_trie := p\<rparr>"] p unfolding step by (simp add: write_slots_def)
qed


lemma store_code_frame:
  assumes "store_code E a code h s = (s', Inr ch)"
  shows "\<exists>st. s' = s\<lparr>ax_storage := st\<rparr>"
    and "ch = (case code of None \<Rightarrow> h | Some c \<Rightarrow> hasher_digest (xe_keccak E) c)"
proof -
  have "(\<exists>st. s' = s\<lparr>ax_storage := st\<rparr>) \<and> ch = (case code of None \<Rightarrow> h | Some c \<Rightarrow> hasher_digest (xe_keccak E) c)"
  proof (cases code)
    case None
    then show ?thesis using assms by (auto simp: store_code_def intro: exI [of _ "ax_storage s"])
  next
    case (Some c)
    then show ?thesis
      using assms
      by (auto simp: store_code_def Let_def res_bind_eq_Inr intro: exI [of _ "ax_storage s"]
          split: if_splits prod.splits)
  qed
  then show "\<exists>st. s' = s\<lparr>ax_storage := st\<rparr>"
    "ch = (case code of None \<Rightarrow> h | Some c \<Rightarrow> hasher_digest (xe_keccak E) c)" by blast+
qed

lemma put_account_ok:
  assumes "trie_lib_ok (xe_trie E) ok tv" and "ok (ax_db s) (mt_trie (ax_trie s))"
    and "st_seq (trie_insert E k v) (st_seq (trie_commit E) (st_return x)) s = (s', Inr y)"
  shows "y = x" and "ok (ax_db s') (mt_trie (ax_trie s'))" and "trie_content tv s' = (trie_content tv s)(k \<mapsto> v)"
    and "extends (xe_trie E) ok tv (ax_db s) (ax_db s')"
    and "reopens (xe_trie E) tv (ax_db s') (to_be_bytes 32 (state_root s')) (trie_content tv s')"
proof -
  obtain p where p: "mpt_insert (xe_trie E) (ax_db s) k v (ax_trie s) = ((ax_trie s)\<lparr>mt_trie := p\<rparr>, Inr ())"
    "ok (ax_db s) p" "tv (ax_db s) p = (tv (ax_db s) (mt_trie (ax_trie s)))(k \<mapsto> v)"
    by (rule mpt_insert_ok [OF assms(1,2)])
  define m where "m = (ax_trie s)\<lparr>mt_trie := p\<rparr>"
  obtain db' m' r where cm: "mpt_commit (xe_trie E) (ax_db s) m = (db', m', r)"
    by (cases "mpt_commit (xe_trie E) (ax_db s) m")
  have "trie_insert E k v s = (s\<lparr>ax_trie := m\<rparr>, Inr ())"
    using p(1) by (simp add: trie_insert_def unwrap_def m_def)
  then have "st_seq (trie_commit E) (st_return x) (s\<lparr>ax_trie := m\<rparr>) = (s', Inr y)"
    using assms(3) by (simp add: st_seq_apply [of "trie_insert E k v"])
  then obtain root where r: "r = Inr root" and s': "s' = s\<lparr>ax_db := db', ax_trie := m'\<rparr>" and y: "y = x"
    using cm by (cases r) (auto simp: st_seq_apply trie_commit_def unwrap_def)
  have okm: "ok (ax_db s) (mt_trie m)" using p(2) by (simp add: m_def)
  note law = mpt_commit_ok [OF assms(1) okm cm [unfolded r]]
  show "y = x" by (rule y)
  show "ok (ax_db s') (mt_trie (ax_trie s'))" using law(2) s' by simp
  show content: "trie_content tv s' = (trie_content tv s)(k \<mapsto> v)"
    using law(3) p(3) s' by (simp add: trie_content_def m_def del: fun_upd_apply)
  show "extends (xe_trie E) ok tv (ax_db s) (ax_db s')" using law(4) s' by simp
  have "state_root s' = root" using law(1) s' by (simp add: state_root_def)
  moreover have "tv (ax_db s) (mt_trie m) = trie_content tv s'"
    using law(3) s' by (simp add: trie_content_def)
  ultimately show "reopens (xe_trie E) tv (ax_db s') (to_be_bytes 32 (state_root s')) (trie_content tv s')"
    using law(5) s' by simp
qed

lemma accounts_upd:
  assumes "account_rt E" and "trie_content tv s' = (trie_content tv s)(address_key a \<mapsto> fst (xe_account E) acc)"
  shows "accounts E tv s' = (accounts E tv s)(a \<mapsto> acc)"
  using assms by (intro ext) (simp add: accounts_def account_rt_def)

lemma backend_ok_upd:
  assumes "account_rt E" and "backend_ok E ok tv s"
    and "ok (ax_db s') (mt_trie (ax_trie s'))"
    and content: "trie_content tv s' = (trie_content tv s)(address_key a \<mapsto> fst (xe_account E) acc)"
    and ext: "extends (xe_trie E) ok tv (ax_db s) (ax_db s')"
    and new: "ac_storage_root acc \<noteq> RLP_NULL \<Longrightarrow>
      is_ok (tl_from (xe_trie E) (ax_db s') (to_be_bytes 32 (ac_storage_root acc)))"
  shows "backend_ok E ok tv s'" and "\<forall>b. b \<noteq> a \<longrightarrow> storage_view E tv s' b = storage_view E tv s b"
proof -
  have acc: "accounts E tv s' = (accounts E tv s)(a \<mapsto> acc)" by (rule accounts_upd [OF assms(1) content])
  have old: "is_ok (tl_from (xe_trie E) (ax_db s) (to_be_bytes 32 (ac_storage_root x)))"
    if "accounts E tv s b = Some x" "ac_storage_root x \<noteq> RLP_NULL" for b x
    using assms(2) that unfolding backend_ok_def by blast
  have "is_ok (snd (xe_account E) raw)" if "trie_content tv s' (address_key b) = Some raw" for b raw
    using that assms(1,2) unfolding backend_ok_def content account_rt_def by (auto split: if_splits)
  moreover have "is_ok (tl_from (xe_trie E) (ax_db s') (to_be_bytes 32 (ac_storage_root x)))"
    if "accounts E tv s' b = Some x" "ac_storage_root x \<noteq> RLP_NULL" for b x
    using that new old root_view_extends(2) [OF ext] unfolding acc by (auto split: if_splits)
  ultimately show "backend_ok E ok tv s'" using assms(3) unfolding backend_ok_def by blast
  have "storage_view E tv s' b = storage_view E tv s b" if "b \<noteq> a" for b
  proof -
    have same: "account_or_default (accounts E tv s') b = account_or_default (accounts E tv s) b"
      using that by (simp add: acc account_or_default_def)
    have "is_ok (tl_from (xe_trie E) (ax_db s)
        (to_be_bytes 32 (ac_storage_root (account_or_default (accounts E tv s) b))))"
      if "ac_storage_root (account_or_default (accounts E tv s) b) \<noteq> RLP_NULL"
      using that old [of b] by (cases "accounts E tv s b") (auto simp: account_or_default_def account_default_def)
    then show ?thesis unfolding storage_view_def same by (rule root_view_extends(1) [OF ext])
  qed
  then show "\<forall>b. b \<noteq> a \<longrightarrow> storage_view E tv s' b = storage_view E tv s b" by blast
qed

definition code_hash_after :: "('d, 't, 'p) exec_env \<Rightarrow> bytes option \<Rightarrow> account \<Rightarrow> hash" where
  "code_hash_after E code old =
     (case code of None \<Rightarrow> ac_code_hash old | Some c \<Rightarrow> hasher_digest (xe_keccak E) c)"

definition account_updated ::
  "('d, 't, 'p) exec_env \<Rightarrow> ('t \<Rightarrow> 'p \<Rightarrow> bool) \<Rightarrow> ('t \<Rightarrow> 'p \<Rightarrow> bytes \<rightharpoonup> bytes) \<Rightarrow> h160 \<Rightarrow> basic
   \<Rightarrow> bytes option \<Rightarrow> (hash \<times> hash) list \<Rightarrow> bool \<Rightarrow> ('d, 't, 'p) exec_backend \<Rightarrow> ('d, 't, 'p) exec_backend \<Rightarrow> bool" where
  "account_updated E ok tv a b code storage reset s s' \<longleftrightarrow>
     backend_ok E ok tv s' \<and>
     (\<exists>root. accounts E tv s' = (accounts E tv s)(a \<mapsto>
         \<lparr>ac_nonce = bs_nonce b, ac_balance = bs_balance b, ac_storage_root = root,
          ac_code_hash = code_hash_after E code (account_or_default (accounts E tv s) a)\<rparr>)) \<and>
     storage_view E tv s' a = write_slots storage (if reset then Map.empty else storage_view E tv s a) \<and>
     (\<forall>x. x \<noteq> a \<longrightarrow> storage_view E tv s' x = storage_view E tv s x) \<and>
     reopens (xe_trie E) tv (ax_db s') (to_be_bytes 32 (state_root s')) (trie_content tv s')"

lemma apply_account_spec:
  assumes T: "trie_lib_ok (xe_trie E) ok tv" and rt: "account_rt E" and inv: "backend_ok E ok tv s"
    and c: "commits (xe_trie E) ok (ax_db s)"
    and run: "apply_account E a b code storage reset s = (s', Inr e)"
  shows "account_updated E ok tv a b code storage reset s s'"
    and "e \<longleftrightarrow> bs_balance b = 0 \<and> bs_nonce b = 0 \<and>
               code_hash_after E code (account_or_default (accounts E tv s) a) = 0"
proof -
  define old where "old = account_or_default (accounts E tv s) a"
  obtain m where m: "storage_trie E (ax_db s) reset old = Inr m" "ok (ax_db s) (mt_trie m)"
    "tv (ax_db s) (mt_trie m) = (if reset then Map.empty else storage_view E tv s a)"
    unfolding old_def by (rule storage_trie_ok [OF T inv])
  define m1 where "m1 = storage_inserts E (ax_db s) storage m"
  have m1: "ok (ax_db s) (mt_trie m1)"
    "tv (ax_db s) (mt_trie m1) = write_slots storage (if reset then Map.empty else storage_view E tv s a)"
    using storage_inserts_ok [OF T m(2)] m(3) unfolding m1_def by simp_all
  obtain db1 m2 root where cm: "mpt_commit (xe_trie E) (ax_db s) m1 = (db1, m2, Inr root)"
    by (rule mpt_commit_total [OF T m1(1) c])
  note law = mpt_commit_ok [OF T m1(1) cm]
  have step: "commit_storage E m1 s = (s\<lparr>ax_db := db1\<rparr>, Inr root)" using cm by (simp add: commit_storage_def)
  obtain s2 ch where sc: "store_code E a code (ac_code_hash old) (s\<lparr>ax_db := db1\<rparr>) = (s2, Inr ch)"
    and put: "st_seq (trie_insert E (address_key a) (fst (xe_account E)
         \<lparr>ac_nonce = bs_nonce b, ac_balance = bs_balance b, ac_storage_root = root, ac_code_hash = ch\<rparr>))
       (st_seq (trie_commit E) (st_return (bs_balance b = 0 \<and> bs_nonce b = 0 \<and> ch = 0))) s2 = (s', Inr e)"
    using run old_account_ok [OF T inv, of a] m(1) step
    by (auto simp: apply_account_def st_bind_apply Let_def m1_def simp flip: old_def split: prod.splits sum.splits)
  obtain st where s2: "s2 = s\<lparr>ax_db := db1, ax_storage := st\<rparr>" using store_code_frame(1) [OF sc] by auto
  have ch: "ch = code_hash_after E code old" using store_code_frame(2) [OF sc] by (simp add: code_hash_after_def)
  let ?acc = "\<lparr>ac_nonce = bs_nonce b, ac_balance = bs_balance b, ac_storage_root = root, ac_code_hash = ch\<rparr>"
  have ext1: "extends (xe_trie E) ok tv (ax_db s) (ax_db s2)" using law(4) s2 by simp
  have ok0: "ok (ax_db s) (mt_trie (ax_trie s))" using inv unfolding backend_ok_def by blast
  have ok2: "ok (ax_db s2) (mt_trie (ax_trie s2))" and content2: "trie_content tv s2 = trie_content tv s"
    using ext1 ok0 s2 unfolding extends_def trie_content_def by simp_all
  note pu = put_account_ok [OF T ok2 put]
  have ext: "extends (xe_trie E) ok tv (ax_db s) (ax_db s')" by (rule extends_trans [OF ext1 pu(4)])
  have re: "is_ok (tl_from (xe_trie E) (ax_db s2) (to_be_bytes 32 root))"
    using law(5) s2 by (auto simp: reopens_def)
  have "is_ok (tl_from (xe_trie E) (ax_db s') (to_be_bytes 32 (ac_storage_root ?acc)))"
    if "ac_storage_root ?acc \<noteq> RLP_NULL"
    using root_view_extends(2) [OF pu(4) re] that by simp
  note up = backend_ok_upd [OF rt inv pu(2) pu(3) [unfolded content2] ext this]
  have acc: "accounts E tv s' = (accounts E tv s)(a \<mapsto> ?acc)" by (rule accounts_upd [OF rt pu(3) [unfolded content2]])
  have "storage_view E tv s' a = root_view (xe_trie E) tv (ax_db s') root"
    by (simp add: storage_view_def acc account_or_default_def)
  also have "\<dots> = root_view (xe_trie E) tv (ax_db s2) root" by (rule root_view_extends(1) [OF pu(4) re])
  also have "\<dots> = write_slots storage (if reset then Map.empty else storage_view E tv s a)"
    using root_view_reopens [OF law(5)] m1(2) s2 by simp
  finally have view: "storage_view E tv s' a = write_slots storage (if reset then Map.empty else storage_view E tv s a)" .
  show "account_updated E ok tv a b code storage reset s s'"
    unfolding account_updated_def using up view acc pu(5) ch old_def by blast
  show "e \<longleftrightarrow> bs_balance b = 0 \<and> bs_nonce b = 0 \<and>
            code_hash_after E code (account_or_default (accounts E tv s) a) = 0"
    using pu(1) ch old_def by simp
qed


lemma write_slots_Nil [simp]: "write_slots [] m = m"
  by (simp add: write_slots_def)

lemma backend_basic_ok:
  assumes "trie_lib_ok (xe_trie E) ok tv" and "backend_ok E ok tv s"
  shows "backend_basic E a s =
    \<lparr>bs_balance = ac_balance (account_or_default (accounts E tv s) a),
     bs_nonce = ac_nonce (account_or_default (accounts E tv s) a)\<rparr>"
proof (cases "trie_content tv s (address_key a)")
  case None
  then show ?thesis
    using assms
    by (simp add: backend_basic_def mpt_get_ok backend_ok_def accounts_def account_or_default_def
        account_default_def trie_content_def)
next
  case (Some raw)
  then have "is_ok (snd (xe_account E) raw)" using assms(2) unfolding backend_ok_def by blast
  then obtain account where "snd (xe_account E) raw = Inr account"
    by (cases "snd (xe_account E) raw") simp_all
  then show ?thesis
    using assms Some
    by (simp add: backend_basic_def mpt_get_ok backend_ok_def accounts_def account_or_default_def trie_content_def)
qed

lemma delete_keeps_root: "state_root (fst (apply_one E d (ApDelete a) s)) = state_root s"
  by (simp add: apply_one_def st_bind_apply trie_remove_def mpt_remove_def state_root_def
      split: prod.split sum.split)

lemma revert_resp_failed: "revert_resp g = Inr resp \<Longrightarrow> \<not> is_succeed (tr_exit_reason resp)"
  by (auto simp: revert_resp_def res_bind_eq_Inr is_succeed_def)

lemma single_modify:
  assumes "backend_apply E [ApModify a b code storage reset] logs False s = (s', Inr ())"
  obtains s1 e where "apply_account E a b code storage reset s = (s1, Inr e)"
    and "s' = s1\<lparr>ax_ctx := (ax_ctx s1)\<lparr>ec_logs := logs\<rparr>\<rparr>"
proof -
  obtain s1 r where run: "apply_account E a b code storage reset s = (s1, r)" by (cases "apply_account E a b code storage reset s")
  show thesis
    using assms run that
    by (cases r) (simp_all add: backend_apply_def apply_one_def st_seq_apply st_bind_apply st_when_def)
qed

lemma token_apply_ok:
  assumes "token_apply E tx a account direction s = (s', Inr resp)"
  obtains balance nonce s1 e where "token_balance direction account (tx_value tx) = Some balance"
    and "checked_add (bs_nonce account) 1 = Some nonce"
    and "apply_account E a \<lparr>bs_balance = balance, bs_nonce = nonce\<rparr> None [] False s = (s1, Inr e)"
    and "s' = s1\<lparr>ax_ctx := (ax_ctx s1)\<lparr>ec_logs := []\<rparr>\<rparr>"
    and "is_succeed (tr_exit_reason resp)" and "tr_gas_used resp = 0"
proof -
  obtain balance nonce s2 remain where b: "token_balance direction account (tx_value tx) = Some balance"
    and n: "checked_add (bs_nonce account) 1 = Some nonce"
    and ap: "backend_apply E [ApModify a \<lparr>bs_balance = balance, bs_nonce = nonce\<rparr> None [] False] [] False s = (s2, Inr ())"
    and res: "s' = s2" "is_succeed (tr_exit_reason resp)" "tr_gas_used resp = 0"
    using assms
    by (auto simp: token_apply_def st_bind_ok st_seq_ok st_lift_def ok_or_eq_Inr st_return_def is_succeed_def)
  from single_modify [OF ap] obtain s1 e where
    "apply_account E a \<lparr>bs_balance = balance, bs_nonce = nonce\<rparr> None [] False s = (s1, Inr e)"
    "s2 = s1\<lparr>ax_ctx := (ax_ctx s1)\<lparr>ec_logs := []\<rparr>\<rparr>" by blast
  with that b n res show thesis by blast
qed

definition token_target :: "signed_transaction \<Rightarrow> h160" where
  "token_target stx = from_be_bytes (take 20 (drop 1 (tx_data (stx_unsigned stx))))"

definition token_well_formed :: "signed_transaction \<Rightarrow> bool" where
  "token_well_formed stx \<longleftrightarrow> 21 \<le> length (tx_data (stx_unsigned stx)) \<and> tx_data (stx_unsigned stx) ! 0 \<le> 1"

lemma call_native_token_branches:
  "call_native_token E stx s =
     (if \<not> token_well_formed stx then (s, revert_resp (tx_gas_limit (stx_unsigned stx)))
      else if tx_data (stx_unsigned stx) ! 0 \<noteq> 0 \<and>
              bs_balance (backend_basic E (token_target stx) s) < tx_value (stx_unsigned stx)
      then (s, revert_resp (tx_gas_limit (stx_unsigned stx)))
      else token_apply E (stx_unsigned stx) (token_target stx) (backend_basic E (token_target stx) s)
             (tx_data (stx_unsigned stx) ! 0 = 0) s)"
  by (auto simp: call_native_token_def Let_def token_well_formed_def token_target_def st_bind_apply)

lemma ctx_irrelevant [simp]:
  "accounts E tv (s\<lparr>ax_ctx := c\<rparr>) = accounts E tv s"
  "storage_view E tv (s\<lparr>ax_ctx := c\<rparr>) = storage_view E tv s"
  "backend_ok E ok tv (s\<lparr>ax_ctx := c\<rparr>) = backend_ok E ok tv s"
proof -
  show acc: "accounts E tv (s\<lparr>ax_ctx := c\<rparr>) = accounts E tv s"
    by (rule ext) (simp add: accounts_def trie_content_def)
  show "storage_view E tv (s\<lparr>ax_ctx := c\<rparr>) = storage_view E tv s"
    by (rule ext) (simp add: storage_view_def acc)
  show "backend_ok E ok tv (s\<lparr>ax_ctx := c\<rparr>) = backend_ok E ok tv s"
    by (simp add: backend_ok_def acc trie_content_def)
qed

section \<open>A concrete environment\<close>

text \<open>A trie library whose database is the list of the maps committed so far.\<close>

definition sample_trie_lib :: "((bytes \<rightharpoonup> bytes) list, bytes \<rightharpoonup> bytes) trie_lib" where
  "sample_trie_lib =
     \<lparr>tl_new = Map.empty,
      tl_from = (\<lambda>db r. if length r = 32 \<and> be_nat r < length db then Inr (db ! be_nat r) else Inl ''missing''),
      tl_get = (\<lambda>db p k. Inr (p k)),
      tl_contains = (\<lambda>db p k. Inr (p k \<noteq> None)),
      tl_insert = (\<lambda>db p k v. (p(k \<mapsto> v), Inr ())),
      tl_remove = (\<lambda>db p k. (p(k := None), Inr (p k \<noteq> None))),
      tl_root = (\<lambda>db p. if length db < 1000 then (db @ [p], p, Inr (nat_to_be 32 (length db)))
                        else (db, p, Inl ''full''))\<rparr>"

definition account_ser :: "account \<Rightarrow> bytes" where
  "account_ser a = to_be_bytes 32 (ac_nonce a) @ to_be_bytes 32 (ac_balance a) @
     to_be_bytes 32 (ac_storage_root a) @ to_be_bytes 32 (ac_code_hash a)"

definition account_de :: "bytes \<Rightarrow> string + account" where
  "account_de bs =
     Inr \<lparr>ac_nonce = from_be_bytes (take 32 bs), ac_balance = from_be_bytes (take 32 (drop 32 bs)),
          ac_storage_root = from_be_bytes (take 32 (drop 64 bs)),
          ac_code_hash = from_be_bytes (take 32 (drop 96 bs))\<rparr>"

definition sample_evm_out :: evm_out where
  "sample_evm_out =
     \<lparr>eo_exit_reason = Succeed Stopped, eo_ret = [], eo_gas = 0, eo_used_gas = 21000, eo_values = [],
      eo_logs = [], eo_create_address = 0\<rparr>"

definition sample_exec_env :: "(mem_db, (bytes \<rightharpoonup> bytes) list, bytes \<rightharpoonup> bytes) exec_env" where
  "sample_exec_env =
     \<lparr>xe_adapter = memory_adapter id, xe_storage = sample_senv, xe_trie = sample_trie_lib,
      xe_account = (account_ser, account_de), xe_rlp = sample_rlp_lib, xe_keccak = (\<lambda>_. replicate 32 7),
      xe_crypto = sample_crypto_lib, xe_evm = (\<lambda>_ _ s. (s, Inr sample_evm_out)),
      xe_tree_root = (\<lambda>_ hs. if hs = [] then None else Some (hs ! 0))\<rparr>"

definition sample_backend :: "(mem_db, (bytes \<rightharpoonup> bytes) list, bytes \<rightharpoonup> bytes) exec_backend" where
  "sample_backend =
     \<lparr>ax_ctx = executor_context_from_header (\<lambda>_. 0) (sample_header 1),
      ax_trie = \<lparr>mt_root = 0, mt_trie = Map.empty\<rparr>, ax_storage = storage_new mem_new, ax_db = []\<rparr>"

lemma sample_trie_lib_ok: "trie_lib_ok sample_trie_lib (\<lambda>_ _. True) (\<lambda>_ p. p)"
proof -
  have "be_nat (to_be_bytes 32 RLP_NULL) = unat RLP_NULL"
    using unat_bound [of RLP_NULL] by (simp add: to_be_bytes_def be_nat_nat_to_be)
  then have "1000 < be_nat (to_be_bytes 32 RLP_NULL)" by (simp add: RLP_NULL_def)
  moreover have "n < 1000 \<Longrightarrow> be_nat (nat_to_be 32 n) = n" for n by (simp add: be_nat_nat_to_be)
  ultimately have "n < 1000 \<Longrightarrow> nat_to_be 32 n \<noteq> to_be_bytes 32 RLP_NULL" for n by fastforce
  then show ?thesis
    by (simp add: trie_lib_ok_def sample_trie_lib_def extends_def reopens_def be_nat_nat_to_be nth_append
        split: if_splits)
qed

lemma sample_exec_env_simps [simp]:
  "xe_trie sample_exec_env = sample_trie_lib" "xe_account sample_exec_env = (account_ser, account_de)"
  by (simp_all add: sample_exec_env_def)

lemma sample_account_rt: "account_rt sample_exec_env"
  by (simp add: account_rt_def account_ser_def account_de_def be_bytes_roundtrip)

lemma sample_backend_ok: "backend_ok sample_exec_env (\<lambda>_ _. True) (\<lambda>_ p. p) sample_backend"
  by (simp add: backend_ok_def sample_backend_def trie_content_def accounts_def)

lemma sample_commits: "commits sample_trie_lib (\<lambda>_ _. True) (ax_db sample_backend)"
  by (simp add: commits_def sample_trie_lib_def sample_backend_def)


section \<open>Properties\<close>

text \<open>
  Property C5. Writing an account is what it claims to be, over any trie library that
  keeps maps: the account gets the given nonce and balance, its code hash changes only
  with the code, its storage is the old storage (or nothing, after a reset) with the
  given slots written, every other account and every other storage stays, and opening
  the trie at the new state root shows exactly this state. Deleting an account leaves
  the state root as it was until the next write.
\<close>

theorem apply_account_refines:
  assumes "trie_lib_ok (xe_trie E) ok tv" and "account_rt E" and "backend_ok E ok tv s"
    and "commits (xe_trie E) ok (ax_db s)"
    and "apply_account E a b code storage reset s = (s', Inr e)"
  shows "backend_ok E ok tv s' \<and>
         (\<exists>root. accounts E tv s' = (accounts E tv s)(a \<mapsto>
             \<lparr>ac_nonce = bs_nonce b, ac_balance = bs_balance b, ac_storage_root = root,
              ac_code_hash = (case code of None \<Rightarrow> ac_code_hash (account_or_default (accounts E tv s) a)
                              | Some c \<Rightarrow> hasher_digest (xe_keccak E) c)\<rparr>)) \<and>
         storage_view E tv s' a = write_slots storage (if reset then Map.empty else storage_view E tv s a) \<and>
         (\<forall>x. x \<noteq> a \<longrightarrow> storage_view E tv s' x = storage_view E tv s x) \<and>
         reopens (xe_trie E) tv (ax_db s') (to_be_bytes 32 (state_root s')) (trie_content tv s') \<and>
         state_root (fst (apply_one E True (ApDelete a) s')) = state_root s'"
  using apply_account_spec(1) [OF assms]
  unfolding account_updated_def code_hash_after_def by (simp add: delete_keeps_root)

theorem apply_account_refines_witness:
  "\<exists>s' e. apply_account sample_exec_env 5 \<lparr>bs_balance = 9, bs_nonce = 1\<rparr> None [(1, 2)] False sample_backend = (s', Inr e) \<and>
     backend_ok sample_exec_env (\<lambda>_ _. True) (\<lambda>_ p. p) s' \<and>
     storage_view sample_exec_env (\<lambda>_ p. p) s' 5 = [to_be_bytes 32 (1 :: hash) \<mapsto> to_be_bytes 32 (2 :: hash)]"
proof -
  let ?run = "apply_account sample_exec_env 5 \<lparr>bs_balance = 9, bs_nonce = 1\<rparr> None [(1, 2)] False sample_backend"
  have "is_ok (snd ?run)"
    by (simp add: apply_account_def st_bind_apply st_seq_apply old_account_def mpt_get_def sample_backend_def
        sample_trie_lib_def storage_trie_def account_default_def mpt_new_def storage_inserts_def mpt_insert_def
        commit_storage_def mpt_commit_def Let_def store_code_def trie_insert_def trie_commit_def unwrap_def)
  then obtain s' e where run: "?run = (s', Inr e)" by (cases ?run; cases "snd ?run") auto
  have "storage_view sample_exec_env (\<lambda>_ p. p) sample_backend 5 = Map.empty"
    by (simp add: storage_view_def account_or_default_def accounts_def trie_content_def sample_backend_def
        account_default_def root_view_def)
  moreover have "write_slots [(1, 2)] Map.empty = [to_be_bytes 32 (1 :: hash) \<mapsto> to_be_bytes 32 (2 :: hash)]"
    by (simp add: write_slots_def write_slot_def)
  moreover have "trie_lib_ok (xe_trie sample_exec_env) (\<lambda>_ _. True) (\<lambda>_ p. p)"
    "commits (xe_trie sample_exec_env) (\<lambda>_ _. True) (ax_db sample_backend)"
    by (simp_all add: sample_trie_lib_ok sample_commits)
  ultimately show ?thesis
    using apply_account_refines [OF _ sample_account_rt sample_backend_ok _ run] run
    by (intro exI [of _ s'] exI [of _ e]) simp
qed

text \<open>
  Property C14. The native-token script moves exactly the value of the transaction: a
  call that succeeds credits (tag 0) or debits (tag 1) the target by that amount
  without wrapping, adds one to its nonce, keeps its code, all storage and every other
  account, and uses no gas; a debit succeeds only against a sufficient balance. A call
  that is reverted changes nothing.
\<close>

theorem native_token_exact:
  assumes "trie_lib_ok (xe_trie E) ok tv" and "account_rt E" and "backend_ok E ok tv s"
    and "commits (xe_trie E) ok (ax_db s)"
    and "call_native_token E stx s = (s', Inr resp)"
  shows "(\<not> is_succeed (tr_exit_reason resp) \<longrightarrow> s' = s) \<and>
         (is_succeed (tr_exit_reason resp) \<longrightarrow>
            token_well_formed stx \<and> tr_gas_used resp = 0 \<and>
            (let old = account_or_default (accounts E tv s) (token_target stx);
                 value = tx_value (stx_unsigned stx)
             in (\<exists>new root. accounts E tv s' = (accounts E tv s)(token_target stx \<mapsto>
                     \<lparr>ac_nonce = ac_nonce old + 1, ac_balance = new, ac_storage_root = root,
                      ac_code_hash = ac_code_hash old\<rparr>) \<and>
                   (if tx_data (stx_unsigned stx) ! 0 = 0 then unat new = unat (ac_balance old) + unat value
                    else unat new + unat value = unat (ac_balance old)))) \<and>
            storage_view E tv s' = storage_view E tv s)"
proof (cases "is_succeed (tr_exit_reason resp)")
  case False
  have "s' = s"
    using assms(5) False unfolding call_native_token_branches
    by (auto split: if_splits elim: token_apply_ok)
  with False show ?thesis by blast
next
  case True
  let ?tx = "stx_unsigned stx" and ?a = "token_target stx"
  let ?old = "account_or_default (accounts E tv s) ?a"
  have wf: "token_well_formed stx"
    and run: "token_apply E ?tx ?a (backend_basic E ?a s) (tx_data ?tx ! 0 = 0) s = (s', Inr resp)"
    using assms(5) True revert_resp_failed unfolding call_native_token_branches by (auto split: if_splits)
  obtain new nonce s1 e where new: "token_balance (tx_data ?tx ! 0 = 0) (backend_basic E ?a s) (tx_value ?tx) = Some new"
    and nonce: "checked_add (bs_nonce (backend_basic E ?a s)) 1 = Some nonce"
    and ap: "apply_account E ?a \<lparr>bs_balance = new, bs_nonce = nonce\<rparr> None [] False s = (s1, Inr e)"
    and s': "s' = s1\<lparr>ax_ctx := (ax_ctx s1)\<lparr>ec_logs := []\<rparr>\<rparr>" and gas: "tr_gas_used resp = 0"
    using run by (rule token_apply_ok)
  note basic = backend_basic_ok [OF assms(1,3), of ?a]
  have n: "nonce = ac_nonce ?old + 1" using nonce basic by (simp add: checked_add_def split: if_splits)
  have bal: "if tx_data ?tx ! 0 = 0 then unat new = unat (ac_balance ?old) + unat (tx_value ?tx)
             else unat new + unat (tx_value ?tx) = unat (ac_balance ?old)"
    using new basic
    by (auto simp: token_balance_def checked_sub_def unat_sub word_le_nat_alt dest: checked_add_unat split: if_splits)
  have up: "account_updated E ok tv ?a \<lparr>bs_balance = new, bs_nonce = nonce\<rparr> None [] False s s1"
    by (rule apply_account_spec(1) [OF assms(1-4) ap])
  then obtain root where acc: "accounts E tv s1 = (accounts E tv s)(?a \<mapsto>
      \<lparr>ac_nonce = ac_nonce ?old + 1, ac_balance = new, ac_storage_root = root, ac_code_hash = ac_code_hash ?old\<rparr>)"
    unfolding account_updated_def code_hash_after_def using n by auto
  have "storage_view E tv s1 x = storage_view E tv s x" for x
    using up unfolding account_updated_def by (cases "x = ?a") simp_all
  then have view: "storage_view E tv s' = storage_view E tv s" using s' by (simp add: ext)
  show ?thesis
    using wf gas acc bal view s' True unfolding Let_def by (intro conjI impI) auto
qed

definition sample_mint :: signed_transaction where
  "sample_mint =
     (sample_stx 1 2 3 4)\<lparr>stx_transaction := (stx_transaction (sample_stx 1 2 3 4))
        \<lparr>utx_unsigned := (stx_unsigned (sample_stx 1 2 3 4))
           \<lparr>tx_action := Call NATIVE_TOKEN_ISSUE_ADDRESS, tx_value := 8, tx_data := replicate 20 0 @ [5]\<rparr>\<rparr>\<rparr>"

theorem native_token_exact_witness:
  "\<exists>s' resp. call_native_token sample_exec_env sample_mint sample_backend = (s', Inr resp) \<and>
     is_succeed (tr_exit_reason resp) \<and>
     storage_view sample_exec_env (\<lambda>_ p. p) s' = storage_view sample_exec_env (\<lambda>_ p. p) sample_backend"
proof -
  let ?run = "call_native_token sample_exec_env sample_mint sample_backend"
  have "\<exists>s' resp. ?run = (s', Inr resp) \<and> is_succeed (tr_exit_reason resp)"
    by (simp add: call_native_token_def token_apply_def token_balance_def sample_mint_def sample_stx_def Let_def
        nth_append backend_basic_def checked_add_def backend_apply_def apply_one_def apply_account_def
        st_bind_apply st_seq_apply old_account_def mpt_get_def sample_backend_def
        sample_trie_lib_def storage_trie_def account_default_def mpt_new_def storage_inserts_def mpt_insert_def
        commit_storage_def mpt_commit_def store_code_def trie_insert_def trie_commit_def unwrap_def
        st_when_def u256_as_u64_def is_succeed_def)
  then obtain s' resp where run: "?run = (s', Inr resp)" and ok: "is_succeed (tr_exit_reason resp)" by blast
  have "trie_lib_ok (xe_trie sample_exec_env) (\<lambda>_ _. True) (\<lambda>_ p. p)"
    "commits (xe_trie sample_exec_env) (\<lambda>_ _. True) (ax_db sample_backend)"
    by (simp_all add: sample_trie_lib_ok sample_commits)
  with native_token_exact [OF _ sample_account_rt sample_backend_ok _ run] run ok
  show ?thesis by (intro exI [of _ s'] exI [of _ resp]) simp
qed

end
