(* ===== verification/Metadata_Control.thy ===== *)
theory Metadata_Control
  imports Protocol_Types
begin

text \<open>
  The metadata controller \<open>core/metadata/src/lib.rs\<close>: the validator sets and limits
  of an epoch, read from the metadata contract and cached per epoch. The environment
  holds the epoch length (the static \<open>EPOCH_LEN\<close>), the contract address and what
  comes from elsewhere: the EVM call, and the ABI encoding and decoding of the
  \<open>ethers\<close> crate.
\<close>

section \<open>State and environment\<close>

datatype metadata_error = MdAbiDecode string | MdCallEvm exit_reason | MdAdapter string | MdPanic

record abi_validator =
  av_bls_pub_key :: bytes
  av_pub_key :: bytes
  av_address :: h160
  av_propose_weight :: u32
  av_vote_weight :: u32

record abi_metadata =
  am_version_start :: u64
  am_version_end :: u64
  am_epoch :: u64
  am_gas_limit :: u64
  am_gas_price :: u64
  am_interval :: u64
  am_verifier_list :: "abi_validator list"
  am_propose_ratio :: u64
  am_prevote_ratio :: u64
  am_precommit_ratio :: u64
  am_brake_ratio :: u64
  am_tx_num_limit :: u64
  am_max_tx_size :: u64
  am_last_checkpoint_block_hash :: bytes

record metadata_env =
  me_epoch_len :: u64
  me_address :: h160
  me_call_evm :: "header \<Rightarrow> h160 \<Rightarrow> bytes \<Rightarrow> string + tx_resp"
  me_get_metadata_call :: "u64 \<Rightarrow> bytes"
  me_abi_decode :: "bytes \<Rightarrow> string + abi_metadata"

type_synonym metadata_cache = "u64 \<rightharpoonup> metadata"

definition metadata_new :: metadata_cache where
  "metadata_new = Map.empty"

section \<open>Operations\<close>

definition validator_from_abi :: "abi_validator \<Rightarrow> validator_extend" where
  "validator_from_abi v =
     \<lparr>ve_bls_pub_key = av_bls_pub_key v, ve_pub_key = av_pub_key v, ve_address = av_address v,
      ve_propose_weight = av_propose_weight v, ve_vote_weight = av_vote_weight v\<rparr>"

definition metadata_from_abi :: "abi_metadata \<Rightarrow> metadata" where
  "metadata_from_abi m =
     \<lparr>md_version = \<lparr>mv_start = am_version_start m, mv_end = am_version_end m\<rparr>,
      md_epoch = am_epoch m,
      md_gas_limit = am_gas_limit m,
      md_gas_price = am_gas_price m,
      md_interval = am_interval m,
      md_verifier_list = map validator_from_abi (am_verifier_list m),
      md_propose_ratio = am_propose_ratio m,
      md_prevote_ratio = am_prevote_ratio m,
      md_precommit_ratio = am_precommit_ratio m,
      md_brake_ratio = am_brake_ratio m,
      md_tx_num_limit = am_tx_num_limit m,
      md_max_tx_size = am_max_tx_size m,
      md_last_checkpoint_block_hash = from_be_bytes (am_last_checkpoint_block_hash m)\<rparr>"

definition decode_resp_metadata :: "metadata_env \<Rightarrow> bytes \<Rightarrow> metadata_error + metadata" where
  "decode_resp_metadata E data =
     (case me_abi_decode E data of
        Inl e \<Rightarrow> Inl (MdAbiDecode e)
      | Inr m \<Rightarrow> Inr (metadata_from_abi m))"

definition query_evm_metadata :: "metadata_env \<Rightarrow> u64 \<Rightarrow> header \<Rightarrow> metadata_error + metadata" where
  "query_evm_metadata E epoch hdr =
     (case me_call_evm E hdr (me_address E) (me_get_metadata_call E epoch) of
        Inl e \<Rightarrow> Inl (MdAdapter e)
      | Inr res \<Rightarrow>
          if \<not> is_succeed (tr_exit_reason res) then Inl (MdCallEvm (tr_exit_reason res))
          else decode_resp_metadata E (tr_ret res))"

text \<open>An epoch length of zero makes the division panic.\<close>

definition calc_epoch :: "metadata_env \<Rightarrow> u64 \<Rightarrow> metadata_error + u64" where
  "calc_epoch E block_number =
     (if me_epoch_len E = 0 then Inl MdPanic else Inr (block_number div me_epoch_len E))"

definition need_change_metadata :: "metadata_env \<Rightarrow> u64 \<Rightarrow> metadata_error + bool" where
  "need_change_metadata E block_number =
     (if me_epoch_len E = 0 then Inl MdPanic else Inr (block_number mod me_epoch_len E = 0))"

definition update_metadata ::
  "metadata_env \<Rightarrow> header \<Rightarrow> (metadata_cache, metadata_error, unit) st" where
  "update_metadata E hdr =
     st_bind (st_lift (res_bind (calc_epoch E (hd_number hdr)) (\<lambda>e. ok_or MdPanic (checked_add e 1))))
       (\<lambda>epoch.
     st_bind (st_lift (query_evm_metadata E epoch hdr)) (\<lambda>metadata.
       let boundary = saturating_sub epoch 20
       in st_modify (\<lambda>cache. (\<lambda>k. if k < boundary then cache k else None)(epoch \<mapsto> metadata))))"

definition get_metadata :: "metadata_env \<Rightarrow> header \<Rightarrow> (metadata_cache, metadata_error, metadata) st" where
  "get_metadata E hdr =
     st_bind (st_lift (calc_epoch E (hd_number hdr))) (\<lambda>epoch.
     st_bind (st_gets (\<lambda>cache. cache epoch)) (\<lambda>res.
       case res of
         None \<Rightarrow>
           st_bind (st_lift (query_evm_metadata E epoch hdr)) (\<lambda>metadata.
           st_seq (st_modify (\<lambda>cache. cache(epoch \<mapsto> metadata))) (st_return metadata))
       | Some metadata \<Rightarrow> st_return metadata))"

definition get_metadata_unchecked :: "metadata_env \<Rightarrow> u64 \<Rightarrow> metadata_cache \<Rightarrow> metadata_error + metadata" where
  "get_metadata_unchecked E block_number cache =
     res_bind (calc_epoch E block_number) (\<lambda>epoch. ok_or MdPanic (cache epoch))"

section \<open>The cache holds answers of the contract\<close>

definition answered :: "metadata_env \<Rightarrow> metadata_cache \<Rightarrow> bool" where
  "answered E cache \<longleftrightarrow> (\<forall>e m. cache e = Some m \<longrightarrow> (\<exists>hdr. query_evm_metadata E e hdr = Inr m))"

lemma answered_upd:
  "answered E cache \<Longrightarrow> query_evm_metadata E e hdr = Inr m \<Longrightarrow> answered E (cache(e \<mapsto> m))"
  by (auto simp: answered_def)

lemma answered_restrict: "answered E cache \<Longrightarrow> answered E (\<lambda>k. if P k then cache k else None)"
  by (auto simp: answered_def split: if_splits)

lemma calc_epoch_ok: "me_epoch_len E \<noteq> 0 \<Longrightarrow> calc_epoch E n = Inr (n div me_epoch_len E)"
  by (simp add: calc_epoch_def)

lemma get_metadata_hit:
  assumes "me_epoch_len E \<noteq> 0" and "cache (hd_number hdr div me_epoch_len E) = Some m"
  shows "get_metadata E hdr cache = (cache, Inr m)"
  using assms by (simp add: get_metadata_def calc_epoch_ok st_bind_apply)

lemma get_metadata_miss:
  assumes "me_epoch_len E \<noteq> 0" and "cache (hd_number hdr div me_epoch_len E) = None"
  shows "get_metadata E hdr cache =
    (case query_evm_metadata E (hd_number hdr div me_epoch_len E) hdr of
       Inl e \<Rightarrow> (cache, Inl e)
     | Inr m \<Rightarrow> (cache(hd_number hdr div me_epoch_len E \<mapsto> m), Inr m))"
  using assms
  by (simp add: get_metadata_def calc_epoch_ok st_bind_apply st_seq_apply split: sum.split)

lemma epoch_Suc:
  assumes "me_epoch_len E \<noteq> 0" and "1 < me_epoch_len E"
  shows "checked_add (n div me_epoch_len E) 1 = Some (n div me_epoch_len E + 1)"
proof -
  have "2 \<le> unat (me_epoch_len E)" using assms(2) by (simp add: word_less_nat_alt)
  then have "unat n div unat (me_epoch_len E) \<le> unat n div 2" by (rule div_le_mono2 [OF zero_less_numeral])
  moreover have "unat n < 18446744073709551616" using unat_bound [of n] by simp
  ultimately have "unat n div unat (me_epoch_len E) + 1 < 18446744073709551616" by linarith
  then show ?thesis by (simp add: checked_add_def unat_div)
qed

lemma update_metadata_result:
  assumes "1 < me_epoch_len E"
  shows "update_metadata E hdr cache =
    (let epoch = hd_number hdr div me_epoch_len E + 1
     in case query_evm_metadata E epoch hdr of
          Inl e \<Rightarrow> (cache, Inl e)
        | Inr m \<Rightarrow>
            ((\<lambda>k. if k < saturating_sub epoch 20 then cache k else None)(epoch \<mapsto> m), Inr ()))"
proof -
  have "me_epoch_len E \<noteq> 0" using assms by auto
  then show ?thesis
    using epoch_Suc [OF _ assms, of "hd_number hdr"]
    by (simp add: update_metadata_def calc_epoch_ok st_bind_apply Let_def ok_or_def split: sum.split)
qed

section \<open>Properties\<close>

text \<open>A contract that answers every epoch with the same metadata, for concrete runs.\<close>

definition sample_metadata :: "validator_extend list \<Rightarrow> metadata" where
  "sample_metadata vs =
     \<lparr>md_version = \<lparr>mv_start = 0, mv_end = 1000\<rparr>, md_epoch = 0, md_gas_limit = 0, md_gas_price = 1,
      md_interval = 3000, md_verifier_list = vs, md_propose_ratio = 15, md_prevote_ratio = 10,
      md_precommit_ratio = 10, md_brake_ratio = 10, md_tx_num_limit = 100, md_max_tx_size = 1000,
      md_last_checkpoint_block_hash = 0\<rparr>"

definition sample_abi :: "abi_validator list \<Rightarrow> abi_metadata" where
  "sample_abi vs =
     \<lparr>am_version_start = 0, am_version_end = 1000, am_epoch = 0, am_gas_limit = 0, am_gas_price = 1,
      am_interval = 3000, am_verifier_list = vs, am_propose_ratio = 15, am_prevote_ratio = 10,
      am_precommit_ratio = 10, am_brake_ratio = 10, am_tx_num_limit = 100, am_max_tx_size = 1000,
      am_last_checkpoint_block_hash = []\<rparr>"

definition sample_metadata_env :: "abi_validator list \<Rightarrow> metadata_env" where
  "sample_metadata_env vs =
     \<lparr>me_epoch_len = 10, me_address = 7,
      me_call_evm = (\<lambda>_ _ _. Inr \<lparr>tr_exit_reason = Succeed Returned, tr_ret = [], tr_gas_used = 0,
        tr_remain_gas = 0, tr_logs = [], tr_code_address = None\<rparr>),
      me_get_metadata_call = (\<lambda>_. []), me_abi_decode = (\<lambda>_. Inr (sample_abi vs))\<rparr>"

lemma sample_query:
  "query_evm_metadata (sample_metadata_env vs) e hdr = Inr (sample_metadata (map validator_from_abi vs))"
  by (simp add: query_evm_metadata_def sample_metadata_env_def is_succeed_def decode_resp_metadata_def
      metadata_from_abi_def sample_abi_def sample_metadata_def from_be_bytes_def be_nat_def)

lemma sample_epoch_len: "me_epoch_len (sample_metadata_env vs) = 10"
  by (simp add: sample_metadata_env_def)

text \<open>
  With a positive epoch length, \<open>get_metadata\<close> answers from the cache
  when the epoch is there and otherwise with the contract's answer, which it keeps:
  afterwards the unchecked lookup succeeds, with the same metadata, for every block
  of that epoch, and the other epochs are untouched. Everything in the cache stays
  an answer of the contract.
\<close>

theorem get_metadata_correct:
  assumes "me_epoch_len E \<noteq> 0" and "answered E cache"
  shows "\<exists>cache'. answered E cache' \<and>
    (case get_metadata E hdr cache of
       (c, Inl e) \<Rightarrow> c = cache \<and> query_evm_metadata E (hd_number hdr div me_epoch_len E) hdr = Inl e
     | (c, Inr m) \<Rightarrow>
         c = cache' \<and>
         (cache (hd_number hdr div me_epoch_len E) = Some m \<or>
          query_evm_metadata E (hd_number hdr div me_epoch_len E) hdr = Inr m) \<and>
         (\<forall>n. n div me_epoch_len E = hd_number hdr div me_epoch_len E \<longrightarrow>
            get_metadata_unchecked E n cache' = Inr m) \<and>
         (\<forall>n. n div me_epoch_len E \<noteq> hd_number hdr div me_epoch_len E \<longrightarrow>
            get_metadata_unchecked E n cache' = get_metadata_unchecked E n cache))"
proof (cases "cache (hd_number hdr div me_epoch_len E)")
  case (Some m)
  then show ?thesis
    using assms
    by (intro exI [of _ cache])
      (simp add: get_metadata_hit get_metadata_unchecked_def calc_epoch_ok ok_or_def)
next
  case None
  show ?thesis
  proof (cases "query_evm_metadata E (hd_number hdr div me_epoch_len E) hdr")
    case (Inl e)
    with None assms show ?thesis by (auto simp: get_metadata_miss)
  next
    case (Inr m)
    with None assms show ?thesis
      by (intro exI [of _ "cache(hd_number hdr div me_epoch_len E \<mapsto> m)"])
        (simp add: get_metadata_miss answered_upd get_metadata_unchecked_def calc_epoch_ok ok_or_def)
  qed
qed

theorem get_metadata_correct_witness:
  "\<exists>cache'. answered (sample_metadata_env []) cache' \<and>
    (case get_metadata (sample_metadata_env []) (sample_header 25) metadata_new of
       (c, Inl e) \<Rightarrow> False
     | (c, Inr m) \<Rightarrow> c = cache' \<and> get_metadata_unchecked (sample_metadata_env []) 29 cache' = Inr m)"
proof -
  have ans: "answered (sample_metadata_env []) metadata_new" by (simp add: answered_def metadata_new_def)
  have run: "get_metadata (sample_metadata_env []) (sample_header 25) metadata_new =
      (metadata_new(2 \<mapsto> sample_metadata []), Inr (sample_metadata []))"
    by (subst get_metadata_miss) (simp_all add: sample_epoch_len sample_query metadata_new_def)
  have len: "me_epoch_len (sample_metadata_env []) \<noteq> 0" by (simp add: sample_epoch_len)
  have eq: "(29 :: u64) div 10 = 25 div 10" by simp
  obtain cache' where "answered (sample_metadata_env []) cache'"
    and "metadata_new(2 \<mapsto> sample_metadata []) = cache'"
    and "\<forall>n. n div 10 = 25 div 10 \<longrightarrow> get_metadata_unchecked (sample_metadata_env []) n cache' = Inr (sample_metadata [])"
    using get_metadata_correct [OF len ans, of "sample_header 25"]
    unfolding run prod.case sum.case sample_epoch_len sample_block_simps by blast
  with eq have "answered (sample_metadata_env []) cache'" "metadata_new(2 \<mapsto> sample_metadata []) = cache'"
    "get_metadata_unchecked (sample_metadata_env []) 29 cache' = Inr (sample_metadata [])"
    by blast+
  then show ?thesis
    unfolding run prod.case sum.case by blast
qed

text \<open>
  \<open>update_metadata\<close> keeps the epochs below its boundary and forgets the
  recent ones: after a successful update every unchecked lookup for a block of the
  current epoch, or of any epoch from the boundary on except the next, panics.
\<close>

lemma update_metadata_forgets_current:
  assumes "1 < me_epoch_len E"
    and "query_evm_metadata E (hd_number hdr div me_epoch_len E + 1) hdr = Inr m"
  shows "\<exists>cache'. update_metadata E hdr cache = (cache', Inr ()) \<and>
    (\<forall>n. n div me_epoch_len E = hd_number hdr div me_epoch_len E + 1 \<longrightarrow>
       get_metadata_unchecked E n cache' = Inr m) \<and>
    (\<forall>n. n div me_epoch_len E = hd_number hdr div me_epoch_len E \<longrightarrow>
       get_metadata_unchecked E n cache' = Inl MdPanic) \<and>
    (\<forall>n. saturating_sub (hd_number hdr div me_epoch_len E + 1) 20 \<le> n div me_epoch_len E \<and>
       n div me_epoch_len E \<noteq> hd_number hdr div me_epoch_len E + 1 \<longrightarrow>
       get_metadata_unchecked E n cache' = Inl MdPanic) \<and>
    (\<forall>n. n div me_epoch_len E < saturating_sub (hd_number hdr div me_epoch_len E + 1) 20 \<longrightarrow>
       get_metadata_unchecked E n cache' = get_metadata_unchecked E n cache)"
proof -
  let ?e = "hd_number hdr div me_epoch_len E"
  let ?cache' = "(\<lambda>k. if k < saturating_sub (?e + 1) 20 then cache k else None)(?e + 1 \<mapsto> m)"
  have len: "me_epoch_len E \<noteq> 0" using assms(1) by auto
  have Suc: "unat (?e + 1) = unat ?e + 1"
    using checked_add_unat [OF epoch_Suc [OF len assms(1)]] by simp
  have "\<not> ?e < saturating_sub (?e + 1) 20"
    by (simp add: word_less_nat_alt saturating_sub_unat Suc)
  moreover have "?e \<noteq> ?e + 1" using Suc by auto
  moreover have "k \<noteq> ?e + 1" if "k < saturating_sub (?e + 1) 20" for k
    using that by (auto simp: word_less_nat_alt saturating_sub_unat)
  ultimately show ?thesis
    using assms
    by (intro exI [of _ ?cache'])
      (auto simp: update_metadata_result Let_def get_metadata_unchecked_def calc_epoch_ok [OF len] ok_or_def)
qed

end
