(* ===== verification/Mempool.thy ===== *)
theory Mempool
  imports Pool Executor Metadata_Control
begin

text \<open>
  The mempool service: \<open>core/mempool/src/lib.rs\<close> over the default adapter
  \<open>core/mempool/src/adapter/mod.rs\<close> and its message handlers \<open>adapter/message.rs\<close>. The
  record \<open>node_state\<close> is the part of the running node the service works on: the priority
  pool, the adapter's nonce cache and limits, the channels to the broadcasting task
  and the feedback given to the network, and the storage and metadata cache it shares
  with the consensus service. The environment holds what comes from elsewhere: the
  network, the signature libraries, the CKB virtual machine, and the account state
  that the executor reads from the state trie.
\<close>

section \<open>State and environment\<close>

datatype mempool_error =
    MpExceedSizeLimit hash nat nat
  | MpExceedGasLimit hash u64 u64
  | MpInvalidNonce u64 u64
  | MpReachLimit nat
  | MpEnsureBreak nat nat
  | MpEnsureDup hash
  | MpMisMatch nat nat
  | MpCheckAuthorization hash
  | MpCommittedTx hash
  | MpWrongChain hash
  | MpVerifyBatchTransactions
  | MpVerifySignature string
  | MpIntervalBroadcasterDrop
  | MpInvalidSignatureType u8
  | MpStorage storage_error
  | MpExecutor string
  | MpNetwork string
  | MpPanic

datatype trust_feedback = FbGood | FbBad string hash | FbWorse string hash | FbNeutral

datatype signature_type = SigSecp256k1 | SigEd25519

record 'd mempool_env =
  mp_adapter :: "'d storage_adapter"
  mp_storage :: storage_env
  mp_metadata :: metadata_env
  mp_chain_id :: u64
  mp_rlp :: rlp_lib
  mp_keccak :: "bytes \<Rightarrow> bytes"
  mp_from_root :: "hash \<Rightarrow> string + (h160 \<Rightarrow> u256)"
  mp_secp256k1_verify :: "bytes \<Rightarrow> bytes \<Rightarrow> bytes \<Rightarrow> string + unit"
  mp_ckb_vm_verify :: "bytes list \<Rightarrow> string + unit"
  mp_pull_txs :: "u64 option \<Rightarrow> hash list \<Rightarrow> string + signed_transaction list"

record 'd node_state =
  nd_storage :: "'d impl_storage"
  nd_metadata :: metadata_cache
  nd_state_root :: hash
  nd_pool :: priority_pool
  nd_addr_nonce :: "h160 \<rightharpoonup> u256"
  nd_gas_limit :: u64
  nd_max_tx_size :: nat
  nd_stx_open :: bool
  nd_stx_tx :: "signed_transaction list"
  nd_err_rx :: "mempool_error list"
  nd_reports :: "trust_feedback list"

type_synonym ('d, 'm, 'v) node_op = "(('d, 'm) node_state_scheme, mempool_error, 'v) st"

definition on_storage :: "('d, 'v) storage_op \<Rightarrow> ('d, 'm, 'v) node_op" where
  "on_storage op s =
     (case op (nd_storage s) of
        (st, Inl e) \<Rightarrow> (s\<lparr>nd_storage := st\<rparr>, Inl (MpStorage e))
      | (st, Inr v) \<Rightarrow> (s\<lparr>nd_storage := st\<rparr>, Inr v))"

definition on_pool :: "(priority_pool, pool_error, 'v) st \<Rightarrow> ('d, 'm, 'v) node_op" where
  "on_pool op s =
     (case op (nd_pool s) of
        (p, Inl (ReachLimit n)) \<Rightarrow> (s\<lparr>nd_pool := p\<rparr>, Inl (MpReachLimit n))
      | (p, Inl PoolPanic) \<Rightarrow> (s\<lparr>nd_pool := p\<rparr>, Inl MpPanic)
      | (p, Inr v) \<Rightarrow> (s\<lparr>nd_pool := p\<rparr>, Inr v))"

definition as_u64 :: "u256 \<Rightarrow> mempool_error + u64" where
  "as_u64 x = (if unat x < 2 ^ 64 then Inr (ucast x) else Inl MpPanic)"

section \<open>The adapter\<close>

definition signature_type_try_from :: "u8 \<Rightarrow> mempool_error + signature_type" where
  "signature_type_try_from v =
     (if v = 0 \<or> v = 1 then Inr SigSecp256k1
      else if v = 2 then Inr SigEd25519
      else Inl (MpInvalidSignatureType v))"

definition net_report :: "bool \<Rightarrow> trust_feedback \<Rightarrow> ('d, 'm, unit) node_op" where
  "net_report network_origin fb =
     st_when network_origin (st_modify (\<lambda>s. s\<lparr>nd_reports := nd_reports s @ [fb]\<rparr>))"

definition pull_txs ::
  "'d mempool_env \<Rightarrow> u64 option \<Rightarrow> hash list \<Rightarrow> ('d, 'm, signed_transaction list) node_op" where
  "pull_txs E height tx_hashes =
     st_lift (case mp_pull_txs E height tx_hashes of Inl e \<Rightarrow> Inl (MpNetwork e) | Inr txs \<Rightarrow> Inr txs)"

definition broadcast_tx :: "signed_transaction \<Rightarrow> ('d, 'm, unit) node_op" where
  "broadcast_tx stx s =
     (if \<not> nd_stx_open s then (s, Inl MpIntervalBroadcasterDrop)
      else
        let s' = s\<lparr>nd_stx_tx := nd_stx_tx s @ [stx]\<rparr>
        in case nd_err_rx s of
             err # errs \<Rightarrow> (s'\<lparr>nd_err_rx := errs\<rparr>, Inl err)
           | [] \<Rightarrow> (s', Inr ()))"

definition check_system_script_tx_authorization ::
  "'d mempool_env \<Rightarrow> signed_transaction \<Rightarrow> ('d, 'm, unit) node_op" where
  "check_system_script_tx_authorization E stx =
     st_bind (on_storage (get_latest_block (mp_adapter E) (mp_storage E))) (\<lambda>block.
     st_bind (st_lift (ok_or MpPanic (checked_add (hd_number (bk_header block)) 1))) (\<lambda>next_number.
     st_bind (st_gets nd_metadata) (\<lambda>cache.
       case get_metadata_unchecked (mp_metadata E) next_number cache of
         Inl _ \<Rightarrow> st_throw MpPanic
       | Inr metadata \<Rightarrow>
           if \<exists>ve\<in>set (md_verifier_list metadata). ve_address ve = stx_sender stx then st_return ()
           else st_throw (MpCheckAuthorization (stx_hash stx)))))"

text \<open>Both branches on the nonce reject unless the transaction's nonce is larger.\<close>

definition nonce_verdict :: "u256 \<Rightarrow> signed_transaction \<Rightarrow> mempool_error + unit" where
  "nonce_verdict current tx =
     (if tx_nonce (stx_unsigned tx) \<le> current
      then res_bind (as_u64 current) (\<lambda>c.
             res_bind (as_u64 (tx_nonce (stx_unsigned tx))) (\<lambda>n. Inl (MpInvalidNonce c n)))
      else Inr ())"

definition check_authorization :: "'d mempool_env \<Rightarrow> signed_transaction \<Rightarrow> ('d, 'm, unit) node_op" where
  "check_authorization E tx =
     (if is_call_system_script (tx_action (stx_unsigned tx)) then check_system_script_tx_authorization E tx
      else
        st_bind (st_gets (\<lambda>s. nd_addr_nonce s (stx_sender tx))) (\<lambda>res.
          case res of
            Some nonce \<Rightarrow> st_lift (nonce_verdict nonce tx)
          | None \<Rightarrow>
              st_bind (st_gets nd_state_root) (\<lambda>root.
                case mp_from_root E root of
                  Inl e \<Rightarrow> st_throw (MpExecutor e)
                | Inr account_nonce \<Rightarrow>
                    st_seq (st_modify (\<lambda>s. s\<lparr>nd_addr_nonce :=
                              (nd_addr_nonce s)(stx_sender tx \<mapsto> account_nonce (stx_sender tx))\<rparr>))
                      (st_lift (nonce_verdict (account_nonce (stx_sender tx)) tx)))))"

text \<open>
  The signature check: the message is \<open>signature_hash\<close>, which panics where the
  transaction cannot be encoded.
\<close>

definition verify_stx_signature ::
  "'d mempool_env \<Rightarrow> signed_transaction \<Rightarrow> signature_components \<Rightarrow> public_key \<Rightarrow> mempool_error + unit" where
  "verify_stx_signature E stx sig public =
     res_bind (signature_type_try_from (sc_standard_v sig)) (\<lambda>ty.
     res_bind (ok_or MpPanic (signature_hash (mp_rlp E) (mp_keccak E) (stx_transaction stx))) (\<lambda>h.
       case (case ty of
               SigSecp256k1 \<Rightarrow>
                 mp_secp256k1_verify E (to_be_bytes 32 h) (signature_as_bytes sig) (recover_intact_pub_key public)
             | SigEd25519 \<Rightarrow> mp_ckb_vm_verify E [to_be_bytes 32 h, sc_r sig, sc_s sig]) of
         Inl e \<Rightarrow> Inl (MpVerifySignature e)
       | Inr _ \<Rightarrow> Inr ()))"

definition check_transaction ::
  "'d mempool_env \<Rightarrow> bool \<Rightarrow> signed_transaction \<Rightarrow> ('d, 'm, unit) node_op" where
  "check_transaction E network_origin stx =
     (case (utx_signature (stx_transaction stx), stx_public stx) of
        (None, _) \<Rightarrow> st_throw (MpVerifySignature ''missing signature'')
      | (Some _, None) \<Rightarrow> st_throw (MpVerifySignature ''missing public key'')
      | (Some sig, Some public) \<Rightarrow>
          st_bind (st_lift (ok_or MpPanic (utx_rlp_bytes (mp_rlp E) (stx_transaction stx)))) (\<lambda>fixed_bytes.
          st_bind (st_gets nd_max_tx_size) (\<lambda>max_tx_size.
          if max_tx_size < length fixed_bytes
          then st_seq (net_report network_origin (FbBad ''exceed size limit'' (stx_hash stx)))
                 (st_throw (MpExceedSizeLimit (stx_hash stx) max_tx_size (length fixed_bytes)))
          else
          st_bind (st_lift (as_u64 (tx_gas_limit (stx_unsigned stx)))) (\<lambda>gas_limit_tx.
          st_bind (st_gets nd_gas_limit) (\<lambda>gas_limit.
          if gas_limit < gas_limit_tx
          then st_seq (net_report network_origin (FbBad ''exceed cycle limit'' (stx_hash stx)))
                 (st_throw (MpExceedGasLimit (stx_hash stx) gas_limit gas_limit_tx))
          else if mp_chain_id E \<noteq> utx_chain_id (stx_transaction stx)
          then st_seq (net_report network_origin (FbWorse ''wrong chain'' (stx_hash stx)))
                 (st_throw (MpWrongChain (stx_hash stx)))
          else st_lift (verify_stx_signature E stx sig public))))))"

definition check_storage_exist :: "'d mempool_env \<Rightarrow> hash \<Rightarrow> ('d, 'm, unit) node_op" where
  "check_storage_exist E tx_hash =
     st_bind (on_storage (get_transaction_by_hash (mp_adapter E) (mp_storage E) tx_hash)) (\<lambda>res.
       case res of Some _ \<Rightarrow> st_throw (MpCommittedTx tx_hash) | None \<Rightarrow> st_return ())"

definition get_transactions_from_storage ::
  "'d mempool_env \<Rightarrow> u64 option \<Rightarrow> hash list \<Rightarrow> ('d, 'm, signed_transaction option list) node_op" where
  "get_transactions_from_storage E block_height tx_hashes =
     (case block_height of
        Some height \<Rightarrow> on_storage (get_transactions (mp_adapter E) (mp_storage E) height tx_hashes)
      | None \<Rightarrow>
          st_map (\<lambda>h. on_storage (get_transaction_by_hash (mp_adapter E) (mp_storage E) h)) tx_hashes)"

definition mempool_set_args :: "u64 \<Rightarrow> u64 \<Rightarrow> ('d, 'm) node_state_scheme \<Rightarrow> ('d, 'm) node_state_scheme" where
  "mempool_set_args cycles_limit max_tx_size s =
     s\<lparr>nd_gas_limit := cycles_limit, nd_max_tx_size := unat max_tx_size, nd_addr_nonce := Map.empty\<rparr>"

definition report_good :: "bool \<Rightarrow> ('d, 'm, unit) node_op" where
  "report_good network_origin = net_report network_origin FbGood"

section \<open>The service\<close>

definition mempool_len :: "('d, 'm) node_state_scheme \<Rightarrow> nat" where
  "mempool_len s = pool_len (nd_pool s)"

definition show_unknown_txs :: "hash list \<Rightarrow> ('d, 'm) node_state_scheme \<Rightarrow> hash list" where
  "show_unknown_txs tx_hashes s = filter (\<lambda>h. \<not> pool_contains (nd_pool s) h) tx_hashes"

definition initial_insert :: "'d mempool_env \<Rightarrow> signed_transaction \<Rightarrow> ('d, 'm, unit) node_op" where
  "initial_insert E stx = st_seq (check_storage_exist E (stx_hash stx)) (on_pool (pool_insert stx))"

text \<open>The start-up inserts log failures and go on.\<close>

definition initial_inserts ::
  "'d mempool_env \<Rightarrow> signed_transaction list \<Rightarrow> ('d, 'm) node_state_scheme \<Rightarrow> ('d, 'm) node_state_scheme" where
  "initial_inserts E txs s = foldl (\<lambda>s tx. fst (initial_insert E tx s)) s txs"

definition insert_tx ::
  "'d mempool_env \<Rightarrow> bool \<Rightarrow> signed_transaction \<Rightarrow> bool \<Rightarrow> ('d, 'm, unit) node_op" where
  "insert_tx E network_origin tx is_system_script s =
     (if reach_limit (nd_pool s) then (s, Inl (MpReachLimit (pool_size (nd_pool s))))
      else
        st_seq (check_authorization E tx)
        (st_seq (check_transaction E network_origin tx)
        (st_seq (check_storage_exist E (stx_hash tx))
        (st_seq (if is_system_script then on_pool (insert_system_script_tx tx) else on_pool (pool_insert tx))
                (if network_origin then report_good network_origin else broadcast_tx tx)))) s)"

definition mempool_insert :: "'d mempool_env \<Rightarrow> bool \<Rightarrow> signed_transaction \<Rightarrow> ('d, 'm, unit) node_op" where
  "mempool_insert E network_origin tx =
     insert_tx E network_origin tx (is_call_system_script (tx_action (stx_unsigned tx)))"

text \<open>
  Each transaction is checked in a task of its own. \<open>try_join_all\<close> looks at the
  joined handles only: the outcome of a task is dropped, and the call fails only if a
  task panicked.
\<close>

definition verify_one :: "'d mempool_env \<Rightarrow> bool \<Rightarrow> signed_transaction \<Rightarrow> ('d, 'm, unit) node_op" where
  "verify_one E network_origin tx =
     st_seq (check_authorization E tx)
       (st_seq (check_transaction E network_origin tx) (check_storage_exist E (stx_hash tx)))"

fun join_all :: "('x \<Rightarrow> ('d, 'm, unit) node_op) \<Rightarrow> 'x list \<Rightarrow> ('d, 'm, bool) node_op" where
  "join_all task [] s = (s, Inr True)"
| "join_all task (x # xs) s =
     (case task x s of
        (s', r) \<Rightarrow>
          (case join_all task xs s' of
             (s'', Inl e) \<Rightarrow> (s'', Inl e)
           | (s'', Inr ok) \<Rightarrow> (s'', Inr (ok \<and> r \<noteq> Inl MpPanic))))"

definition verify_tx_in_parallel ::
  "'d mempool_env \<Rightarrow> bool \<Rightarrow> signed_transaction list \<Rightarrow> ('d, 'm, unit) node_op" where
  "verify_tx_in_parallel E network_origin txs =
     st_bind (join_all (verify_one E network_origin) txs)
       (\<lambda>ok. if ok then st_return () else st_throw MpVerifyBatchTransactions)"

definition mempool_package ::
  "((bytes \<times> (hash \<times> signed_transaction) list) list \<Rightarrow> (bytes \<times> (hash \<times> signed_transaction) list) list)
   \<Rightarrow> u64 \<Rightarrow> ('d, 'm, hash list) node_op" where
  "mempool_package iter tx_num_limit = on_pool (pool_package iter (unat tx_num_limit))"

text \<open>
  \<open>flush\<close> asks \<open>check_authorization\<close> about each transaction the pool still holds; the
  answers decide what stays and the nonces read on the way are cached.
\<close>

fun nonce_checks ::
  "'d mempool_env \<Rightarrow> signed_transaction list \<Rightarrow> ('d, 'm) node_state_scheme
   \<Rightarrow> ('d, 'm) node_state_scheme \<times> signed_transaction list" where
  "nonce_checks E [] s = (s, [])"
| "nonce_checks E (tx # txs) s =
     (let (s1, r) = check_authorization E tx s;
          (s2, oks) = nonce_checks E txs s1
      in (s2, if is_ok r then tx # oks else oks))"

definition mempool_flush ::
  "'d mempool_env \<Rightarrow> ((hash \<times> signed_transaction) list \<Rightarrow> (hash \<times> signed_transaction) list)
   \<Rightarrow> hash list \<Rightarrow> ('d, 'm, unit) node_op" where
  "mempool_flush E iter tx_hashes s =
     (let candidates = pl_tx_map (get_residual tx_hashes (\<lambda>_. True) (nd_pool s));
          (s1, oks) = nonce_checks E (map snd (iter candidates)) s
      in (s1\<lparr>nd_pool := pool_flush iter tx_hashes (\<lambda>tx. tx \<in> set oks) (nd_pool s)\<rparr>, Inr ()))"

definition get_full_txs ::
  "'d mempool_env \<Rightarrow> u64 option \<Rightarrow> hash list \<Rightarrow> ('d, 'm, signed_transaction list) node_op" where
  "get_full_txs E height tx_hashes =
     st_bind (st_gets nd_pool) (\<lambda>pool.
       let missing_hashes = filter (\<lambda>h. get_by_hash pool h = None) tx_hashes;
           full_txs = List.map_filter (get_by_hash pool) tx_hashes
       in st_bind
            (if missing_hashes \<noteq> []
             then st_bind (get_transactions_from_storage E height missing_hashes)
                    (\<lambda>found. st_return (full_txs @ List.map_filter id found))
             else st_return full_txs)
            (\<lambda>txs. if length txs \<noteq> length tx_hashes
                    then st_throw (MpMisMatch (length tx_hashes) (length txs))
                    else st_return txs))"

fun check_dup_loop :: "hash set \<Rightarrow> hash list \<Rightarrow> mempool_error + unit" where
  "check_dup_loop dup_set [] = Inr ()"
| "check_dup_loop dup_set (h # hs) =
     (if h \<in> dup_set then Inl (MpEnsureDup h) else check_dup_loop (insert h dup_set) hs)"

definition check_dup_order_hashes :: "hash list \<Rightarrow> mempool_error + unit" where
  "check_dup_order_hashes hs = check_dup_loop {} hs"

definition ensure_order_txs ::
  "'d mempool_env \<Rightarrow> bool \<Rightarrow> u64 option \<Rightarrow> hash list \<Rightarrow> ('d, 'm, unit) node_op" where
  "ensure_order_txs E network_origin height order_tx_hashes =
     st_seq (st_lift (check_dup_order_hashes order_tx_hashes))
     (st_bind (st_gets (show_unknown_txs order_tx_hashes)) (\<lambda>unknown_hashes.
       if unknown_hashes = [] then st_return ()
       else
         st_bind (pull_txs E height unknown_hashes) (\<lambda>txs.
         if length txs \<noteq> length unknown_hashes
         then st_throw (MpEnsureBreak (length unknown_hashes) (length txs))
         else
           st_seq (verify_tx_in_parallel E network_origin txs)
           (st_seq (st_each (\<lambda>tx. on_pool (pool_insert tx)) txs)
                   (report_good network_origin)))))"

section \<open>Message handlers\<close>

text \<open>
  \<open>NewTxsHandler\<close> inserts the received transactions, each in its own task whose result
  only feeds a counter; \<open>order\<close> is the order in which the scheduler runs the tasks.
\<close>

definition new_txs_handler ::
  "'d mempool_env \<Rightarrow> (signed_transaction list \<Rightarrow> signed_transaction list) \<Rightarrow> signed_transaction list
   \<Rightarrow> ('d, 'm) node_state_scheme \<Rightarrow> ('d, 'm) node_state_scheme \<times> trust_feedback" where
  "new_txs_handler E order batch_stxs s =
     (foldl (\<lambda>s tx. fst (mempool_insert E True tx s)) s (order batch_stxs), FbNeutral)"

definition pull_txs_handler ::
  "'d mempool_env \<Rightarrow> u64 option \<Rightarrow> hash list \<Rightarrow> ('d, 'm) node_state_scheme
   \<Rightarrow> ('d, 'm) node_state_scheme \<times> (mempool_error + signed_transaction list) \<times> trust_feedback" where
  "pull_txs_handler E height hashes s =
     (case get_full_txs E height hashes s of (s', ret) \<Rightarrow> (s', ret, FbNeutral))"

section \<open>The broadcasting task\<close>

text \<open>
  \<open>IntervalTxsBroadcaster::broadcast\<close> waits for a transaction or for the timer. Its
  state is the transactions it has collected and the batches it has sent.
\<close>

datatype broadcast_event = BcTx signed_transaction | BcTick

definition do_broadcast ::
  "signed_transaction list \<times> signed_transaction list list \<Rightarrow> signed_transaction list \<times> signed_transaction list list" where
  "do_broadcast st = (case st of (txs_cache, sent) \<Rightarrow> if txs_cache = [] then st else ([], sent @ [txs_cache]))"

definition broadcast_step ::
  "nat \<Rightarrow> signed_transaction list \<times> signed_transaction list list \<Rightarrow> broadcast_event
   \<Rightarrow> signed_transaction list \<times> signed_transaction list list" where
  "broadcast_step tx_size st ev =
     (case ev of
        BcTx stx \<Rightarrow>
          (case st of (txs_cache, sent) \<Rightarrow>
             let txs_cache = txs_cache @ [stx]
             in if length txs_cache = tx_size then do_broadcast (txs_cache, sent) else (txs_cache, sent))
      | BcTick \<Rightarrow> do_broadcast st)"

definition broadcast_run ::
  "nat \<Rightarrow> broadcast_event list \<Rightarrow> signed_transaction list \<times> signed_transaction list list" where
  "broadcast_run tx_size evs = foldl (broadcast_step tx_size) ([], []) evs"

section \<open>Frames\<close>

lemma keeps_on_storage [frame_intros]:
  "(\<And>s x. f (s\<lparr>nd_storage := x\<rparr>) = f s) \<Longrightarrow> keeps f (on_storage op)"
  by (simp add: keeps_def on_storage_def split: prod.split sum.split)

lemma keeps_on_pool [frame_intros]:
  "(\<And>s x. f (s\<lparr>nd_pool := x\<rparr>) = f s) \<Longrightarrow> keeps f (on_pool op)"
  by (simp add: keeps_def on_pool_def split: prod.split sum.split pool_error.split)

lemma keeps_report [frame_intros]:
  "(\<And>s x. f (s\<lparr>nd_reports := x\<rparr>) = f s) \<Longrightarrow> keeps f (net_report c fb)"
  unfolding net_report_def by (intro frame_intros) simp

lemma keeps_check_authorization [frame_intros]:
  assumes "\<And>s x. f (s\<lparr>nd_storage := x\<rparr>) = f s" and "\<And>s x. f (s\<lparr>nd_addr_nonce := x\<rparr>) = f s"
  shows "keeps f (check_authorization E tx)"
  unfolding check_authorization_def check_system_script_tx_authorization_def
  by (intro frame_intros) (rule assms)+

lemma keeps_check_transaction [frame_intros]:
  assumes "\<And>s x. f (s\<lparr>nd_reports := x\<rparr>) = f s"
  shows "keeps f (check_transaction E origin tx)"
  unfolding check_transaction_def prod.case
  by (intro frame_intros) (rule assms)+

lemma keeps_check_storage_exist [frame_intros]:
  assumes "\<And>s x. f (s\<lparr>nd_storage := x\<rparr>) = f s"
  shows "keeps f (check_storage_exist E h)"
  unfolding check_storage_exist_def by (intro frame_intros) (rule assms)+

lemma keeps_verify_one [frame_intros]:
  assumes "\<And>s x. f (s\<lparr>nd_storage := x\<rparr>) = f s" and "\<And>s x. f (s\<lparr>nd_addr_nonce := x\<rparr>) = f s"
    and "\<And>s x. f (s\<lparr>nd_reports := x\<rparr>) = f s"
  shows "keeps f (verify_one E origin tx)"
  unfolding verify_one_def by (intro frame_intros) (rule assms)+

lemma keeps_join_all [frame_intros]: "(\<And>x. keeps f (task x)) \<Longrightarrow> keeps f (join_all task xs)"
  unfolding keeps_def
proof (intro allI)
  fix s assume "\<And>x. \<forall>s. f (fst (task x s)) = f s"
  then show "f (fst (join_all task xs s)) = f s"
    by (induction xs arbitrary: s) (auto split: prod.splits sum.splits, (metis fst_conv)+)
qed

lemma join_all_ok: "\<exists>s' ok. join_all task xs s = (s', Inr ok)"
proof (induction xs arbitrary: s)
  case (Cons x xs)
  obtain s1 r where "task x s = (s1, r)" by fastforce
  moreover obtain s2 ok where "join_all task xs s1 = (s2, Inr ok)" using Cons by blast
  ultimately show ?case by simp
qed auto

lemma on_pool_ok: "on_pool op s = (s', Inr v) \<longleftrightarrow> (\<exists>p. op (nd_pool s) = (p, Inr v) \<and> s' = s\<lparr>nd_pool := p\<rparr>)"
  by (auto simp: on_pool_def split: prod.splits sum.splits pool_error.splits)

section \<open>What an accepted transaction has passed\<close>

text \<open>The nonce the next transaction of an account is compared with.\<close>

definition known_nonce :: "'d mempool_env \<Rightarrow> ('d, 'm) node_state_scheme \<Rightarrow> h160 \<Rightarrow> u256 option" where
  "known_nonce E s addr =
     (case nd_addr_nonce s addr of
        Some n \<Rightarrow> Some n
      | None \<Rightarrow> (case mp_from_root E (nd_state_root s) of Inl _ \<Rightarrow> None | Inr f \<Rightarrow> Some (f addr)))"

definition statically_valid :: "'d mempool_env \<Rightarrow> ('d, 'm) node_state_scheme \<Rightarrow> signed_transaction \<Rightarrow> bool" where
  "statically_valid E s tx \<longleftrightarrow>
     (\<exists>sig public bs. utx_signature (stx_transaction tx) = Some sig \<and> stx_public tx = Some public \<and>
        utx_rlp_bytes (mp_rlp E) (stx_transaction tx) = Some bs \<and> length bs \<le> nd_max_tx_size s \<and>
        unat (tx_gas_limit (stx_unsigned tx)) \<le> unat (nd_gas_limit s) \<and>
        utx_chain_id (stx_transaction tx) = mp_chain_id E \<and>
        verify_stx_signature E tx sig public = Inr ())"

lemma nonce_verdict_ok: "nonce_verdict n tx = Inr () \<longleftrightarrow> n < tx_nonce (stx_unsigned tx)"
  by (auto simp: nonce_verdict_def res_bind_eq_Inr)

lemma check_authorization_ok:
  assumes "check_authorization E tx s = (s', Inr ())" and "\<not> is_call_system_script (tx_action (stx_unsigned tx))"
  shows "\<exists>n. known_nonce E s (stx_sender tx) = Some n \<and> n < tx_nonce (stx_unsigned tx) \<and>
    known_nonce E s' (stx_sender tx) = Some n"
proof (cases "nd_addr_nonce s (stx_sender tx)")
  case None
  then obtain f where f: "mp_from_root E (nd_state_root s) = Inr f"
    and s': "s' = s\<lparr>nd_addr_nonce := (nd_addr_nonce s)(stx_sender tx \<mapsto> f (stx_sender tx))\<rparr>"
    and "f (stx_sender tx) < tx_nonce (stx_unsigned tx)"
    using assms
    by (auto simp: check_authorization_def st_bind_apply st_seq_apply nonce_verdict_ok split: sum.splits)
  with None show ?thesis by (simp add: known_nonce_def)
next
  case (Some n)
  with assms show ?thesis
    by (auto simp: check_authorization_def st_bind_apply nonce_verdict_ok known_nonce_def)
qed

lemma as_u64_le:
  assumes "as_u64 x = Inr y"
  shows "unat y = unat x"
proof -
  from assms have "unat x < 2 ^ 64" and "y = ucast x" by (auto simp: as_u64_def split: if_splits)
  then show ?thesis by (simp add: unsigned_ucast_eq take_bit_nat_eq_self)
qed

lemma check_transaction_ok:
  assumes "check_transaction E origin tx s = (s', Inr ())"
  shows "statically_valid E s tx"
proof -
  obtain sig public where sp: "utx_signature (stx_transaction tx) = Some sig" "stx_public tx = Some public"
    using assms by (auto simp: check_transaction_def split: option.splits)
  obtain bs where bs: "utx_rlp_bytes (mp_rlp E) (stx_transaction tx) = Some bs"
    using assms sp by (auto simp: check_transaction_def st_bind_ok ok_or_def split: option.splits)
  obtain g where g: "as_u64 (tx_gas_limit (stx_unsigned tx)) = Inr g"
    using assms sp bs
    by (auto simp: check_transaction_def st_bind_ok st_seq_ok ok_or_def split: if_splits)
  have "length bs \<le> nd_max_tx_size s" "g \<le> nd_gas_limit s" "utx_chain_id (stx_transaction tx) = mp_chain_id E"
    "verify_stx_signature E tx sig public = Inr ()"
    using assms sp bs g
    by (auto simp: check_transaction_def st_bind_ok st_seq_ok ok_or_def split: if_splits)
  with sp bs as_u64_le [OF g] show ?thesis
    by (auto simp: statically_valid_def word_le_nat_alt)
qed


lemma pool_insert_found:
  assumes "pool_insert tx p = (p', Inr ())"
  shows "map_of (pl_tx_map p') = (map_of (pl_tx_map p))(stx_hash tx \<mapsto> tx)"
  using assms
  by (auto simp: pool_insert_def get_tx_ptr_def co_push_def Let_def update_conv' split: if_splits)

lemma get_by_hash_map: "map_of (pl_tx_map p) h = Some tx \<Longrightarrow> get_by_hash p h = Some tx"
  by (simp add: get_by_hash_def)

lemma sys_insert_found:
  assumes "insert_system_script_tx tx p = (p', Inr ())" and "map_of (pl_tx_map p) (stx_hash tx) = None"
  shows "get_by_hash p' (stx_hash tx) = Some tx"
proof -
  have "map_of (btree_insert h tx m) h = Some tx" for h m
    by (induction h tx m rule: btree_insert.induct) auto
  with assms show ?thesis
    by (auto simp: insert_system_script_tx_def get_by_hash_def sys_bucket_get_def sys_bucket_insert_def Let_def
        update_conv')
qed

text \<open>
  The checks in front of an insertion leave the pool, the outgoing transactions and
  the limits alone.
\<close>

lemma verify_one_keeps:
  "keeps nd_pool (verify_one E origin tx)" "keeps nd_stx_tx (verify_one E origin tx)"
  "keeps nd_stx_open (verify_one E origin tx)" "keeps nd_err_rx (verify_one E origin tx)"
  by (intro frame_intros; simp)+

lemma verify_one_ok:
  assumes "verify_one E origin tx s = (s', Inr ())"
  shows "statically_valid E s tx" 
    and "\<not> is_call_system_script (tx_action (stx_unsigned tx)) \<Longrightarrow>
      \<exists>n. known_nonce E s (stx_sender tx) = Some n \<and> n < tx_nonce (stx_unsigned tx)"
    and "\<exists>s1. snd (get_transaction_by_hash (mp_adapter E) (mp_storage E) (stx_hash tx) (nd_storage s1)) = Inr None \<and>
      (\<exists>r. check_transaction E origin tx (fst (check_authorization E tx s)) = (s1, r))"
proof -
  obtain s1 s2 where a: "check_authorization E tx s = (s1, Inr ())"
    and t: "check_transaction E origin tx s1 = (s2, Inr ())"
    and x: "check_storage_exist E (stx_hash tx) s2 = (s', Inr ())"
    using assms by (auto simp: verify_one_def st_seq_ok)
  have "keeps nd_max_tx_size (check_authorization E tx :: ('a, 'b, unit) node_op)"
    "keeps nd_gas_limit (check_authorization E tx :: ('a, 'b, unit) node_op)"
    by (intro frame_intros; simp)+
  then have "nd_max_tx_size s1 = nd_max_tx_size s" "nd_gas_limit s1 = nd_gas_limit s"
    using a by (auto dest: keepsD)
  with check_transaction_ok [OF t] show "statically_valid E s tx" by (simp add: statically_valid_def)
  show "\<exists>n. known_nonce E s (stx_sender tx) = Some n \<and> n < tx_nonce (stx_unsigned tx)"
    if "\<not> is_call_system_script (tx_action (stx_unsigned tx))"
    using check_authorization_ok [OF a that] by blast
  have "snd (get_transaction_by_hash (mp_adapter E) (mp_storage E) (stx_hash tx) (nd_storage s2)) = Inr None"
    using x by (auto simp: check_storage_exist_def st_bind_ok on_storage_def split: option.splits prod.splits sum.splits)
  with a t show "\<exists>s1. snd (get_transaction_by_hash (mp_adapter E) (mp_storage E) (stx_hash tx) (nd_storage s1)) = Inr None \<and>
      (\<exists>r. check_transaction E origin tx (fst (check_authorization E tx s)) = (s1, r))"
    by auto
qed


section \<open>Properties\<close>

text \<open>A node with an empty database and a pool of ten, for concrete runs.\<close>

definition sample_node :: "mem_db node_state" where
  "sample_node =
     \<lparr>nd_storage = sample_storage, nd_metadata = Map.empty, nd_state_root = 0, nd_pool = pool_new 10,
      nd_addr_nonce = Map.empty, nd_gas_limit = 30000, nd_max_tx_size = 1000, nd_stx_open = True,
      nd_stx_tx = [], nd_err_rx = [], nd_reports = []\<rparr>"

definition sample_mempool_env :: "mem_db mempool_env" where
  "sample_mempool_env =
     \<lparr>mp_adapter = memory_adapter id, mp_storage = sample_senv, mp_metadata = sample_metadata_env [],
      mp_chain_id = 5, mp_rlp = sample_rlp_lib, mp_keccak = (\<lambda>bs. replicate 32 0),
      mp_from_root = (\<lambda>_. Inr (\<lambda>_. 0)), mp_secp256k1_verify = (\<lambda>_ _ _. Inr ()),
      mp_ckb_vm_verify = (\<lambda>_. Inr ()), mp_pull_txs = (\<lambda>_ _. Inr [sample_stx 9 8 7 6])\<rparr>"

text \<open>\<open>insert\<close> is the checks, the pool insertion and the announcement, one after the other.\<close>

definition pool_put :: "signed_transaction \<Rightarrow> ('d, 'm, unit) node_op" where
  "pool_put tx =
     (if is_call_system_script (tx_action (stx_unsigned tx)) then on_pool (insert_system_script_tx tx)
      else on_pool (pool_insert tx))"

definition announce :: "bool \<Rightarrow> signed_transaction \<Rightarrow> ('d, 'm, unit) node_op" where
  "announce origin tx = (if origin then report_good origin else broadcast_tx tx)"

lemma mempool_insert_steps:
  "\<not> reach_limit (nd_pool s) \<Longrightarrow>
   mempool_insert E origin tx s = st_seq (verify_one E origin tx) (st_seq (pool_put tx) (announce origin tx)) s"
  by (simp add: mempool_insert_def insert_tx_def verify_one_def st_seq_assoc pool_put_def announce_def)

lemma announce_cases:
  "announce origin tx s = (s', r) \<Longrightarrow> nd_pool s' = nd_pool s \<and>
   (r = Inr () \<longrightarrow> nd_stx_tx s' = (if origin then nd_stx_tx s else nd_stx_tx s @ [tx])) \<and>
   (\<forall>e. r = Inl e \<longrightarrow> \<not> origin \<and> (e = MpIntervalBroadcasterDrop \<or> e \<in> set (nd_err_rx s)))"
  by (auto simp: announce_def report_good_def net_report_def st_when_def broadcast_tx_def Let_def
      split: if_splits list.splits)

lemma pool_put_ok:
  assumes "pool_put tx s = (s', Inr ())"
  shows "nd_stx_tx s' = nd_stx_tx s"
    and "\<not> is_call_system_script (tx_action (stx_unsigned tx)) \<or> map_of (pl_tx_map (nd_pool s)) (stx_hash tx) = None \<Longrightarrow>
      get_by_hash (nd_pool s') (stx_hash tx) = Some tx"
proof -
  show "nd_stx_tx s' = nd_stx_tx s" using assms by (auto simp: pool_put_def on_pool_ok split: if_splits)
  assume new: "\<not> is_call_system_script (tx_action (stx_unsigned tx)) \<or> map_of (pl_tx_map (nd_pool s)) (stx_hash tx) = None"
  show "get_by_hash (nd_pool s') (stx_hash tx) = Some tx"
  proof (cases "is_call_system_script (tx_action (stx_unsigned tx))")
    case True
    with assms new show ?thesis by (auto simp: pool_put_def on_pool_ok intro: sys_insert_found)
  next
    case False
    with assms obtain p where "pool_insert tx (nd_pool s) = (p, Inr ())" "s' = s\<lparr>nd_pool := p\<rparr>"
      by (auto simp: pool_put_def on_pool_ok)
    then show ?thesis by (simp add: get_by_hash_map pool_insert_found)
  qed
qed

lemma pool_put_fail:
  assumes "pool_put tx s = (s', Inl e)"
  shows "nd_pool s' = nd_pool s"
  using assms
  by (auto simp: pool_put_def on_pool_def insert_system_script_tx_def pool_insert_def get_tx_ptr_def Let_def
      split: if_splits)

lemma mempool_insert_accepts:
  assumes "mempool_insert E origin tx s = (s', Inr ())"
  shows "statically_valid E s tx"
    and "\<not> is_call_system_script (tx_action (stx_unsigned tx)) \<Longrightarrow>
      \<exists>n. known_nonce E s (stx_sender tx) = Some n \<and> n < tx_nonce (stx_unsigned tx)"
    and "\<not> is_call_system_script (tx_action (stx_unsigned tx)) \<or> map_of (pl_tx_map (nd_pool s)) (stx_hash tx) = None \<Longrightarrow>
      get_by_hash (nd_pool s') (stx_hash tx) = Some tx"
    and "nd_stx_tx s' = (if origin then nd_stx_tx s else nd_stx_tx s @ [tx])"
proof -
  have "\<not> reach_limit (nd_pool s)" using assms by (auto simp: mempool_insert_def insert_tx_def split: if_splits)
  then obtain s1 s2 where v: "verify_one E origin tx s = (s1, Inr ())"
    and p: "pool_put tx s1 = (s2, Inr ())" and a: "announce origin tx s2 = (s', Inr ())"
    using assms by (auto simp: mempool_insert_steps st_seq_ok)
  show "statically_valid E s tx"
    "\<not> is_call_system_script (tx_action (stx_unsigned tx)) \<Longrightarrow>
      \<exists>n. known_nonce E s (stx_sender tx) = Some n \<and> n < tx_nonce (stx_unsigned tx)"
    using verify_one_ok [OF v] by blast+
  have keep: "nd_pool s1 = nd_pool s" "nd_stx_tx s1 = nd_stx_tx s"
    using keepsD [OF verify_one_keeps(1) v] keepsD [OF verify_one_keeps(2) v] by simp_all
  show "get_by_hash (nd_pool s') (stx_hash tx) = Some tx"
    if "\<not> is_call_system_script (tx_action (stx_unsigned tx)) \<or> map_of (pl_tx_map (nd_pool s)) (stx_hash tx) = None"
    using pool_put_ok(2) [OF p] that keep announce_cases [OF a] by simp
  show "nd_stx_tx s' = (if origin then nd_stx_tx s else nd_stx_tx s @ [tx])"
    using pool_put_ok(1) [OF p] keep announce_cases [OF a] by simp
qed

lemma mempool_insert_rejects:
  assumes "mempool_insert E origin tx s = (s', Inl e)"
  shows "nd_pool s' = nd_pool s \<or> (\<not> origin \<and> (e = MpIntervalBroadcasterDrop \<or> e \<in> set (nd_err_rx s)))"
proof (cases "reach_limit (nd_pool s)")
  case True
  then show ?thesis using assms by (auto simp: mempool_insert_def insert_tx_def)
next
  case False
  obtain s1 r1 where v: "verify_one E origin tx s = (s1, r1)" by fastforce
  have keep: "nd_pool s1 = nd_pool s" "nd_err_rx s1 = nd_err_rx s"
    using keepsD [OF verify_one_keeps(1) v] keepsD [OF verify_one_keeps(4) v] by simp_all
  have "keeps nd_err_rx (pool_put tx :: ('a, 'b, unit) node_op)"
    unfolding pool_put_def by (intro frame_intros; simp)
  with assms False v keep show ?thesis
    by (auto simp: mempool_insert_steps st_seq_fail dest!: pool_put_fail announce_cases dest: keepsD)
qed


definition sample_signed :: signed_transaction where
  "sample_signed =
     (sample_stx 5 2 3 4)\<lparr>stx_transaction := (stx_transaction (sample_stx 5 2 3 4))
        \<lparr>utx_signature := Some \<lparr>sc_r = [1], sc_s = [2], sc_standard_v = 2\<rparr>\<rparr>, stx_public := Some 0\<rparr>"

lemma sample_signed_simps [simp]:
  "stx_hash sample_signed = 5" "stx_sender sample_signed = 2" "tx_nonce (stx_unsigned sample_signed) = 3"
  "tx_action (stx_unsigned sample_signed) = Create" "tx_gas_limit (stx_unsigned sample_signed) = 21000"
  "utx_chain_id (stx_transaction sample_signed) = 5" "stx_public sample_signed = Some 0"
  "utx_signature (stx_transaction sample_signed) = Some \<lparr>sc_r = [1], sc_s = [2], sc_standard_v = 2\<rparr>"
  by (simp_all add: sample_signed_def sample_stx_def)

lemma sample_encodes:
  "utx_rlp_bytes sample_rlp_lib (stx_transaction sample_signed) = Some [2]"
  "\<exists>h. signature_hash sample_rlp_lib k (stx_transaction sample_signed) = Some h"
  by (simp_all add: utx_rlp_bytes_def utx_encode_def Let_def signature_append_def signature_hash_def
      transaction_encode_def is_eth_sig_def sample_rlp_lib_def word_le_nat_alt)

lemma sample_not_stored:
  "\<exists>d. get_transaction_by_hash (memory_adapter id) sample_senv h sample_storage = (sample_storage\<lparr>is_db := d\<rparr>, Inr None)"
  by (simp add: get_transaction_by_hash_def cached_get_def sample_storage_def storage_new_def get_at_number_def
      schema_get_def st_bind_apply st_seq_apply memory_adapter_def mem_get_def mem_new_def mem_entry_def)

lemma sample_accepted: "\<exists>s'. mempool_insert sample_mempool_env False sample_signed sample_node = (s', Inr ())"
proof -
  obtain d where d: "get_transaction_by_hash (memory_adapter id) sample_senv 5 sample_storage =
      (sample_storage\<lparr>is_db := d\<rparr>, Inr None)"
    using sample_not_stored by blast
  obtain h where h: "signature_hash sample_rlp_lib (\<lambda>bs. replicate 32 0) (stx_transaction sample_signed) = Some h"
    using sample_encodes(2) by blast
  have "\<not> reach_limit (pool_new 10)" by (simp add: reach_limit_def pool_len_def pool_new_def)
  then show ?thesis
    using d h sample_encodes(1)
    by (simp add: mempool_insert_def insert_tx_def is_call_system_script_def check_authorization_def
        check_transaction_def check_storage_exist_def verify_stx_signature_def signature_type_try_from_def
        nonce_verdict_def as_u64_def sample_mempool_env_def sample_node_def st_bind_apply st_seq_apply ok_or_def
        on_storage_def on_pool_def pool_insert_def get_tx_ptr_def Let_def broadcast_tx_def)
qed



text \<open>
  When every requested hash is in the pool, \<open>get_full_txs\<close> returns
  exactly those transactions, in the requested order, without touching the storage.
  In general it succeeds only with as many transactions as hashes were asked for:
  the ones of the pool first, then the ones of the storage, so the order is kept
  within each group only.
\<close>

theorem get_full_txs_correct:
  "((\<forall>h\<in>set hs. get_by_hash (nd_pool s) h \<noteq> None) \<longrightarrow>
      get_full_txs E height hs s = (s, Inr (map (\<lambda>h. the (get_by_hash (nd_pool s) h)) hs))) \<and>
   (get_full_txs E height hs s = (s', Inr txs) \<longrightarrow>
      length txs = length hs \<and> nd_pool s' = nd_pool s \<and>
      (\<exists>found. txs = List.map_filter (get_by_hash (nd_pool s)) hs @ List.map_filter id found \<and>
         (found \<noteq> [] \<longrightarrow>
            snd (get_transactions_from_storage E height
                   (filter (\<lambda>h. get_by_hash (nd_pool s) h = None) hs) s) = Inr found)))"
proof (intro conjI impI)
  assume "\<forall>h\<in>set hs. get_by_hash (nd_pool s) h \<noteq> None"
  then have "filter (\<lambda>h. get_by_hash (nd_pool s) h = None) hs = []"
    "List.map_filter (get_by_hash (nd_pool s)) hs = map (\<lambda>h. the (get_by_hash (nd_pool s) h)) hs"
    by (auto simp: filter_empty_conv List.map_filter_def filter_id_conv)
  then show "get_full_txs E height hs s = (s, Inr (map (\<lambda>h. the (get_by_hash (nd_pool s) h)) hs))"
    by (simp add: get_full_txs_def Let_def st_bind_apply)
next
  let ?miss = "filter (\<lambda>h. get_by_hash (nd_pool s) h = None) hs"
  let ?full = "List.map_filter (get_by_hash (nd_pool s)) hs"
  assume run: "get_full_txs E height hs s = (s', Inr txs)"
  then show "length txs = length hs"
    by (auto simp: get_full_txs_def Let_def st_bind_ok split: if_splits)
  have "keeps nd_pool (get_full_txs E height hs)"
    unfolding get_full_txs_def Let_def get_transactions_from_storage_def by (intro frame_intros; simp)
  then show "nd_pool s' = nd_pool s" using run by (rule keepsD)
  show "\<exists>found. txs = ?full @ List.map_filter id found \<and>
      (found \<noteq> [] \<longrightarrow> snd (get_transactions_from_storage E height ?miss s) = Inr found)"
  proof (cases "?miss = []")
    case True
    with run have "txs = ?full" by (auto simp: get_full_txs_def Let_def st_bind_ok split: if_splits)
    then show ?thesis by (intro exI [of _ "[]"]) (simp add: List.map_filter_def)
  next
    case False
    with run show ?thesis
      by (auto simp: get_full_txs_def Let_def st_bind_ok split: if_splits)
  qed
qed

theorem get_full_txs_correct_witness:
  "get_full_txs sample_mempool_env None [2, 3] (sample_node\<lparr>nd_pool := sample_pool\<rparr>) =
     (sample_node\<lparr>nd_pool := sample_pool\<rparr>, Inr [sample_stx 2 7 1 10, sample_stx 3 7 5 20])"
proof -
  have "get_by_hash sample_pool 2 = Some (sample_stx 2 7 1 10)" "get_by_hash sample_pool 3 = Some (sample_stx 3 7 5 20)"
    by (simp_all add: sample_pool_def pool_insert_def insert_system_script_tx_def get_tx_ptr_def co_push_def Let_def
        reach_limit_def pool_len_def pool_new_def get_by_hash_def)
  then show ?thesis
    using get_full_txs_correct [of "[2, 3]" "sample_node\<lparr>nd_pool := sample_pool\<rparr>" sample_mempool_env None]
    by simp
qed


lemma known_nonce_pool [simp]: "known_nonce E (s\<lparr>nd_pool := p\<rparr>) a = known_nonce E s a"
  by (simp add: known_nonce_def cong: option.case_cong)

lemma check_authorization_known: "known_nonce E (fst (check_authorization E tx s)) a = known_nonce E s a"
proof (cases "is_call_system_script (tx_action (stx_unsigned tx))")
  case True
  have "keeps (\<lambda>s. (nd_addr_nonce s, nd_state_root s))
      (check_system_script_tx_authorization E tx :: ('a, 'b, unit) node_op)"
    unfolding check_system_script_tx_authorization_def by (intro frame_intros; simp)
  with True show ?thesis
    by (simp add: known_nonce_def keeps_def check_authorization_def cong: option.case_cong)
next
  case False
  then show ?thesis
    by (auto simp: check_authorization_def st_bind_apply st_seq_apply known_nonce_def split: option.splits sum.splits)
qed

lemma check_authorization_verdict:
  assumes "\<not> is_call_system_script (tx_action (stx_unsigned tx))"
  shows "is_ok (snd (check_authorization E tx s)) \<longleftrightarrow>
    (\<exists>n. known_nonce E s (stx_sender tx) = Some n \<and> n < tx_nonce (stx_unsigned tx))"
  using assms
  by (auto simp: check_authorization_def st_bind_apply st_seq_apply known_nonce_def is_ok_def nonce_verdict_ok
      nonce_verdict_def not_less res_bind_def as_u64_def split: option.splits sum.splits if_splits)

lemma nonce_checks_frame:
  "nonce_checks E txs s = (s', oks) \<Longrightarrow> known_nonce E s' a = known_nonce E s a \<and> nd_pool s' = nd_pool s"
proof (induction txs arbitrary: s s' oks)
  case Nil
  then show ?case by simp
next
  case (Cons tx txs)
  obtain s1 r where s1: "check_authorization E tx s = (s1, r)" by fastforce
  obtain s2 oks2 where s2: "nonce_checks E txs s1 = (s2, oks2)" by fastforce
  have "s' = s2" using Cons.prems s1 s2 by (auto simp: Let_def)
  moreover have "known_nonce E s1 a = known_nonce E s a"
    using check_authorization_known [of E tx s] s1 by simp
  moreover have "keeps nd_pool (check_authorization E tx :: ('a, 'b, unit) node_op)" by (intro frame_intros; simp)
  then have "nd_pool s1 = nd_pool s" using s1 by (auto dest: keepsD)
  ultimately show ?case using Cons.IH [OF s2] by simp
qed

lemma nonce_checks_mem:
  assumes "\<not> is_call_system_script (tx_action (stx_unsigned tx))"
  shows "nonce_checks E txs s = (s', oks) \<Longrightarrow>
    tx \<in> set oks \<longleftrightarrow>
      tx \<in> set txs \<and> (\<exists>n. known_nonce E s (stx_sender tx) = Some n \<and> n < tx_nonce (stx_unsigned tx))"
proof (induction txs arbitrary: s s' oks)
  case Nil
  then show ?case by simp
next
  case (Cons tx' txs)
  obtain s1 r where s1: "check_authorization E tx' s = (s1, r)" by fastforce
  obtain s2 oks2 where s2: "nonce_checks E txs s1 = (s2, oks2)" by fastforce
  have oks: "oks = (if is_ok r then tx' # oks2 else oks2)"
    using Cons.prems s1 s2 by (auto simp: Let_def)
  have known: "known_nonce E s1 b = known_nonce E s b" for b
    using check_authorization_known [of E tx' s] s1 by simp
  show ?case
  proof (cases "tx = tx'")
    case True
    then have "is_ok r \<longleftrightarrow> (\<exists>n. known_nonce E s (stx_sender tx) = Some n \<and> n < tx_nonce (stx_unsigned tx))"
      using check_authorization_verdict [OF assms, of E s] s1 by simp
    with True Cons.IH [OF s2] show ?thesis by (auto simp: oks known)
  next
    case False
    with Cons.IH [OF s2] show ?thesis by (simp add: oks known)
  qed
qed

text \<open>
  Flushing the mempool removes every flushed hash and keeps, of the
  other transactions that were not replaced, exactly those whose nonce is above the
  known nonce of their sender; asking for the nonces changes no known nonce, and the
  pool stays well-formed.
\<close>

theorem mempool_flush_correct:
  assumes "pool_wf D (nd_pool s)" and "\<And>xs. mset (iter xs) = mset xs"
  shows "\<exists>s'. mempool_flush E iter hs s = (s', Inr ()) \<and> pool_wf D (nd_pool s') \<and>
    (\<forall>a. known_nonce E s' a = known_nonce E s a) \<and>
    (\<forall>h\<in>set hs. \<not> pool_contains (nd_pool s') h) \<and>
    (\<forall>h tx. \<not> is_call_system_script (tx_action (stx_unsigned tx)) \<longrightarrow>
       (map_of (pl_tx_map (nd_pool s')) h = Some tx \<longleftrightarrow>
          map_of (pl_tx_map (nd_pool s)) h = Some tx \<and> h \<notin> set hs \<and> h \<notin> dropped_hashes (nd_pool s) \<and>
          (\<exists>n. known_nonce E s (stx_sender tx) = Some n \<and> n < tx_nonce (stx_unsigned tx))))"
proof -
  let ?cand = "pl_tx_map (get_residual hs (\<lambda>_. True) (nd_pool s))"
  obtain s1 oks where run: "nonce_checks E (map snd (iter ?cand)) s = (s1, oks)" by fastforce
  define p' where "p' = pool_flush iter hs (\<lambda>tx. tx \<in> set oks) (nd_pool s)"
  have dist: "distinct (map fst (pl_tx_map (nd_pool s)))" using assms(1) by (simp add: pool_wf_def map_inv_def)
  have cand: "set (iter ?cand) = set ?cand" by (rule mset_eq_setD [OF assms(2)])
  note checks = nonce_checks_frame [OF run]
  have look: "map_of (pl_tx_map p') h = (case map_of (pl_tx_map (nd_pool s)) h of None \<Rightarrow> None
      | Some tx \<Rightarrow> if h \<notin> set hs \<and> h \<notin> dropped_hashes (nd_pool s) \<and> tx \<in> set oks then Some tx else None)" for h
    unfolding p'_def pool_flush_frame get_residual_tx_map map_of_filter_key [OF dist] ..
  have exact: "map_of (pl_tx_map p') h = Some tx \<longleftrightarrow>
      map_of (pl_tx_map (nd_pool s)) h = Some tx \<and> h \<notin> set hs \<and> h \<notin> dropped_hashes (nd_pool s) \<and>
      (\<exists>n. known_nonce E s (stx_sender tx) = Some n \<and> n < tx_nonce (stx_unsigned tx))"
    if "\<not> is_call_system_script (tx_action (stx_unsigned tx))" for h tx
  proof (cases "map_of (pl_tx_map (nd_pool s)) h = Some tx \<and> h \<notin> set hs \<and> h \<notin> dropped_hashes (nd_pool s)")
    case True
    then have "(h, tx) \<in> set ?cand" by (auto simp: get_residual_tx_map dest: map_of_SomeD)
    then have "tx \<in> set (map snd (iter ?cand))" using cand by force
    with True show ?thesis by (simp add: look nonce_checks_mem [OF that run])
  next
    case False
    then show ?thesis by (auto simp: look split: option.splits if_splits)
  qed
  have gone: "\<not> pool_contains p' h" if "h \<in> set hs" for h
    using that look [of h]
    by (auto simp: p'_def pool_contains_def sys_bucket_contains_def pool_flush_frame(4) sys_bucket_flush_map
        split: option.splits)
  have "mempool_flush E iter hs s = (s1\<lparr>nd_pool := p'\<rparr>, Inr ())"
    using run by (simp add: mempool_flush_def Let_def p'_def)
  moreover have "pool_wf D p'" unfolding p'_def by (rule pool_flush_wf [OF assms])
  moreover have "known_nonce E (s1\<lparr>nd_pool := p'\<rparr>) a = known_nonce E s a" for a
    using checks by simp
  ultimately show ?thesis using exact gone by (intro exI [of _ "s1\<lparr>nd_pool := p'\<rparr>"]) simp
qed

theorem mempool_flush_correct_witness:
  "\<exists>s'. mempool_flush sample_mempool_env id [2] (sample_node\<lparr>nd_pool := sample_pool\<rparr>) = (s', Inr ()) \<and>
     \<not> pool_contains (nd_pool s') 2"
proof -
  have "pool_wf (\<lambda>_. []) (nd_pool (sample_node\<lparr>nd_pool := sample_pool\<rparr>))"
    using reachable_wf [OF sample_pool_reachable] by simp
  from mempool_flush_correct [OF this mset_id, of sample_mempool_env "[2]"] show ?thesis
    unfolding id_def by auto
qed


lemma check_dup_loop_ok: "check_dup_loop D hs = Inr () \<longleftrightarrow> distinct hs \<and> set hs \<inter> D = {}"
  by (induction hs arbitrary: D) auto

lemma check_dup_loop_result:
  "check_dup_loop D hs = Inr () \<or> (\<exists>h\<in>set hs. check_dup_loop D hs = Inl (MpEnsureDup h))"
  by (induction hs arbitrary: D) auto

lemma each_insert_found:
  "st_each (\<lambda>tx. on_pool (pool_insert tx)) txs s = (s', Inr u) \<Longrightarrow>
   (\<forall>h. map_of (pl_tx_map (nd_pool s)) h \<noteq> None \<or> h \<in> stx_hash ` set txs \<longrightarrow>
      map_of (pl_tx_map (nd_pool s')) h \<noteq> None)"
proof (induction txs arbitrary: s)
  case Nil
  then show ?case by simp
next
  case (Cons tx txs)
  then obtain p where p: "pool_insert tx (nd_pool s) = (p, Inr ())"
    and rest: "st_each (\<lambda>tx. on_pool (pool_insert tx)) txs (s\<lparr>nd_pool := p\<rparr>) = (s', Inr u)"
    by (auto simp: st_seq_ok on_pool_ok)
  from Cons.IH [OF rest] pool_insert_found [OF p] show ?case by auto
qed

text \<open>
  \<open>ensure_order_txs\<close> accepts an ordered list of hashes only if it has no
  duplicates and every transaction that was unknown has been answered, one for one,
  by the peer; the answered transactions are in the pool afterwards. A list with a
  duplicate is refused without any effect.
\<close>

theorem ensure_order_txs_guards:
  "(ensure_order_txs E origin height hs s = (s', Inr ()) \<longrightarrow>
      distinct hs \<and>
      (show_unknown_txs hs s = [] \<and> s' = s \<or>
       (\<exists>txs. mp_pull_txs E height (show_unknown_txs hs s) = Inr txs \<and>
          length txs = length (show_unknown_txs hs s) \<and>
          (\<forall>tx\<in>set txs. map_of (pl_tx_map (nd_pool s')) (stx_hash tx) \<noteq> None)))) \<and>
   (\<not> distinct hs \<longrightarrow> (\<exists>h\<in>set hs. ensure_order_txs E origin height hs s = (s, Inl (MpEnsureDup h))))"
proof (intro conjI impI)
  assume run: "ensure_order_txs E origin height hs s = (s', Inr ())"
  then show "distinct hs"
    by (auto simp: ensure_order_txs_def st_seq_ok check_dup_order_hashes_def check_dup_loop_ok)
  show "show_unknown_txs hs s = [] \<and> s' = s \<or>
       (\<exists>txs. mp_pull_txs E height (show_unknown_txs hs s) = Inr txs \<and>
          length txs = length (show_unknown_txs hs s) \<and>
          (\<forall>tx\<in>set txs. map_of (pl_tx_map (nd_pool s')) (stx_hash tx) \<noteq> None))"
  proof (cases "show_unknown_txs hs s = []")
    case True
    with run show ?thesis by (auto simp: ensure_order_txs_def st_seq_ok st_bind_ok)
  next
    case False
    with run obtain txs s1 s2 where txs: "mp_pull_txs E height (show_unknown_txs hs s) = Inr txs"
      "length txs = length (show_unknown_txs hs s)"
      and each: "st_each (\<lambda>tx. on_pool (pool_insert tx)) txs s1 = (s2, Inr ())"
      and rep: "report_good origin s2 = (s', Inr ())"
      by (auto simp: ensure_order_txs_def st_seq_ok st_bind_ok pull_txs_def split: if_splits sum.splits)
    have "nd_pool s' = nd_pool s2"
      using rep by (auto simp: report_good_def net_report_def st_when_def split: if_splits)
    with each_insert_found [OF each] txs show ?thesis by auto
  qed
next
  assume "\<not> distinct hs"
  then have "check_dup_loop {} hs \<noteq> Inr ()" by (simp add: check_dup_loop_ok)
  then obtain h where "h \<in> set hs" "check_dup_loop {} hs = Inl (MpEnsureDup h)"
    using check_dup_loop_result by blast
  then show "\<exists>h\<in>set hs. ensure_order_txs E origin height hs s = (s, Inl (MpEnsureDup h))"
    by (auto simp: ensure_order_txs_def st_seq_apply check_dup_order_hashes_def)
qed

theorem ensure_order_txs_guards_witness:
  "\<exists>h\<in>set [4, 4]. ensure_order_txs sample_mempool_env False None [4, 4] sample_node = (sample_node, Inl (MpEnsureDup h))"
  using ensure_order_txs_guards [of sample_mempool_env False None "[4, 4]" sample_node] by simp

text \<open>
  Property C36. The verification of pulled transactions decides nothing: if the peer
  answers a request for one unknown hash with one transaction whose check fails in
  any way short of a panic, and whose hash need not be the requested one,
  \<open>ensure_order_txs\<close> still succeeds and puts that transaction into the pool.
\<close>

theorem pulled_txs_unverified:
  assumes "\<not> pool_contains (nd_pool s) h" and "mp_pull_txs E height [h] = Inr [tx]"
    and "verify_one E origin tx s = (s1, Inl e)" and "e \<noteq> MpPanic" and "\<not> reach_limit (nd_pool s)"
  shows "\<exists>s'. ensure_order_txs E origin height [h] s = (s', Inr ()) \<and>
    get_by_hash (nd_pool s') (stx_hash tx) = Some tx"
proof -
  have pool: "nd_pool s1 = nd_pool s" using keepsD [OF verify_one_keeps(1) assms(3)] .
  have unknown: "show_unknown_txs [h] s = [h]" using assms(1) by (simp add: show_unknown_txs_def)
  obtain p where p: "pool_insert tx (nd_pool s) = (p, Inr ())"
    using assms(5) by (auto simp: pool_insert_def get_tx_ptr_def Let_def)
  obtain s' where rep: "report_good origin (s1\<lparr>nd_pool := p\<rparr>) = (s', Inr ())" "nd_pool s' = p"
    by (cases origin) (simp_all add: report_good_def net_report_def st_when_def)
  have "on_pool (pool_insert tx) s1 = (s1\<lparr>nd_pool := p\<rparr>, Inr ())" using p pool by (simp add: on_pool_def)
  then have "ensure_order_txs E origin height [h] s = (s', Inr ())"
    using assms(2-4) unknown rep(1)
    by (simp add: ensure_order_txs_def check_dup_order_hashes_def st_seq_apply st_bind_apply pull_txs_def
        verify_tx_in_parallel_def)
  moreover have "get_by_hash p (stx_hash tx) = Some tx"
    using pool_insert_found [OF p] by (simp add: get_by_hash_map)
  ultimately show ?thesis using rep(2) by auto
qed

theorem pulled_txs_unverified_witness:
  "\<exists>s'. ensure_order_txs sample_mempool_env False None [4] sample_node = (s', Inr ()) \<and>
     get_by_hash (nd_pool s') 9 = Some (sample_stx 9 8 7 6)"
proof -
  have "\<not> pool_contains (nd_pool sample_node) 4"
    by (simp add: sample_node_def pool_new_def pool_contains_def sys_bucket_contains_def sys_bucket_new_def)
  moreover have "mp_pull_txs sample_mempool_env None [4] = Inr [sample_stx 9 8 7 6]"
    by (simp add: sample_mempool_env_def)
  moreover have "\<exists>s1. verify_one sample_mempool_env False (sample_stx 9 8 7 6) sample_node =
      (s1, Inl (MpVerifySignature ''missing signature''))"
    by (simp add: verify_one_def check_authorization_def check_transaction_def is_call_system_script_def
        sample_mempool_env_def sample_node_def sample_stx_def st_seq_apply st_bind_apply nonce_verdict_def)
  moreover have "\<not> reach_limit (nd_pool sample_node)"
    by (simp add: sample_node_def reach_limit_def pool_len_def pool_new_def)
  ultimately show ?thesis
    using pulled_txs_unverified [of sample_node 4 sample_mempool_env None "sample_stx 9 8 7 6" False] by force
qed

text \<open>
  The broadcasting task loses, repeats and reorders nothing: what it
  has sent, batch after batch, followed by what it still holds, is what it was given;
  no batch is empty or larger than the configured size, and after a tick nothing is
  held back.
\<close>

fun given_txs :: "broadcast_event list \<Rightarrow> signed_transaction list" where
  "given_txs [] = []"
| "given_txs (BcTx tx # evs) = tx # given_txs evs"
| "given_txs (BcTick # evs) = given_txs evs"

lemma broadcast_foldl:
  assumes "foldl (broadcast_step n) (c, sent) evs = (c', sent')" and "0 < n" and "length c < n"
  shows "concat sent' @ c' = concat sent @ c @ given_txs evs \<and> length c' < n \<and>
    (\<forall>b\<in>set sent'. b \<in> set sent \<or> b \<noteq> [] \<and> length b \<le> n)"
  using assms
proof (induction evs arbitrary: c sent)
  case Nil
  then show ?case by auto
next
  case (Cons ev evs)
  obtain c1 sent1 where step: "broadcast_step n (c, sent) ev = (c1, sent1)" by fastforce
  then have rest: "foldl (broadcast_step n) (c1, sent1) evs = (c', sent')" using Cons.prems(1) by simp
  have "length c1 < n" "concat sent1 @ c1 @ given_txs evs = concat sent @ c @ given_txs (ev # evs)"
    "\<forall>b\<in>set sent1. b \<in> set sent \<or> b \<noteq> [] \<and> length b \<le> n"
    using step Cons.prems(2,3)
    by (cases ev; auto simp: broadcast_step_def do_broadcast_def Let_def split: if_splits)+
  with Cons.IH [OF rest Cons.prems(2)] show ?case by auto
qed

theorem broadcast_lossless:
  assumes "0 < n" and "broadcast_run n evs = (c, sent)"
  shows "concat sent @ c = given_txs evs \<and> length c < n \<and> (\<forall>b\<in>set sent. b \<noteq> [] \<and> length b \<le> n) \<and>
    fst (broadcast_step n (c, sent) BcTick) = []"
  using broadcast_foldl [of n "[]" "[]" evs c sent] assms
  by (auto simp: broadcast_run_def broadcast_step_def do_broadcast_def)

theorem broadcast_lossless_witness:
  "\<exists>c sent. broadcast_run 2 [BcTx (sample_stx 1 2 3 4), BcTx (sample_stx 2 2 3 4), BcTx (sample_stx 3 2 3 4)] = (c, sent) \<and>
     concat sent @ c = [sample_stx 1 2 3 4, sample_stx 2 2 3 4, sample_stx 3 2 3 4]"
  using broadcast_lossless [of 2 "[BcTx (sample_stx 1 2 3 4), BcTx (sample_stx 2 2 3 4), BcTx (sample_stx 3 2 3 4)]"]
  by (metis given_txs.simps(1,2) surj_pair zero_less_numeral)

end
