(* ===== verification/Wal.thy ===== *)
theory Wal
  imports Protocol_Types
begin

text \<open>
  The two write-ahead logs of consensus, \<open>core/consensus/src/wal.rs\<close>, over a model of
  the directory they own. \<open>SignedTxsWAL\<close> keeps one folder per block number with one
  file per transaction set; \<open>ConsensusWal\<close> keeps time-stamped copies of the state of
  the consensus engine, each preceded by its checksum. The state is what the
  path of the log holds: nothing, a file, or a directory with its entries in the
  order \<open>read_dir\<close> yields them. The file system fails as the kinds of the nodes
  demand; exhausted disks and permissions are not modelled. File names are valid
  UTF-8 and the parent of the directory exists.
\<close>

section \<open>Files and directories\<close>

datatype node = File bytes | Dir "(string \<times> node) list"

type_synonym entries = "(string \<times> node) list"

datatype io_error = NotFound | NotADirectory | IsADirectory | AlreadyExists

datatype wal_error =
    WALErr io_error
  | WalOther
  | WalSystemTime
  | FileNameTimestamp
  | ConsensusWalDirNotExist
  | ConsensusWalNoWalFile
  | WalCodec string
  | WalPanic

definition create_dir_all :: "node option \<Rightarrow> node option" where
  "create_dir_all s = (case s of None \<Rightarrow> Some (Dir []) | Some n \<Rightarrow> Some n)"

definition read_dir :: "node option \<Rightarrow> wal_error + entries" where
  "read_dir s =
     (case s of
        None \<Rightarrow> Inl (WALErr NotFound)
      | Some (File _) \<Rightarrow> Inl (WALErr NotADirectory)
      | Some (Dir es) \<Rightarrow> Inr es)"

text \<open>\<open>OpenOptions::new().read(true).write(true).create(true).open\<close>, without truncation.\<close>

definition open_create :: "string \<Rightarrow> entries \<Rightarrow> io_error + entries" where
  "open_create name es =
     (case map_of es name of
        None \<Rightarrow> Inr (es @ [(name, File [])])
      | Some (File _) \<Rightarrow> Inr es
      | Some (Dir _) \<Rightarrow> Inl IsADirectory)"

definition write_all :: "string \<Rightarrow> bytes \<Rightarrow> entries \<Rightarrow> entries" where
  "write_all name bs es =
     (case map_of es name of
        Some (File old) \<Rightarrow> AList.update name (File (bs @ drop (length bs) old)) es
      | _ \<Rightarrow> es)"

definition remove_file :: "string \<Rightarrow> (entries, wal_error, unit) st" where
  "remove_file name es =
     (case map_of es name of
        None \<Rightarrow> (es, Inl (WALErr NotFound))
      | Some (Dir _) \<Rightarrow> (es, Inl (WALErr IsADirectory))
      | Some (File _) \<Rightarrow> (AList.delete name es, Inr ()))"

definition remove_dir_all :: "string \<Rightarrow> (entries, wal_error, unit) st" where
  "remove_dir_all name es =
     (case map_of es name of
        None \<Rightarrow> (es, Inl (WALErr NotFound))
      | Some (File _) \<Rightarrow> (es, Inl (WALErr NotADirectory))
      | Some (Dir _) \<Rightarrow> (AList.delete name es, Inr ()))"

text \<open>\<open>Path::file_stem\<close> and \<open>PathBuf::set_extension\<close> on the last component.\<close>

definition file_stem :: "string \<Rightarrow> string" where
  "file_stem s =
     (let stem = rev (tl (dropWhile (\<lambda>c. c \<noteq> CHR ''.'') (rev s)))
      in if CHR ''.'' \<notin> set s \<or> stem = [] then s else stem)"

definition set_extension :: "string \<Rightarrow> string \<Rightarrow> string" where
  "set_extension s ext = file_stem s @ ''.'' @ ext"

section \<open>The log of signed transactions\<close>

text \<open>
  \<open>disp\<close> is the \<open>Display\<close> of \<open>H256\<close>; \<open>enc\<close> and \<open>dec\<close> are the message codec of
  \<open>BatchSignedTxs\<close>.
\<close>

definition number_dir :: "u64 \<Rightarrow> string" where
  "number_dir number = to_dec (unat number)"

definition txs_file :: "(hash \<Rightarrow> string) \<Rightarrow> hash \<Rightarrow> string" where
  "txs_file disp h = set_extension (disp h) ''txt''"

definition signed_wal_save ::
  "(hash \<Rightarrow> string) \<Rightarrow> (signed_transaction list \<Rightarrow> bytes) \<Rightarrow> u64 \<Rightarrow> hash \<Rightarrow> signed_transaction list
   \<Rightarrow> (node option, wal_error, unit) st" where
  "signed_wal_save disp enc number h txs s =
     (case s of
        None \<Rightarrow> (s, Inl (WALErr NotFound))
      | Some (File _) \<Rightarrow> (s, Inl (WALErr NotADirectory))
      | Some (Dir es) \<Rightarrow>
          let es1 = (case map_of es (number_dir number) of
                       None \<Rightarrow> es @ [(number_dir number, Dir [])] | Some _ \<Rightarrow> es)
          in case map_of es1 (number_dir number) of
               Some (Dir fs) \<Rightarrow>
                 (case open_create (txs_file disp h) fs of
                    Inl err \<Rightarrow> (Some (Dir es1), if err = AlreadyExists then Inr () else Inl (WALErr err))
                  | Inr fs1 \<Rightarrow>
                      (Some (Dir (AList.update (number_dir number)
                                    (Dir (write_all (txs_file disp h) (enc txs) fs1)) es1)), Inr ()))
             | _ \<Rightarrow> (Some (Dir es1), Inl (WALErr NotADirectory)))"

definition available_number :: "node option \<Rightarrow> wal_error + u64 list" where
  "available_number s =
     res_bind (read_dir s)
       (\<lambda>es. res_map (\<lambda>e. case parse_u64 (fst e) of
                         None \<Rightarrow> Inl WalPanic | Some n \<Rightarrow> Inr n)
               (filter (\<lambda>e. case snd e of Dir _ \<Rightarrow> True | File _ \<Rightarrow> False) es))"

definition recover_stxs ::
  "(bytes \<Rightarrow> string + signed_transaction list) \<Rightarrow> node option \<Rightarrow> wal_error + signed_transaction list" where
  "recover_stxs dec f =
     (case f of
        None \<Rightarrow> Inl (WALErr NotFound)
      | Some (Dir _) \<Rightarrow> Inl (WALErr IsADirectory)
      | Some (File buf) \<Rightarrow> (case dec buf of Inl e \<Rightarrow> Inl (WalCodec e) | Inr txs \<Rightarrow> Inr txs))"

definition signed_wal_load ::
  "(hash \<Rightarrow> string) \<Rightarrow> (bytes \<Rightarrow> string + signed_transaction list) \<Rightarrow> u64 \<Rightarrow> hash \<Rightarrow> node option
   \<Rightarrow> wal_error + signed_transaction list" where
  "signed_wal_load disp dec number h s =
     (case s of
        Some (Dir es) \<Rightarrow>
          (case map_of es (number_dir number) of
             Some (Dir fs) \<Rightarrow> recover_stxs dec (map_of fs (txs_file disp h))
           | Some (File _) \<Rightarrow> Inl (WALErr NotADirectory)
           | None \<Rightarrow> Inl (WALErr NotFound))
      | Some (File _) \<Rightarrow> Inl (WALErr NotADirectory)
      | None \<Rightarrow> Inl (WALErr NotFound))"

definition load_by_number ::
  "(bytes \<Rightarrow> string + signed_transaction list) \<Rightarrow> u64 \<Rightarrow> node option \<Rightarrow> signed_transaction list" where
  "load_by_number dec number s =
     (case s of
        Some (Dir es) \<Rightarrow>
          (case map_of es (number_dir number) of
             Some (Dir fs) \<Rightarrow>
               concat (map (\<lambda>e. case recover_stxs dec (Some (snd e)) of Inr stxs \<Rightarrow> stxs | Inl _ \<Rightarrow> []) fs)
           | _ \<Rightarrow> [])
      | _ \<Rightarrow> [])"

definition remove_entry :: "u64 \<Rightarrow> string \<Rightarrow> (entries, wal_error, unit) st" where
  "remove_entry committed_number name =
     (case parse_u64 (file_stem name) of
        None \<Rightarrow> st_throw WalOther
      | Some number \<Rightarrow> if number \<le> committed_number then remove_dir_all name else st_return ())"

definition signed_wal_remove :: "u64 \<Rightarrow> (node option, wal_error, unit) st" where
  "signed_wal_remove committed_number s =
     (case read_dir s of
        Inl e \<Rightarrow> (s, Inl e)
      | Inr es \<Rightarrow>
          (case st_each (remove_entry committed_number) (map fst es) es of (es', r) \<Rightarrow> (Some (Dir es'), r)))"

definition signed_wal_remove_all :: "(node option, wal_error, unit) st" where
  "signed_wal_remove_all s =
     (case available_number s of
        Inl e \<Rightarrow> (s, Inl e)
      | Inr numbers \<Rightarrow> st_each signed_wal_remove numbers s)"

section \<open>The log of the consensus engine\<close>

definition wal_digest :: "(bytes \<Rightarrow> bytes) \<Rightarrow> bytes \<Rightarrow> bytes" where
  "wal_digest keccak info = to_be_bytes 32 (hasher_digest keccak info)"

definition stamp_name :: "u128 \<Rightarrow> string" where
  "stamp_name t = to_dec (unat t)"

text \<open>
  \<open>clock i\<close> is the \<open>i\<close>-th reading of the system time in milliseconds since the epoch,
  \<open>None\<close> a reading before the epoch. The loop reads the clock until no file has the
  time as its name.
\<close>

partial_function (option) fresh_timestamp ::
  "(nat \<Rightarrow> u128 option) \<Rightarrow> entries \<Rightarrow> nat \<Rightarrow> (wal_error + u128) option" where
  "fresh_timestamp clock es i =
     (case clock i of
        None \<Rightarrow> Some (Inl WalSystemTime)
      | Some t \<Rightarrow>
          if map_of es (stamp_name t) = None then Some (Inr t)
          else fresh_timestamp clock es (Suc i))"

definition clean_item :: "u128 \<Rightarrow> string \<Rightarrow> (entries, wal_error, unit) st" where
  "clean_item timestamp name =
     (case parse_u128 name of
        None \<Rightarrow> st_throw FileNameTimestamp
      | Some file_name_timestamp \<Rightarrow> if file_name_timestamp < timestamp then remove_file name else st_return ())"

definition update_overlord_wal ::
  "(bytes \<Rightarrow> bytes) \<Rightarrow> (nat \<Rightarrow> u128 option) \<Rightarrow> bytes \<Rightarrow> node option
   \<Rightarrow> (node option \<times> (wal_error + unit)) option" where
  "update_overlord_wal keccak clock info s =
     (let s1 = create_dir_all s;
          content = wal_digest keccak info @ info;
          es = (case s1 of Some (Dir es) \<Rightarrow> es | _ \<Rightarrow> [])
      in case fresh_timestamp clock es 0 of
           None \<Rightarrow> None
         | Some (Inl e) \<Rightarrow> Some (s1, Inl e)
         | Some (Inr timestamp) \<Rightarrow>
             (case s1 of
                Some (Dir es) \<Rightarrow>
                  (case open_create (stamp_name timestamp) es of
                     Inl err \<Rightarrow> Some (s1, if err = AlreadyExists then Inr () else Inl (WALErr err))
                   | Inr es1 \<Rightarrow>
                       let es2 = write_all (stamp_name timestamp) content es1
                       in case st_each (clean_item timestamp) (map fst es2) es2 of
                            (es3, r) \<Rightarrow> Some (Some (Dir es3), r))
              | _ \<Rightarrow> Some (s1, Inl (WALErr NotADirectory))))"

text \<open>
  The loop of \<open>load_overlord_wal\<close>: a directory can be opened but not read, and then,
  as for a file shorter than a checksum, the loop continues with the same index.
\<close>

partial_function (option) load_loop ::
  "(bytes \<Rightarrow> bytes) \<Rightarrow> entries \<Rightarrow> u128 list \<Rightarrow> nat \<Rightarrow> (wal_error + bytes option) option" where
  "load_loop keccak es stamps index =
     (if length stamps \<le> index then Some (Inr None)
      else case map_of es (stamp_name (stamps ! index)) of
          None \<Rightarrow> Some (Inl (WALErr NotFound))
        | Some (Dir _) \<Rightarrow> load_loop keccak es stamps index
        | Some (File info) \<Rightarrow>
            if length info < 32 then load_loop keccak es stamps index
            else if take 32 info = wal_digest keccak (drop 32 info)
              then Some (Inr (Some (drop 32 info)))
            else load_loop keccak es stamps (index + 1))"

definition stamps_of :: "entries \<Rightarrow> u128 list" where
  "stamps_of es = rev (sort (List.map_filter (\<lambda>e. parse_u128 (fst e)) es))"

definition load_overlord_wal :: "(bytes \<Rightarrow> bytes) \<Rightarrow> node option \<Rightarrow> (wal_error + bytes) option" where
  "load_overlord_wal keccak s =
     (case s of
        None \<Rightarrow> Some (Inl ConsensusWalDirNotExist)
      | Some n \<Rightarrow>
          (case read_dir (Some n) of
             Inl e \<Rightarrow> Some (Inl e)
           | Inr es \<Rightarrow>
               (case load_loop keccak es (stamps_of es) 0 of
                  None \<Rightarrow> None
                | Some r \<Rightarrow> Some (res_bind r (ok_or ConsensusWalNoWalFile)))))"

definition wal_clear :: "(node option, wal_error, unit) st" where
  "wal_clear s =
     (case s of
        None \<Rightarrow> (s, Inr ())
      | Some n \<Rightarrow>
          (case read_dir (Some n) of
             Inl e \<Rightarrow> (s, Inl e)
           | Inr es \<Rightarrow> (case st_each remove_file (map fst es) es of (es', r) \<Rightarrow> (Some (Dir es'), r))))"

section \<open>Loops over a directory\<close>

text \<open>
  A loop over a snapshot of the names that removes the entries satisfying \<open>P\<close> and
  never fails on the entries of \<open>es\<close>.
\<close>

definition deletes_if ::
  "(string \<Rightarrow> bool) \<Rightarrow> entries \<Rightarrow> (string \<Rightarrow> (entries, wal_error, unit) st) \<Rightarrow> bool" where
  "deletes_if P es f =
     (\<forall>x s. x \<in> fst ` set s \<longrightarrow> set s \<subseteq> set es \<longrightarrow> distinct (map fst s) \<longrightarrow>
        f x s = (if P x then AList.delete x s else s, Inr ()))"

lemma st_each_deletes:
  assumes del: "deletes_if P es f"
  shows "distinct xs \<Longrightarrow> set xs \<subseteq> fst ` set s \<Longrightarrow> set s \<subseteq> set es \<Longrightarrow> distinct (map fst s) \<Longrightarrow>
    st_each f xs s = (filter (\<lambda>e. \<not> (fst e \<in> set xs \<and> P (fst e))) s, Inr ())"
proof (induction xs arbitrary: s)
  case Nil
  then show ?case by simp
next
  case (Cons x xs)
  let ?s = "if P x then AList.delete x s else s"
  have "f x s = (?s, Inr ())"
    using del Cons.prems by (simp add: deletes_if_def)
  moreover have "?s = filter (\<lambda>e. \<not> (fst e = x \<and> P x)) s"
    by (auto simp: AList.delete_eq split_def intro!: filter_cong)
  moreover have "distinct (map fst (filter (\<lambda>e. \<not> (fst e = x \<and> P x)) s))"
    using Cons.prems by (simp add: distinct_map_filter)
  moreover have "set xs \<subseteq> fst ` set (filter (\<lambda>e. \<not> (fst e = x \<and> P x)) s)"
  proof
    fix y assume y: "y \<in> set xs"
    with Cons.prems(2) obtain v where "(y, v) \<in> set s" by force
    moreover have "y \<noteq> x" using y Cons.prems(1) by auto
    ultimately show "y \<in> fst ` set (filter (\<lambda>e. \<not> (fst e = x \<and> P x)) s)" by force
  qed
  moreover have "set (filter (\<lambda>e. \<not> (fst e = x \<and> P x)) s) \<subseteq> set es"
    using Cons.prems by auto
  moreover have "filter (\<lambda>e. \<not> (fst e \<in> set xs \<and> P (fst e))) (filter (\<lambda>e. \<not> (fst e = x \<and> P x)) s) =
      filter (\<lambda>e. \<not> (fst e \<in> set (x # xs) \<and> P (fst e))) s"
    unfolding filter_filter by (rule filter_cong) auto
  ultimately show ?case
    using Cons.IH [of "filter (\<lambda>e. \<not> (fst e = x \<and> P x)) s"] Cons.prems(1)
    by (simp add: st_seq_apply del: filter_filter)
qed

lemma st_each_deletes_all:
  assumes "deletes_if P es f" and "distinct (map fst es)"
  shows "st_each f (map fst es) es = (filter (\<lambda>e. \<not> P (fst e)) es, Inr ())"
proof -
  have "filter (\<lambda>e. \<not> (fst e \<in> set (map fst es) \<and> P (fst e))) es = filter (\<lambda>e. \<not> P (fst e)) es"
    by (rule filter_cong) auto
  then show ?thesis
    using st_each_deletes [OF assms(1), of "map fst es" es] assms(2) by simp
qed

lemma map_of_sub:
  assumes "set s \<subseteq> set es" and "distinct (map fst s)" and "x \<in> fst ` set s"
  obtains v where "map_of s x = Some v" and "(x, v) \<in> set es"
proof -
  from assms(3) obtain v where "(x, v) \<in> set s" by auto
  with assms(1,2) have "map_of s x = Some v" "(x, v) \<in> set es" by auto
  then show ?thesis by (rule that)
qed

lemma no_dot: "CHR ''.'' \<notin> set (to_dec n)"
proof
  assume "CHR ''.'' \<in> set (to_dec n)"
  then obtain d where "d < 10" "CHR ''.'' = dec_digit d" using to_dec_digits by blast
  then show False
    by (auto simp: dec_digit_def dest!: arg_cong [where f = "of_char :: char \<Rightarrow> nat"])
qed

lemma parse_number_dir [simp]: "parse_u64 (number_dir n) = Some n"
  by (simp add: number_dir_def)

lemma file_stem_number_dir [simp]: "file_stem (number_dir n) = number_dir n"
  by (simp add: file_stem_def number_dir_def no_dot)

lemma number_dir_inject [simp]: "number_dir m = number_dir n \<longleftrightarrow> m = n"
  by (simp add: number_dir_def word_unat_eq_iff)

lemma parse_stamp_name [simp]: "parse_u128 (stamp_name t) = Some t"
  by (simp add: stamp_name_def)

lemma stamp_name_inject [simp]: "stamp_name t = stamp_name t' \<longleftrightarrow> t = t'"
  by (simp add: stamp_name_def word_unat_eq_iff)

section \<open>Properties of the log of signed transactions\<close>

definition number_dirs :: "entries \<Rightarrow> bool" where
  "number_dirs es =
     (distinct (map fst es) \<and> (\<forall>e \<in> set es. \<exists>n fs. e = (number_dir n, Dir fs) \<and> (\<forall>f \<in> set fs. \<exists>bs. snd f = File bs)))"

inductive signed_wal_reachable ::
  "(hash \<Rightarrow> string) \<Rightarrow> (signed_transaction list \<Rightarrow> bytes) \<Rightarrow> node option \<Rightarrow> bool" for disp enc where
  wal_new: "signed_wal_reachable disp enc (create_dir_all None)"
| wal_save: "signed_wal_reachable disp enc s \<Longrightarrow>
    signed_wal_reachable disp enc (fst (signed_wal_save disp enc number h txs s))"
| wal_remove: "signed_wal_reachable disp enc s \<Longrightarrow>
    signed_wal_reachable disp enc (fst (signed_wal_remove number s))"
| wal_remove_all: "signed_wal_reachable disp enc s \<Longrightarrow>
    signed_wal_reachable disp enc (fst (signed_wal_remove_all s))"

lemma remove_entry_deletes:
  assumes "number_dirs es"
  shows "deletes_if (\<lambda>x. \<exists>n. x = number_dir n \<and> n \<le> committed) es (remove_entry committed)"
  unfolding deletes_if_def
proof (intro allI impI)
  fix x s assume x: "x \<in> fst ` set s" "set s \<subseteq> set es" "distinct (map fst s)"
  obtain v where v: "map_of s x = Some v" "(x, v) \<in> set es" by (rule map_of_sub [OF x(2,3,1)])
  with assms obtain n fs where "x = number_dir n" "v = Dir fs"
    by (fastforce simp: number_dirs_def)
  with v show "remove_entry committed x s =
      (if \<exists>n. x = number_dir n \<and> n \<le> committed then AList.delete x s else s, Inr ())"
    by (simp add: remove_entry_def remove_dir_all_def)
qed

lemma signed_wal_remove_eq:
  assumes "number_dirs es"
  shows "signed_wal_remove committed (Some (Dir es)) =
    (Some (Dir (filter (\<lambda>e. \<not> (\<exists>n. fst e = number_dir n \<and> n \<le> committed)) es)), Inr ())"
  using st_each_deletes_all [OF remove_entry_deletes [OF assms, of committed]] assms
  by (simp add: signed_wal_remove_def read_dir_def number_dirs_def)

lemma number_dirs_filter: "number_dirs es \<Longrightarrow> number_dirs (filter P es)"
  by (simp add: number_dirs_def distinct_map_filter)

text \<open>The abstract log: the bytes filed under a block number and a file name.\<close>

definition wal_view :: "node option \<Rightarrow> u64 \<Rightarrow> string \<Rightarrow> bytes option" where
  "wal_view s n f =
     (case s of
        Some (Dir es) \<Rightarrow>
          (case map_of es (number_dir n) of
             Some (Dir fs) \<Rightarrow> (case map_of fs f of Some (File bs) \<Rightarrow> Some bs | _ \<Rightarrow> None)
           | _ \<Rightarrow> None)
      | _ \<Rightarrow> None)"

lemma number_dirs_lookup:
  assumes "number_dirs es" and "map_of es (number_dir n) = Some v"
  obtains fs where "v = Dir fs" and "\<forall>f \<in> set fs. \<exists>bs. snd f = File bs"
proof -
  have "(number_dir n, v) \<in> set es" using assms(2) by (rule map_of_SomeD)
  with assms(1) show ?thesis unfolding number_dirs_def using that by blast
qed

lemma files_lookup:
  assumes "\<forall>f \<in> set fs. \<exists>bs. snd f = File bs" and "map_of fs f = Some v"
  obtains bs where "v = File bs"
  using assms map_of_SomeD [OF assms(2)] by fastforce

lemma signed_wal_load_view:
  assumes "number_dirs es"
  shows "signed_wal_load disp dec n h (Some (Dir es)) =
    (case wal_view (Some (Dir es)) n (txs_file disp h) of
       None \<Rightarrow> Inl (WALErr NotFound)
     | Some buf \<Rightarrow> (case dec buf of Inl e \<Rightarrow> Inl (WalCodec e) | Inr txs \<Rightarrow> Inr txs))"
proof (cases "map_of es (number_dir n)")
  case None
  then show ?thesis by (simp add: signed_wal_load_def wal_view_def)
next
  case (Some v)
  then obtain fs where v: "v = Dir fs" "\<forall>f \<in> set fs. \<exists>bs. snd f = File bs"
    by (rule number_dirs_lookup [OF assms])
  show ?thesis
  proof (cases "map_of fs (txs_file disp h)")
    case None
    with Some v show ?thesis by (simp add: signed_wal_load_def wal_view_def recover_stxs_def)
  next
    case (Some w)
    then obtain bs where "w = File bs" by (rule files_lookup [OF v(2)])
    with Some \<open>map_of es (number_dir n) = Some v\<close> v show ?thesis
      by (simp add: signed_wal_load_def wal_view_def recover_stxs_def)
  qed
qed

text \<open>Writing a file of a folder that has only files.\<close>

lemma open_write_files:
  assumes "\<forall>f \<in> set fs. \<exists>bs. snd f = File bs"
  obtains fs1 where "open_create name fs = Inr fs1"
    and "\<forall>f \<in> set (write_all name bs fs1). \<exists>bs. snd f = File bs"
    and "map_of (write_all name bs fs1) = (map_of fs)(name \<mapsto>
      File (bs @ drop (length bs) (case map_of fs name of Some (File old) \<Rightarrow> old | _ \<Rightarrow> [])))"
proof (cases "map_of fs name")
  case None
  let ?fs1 = "fs @ [(name, File [])]"
  have "map_of (write_all name bs ?fs1) = (map_of fs)(name \<mapsto> File bs)"
    using None by (simp add: write_all_def)
  moreover have "\<forall>f \<in> set (write_all name bs ?fs1). \<exists>bs. snd f = File bs"
    using assms None by (auto simp: write_all_def dest!: alist_update_facts(4))
  ultimately show ?thesis using that [of ?fs1] None by (simp add: open_create_def)
next
  case (Some v)
  then obtain old where v: "v = File old" by (rule files_lookup [OF assms])
  have "\<forall>f \<in> set (write_all name bs fs). \<exists>bs. snd f = File bs"
    using assms Some v by (fastforce simp: write_all_def dest!: alist_update_facts(4))
  then show ?thesis using that [of fs] Some v by (simp add: open_create_def write_all_def)
qed

lemma number_dirs_snoc:
  "number_dirs es \<Longrightarrow> map_of es (number_dir n) = None \<Longrightarrow> number_dirs (es @ [(number_dir n, Dir [])])"
  by (auto simp: number_dirs_def map_of_eq_None_iff)

lemma signed_wal_save_ok:
  assumes "number_dirs es"
  shows "\<exists>es'. signed_wal_save disp enc n h txs (Some (Dir es)) = (Some (Dir es'), Inr ()) \<and>
    number_dirs es' \<and>
    (\<forall>m f. wal_view (Some (Dir es')) m f =
      (if m = n \<and> f = txs_file disp h
       then Some (enc txs @ drop (length (enc txs))
              (case wal_view (Some (Dir es)) n (txs_file disp h) of Some old \<Rightarrow> old | None \<Rightarrow> []))
       else wal_view (Some (Dir es)) m f))"
proof -
  let ?d = "number_dir n" and ?f = "txs_file disp h"
  define es1 where "es1 = (case map_of es ?d of None \<Rightarrow> es @ [(?d, Dir [])] | Some _ \<Rightarrow> es)"
  have es1: "number_dirs es1" "map_of es1 = (if map_of es ?d = None then (map_of es)(?d \<mapsto> Dir []) else map_of es)"
    using assms number_dirs_snoc [OF assms, of n]
    by (auto simp: es1_def split: option.split)
  then obtain v where v0: "map_of es1 ?d = Some v" by (cases "map_of es ?d") auto
  then obtain fs where v: "v = Dir fs" "\<forall>f \<in> set fs. \<exists>bs. snd f = File bs"
    by (rule number_dirs_lookup [OF es1(1)])
  obtain fs1 where fs1: "open_create ?f fs = Inr fs1"
    "\<forall>f \<in> set (write_all ?f (enc txs) fs1). \<exists>bs. snd f = File bs"
    "map_of (write_all ?f (enc txs) fs1) = (map_of fs)(?f \<mapsto>
      File (enc txs @ drop (length (enc txs)) (case map_of fs ?f of Some (File old) \<Rightarrow> old | _ \<Rightarrow> [])))"
    by (rule open_write_files [OF v(2)])
  define es' where "es' = AList.update ?d (Dir (write_all ?f (enc txs) fs1)) es1"
  show ?thesis
  proof (intro exI [of _ es'] conjI allI)
    show "signed_wal_save disp enc n h txs (Some (Dir es)) = (Some (Dir es'), Inr ())"
      using v0 v fs1(1) by (simp add: signed_wal_save_def es1_def [symmetric] es'_def Let_def)
    show "number_dirs es'"
      using es1(1) fs1(2) unfolding number_dirs_def es'_def
      by (auto simp: alist_update_facts(1) dest!: alist_update_facts(4))
    have old: "wal_view (Some (Dir es)) n g = (case map_of fs g of Some (File bs) \<Rightarrow> Some bs | _ \<Rightarrow> None)" for g
      using v0 v es1(2) by (auto simp: wal_view_def split: if_splits)
    show "wal_view (Some (Dir es')) m f = (if m = n \<and> f = ?f
       then Some (enc txs @ drop (length (enc txs))
              (case wal_view (Some (Dir es)) n ?f of Some old \<Rightarrow> old | None \<Rightarrow> []))
       else wal_view (Some (Dir es)) m f)" for m f
    proof (cases "m = n")
      case True
      then show ?thesis
        by (auto simp: old) (auto simp: wal_view_def es'_def fs1(3) split: option.splits node.splits)
    next
      case False
      then show ?thesis using es1(2) by (simp add: wal_view_def es'_def)
    qed
  qed
qed

lemma st_each_remove:
  "number_dirs es \<Longrightarrow> st_each signed_wal_remove ns (Some (Dir es)) =
    (Some (Dir (filter (\<lambda>e. \<not> (\<exists>n. fst e = number_dir n \<and> (\<exists>m \<in> set ns. n \<le> m))) es)), Inr ())"
proof (induction ns arbitrary: es)
  case Nil
  then show ?case by simp
next
  case (Cons k ns)
  let ?es = "filter (\<lambda>e. \<not> (\<exists>n. fst e = number_dir n \<and> n \<le> k)) es"
  have "filter (\<lambda>e. \<not> (\<exists>n. fst e = number_dir n \<and> (\<exists>m \<in> set ns. n \<le> m))) ?es =
      filter (\<lambda>e. \<not> (\<exists>n. fst e = number_dir n \<and> (\<exists>m \<in> set (k # ns). n \<le> m))) es"
    unfolding filter_filter by (rule filter_cong) auto
  then show ?case
    using Cons.IH [OF number_dirs_filter [OF Cons.prems]]
    by (simp add: st_seq_apply signed_wal_remove_eq [OF Cons.prems] del: filter_filter)
qed

lemma available_number_ok:
  assumes "number_dirs es"
  obtains ns where "available_number (Some (Dir es)) = Inr ns"
    and "map number_dir ns = map fst es"
proof -
  have "res_map (\<lambda>e. case parse_u64 (fst e) of None \<Rightarrow> Inl WalPanic | Some n \<Rightarrow> Inr n)
      (filter (\<lambda>e. case snd e of Dir _ \<Rightarrow> True | File _ \<Rightarrow> False) es) =
    Inr (map (\<lambda>e. the (parse_u64 (fst e))) es)"
    if "\<forall>e \<in> set es. \<exists>n fs. e = (number_dir n, Dir fs)" for es
    using that by (induction es) auto
  moreover have all: "\<forall>e \<in> set es. \<exists>n fs. e = (number_dir n, Dir fs)"
    using assms by (fastforce simp: number_dirs_def)
  moreover have "map (number_dir \<circ> (\<lambda>e. the (parse_u64 (fst e)))) es = map fst es"
    using all by (intro map_cong) auto
  ultimately show ?thesis
    using that by (simp add: available_number_def read_dir_def)
qed

lemma signed_wal_remove_all_ok:
  assumes "number_dirs es"
  shows "signed_wal_remove_all (Some (Dir es)) = (Some (Dir []), Inr ())"
proof -
  obtain ns where ns: "available_number (Some (Dir es)) = Inr ns" "map number_dir ns = map fst es"
    by (rule available_number_ok [OF assms])
  have "fst e \<in> number_dir ` set ns" if "e \<in> set es" for e
    using that ns(2) by (metis image_eqI image_set)
  then have "filter (\<lambda>e. \<not> (\<exists>n. fst e = number_dir n \<and> (\<exists>m \<in> set ns. n \<le> m))) es = []"
    by (fastforce simp: filter_empty_conv)
  then show ?thesis
    using st_each_remove [OF assms] ns(1) by (simp add: signed_wal_remove_all_def)
qed

lemma signed_wal_reachable_dirs: "signed_wal_reachable disp enc s \<Longrightarrow> \<exists>es. s = Some (Dir es) \<and> number_dirs es"
proof (induction rule: signed_wal_reachable.induct)
  case wal_new
  then show ?case by (simp add: create_dir_all_def number_dirs_def)
next
  case (wal_save s number h txs)
  then obtain es where "s = Some (Dir es)" "number_dirs es" by blast
  then show ?case by (metis fst_conv signed_wal_save_ok)
next
  case (wal_remove s number)
  then obtain es where "s = Some (Dir es)" "number_dirs es" by blast
  then show ?case by (simp add: signed_wal_remove_eq number_dirs_filter)
next
  case (wal_remove_all s)
  then obtain es where "s = Some (Dir es)" "number_dirs es" by blast
  then show ?case by (simp add: signed_wal_remove_all_ok number_dirs_def)
qed

lemma wal_view_filter:
  assumes "number_dirs es"
  shows "wal_view (Some (Dir (filter (\<lambda>e. \<not> (\<exists>n. fst e = number_dir n \<and> n \<le> k)) es))) m f =
    (if m \<le> k then None else wal_view (Some (Dir es)) m f)"
proof -
  have "distinct (map fst es)" using assms by (simp add: number_dirs_def)
  then have "map_of (filter (\<lambda>e. \<not> (\<exists>n. fst e = number_dir n \<and> n \<le> k)) es) (number_dir m) =
      (if m \<le> k then None else map_of es (number_dir m))"
    by (induction es) (auto simp: map_of_eq_None_iff)
  then show ?thesis by (simp add: wal_view_def)
qed

text \<open>
  Property C12. The directory of the signed-transaction log implements a map from
  block numbers and file names to bytes. On every reachable log, saving succeeds
  and writes the encoded transactions over the start of what the file held before
  (the file is opened without truncation) and touches no other file; loading
  decodes what is filed under the number and the file name of the hash and fails
  with \<open>NotFound\<close> otherwise; removing a committed number succeeds and drops exactly
  the numbers up to it; removing everything leaves an empty directory.
\<close>

theorem signed_wal_refines_map:
  assumes "signed_wal_reachable disp enc s"
  shows "(\<exists>s'. signed_wal_save disp enc n h txs s = (s', Inr ()) \<and>
            (\<forall>m f. wal_view s' m f =
               (if m = n \<and> f = txs_file disp h
                then Some (enc txs @ drop (length (enc txs))
                       (case wal_view s n (txs_file disp h) of Some old \<Rightarrow> old | None \<Rightarrow> []))
                else wal_view s m f))) \<and>
         signed_wal_load disp dec n h s =
           (case wal_view s n (txs_file disp h) of
              None \<Rightarrow> Inl (WALErr NotFound)
            | Some buf \<Rightarrow> (case dec buf of Inl e \<Rightarrow> Inl (WalCodec e) | Inr txs \<Rightarrow> Inr txs)) \<and>
         (\<exists>s'. signed_wal_remove n s = (s', Inr ()) \<and>
            (\<forall>m f. wal_view s' m f = (if m \<le> n then None else wal_view s m f))) \<and>
         signed_wal_remove_all s = (Some (Dir []), Inr ())"
proof -
  obtain es where s: "s = Some (Dir es)" and dirs: "number_dirs es"
    using signed_wal_reachable_dirs [OF assms] by blast
  obtain es' where es': "signed_wal_save disp enc n h txs (Some (Dir es)) = (Some (Dir es'), Inr ())"
    "\<forall>m f. wal_view (Some (Dir es')) m f =
      (if m = n \<and> f = txs_file disp h
       then Some (enc txs @ drop (length (enc txs))
              (case wal_view (Some (Dir es)) n (txs_file disp h) of Some old \<Rightarrow> old | None \<Rightarrow> []))
       else wal_view (Some (Dir es)) m f)"
    using signed_wal_save_ok [OF dirs, of disp enc n h txs] by blast
  have "\<exists>s'. signed_wal_remove n (Some (Dir es)) = (s', Inr ()) \<and>
      (\<forall>m f. wal_view s' m f = (if m \<le> n then None else wal_view (Some (Dir es)) m f))"
    using wal_view_filter [OF dirs] by (simp only: signed_wal_remove_eq [OF dirs]) blast
  with es' show ?thesis
    unfolding s using signed_wal_load_view [OF dirs] signed_wal_remove_all_ok [OF dirs] by blast
qed

lemma signed_wal_save_succeeds:
  assumes "signed_wal_reachable disp enc s"
  obtains s' where "signed_wal_save disp enc n h txs s = (s', Inr ())"
  using signed_wal_reachable_dirs [OF assms] signed_wal_save_ok that by metis

theorem signed_wal_refines_map_witness:
  "\<exists>s'. signed_wal_save (\<lambda>h. to_dec (unat h)) (\<lambda>txs. [1, 2, 3]) 7 5 [] (create_dir_all None) = (s', Inr ()) \<and>
     wal_view s' 7 ''5.txt'' = Some [1, 2, 3] \<and>
     signed_wal_load (\<lambda>h. to_dec (unat h)) (\<lambda>_. Inr []) 7 5 (create_dir_all None) = Inl (WALErr NotFound)"
proof -
  have "txs_file (\<lambda>h. to_dec (unat h)) 5 = ''5.txt''" by code_simp
  moreover have "wal_view (create_dir_all None) 7 ''5.txt'' = None" by code_simp
  ultimately show ?thesis
    using signed_wal_refines_map [OF wal_new [of "\<lambda>h. to_dec (unat h)" "\<lambda>txs. [1, 2, 3]"],
        of 7 5 "[]" "\<lambda>_. Inr []"] by auto
qed

text \<open>
  The file of a transaction set is named after the displayed form of its
  hash. When two hashes are displayed alike (the \<open>Display\<close> of \<open>H256\<close> shows its first
  and last two bytes only), saving the second set of the same block overwrites the
  first: loading the first hash then decodes the second set's bytes.
\<close>

theorem signed_wal_display_collision:
  assumes "signed_wal_reachable disp enc s" and "disp h1 = disp h2"
    and "length (enc txs1) \<le> length (enc txs2)"
    and "signed_wal_save disp enc n h1 txs1 s = (s1, r1)"
    and "signed_wal_save disp enc n h2 txs2 s1 = (s2, r2)"
    and "wal_view s n (txs_file disp h1) = None"
  shows "signed_wal_load disp dec n h1 s1 =
           (case dec (enc txs1) of Inl e \<Rightarrow> Inl (WalCodec e) | Inr txs \<Rightarrow> Inr txs) \<and>
         signed_wal_load disp dec n h1 s2 =
           (case dec (enc txs2) of Inl e \<Rightarrow> Inl (WalCodec e) | Inr txs \<Rightarrow> Inr txs)"
proof -
  obtain es where s: "s = Some (Dir es)" and dirs: "number_dirs es"
    using signed_wal_reachable_dirs [OF assms(1)] by blast
  have same: "txs_file disp h2 = txs_file disp h1" using assms(2) by (simp add: txs_file_def)
  obtain es1 where 1: "signed_wal_save disp enc n h1 txs1 (Some (Dir es)) = (Some (Dir es1), Inr ())"
    "number_dirs es1" "wal_view (Some (Dir es1)) n (txs_file disp h1) = Some (enc txs1)"
    using signed_wal_save_ok [OF dirs, of disp enc n h1 txs1] assms(6) unfolding s
    by (metis (lifting) append_Nil2 drop_Nil option.simps(4))
  then have s1: "s1 = Some (Dir es1)" using assms(4) s by simp
  obtain es2 where 2: "signed_wal_save disp enc n h2 txs2 (Some (Dir es1)) = (Some (Dir es2), Inr ())"
    "number_dirs es2"
    "wal_view (Some (Dir es2)) n (txs_file disp h1) = Some (enc txs2 @ drop (length (enc txs2)) (enc txs1))"
    using signed_wal_save_ok [OF 1(2), of disp enc n h2 txs2] 1(3) unfolding same
    by (metis (lifting) option.simps(5))
  then have s2: "s2 = Some (Dir es2)" using assms(5) s1 by simp
  show ?thesis
    unfolding s1 s2 signed_wal_load_view [OF 1(2)] signed_wal_load_view [OF 2(2)] 1(3) 2(3)
    using assms(3) by simp
qed

definition short_display :: "hash \<Rightarrow> string" where
  "short_display h = to_dec (unat h mod 65536)"

theorem signed_wal_display_collision_witness:
  "\<exists>s1 s2. signed_wal_save short_display (\<lambda>txs. [word_of_nat (length txs)]) 7 0x10005 [] (create_dir_all None)
       = (s1, Inr ()) \<and>
     signed_wal_save short_display (\<lambda>txs. [word_of_nat (length txs)]) 7 0x20005 [sample_stx 1 1 1 1] s1
       = (s2, Inr ()) \<and>
     signed_wal_load short_display (\<lambda>bs. Inr (replicate (unat (hd bs)) (sample_stx 1 1 1 1))) 7 0x10005 s2
       = Inr [sample_stx 1 1 1 1]"
proof -
  let ?enc = "\<lambda>txs :: signed_transaction list. [word_of_nat (length txs)] :: bytes"
  let ?dec = "\<lambda>bs :: bytes. Inr (replicate (unat (hd bs)) (sample_stx 1 1 1 1)) :: string + signed_transaction list"
  have r0: "signed_wal_reachable short_display ?enc (create_dir_all None)" by (rule wal_new)
  obtain s1 where s1: "signed_wal_save short_display ?enc 7 0x10005 [] (create_dir_all None) = (s1, Inr ())"
    by (rule signed_wal_save_succeeds [OF r0])
  have r1: "signed_wal_reachable short_display ?enc s1"
    using wal_save [OF r0, of 7 "0x10005" "[]"] by (simp only: s1 fst_conv)
  obtain s2 where s2: "signed_wal_save short_display ?enc 7 0x20005 [sample_stx 1 1 1 1] s1 = (s2, Inr ())"
    by (rule signed_wal_save_succeeds [OF r1])
  have "short_display 0x10005 = short_display 0x20005" by (simp add: short_display_def)
  moreover have "wal_view (create_dir_all None) 7 (txs_file short_display 0x10005) = None"
    by (simp add: wal_view_def create_dir_all_def)
  ultimately have "signed_wal_load short_display ?dec 7 0x10005 s2 = Inr [sample_stx 1 1 1 1]"
    using signed_wal_display_collision [OF r0 _ _ s1 s2, of ?dec] by simp
  with s1 s2 show ?thesis by blast
qed

section \<open>Properties of the log of the consensus engine\<close>

definition stamped :: "entries \<Rightarrow> bool" where
  "stamped es = (distinct (map fst es) \<and> (\<forall>e \<in> set es. \<exists>t bs. e = (stamp_name t, File bs)))"

definition wal_content :: "(bytes \<Rightarrow> bytes) \<Rightarrow> bytes \<Rightarrow> bytes" where
  "wal_content keccak info = wal_digest keccak info @ info"

lemma length_wal_digest [simp]: "length (wal_digest keccak info) = 32"
  by (simp add: wal_digest_def)

lemma fresh_timestamp_first:
  "clock i = Some t \<Longrightarrow> map_of es (stamp_name t) = None \<Longrightarrow> fresh_timestamp clock es i = Some (Inr t)"
  by (subst fresh_timestamp.simps) simp

lemma fresh_timestamp_waits:
  assumes "\<forall>j < n. \<exists>t. clock (i + j) = Some t \<and> map_of es (stamp_name t) \<noteq> None"
    and "clock (i + n) = Some t" and "map_of es (stamp_name t) = None"
  shows "fresh_timestamp clock es i = Some (Inr t)"
  using assms
proof (induction n arbitrary: i)
  case 0
  then show ?case by (simp add: fresh_timestamp_first)
next
  case (Suc n)
  from Suc.prems(1) obtain t0 where t0: "clock i = Some t0" "map_of es (stamp_name t0) \<noteq> None"
    by force
  have "fresh_timestamp clock es (Suc i) = Some (Inr t)"
  proof (rule Suc.IH)
    show "\<forall>j < n. \<exists>t. clock (Suc i + j) = Some t \<and> map_of es (stamp_name t) \<noteq> None"
      using Suc.prems(1) by (metis add_Suc add_Suc_right Suc_less_eq)
  qed (use Suc.prems in simp_all)
  with t0 show ?case by (subst fresh_timestamp.simps) auto
qed

lemma clean_item_deletes:
  assumes "stamped es"
  shows "deletes_if (\<lambda>x. \<exists>t'. x = stamp_name t' \<and> t' < t) es (clean_item t)"
  unfolding deletes_if_def
proof (intro allI impI)
  fix x s assume x: "x \<in> fst ` set s" "set s \<subseteq> set es" "distinct (map fst s)"
  obtain v where v: "map_of s x = Some v" "(x, v) \<in> set es" by (rule map_of_sub [OF x(2,3,1)])
  with assms obtain t' bs where "x = stamp_name t'" "v = File bs"
    by (fastforce simp: stamped_def)
  with v show "clean_item t x s =
      (if \<exists>t'. x = stamp_name t' \<and> t' < t then AList.delete x s else s, Inr ())"
    by (simp add: clean_item_def remove_file_def)
qed

lemma stamps_of_stamped:
  assumes "stamped es"
  shows "stamps_of es = rev (sort (map (\<lambda>e. the (parse_u128 (fst e))) es))"
proof -
  have "List.map_filter (\<lambda>e. parse_u128 (fst e)) es = map (\<lambda>e. the (parse_u128 (fst e))) es"
    if "\<forall>e \<in> set es. \<exists>t bs. e = (stamp_name t, File bs)" for es :: entries
    using that by (induction es) (auto simp: List.map_filter_simps)
  then show ?thesis using assms by (simp add: stamps_of_def stamped_def)
qed

text \<open>The newest stamp comes first.\<close>

lemma stamps_of_newest:
  assumes "stamped es" and "(stamp_name t, v) \<in> set es"
    and "\<And>t' v'. (stamp_name t', v') \<in> set es \<Longrightarrow> t' \<le> t"
  shows "stamps_of es \<noteq> []" and "stamps_of es ! 0 = t"
proof -
  let ?ts = "map (\<lambda>e. the (parse_u128 (fst e))) es"
  have mem: "t \<in> set ?ts" using assms(2) by force
  have le: "t' \<le> t" if "t' \<in> set ?ts" for t'
    using that assms(1,3) by (fastforce simp: stamped_def)
  have ne: "sort ?ts \<noteq> []" using mem by (metis empty_iff list.set(1) set_sort)
  have "last (sort ?ts) = t"
  proof (rule antisym)
    show "last (sort ?ts) \<le> t" using le last_in_set [OF ne] by simp
    obtain i where "i < length (sort ?ts)" "sort ?ts ! i = t"
      using mem by (metis in_set_conv_nth set_sort)
    then show "t \<le> last (sort ?ts)"
      using sorted_nth_mono [OF sorted_sort, of i "length (sort ?ts) - 1" ?ts]
      by (simp add: last_conv_nth [OF ne])
  qed
  then show "stamps_of es \<noteq> []" and "stamps_of es ! 0 = t"
    using stamps_of_stamped [OF assms(1)] ne by (metis Nil_is_rev_conv, metis Nil_is_rev_conv hd_conv_nth hd_rev)
qed

lemma load_loop_valid:
  assumes "index < length stamps"
    and "map_of es (stamp_name (stamps ! index)) = Some (File (wal_content keccak info))"
  shows "load_loop keccak es stamps index = Some (Inr (Some info))"
  using assms by (subst load_loop.simps) (simp add: wal_content_def)

lemma load_loop_next:
  assumes "index < length stamps"
    and "map_of es (stamp_name (stamps ! index)) = Some (File buf)" and "32 \<le> length buf"
    and "take 32 buf \<noteq> wal_digest keccak (drop 32 buf)"
  shows "load_loop keccak es stamps index = load_loop keccak es stamps (index + 1)"
  using assms by (subst load_loop.simps) simp

text \<open>
  When the entry at the current index cannot be read or is shorter than a checksum,
  the loop never ends.
\<close>

definition load_stuck :: "entries \<Rightarrow> u128 list \<Rightarrow> nat \<Rightarrow> bool" where
  "load_stuck es stamps index =
     (index < length stamps \<and>
      (case map_of es (stamp_name (stamps ! index)) of
         None \<Rightarrow> False | Some (Dir _) \<Rightarrow> True | Some (File buf) \<Rightarrow> length buf < 32))"

lemma load_loop_diverges:
  assumes "load_stuck es stamps index"
  shows "load_loop keccak es stamps index = None"
proof -
  have "\<not> load_stuck es stamps index" if "load_loop keccak es stamps index = Some r" for r
  proof (rule load_loop.raw_induct [where P = "\<lambda>keccak es stamps index r. \<not> load_stuck es stamps index", OF _ that])
    fix loop keccak es stamps index r
    assume IH: "\<And>keccak es stamps index r. loop keccak es stamps index = Some r \<Longrightarrow> \<not> load_stuck es stamps index"
      and step: "(if length stamps \<le> index then Some (Inr None)
        else case map_of es (stamp_name (stamps ! index)) of
            None \<Rightarrow> Some (Inl (WALErr NotFound))
          | Some (Dir _) \<Rightarrow> loop keccak es stamps index
          | Some (File info) \<Rightarrow>
              if length info < 32 then loop keccak es stamps index
              else if take 32 info = wal_digest keccak (drop 32 info) then Some (Inr (Some (drop 32 info)))
              else loop keccak es stamps (index + 1)) = Some r"
    show "\<not> load_stuck es stamps index"
    proof
      assume stuck: "load_stuck es stamps index"
      with step have "loop keccak es stamps index = Some r"
        by (auto simp: load_stuck_def split: option.splits node.splits)
      with IH stuck show False by blast
    qed
  qed
  with assms show ?thesis by (cases "load_loop keccak es stamps index") auto
qed

text \<open>
  Updating the engine log with a clock reading later than every file of
  the log succeeds and leaves exactly one file, the new one, and loading the log
  then returns the stored state: it terminates and gives back the bytes that were
  written, whatever the log held before.
\<close>

theorem overlord_wal_update_load:
  assumes "stamped es" and "clock 0 = Some t"
    and "\<forall>t' v. (stamp_name t', v) \<in> set es \<longrightarrow> t' < t"
  shows "update_overlord_wal keccak clock info (Some (Dir es)) =
           Some (Some (Dir [(stamp_name t, File (wal_digest keccak info @ info))]), Inr ()) \<and>
         load_overlord_wal keccak (Some (Dir [(stamp_name t, File (wal_digest keccak info @ info))])) =
           Some (Inr info)"
proof -
  let ?new = "(stamp_name t, File (wal_digest keccak info @ info))"
  have fresh: "map_of es (stamp_name t) = None"
  proof (rule ccontr)
    assume "map_of es (stamp_name t) \<noteq> None"
    then obtain v where "(stamp_name t, v) \<in> set es" by (auto dest: map_of_SomeD)
    then show False using assms(3) by blast
  qed
  let ?es2 = "es @ [?new]"
  have wrote: "write_all (stamp_name t) (wal_digest keccak info @ info) (es @ [(stamp_name t, File [])]) = ?es2"
    using fresh by (simp add: write_all_def) (induction es; auto)
  have st: "stamped ?es2"
    using assms(1) fresh by (auto simp: stamped_def map_of_eq_None_iff)
  have "filter (\<lambda>e. \<not> (\<exists>t'. fst e = stamp_name t' \<and> t' < t)) es = []"
    using assms(1,3) by (fastforce simp: filter_empty_conv stamped_def)
  then have clean: "st_each (clean_item t) (map fst ?es2) ?es2 = ([?new], Inr ())"
    using st_each_deletes_all [OF clean_item_deletes [OF st, of t]] st by (simp add: stamped_def)
  have "update_overlord_wal keccak clock info (Some (Dir es)) = Some (Some (Dir [?new]), Inr ())"
    using fresh_timestamp_first [of clock 0 t es] assms(2) fresh wrote clean
    by (simp add: update_overlord_wal_def create_dir_all_def open_create_def Let_def)
  moreover have "stamped [?new]" by (auto simp: stamped_def)
  then have "stamps_of [?new] = [t]" by (simp add: stamps_of_stamped)
  then have "load_overlord_wal keccak (Some (Dir [?new])) = Some (Inr info)"
    using load_loop_valid [of 0 "[t]" "[?new]" keccak info]
    by (simp add: load_overlord_wal_def read_dir_def wal_content_def)
  ultimately show ?thesis by simp
qed

theorem overlord_wal_update_load_witness:
  "update_overlord_wal (\<lambda>_. []) (\<lambda>i. Some (word_of_nat (i + 9))) [1, 2]
     (Some (Dir [(stamp_name 7, File [0])])) =
     Some (Some (Dir [(stamp_name 9, File (wal_digest (\<lambda>_. []) [1, 2] @ [1, 2]))]), Inr ())"
  using overlord_wal_update_load [of "[(stamp_name 7, File [0])]" "\<lambda>i. Some (word_of_nat (i + 9))" 9 "\<lambda>_. []" "[1, 2]"]
  by (auto simp: stamped_def)

text \<open>
  Property C27. A crash while the newest file is being written: when at least the
  checksum but not all of the new state has reached the disk, loading skips the
  torn file and returns the previous state (as long as the checksum of the torn
  state differs from that of the whole state).
\<close>

theorem overlord_wal_crash_recovery:
  assumes "t0 < t1" and "32 \<le> k" and "k < 32 + length info1"
    and "wal_digest keccak (take (k - 32) info1) \<noteq> wal_digest keccak info1"
    and "es = [(stamp_name t0, File (wal_digest keccak info0 @ info0)),
               (stamp_name t1, File (take k (wal_digest keccak info1 @ info1)))]"
  shows "load_overlord_wal keccak (Some (Dir es)) = Some (Inr info0)"
proof -
  let ?torn = "take k (wal_digest keccak info1 @ info1)"
  have torn: "32 \<le> length ?torn" "take 32 ?torn \<noteq> wal_digest keccak (drop 32 ?torn)"
    using assms(2,3,4) by (simp_all add: min_def)
  have "stamped es" using assms(1,5) by (auto simp: stamped_def)
  moreover have "sort [t0, t1] = [t0, t1]" using assms(1) by (simp add: less_imp_le)
  ultimately have stamps: "stamps_of es = [t1, t0]"
    using assms(1,5) by (simp add: stamps_of_stamped)
  have look: "map_of es (stamp_name t1) = Some (File ?torn)"
    "map_of es (stamp_name t0) = Some (File (wal_content keccak info0))"
    using assms(1,5) less_imp_neq [OF assms(1)] by (simp_all add: wal_content_def)
  have "load_loop keccak es [t1, t0] 0 = load_loop keccak es [t1, t0] (0 + 1)"
    by (rule load_loop_next [OF _ _ torn]) (simp_all add: look)
  also have "\<dots> = Some (Inr (Some info0))"
    by (rule load_loop_valid) (simp_all add: look)
  finally show ?thesis
    by (simp add: load_overlord_wal_def read_dir_def stamps)
qed

lemma wal_digest_inject: "wal_digest keccak a = wal_digest keccak b \<longleftrightarrow> hasher_digest keccak a = hasher_digest keccak b"
proof
  assume "wal_digest keccak a = wal_digest keccak b"
  then have "from_be_bytes (wal_digest keccak a) = (from_be_bytes (wal_digest keccak b) :: hash)" by simp
  then show "hasher_digest keccak a = hasher_digest keccak b"
    by (simp add: wal_digest_def be_bytes_roundtrip)
qed (simp add: wal_digest_def)

theorem overlord_wal_crash_recovery_witness:
  "load_overlord_wal (\<lambda>bs. if length bs = 2 then [1] else [])
     (Some (Dir [(stamp_name 7, File (wal_digest (\<lambda>bs. if length bs = 2 then [1] else []) [5] @ [5])),
                 (stamp_name 9, File (take 33 (wal_digest (\<lambda>bs. if length bs = 2 then [1] else []) [1, 2] @ [1, 2])))])) =
   Some (Inr [5])"
proof -
  let ?k = "\<lambda>bs :: bytes. if length bs = 2 then [1] else [] :: bytes"
  have "hasher_digest ?k [1, 2] = 1" "hasher_digest ?k [1] \<noteq> 1"
    by (simp_all add: hasher_digest_def from_be_bytes_def be_nat_def NIL_DATA_def)
  then have "wal_digest ?k (take (33 - 32) [1, 2]) \<noteq> wal_digest ?k [1, 2]"
    by (simp add: wal_digest_inject)
  then show ?thesis
    using overlord_wal_crash_recovery [of 7 9 33 "[1, 2]" ?k _ "[5]"] by simp
qed

text \<open>
  Property C38. A crash before the checksum of the newest file is complete: loading
  never returns, because the loop continues without moving to the next file. The
  node cannot start from the valid older state that is still there.
\<close>

theorem overlord_wal_short_file_diverges:
  assumes "stamped es" and "(stamp_name t, File buf) \<in> set es" and "length buf < 32"
    and "\<forall>t' v'. (stamp_name t', v') \<in> set es \<longrightarrow> t' \<le> t"
  shows "load_overlord_wal keccak (Some (Dir es)) = None"
proof -
  have "stamps_of es \<noteq> []" "stamps_of es ! 0 = t"
    using stamps_of_newest [OF assms(1,2)] assms(4) by blast+
  moreover have "map_of es (stamp_name t) = Some (File buf)"
    using assms(1,2) by (simp add: stamped_def)
  ultimately have "load_loop keccak es (stamps_of es) 0 = None"
    using assms(3) by (intro load_loop_diverges) (simp add: load_stuck_def)
  then show ?thesis by (simp add: load_overlord_wal_def read_dir_def)
qed

theorem overlord_wal_short_file_diverges_witness:
  "load_overlord_wal (\<lambda>_. []) (Some (Dir [(stamp_name 7, File (wal_digest (\<lambda>_. []) [5] @ [5])),
                 (stamp_name 9, File [])])) = None"
  using overlord_wal_short_file_diverges [of "[(stamp_name 7, File (wal_digest (\<lambda>_. []) [5] @ [5])),
                 (stamp_name 9, File [])]" 9 "[]" "\<lambda>_. []"]
  by (auto simp: stamped_def)

end
