(* ===== verification/Consensus_Adapter.thy ===== *)
theory Consensus_Adapter
  imports Mempool Wal
begin

text \<open>
  What the consensus engine and the block synchronization stand on: the errors of
  \<open>core/consensus/src/lib.rs\<close>, the current status, the BLS operations of \<open>util.rs\<close>, and
  the adapter \<open>adapter.rs\<close> with its checks of headers and proofs. The record \<open>chain_node\<close>
  extends the node state of the mempool by what these components keep. The Overlord
  library, the BLS library and the network are fields of the environment; storage,
  metadata, mempool and executor are the models of the other theories.
\<close>

section \<open>Errors and data\<close>

datatype block_header_field = HfPreviousBlockHash | HfProofHash | HfProposer | HfValidator | HfWeight

datatype block_proof_field =
    BfBitMap
  | BfSignature
  | BfHeightMismatch u64 u64
  | BfHashMismatch
  | BfValidator
  | BfWeight
  | BfWeightNotFound

datatype consensus_error =
    CeInvalidOrderRoot hash hash
  | CeInvalidStateRoot hash hash
  | CeInvalidReceiptsRoot hash hash
  | CeInvalidOrderSignedTransactionsHash hash hash
  | CeDecodeErr string
  | CeOverlordErr string
  | CeInvalidProof u64 u64
  | CeInvalidTimestamp
  | CeCryptoErr string
  | CeVerifyTransaction u64
  | CeVerifyBlockHeader u64 block_header_field
  | CeVerifyProof u64 block_proof_field
  | CeStorageItemNotFound
  | CeLockInSync
  | CeOutdatedCommit u64 u64
  | CeConfusedMetadata u64 u64
  | CeOther string
  | CeStorage storage_error
  | CeMetadata metadata_error
  | CeMempool mempool_error
  | CeExecutor exec_error
  | CeWal wal_error
  | CeNetwork string
  | CePanic

record ov_node =
  on_address :: bytes
  on_propose_weight :: u32
  on_vote_weight :: u32

datatype vote_type = Prevote | Precommit

record ov_vote =
  ov_height :: u64
  ov_round :: u64
  ov_vote_type :: vote_type
  ov_block_hash :: bytes

record ov_status =
  os_height :: u64
  os_interval :: "u64 option"
  os_timer_config :: "duration_config option"
  os_authority_list :: "ov_node list"

record current_status =
  cs_prev_hash :: hash
  cs_last_number :: u64
  cs_last_state_root :: hash
  cs_tx_num_limit :: u64
  cs_gas_limit :: u256
  cs_max_tx_size :: u256
  cs_base_fee_per_gas :: u256
  cs_proof :: block_proof
  cs_last_checkpoint_block_hash :: hash

datatype sync_status = SyncFalse | Syncing u256 u256 u256

datatype net_msg =
    NetBroadcast string bytes
  | NetMulticast string bytes bytes
  | NetNumber string u64

section \<open>Libraries, environment and state\<close>

text \<open>Keys, signatures and message hashes of the BLS library by their bytes.\<close>

record bls_lib =
  bl_hash_value :: "bytes \<Rightarrow> bytes option"
  bl_public_key :: "bytes \<Rightarrow> string + bytes"
  bl_signature :: "bytes \<Rightarrow> string + bytes"
  bl_sign_message :: "bytes \<Rightarrow> bytes"
  bl_combine :: "(bytes \<times> bytes) list \<Rightarrow> string + bytes"
  bl_aggregate :: "bytes list \<Rightarrow> string + bytes"
  bl_verify :: "bytes \<Rightarrow> bytes \<Rightarrow> bytes \<Rightarrow> string \<Rightarrow> string + unit"

record ('d, 't, 'p) consensus_env =
  ce_mempool :: "'d mempool_env"
  ce_exec :: "('d, 't, 'p) exec_env"
  ce_bls :: bls_lib
  ce_common_ref :: string
  ce_extract_voters :: "ov_node list \<Rightarrow> bytes \<Rightarrow> string + ov_node list \<times> bytes list"
  ce_sort_nodes :: "ov_node list \<Rightarrow> ov_node list"
  ce_encode_vote :: "ov_vote \<Rightarrow> bytes"
  ce_peer_id :: "bytes \<Rightarrow> string + bytes"
  ce_send :: "net_msg \<Rightarrow> string + unit"
  ce_call_block :: "u64 \<Rightarrow> string + block"
  ce_call_txs :: "u64 \<Rightarrow> hash list \<Rightarrow> string + signed_transaction list"
  ce_call_proof :: "u64 \<Rightarrow> string + block_proof"
  ce_self_address :: h160
  ce_chain_id :: u64
  ce_metadata_address :: h160
  ce_cross_period_interval :: u64
  ce_sync_txs_chunk_size :: nat
  ce_log_bloom :: "evm_log list \<Rightarrow> bloom"
  ce_bloom_of_blooms :: "bloom list \<Rightarrow> bloom"
  ce_hash_display :: "hash \<Rightarrow> string"
  ce_wal_encode :: "signed_transaction list \<Rightarrow> bytes"
  ce_wal_decode :: "bytes \<Rightarrow> string + signed_transaction list"
  ce_pool_iter :: "(bytes \<times> (hash \<times> signed_transaction) list) list \<Rightarrow> (bytes \<times> (hash \<times> signed_transaction) list) list"
  ce_flush_iter :: "(hash \<times> signed_transaction) list \<Rightarrow> (hash \<times> signed_transaction) list"

record ('d, 't) chain_node = "'d node_state" +
  cn_trie_db :: 't
  cn_status :: current_status
  cn_exemption :: "hash set"
  cn_txs_wal :: "node option"
  cn_consensus_wal :: "node option"
  cn_addr_pubkey :: "bytes \<rightharpoonup> bytes"
  cn_last_commit_time :: u64
  cn_fail_reason :: "consensus_error option"
  cn_lock :: bool
  cn_syncing :: bool
  cn_sync_status :: sync_status
  cn_overlord_handler :: "bool option"
  cn_rich_status :: "ov_status list"
  cn_block_logs :: "(u64 \<times> hash \<times> evm_log list list) list"
  cn_checkpoints :: "(block \<times> block_proof) list"
  cn_net_out :: "net_msg list"

type_synonym ('d, 't, 'v) cn_op = "(('d, 't) chain_node, consensus_error, 'v) st"

definition storage_err :: "storage_error \<Rightarrow> consensus_error" where
  "storage_err e = (if e = StoragePanic then CePanic else CeStorage e)"

definition mempool_err :: "mempool_error \<Rightarrow> consensus_error" where
  "mempool_err e = (if e = MpPanic then CePanic else CeMempool e)"

definition metadata_err :: "metadata_error \<Rightarrow> consensus_error" where
  "metadata_err e = (if e = MdPanic then CePanic else CeMetadata e)"

definition exec_err :: "exec_error \<Rightarrow> consensus_error" where
  "exec_err e = (if e = XePanic then CePanic else CeExecutor e)"

definition map_err :: "('e \<Rightarrow> 'f) \<Rightarrow> 'e + 'a \<Rightarrow> 'f + 'a" where
  "map_err f r = (case r of Inl e \<Rightarrow> Inl (f e) | Inr x \<Rightarrow> Inr x)"

definition on_mempool :: "('s, mempool_error, 'v) st \<Rightarrow> ('s, consensus_error, 'v) st" where
  "on_mempool op s = (case op s of (s', r) \<Rightarrow> (s', map_err mempool_err r))"

definition on_store :: "('d, 'v) storage_op \<Rightarrow> ('d, 't, 'v) cn_op" where
  "on_store op s = (case op (nd_storage s) of (st, r) \<Rightarrow> (s\<lparr>nd_storage := st\<rparr>, map_err storage_err r))"

definition on_metadata :: "(metadata_cache, metadata_error, 'v) st \<Rightarrow> ('d, 't, 'v) cn_op" where
  "on_metadata op s = (case op (nd_metadata s) of (c, r) \<Rightarrow> (s\<lparr>nd_metadata := c\<rparr>, map_err metadata_err r))"

abbreviation ce_adapter :: "('d, 't, 'p) consensus_env \<Rightarrow> 'd storage_adapter" where
  "ce_adapter E \<equiv> mp_adapter (ce_mempool E)"

abbreviation ce_store :: "('d, 't, 'p) consensus_env \<Rightarrow> storage_env" where
  "ce_store E \<equiv> mp_storage (ce_mempool E)"

abbreviation ce_meta :: "('d, 't, 'p) consensus_env \<Rightarrow> metadata_env" where
  "ce_meta E \<equiv> mp_metadata (ce_mempool E)"

section \<open>Signatures\<close>

definition digest_signed_transactions ::
  "rlp_lib \<Rightarrow> (bytes \<Rightarrow> bytes) \<Rightarrow> signed_transaction list \<Rightarrow> consensus_error + hash" where
  "digest_signed_transactions L keccak stxs =
     (case those (map (stx_encode L) stxs) of
        None \<Rightarrow> Inl CePanic
      | Some items \<Rightarrow> Inr (hasher_digest keccak (rl_out L (RList items))))"

definition crypto_hash :: "(bytes \<Rightarrow> bytes) \<Rightarrow> bytes \<Rightarrow> bytes" where
  "crypto_hash keccak msg = to_be_bytes 32 (hasher_digest keccak msg)"

definition hash_value :: "bls_lib \<Rightarrow> bytes \<Rightarrow> consensus_error + bytes" where
  "hash_value B h = ok_or (CeOther ''failed to convert hash value'') (bl_hash_value B h)"

definition crypto_sign :: "bls_lib \<Rightarrow> bytes \<Rightarrow> consensus_error + bytes" where
  "crypto_sign B h = res_bind (hash_value B h) (\<lambda>h. Inr (bl_sign_message B h))"

definition verify_signature ::
  "bls_lib \<Rightarrow> string \<Rightarrow> (bytes \<rightharpoonup> bytes) \<Rightarrow> bytes \<Rightarrow> bytes \<Rightarrow> bytes \<Rightarrow> consensus_error + unit" where
  "verify_signature B common_ref addr_pubkey signature h voter =
     res_bind (hash_value B h) (\<lambda>h.
     res_bind (ok_or (CeOther ''lose public key'') (addr_pubkey voter)) (\<lambda>pub_key.
     res_bind (map_err CeCryptoErr (bl_signature B signature)) (\<lambda>sig.
       map_err CeCryptoErr (bl_verify B sig h pub_key common_ref))))"

definition aggregate_signatures ::
  "bls_lib \<Rightarrow> (bytes \<rightharpoonup> bytes) \<Rightarrow> bytes list \<Rightarrow> bytes list \<Rightarrow> consensus_error + bytes" where
  "aggregate_signatures B addr_pubkey signatures voters =
     (if length signatures \<noteq> length voters
      then Inl (CeOther ''signatures length does not match voters length'')
      else
        res_bind (res_map (\<lambda>(sig, addr).
            res_bind (map_err CeCryptoErr (bl_signature B sig)) (\<lambda>signature.
            res_bind (ok_or (CeOther ''lose public key'') (addr_pubkey addr)) (\<lambda>pub_key.
              Inr (signature, pub_key)))) (zip signatures voters))
          (\<lambda>sigs_pubkeys. map_err CeCryptoErr (bl_combine B sigs_pubkeys)))"

definition inner_verify_aggregated_signature ::
  "bls_lib \<Rightarrow> string \<Rightarrow> bytes \<Rightarrow> bytes list \<Rightarrow> bytes \<Rightarrow> consensus_error + unit" where
  "inner_verify_aggregated_signature B common_ref h pub_keys signature =
     res_bind (map_err CeCryptoErr (bl_aggregate B pub_keys)) (\<lambda>aggregate_key.
     res_bind (map_err CeCryptoErr (bl_signature B signature)) (\<lambda>aggregated_signature.
     res_bind (hash_value B h) (\<lambda>h.
       map_err CeCryptoErr (bl_verify B aggregated_signature h aggregate_key common_ref))))"

definition verify_aggregated_signature ::
  "bls_lib \<Rightarrow> string \<Rightarrow> (bytes \<rightharpoonup> bytes) \<Rightarrow> bytes \<Rightarrow> bytes \<Rightarrow> bytes list \<Rightarrow> consensus_error + unit" where
  "verify_aggregated_signature B common_ref addr_pubkey aggregated_signature h voters =
     res_bind (res_map (\<lambda>addr. ok_or (CeOther ''lose public key'') (addr_pubkey addr)) voters) (\<lambda>pub_keys.
       inner_verify_aggregated_signature B common_ref h pub_keys aggregated_signature)"

definition convert_hex_to_bls_pubkeys :: "bls_lib \<Rightarrow> bytes \<Rightarrow> consensus_error + bytes" where
  "convert_hex_to_bls_pubkeys B hex = map_err CeCryptoErr (bl_public_key B hex)"

definition crypto_update :: "(bytes \<rightharpoonup> bytes) \<Rightarrow> ('d, 't, unit) cn_op" where
  "crypto_update new_addr_pubkey = st_modify (\<lambda>s. s\<lparr>cn_addr_pubkey := new_addr_pubkey\<rparr>)"

section \<open>The adapter\<close>

definition get_txs_from_mempool :: "('d, 't, 'p) consensus_env \<Rightarrow> u64 \<Rightarrow> ('d, 't, hash list) cn_op" where
  "get_txs_from_mempool E tx_num_limit = on_mempool (mempool_package (ce_pool_iter E) tx_num_limit)"

definition adapter_get_full_txs ::
  "('d, 't, 'p) consensus_env \<Rightarrow> hash list \<Rightarrow> ('d, 't, signed_transaction list) cn_op" where
  "adapter_get_full_txs E txs = on_mempool (get_full_txs (ce_mempool E) None txs)"

definition net_send :: "('d, 't, 'p) consensus_env \<Rightarrow> net_msg \<Rightarrow> ('d, 't, unit) cn_op" where
  "net_send E msg =
     st_seq (st_lift (map_err CeNetwork (ce_send E msg)))
       (st_modify (\<lambda>s. s\<lparr>cn_net_out := cn_net_out s @ [msg]\<rparr>))"

datatype message_target = ToBroadcast | ToSpecified bytes

definition transmit ::
  "('d, 't, 'p) consensus_env \<Rightarrow> bytes \<Rightarrow> string \<Rightarrow> message_target \<Rightarrow> ('d, 't, unit) cn_op" where
  "transmit E msg end target =
     (case target of
        ToBroadcast \<Rightarrow> net_send E (NetBroadcast end msg)
      | ToSpecified pub_key \<Rightarrow>
          st_bind (st_lift (map_err CeNetwork (ce_peer_id E pub_key))) (\<lambda>peer.
            net_send E (NetMulticast end peer msg)))"

definition get_current_number :: "('d, 't, 'p) consensus_env \<Rightarrow> ('d, 't, u64) cn_op" where
  "get_current_number E =
     st_bind (on_store (get_latest_block_header (ce_adapter E) (ce_store E))) (\<lambda>hdr. st_return (hd_number hdr))"

text \<open>\<open>origin\<close> tells whether the context names a peer, to whom the mempool then gives feedback.\<close>

definition verify_txs :: "('d, 't, 'p) consensus_env \<Rightarrow> bool \<Rightarrow> u64 \<Rightarrow> hash list \<Rightarrow> ('d, 't, unit) cn_op" where
  "verify_txs E origin number txs s =
     (case ensure_order_txs (ce_mempool E) origin (Some number) txs s of
        (s', Inl MpPanic) \<Rightarrow> (s', Inl CePanic)
      | (s', Inl _) \<Rightarrow> (s', Inl (CeVerifyTransaction number))
      | (s', Inr _) \<Rightarrow> (s', Inr ()))"

definition node_of_validator :: "validator \<Rightarrow> ov_node" where
  "node_of_validator v =
     \<lparr>on_address = vd_pub_key v, on_propose_weight = vd_propose_weight v, on_vote_weight = vd_vote_weight v\<rparr>"

definition node_of_extend :: "validator_extend \<Rightarrow> ov_node" where
  "node_of_extend v =
     \<lparr>on_address = ve_pub_key v, on_propose_weight = ve_propose_weight v, on_vote_weight = ve_vote_weight v\<rparr>"

definition gen_overlord_status ::
  "('d, 't, 'p) consensus_env \<Rightarrow> u64 \<Rightarrow> u64 \<Rightarrow> u64 \<Rightarrow> u64 \<Rightarrow> u64 \<Rightarrow> u64 \<Rightarrow> validator list \<Rightarrow> ov_status" where
  "gen_overlord_status E height interval propose_ratio prevote_ratio precommit_ratio brake_ratio validators =
     \<lparr>os_height = height, os_interval = Some interval,
      os_timer_config = Some \<lparr>dc_propose_ratio = propose_ratio, dc_prevote_ratio = prevote_ratio,
                              dc_precommit_ratio = precommit_ratio, dc_brake_ratio = brake_ratio\<rparr>,
      os_authority_list = ce_sort_nodes E (map node_of_validator validators)\<rparr>"

text \<open>
  The handler of the Overlord instance: not set yet (then \<open>expect\<close> panics), or set with
  its channel open or closed.
\<close>

definition adapter_update_status ::
  "('d, 't, 'p) consensus_env \<Rightarrow> u64 \<Rightarrow> u64 \<Rightarrow> u64 \<Rightarrow> u64 \<Rightarrow> u64 \<Rightarrow> u64 \<Rightarrow> validator list \<Rightarrow> ('d, 't, unit) cn_op" where
  "adapter_update_status E number interval propose_ratio prevote_ratio precommit_ratio brake_ratio validators =
     st_bind (st_lift (ok_or CePanic (checked_add number 1))) (\<lambda>height.
     st_bind (st_gets cn_overlord_handler) (\<lambda>handler.
       case handler of
         None \<Rightarrow> st_throw CePanic
       | Some open \<Rightarrow>
           if open
           then st_modify (\<lambda>s. s\<lparr>cn_rich_status := cn_rich_status s @
                  [gen_overlord_status E height interval propose_ratio prevote_ratio precommit_ratio brake_ratio
                     validators]\<rparr>)
           else st_throw (CeOverlordErr ''channel closed'')))"

definition set_overlord_handler :: "bool \<Rightarrow> ('d, 't, unit) cn_op" where
  "set_overlord_handler open = st_modify (\<lambda>s. s\<lparr>cn_overlord_handler := Some open\<rparr>)"

definition get_block_from_remote :: "('d, 't, 'p) consensus_env \<Rightarrow> u64 \<Rightarrow> ('d, 't, block) cn_op" where
  "get_block_from_remote E number = st_lift (map_err CeNetwork (ce_call_block E number))"

definition get_txs_from_remote ::
  "('d, 't, 'p) consensus_env \<Rightarrow> u64 \<Rightarrow> hash list \<Rightarrow> ('d, 't, signed_transaction list) cn_op" where
  "get_txs_from_remote E number hashes = st_lift (map_err CeNetwork (ce_call_txs E number hashes))"

definition get_proof_from_remote :: "('d, 't, 'p) consensus_env \<Rightarrow> u64 \<Rightarrow> ('d, 't, block_proof) cn_op" where
  "get_proof_from_remote E number = st_lift (map_err CeNetwork (ce_call_proof E number))"

definition save_block :: "('d, 't, 'p) consensus_env \<Rightarrow> block \<Rightarrow> ('d, 't, unit) cn_op" where
  "save_block E b = on_store (storage_insert_block (ce_adapter E) (ce_store E) b)"

definition save_proof :: "('d, 't, 'p) consensus_env \<Rightarrow> block_proof \<Rightarrow> ('d, 't, unit) cn_op" where
  "save_proof E p = on_store (update_latest_proof (ce_adapter E) (ce_store E) p)"

definition save_signed_txs ::
  "('d, 't, 'p) consensus_env \<Rightarrow> u64 \<Rightarrow> signed_transaction list \<Rightarrow> ('d, 't, unit) cn_op" where
  "save_signed_txs E block_number signed_txs =
     on_store (insert_transactions (ce_adapter E) (ce_store E) block_number signed_txs)"

definition save_receipts :: "('d, 't, 'p) consensus_env \<Rightarrow> u64 \<Rightarrow> receipt list \<Rightarrow> ('d, 't, unit) cn_op" where
  "save_receipts E number receipts = on_store (insert_receipts (ce_adapter E) (ce_store E) number receipts)"

definition flush_mempool :: "('d, 't, 'p) consensus_env \<Rightarrow> hash list \<Rightarrow> ('d, 't, unit) cn_op" where
  "flush_mempool E ordered_tx_hashes = on_mempool (mempool_flush (ce_mempool E) (ce_flush_iter E) ordered_tx_hashes)"

definition get_block_by_number :: "('d, 't, 'p) consensus_env \<Rightarrow> u64 \<Rightarrow> ('d, 't, block) cn_op" where
  "get_block_by_number E number =
     st_bind (on_store (storage_get_block (ce_adapter E) (ce_store E) number)) (\<lambda>b.
       st_lift (ok_or CeStorageItemNotFound b))"

definition get_block_header_by_number :: "('d, 't, 'p) consensus_env \<Rightarrow> u64 \<Rightarrow> ('d, 't, header) cn_op" where
  "get_block_header_by_number E number =
     st_bind (on_store (storage_get_block_header (ce_adapter E) (ce_store E) number)) (\<lambda>h.
       st_lift (ok_or CeStorageItemNotFound h))"

definition get_txs_from_storage ::
  "('d, 't, 'p) consensus_env \<Rightarrow> hash list \<Rightarrow> ('d, 't, signed_transaction list) cn_op" where
  "get_txs_from_storage E tx_hashes =
     st_bind (st_map (\<lambda>h. on_store (get_transaction_by_hash (ce_adapter E) (ce_store E) h)) tx_hashes)
       (\<lambda>txs. st_return (List.map_filter id txs))"

definition proposal_hash :: "('d, 't, 'p) consensus_env \<Rightarrow> proposal \<Rightarrow> hash" where
  "proposal_hash E p =
     hasher_digest (mp_keccak (ce_mempool E)) (rl_out (mp_rlp (ce_mempool E)) (proposal_encode (mp_rlp (ce_mempool E)) p))"

definition adapter_exec ::
  "('d, 't, 'p) consensus_env \<Rightarrow> hash \<Rightarrow> proposal \<Rightarrow> signed_transaction list \<Rightarrow> ('d, 't, exec_resp) cn_op" where
  "adapter_exec E last_state_root p signed_txs s =
     (case backend_from_root (ce_exec E) last_state_root (cn_trie_db s) (nd_storage s)
             (executor_context_from_proposal (proposal_hash E) p) of
        Inl e \<Rightarrow> (s, Inl (exec_err e))
      | Inr backend \<Rightarrow>
          (case exec_block (ce_exec E) signed_txs backend of
             (b, r) \<Rightarrow> (s\<lparr>cn_trie_db := ax_db b, nd_storage := ax_storage b\<rparr>, map_err exec_err r)))"

definition adapter_need_change_metadata :: "('d, 't, 'p) consensus_env \<Rightarrow> u64 \<Rightarrow> ('d, 't, bool) cn_op" where
  "adapter_need_change_metadata E number =
     st_lift (map_err metadata_err (need_change_metadata (ce_meta E) number))"

definition adapter_metadata_unchecked :: "('d, 't, 'p) consensus_env \<Rightarrow> u64 \<Rightarrow> ('d, 't, metadata) cn_op" where
  "adapter_metadata_unchecked E number s =
     (s, map_err metadata_err (get_metadata_unchecked (ce_meta E) number (nd_metadata s)))"

definition adapter_get_metadata :: "('d, 't, 'p) consensus_env \<Rightarrow> header \<Rightarrow> ('d, 't, metadata) cn_op" where
  "adapter_get_metadata E hdr = on_metadata (get_metadata (ce_meta E) hdr)"

definition adapter_update_metadata :: "('d, 't, 'p) consensus_env \<Rightarrow> header \<Rightarrow> ('d, 't, unit) cn_op" where
  "adapter_update_metadata E hdr = on_metadata (update_metadata (ce_meta E) hdr)"

definition broadcast_number :: "('d, 't, 'p) consensus_env \<Rightarrow> u64 \<Rightarrow> ('d, 't, unit) cn_op" where
  "broadcast_number E number = net_send E (NetNumber ''/gossip/consensus/broadcast_height'' number)"

definition adapter_set_args :: "u64 \<Rightarrow> u64 \<Rightarrow> ('d, 't, unit) cn_op" where
  "adapter_set_args gas_limit max_tx_size = st_modify (mempool_set_args gas_limit max_tx_size)"

definition tag_consensus :: "bytes list \<Rightarrow> ('d, 't, unit) cn_op" where
  "tag_consensus pub_keys = st_return ()"

definition notify_block_logs :: "u64 \<Rightarrow> hash \<Rightarrow> evm_log list list \<Rightarrow> ('d, 't, unit) cn_op" where
  "notify_block_logs block_number block_hash logs =
     st_modify (\<lambda>s. s\<lparr>cn_block_logs := cn_block_logs s @ [(block_number, block_hash, logs)]\<rparr>)"

definition notify_checkpoint :: "block \<Rightarrow> block_proof \<Rightarrow> ('d, 't, unit) cn_op" where
  "notify_checkpoint b p = st_modify (\<lambda>s. s\<lparr>cn_checkpoints := cn_checkpoints s @ [(b, p)]\<rparr>)"

definition verify_block_header :: "('d, 't, 'p) consensus_env \<Rightarrow> proposal \<Rightarrow> ('d, 't, unit) cn_op" where
  "verify_block_header E p =
     st_bind (st_lift (ok_or CePanic (checked_sub (pp_number p) 1))) (\<lambda>prev_number.
     st_bind (get_block_header_by_number E prev_number) (\<lambda>previous.
       if se_header_hash (ce_store E) previous \<noteq> pp_prev_hash p
       then st_throw (CeVerifyBlockHeader (pp_number p) HfPreviousBlockHash)
       else st_return ()))"

section \<open>Checking a proof\<close>

text \<open>A hash map collected from pairs: the last pair of a key wins.\<close>

definition collect_map :: "('k \<times> 'v) list \<Rightarrow> ('k \<times> 'v) list" where
  "collect_map kvs = foldl (\<lambda>m kv. AList.update (fst kv) (snd kv) m) [] kvs"

fun sum_u64 :: "u64 \<Rightarrow> u64 list \<Rightarrow> consensus_error + u64" where
  "sum_u64 acc [] = Inr acc"
| "sum_u64 acc (w # ws) = res_bind (ok_or CePanic (checked_add acc w)) (\<lambda>acc. sum_u64 acc ws)"

fun accumulate_votes ::
  "u64 \<Rightarrow> (bytes \<times> u32) list \<Rightarrow> u64 \<Rightarrow> bytes list \<Rightarrow> consensus_error + u64" where
  "accumulate_votes block_number weight_map acc [] = Inr acc"
| "accumulate_votes block_number weight_map acc (v # vs) =
     (case map_of weight_map v of
        None \<Rightarrow> Inl (CeVerifyProof block_number BfValidator)
      | Some w \<Rightarrow>
          res_bind (ok_or CePanic (checked_add acc (ucast w))) (\<lambda>acc.
            accumulate_votes block_number weight_map acc vs))"

definition verify_proof_weight :: "u64 \<Rightarrow> (bytes \<times> u32) list \<Rightarrow> bytes list \<Rightarrow> consensus_error + unit" where
  "verify_proof_weight block_number weight_map signed_voters =
     res_bind (sum_u64 0 (map (\<lambda>kv. ucast (snd kv)) weight_map)) (\<lambda>total_validator_weight.
     res_bind (accumulate_votes block_number weight_map 0 signed_voters) (\<lambda>accumulator.
     res_bind (ok_or CePanic (checked_mul 3 accumulator)) (\<lambda>a3.
     res_bind (ok_or CePanic (checked_mul 2 total_validator_weight)) (\<lambda>t2.
       if a3 \<le> t2 then Inl (CeVerifyProof block_number BfWeight) else Inr ()))))"

definition verify_proof_signature ::
  "('d, 't, 'p) consensus_env \<Rightarrow> u64 \<Rightarrow> bytes \<Rightarrow> bytes \<Rightarrow> bytes list \<Rightarrow> consensus_error + unit" where
  "verify_proof_signature E block_number vote_hash aggregated_signature_bytes vote_keys =
     res_bind (res_map (convert_hex_to_bls_pubkeys (ce_bls E)) vote_keys) (\<lambda>pub_keys.
       map_err (\<lambda>_. CeVerifyProof block_number BfSignature)
         (inner_verify_aggregated_signature (ce_bls E) (ce_common_ref E) vote_hash pub_keys
            aggregated_signature_bytes))"

definition proof_vote :: "block_proof \<Rightarrow> ov_vote" where
  "proof_vote p =
     \<lparr>ov_height = pf_number p, ov_round = pf_round p, ov_vote_type = Precommit,
      ov_block_hash = to_be_bytes 32 (pf_block_hash p)\<rparr>"

definition check_votes ::
  "('d, 't, 'p) consensus_env \<Rightarrow> u64 \<Rightarrow> metadata \<Rightarrow> block_proof \<Rightarrow> consensus_error + unit" where
  "check_votes E number metadata p =
     res_bind (map_err (\<lambda>_. CeVerifyProof number BfBitMap)
        (ce_extract_voters E (map node_of_extend (md_verifier_list metadata)) (pf_bitmap p)))
       (\<lambda>(authority_list, signed_voters).
     res_bind (verify_proof_weight number
        (collect_map (map (\<lambda>n. (on_address n, on_vote_weight n)) authority_list)) signed_voters) (\<lambda>_.
       verify_proof_signature E number
         (crypto_hash (mp_keccak (ce_mempool E)) (ce_encode_vote E (proof_vote p))) (pf_signature p)
         (map ve_bls_pub_key (filter (\<lambda>v. ve_pub_key v \<in> set signed_voters) (md_verifier_list metadata)))))"

definition verify_proof ::
  "('d, 't, 'p) consensus_env \<Rightarrow> block \<Rightarrow> block_proof \<Rightarrow> ('d, 't, unit) cn_op" where
  "verify_proof E b p =
     (let number = hd_number (bk_header b)
      in if number = 0 then st_return ()
         else if number \<noteq> pf_number p
         then st_throw (CeVerifyProof number (BfHeightMismatch number (pf_number p)))
         else if proposal_hash E (proposal_from_block b) \<noteq> pf_block_hash p
         then st_throw (CeVerifyProof number BfHashMismatch)
         else
           st_bind (adapter_get_metadata E (bk_header b)) (\<lambda>metadata.
             if \<not> metadata_version_contains (md_version metadata) number
             then st_throw (CeConfusedMetadata (mv_start (md_version metadata)) (mv_end (md_version metadata)))
             else st_lift (check_votes E number metadata p)))"


section \<open>Weights\<close>

definition vote_weight :: "(bytes \<times> u32) list \<Rightarrow> bytes \<Rightarrow> nat" where
  "vote_weight m v = (case map_of m v of None \<Rightarrow> 0 | Some w \<Rightarrow> unat w)"

definition total_weight :: "(bytes \<times> u32) list \<Rightarrow> nat" where
  "total_weight m = sum_list (map (\<lambda>kv. unat (snd kv)) m)"

lemma vote_weight_Some: "map_of m v = Some w \<Longrightarrow> vote_weight m v = unat w"
  by (simp add: vote_weight_def)

lemma map_of_Some_key: "map_of m v = Some w \<Longrightarrow> v \<in> fst ` set m"
  by (metis map_of_eq_None_iff option.distinct(1))

lemma unat_u32_u64 [simp]: "unat (ucast (w :: u32) :: u64) = unat w"
  using unat_bound [of w] by (simp add: unsigned_ucast_eq take_bit_nat_eq_self)

lemma sum_u64_value: "sum_u64 acc ws = Inr t \<Longrightarrow> unat t = unat acc + sum_list (map unat ws)"
  by (induction ws arbitrary: acc) (auto simp: res_bind_eq_Inr ok_or_eq_Inr dest: checked_add_unat)

lemma sum_u64_total:
  "unat acc + sum_list (map unat ws) < 2 ^ 64 \<Longrightarrow> \<exists>t. sum_u64 acc ws = Inr t"
proof (induction ws arbitrary: acc)
  case (Cons w ws)
  then have "unat acc + unat w < 2 ^ 64" by simp
  then have add: "checked_add acc w = Some (acc + w)" by (simp add: checked_add_def)
  then show ?case using Cons checked_add_unat [OF add] by (simp add: add.assoc)
qed simp

lemma accumulate_value:
  "accumulate_votes n m acc vs = Inr t \<Longrightarrow>
     set vs \<subseteq> fst ` set m \<and> unat t = unat acc + sum_list (map (vote_weight m) vs)"
proof (induction vs arbitrary: acc)
  case (Cons v vs)
  then obtain w acc' where w: "map_of m v = Some w" and add: "checked_add acc (ucast w) = Some acc'"
    and rest: "accumulate_votes n m acc' vs = Inr t"
    by (auto simp: res_bind_eq_Inr ok_or_eq_Inr split: option.splits)
  have "v \<in> fst ` set m" using w by (rule map_of_Some_key)
  then show ?case
    using Cons.IH [OF rest] checked_add_unat [OF add] by (simp add: vote_weight_Some [OF w])
qed simp

lemma accumulate_total:
  assumes "set vs \<subseteq> fst ` set m" and "unat acc + sum_list (map (vote_weight m) vs) < 2 ^ 64"
  shows "\<exists>t. accumulate_votes n m acc vs = Inr t"
  using assms
proof (induction vs arbitrary: acc)
  case (Cons v vs)
  then obtain w where w: "map_of m v = Some w"
    by (metis list.set_intros(1) map_of_eq_None_iff not_Some_eq subsetD)
  have "unat acc + unat w < 2 ^ 64" using Cons.prems(2) by (simp add: vote_weight_Some [OF w])
  then have add: "checked_add acc (ucast w) = Some (acc + ucast w)" by (simp add: checked_add_def)
  then have "unat (acc + ucast w) + sum_list (map (vote_weight m) vs) < 2 ^ 64"
    using Cons.prems(2) checked_add_unat [OF add] by (simp add: vote_weight_Some [OF w] add.assoc)
  then show ?case using Cons.IH [of "acc + ucast w"] Cons.prems(1) w add by simp
qed simp

lemma accumulate_unknown:
  assumes "\<not> set vs \<subseteq> fst ` set m" and "unat acc + sum_list (map (vote_weight m) vs) < 2 ^ 64"
  shows "accumulate_votes n m acc vs = Inl (CeVerifyProof n BfValidator)"
  using assms
proof (induction vs arbitrary: acc)
  case (Cons v vs)
  show ?case
  proof (cases "map_of m v")
    case None
    then show ?thesis by simp
  next
    case (Some w)
    then have v: "v \<in> fst ` set m" by (rule map_of_Some_key)
    have "unat acc + unat w < 2 ^ 64" using Cons.prems(2) by (simp add: vote_weight_Some [OF Some])
    then have add: "checked_add acc (ucast w) = Some (acc + ucast w)" by (simp add: checked_add_def)
    then have "unat (acc + ucast w) + sum_list (map (vote_weight m) vs) < 2 ^ 64"
      using Cons.prems(2) checked_add_unat [OF add] by (simp add: vote_weight_Some [OF Some] add.assoc)
    then show ?thesis using Cons.IH [of "acc + ucast w"] Cons.prems(1) v Some add by simp
  qed
qed simp

lemma sum_list_weights_bound:
  "(\<And>x. x \<in> set xs \<Longrightarrow> f x < 2 ^ 32) \<Longrightarrow> sum_list (map f xs) \<le> length xs * 2 ^ 32"
  by (induction xs) (simp_all, force simp: less_imp_le add_mono)

lemma vote_weight_bound: "vote_weight m v < 2 ^ 32"
  using unat_bound [where 'a = 32] by (simp add: vote_weight_def split: option.split)

lemma verify_proof_weight_ok:
  assumes "verify_proof_weight n m vs = Inr ()"
  shows "set vs \<subseteq> fst ` set m" and "2 * total_weight m < 3 * sum_list (map (vote_weight m) vs)"
proof -
  obtain t a a3 t2 where t: "sum_u64 0 (map (\<lambda>kv. ucast (snd kv)) m) = Inr t"
    and a: "accumulate_votes n m 0 vs = Inr a"
    and a3: "checked_mul 3 a = Some a3" and t2: "checked_mul 2 t = Some t2" and le: "\<not> a3 \<le> t2"
    using assms by (auto simp: verify_proof_weight_def res_bind_eq_Inr ok_or_eq_Inr split: if_splits)
  show "set vs \<subseteq> fst ` set m" using accumulate_value [OF a] by blast
  have "unat t = total_weight m"
    using sum_u64_value [OF t] by (simp add: total_weight_def comp_def)
  moreover have "unat a = sum_list (map (vote_weight m) vs)" using accumulate_value [OF a] by simp
  ultimately show "2 * total_weight m < 3 * sum_list (map (vote_weight m) vs)"
    using le checked_mul_unat [OF a3] checked_mul_unat [OF t2] by (simp add: word_le_nat_alt)
qed

section \<open>Quorums\<close>

text \<open>
  Weighted quorums: sets that carry more than two thirds of a finite total. The
  interface of the proof check to the argument that two accepted proofs cannot
  conflict.
\<close>

locale weighted_quorum =
  fixes V :: "'v set" and w :: "'v \<Rightarrow> nat"
  assumes finite_V: "finite V"
begin

lemma quorum_intersection:
  assumes "P \<subseteq> V" and "Q \<subseteq> V" and "2 * sum w V < 3 * sum w P" and "2 * sum w V < 3 * sum w Q"
  shows "sum w V < 3 * sum w (P \<inter> Q)"
proof -
  have fin: "finite P" "finite Q" using assms(1,2) finite_V by (blast intro: finite_subset)+
  have "sum w (P \<union> Q) + sum w (P \<inter> Q) = sum w P + sum w Q"
    using sum.union_inter [OF fin, of w] by simp
  moreover have "sum w (P \<union> Q) \<le> sum w V"
    using assms(1,2) finite_V by (intro sum_mono2) auto
  ultimately show ?thesis using assms(3,4) by linarith
qed

lemma correct_in_both:
  assumes "P \<subseteq> V" and "Q \<subseteq> V" and "2 * sum w V < 3 * sum w P" and "2 * sum w V < 3 * sum w Q"
    and "F \<subseteq> V" and "3 * sum w F \<le> sum w V"
  shows "\<exists>v \<in> P \<inter> Q. v \<notin> F"
proof (rule ccontr)
  assume "\<not> ?thesis"
  then have "P \<inter> Q \<subseteq> F" by blast
  then have "sum w (P \<inter> Q) \<le> sum w F"
    using assms(5) finite_V by (intro sum_mono2) (auto intro: finite_subset)
  then show False using quorum_intersection [OF assms(1-4)] assms(6) by linarith
qed

lemma correct_suffice:
  assumes "F \<subseteq> V" and "3 * sum w F < sum w V"
  shows "2 * sum w V < 3 * sum w (V - F)"
proof -
  have "sum w (V - F) + sum w F = sum w V"
    using sum.subset_diff [OF assms(1) finite_V, of w] by simp
  then show ?thesis using assms(2) by linarith
qed

end

interpretation vq: weighted_quorum "fst ` set m" "vote_weight m" for m :: "(bytes \<times> u32) list"
  by unfold_locales simp

lemma total_weight_sum:
  assumes "distinct (map fst m)"
  shows "total_weight m = sum (vote_weight m) (fst ` set m)"
proof -
  have w: "vote_weight m (fst kv) = unat (snd kv)" if "kv \<in> set m" for kv
    using that assms by (simp add: vote_weight_def map_of_is_SomeI [of m "fst kv" "snd kv"])
  have "total_weight m = sum_list (map (\<lambda>kv. vote_weight m (fst kv)) m)"
    unfolding total_weight_def by (intro arg_cong [where f = sum_list] map_cong) (simp_all add: w)
  also have "\<dots> = sum_list (map (vote_weight m) (map fst m))" by (simp add: comp_def)
  also have "\<dots> = sum (vote_weight m) (set (map fst m))"
    using assms by (rule sum_list_distinct_conv_sum_set)
  finally show ?thesis by simp
qed

lemma update_absent: "k \<notin> fst ` set al \<Longrightarrow> AList.update k v al = al @ [(k, v)]"
  by (induction al) auto

lemma collect_map_distinct: "distinct (map fst kvs) \<Longrightarrow> collect_map kvs = kvs"
proof (induction kvs rule: rev_induct)
  case (snoc kv kvs)
  then have "collect_map kvs = kvs" and "fst kv \<notin> fst ` set kvs" by auto
  then show ?case by (cases kv) (simp add: collect_map_def update_absent)
qed (simp add: collect_map_def)


section \<open>Accepted proofs\<close>

text \<open>
  What the check relies on in the Overlord library: \<open>extract_voters\<close> at most reorders the
  authority list, names members of it only, and none of them twice.
\<close>

definition extract_voters_ok :: "('d, 't, 'p) consensus_env \<Rightarrow> bool" where
  "extract_voters_ok E \<longleftrightarrow>
     (\<forall>ns bitmap ns' vs. ce_extract_voters E ns bitmap = Inr (ns', vs) \<longrightarrow>
        mset ns' = mset ns \<and> set vs \<subseteq> on_address ` set ns \<and>
        (distinct (map on_address ns) \<longrightarrow> distinct vs))"

definition validator_weights :: "metadata \<Rightarrow> (bytes \<times> u32) list" where
  "validator_weights metadata = map (\<lambda>v. (ve_pub_key v, ve_vote_weight v)) (md_verifier_list metadata)"

text \<open>
  The validators the bitmap of a proof names, and that the signature of the proof is an
  aggregate of their signatures on the precommit vote.
\<close>

definition proof_voters :: "('d, 't, 'p) consensus_env \<Rightarrow> metadata \<Rightarrow> block_proof \<Rightarrow> bytes set" where
  "proof_voters E metadata p =
     (case ce_extract_voters E (map node_of_extend (md_verifier_list metadata)) (pf_bitmap p) of
        Inl _ \<Rightarrow> {} | Inr (_, vs) \<Rightarrow> set vs)"

definition voters_signed :: "('d, 't, 'p) consensus_env \<Rightarrow> metadata \<Rightarrow> block_proof \<Rightarrow> bool" where
  "voters_signed E metadata p \<longleftrightarrow>
     is_ok (verify_proof_signature E (pf_number p)
       (crypto_hash (mp_keccak (ce_mempool E)) (ce_encode_vote E (proof_vote p))) (pf_signature p)
       (map ve_bls_pub_key
         (filter (\<lambda>v. ve_pub_key v \<in> proof_voters E metadata p) (md_verifier_list metadata))))"

lemma extract_voters_okD:
  assumes "extract_voters_ok E" and "ce_extract_voters E ns bitmap = Inr (ns', vs)"
  shows "mset ns' = mset ns" and "set vs \<subseteq> on_address ` set ns"
    and "distinct (map on_address ns) \<Longrightarrow> distinct vs"
  using assms unfolding extract_voters_ok_def by blast+

lemma map_err_simps [simp]: "map_err f (Inl e) = Inl (f e)" "map_err f (Inr x) = Inr x"
  by (simp_all add: map_err_def)

lemma map_err_ok [simp]: "map_err f r = Inr x \<longleftrightarrow> r = Inr x"
  by (simp add: map_err_def split: sum.split)

lemma vote_weight_perm:
  assumes "mset m = mset m'" and "distinct (map fst m)"
  shows "vote_weight m = vote_weight m'"
proof -
  have "distinct (map fst m')" using assms by (metis mset_eq_imp_distinct_iff mset_map)
  then have "map_of m = map_of m'"
    using assms by (metis map_of_inject_set mset_eq_setD)
  then show ?thesis by (simp add: vote_weight_def fun_eq_iff)
qed

lemma check_votes_quorum:
  assumes ok: "extract_voters_ok E" and dist: "distinct (map ve_pub_key (md_verifier_list metadata))"
    and run: "check_votes E number metadata p = Inr ()"
  shows "proof_voters E metadata p \<subseteq> fst ` set (validator_weights metadata)"
    and "2 * total_weight (validator_weights metadata) <
           3 * sum (vote_weight (validator_weights metadata)) (proof_voters E metadata p)"
proof -
  let ?ns = "map node_of_extend (md_verifier_list metadata)" and ?W = "validator_weights metadata"
  obtain ns vs where ex: "ce_extract_voters E ?ns (pf_bitmap p) = Inr (ns, vs)"
    and weight: "verify_proof_weight number
      (collect_map (map (\<lambda>n. (on_address n, on_vote_weight n)) ns)) vs = Inr ()"
    using run by (auto simp: check_votes_def res_bind_eq_Inr split: prod.splits)
  define m where "m = map (\<lambda>n. (on_address n, on_vote_weight n)) ns"
  have W: "?W = map (\<lambda>n. (on_address n, on_vote_weight n)) ?ns"
    by (simp add: validator_weights_def node_of_extend_def comp_def)
  have addr: "map on_address ?ns = map ve_pub_key (md_verifier_list metadata)"
    by (simp add: node_of_extend_def comp_def)
  have perm: "mset m = mset ?W"
    unfolding W m_def mset_map using extract_voters_okD(1) [OF ok ex] by simp
  have distW: "distinct (map fst ?W)" using dist by (simp add: validator_weights_def comp_def)
  then have distm: "distinct (map fst m)" using perm by (metis mset_eq_imp_distinct_iff mset_map)
  have distv: "distinct vs" by (rule extract_voters_okD(3) [OF ok ex, unfolded addr, OF dist])
  note quorum = verify_proof_weight_ok [OF weight [folded m_def], unfolded collect_map_distinct [OF distm]]
  have voters: "proof_voters E metadata p = set vs" using ex by (simp add: proof_voters_def)
  have "fst ` set m = fst ` set ?W" using perm by (metis mset_eq_setD)
  then show "proof_voters E metadata p \<subseteq> fst ` set ?W" using quorum(1) voters by simp
  have "total_weight m = total_weight ?W"
    by (simp add: total_weight_def perm flip: sum_mset_sum_list)
  moreover have "vote_weight m = vote_weight ?W" using perm distm by (rule vote_weight_perm)
  ultimately show "2 * total_weight ?W < 3 * sum (vote_weight ?W) (proof_voters E metadata p)"
    using quorum(2) distv voters by (simp add: sum_list_distinct_conv_sum_set)
qed

lemma check_votes_signed:
  "check_votes E (pf_number p) metadata p = Inr () \<Longrightarrow> voters_signed E metadata p"
  by (auto simp: check_votes_def voters_signed_def proof_voters_def res_bind_eq_Inr is_ok_def split: prod.splits)

lemma verify_proof_accepted:
  assumes "verify_proof E b p s = (s', Inr ())" and "hd_number (bk_header b) \<noteq> 0"
    and "me_epoch_len (ce_meta E) \<noteq> 0"
    and "nd_metadata s (hd_number (bk_header b) div me_epoch_len (ce_meta E)) = Some metadata"
  shows "pf_number p = hd_number (bk_header b)"
    and "pf_block_hash p = proposal_hash E (proposal_from_block b)"
    and "metadata_version_contains (md_version metadata) (hd_number (bk_header b))"
    and "check_votes E (hd_number (bk_header b)) metadata p = Inr ()"
  using assms
  by (auto simp: verify_proof_def Let_def st_bind_apply adapter_get_metadata_def on_metadata_def
      get_metadata_hit split: if_splits)

section \<open>Properties\<close>

text \<open>
  Property C26. Checking the weight of a proof never overflows for up to \<open>2 ^ 29\<close>
  validators and voters, and decides exactly: a voter without a weight is refused, then a
  total that is not more than two thirds, and everything else is accepted.
\<close>

theorem verify_proof_weight_exact:
  assumes "length weight_map \<le> 2 ^ 29" and "length voters \<le> 2 ^ 29"
  shows "verify_proof_weight number weight_map voters =
    (if \<not> set voters \<subseteq> fst ` set weight_map then Inl (CeVerifyProof number BfValidator)
     else if 3 * sum_list (map (vote_weight weight_map) voters) \<le> 2 * total_weight weight_map
     then Inl (CeVerifyProof number BfWeight)
     else Inr ())"
proof -
  let ?ws = "map (\<lambda>kv. ucast (snd kv) :: u64) weight_map"
  have total: "sum_list (map unat ?ws) = total_weight weight_map" by (simp add: total_weight_def comp_def)
  have "total_weight weight_map \<le> length weight_map * 2 ^ 32"
    unfolding total_weight_def using unat_bound [where 'a = 32] by (intro sum_list_weights_bound) simp
  then have tb: "total_weight weight_map \<le> 2 ^ 61" using assms(1) by simp
  have "sum_list (map (vote_weight weight_map) voters) \<le> length voters * 2 ^ 32"
    by (intro sum_list_weights_bound vote_weight_bound)
  then have vb: "sum_list (map (vote_weight weight_map) voters) \<le> 2 ^ 61" using assms(2) by simp
  obtain t where t: "sum_u64 0 ?ws = Inr t" using sum_u64_total [of 0 ?ws] tb total by auto
  have ut: "unat t = total_weight weight_map" using sum_u64_value [OF t] total by simp
  show ?thesis
  proof (cases "set voters \<subseteq> fst ` set weight_map")
    case True
    obtain a where a: "accumulate_votes number weight_map 0 voters = Inr a"
      using accumulate_total [OF True, of 0] vb by auto
    have ua: "unat a = sum_list (map (vote_weight weight_map) voters)" using accumulate_value [OF a] by simp
    have m: "checked_mul 3 a = Some (3 * a)" "checked_mul 2 t = Some (2 * t)"
      using ua ut tb vb by (simp_all add: checked_mul_def)
    show ?thesis
      using True t a m checked_mul_unat [OF m(1)] checked_mul_unat [OF m(2)] ua ut
      by (simp add: verify_proof_weight_def word_le_nat_alt)
  next
    case False
    then show ?thesis using t accumulate_unknown [OF False, of 0 number] vb by (simp add: verify_proof_weight_def)
  qed
qed

theorem verify_proof_weight_exact_witness:
  "verify_proof_weight 7 [([1], 4294967295), ([2], 4294967295), ([3], 4294967295)] [ [1], [2] ] =
     Inl (CeVerifyProof 7 BfWeight) \<and>
   verify_proof_weight 7 [([1], 4294967295), ([2], 4294967295), ([3], 4294967295)] [ [1], [2], [3] ] = Inr () \<and>
   verify_proof_weight 7 [([1], 4294967295)] [ [4] ] = Inl (CeVerifyProof 7 BfValidator)"
  by (intro conjI; subst verify_proof_weight_exact) (simp_all add: vote_weight_def total_weight_def)

text \<open>
  Property C1. Two proofs the node accepts for blocks of the same height, under the same
  metadata, both name a validator outside of any set that carries at most a third of the
  voting weight; each proof is for its block, by number and by proposal hash. So two
  conflicting blocks are only accepted if more than a third of the weight signs both.
  The signature of each proof has passed for the keys of the validators it names.
\<close>

theorem verified_proofs_intersect:
  assumes "extract_voters_ok E" and "distinct (map ve_pub_key (md_verifier_list metadata))"
    and "me_epoch_len (ce_meta E) \<noteq> 0"
    and "hd_number (bk_header b1) = n" and "hd_number (bk_header b2) = n" and "n \<noteq> 0"
    and "nd_metadata s1 (n div me_epoch_len (ce_meta E)) = Some metadata"
    and "nd_metadata s2 (n div me_epoch_len (ce_meta E)) = Some metadata"
    and "verify_proof E b1 p1 s1 = (s1', Inr ())" and "verify_proof E b2 p2 s2 = (s2', Inr ())"
    and "faulty \<subseteq> ve_pub_key ` set (md_verifier_list metadata)"
    and "3 * sum (vote_weight (validator_weights metadata)) faulty \<le> total_weight (validator_weights metadata)"
  shows "(\<exists>v \<in> proof_voters E metadata p1 \<inter> proof_voters E metadata p2. v \<notin> faulty) \<and>
    voters_signed E metadata p1 \<and> voters_signed E metadata p2 \<and>
    pf_number p1 = n \<and> pf_number p2 = n \<and>
    pf_block_hash p1 = proposal_hash E (proposal_from_block b1) \<and>
    pf_block_hash p2 = proposal_hash E (proposal_from_block b2)"
proof -
  let ?W = "validator_weights metadata"
  have "distinct (map fst ?W)" using assms(2) by (simp add: validator_weights_def comp_def)
  note total = total_weight_sum [OF this]
  have keys: "fst ` set ?W = ve_pub_key ` set (md_verifier_list metadata)"
    by (simp add: validator_weights_def image_image)
  note acc1 = verify_proof_accepted [OF assms(9), of metadata] and acc2 = verify_proof_accepted [OF assms(10), of metadata]
  have c1: "check_votes E n metadata p1 = Inr ()" and c2: "check_votes E n metadata p2 = Inr ()"
    using acc1(4) acc2(4) assms(3-8) by auto
  note q1 = check_votes_quorum [OF assms(1,2) c1, unfolded total]
    and q2 = check_votes_quorum [OF assms(1,2) c2, unfolded total]
  have "\<exists>v \<in> proof_voters E metadata p1 \<inter> proof_voters E metadata p2. v \<notin> faulty"
    using vq.correct_in_both [OF q1(1) q2(1) q1(2) q2(2)] assms(11,12) keys total by auto
  moreover have "voters_signed E metadata p1" "voters_signed E metadata p2"
    using c1 c2 acc1(1) acc2(1) assms(3-8) by (auto intro: check_votes_signed)
  ultimately show ?thesis using acc1(1,2) acc2(1,2) assms(3-8) by auto
qed

text \<open>A node with three validators of equal weight, for concrete runs.\<close>

definition sample_bls :: bls_lib where
  "sample_bls =
     \<lparr>bl_hash_value = Some, bl_public_key = Inr, bl_signature = Inr, bl_sign_message = id,
      bl_combine = (\<lambda>sps. Inr (concat (map fst sps))), bl_aggregate = (\<lambda>ks. Inr (concat ks)),
      bl_verify = (\<lambda>sig h key ref. if key \<noteq> [] then Inr () else Inl ''no key'')\<rparr>"

definition sample_extract_voters :: "ov_node list \<Rightarrow> bytes \<Rightarrow> string + ov_node list \<times> bytes list" where
  "sample_extract_voters ns bitmap =
     Inr (ns, map (on_address \<circ> fst) (filter (\<lambda>nb. snd nb \<noteq> 0) (zip ns bitmap)))"

definition remote_block :: "u64 \<Rightarrow> block" where
  "remote_block n = \<lparr>bk_header = (sample_header n)\<lparr>hd_signed_txs_hash := NIL_DATA\<rparr>, bk_tx_hashes = []\<rparr>"

definition remote_proof :: "u64 \<Rightarrow> block_proof" where
  "remote_proof n =
     \<lparr>pf_number = n, pf_round = 0, pf_block_hash = NIL_DATA, pf_signature = [1], pf_bitmap = [1, 1, 1]\<rparr>"

definition sample_consensus_env ::
  "(mem_db, (bytes \<rightharpoonup> bytes) list, bytes \<rightharpoonup> bytes) consensus_env" where
  "sample_consensus_env =
     \<lparr>ce_mempool = sample_mempool_env, ce_exec = sample_exec_env, ce_bls = sample_bls, ce_common_ref = ''ref'',
      ce_extract_voters = sample_extract_voters, ce_sort_nodes = id, ce_encode_vote = (\<lambda>_. []),
      ce_peer_id = Inr, ce_send = (\<lambda>_. Inr ()), ce_call_block = (\<lambda>n. Inr (remote_block n)),
      ce_call_txs = (\<lambda>_ _. Inr []), ce_call_proof = (\<lambda>n. Inr (remote_proof n)),
      ce_self_address = 1,
      ce_chain_id = 5, ce_metadata_address = 7, ce_cross_period_interval = 10, ce_sync_txs_chunk_size = 100,
      ce_log_bloom = (\<lambda>_. 0), ce_bloom_of_blooms = (\<lambda>_. 0), ce_hash_display = (\<lambda>_. ''h''),
      ce_wal_encode = (\<lambda>_. []), ce_wal_decode = (\<lambda>_. Inr []), ce_pool_iter = id, ce_flush_iter = id\<rparr>"

definition sample_validators :: "validator_extend list" where
  "sample_validators =
     map (\<lambda>k. \<lparr>ve_bls_pub_key = [k], ve_pub_key = [k], ve_address = 0, ve_propose_weight = 1,
                ve_vote_weight = 1\<rparr>) [1, 2, 3]"

lemma sample_extract_voters_ok: "extract_voters_ok sample_consensus_env"
proof -
  have dist: "distinct (map (f \<circ> fst) (filter P (zip ns bs)))" if "distinct (map f ns)"
    for f :: "ov_node \<Rightarrow> bytes" and P and ns and bs :: bytes
    using that
  proof (induction ns arbitrary: bs)
    case (Cons a ns)
    then show ?case by (cases bs) (auto dest!: set_zip_leftD)
  qed simp
  show ?thesis
    unfolding extract_voters_ok_def sample_consensus_env_def sample_extract_voters_def
    by (auto dest: set_zip_leftD intro: dist)
qed


definition sample_status :: current_status where
  "sample_status =
     \<lparr>cs_prev_hash = 0, cs_last_number = 0, cs_last_state_root = 0, cs_tx_num_limit = 100, cs_gas_limit = 30000,
      cs_max_tx_size = 1000, cs_base_fee_per_gas = 1,
      cs_proof = \<lparr>pf_number = 0, pf_round = 0, pf_block_hash = 0, pf_signature = [], pf_bitmap = []\<rparr>,
      cs_last_checkpoint_block_hash = 0\<rparr>"

definition sample_chain_node :: "(mem_db, (bytes \<rightharpoonup> bytes) list) chain_node" where
  "sample_chain_node =
     node_state.extend (sample_node\<lparr>nd_metadata := [0 \<mapsto> sample_metadata sample_validators]\<rparr>)
       \<lparr>cn_trie_db = [Map.empty], cn_status = sample_status, cn_exemption = {}, cn_txs_wal = Some (Dir []),
        cn_consensus_wal = None, cn_addr_pubkey = Map.empty, cn_last_commit_time = 0, cn_fail_reason = None,
        cn_lock = False, cn_syncing = False, cn_sync_status = SyncFalse, cn_overlord_handler = Some True,
        cn_rich_status = [], cn_block_logs = [], cn_checkpoints = [], cn_net_out = []\<rparr>"

definition sample_proof :: "block \<Rightarrow> bytes \<Rightarrow> block_proof" where
  "sample_proof b signature =
     \<lparr>pf_number = hd_number (bk_header b), pf_round = 0,
      pf_block_hash = proposal_hash sample_consensus_env (proposal_from_block b),
      pf_signature = signature, pf_bitmap = [1, 1, 1]\<rparr>"

lemma sample_metadata_cached:
  "nd_metadata sample_chain_node 0 = Some (sample_metadata sample_validators)"
  by (simp add: sample_chain_node_def node_state.defs)

lemma sample_meta [simp]: "me_epoch_len (ce_meta sample_consensus_env) = 10"
  by (simp add: sample_consensus_env_def sample_mempool_env_def sample_metadata_env_def)

lemma sample_extract [simp]: "ce_extract_voters sample_consensus_env = sample_extract_voters"
  "ce_bls sample_consensus_env = sample_bls"
  by (simp_all add: sample_consensus_env_def)

lemma sample_proof_simps [simp]:
  "pf_number (sample_proof b sig) = hd_number (bk_header b)"
  "pf_block_hash (sample_proof b sig) = proposal_hash sample_consensus_env (proposal_from_block b)"
  by (simp_all add: sample_proof_def)

lemma sample_check_votes:
  "check_votes sample_consensus_env n (sample_metadata sample_validators) (sample_proof b sig) = Inr ()"
  by (simp add: check_votes_def sample_extract_voters_def sample_metadata_def sample_validators_def
      node_of_extend_def sample_proof_def collect_map_def verify_proof_weight_def checked_add_def checked_mul_def
      verify_proof_signature_def convert_hex_to_bls_pubkeys_def inner_verify_aggregated_signature_def
      hash_value_def sample_bls_def)

lemma sample_proof_accepted:
  "verify_proof sample_consensus_env (sample_block 4 hs) (sample_proof (sample_block 4 hs) sig) sample_chain_node =
     (sample_chain_node, Inr ())"
proof -
  have "metadata_version_contains (md_version (sample_metadata sample_validators)) 4"
    by (simp add: metadata_version_contains_def sample_metadata_def)
  then show ?thesis
    using sample_metadata_cached
    by (auto simp: verify_proof_def sample_check_votes st_bind_apply adapter_get_metadata_def on_metadata_def
        get_metadata_hit)
qed

theorem verified_proofs_intersect_witness:
  "\<exists>v \<in> proof_voters sample_consensus_env (sample_metadata sample_validators) (sample_proof (sample_block 4 []) [1]) \<inter>
        proof_voters sample_consensus_env (sample_metadata sample_validators) (sample_proof (sample_block 4 [9]) [2]).
     v \<notin> {[3]}"
proof -
  have W: "validator_weights (sample_metadata sample_validators) = [([1], 1), ([2], 1), ([3], 1)]"
    by (simp add: validator_weights_def sample_metadata_def sample_validators_def)
  have dist: "distinct (map ve_pub_key (md_verifier_list (sample_metadata sample_validators)))"
    and faulty: "{[3]} \<subseteq> ve_pub_key ` set (md_verifier_list (sample_metadata sample_validators))"
    by (simp_all add: sample_metadata_def sample_validators_def)
  show ?thesis
    using verified_proofs_intersect [OF sample_extract_voters_ok dist, of "sample_block 4 []" 4 "sample_block 4 [9]"
        sample_chain_node sample_chain_node, OF _ _ _ _ _ _ sample_proof_accepted sample_proof_accepted faulty]
    by (simp add: W sample_metadata_cached vote_weight_def total_weight_def)
qed

end
