(* ===== verification/Web3_Types.thy ===== *)
theory Web3_Types
  imports Consensus_Adapter Net_Message
begin

text \<open>
  The data of the JSON-RPC interface (\<open>core/api/src/jsonrpc/web3_types.rs\<close>): the views of
  transactions, receipts, blocks, headers and logs that clients see, the conversions into
  them, and the hand-written (de)serialization of block identifiers, indexes and
  one-or-many values; with the hexadecimal strings of \<open>protocol/src/types/primitive.rs\<close>.
  A \<open>Hex\<close> field of a view is the byte string behind it.
\<close>

section \<open>Hexadecimal strings\<close>

text \<open>The \<open>faster_hex\<close> crate: printing, and parsing of a string that is not empty.\<close>

record hex_lib =
  hx_string :: "bytes \<Rightarrow> string"
  hx_decode :: "string \<Rightarrow> string + bytes"

definition hex_lib_ok :: "hex_lib \<Rightarrow> bool" where
  "hex_lib_ok H \<longleftrightarrow> (\<forall>bs. length (hx_string H bs) = 2 * length bs \<and> (bs \<noteq> [] \<longrightarrow> hx_decode H (hx_string H bs) = Inr bs))"

definition hex_decode :: "hex_lib \<Rightarrow> string \<Rightarrow> string + bytes" where
  "hex_decode H src = (if src = [] then Inr [] else hx_decode H src)"

definition is_prefixed :: "string \<Rightarrow> bool" where
  "is_prefixed s \<longleftrightarrow> starts_with s ''0x'' \<or> starts_with s ''0X''"

definition hex_encode :: "hex_lib \<Rightarrow> bytes \<Rightarrow> string" where
  "hex_encode H src = ''0x'' @ hx_string H src"

definition hex_decode_string :: "hex_lib \<Rightarrow> string \<Rightarrow> string + bytes" where
  "hex_decode_string H s = hex_decode H (if is_prefixed s then drop 2 s else s)"

definition hex_from_string :: "hex_lib \<Rightarrow> string \<Rightarrow> string + string" where
  "hex_from_string H s =
     (let s = if is_prefixed s then s else ''0x'' @ s
      in res_bind (hex_decode H (drop 2 s)) (\<lambda>_. Inr s))"

text \<open>\<open>None\<close> is the panic of \<open>expect\<close>.\<close>

definition hex_as_bytes :: "hex_lib \<Rightarrow> string \<Rightarrow> bytes option" where
  "hex_as_bytes H h = (case hex_decode H (drop 2 h) of Inl _ \<Rightarrow> None | Inr bs \<Rightarrow> Some bs)"

section \<open>Transactions, receipts, blocks and headers\<close>

datatype rich_transaction_or_hash = TxHash hash | TxRich signed_transaction

fun rich_get_hash :: "rich_transaction_or_hash \<Rightarrow> hash" where
  "rich_get_hash (TxHash h) = h"
| "rich_get_hash (TxRich stx) = stx_hash stx"

record web3_transaction =
  wt_block_number :: u256
  wt_block_hash :: hash
  wt_from :: h160
  wt_contract_address :: "h160 option"
  wt_cumulative_gas_used :: u256
  wt_effective_gas_price :: u256
  wt_gas :: u256
  wt_creates :: "h160 option"
  wt_raw :: bytes
  wt_public_key :: "public_key option"
  wt_gas_price :: u256
  wt_max_fee_per_gas :: u256
  wt_max_priority_fee_per_gas :: u256
  wt_hash :: hash
  wt_input :: bytes
  wt_nonece :: u256
  wt_to :: "h160 option"
  wt_transaction_index :: "u256 option"
  wt_value :: u256
  wt_type :: "u64 option"
  wt_access_list :: "access_list_item list option"
  wt_chain_id :: "u256 option"
  wt_standard_v :: "u256 option"
  wt_r :: u256
  wt_s :: u256

text \<open>
  \<open>U256::from(&[u8])\<close> panics on more than 32 bytes, and so does the encoding of a signature
  that the codec refuses; \<open>None\<close> is a panic. A 256-bit code address becomes its low 160 bits.
\<close>

definition u256_from_slice :: "bytes \<Rightarrow> u256 option" where
  "u256_from_slice bs = (if length bs \<le> 32 then Some (from_be_bytes bs) else None)"

definition web3_transaction_create :: "rlp_lib \<Rightarrow> receipt \<Rightarrow> signed_transaction \<Rightarrow> web3_transaction option" where
  "web3_transaction_create L r stx =
     (case utx_rlp_bytes L (stx_transaction stx) of
        None \<Rightarrow> None
      | Some raw \<Rightarrow>
          let out_tx =
            \<lparr>wt_block_number = ucast (rc_block_number r),
             wt_block_hash = rc_block_hash r,
             wt_from = rc_sender r,
             wt_contract_address = map_option ucast (rc_code_address r),
             wt_cumulative_gas_used = rc_used_gas r,
             wt_effective_gas_price = rc_used_gas r,
             wt_gas = rc_used_gas r,
             wt_creates = map_option ucast (rc_code_address r),
             wt_raw = raw,
             wt_public_key = stx_public stx,
             wt_gas_price = tx_gas_price (stx_unsigned stx),
             wt_max_fee_per_gas = 1337,
             wt_max_priority_fee_per_gas = tx_max_priority_fee_per_gas (stx_unsigned stx),
             wt_hash = rc_tx_hash r,
             wt_input = tx_data (stx_unsigned stx),
             wt_nonece = tx_value (stx_unsigned stx),
             wt_to = get_to stx,
             wt_transaction_index = Some (ucast (rc_tx_index r)),
             wt_value = tx_value (stx_unsigned stx),
             wt_type = Some 2,
             wt_access_list = Some (tx_access_list (stx_unsigned stx)),
             wt_chain_id = Some (ucast (utx_chain_id (stx_transaction stx))),
             wt_standard_v = Some 0, wt_r = 0, wt_s = 0\<rparr>
          in case utx_signature (stx_transaction stx) of
               None \<Rightarrow> Some out_tx
             | Some sc \<Rightarrow>
                 (case (u256_from_slice (sc_r sc), u256_from_slice (sc_s sc)) of
                    (Some sig_r, Some sig_s) \<Rightarrow>
                      Some (out_tx\<lparr>wt_standard_v := Some (ucast (sc_standard_v sc)), wt_r := sig_r, wt_s := sig_s\<rparr>)
                  | _ \<Rightarrow> None))"

record web3_receipt_log =
  rl_address :: h160
  rl_topics :: "hash list"
  rl_data :: bytes
  rl_block_number :: u256
  rl_transaction_hash :: hash
  rl_transaction_index :: "u256 option"
  rl_block_hash :: hash
  rl_log_index :: u256
  rl_removed :: bool

record web3_receipt =
  wr_block_number :: u256
  wr_block_hash :: hash
  wr_contract_address :: "h160 option"
  wr_cumulative_gas_used :: u256
  wr_effective_gas_price :: u256
  wr_from :: h160
  wr_gas_used :: u256
  wr_logs :: "web3_receipt_log list"
  wr_logs_bloom :: bloom
  wr_state_root :: hash
  wr_status :: u256
  wr_to :: "h160 option"
  wr_transaction_hash :: hash
  wr_transaction_index :: "u256 option"
  wr_transaction_type :: "u64 option"

definition web3_receipt_new :: "receipt \<Rightarrow> signed_transaction \<Rightarrow> web3_receipt" where
  "web3_receipt_new r stx =
     \<lparr>wr_block_number = ucast (rc_block_number r),
      wr_block_hash = rc_block_hash r,
      wr_contract_address = map_option ucast (rc_code_address r),
      wr_cumulative_gas_used = rc_used_gas r,
      wr_effective_gas_price = rc_used_gas r,
      wr_from = rc_sender r,
      wr_gas_used = rc_used_gas r,
      wr_logs = map (\<lambda>item.
         \<lparr>rl_address = log_address item, rl_topics = log_topics item, rl_data = log_data item,
          rl_block_number = ucast (rc_block_number r), rl_transaction_hash = rc_tx_hash r,
          rl_transaction_index = Some (ucast (rc_tx_index r)), rl_block_hash = rc_block_hash r,
          rl_log_index = 0, rl_removed = False\<rparr>) (rc_logs r),
      wr_logs_bloom = rc_logs_bloom r,
      wr_state_root = rc_state_root r,
      wr_status = receipt_status r,
      wr_to = get_to stx,
      wr_transaction_hash = rc_tx_hash r,
      wr_transaction_index = Some (ucast (rc_tx_index r)),
      wr_transaction_type = Some 2\<rparr>"

record web3_block =
  wb_hash :: hash
  wb_parent_hash :: hash
  wb_sha3_uncles :: hash
  wb_author :: h160
  wb_miner :: h160
  wb_state_root :: hash
  wb_transactions_root :: hash
  wb_receipts_root :: hash
  wb_number :: u256
  wb_gas_used :: u256
  wb_gas_limit :: u256
  wb_extra_data :: bytes
  wb_logs_bloom :: "bloom option"
  wb_timestamp :: u256
  wb_difficulty :: u256
  wb_total_difficulty :: "u256 option"
  wb_seal_fields :: "bytes list"
  wb_base_fee_per_gas :: u256
  wb_uncles :: "hash list"
  wb_transactions :: "rich_transaction_or_hash list"
  wb_size :: "u256 option"
  wb_mix_hash :: hash
  wb_nonce :: u256

text \<open>\<open>hash_of\<close> is \<open>Header::hash\<close> and \<open>size_of\<close> is \<open>Header::size\<close>, the length of the encoding.\<close>

definition web3_block_from :: "(header \<Rightarrow> hash) \<Rightarrow> (header \<Rightarrow> nat) \<Rightarrow> block \<Rightarrow> web3_block" where
  "web3_block_from hash_of size_of b =
     (let h = bk_header b in
      \<lparr>wb_hash = hash_of h,
       wb_parent_hash = hd_prev_hash h,
       wb_sha3_uncles = 0,
       wb_author = hd_proposer h,
       wb_miner = hd_proposer h,
       wb_state_root = hd_state_root h,
       wb_transactions_root = hd_transactions_root h,
       wb_receipts_root = hd_receipts_root h,
       wb_number = ucast (hd_number h),
       wb_gas_used = hd_gas_used h,
       wb_gas_limit = hd_gas_limit h,
       wb_extra_data = hd_extra_data h,
       wb_logs_bloom = Some (hd_log_bloom h),
       wb_timestamp = ucast (hd_timestamp h),
       wb_difficulty = hd_difficulty h,
       wb_total_difficulty = None,
       wb_seal_fields = [],
       wb_base_fee_per_gas = hd_base_fee_per_gas h,
       wb_uncles = [],
       wb_transactions = map TxHash (bk_tx_hashes b),
       wb_size = Some (word_of_nat (size_of h)),
       wb_mix_hash = 0,
       wb_nonce = 0\<rparr>)"

record web3_header =
  wh_difficulty :: u256
  wh_extra_data :: bytes
  wh_gas_limit :: u256
  wh_gas_used :: u256
  wh_logs_bloom :: "bloom option"
  wh_miner :: h160
  wh_nonce :: u256
  wh_number :: u256
  wh_parent_hash :: hash
  wh_receipts_root :: hash
  wh_sha3_uncles :: hash
  wh_state_root :: hash
  wh_timestamp :: u256
  wh_transactions_root :: hash

definition web3_header_from :: "header \<Rightarrow> web3_header" where
  "web3_header_from h =
     \<lparr>wh_difficulty = hd_difficulty h,
      wh_extra_data = hd_extra_data h,
      wh_gas_limit = hd_gas_limit h,
      wh_gas_used = hd_gas_used h,
      wh_logs_bloom = Some (hd_log_bloom h),
      wh_miner = hd_proposer h,
      wh_nonce = 0,
      wh_number = ucast (hd_number h),
      wh_parent_hash = hd_prev_hash h,
      wh_receipts_root = hd_receipts_root h,
      wh_sha3_uncles = 0,
      wh_state_root = hd_state_root h,
      wh_timestamp = ucast (hd_timestamp h),
      wh_transactions_root = hd_transactions_root h\<rparr>"

record web3_log =
  lg_address :: h160
  lg_topics :: "hash list"
  lg_data :: bytes
  lg_block_hash :: "hash option"
  lg_block_number :: "u256 option"
  lg_transaction_hash :: "hash option"
  lg_transaction_index :: "u256 option"
  lg_log_index :: "u256 option"
  lg_removed :: bool

record web3_call_request =
  cr_transaction_type :: "u64 option"
  cr_from :: "h160 option"
  cr_to :: "h160 option"
  cr_gas_price :: "u256 option"
  cr_max_fee_per_gas :: "u256 option"
  cr_gas :: "u256 option"
  cr_value :: "u256 option"
  cr_data :: bytes
  cr_nonce :: "u256 option"
  cr_access_list :: "access_list_item list option"
  cr_max_priority_fee_per_gas :: "u256 option"

section \<open>Block identifiers and indexes\<close>

datatype block_id = BlockNum u64 | Latest

definition block_id_number :: "block_id \<Rightarrow> u64 option" where
  "block_id_number i = (case i of BlockNum num \<Rightarrow> Some num | Latest \<Rightarrow> None)"

datatype block_id_with_pending = BlockIdOf block_id | Pending

datatype json =
    JNull
  | JBool bool
  | JNumber int
  | JString string
  | JArray "json list"
  | JObject "(string \<times> json) list"

datatype json_error =
    InvalidBlockNumber
  | MissingPrefix
  | UnknownKey string
  | InvalidInput
  | InvalidType
  | TrailingEntries
  | InvalidIndex
  | InvalidValueType

fun to_hex :: "nat \<Rightarrow> string" where
  "to_hex n = (if n < 16 then [nib n] else to_hex (n div 16) @ [nib (n mod 16)])"

declare to_hex.simps [simp del]

definition block_id_serialize :: "block_id \<Rightarrow> json" where
  "block_id_serialize i =
     (case i of BlockNum x \<Rightarrow> JString (''0x'' @ to_hex (unat x)) | Latest \<Rightarrow> JString ''latest'')"

definition block_id_visit_str :: "string \<Rightarrow> json_error + block_id" where
  "block_id_visit_str val =
     (if val = ''latest'' then Inr Latest
      else if starts_with val ''0x'' then
        (case parse_hex_u64 (drop 2 val) of None \<Rightarrow> Inl InvalidBlockNumber | Some n \<Rightarrow> Inr (BlockNum n))
      else Inl MissingPrefix)"

text \<open>
  The visitor of an object looks at its first entry only. The result comes with the entries
  that it has not read.
\<close>

definition block_id_visit_map :: "(string \<times> json) list \<Rightarrow> (json_error + block_id) \<times> (string \<times> json) list" where
  "block_id_visit_map entries =
     (case entries of
        [] \<Rightarrow> (Inl InvalidInput, [])
      | (key, val) # rest \<Rightarrow>
          if key = ''blockNumber'' then
            (case val of
               JString v \<Rightarrow>
                 if starts_with v ''0x'' then
                   (case parse_hex_u64 (drop 2 v) of
                      None \<Rightarrow> (Inl InvalidBlockNumber, rest)
                    | Some n \<Rightarrow> (Inr (BlockNum n), rest))
                 else (Inl MissingPrefix, rest)
             | _ \<Rightarrow> (Inl InvalidType, rest))
          else (Inl (UnknownKey key), rest))"

text \<open>
  \<open>deserialize_any\<close> of \<open>serde_json\<close>: a string goes to \<open>visit_str\<close>, an object to \<open>visit_map\<close>, which
  must read all of it, and every other value is of the wrong type for these visitors.
\<close>

definition deserialize_any ::
  "(string \<Rightarrow> json_error + 'a) \<Rightarrow> ((string \<times> json) list \<Rightarrow> (json_error + 'a) \<times> (string \<times> json) list) \<Rightarrow> json
   \<Rightarrow> json_error + 'a" where
  "deserialize_any visit_str visit_map j =
     (case j of
        JString s \<Rightarrow> visit_str s
      | JObject kvs \<Rightarrow>
          (case visit_map kvs of
             (Inr x, rest) \<Rightarrow> if rest = [] then Inr x else Inl TrailingEntries
           | (Inl e, _) \<Rightarrow> Inl e)
      | _ \<Rightarrow> Inl InvalidType)"

definition block_id_deserialize :: "json \<Rightarrow> json_error + block_id" where
  "block_id_deserialize = deserialize_any block_id_visit_str block_id_visit_map"

definition pending_deserialize :: "json \<Rightarrow> json_error + block_id_with_pending" where
  "pending_deserialize =
     deserialize_any
       (\<lambda>val. if val = ''pending'' then Inr Pending else res_bind (block_id_visit_str val) (\<lambda>i. Inr (BlockIdOf i)))
       (\<lambda>kvs. case block_id_visit_map kvs of (r, rest) \<Rightarrow> (res_bind r (\<lambda>i. Inr (BlockIdOf i)), rest))"

text \<open>An index has the width of a pointer, 64 bits.\<close>

definition index_visit_str :: "string \<Rightarrow> json_error + u64" where
  "index_visit_str val =
     (case (if starts_with val ''0x'' then parse_hex_u64 (drop 2 val) else parse_u64 val) of
        None \<Rightarrow> Inl InvalidIndex
      | Some n \<Rightarrow> Inr n)"

definition index_deserialize :: "json \<Rightarrow> json_error + u64" where
  "index_deserialize = deserialize_any index_visit_str (\<lambda>kvs. (Inl InvalidType, kvs))"

section \<open>One or many values\<close>

datatype 'a multi_type = MtSingle 'a | MtMulti "'a list" | MtNull

fun multi_option :: "'a multi_type \<Rightarrow> 'a list option" where
  "multi_option MtNull = None"
| "multi_option (MtSingle i) = Some [i]"
| "multi_option (MtMulti i) = Some i"

fun multi_serialize :: "('a \<Rightarrow> json) \<Rightarrow> 'a multi_type \<Rightarrow> json" where
  "multi_serialize ser (MtSingle i) = ser i"
| "multi_serialize ser (MtMulti i) = JArray (map ser i)"
| "multi_serialize ser MtNull = JNull"

definition multi_deserialize :: "(json \<Rightarrow> json_error + 'a) \<Rightarrow> json \<Rightarrow> json_error + 'a multi_type" where
  "multi_deserialize de v =
     (if v = JNull then Inr MtNull
      else case de v of
        Inr i \<Rightarrow> Inr (MtSingle i)
      | Inl _ \<Rightarrow>
          (case v of
             JArray vs \<Rightarrow>
               (case res_map de vs of Inr i \<Rightarrow> Inr (MtMulti i) | Inl _ \<Rightarrow> Inl InvalidValueType)
           | _ \<Rightarrow> Inl InvalidValueType))"

record web3_filter =
  wf_from_block :: "block_id option"
  wf_to_block :: "block_id option"
  wf_block_hash :: "hash option"
  wf_address :: "h160 multi_type"
  wf_topics :: "hash list option"

section \<open>Synchronization status\<close>

record web3_sync =
  sy_starting_block :: u256
  sy_current_block :: u256
  sy_highest_block :: u256
  sy_known_states :: u256
  sy_pulled_states :: u256

datatype web3_sync_status = Doing web3_sync | NotSyncing

fun web3_sync_status_from :: "sync_status \<Rightarrow> web3_sync_status" where
  "web3_sync_status_from SyncFalse = NotSyncing"
| "web3_sync_status_from (Syncing start current highest) =
     Doing \<lparr>sy_starting_block = start, sy_current_block = current, sy_highest_block = highest,
            sy_known_states = 0, sy_pulled_states = 0\<rparr>"

section \<open>Hexadecimal strings and identifiers survive the trip\<close>

text \<open>A string that was accepted can always be read as bytes, with and without its prefix.\<close>

lemma hex_accepted_total:
  assumes "hex_from_string H s = Inr h"
  shows "\<exists>bs. hex_as_bytes H h = Some bs \<and> hex_decode_string H h = Inr bs \<and> hex_decode_string H s = Inr bs"
proof -
  have "is_prefixed h" and "\<exists>bs. hex_decode H (drop 2 h) = Inr bs" and "h = s \<or> \<not> is_prefixed s \<and> drop 2 h = s"
    using assms by (auto simp: hex_from_string_def Let_def res_bind_eq_Inr is_prefixed_def starts_with_def split: if_splits)
  then show ?thesis by (auto simp: hex_as_bytes_def hex_decode_string_def)
qed

lemma hex_encode_roundtrip:
  assumes "hex_lib_ok H"
  shows "hex_from_string H (hex_encode H bs) = Inr (hex_encode H bs)" and "hex_as_bytes H (hex_encode H bs) = Some bs"
proof -
  have "hex_decode H (hx_string H bs) = Inr bs"
  proof (cases "bs = []")
    case True
    have "length (hx_string H bs) = 2 * length bs" using assms by (simp add: hex_lib_ok_def)
    with True show ?thesis by (simp add: hex_decode_def)
  next
    case False
    have "length (hx_string H bs) = 2 * length bs" using assms by (simp add: hex_lib_ok_def)
    with False have "hx_string H bs \<noteq> []" by auto
    with False assms show ?thesis by (simp add: hex_lib_ok_def hex_decode_def)
  qed
  then show "hex_from_string H (hex_encode H bs) = Inr (hex_encode H bs)" and "hex_as_bytes H (hex_encode H bs) = Some bs"
    by (simp_all add: hex_from_string_def hex_encode_def hex_as_bytes_def is_prefixed_def starts_with_def)
qed

lemma foldl_to_hex: "n < 2 ^ 64 \<Longrightarrow> foldl hex_step (Some 0) (to_hex n) = Some n"
proof (induction n rule: to_hex.induct)
  case (1 n)
  then show ?case using nib_facts [of "n mod 16"] nib_facts [of n]
    by (cases "n < 16") (simp_all add: to_hex.simps [of n] hex_step_def)
qed

lemma to_hex_hd: "to_hex n \<noteq> [] \<and> hd (to_hex n) \<noteq> CHR ''+''"
proof (induction n rule: to_hex.induct)
  case (1 n)
  then show ?case using nib_facts [of n] by (cases "n < 16") (simp_all add: to_hex.simps [of n])
qed

lemma parse_to_hex [simp]: "parse_hex_u64 (to_hex (unat n)) = Some n"
  using to_hex_hd [of "unat n"] unat_bound [of n] by (simp add: parse_hex_u64_def foldl_to_hex)

lemma block_id_roundtrip: "block_id_deserialize (block_id_serialize i) = Inr i"
  by (cases i) (simp_all add: block_id_serialize_def block_id_deserialize_def deserialize_any_def block_id_visit_str_def
      starts_with_def)

text \<open>
  The hand-written serializations are undone by the deserializations: block
  identifiers, also where a pending block is allowed, and one-or-many values over any type
  whose own values survive and are neither null nor arrays. A hexadecimal string made from
  bytes is accepted and read back as these bytes.
\<close>

theorem web3_json_roundtrip:
  assumes "hex_lib_ok H" and "\<And>x. de (ser x) = Inr x \<and> ser x \<noteq> JNull" and "\<And>vs. \<exists>e. de (JArray vs) = Inl e"
  shows "block_id_deserialize (block_id_serialize i) = Inr i \<and>
    pending_deserialize (block_id_serialize i) = Inr (BlockIdOf i) \<and>
    multi_deserialize de (multi_serialize ser m) = Inr m \<and>
    hex_as_bytes H (hex_encode H bs) = Some bs \<and>
    hex_from_string H (hex_encode H bs) = Inr (hex_encode H bs)"
proof (intro conjI)
  show "pending_deserialize (block_id_serialize i) = Inr (BlockIdOf i)"
    by (cases i) (simp_all add: block_id_serialize_def pending_deserialize_def deserialize_any_def block_id_visit_str_def
        starts_with_def)
  show "multi_deserialize de (multi_serialize ser m) = Inr m"
  proof (cases m)
    case (MtMulti xs)
    have "res_map de (map ser xs) = Inr xs" using assms(2) by (induction xs) simp_all
    then show ?thesis using MtMulti assms(3) [of "map ser xs"] by (auto simp: multi_deserialize_def)
  qed (use assms(2) in \<open>auto simp: multi_deserialize_def\<close>)
qed (use block_id_roundtrip hex_encode_roundtrip [OF assms(1)] in simp_all)

fun pair_up :: "string \<Rightarrow> string + bytes" where
  "pair_up (a # b # s) =
     (case (hex_digit a, hex_digit b) of
        (Some x, Some y) \<Rightarrow> res_bind (pair_up s) (\<lambda>bs. Inr (word_of_nat (16 * x + y) # bs))
      | _ \<Rightarrow> Inl ''invalid character'')"
| "pair_up s = (if s = [] then Inr [] else Inl ''invalid length'')"

definition sample_hex :: hex_lib where
  "sample_hex =
     \<lparr>hx_string = (\<lambda>bs. concat (map (\<lambda>b. [nib (unat b div 16), nib (unat b mod 16)]) bs)), hx_decode = pair_up\<rparr>"

lemma sample_hex_ok: "hex_lib_ok sample_hex"
proof -
  have "pair_up (concat (map (\<lambda>b. [nib (unat b div 16), nib (unat b mod 16)]) bs)) = Inr bs" for bs
  proof (induction bs)
    case (Cons b bs)
    have "unat b div 16 < 16" using unat_bound [of b] by simp
    with Cons nib_facts show ?case by simp
  qed simp
  moreover have "length (concat (map (\<lambda>b. [nib (unat b div 16), nib (unat b mod 16)]) bs)) = 2 * length bs" for bs :: bytes
    by (induction bs) simp_all
  ultimately show ?thesis by (simp add: hex_lib_ok_def sample_hex_def)
qed

theorem web3_json_roundtrip_witness:
  "block_id_deserialize (block_id_serialize (BlockNum 255)) = Inr (BlockNum 255) \<and>
   pending_deserialize (block_id_serialize (BlockNum 255)) = Inr (BlockIdOf (BlockNum 255)) \<and>
   multi_deserialize block_id_deserialize (multi_serialize block_id_serialize (MtMulti [Latest, BlockNum 7])) =
     Inr (MtMulti [Latest, BlockNum 7]) \<and>
   hex_as_bytes sample_hex (hex_encode sample_hex [0, 171]) = Some [0, 171] \<and>
   hex_from_string sample_hex (hex_encode sample_hex [0, 171]) = Inr (hex_encode sample_hex [0, 171])"
proof (rule web3_json_roundtrip [OF sample_hex_ok])
  show "block_id_deserialize (block_id_serialize x) = Inr x \<and> block_id_serialize x \<noteq> JNull" for x
    by (cases x) (simp_all add: block_id_roundtrip, simp_all add: block_id_serialize_def)
  show "\<exists>e. block_id_deserialize (JArray vs) = Inl e" for vs
    by (simp add: block_id_deserialize_def deserialize_any_def)
qed

end
