(* ===== verification/Api_Adapter.thy ===== *)
theory Api_Adapter
  imports Web3_Types Peer_Manager
begin

text \<open>
  What the API asks of the node: the interface \<open>APIAdapter\<close> (\<open>protocol/src/traits/api.rs\<close>) as a
  record of operations, and \<open>DefaultAPIAdapter\<close> (\<open>core/api/src/adapter.rs\<close>) over the mempool,
  the storage, the state trie and the network. The locale \<open>chain_reader\<close> is the contract that
  the handlers rely on: reads answer from one view of the chain and leave it alone; the
  default adapter keeps it whenever its storage is coherent.
\<close>

section \<open>The interface\<close>

datatype api_error =
    ApiPanic
  | ApiStorage storage_error
  | ApiMempool mempool_error
  | ApiExec exec_error
  | ApiCodec string
  | CannotGetBlock "u64 option"
  | CannotGetHeader "u64 option"
  | CannotGetAccount h160
  | CannotFindAddress
  | CannotFindPosition
  | FromAndToNone

record 's api_adapter =
  aa_insert_signed_txs :: "signed_transaction \<Rightarrow> ('s, api_error, unit) st"
  aa_get_block_by_number :: "u64 option \<Rightarrow> ('s, api_error, block option) st"
  aa_get_block_by_hash :: "hash \<Rightarrow> ('s, api_error, block option) st"
  aa_get_block_header_by_number :: "u64 option \<Rightarrow> ('s, api_error, header option) st"
  aa_get_receipt_by_tx_hash :: "hash \<Rightarrow> ('s, api_error, receipt option) st"
  aa_get_receipts_by_hashes :: "u64 \<Rightarrow> hash list \<Rightarrow> ('s, api_error, receipt option list) st"
  aa_get_transaction_by_hash :: "hash \<Rightarrow> ('s, api_error, signed_transaction option) st"
  aa_get_transactions_by_hashes :: "u64 \<Rightarrow> hash list \<Rightarrow> ('s, api_error, signed_transaction option list) st"
  aa_get_account :: "h160 \<Rightarrow> u64 option \<Rightarrow> ('s, api_error, account) st"
  aa_get_pending_tx_count :: "h160 \<Rightarrow> ('s, api_error, u256) st"
  aa_evm_call :: "h160 option \<Rightarrow> h160 option \<Rightarrow> bytes \<Rightarrow> hash \<Rightarrow> proposal \<Rightarrow> ('s, api_error, tx_resp) st"
  aa_get_code_by_hash :: "hash \<Rightarrow> ('s, api_error, bytes option) st"
  aa_peer_count :: "('s, api_error, u256) st"
  aa_get_storage_at :: "h160 \<Rightarrow> u256 \<Rightarrow> hash \<Rightarrow> ('s, api_error, bytes) st"

section \<open>The default adapter\<close>

record ('d, 't, 'm, 'p) api_node = "('d, 't) chain_node" +
  an_online :: "('m, 'p) online"

type_synonym ('d, 't, 'm, 'p, 'v) an_op = "(('d, 't, 'm, 'p) api_node, api_error, 'v) st"

definition api_storage_err :: "storage_error \<Rightarrow> api_error" where
  "api_storage_err e = (if e = StoragePanic then ApiPanic else ApiStorage e)"

definition api_mempool_err :: "mempool_error \<Rightarrow> api_error" where
  "api_mempool_err e = (if e = MpPanic \<or> e = MpStorage StoragePanic then ApiPanic else ApiMempool e)"

definition api_exec_err :: "exec_error \<Rightarrow> api_error" where
  "api_exec_err e = (if e = XePanic then ApiPanic else ApiExec e)"

definition api_storage :: "('d, 'v) storage_op \<Rightarrow> ('d, 't, 'm, 'p, 'v) an_op" where
  "api_storage op s = (case op (nd_storage s) of (st, r) \<Rightarrow> (s\<lparr>nd_storage := st\<rparr>, map_err api_storage_err r))"

definition api_insert_signed_txs ::
  "('d, 't, 'q) consensus_env \<Rightarrow> signed_transaction \<Rightarrow> ('d, 't, 'm, 'p, unit) an_op" where
  "api_insert_signed_txs E signed_tx s =
     (case mempool_insert (ce_mempool E) False signed_tx s of (s', r) \<Rightarrow> (s', map_err api_mempool_err r))"

definition api_get_block_by_number ::
  "('d, 't, 'q) consensus_env \<Rightarrow> u64 option \<Rightarrow> ('d, 't, 'm, 'p, block option) an_op" where
  "api_get_block_by_number E height =
     (case height of
        Some number \<Rightarrow> api_storage (storage_get_block (ce_adapter E) (ce_store E) number)
      | None \<Rightarrow> st_bind (api_storage (get_latest_block (ce_adapter E) (ce_store E))) (\<lambda>b. st_return (Some b)))"

definition api_get_block_header_by_number ::
  "('d, 't, 'q) consensus_env \<Rightarrow> u64 option \<Rightarrow> ('d, 't, 'm, 'p, header option) an_op" where
  "api_get_block_header_by_number E number =
     (case number of
        Some num \<Rightarrow> api_storage (storage_get_block_header (ce_adapter E) (ce_store E) num)
      | None \<Rightarrow> st_bind (api_storage (get_latest_block_header (ce_adapter E) (ce_store E))) (\<lambda>h. st_return (Some h)))"

definition evm_backend ::
  "('d, 't, 'q) consensus_env \<Rightarrow> u64 option \<Rightarrow> ('d, 't, 'm, 'p, ('d, 't, 'q) exec_backend) an_op" where
  "evm_backend E number =
     st_bind (api_get_block_by_number E number) (\<lambda>opt.
     st_bind (st_lift (ok_or (CannotGetBlock number) opt)) (\<lambda>b s.
       (s, map_err api_exec_err
             (backend_from_root (ce_exec E) (hd_state_root (bk_header b)) (cn_trie_db s) (nd_storage s)
                (executor_context_from_proposal (proposal_hash E) (proposal_from_block b))))))"

definition api_get_account ::
  "('d, 't, 'q) consensus_env \<Rightarrow> h160 \<Rightarrow> u64 option \<Rightarrow> ('d, 't, 'm, 'p, account) an_op" where
  "api_get_account E address number =
     st_bind (evm_backend E number) (\<lambda>backend.
     st_bind (st_lift (ok_or (CannotGetAccount address) (backend_get (ce_exec E) (address_key address) backend))) (\<lambda>raw.
       st_lift (map_err ApiCodec (snd (xe_account (ce_exec E)) raw))))"

definition api_get_pending_tx_count :: "h160 \<Rightarrow> ('d, 't, 'm, 'p, u256) an_op" where
  "api_get_pending_tx_count address = st_gets (\<lambda>s. word_of_nat (get_tx_count_by_address (nd_pool s) address))"

text \<open>A call runs on a backend that shares the trie database and the storage with the node.\<close>

definition api_evm_call ::
  "('d, 't, 'q) consensus_env \<Rightarrow> h160 option \<Rightarrow> h160 option \<Rightarrow> bytes \<Rightarrow> hash \<Rightarrow> proposal
   \<Rightarrow> ('d, 't, 'm, 'p, tx_resp) an_op" where
  "api_evm_call E from to data root mock_header s =
     (case backend_from_root (ce_exec E) root (cn_trie_db s) (nd_storage s)
             (executor_context_from_proposal (proposal_hash E) mock_header) of
        Inl e \<Rightarrow> (s, Inl (api_exec_err e))
      | Inr backend \<Rightarrow>
          (case evm_call (ce_exec E) from to data backend of
             (b, r) \<Rightarrow> (s\<lparr>cn_trie_db := ax_db b, nd_storage := ax_storage b\<rparr>, map_err api_exec_err r)))"

definition api_peer_count :: "('d, 't, 'm, 'p, u256) an_op" where
  "api_peer_count = st_gets (\<lambda>s. word_of_nat (length (on_peers (an_online s))))"

definition api_get_storage_at ::
  "('d, 't, 'q) consensus_env \<Rightarrow> h160 \<Rightarrow> u256 \<Rightarrow> hash \<Rightarrow> ('d, 't, 'm, 'p, bytes) an_op" where
  "api_get_storage_at E address position root s =
     (let T = xe_trie (ce_exec E); db = cn_trie_db s in
      (s, res_bind (map_err api_exec_err (mpt_from_root T db root)) (\<lambda>state_mpt_tree.
          res_bind (map_err api_exec_err (mpt_get T db state_mpt_tree (address_key address))) (\<lambda>opt.
          res_bind (ok_or CannotFindAddress opt) (\<lambda>raw_account.
          res_bind (map_err (\<lambda>_. ApiPanic) (snd (xe_account (ce_exec E)) raw_account)) (\<lambda>account.
          res_bind (map_err api_exec_err (mpt_from_root T db (ac_storage_root account))) (\<lambda>storage_mpt_tree.
          res_bind (map_err api_exec_err (mpt_get T db storage_mpt_tree (to_be_bytes 32 position))) (\<lambda>opt.
            ok_or CannotFindPosition opt))))))))"

definition default_api_adapter :: "('d, 't, 'q) consensus_env \<Rightarrow> ('d, 't, 'm, 'p) api_node api_adapter" where
  "default_api_adapter E =
     (let A = ce_adapter E; S = ce_store E in
      \<lparr>aa_insert_signed_txs = api_insert_signed_txs E,
       aa_get_block_by_number = api_get_block_by_number E,
       aa_get_block_by_hash = (\<lambda>h. api_storage (get_block_by_hash A S h)),
       aa_get_block_header_by_number = api_get_block_header_by_number E,
       aa_get_receipt_by_tx_hash = (\<lambda>h. api_storage (get_receipt_by_hash A S h)),
       aa_get_receipts_by_hashes = (\<lambda>n hs. api_storage (get_receipts A S n hs)),
       aa_get_transaction_by_hash = (\<lambda>h. api_storage (get_transaction_by_hash A S h)),
       aa_get_transactions_by_hashes = (\<lambda>n hs. api_storage (get_transactions A S n hs)),
       aa_get_account = api_get_account E,
       aa_get_pending_tx_count = api_get_pending_tx_count,
       aa_evm_call = api_evm_call E,
       aa_get_code_by_hash = (\<lambda>h. api_storage (get_code_by_hash A S h)),
       aa_peer_count = api_peer_count,
       aa_get_storage_at = api_get_storage_at E\<rparr>)"

section \<open>The contract of a reader\<close>

text \<open>What the chain holds, as far as the handlers read it.\<close>

record chain_view =
  cv_latest :: block
  cv_block :: "u64 \<Rightarrow> block option"
  cv_header :: "u64 \<Rightarrow> header option"
  cv_by_hash :: "hash \<Rightarrow> block option"
  cv_tx :: "hash \<Rightarrow> signed_transaction option"
  cv_receipt :: "hash \<Rightarrow> receipt option"
  cv_filed :: "u64 \<Rightarrow> hash \<Rightarrow> receipt option"

text \<open>An operation answers \<open>v\<close> in a state, and keeps the invariant and the view.\<close>

definition answers ::
  "('s \<Rightarrow> bool) \<Rightarrow> ('s \<Rightarrow> 'x) \<Rightarrow> ('s, 'e, 'v) st \<Rightarrow> 'e + 'v \<Rightarrow> 's \<Rightarrow> bool" where
  "answers valid view op v s \<longleftrightarrow> (\<exists>s'. op s = (s', v) \<and> valid s' \<and> view s' = view s)"

locale chain_reader =
  fixes A :: "'s api_adapter" and valid :: "'s \<Rightarrow> bool" and view :: "'s \<Rightarrow> chain_view"
  assumes read_latest: "valid s \<Longrightarrow> answers valid view (aa_get_block_by_number A None) (Inr (Some (cv_latest (view s)))) s"
    and read_block: "valid s \<Longrightarrow> answers valid view (aa_get_block_by_number A (Some n)) (Inr (cv_block (view s) n)) s"
    and read_by_hash: "valid s \<Longrightarrow> answers valid view (aa_get_block_by_hash A h) (Inr (cv_by_hash (view s) h)) s"
    and read_latest_header: "valid s \<Longrightarrow>
      answers valid view (aa_get_block_header_by_number A None) (Inr (Some (bk_header (cv_latest (view s))))) s"
    and read_header: "valid s \<Longrightarrow>
      answers valid view (aa_get_block_header_by_number A (Some n)) (Inr (cv_header (view s) n)) s"
    and read_tx: "valid s \<Longrightarrow> answers valid view (aa_get_transaction_by_hash A h) (Inr (cv_tx (view s) h)) s"
    and read_receipt: "valid s \<Longrightarrow> answers valid view (aa_get_receipt_by_tx_hash A h) (Inr (cv_receipt (view s) h)) s"
    and read_receipts: "valid s \<Longrightarrow> distinct hs \<Longrightarrow>
      answers valid view (aa_get_receipts_by_hashes A n hs) (Inr (map (cv_filed (view s) n) hs)) s"

lemma answersI: "op s = (s', v) \<Longrightarrow> valid s' \<Longrightarrow> view s' = view s \<Longrightarrow> answers valid view op v s"
  by (auto simp: answers_def)

lemma answers_return: "valid s \<Longrightarrow> answers valid view (st_return v) (Inr v) s"
  by (simp add: answers_def)

lemma answers_throw: "valid s \<Longrightarrow> answers valid view (st_throw e) (Inl e) s"
  by (simp add: answers_def)

lemma answers_lift: "valid s \<Longrightarrow> answers valid view (st_lift r) r s"
  by (simp add: answers_def st_lift_def)

lemma answers_bind:
  assumes "answers valid view op (Inr v) s"
    and "\<And>s'. valid s' \<Longrightarrow> view s' = view s \<Longrightarrow> answers valid view (f v) w s'"
  shows "answers valid view (st_bind op f) w s"
proof -
  obtain s' where s': "op s = (s', Inr v)" "valid s'" "view s' = view s" using assms(1) by (auto simp: answers_def)
  with assms(2) [OF s'(2,3)] show ?thesis by (auto simp: answers_def st_bind_apply)
qed

lemma answers_bind_error: "answers valid view op (Inl e) s \<Longrightarrow> answers valid view (st_bind op f) (Inl e) s"
  by (auto simp: answers_def st_bind_apply)

lemma answers_map:
  assumes "valid s" and "\<And>x s'. x \<in> set xs \<Longrightarrow> valid s' \<Longrightarrow> view s' = view s \<Longrightarrow> answers valid view (f x) (Inr (g x)) s'"
  shows "answers valid view (st_map f xs) (Inr (map g xs)) s"
  using assms
proof (induction xs arbitrary: s)
  case (Cons x xs)
  show ?case
  proof (simp, rule answers_bind [OF Cons.prems(2)])
    show "answers valid view (st_bind (st_map f xs) (\<lambda>ys. st_return (g x # ys))) (Inr (g x # map g xs)) s'"
      if "valid s'" "view s' = view s" for s'
      using that Cons.prems(2) by (intro answers_bind [OF Cons.IH] answers_return) simp_all
  qed (use Cons.prems in simp_all)
qed (simp add: answers_return)

text \<open>A loop stops at the first element that fails.\<close>

lemma answers_map_error:
  assumes "valid s" and "x \<in> set xs" and "\<And>s'. valid s' \<Longrightarrow> view s' = view s \<Longrightarrow> answers valid view (f x) (Inl e) s'"
    and "\<And>y s'. y \<in> set xs \<Longrightarrow> y \<noteq> x \<Longrightarrow> valid s' \<Longrightarrow> view s' = view s \<Longrightarrow>
      answers valid view (f y) (Inl e) s' \<or> answers valid view (f y) (Inr (g y)) s'"
  shows "answers valid view (st_map f xs) (Inl e) s"
  using assms
proof (induction xs arbitrary: s)
  case (Cons y xs)
  consider "answers valid view (f y) (Inl e) s" | "y \<noteq> x" "answers valid view (f y) (Inr (g y)) s"
    using Cons.prems by (metis list.set_intros(1))
  then show ?case
  proof cases
    case 1
    then show ?thesis by (simp add: answers_bind_error)
  next
    case 2
    show ?thesis
    proof (simp, rule answers_bind [OF 2(2)])
      show "answers valid view (st_bind (st_map f xs) (\<lambda>ys. st_return (g y # ys))) (Inl e) s'"
        if "valid s'" "view s' = view s" for s'
        using that 2(1) Cons.prems by (intro answers_bind_error Cons.IH) simp_all
    qed
  qed
qed simp

lemma answers_snd: "answers valid view op v s \<Longrightarrow> snd (op s) = v"
  by (auto simp: answers_def)

section \<open>The default adapter keeps the contract\<close>

text \<open>Everything the database holds can be decoded.\<close>

definition readable :: "storage_env \<Rightarrow> kv_view \<Rightarrow> bool" where
  "readable E V \<longleftrightarrow>
     (\<forall>n. is_ok (spec_block E V n)) \<and> (\<forall>n. is_ok (spec_header E V n)) \<and> (\<forall>h. is_ok (spec_by_hash E V h)) \<and>
     (\<forall>h. is_ok (spec_at E CatSignedTransaction (snd (se_stx E)) V h)) \<and>
     (\<forall>h. is_ok (spec_at E CatReceipt (snd (se_receipt E)) V h)) \<and>
     (\<forall>n h. is_ok (read_val (snd (se_receipt E)) (V CatReceipt (common_hash_key_encode (common_hash_key_new n h))))) \<and>
     is_ok (spec_latest_block E V)"

text \<open>Scanning the receipts of a block finds its entries first, and leaves the contents alone.\<close>

definition scans :: "'d storage_adapter \<Rightarrow> ('d \<Rightarrow> kv_view) \<Rightarrow> kv_view \<Rightarrow> bool" where
  "scans A dbview V \<longleftrightarrow>
     (\<forall>d n. dbview d = V \<longrightarrow>
        (\<exists>d' entries. ad_iter A CatReceipt (common_prefix_new n) d = (d', Inr entries) \<and>
           prefix_first V CatReceipt n entries \<and> dbview d' = V))"

definition api_inv ::
  "('d, 't, 'q) consensus_env \<Rightarrow> ('d \<Rightarrow> kv_view) \<Rightarrow> ('d, 't, 'm, 'p) api_node \<Rightarrow> bool" where
  "api_inv E dbview s \<longleftrightarrow>
     kv_adapter (ce_adapter E) dbview \<and> lru_ok (ce_store E) \<and> coherent (ce_store E) dbview (nd_storage s) \<and>
     readable (ce_store E) (dbview (is_db (nd_storage s))) \<and> scans (ce_adapter E) dbview (dbview (is_db (nd_storage s)))"

definition view_of :: "storage_env \<Rightarrow> kv_view \<Rightarrow> chain_view" where
  "view_of E V =
     \<lparr>cv_latest = projr (spec_latest_block E V),
      cv_block = (\<lambda>n. projr (spec_block E V n)),
      cv_header = (\<lambda>n. projr (spec_header E V n)),
      cv_by_hash = (\<lambda>h. projr (spec_by_hash E V h)),
      cv_tx = (\<lambda>h. projr (spec_at E CatSignedTransaction (snd (se_stx E)) V h)),
      cv_receipt = (\<lambda>h. projr (spec_at E CatReceipt (snd (se_receipt E)) V h)),
      cv_filed = (\<lambda>n h. projr (read_val (snd (se_receipt E)) (V CatReceipt (common_hash_key_encode (common_hash_key_new n h)))))\<rparr>"

definition api_view ::
  "('d, 't, 'q) consensus_env \<Rightarrow> ('d \<Rightarrow> kv_view) \<Rightarrow> ('d, 't, 'm, 'p) api_node \<Rightarrow> chain_view" where
  "api_view E dbview s = view_of (ce_store E) (dbview (is_db (nd_storage s)))"

lemma is_ok_projr: "is_ok r \<Longrightarrow> r = Inr (projr r)"
  by (cases r) simp_all

lemma api_storage_answers:
  assumes "api_inv E dbview s" and "transparent (ce_store E) dbview op spec (nd_storage s)"
    and "is_ok (spec (dbview (is_db (nd_storage s))))"
  shows "answers (api_inv E dbview) (api_view E dbview) (api_storage op)
    (Inr (projr (spec (dbview (is_db (nd_storage s)))))) s"
proof -
  obtain st where "op (nd_storage s) = (st, spec (dbview (is_db (nd_storage s))))" "coherent (ce_store E) dbview st"
    "dbview (is_db st) = dbview (is_db (nd_storage s))"
    using assms(2) by (auto simp: transparent_def)
  moreover obtain v where "spec (dbview (is_db (nd_storage s))) = Inr v" using assms(3) is_ok_projr by blast
  ultimately show ?thesis
    using assms(1) by (auto simp: answers_def api_storage_def map_err_def api_inv_def api_view_def)
qed

lemma api_receipts_answers:
  assumes valid: "api_inv E dbview s" and hs: "distinct hs"
  shows "answers (api_inv E dbview) (api_view E dbview) (api_storage (get_receipts (ce_adapter E) (ce_store E) n hs))
    (Inr (map (cv_filed (api_view E dbview s) n) hs)) s"
proof (cases "hs = []")
  case True
  have "s\<lparr>nd_storage := nd_storage s\<rparr> = s" by simp
  with True valid show ?thesis by (simp add: answers_def api_storage_def get_receipts_def map_err_def)
next
  case False
  let ?V = "dbview (is_db (nd_storage s))" and ?E = "ce_store E"
  let ?read = "\<lambda>h. read_val (snd (se_receipt ?E)) (?V CatReceipt (common_hash_key_encode (common_hash_key_new n h)))"
  obtain d entries where d: "ad_iter (ce_adapter E) CatReceipt (common_prefix_new n) (is_db (nd_storage s)) = (d, Inr entries)"
    "prefix_first ?V CatReceipt n entries" "dbview d = ?V"
    using valid unfolding api_inv_def scans_def by blast
  have "?read h = Inr (projr (?read h))" for h
    using valid is_ok_projr unfolding api_inv_def readable_def by blast
  then have "res_map ?read hs = Inr (map (\<lambda>h. projr (?read h)) hs)" by (intro res_map_all_ok)
  from get_values_single [OF d(1,2) hs this] False
  have "get_receipts (ce_adapter E) ?E n hs (nd_storage s) =
      ((nd_storage s)\<lparr>is_db := d\<rparr>, Inr (map (\<lambda>h. projr (?read h)) hs))" by (simp add: get_receipts_def)
  then show ?thesis
    using valid d(3) coherent_db [of ?E dbview "nd_storage s" d]
    by (simp add: answers_def api_storage_def map_err_def api_inv_def api_view_def view_of_def)
qed

interpretation api: chain_reader "default_api_adapter E" "api_inv E dbview" "api_view E dbview"
  for E :: "('d, 't, 'q) consensus_env" and dbview
proof
  fix s :: "('d, 't, 'm, 'p) api_node" and n h
  assume valid: "api_inv E dbview s"
  let ?ans = "answers (api_inv E dbview) (api_view E dbview :: ('d, 't, 'm, 'p) api_node \<Rightarrow> _)"
  let ?V = "dbview (is_db (nd_storage s))" and ?st = "nd_storage s"
  have kv: "kv_adapter (ce_adapter E) dbview" and lru: "lru_ok (ce_store E)" and coh: "coherent (ce_store E) dbview ?st"
    and ok: "readable (ce_store E) ?V" using valid by (auto simp: api_inv_def)
  note ok = ok [unfolded readable_def]
  note storage = api_storage_answers [OF valid]
  have latest: "?ans (api_storage (get_latest_block (ce_adapter E) (ce_store E))) (Inr (cv_latest (api_view E dbview s))) s"
    using storage [OF kv_adapter.get_latest_block_transparent [OF kv coh]] ok by (simp add: api_view_def view_of_def)
  show "?ans (aa_get_block_by_number (default_api_adapter E) None) (Inr (Some (cv_latest (api_view E dbview s)))) s"
    by (simp add: default_api_adapter_def Let_def api_get_block_by_number_def)
      (rule answers_bind [OF latest], simp add: answers_return)
  show "?ans (aa_get_block_by_number (default_api_adapter E) (Some n)) (Inr (cv_block (api_view E dbview s) n)) s"
    using storage [OF kv_adapter.get_block_transparent [OF kv coh lru]] ok
    by (simp add: default_api_adapter_def Let_def api_get_block_by_number_def api_view_def view_of_def)
  show "?ans (aa_get_block_by_hash (default_api_adapter E) h) (Inr (cv_by_hash (api_view E dbview s) h)) s"
    using storage [OF kv_adapter.get_block_by_hash_transparent [OF kv coh lru]] ok
    by (simp add: default_api_adapter_def Let_def api_view_def view_of_def)
  have "?ans (api_storage (get_latest_block_header (ce_adapter E) (ce_store E))) (Inr (bk_header (cv_latest (api_view E dbview s)))) s"
    using storage [OF kv_adapter.get_latest_block_header_transparent [OF kv coh]] ok
    by (cases "spec_latest_block (ce_store E) ?V") (simp_all add: api_view_def view_of_def)
  then show "?ans (aa_get_block_header_by_number (default_api_adapter E) None)
      (Inr (Some (bk_header (cv_latest (api_view E dbview s))))) s"
    by (simp add: default_api_adapter_def Let_def api_get_block_header_by_number_def)
      (rule answers_bind, assumption, simp add: answers_return)
  show "?ans (aa_get_block_header_by_number (default_api_adapter E) (Some n)) (Inr (cv_header (api_view E dbview s) n)) s"
    using storage [OF kv_adapter.get_block_header_transparent [OF kv coh lru]] ok
    by (simp add: default_api_adapter_def Let_def api_get_block_header_by_number_def api_view_def view_of_def)
  show "?ans (aa_get_transaction_by_hash (default_api_adapter E) h) (Inr (cv_tx (api_view E dbview s) h)) s"
    using storage [OF kv_adapter.get_transaction_transparent [OF kv coh lru]] ok
    by (simp add: default_api_adapter_def Let_def api_view_def view_of_def)
  show "?ans (aa_get_receipt_by_tx_hash (default_api_adapter E) h) (Inr (cv_receipt (api_view E dbview s) h)) s"
    using storage [OF kv_adapter.get_receipt_transparent [OF kv coh lru]] ok
    by (simp add: default_api_adapter_def Let_def api_view_def view_of_def)
  show "?ans (aa_get_receipts_by_hashes (default_api_adapter E) n hs) (Inr (map (cv_filed (api_view E dbview s) n) hs)) s"
    if "distinct hs" for hs
    using api_receipts_answers [OF valid that] by (simp add: default_api_adapter_def Let_def)
qed

end
