(* ===== verification/Json_Rpc.thy ===== *)
theory Json_Rpc
  imports Api_Adapter
begin

text \<open>
  The handlers of the JSON-RPC interface (\<open>core/api/src/jsonrpc/impl.rs\<close>), each as one operation
  over the record of adapter operations; errors and panics are values. Inside the contract
  \<open>chain_reader\<close> the theory computes what \<open>eth_getLogs\<close> and the look-ups of transactions answer.
  The profiler switch is compiled out by default and only returns its flag.
\<close>

section \<open>Handlers\<close>

datatype rpc_error =
    RpcPanic
  | RpcApi api_error
  | RpcCodec decoder_error
  | RpcTypes types_error
  | ReceiptMissing hash
  | NoLatestHeader
  | InvalidBlockHash hash
  | InvalidFromBlock u64
  | InvalidPosition u256
  | BlockNotFound
  | FilterNotFound u256
  | ChannelClosed

text \<open>
  What the handlers use besides the adapter: the RLP library with its parser, Keccak, the
  recovery of public keys and the configured version.
\<close>

record web3_env =
  w3_rlp :: rlp_lib
  w3_rlp_in :: "bytes \<Rightarrow> decoder_error + rlp"
  w3_keccak :: "bytes \<Rightarrow> bytes"
  w3_recover :: "hash \<Rightarrow> bytes \<Rightarrow> public_key option"
  w3_version :: string

definition header_bytes :: "web3_env \<Rightarrow> header \<Rightarrow> bytes" where
  "header_bytes W h = rl_out (w3_rlp W) (header_encode (w3_rlp W) h)"

definition header_hash_of :: "web3_env \<Rightarrow> header \<Rightarrow> hash" where
  "header_hash_of W h = hasher_digest (w3_keccak W) (header_bytes W h)"

type_synonym ('s, 'v) rpc_op = "('s, rpc_error, 'v) st"

text \<open>\<open>map_err(|e| Error::Custom(e.to_string()))\<close>; a panic stays a panic.\<close>

definition custom :: "('s, api_error, 'v) st \<Rightarrow> ('s, 'v) rpc_op" where
  "custom op s = (case op s of (s', r) \<Rightarrow> (s', map_err (\<lambda>e. if e = ApiPanic then RpcPanic else RpcApi e) r))"

definition unwrap_or_panic :: "'v option \<Rightarrow> ('s, 'v) rpc_op" where
  "unwrap_or_panic x = st_lift (ok_or RpcPanic x)"

definition send_raw_transaction :: "web3_env \<Rightarrow> 's api_adapter \<Rightarrow> bytes \<Rightarrow> ('s, hash) rpc_op" where
  "send_raw_transaction W A tx =
     (if tx = [] then st_throw RpcPanic
      else
        st_bind (st_lift (map_err RpcCodec (w3_rlp_in W (tl tx)))) (\<lambda>r.
        st_bind (unwrap_or_panic (utx_decode (w3_rlp W) (w3_keccak W) r)) (\<lambda>decoded.
        st_bind (st_lift (map_err RpcCodec decoded)) (\<lambda>utx.
        st_bind (unwrap_or_panic (utx_rehash (w3_rlp W) (w3_keccak W) utx)) (\<lambda>utx.
        st_bind (unwrap_or_panic (signed_from_unverified (w3_rlp W) (w3_keccak W) (w3_recover W) utx)) (\<lambda>signed.
        st_bind (st_lift (map_err RpcTypes signed)) (\<lambda>stx.
          st_seq (custom (aa_insert_signed_txs A stx)) (st_return (stx_hash stx)))))))))"

definition rpc_get_transaction_by_hash ::
  "web3_env \<Rightarrow> 's api_adapter \<Rightarrow> hash \<Rightarrow> ('s, web3_transaction option) rpc_op" where
  "rpc_get_transaction_by_hash W A h =
     st_bind (custom (aa_get_transaction_by_hash A h)) (\<lambda>res.
       case res of
         None \<Rightarrow> st_return None
       | Some stx \<Rightarrow>
           st_bind (custom (aa_get_receipt_by_tx_hash A h)) (\<lambda>opt.
             case opt of
               None \<Rightarrow> st_throw (ReceiptMissing h)
             | Some r \<Rightarrow>
                 st_bind (unwrap_or_panic (web3_transaction_create (w3_rlp W) r stx)) (\<lambda>w. st_return (Some w))))"

text \<open>The block as a client sees it, with its transactions in full if it asks for them.\<close>

definition show_block :: "web3_env \<Rightarrow> 's api_adapter \<Rightarrow> bool \<Rightarrow> block option \<Rightarrow> ('s, web3_block option) rpc_op" where
  "show_block W A show_rich_tx opt =
     (case opt of
        None \<Rightarrow> st_return None
      | Some b \<Rightarrow>
          let ret = web3_block_from (header_hash_of W) (\<lambda>h. length (header_bytes W h)) b in
          if show_rich_tx then
            st_bind (st_map (\<lambda>tx.
               st_bind (custom (aa_get_transaction_by_hash A (rich_get_hash tx))) (\<lambda>opt.
               st_bind (unwrap_or_panic opt) (\<lambda>stx. st_return (TxRich stx)))) (wb_transactions ret)) (\<lambda>txs.
              st_return (Some (ret\<lparr>wb_transactions := txs\<rparr>)))
          else st_return (Some ret))"

definition rpc_get_block_by_number ::
  "web3_env \<Rightarrow> 's api_adapter \<Rightarrow> block_id \<Rightarrow> bool \<Rightarrow> ('s, web3_block option) rpc_op" where
  "rpc_get_block_by_number W A number show_rich_tx =
     st_bind (custom (aa_get_block_by_number A (block_id_number number))) (show_block W A show_rich_tx)"

definition rpc_get_block_by_hash ::
  "web3_env \<Rightarrow> 's api_adapter \<Rightarrow> hash \<Rightarrow> bool \<Rightarrow> ('s, web3_block option) rpc_op" where
  "rpc_get_block_by_hash W A h show_rich_tx =
     st_bind (custom (aa_get_block_by_hash A h)) (show_block W A show_rich_tx)"

definition rpc_get_transaction_count :: "'s api_adapter \<Rightarrow> h160 \<Rightarrow> block_id_with_pending \<Rightarrow> ('s, u256) rpc_op" where
  "rpc_get_transaction_count A address number =
     (case number of
        BlockIdOf i \<Rightarrow> st_bind (custom (aa_get_account A address (block_id_number i))) (\<lambda>account. st_return (ac_nonce account))
      | Pending \<Rightarrow> custom (aa_get_pending_tx_count A address))"

definition latest_header_field :: "'s api_adapter \<Rightarrow> (header \<Rightarrow> u256) \<Rightarrow> ('s, u256) rpc_op" where
  "latest_header_field A f =
     st_bind (custom (aa_get_block_header_by_number A None)) (\<lambda>opt.
       st_lift (ok_or NoLatestHeader (map_option f opt)))"

definition rpc_block_number :: "'s api_adapter \<Rightarrow> ('s, u256) rpc_op" where
  "rpc_block_number A = latest_header_field A (\<lambda>h. ucast (hd_number h))"

definition rpc_chain_id :: "'s api_adapter \<Rightarrow> ('s, u256) rpc_op" where
  "rpc_chain_id A = latest_header_field A (\<lambda>h. ucast (hd_chain_id h))"

definition rpc_get_balance :: "'s api_adapter \<Rightarrow> h160 \<Rightarrow> block_id \<Rightarrow> ('s, u256) rpc_op" where
  "rpc_get_balance A address number =
     st_bind (custom (aa_get_account A address (block_id_number number))) (\<lambda>account. st_return (ac_balance account))"

text \<open>\<open>H64::from_low_u64_le\<close> stores the number in little-endian order; \<open>as_u64\<close> panics above 64 bits.\<close>

definition mock_header_by_call_req :: "header \<Rightarrow> web3_call_request \<Rightarrow> header option" where
  "mock_header_by_call_req latest_header call_req =
     (let nonce =
        (case cr_nonce call_req of
           None \<Rightarrow> Some (hd_nonce latest_header)
         | Some n \<Rightarrow>
             if unat n < 2 ^ 64 then Some (from_be_bytes (rev (to_be_bytes 8 (ucast n :: u64)))) else None)
      in map_option (\<lambda>nonce.
        \<lparr>hd_prev_hash = hd_prev_hash latest_header,
         hd_proposer = hd_proposer latest_header,
         hd_state_root = hd_state_root latest_header,
         hd_transactions_root = 0,
         hd_signed_txs_hash = 0,
         hd_receipts_root = 0,
         hd_log_bloom = 0,
         hd_difficulty = hd_difficulty latest_header,
         hd_timestamp = hd_timestamp latest_header,
         hd_number = hd_number latest_header,
         hd_gas_used = hd_gas_used latest_header,
         hd_gas_limit = (case cr_gas call_req of Some gas_limit \<Rightarrow> gas_limit | None \<Rightarrow> hd_gas_limit latest_header),
         hd_extra_data = [],
         hd_mixed_hash = None,
         hd_nonce = nonce,
         hd_base_fee_per_gas =
           (case cr_max_fee_per_gas call_req of Some base_fee \<Rightarrow> base_fee | None \<Rightarrow> hd_base_fee_per_gas latest_header),
         hd_proof = hd_proof latest_header,
         hd_last_checkpoint_block_hash = hd_last_checkpoint_block_hash latest_header,
         hd_chain_id = hd_chain_id latest_header\<rparr>) nonce)"

definition call_evm :: "'s api_adapter \<Rightarrow> web3_call_request \<Rightarrow> bytes \<Rightarrow> u64 option \<Rightarrow> ('s, api_error, tx_resp) st" where
  "call_evm A req data number =
     (if cr_from req = None \<and> cr_to req = None then st_throw FromAndToNone
      else
        st_bind (aa_get_block_header_by_number A number) (\<lambda>opt.
        st_bind (st_lift (ok_or (CannotGetHeader number) opt)) (\<lambda>header.
        st_bind (st_lift (ok_or ApiPanic (mock_header_by_call_req header req))) (\<lambda>mock_header.
          aa_evm_call A (cr_from req) (cr_to req) data (hd_state_root mock_header) (proposal_from_header mock_header)))))"

definition rpc_call :: "'s api_adapter \<Rightarrow> web3_call_request \<Rightarrow> block_id \<Rightarrow> ('s, bytes) rpc_op" where
  "rpc_call A req number =
     st_bind (custom (call_evm A req (cr_data req) (block_id_number number))) (\<lambda>resp. st_return (tr_ret resp))"

definition rpc_estimate_gas :: "'s api_adapter \<Rightarrow> web3_call_request \<Rightarrow> block_id option \<Rightarrow> ('s, u256) rpc_op" where
  "rpc_estimate_gas A req number =
     (let num = (case number of Some (BlockNum n) \<Rightarrow> Some n | _ \<Rightarrow> None)
      in st_bind (custom (call_evm A req (cr_data req) num)) (\<lambda>resp. st_return (ucast (tr_gas_used resp))))"

definition rpc_get_code :: "'s api_adapter \<Rightarrow> h160 \<Rightarrow> block_id \<Rightarrow> ('s, bytes) rpc_op" where
  "rpc_get_code A address number =
     st_bind (custom (aa_get_account A address (block_id_number number))) (\<lambda>account.
     st_bind (custom (aa_get_code_by_hash A (ac_code_hash account))) (\<lambda>code_result.
       st_return (case code_result of Some code_bytes \<Rightarrow> code_bytes | None \<Rightarrow> [])))"

definition rpc_get_transaction_count_by_number :: "'s api_adapter \<Rightarrow> block_id \<Rightarrow> ('s, u256) rpc_op" where
  "rpc_get_transaction_count_by_number A number =
     st_bind (custom (aa_get_block_by_number A (block_id_number number))) (\<lambda>opt.
       st_return (word_of_nat (case opt of Some bc \<Rightarrow> length (bk_tx_hashes bc) | None \<Rightarrow> 0)))"

definition rpc_get_transaction_receipt :: "'s api_adapter \<Rightarrow> hash \<Rightarrow> ('s, web3_receipt option) rpc_op" where
  "rpc_get_transaction_receipt A h =
     st_bind (custom (aa_get_transaction_by_hash A h)) (\<lambda>res.
       case res of
         None \<Rightarrow> st_return None
       | Some stx \<Rightarrow>
           st_bind (custom (aa_get_receipt_by_tx_hash A h)) (\<lambda>opt.
             case opt of
               None \<Rightarrow> st_throw (ReceiptMissing h)
             | Some r \<Rightarrow> st_return (Some (web3_receipt_new r stx))))"

definition rpc_peer_count :: "'s api_adapter \<Rightarrow> ('s, u256) rpc_op" where
  "rpc_peer_count A = custom (aa_peer_count A)"

definition rpc_syncing :: "('s \<Rightarrow> sync_status) \<Rightarrow> ('s, web3_sync_status) rpc_op" where
  "rpc_syncing sync = st_gets (\<lambda>s. web3_sync_status_from (sync s))"

section \<open>Logs\<close>

definition from_receipt_to_web3_log :: "nat \<Rightarrow> hash list \<Rightarrow> receipt \<Rightarrow> web3_log list" where
  "from_receipt_to_web3_log index topics r =
     concat (map (\<lambda>log.
       map (\<lambda>(idx, topic).
         \<lparr>lg_address = rc_sender r, lg_topics = log_topics log, lg_data = log_data log,
          lg_block_hash = Some (rc_block_hash r), lg_block_number = Some (ucast (rc_block_number r)),
          lg_transaction_hash = Some (rc_tx_hash r), lg_transaction_index = Some (ucast (rc_tx_index r)),
          lg_log_index = Some (word_of_nat (index + idx)), lg_removed = False\<rparr>)
        (filter (\<lambda>(idx, topic). topics = [] \<or> topic \<in> set topics) (enumerate 0 (log_topics log))))
      (rc_logs r))"

definition address_matches :: "h160 list option \<Rightarrow> receipt \<Rightarrow> bool" where
  "address_matches address r = (case address of Some s \<Rightarrow> rc_sender r \<in> set s | None \<Rightarrow> True)"

text \<open>The closure \<open>extend_logs\<close>: what the receipts of one block add, with the running index.\<close>

fun extend_logs :: "h160 list option \<Rightarrow> hash list \<Rightarrow> nat \<Rightarrow> receipt list \<Rightarrow> web3_log list" where
  "extend_logs address topics index [] = []"
| "extend_logs address topics index (r # rs) =
     (if address_matches address r then from_receipt_to_web3_log index topics r else []) @
     extend_logs address topics (index + length (rc_logs r)) rs"

definition logs_of_block ::
  "'s api_adapter \<Rightarrow> h160 list option \<Rightarrow> hash list \<Rightarrow> block \<Rightarrow> ('s, web3_log list) rpc_op" where
  "logs_of_block A address topics b =
     st_bind (custom (aa_get_receipts_by_hashes A (hd_number (bk_header b)) (bk_tx_hashes b))) (\<lambda>receipts.
       st_return (extend_logs address topics 0 (List.map_filter id receipts)))"

datatype block_position = PosHash hash | PosNum u64 | PosBlock block

definition get_logs_at ::
  "'s api_adapter \<Rightarrow> block_position \<Rightarrow> hash list \<Rightarrow> h160 list option \<Rightarrow> ('s, web3_log list) rpc_op" where
  "get_logs_at A position topics address =
     (case position of
        PosHash h \<Rightarrow>
          st_bind (custom (aa_get_block_by_hash A h)) (\<lambda>opt.
            case opt of
              Some b \<Rightarrow> logs_of_block A address topics b
            | None \<Rightarrow> st_throw (InvalidBlockHash h))
      | PosNum n \<Rightarrow>
          st_bind (custom (aa_get_block_by_number A (Some n))) (\<lambda>opt.
          st_bind (unwrap_or_panic opt) (\<lambda>b. logs_of_block A address topics b))
      | PosBlock b \<Rightarrow> logs_of_block A address topics b)"

definition inclusive :: "u64 \<Rightarrow> u64 \<Rightarrow> u64 list" where
  "inclusive start end = map word_of_nat [unat start..<Suc (unat end)]"

definition convert_id :: "u64 \<Rightarrow> block_id option \<Rightarrow> u64" where
  "convert_id latest_number i = (case i of Some (BlockNum n) \<Rightarrow> n | _ \<Rightarrow> latest_number)"

text \<open>
  The logs of a range of heights. The latest block is not read again: its logs come last,
  from the block that was read first.
\<close>

definition logs_of_range ::
  "'s api_adapter \<Rightarrow> block \<Rightarrow> u64 \<Rightarrow> u64 \<Rightarrow> hash list \<Rightarrow> h160 list option \<Rightarrow> ('s, web3_log list) rpc_op" where
  "logs_of_range A latest_block start end topics address =
     (let latest_number = hd_number (bk_header latest_block) in
      st_bind (st_map (\<lambda>n.
         if n = latest_number then st_return [] else get_logs_at A (PosNum n) topics address) (inclusive start end)) (\<lambda>all_logs.
      st_bind (if latest_number \<in> set (inclusive start end)
               then get_logs_at A (PosBlock latest_block) topics address else st_return []) (\<lambda>last_logs.
        st_return (concat all_logs @ last_logs))))"

definition rpc_get_logs :: "'s api_adapter \<Rightarrow> web3_filter \<Rightarrow> ('s, web3_log list) rpc_op" where
  "rpc_get_logs A f =
     (let topics = (case wf_topics f of Some ts \<Rightarrow> ts | None \<Rightarrow> []);
          address = multi_option (wf_address f)
      in case wf_block_hash f of
           Some h \<Rightarrow> get_logs_at A (PosHash h) topics address
         | None \<Rightarrow>
             st_bind (custom (aa_get_block_by_number A None)) (\<lambda>opt.
             st_bind (unwrap_or_panic opt) (\<lambda>latest_block.
               let latest_number = hd_number (bk_header latest_block);
                   start = convert_id latest_number (wf_from_block f);
                   end = convert_id latest_number (wf_to_block f)
               in if latest_number < start then st_throw (InvalidFromBlock start)
                  else logs_of_range A latest_block start end topics address)))"

section \<open>Look-ups by position, storage and constants\<close>

definition rpc_sha3 :: "web3_env \<Rightarrow> bytes \<Rightarrow> ('s, hash) rpc_op" where
  "rpc_sha3 W data = st_return (hasher_digest (w3_keccak W) data)"

definition rpc_get_block_transaction_count_by_hash :: "'s api_adapter \<Rightarrow> hash \<Rightarrow> ('s, u256) rpc_op" where
  "rpc_get_block_transaction_count_by_hash A h =
     st_bind (custom (aa_get_block_by_hash A h)) (\<lambda>opt.
       st_return (case opt of Some b \<Rightarrow> word_of_nat (length (bk_tx_hashes b)) | None \<Rightarrow> 0))"

definition tx_at_position ::
  "web3_env \<Rightarrow> 's api_adapter \<Rightarrow> ('s, api_error, block option) st \<Rightarrow> u256 \<Rightarrow> ('s, web3_transaction option) rpc_op" where
  "tx_at_position W A get_block position =
     (if 2 ^ 64 \<le> unat position then st_throw (InvalidPosition position)
      else
        let index = unat (ucast position :: u64) in
        st_bind (custom get_block) (\<lambda>opt.
          case opt of
            Some b \<Rightarrow>
              if index < length (bk_tx_hashes b) then rpc_get_transaction_by_hash W A (bk_tx_hashes b ! index)
              else st_return None
          | None \<Rightarrow> st_return None))"

definition rpc_get_transaction_by_block_hash_and_index ::
  "web3_env \<Rightarrow> 's api_adapter \<Rightarrow> hash \<Rightarrow> u256 \<Rightarrow> ('s, web3_transaction option) rpc_op" where
  "rpc_get_transaction_by_block_hash_and_index W A h position =
     tx_at_position W A (aa_get_block_by_hash A h) position"

definition rpc_get_transaction_by_block_number_and_index ::
  "web3_env \<Rightarrow> 's api_adapter \<Rightarrow> block_id \<Rightarrow> u256 \<Rightarrow> ('s, web3_transaction option) rpc_op" where
  "rpc_get_transaction_by_block_number_and_index W A number position =
     tx_at_position W A (aa_get_block_by_number A (block_id_number number)) position"

definition rpc_get_storage_at :: "'s api_adapter \<Rightarrow> h160 \<Rightarrow> u256 \<Rightarrow> block_id \<Rightarrow> ('s, bytes) rpc_op" where
  "rpc_get_storage_at A address position number =
     st_bind (custom (aa_get_block_by_number A (block_id_number number))) (\<lambda>opt.
     st_bind (st_lift (ok_or BlockNotFound opt)) (\<lambda>b.
       custom (aa_get_storage_at A address position (hd_state_root (bk_header b)))))"

record web3_fee_history =
  fe_oldest_block :: u256
  fe_reward :: "u256 list option"
  fe_base_fee_per_gas :: "u256 list"
  fe_gas_used_ratio :: "u256 list"

definition rpc_fee_history :: "u64 \<Rightarrow> block_id \<Rightarrow> u64 list option \<Rightarrow> ('s, web3_fee_history) rpc_op" where
  "rpc_fee_history block_count newest_block reward_percentiles =
     st_return \<lparr>fe_oldest_block = 0, fe_reward = None, fe_base_fee_per_gas = [], fe_gas_used_ratio = []\<rparr>"

definition rpc_gas_price :: "('s, u256) rpc_op" where
  "rpc_gas_price = st_return 8"

definition rpc_client_version :: "web3_env \<Rightarrow> ('s, string) rpc_op" where
  "rpc_client_version W = st_return (w3_version W)"

section \<open>What the handlers answer\<close>

definition receipts_of :: "chain_view \<Rightarrow> block \<Rightarrow> receipt list" where
  "receipts_of cv b = List.map_filter (cv_filed cv (hd_number (bk_header b))) (bk_tx_hashes b)"

text \<open>
  The logs of a block: for each receipt with a matching sender the matching topics, numbered
  from the number of logs in the receipts before it.
\<close>

definition block_logs :: "chain_view \<Rightarrow> h160 list option \<Rightarrow> hash list \<Rightarrow> block \<Rightarrow> web3_log list" where
  "block_logs cv address topics b =
     (let rs = receipts_of cv b in
      concat (map (\<lambda>i.
        if address_matches address (rs ! i)
        then from_receipt_to_web3_log (sum_list (map (length \<circ> rc_logs) (take i rs))) topics (rs ! i) else [])
       [0..<length rs]))"

lemma extend_logs_closed:
  "extend_logs address topics index rs =
     concat (map (\<lambda>i.
        if address_matches address (rs ! i)
        then from_receipt_to_web3_log (index + sum_list (map (length \<circ> rc_logs) (take i rs))) topics (rs ! i) else [])
       [0..<length rs])"
proof (induction rs arbitrary: index)
  case (Cons r rs)
  have "[0..<length (r # rs)] = 0 # map Suc [0..<length rs]" by (simp add: map_Suc_upt upt_conv_Cons del: upt_Suc)
  then show ?case by (simp add: Cons comp_def add.assoc del: upt_Suc cong: if_cong)
qed simp

lemma block_logs_extend: "block_logs cv address topics b = extend_logs address topics 0 (receipts_of cv b)"
  by (simp add: block_logs_def Let_def extend_logs_closed cong: if_cong)

definition latest_number :: "chain_view \<Rightarrow> u64" where
  "latest_number cv = hd_number (bk_header (cv_latest cv))"

definition block_at :: "chain_view \<Rightarrow> u64 \<Rightarrow> block" where
  "block_at cv n = (if n = latest_number cv then cv_latest cv else case cv_block cv n of Some b \<Rightarrow> b | None \<Rightarrow> cv_latest cv)"

text \<open>The chain has a block at every height below the latest and none above; no block repeats a transaction.\<close>

definition chain_ok :: "chain_view \<Rightarrow> bool" where
  "chain_ok cv \<longleftrightarrow>
     (\<forall>n. n < latest_number cv \<longrightarrow> cv_block cv n \<noteq> None) \<and> (\<forall>n. latest_number cv < n \<longrightarrow> cv_block cv n = None) \<and>
     distinct (bk_tx_hashes (cv_latest cv)) \<and> (\<forall>n b. cv_block cv n = Some b \<longrightarrow> distinct (bk_tx_hashes b)) \<and>
     (\<forall>h b. cv_by_hash cv h = Some b \<longrightarrow> distinct (bk_tx_hashes b))"

definition range_logs ::
  "chain_view \<Rightarrow> u64 \<Rightarrow> u64 \<Rightarrow> hash list \<Rightarrow> h160 list option \<Rightarrow> rpc_error + web3_log list" where
  "range_logs cv start end topics address =
     (if latest_number cv < start then Inl (InvalidFromBlock start)
      else if latest_number cv < end then Inl RpcPanic
      else Inr (concat (map (\<lambda>n. block_logs cv address topics (block_at cv n)) (inclusive start end))))"

definition spec_get_logs :: "chain_view \<Rightarrow> web3_filter \<Rightarrow> rpc_error + web3_log list" where
  "spec_get_logs cv f =
     (let topics = (case wf_topics f of Some ts \<Rightarrow> ts | None \<Rightarrow> []); address = multi_option (wf_address f)
      in case wf_block_hash f of
           Some h \<Rightarrow>
             (case cv_by_hash cv h of
                Some b \<Rightarrow> Inr (block_logs cv address topics b)
              | None \<Rightarrow> Inl (InvalidBlockHash h))
         | None \<Rightarrow>
             range_logs cv (convert_id (latest_number cv) (wf_from_block f))
               (convert_id (latest_number cv) (wf_to_block f)) topics address)"

lemma set_inclusive: "n \<in> set (inclusive a b) \<longleftrightarrow> a \<le> n \<and> n \<le> b"
proof -
  have "\<exists>k. unat a \<le> k \<and> k \<le> unat b \<and> n = word_of_nat k" if "a \<le> n" "n \<le> b"
    using that by (intro exI [of _ "unat n"]) (simp add: word_le_nat_alt)
  moreover have "a \<le> word_of_nat k \<and> word_of_nat k \<le> b" if "unat a \<le> k" "k \<le> unat b" for k
    using that unat_bound [of b] by (simp add: word_le_nat_alt unat_of_nat)
  moreover have "set (inclusive a b) = word_of_nat ` {k. unat a \<le> k \<and> k \<le> unat b}"
    by (auto simp: inclusive_def simp del: upt_Suc)
  ultimately show ?thesis by (auto simp: image_iff)
qed

lemma inclusive_last: "a \<le> b \<Longrightarrow> inclusive a b = map word_of_nat [unat a..<unat b] @ [b]"
  by (simp add: inclusive_def word_le_nat_alt)

lemma map_filter_map: "List.map_filter id (map f xs) = List.map_filter f xs"
  by (induction xs) (simp_all add: List.map_filter_def)

lemma answers_custom: "answers valid view op (Inr v) s \<Longrightarrow> answers valid view (custom op) (Inr v) s"
  by (auto simp: answers_def custom_def map_err_def)

lemma answers_unwrap:
  "valid s \<Longrightarrow> answers valid view (unwrap_or_panic (Some v)) (Inr v) s"
  "valid s \<Longrightarrow> answers valid view (unwrap_or_panic None) (Inl RpcPanic) s"
  by (simp_all add: unwrap_or_panic_def answers_lift)

lemmas answers_intros = answers_return answers_throw answers_lift answers_unwrap

context chain_reader
begin

lemma logs_of_block_answers:
  assumes "valid s" and "distinct (bk_tx_hashes b)"
  shows "answers valid view (logs_of_block A address topics b) (Inr (block_logs (view s) address topics b)) s"
  unfolding logs_of_block_def
proof (rule answers_bind [OF answers_custom [OF read_receipts [OF assms]]])
  show "answers valid view
      (st_return (extend_logs address topics 0
        (List.map_filter id (map (cv_filed (view s) (hd_number (bk_header b))) (bk_tx_hashes b)))))
      (Inr (block_logs (view s) address topics b)) s'" if "valid s'" for s'
    using answers_return [of valid s' view, OF that]
    by (simp add: map_filter_map block_logs_extend receipts_of_def)
qed

lemma logs_at_number:
  assumes "valid s" and "chain_ok (view s)" and "n \<noteq> latest_number (view s)"
  shows "n < latest_number (view s) \<Longrightarrow>
      answers valid view (get_logs_at A (PosNum n) topics address) (Inr (block_logs (view s) address topics (block_at (view s) n))) s"
    and "latest_number (view s) < n \<Longrightarrow> answers valid view (get_logs_at A (PosNum n) topics address) (Inl RpcPanic) s"
proof -
  show "answers valid view (get_logs_at A (PosNum n) topics address)
      (Inr (block_logs (view s) address topics (block_at (view s) n))) s" if "n < latest_number (view s)"
  proof -
    have "cv_block (view s) n \<noteq> None" using assms(2) that by (simp add: chain_ok_def)
    then obtain b where b: "cv_block (view s) n = Some b" "distinct (bk_tx_hashes b)"
      using assms(2) by (auto simp: chain_ok_def)
    have "answers valid view (logs_of_block A address topics b) (Inr (block_logs (view s) address topics b)) s'"
      if "valid s'" "view s' = view s" for s'
      using logs_of_block_answers [OF that(1) b(2), of address topics] that(2) by simp
    then show ?thesis
      using b(1) assms(3) unfolding get_logs_at_def
      by (auto intro!: answers_bind [OF answers_custom [OF read_block [OF assms(1)]]] answers_bind [OF answers_unwrap(1)]
          simp: block_at_def)
  qed
  show "answers valid view (get_logs_at A (PosNum n) topics address) (Inl RpcPanic) s" if "latest_number (view s) < n"
    using assms that unfolding get_logs_at_def chain_ok_def
    by (auto intro!: answers_bind [OF answers_custom [OF read_block [OF assms(1)]]] answers_bind_error [OF answers_unwrap(2)])
qed

lemma range_below:
  assumes "valid s" and "chain_ok (view s)" and "end \<le> latest_number (view s)"
  shows "answers valid view (logs_of_range A (cv_latest (view s)) start end topics address)
    (Inr (concat (map (\<lambda>n. block_logs (view s) address topics (block_at (view s) n)) (inclusive start end)))) s"
proof -
  let ?last = "latest_number (view s)" and ?logs = "\<lambda>n. block_logs (view s) address topics (block_at (view s) n)"
  let ?g = "\<lambda>n. if n = ?last then [] else ?logs n"
  let ?step = "\<lambda>n. if n = ?last then st_return [] else get_logs_at A (PosNum n) topics address"
  have loop: "answers valid view (st_map ?step (inclusive start end)) (Inr (map ?g (inclusive start end))) s"
  proof (rule answers_map [where valid = valid and s = s, OF assms(1)])
    show "answers valid view (?step n) (Inr (?g n)) s'"
      if "n \<in> set (inclusive start end)" "valid s'" "view s' = view s" for n s'
      using that assms(2,3) logs_at_number(1) [of s' n topics address]
      by (auto simp: set_inclusive answers_return)
  qed
  have total: "concat (map ?logs (inclusive start end)) =
      concat (map ?g (inclusive start end)) @ (if ?last \<in> set (inclusive start end) then ?logs ?last else [])"
  proof (cases "?last \<in> set (inclusive start end)")
    case True
    then have "start \<le> ?last" "end = ?last" using assms(3) by (auto simp: set_inclusive)
    then have split: "inclusive start end = map word_of_nat [unat start..<unat ?last] @ [?last]" by (simp add: inclusive_last)
    have "word_of_nat k \<noteq> ?last" if "k < unat ?last" for k
      using that unat_bound [of ?last] by (auto simp: unat_of_nat dest: arg_cong [where f = unat])
    then have "map ?g (map word_of_nat [unat start..<unat ?last]) = map ?logs (map word_of_nat [unat start..<unat ?last])"
      by simp
    then show ?thesis using True by (simp only: split map_append concat_append) simp
  next
    case False
    then have "map ?g (inclusive start end) = map ?logs (inclusive start end)" by (intro map_cong) auto
    with False show ?thesis by (simp del: map_eq_conv)
  qed
  have last: "answers valid view (logs_of_block A address topics (cv_latest (view s))) (Inr (?logs ?last)) s'"
    if "valid s'" "view s' = view s" for s'
    using logs_of_block_answers [OF that(1), of "cv_latest (view s)" address topics] that(2) assms(2)
    by (simp add: chain_ok_def block_at_def)
  show ?thesis
    unfolding logs_of_range_def Let_def latest_number_def [symmetric] total
    using last
    by (intro answers_bind [OF loop] answers_bind [where v = "if ?last \<in> set (inclusive start end) then ?logs ?last else []"])
      (auto simp: get_logs_at_def answers_return)
qed

lemma range_beyond:
  assumes "valid s" and "chain_ok (view s)" and "start \<le> latest_number (view s)" and "latest_number (view s) < end"
  shows "answers valid view (logs_of_range A (cv_latest (view s)) start end topics address) (Inl RpcPanic) s"
  unfolding logs_of_range_def Let_def latest_number_def [symmetric]
proof (rule answers_bind_error, rule answers_map_error [where valid = valid and s = s, OF assms(1)])
  let ?last = "latest_number (view s)"
  show "end \<in> set (inclusive start end)" using assms(3,4) by (simp add: set_inclusive)
  show "answers valid view (if end = ?last then st_return [] else get_logs_at A (PosNum end) topics address) (Inl RpcPanic) s'"
    if "valid s'" "view s' = view s" for s'
    using that assms(2,4) logs_at_number(2) [of s' "end" topics address] by auto
  show "answers valid view (if n = ?last then st_return [] else get_logs_at A (PosNum n) topics address) (Inl RpcPanic) s' \<or>
      answers valid view (if n = ?last then st_return [] else get_logs_at A (PosNum n) topics address)
        (Inr (if n = ?last then [] else block_logs (view s) address topics (block_at (view s) n))) s'"
    if "valid s'" "view s' = view s" for n s'
    using that assms(2) logs_at_number [of s' n topics address] answers_return [of valid s' view "[]"]
    by (cases n "?last" rule: linorder_cases) auto
qed

lemma get_logs_answers:
  assumes "valid s" and "chain_ok (view s)"
  shows "answers valid view (rpc_get_logs A f) (spec_get_logs (view s) f) s"
proof (cases "wf_block_hash f")
  case (Some h)
  have "answers valid view (logs_of_block A address topics b) (Inr (block_logs (view s) address topics b)) s'"
    if "valid s'" "view s' = view s" "cv_by_hash (view s) h = Some b" for s' b address topics
    using logs_of_block_answers [OF that(1), of b address topics] that(2,3) assms(2) by (simp add: chain_ok_def)
  with Some show ?thesis
    unfolding rpc_get_logs_def spec_get_logs_def get_logs_at_def Let_def
    by (auto intro!: answers_bind [OF answers_custom [OF read_by_hash [OF assms(1)]]] answers_throw split: option.split)
next
  case None
  have "answers valid view (logs_of_range A (cv_latest (view s)) start end topics address) (range_logs (view s) start end topics address) s'"
    if "valid s'" "view s' = view s" "\<not> latest_number (view s) < start" for s' start "end" topics address
    using range_below [OF that(1), of "end" start topics address] range_beyond [OF that(1), of start "end" topics address]
      that(2,3) assms(2)
    by (auto simp: range_logs_def not_less)
  moreover have "range_logs (view s) start end topics address = Inl (InvalidFromBlock start)"
    if "latest_number (view s) < start" for start "end" topics address
    using that by (simp add: range_logs_def)
  ultimately show ?thesis
    using None unfolding rpc_get_logs_def spec_get_logs_def Let_def
    by (auto intro!: answers_bind [OF answers_custom [OF read_latest [OF assms(1)]]] answers_bind [OF answers_unwrap(1)] answers_throw
        simp: latest_number_def [symmetric])
qed

lemma get_transaction_answers:
  assumes "valid s"
  shows "answers valid view (rpc_get_transaction_by_hash W A h)
    (case (cv_tx (view s) h, cv_receipt (view s) h) of
       (None, _) \<Rightarrow> Inr None
     | (Some stx, None) \<Rightarrow> Inl (ReceiptMissing h)
     | (Some stx, Some r) \<Rightarrow>
         (case web3_transaction_create (w3_rlp W) r stx of None \<Rightarrow> Inl RpcPanic | Some w \<Rightarrow> Inr (Some w))) s"
  unfolding rpc_get_transaction_by_hash_def
proof (rule answers_bind [OF answers_custom [OF read_tx [OF assms]]])
  fix s' assume s': "valid s'" "view s' = view s"
  have receipt: "answers valid view (custom (aa_get_receipt_by_tx_hash A h)) (Inr (cv_receipt (view s) h)) s'"
    using answers_custom [OF read_receipt [OF s'(1), of h]] s'(2) by simp
  show "answers valid view
      (case cv_tx (view s) h of None \<Rightarrow> st_return None
       | Some stx \<Rightarrow> st_bind (custom (aa_get_receipt_by_tx_hash A h)) (\<lambda>opt. case opt of None \<Rightarrow> st_throw (ReceiptMissing h)
         | Some r \<Rightarrow> st_bind (unwrap_or_panic (web3_transaction_create (w3_rlp W) r stx)) (\<lambda>w. st_return (Some w))))
      (case (cv_tx (view s) h, cv_receipt (view s) h) of (None, _) \<Rightarrow> Inr None
       | (Some stx, None) \<Rightarrow> Inl (ReceiptMissing h)
       | (Some stx, Some r) \<Rightarrow>
           (case web3_transaction_create (w3_rlp W) r stx of None \<Rightarrow> Inl RpcPanic | Some w \<Rightarrow> Inr (Some w))) s'"
    using s'(1)
    by (auto intro!: answers_return answers_bind [OF receipt] answers_throw answers_bind_error [OF answers_unwrap(2)]
        answers_bind [OF answers_unwrap(1)] split: option.split)
qed

lemma tx_at_position_answers:
  assumes "valid s" and "unat position < 2 ^ 64"
    and "answers valid view op (Inr (Some b)) s" and "unat position < length (bk_tx_hashes b)"
  shows "snd (tx_at_position W A op position s) = snd (rpc_get_transaction_by_hash W A (bk_tx_hashes b ! unat position) s)"
proof -
  have i: "unat (ucast position :: u64) = unat position"
    using assms(2) by (simp add: unsigned_ucast_eq unsigned_take_bit_eq take_bit_nat_eq_self)
  have "answers valid view (rpc_get_transaction_by_hash W A h) (snd (rpc_get_transaction_by_hash W A h s)) s'"
    if "valid s'" "view s' = view s" for s' h
    using get_transaction_answers [OF that(1), of W h] that(2) answers_snd [OF get_transaction_answers [OF assms(1), of W h]]
    by simp
  then have "answers valid view (tx_at_position W A op position)
      (snd (rpc_get_transaction_by_hash W A (bk_tx_hashes b ! unat position) s)) s"
    unfolding tx_at_position_def Let_def i
    using assms(2,4) by (auto intro!: answers_bind [OF answers_custom [OF assms(3)]])
  then show ?thesis by (rule answers_snd)
qed

end

section \<open>A node with two blocks\<close>

definition api_receipt :: receipt where
  "api_receipt =
     \<lparr>rc_tx_hash = 7, rc_block_number = 1, rc_block_hash = 1, rc_tx_index = 0, rc_state_root = 0, rc_used_gas = 9,
      rc_logs_bloom = 0,
      rc_logs = [\<lparr>log_address = 5, log_topics = [11, 12], log_data = [1]\<rparr>, \<lparr>log_address = 5, log_topics = [13], log_data = [2]\<rparr>],
      rc_code_address = None, rc_sender = 2, rc_ret = Succeed Stopped\<rparr>"

definition api_senv :: storage_env where
  "api_senv =
     sample_senv\<lparr>se_block := (\<lambda>_. [1], \<lambda>bs. Inr (if bs = [0] then sample_block 0 [] else sample_block 1 [7])),
       se_header := (\<lambda>_. [1], \<lambda>bs. Inr (if bs = [0] then sample_header 0 else sample_header 1)),
       se_stx := (\<lambda>_. [4], \<lambda>_. Inr (sample_stx 7 2 3 4)), se_receipt := (\<lambda>_. [5], \<lambda>_. Inr api_receipt)\<rparr>"

definition filed_seven :: bytes where
  "filed_seven = common_hash_key_encode (common_hash_key_new 1 7)"

definition api_iter :: "category \<Rightarrow> category" where
  "api_iter m = (case map_of m filed_seven of None \<Rightarrow> [] | Some v \<Rightarrow> [(filed_seven, v)])"

definition api_db :: mem_db where
  "api_db =
     [CatBlock \<mapsto> [(common_prefix_new 0, [0]), (common_prefix_new 1, [1]), (160 # to_be_bytes 32 (1000 :: hash), [1])],
      CatBlockHeader \<mapsto> [(common_prefix_new 0, [0]), (common_prefix_new 1, [1])],
      CatHashHeight \<mapsto> [(160 # to_be_bytes 32 (1 :: hash), to_be_bytes 8 (1 :: u64)), (160 # to_be_bytes 32 (7 :: hash), to_be_bytes 8 (1 :: u64))],
      CatSignedTransaction \<mapsto> [(filed_seven, [4])],
      CatReceipt \<mapsto> [(filed_seven, [5])]]"

definition sample_api_env :: "(mem_db, (bytes \<rightharpoonup> bytes) list, bytes \<rightharpoonup> bytes) consensus_env" where
  "sample_api_env =
     sample_consensus_env\<lparr>ce_mempool := sample_mempool_env\<lparr>mp_adapter := memory_adapter api_iter, mp_storage := api_senv\<rparr>\<rparr>"

definition sample_api_node :: "(mem_db, (bytes \<rightharpoonup> bytes) list, unit, unit) api_node" where
  "sample_api_node =
     chain_node.extend (sample_chain_node\<lparr>nd_storage := storage_new api_db\<rparr>)
       \<lparr>an_online = \<lparr>on_peers = [], on_dialing = [], on_feeler = []\<rparr>\<rparr>"

lemma sample_api_simps [simp]:
  "ce_adapter sample_api_env = memory_adapter api_iter" "ce_store sample_api_env = api_senv"
  "nd_storage sample_api_node = storage_new api_db" "is_db (storage_new d) = d"
  by (simp_all add: sample_api_env_def sample_api_node_def chain_node.extend_def storage_new_def)

lemma api_senv_simps [simp]:
  "snd (se_block api_senv) bs = Inr (if bs = [0] then sample_block 0 [] else sample_block 1 [7])"
  "snd (se_header api_senv) bs = Inr (if bs = [0] then sample_header 0 else sample_header 1)"
  "snd (se_stx api_senv) bs = Inr (sample_stx 7 2 3 4)" "snd (se_receipt api_senv) bs = Inr api_receipt"
  "snd (se_u64 api_senv) bs = Inr (from_be_bytes bs)" "se_hash_key api_senv h = 160 # to_be_bytes 32 h"
  "se_latest_block_key api_senv = 1000" "lru_ok api_senv"
  by (simp_all add: api_senv_def sample_senv_def sample_env_def lru_ok_def)

lemma prefix_not_hash_key [simp]: "common_prefix_new n \<noteq> 160 # to_be_bytes 32 (h :: hash)" "160 # to_be_bytes 32 (h :: hash) \<noteq> common_prefix_new n"
  by (auto dest: arg_cong [where f = length])

lemma sample_api_inv: "api_inv sample_api_env mem_view sample_api_node"
proof -
  have ok: "is_ok (read_val (\<lambda>bs. Inr (f bs)) x)" for f :: "bytes \<Rightarrow> 'a" and x by (simp add: read_val_def split: option.split)
  have dec: "snd (se_block api_senv) = (\<lambda>bs. Inr (if bs = [0] then sample_block 0 [] else sample_block 1 [7]))"
    "snd (se_header api_senv) = (\<lambda>bs. Inr (if bs = [0] then sample_header 0 else sample_header 1))"
    "snd (se_stx api_senv) = (\<lambda>bs. Inr (sample_stx 7 2 3 4))" "snd (se_receipt api_senv) = (\<lambda>bs. Inr api_receipt)"
    "snd (se_u64 api_senv) = (\<lambda>bs. Inr (from_be_bytes bs))" by (auto simp: fun_eq_iff)
  have "readable api_senv V" if "V CatBlock (160 # to_be_bytes 32 (1000 :: hash)) \<noteq> None" for V
    using that ok
    by (auto simp: readable_def spec_block_def spec_header_def spec_by_hash_def spec_at_def spec_number_def
        spec_latest_block_def dec read_val_def split: option.split)
  then have "readable api_senv (mem_view api_db)" by (simp add: mem_view_def mem_entry_def api_db_def)
  moreover have "scans (memory_adapter api_iter) mem_view (mem_view api_db)"
    unfolding scans_def
  proof (intro allI impI)
    fix d n assume d: "mem_view d = mem_view api_db"
    let ?d' = "d(CatReceipt \<mapsto> mem_entry CatReceipt d)"
    have view: "mem_view ?d' = mem_view d" by (auto simp: mem_view_entry)
    have entry: "map_of (mem_entry CatReceipt d) = [filed_seven \<mapsto> [5]]"
      using fun_cong [OF d, of CatReceipt] by (simp add: mem_view_entry) (simp add: mem_view_def mem_entry_def api_db_def)
    have "prefix_first (mem_view api_db) CatReceipt n [(filed_seven, [5])]"
    proof (cases "n = 1")
      case True
      then show ?thesis
        unfolding prefix_first_def
        by (intro exI [of _ "[(7, [5])]"] exI [of _ "[]"])
          (simp add: filed_entry_def filed_seven_def other_height_def mem_view_def mem_entry_def api_db_def)
    next
      case False
      then show ?thesis
        unfolding prefix_first_def
        by (intro exI [of _ "[]"] exI [of _ "[(filed_seven, [5])]"])
          (simp add: filed_seven_def other_height_def mem_view_def mem_entry_def api_db_def)
    qed
    then show "\<exists>d' entries. ad_iter (memory_adapter api_iter) CatReceipt (common_prefix_new n) d = (d', Inr entries) \<and>
        prefix_first (mem_view api_db) CatReceipt n entries \<and> mem_view d' = mem_view api_db"
      using view d entry
      by (intro exI [of _ ?d'] exI [of _ "[(filed_seven, [5])]"]) (simp add: memory_adapter_def mem_prepare_iter_def api_iter_def)
  qed
  ultimately show ?thesis by (simp add: api_inv_def mem.kv_adapter_axioms coherent_new)
qed

lemma sample_api_view:
  "cv_latest (api_view sample_api_env mem_view sample_api_node) = sample_block 1 [7]"
  "cv_block (api_view sample_api_env mem_view sample_api_node) n =
     (if n = 0 then Some (sample_block 0 []) else if n = 1 then Some (sample_block 1 [7]) else None)"
  "cv_header (api_view sample_api_env mem_view sample_api_node) n =
     (if n = 0 then Some (sample_header 0) else if n = 1 then Some (sample_header 1) else None)"
  by (simp_all add: api_view_def view_of_def spec_latest_block_def spec_block_def spec_header_def read_val_def mem_view_def
      mem_entry_def api_db_def)

lemma sample_api_by_hash:
  assumes "cv_by_hash (api_view sample_api_env mem_view sample_api_node) h = Some b"
  shows "b = sample_block 1 [7]"
  using assms
  by (auto simp: api_view_def view_of_def spec_by_hash_def spec_number_def spec_block_def read_val_def mem_view_def
      mem_entry_def api_db_def be_bytes_roundtrip split: if_splits)

lemma sample_chain_ok: "chain_ok (api_view sample_api_env mem_view sample_api_node)"
  by (auto simp: chain_ok_def latest_number_def sample_api_view word_less_nat_alt unat_gt_0 dest: sample_api_by_hash split: if_splits)

section \<open>Properties\<close>

text \<open>
  Property C21. What \<open>eth_getLogs\<close> answers on a node with a coherent storage and a complete
  chain: for a block hash the logs of that block or an error; for a range that ends at or
  below the latest block the logs of its blocks in order of height, each numbered by its
  position in the block; for a range that starts above the latest block an error; and for a
  range that ends above it a panic. The answer leaves the node as it was.
\<close>

theorem get_logs_exact:
  assumes "api_inv E dbview s" and "chain_ok (api_view E dbview s)"
  shows "\<exists>s'. rpc_get_logs (default_api_adapter E) f s = (s', spec_get_logs (api_view E dbview s) f) \<and>
    api_inv E dbview s' \<and> api_view E dbview s' = api_view E dbview s"
  using api.get_logs_answers [OF assms] by (simp add: answers_def)

theorem get_logs_exact_witness:
  "\<exists>s'. rpc_get_logs (default_api_adapter sample_api_env)
      \<lparr>wf_from_block = Some (BlockNum 0), wf_to_block = Some Latest, wf_block_hash = None, wf_address = MtNull, wf_topics = None\<rparr>
      sample_api_node =
    (s', Inr (concat (map (\<lambda>n. block_logs (api_view sample_api_env mem_view sample_api_node) None []
       (block_at (api_view sample_api_env mem_view sample_api_node) n)) [0, 1])))"
proof -
  have "inclusive 0 1 = [0, 1]" by (simp add: inclusive_def)
  then show ?thesis
    using get_logs_exact [OF sample_api_inv sample_chain_ok, of
        "\<lparr>wf_from_block = Some (BlockNum 0), wf_to_block = Some Latest, wf_block_hash = None, wf_address = MtNull, wf_topics = None\<rparr>"]
    by (auto simp: spec_get_logs_def range_logs_def convert_id_def latest_number_def sample_api_view)
qed

text \<open>
  Logs are reported once for each topic: without a filter a receipt gives as many
  entries as its logs have topics, so that a log without topics is never reported; and every
  log with a topic is reported under the number of the first log of its receipt.
\<close>

theorem logs_reported_per_topic:
  "length (from_receipt_to_web3_log index [] r) = sum_list (map (length \<circ> log_topics) (rc_logs r)) \<and>
   (\<forall>log \<in> set (rc_logs r). log_topics log \<noteq> [] \<longrightarrow>
      (\<exists>w \<in> set (from_receipt_to_web3_log index [] r).
         lg_topics w = log_topics log \<and> lg_data w = log_data log \<and> lg_log_index w = Some (word_of_nat index)))"
proof
  show "length (from_receipt_to_web3_log index [] r) = sum_list (map (length \<circ> log_topics) (rc_logs r))"
    by (simp add: from_receipt_to_web3_log_def length_concat comp_def)
  show "\<forall>log \<in> set (rc_logs r). log_topics log \<noteq> [] \<longrightarrow>
      (\<exists>w \<in> set (from_receipt_to_web3_log index [] r).
         lg_topics w = log_topics log \<and> lg_data w = log_data log \<and> lg_log_index w = Some (word_of_nat index))"
  proof (intro ballI impI)
    fix log assume log: "log \<in> set (rc_logs r)" "log_topics log \<noteq> []"
    let ?w = "\<lparr>lg_address = rc_sender r, lg_topics = log_topics log, lg_data = log_data log,
      lg_block_hash = Some (rc_block_hash r), lg_block_number = Some (ucast (rc_block_number r)),
      lg_transaction_hash = Some (rc_tx_hash r), lg_transaction_index = Some (ucast (rc_tx_index r)),
      lg_log_index = Some (word_of_nat index), lg_removed = False\<rparr>"
    have "(0, hd (log_topics log)) \<in> set (enumerate 0 (log_topics log))"
      using log(2) by (cases "log_topics log") simp_all
    then have "?w \<in> set (from_receipt_to_web3_log index [] r)"
      using log(1) unfolding from_receipt_to_web3_log_def set_concat set_map
      by (intro UN_I [OF imageI]) (auto intro: rev_image_eqI)
    then show "\<exists>w \<in> set (from_receipt_to_web3_log index [] r).
        lg_topics w = log_topics log \<and> lg_data w = log_data log \<and> lg_log_index w = Some (word_of_nat index)"
      by (rule bexI [rotated]) simp
  qed
qed

theorem logs_reported_per_topic_witness:
  "length (from_receipt_to_web3_log 4 [] api_receipt) = 3 \<and>
   (\<exists>w \<in> set (from_receipt_to_web3_log 4 [] api_receipt). lg_data w = [2] \<and> lg_log_index w = Some 4)"
proof
  show "length (from_receipt_to_web3_log 4 [] api_receipt) = 3"
    using conjunct1 [OF logs_reported_per_topic [of 4 api_receipt]] by (simp add: api_receipt_def)
  have "\<lparr>log_address = 5, log_topics = [13], log_data = [2]\<rparr> \<in> set (rc_logs api_receipt)" by (simp add: api_receipt_def)
  from bspec [OF conjunct2 [OF logs_reported_per_topic [of 4 api_receipt]] this]
  show "\<exists>w \<in> set (from_receipt_to_web3_log 4 [] api_receipt). lg_data w = [2] \<and> lg_log_index w = Some 4" by auto
qed

text \<open>
  The look-ups of a transaction agree: by the hash or the number of its block
  and its position there they answer exactly what the look-up by its own hash answers, and
  that is what the database holds for the transaction and its receipt.
\<close>

theorem transaction_lookups_agree:
  assumes "api_inv E dbview s" and "cv_block (api_view E dbview s) n = Some b" and "cv_by_hash (api_view E dbview s) h = Some b"
    and "unat i < length (bk_tx_hashes b)" and "unat i < 2 ^ 64"
  shows "snd (rpc_get_transaction_by_block_number_and_index W (default_api_adapter E) (BlockNum n) i s) =
      snd (rpc_get_transaction_by_hash W (default_api_adapter E) (bk_tx_hashes b ! unat i) s) \<and>
    snd (rpc_get_transaction_by_block_hash_and_index W (default_api_adapter E) h i s) =
      snd (rpc_get_transaction_by_hash W (default_api_adapter E) (bk_tx_hashes b ! unat i) s) \<and>
    (\<forall>stx r w. cv_tx (api_view E dbview s) (bk_tx_hashes b ! unat i) = Some stx \<longrightarrow>
       cv_receipt (api_view E dbview s) (bk_tx_hashes b ! unat i) = Some r \<longrightarrow>
       web3_transaction_create (w3_rlp W) r stx = Some w \<longrightarrow>
       snd (rpc_get_transaction_by_hash W (default_api_adapter E) (bk_tx_hashes b ! unat i) s) = Inr (Some w))"
proof (intro conjI)
  show "snd (rpc_get_transaction_by_block_number_and_index W (default_api_adapter E) (BlockNum n) i s) =
      snd (rpc_get_transaction_by_hash W (default_api_adapter E) (bk_tx_hashes b ! unat i) s)"
    using api.tx_at_position_answers [OF assms(1,5) _ assms(4), of "aa_get_block_by_number (default_api_adapter E) (Some n)" W]
      api.read_block [OF assms(1), of n] assms(2)
    by (simp add: rpc_get_transaction_by_block_number_and_index_def block_id_number_def)
  show "snd (rpc_get_transaction_by_block_hash_and_index W (default_api_adapter E) h i s) =
      snd (rpc_get_transaction_by_hash W (default_api_adapter E) (bk_tx_hashes b ! unat i) s)"
    using api.tx_at_position_answers [OF assms(1,5) _ assms(4), of "aa_get_block_by_hash (default_api_adapter E) h" W]
      api.read_by_hash [OF assms(1), of h] assms(3)
    by (simp add: rpc_get_transaction_by_block_hash_and_index_def)
qed (use answers_snd [OF api.get_transaction_answers [OF assms(1), of W "bk_tx_hashes b ! unat i"]] in simp)

definition sample_web3_env :: web3_env where
  "sample_web3_env =
     \<lparr>w3_rlp = sample_rlp_lib, w3_rlp_in = (\<lambda>_. Inl RlpIncorrectListLen), w3_keccak = (\<lambda>_. replicate 32 0),
      w3_recover = (\<lambda>_ _. None), w3_version = ''1''\<rparr>"

theorem transaction_lookups_agree_witness:
  "snd (rpc_get_transaction_by_block_number_and_index sample_web3_env (default_api_adapter sample_api_env) (BlockNum 1) 0 sample_api_node) =
     snd (rpc_get_transaction_by_hash sample_web3_env (default_api_adapter sample_api_env) 7 sample_api_node) \<and>
   snd (rpc_get_transaction_by_block_hash_and_index sample_web3_env (default_api_adapter sample_api_env) 1 0 sample_api_node) =
     snd (rpc_get_transaction_by_hash sample_web3_env (default_api_adapter sample_api_env) 7 sample_api_node)"
proof -
  have "cv_block (api_view sample_api_env mem_view sample_api_node) 1 = Some (sample_block 1 [7])"
    by (simp add: sample_api_view)
  moreover have "cv_by_hash (api_view sample_api_env mem_view sample_api_node) 1 = Some (sample_block 1 [7])"
    by (simp add: api_view_def view_of_def spec_by_hash_def spec_number_def spec_block_def read_val_def mem_view_def
        mem_entry_def api_db_def be_bytes_roundtrip)
  ultimately show ?thesis
    using transaction_lookups_agree [OF sample_api_inv, of 1 "sample_block 1 [7]" 1 0 sample_web3_env] by simp
qed

end
