(* ===== verification/Api_Filter.thy ===== *)
theory Api_Filter
  imports Json_Rpc
begin

text \<open>
  The filters of the JSON-RPC interface (\<open>core/api/src/jsonrpc/filter.rs\<close>): one task, the hub,
  keeps the installed filters and answers the commands that the handlers send it over a
  channel. Times are milliseconds; the current time, and whether the asking handler still
  waits for its answer, are arguments. A panic ends the task and with it every later request.
\<close>

section \<open>The hub\<close>

datatype filter_changes = ChangedBlocks "hash list" | ChangedLogs "web3_log list"

record raw_logger_filter =
  rf_from_block :: "block_id option"
  rf_to_block :: "block_id option"
  rf_address :: "h160 multi_type"
  rf_topics :: "hash list option"

record logger_filter =
  lf_from_block :: "block_id option"
  lf_to_block :: "block_id option"
  lf_address :: "h160 list option"
  lf_topics :: "hash list option"

definition logger_filter_from :: "raw_logger_filter \<Rightarrow> logger_filter" where
  "logger_filter_from src =
     \<lparr>lf_from_block = rf_from_block src, lf_to_block = rf_to_block src, lf_address = multi_option (rf_address src),
      lf_topics = rf_topics src\<rparr>"

datatype hub_command =
    NewLogs logger_filter
  | NewBlocks
  | FilterRequest u256
  | Uninstall u256

datatype hub_reply =
    ReplyId u256
  | ReplyChanges "rpc_error + filter_changes"
  | ReplyRemoved bool

record filter_hub =
  fh_logs :: "(u256 \<times> logger_filter \<times> nat) list"
  fh_blocks :: "(u256 \<times> u64 \<times> nat) list"
  fh_id :: u64

text \<open>An operation of a task with its own state \<open>'h\<close> beside the node.\<close>

type_synonym ('h, 's, 'v) task_op = "('h \<times> 's, rpc_error, 'v) st"
type_synonym ('s, 'v) hub_op = "(filter_hub, 's, 'v) task_op"

definition filter_hub_new :: filter_hub where
  "filter_hub_new = \<lparr>fh_logs = [], fh_blocks = [], fh_id = 0\<rparr>"

definition on_adapter :: "('s, 'v) rpc_op \<Rightarrow> ('h, 's, 'v) task_op" where
  "on_adapter op hs = (case op (snd hs) of (s', r) \<Rightarrow> ((fst hs, s'), r))"

definition modify_hub :: "(filter_hub \<Rightarrow> filter_hub) \<Rightarrow> ('s, unit) hub_op" where
  "modify_hub f = st_modify (\<lambda>(h, s). (f h, s))"

text \<open>\<open>await.unwrap().unwrap()\<close>.\<close>

definition unwrap_read :: "('s, api_error, 'v option) st \<Rightarrow> ('h, 's, 'v) task_op" where
  "unwrap_read op hs =
     (case op (snd hs) of
        (s', Inr (Some v)) \<Rightarrow> ((fst hs, s'), Inr v)
      | (s', _) \<Rightarrow> ((fst hs, s'), Inl RpcPanic))"

definition FILTER_TIMEOUT :: nat where
  "FILTER_TIMEOUT = 40000"

definition check_hubs :: "nat \<Rightarrow> filter_hub \<Rightarrow> filter_hub" where
  "check_hubs now h =
     h\<lparr>fh_blocks := filter (\<lambda>(_, _, time). now - time < FILTER_TIMEOUT) (fh_blocks h),
       fh_logs := filter (\<lambda>(_, _, time). now - time < FILTER_TIMEOUT) (fh_logs h)\<rparr>"

definition filter_block :: "web3_env \<Rightarrow> 's api_adapter \<Rightarrow> nat \<Rightarrow> u256 \<Rightarrow> ('s, hash list) hub_op" where
  "filter_block W A now i =
     st_bind (st_gets (\<lambda>hs. map_of (fh_blocks (fst hs)) i)) (\<lambda>entry.
     st_bind (st_lift (ok_or RpcPanic entry)) (\<lambda>(start, time).
     st_bind (unwrap_read (aa_get_block_header_by_number A None)) (\<lambda>latest.
     st_bind (st_lift (ok_or RpcPanic (checked_sub (hd_number latest) start))) (\<lambda>_.
     st_bind (st_lift (ok_or RpcPanic (checked_add start 1))) (\<lambda>first.
     st_bind (st_map (\<lambda>number.
         st_bind (unwrap_read (aa_get_block_header_by_number A (Some number))) (\<lambda>header.
           st_return (header_hash_of W header)))
       (map word_of_nat [unat first..<unat (hd_number latest)])) (\<lambda>block_hashes.
       st_seq (modify_hub (\<lambda>h. h\<lparr>fh_blocks := AList.update i (hd_number latest, now) (fh_blocks h)\<rparr>))
         (st_return (block_hashes @ [header_hash_of W latest]))))))))"

text \<open>The loops over the range are those of \<open>eth_getLogs\<close>.\<close>

definition filter_logs :: "'s api_adapter \<Rightarrow> nat \<Rightarrow> u256 \<Rightarrow> ('s, web3_log list) hub_op" where
  "filter_logs A now i =
     st_bind (st_gets (\<lambda>hs. map_of (fh_logs (fst hs)) i)) (\<lambda>entry.
     st_bind (st_lift (ok_or RpcPanic entry)) (\<lambda>(f, time).
     st_bind (on_adapter (custom (aa_get_block_by_number A None))) (\<lambda>opt.
     st_bind (st_lift (ok_or RpcPanic opt)) (\<lambda>latest_block.
       let topics = (case lf_topics f of Some ts \<Rightarrow> ts | None \<Rightarrow> []);
           latest_number = hd_number (bk_header latest_block);
           start = convert_id latest_number (lf_from_block f);
           end = convert_id latest_number (lf_to_block f)
       in if latest_number < start then st_throw (InvalidFromBlock start)
          else
            st_bind (on_adapter (logs_of_range A latest_block start end topics (lf_address f))) (\<lambda>all_logs.
            st_bind (case lf_from_block f of
                Some (BlockNum _) \<Rightarrow>
                  st_bind (st_lift (ok_or RpcPanic (checked_add latest_number 1))) (\<lambda>n.
                    st_return (f\<lparr>lf_from_block := Some (BlockNum n)\<rparr>))
              | _ \<Rightarrow> st_return f) (\<lambda>f.
              st_seq (modify_hub (\<lambda>h. h\<lparr>fh_logs := AList.update i (f, now) (fh_logs h)\<rparr>))
                (st_return all_logs)))))))"

text \<open>A failed poll of logs removes the filter; a panic is no result and ends the task.\<close>

definition impl_filter :: "web3_env \<Rightarrow> 's api_adapter \<Rightarrow> nat \<Rightarrow> u256 \<Rightarrow> ('s, rpc_error + filter_changes) hub_op" where
  "impl_filter W A now i hs =
     (if map_of (fh_blocks (fst hs)) i \<noteq> None then
        st_bind (filter_block W A now i) (\<lambda>bs. st_return (Inr (ChangedBlocks bs))) hs
      else if map_of (fh_logs (fst hs)) i \<noteq> None then
        (case filter_logs A now i hs of
           ((h, s), Inl e) \<Rightarrow>
             if e = RpcPanic then ((h, s), Inl RpcPanic)
             else ((h\<lparr>fh_logs := AList.delete i (fh_logs h)\<rparr>, s), Inr (Inl e))
         | (hs', Inr logs) \<Rightarrow> (hs', Inr (Inr (ChangedLogs logs))))
      else (hs, Inr (Inl (FilterNotFound i))))"

definition fresh_id :: "('s, u256) hub_op" where
  "fresh_id =
     st_bind (st_gets (\<lambda>hs. checked_add (fh_id (fst hs)) 1)) (\<lambda>opt.
     st_bind (st_lift (ok_or RpcPanic opt)) (\<lambda>n.
       st_seq (modify_hub (\<lambda>h. h\<lparr>fh_id := n\<rparr>)) (st_return (ucast n))))"

definition send_reply :: "bool \<Rightarrow> 'v \<Rightarrow> ('s, 'v) hub_op" where
  "send_reply alive v = (if alive then st_return v else st_throw RpcPanic)"

definition hub_handle :: "web3_env \<Rightarrow> 's api_adapter \<Rightarrow> nat \<Rightarrow> bool \<Rightarrow> hub_command \<Rightarrow> ('s, hub_reply) hub_op" where
  "hub_handle W A now alive cmd =
     (case cmd of
        NewLogs f \<Rightarrow>
          st_bind fresh_id (\<lambda>i.
          st_seq (modify_hub (\<lambda>h. h\<lparr>fh_logs := AList.update i (f, now) (fh_logs h)\<rparr>))
            (send_reply alive (ReplyId i)))
      | NewBlocks \<Rightarrow>
          st_bind fresh_id (\<lambda>i.
          st_bind (unwrap_read (aa_get_block_header_by_number A None)) (\<lambda>header.
          st_seq (modify_hub (\<lambda>h. h\<lparr>fh_blocks := AList.update i (hd_number header, now) (fh_blocks h)\<rparr>))
            (send_reply alive (ReplyId i))))
      | FilterRequest i \<Rightarrow> st_bind (impl_filter W A now i) (\<lambda>res. send_reply alive (ReplyChanges res))
      | Uninstall i \<Rightarrow>
          st_bind (st_gets (\<lambda>hs. (map_of (fh_blocks (fst hs)) i \<noteq> None, map_of (fh_logs (fst hs)) i \<noteq> None))) (\<lambda>(in_blocks, in_logs).
          st_seq (modify_hub (\<lambda>h. if in_blocks then h\<lparr>fh_blocks := AList.delete i (fh_blocks h)\<rparr>
                                  else h\<lparr>fh_logs := AList.delete i (fh_logs h)\<rparr>))
            (send_reply alive (ReplyRemoved (in_blocks \<or> in_logs)))))"

section \<open>The handlers\<close>

text \<open>A request to the task behind the channel; \<open>None\<close> is a task that has ended.\<close>

definition hub_request ::
  "web3_env \<Rightarrow> 's api_adapter \<Rightarrow> nat \<Rightarrow> bool \<Rightarrow> hub_command \<Rightarrow> (filter_hub option \<times> 's, rpc_error, hub_reply) st" where
  "hub_request W A now alive cmd hs =
     (case fst hs of
        None \<Rightarrow> (hs, Inl ChannelClosed)
      | Some h \<Rightarrow>
          (case hub_handle W A now alive cmd (h, snd hs) of
             ((h', s'), Inr r) \<Rightarrow> ((Some h', s'), Inr r)
           | ((h', s'), Inl _) \<Rightarrow> ((None, s'), Inl RpcPanic)))"

definition new_filter ::
  "web3_env \<Rightarrow> 's api_adapter \<Rightarrow> nat \<Rightarrow> raw_logger_filter \<Rightarrow> (filter_hub option \<times> 's, rpc_error, u256) st" where
  "new_filter W A now f =
     st_bind (hub_request W A now True (NewLogs (logger_filter_from f))) (\<lambda>r.
       case r of ReplyId i \<Rightarrow> st_return i | _ \<Rightarrow> st_throw RpcPanic)"

definition block_filter :: "web3_env \<Rightarrow> 's api_adapter \<Rightarrow> nat \<Rightarrow> (filter_hub option \<times> 's, rpc_error, u256) st" where
  "block_filter W A now =
     st_bind (hub_request W A now True NewBlocks) (\<lambda>r.
       case r of ReplyId i \<Rightarrow> st_return i | _ \<Rightarrow> st_throw RpcPanic)"

definition get_filter_changes ::
  "web3_env \<Rightarrow> 's api_adapter \<Rightarrow> nat \<Rightarrow> u256 \<Rightarrow> (filter_hub option \<times> 's, rpc_error, filter_changes) st" where
  "get_filter_changes W A now i =
     st_bind (hub_request W A now True (FilterRequest i)) (\<lambda>r.
       case r of ReplyChanges res \<Rightarrow> st_lift res | _ \<Rightarrow> st_throw RpcPanic)"

definition get_filter_logs ::
  "web3_env \<Rightarrow> 's api_adapter \<Rightarrow> nat \<Rightarrow> u256 \<Rightarrow> (filter_hub option \<times> 's, rpc_error, filter_changes) st" where
  "get_filter_logs W A now i =
     st_bind (hub_request W A now True (FilterRequest i)) (\<lambda>r.
       case r of ReplyChanges res \<Rightarrow> st_lift res | _ \<Rightarrow> st_throw RpcPanic)"

definition uninstall_filter ::
  "web3_env \<Rightarrow> 's api_adapter \<Rightarrow> nat \<Rightarrow> u256 \<Rightarrow> (filter_hub option \<times> 's, rpc_error, bool) st" where
  "uninstall_filter W A now i =
     st_bind (hub_request W A now True (Uninstall i)) (\<lambda>r.
       case r of ReplyRemoved b \<Rightarrow> st_return b | _ \<Rightarrow> st_throw RpcPanic)"

section \<open>Identifiers\<close>

definition hub_keys :: "filter_hub \<Rightarrow> u256 set" where
  "hub_keys h = fst ` set (fh_logs h) \<union> fst ` set (fh_blocks h)"

text \<open>Every identifier was given out, and belongs to one filter.\<close>

definition hub_ok :: "filter_hub \<Rightarrow> bool" where
  "hub_ok h \<longleftrightarrow>
     distinct (map fst (fh_logs h)) \<and> distinct (map fst (fh_blocks h)) \<and>
     fst ` set (fh_logs h) \<inter> fst ` set (fh_blocks h) = {} \<and> (\<forall>i \<in> hub_keys h. unat i \<le> unat (fh_id h))"

inductive hub_reach :: "web3_env \<Rightarrow> 's api_adapter \<Rightarrow> filter_hub \<Rightarrow> bool" for W A where
  hub_start: "hub_reach W A filter_hub_new"
| hub_step: "hub_reach W A h \<Longrightarrow> hub_handle W A now alive cmd (h, s) = ((h', s'), Inr r) \<Longrightarrow> hub_reach W A h'"
| hub_tick: "hub_reach W A h \<Longrightarrow> hub_reach W A (check_hubs now h)"

lemma keeps_hub_read [frame_intros]: "keeps fst (unwrap_read op)" "keeps fst (on_adapter op')"
  by (auto simp: keeps_def unwrap_read_def on_adapter_def split: prod.splits sum.splits option.splits)

lemma hub_ok_filter:
  "hub_ok h \<Longrightarrow> hub_ok (h\<lparr>fh_blocks := filter P (fh_blocks h), fh_logs := filter Q (fh_logs h)\<rparr>)"
  by (auto simp: hub_ok_def hub_keys_def distinct_map_filter)

lemma hub_ok_delete:
  "hub_ok h \<Longrightarrow> hub_ok (h\<lparr>fh_logs := AList.delete i (fh_logs h)\<rparr>)"
  "hub_ok h \<Longrightarrow> hub_ok (h\<lparr>fh_blocks := AList.delete i (fh_blocks h)\<rparr>)"
  by (auto simp: hub_ok_def hub_keys_def AList.delete_eq distinct_map_filter)

lemma hub_ok_update_known:
  "hub_ok h \<Longrightarrow> map_of (fh_blocks h) i \<noteq> None \<Longrightarrow> hub_ok (h\<lparr>fh_blocks := AList.update i v (fh_blocks h)\<rparr>)"
  "hub_ok h \<Longrightarrow> map_of (fh_logs h) i \<noteq> None \<Longrightarrow> hub_ok (h\<lparr>fh_logs := AList.update i w (fh_logs h)\<rparr>)"
  by (auto simp: hub_ok_def hub_keys_def alist_update_facts(1,2) map_of_eq_None_iff insert_absorb)

lemma hub_ok_update_fresh:
  assumes "hub_ok h" and "checked_add (fh_id h) 1 = Some n"
  shows "ucast n \<notin> hub_keys h"
    and "hub_ok (h\<lparr>fh_id := n, fh_logs := AList.update (ucast n) w (fh_logs h)\<rparr>)"
    and "hub_ok (h\<lparr>fh_id := n, fh_blocks := AList.update (ucast n) v (fh_blocks h)\<rparr>)"
    and "hub_ok (h\<lparr>fh_id := n\<rparr>)"
proof -
  have n: "unat n = unat (fh_id h) + 1" using assms(2) by (auto simp: checked_add_unat)
  have u: "unat (ucast n :: u256) = unat n"
    using unat_bound [of n] by (simp add: unsigned_ucast_eq take_bit_nat_eq_self)
  have le: "unat i \<le> unat (fh_id h)" if "i \<in> hub_keys h" for i using assms(1) that by (simp add: hub_ok_def)
  show new: "ucast n \<notin> hub_keys h" using le [of "ucast n"] n u by auto
  show "hub_ok (h\<lparr>fh_id := n, fh_logs := AList.update (ucast n) w (fh_logs h)\<rparr>)"
    using assms(1) new le n u by (auto simp: hub_ok_def hub_keys_def alist_update_facts(1,2) le_SucI)
  show "hub_ok (h\<lparr>fh_id := n, fh_blocks := AList.update (ucast n) v (fh_blocks h)\<rparr>)"
    using assms(1) new le n u by (auto simp: hub_ok_def hub_keys_def alist_update_facts(1,2) le_SucI)
  show "hub_ok (h\<lparr>fh_id := n\<rparr>)" using assms(1) n by (auto simp: hub_ok_def hub_keys_def le_SucI)
qed

lemma preserves_prod [inv_intros]: "(\<And>a b. preserves P (f a b)) \<Longrightarrow> preserves P (case x of (a, b) \<Rightarrow> f a b)"
  by (cases x) simp

lemma preserves_block_id [inv_intros]:
  "(\<And>n. preserves P (f n)) \<Longrightarrow> preserves P g \<Longrightarrow> preserves P (case x of BlockNum n \<Rightarrow> f n | Latest \<Rightarrow> g)"
  by (cases x) simp_all

lemma keeps_preserves: "keeps fst m \<Longrightarrow> preserves (\<lambda>hs. Q (fst hs)) m"
  by (simp add: keeps_def preserves_def)

lemmas preserves_hub_read = keeps_hub_read [THEN keeps_preserves]

lemma preserves_modify_hub:
  "(\<And>h. Q h \<Longrightarrow> Q (f h)) \<Longrightarrow> preserves (\<lambda>hs. Q (fst hs)) (modify_hub f)"
  by (auto simp: preserves_def modify_hub_def)

lemma preserves_filter_block:
  "preserves (\<lambda>hs. hub_ok (fst hs) \<and> map_of (fh_blocks (fst hs)) i \<noteq> None) (filter_block W A now i)"
  unfolding filter_block_def
  by (intro inv_intros preserves_hub_read [where Q = "\<lambda>h. hub_ok h \<and> map_of (fh_blocks h) i \<noteq> None"]
      preserves_modify_hub [where Q = "\<lambda>h. hub_ok h \<and> map_of (fh_blocks h) i \<noteq> None"]) (simp add: hub_ok_update_known(1))

lemma preserves_filter_logs:
  "preserves (\<lambda>hs. hub_ok (fst hs) \<and> map_of (fh_logs (fst hs)) i \<noteq> None) (filter_logs A now i)"
  unfolding filter_logs_def Let_def
  by (intro inv_intros preserves_hub_read [where Q = "\<lambda>h. hub_ok h \<and> map_of (fh_logs h) i \<noteq> None"]
      preserves_modify_hub [where Q = "\<lambda>h. hub_ok h \<and> map_of (fh_logs h) i \<noteq> None"]) (simp add: hub_ok_update_known(2))

lemma preserves_impl_filter: "preserves (\<lambda>hs. hub_ok (fst hs)) (impl_filter W A now i)"
proof -
  have "hub_ok (fst hs')" if "hub_ok (fst hs)" "impl_filter W A now i hs = (hs', r)" for hs hs' r
  proof (cases "map_of (fh_blocks (fst hs)) i")
    case (Some e)
    then show ?thesis
      using that preservesD [OF preserves_filter_block, of hs i W A now]
      by (auto simp: impl_filter_def st_bind_apply split: prod.splits sum.splits)
  next
    case None
    have "hub_ok (fst hs1)" if "filter_logs A now i hs = (hs1, r1)" "map_of (fh_logs (fst hs)) i \<noteq> None" for hs1 r1
      using preservesD [OF preserves_filter_logs, of hs i A now hs1 r1] that \<open>hub_ok (fst hs)\<close> by simp
    moreover obtain h1 s1 r1 where "filter_logs A now i hs = ((h1, s1), r1)" by (metis prod.collapse)
    ultimately show ?thesis
      using None that by (cases r1) (auto simp: impl_filter_def hub_ok_delete split: if_splits)
  qed
  then show ?thesis unfolding preserves_def by (metis prod.collapse)
qed

text \<open>Handling a command keeps the hub sound, and only a new identifier is handed out.\<close>

lemma hub_handle_ok:
  assumes "hub_ok h" and "hub_handle W A now alive cmd (h, s) = ((h', s'), Inr r)"
  shows "hub_ok h'" and "r = ReplyId i \<Longrightarrow> i \<notin> hub_keys h \<and> i \<in> hub_keys h'"
proof -
  have fresh: "fresh_id (h, s) = (case checked_add (fh_id h) 1 of None \<Rightarrow> ((h, s), Inl RpcPanic)
      | Some n \<Rightarrow> ((h\<lparr>fh_id := n\<rparr>, s), Inr (ucast n)))"
    by (auto simp: fresh_id_def st_bind_apply st_seq_apply modify_hub_def split: option.split)
  note [simp] = hub_handle_def st_bind_apply st_seq_apply modify_hub_def send_reply_def
  have "hub_ok h' \<and> (r = ReplyId i \<longrightarrow> i \<notin> hub_keys h \<and> i \<in> hub_keys h')"
  proof (cases cmd)
    case (NewLogs f)
    with assms(2) obtain n where n: "checked_add (fh_id h) 1 = Some n" and alive
      by (cases "checked_add (fh_id h) 1"; cases alive) (simp_all add: fresh)
    with NewLogs assms(2) show ?thesis
      using hub_ok_update_fresh(1,2) [OF assms(1) n] by (auto simp: fresh hub_keys_def alist_update_facts(2))
  next
    case NewBlocks
    with assms(2) obtain n where n: "checked_add (fh_id h) 1 = Some n" and alive
      by (cases "checked_add (fh_id h) 1"; cases alive) (auto simp: fresh split: prod.splits sum.splits)
    with NewBlocks assms(2) show ?thesis
      using hub_ok_update_fresh(1,3) [OF assms(1) n]
      by (auto simp: fresh hub_keys_def alist_update_facts(2) unwrap_read_def split: prod.splits sum.splits option.splits)
  next
    case (FilterRequest k)
    obtain h1 s1 r1 where r1: "impl_filter W A now k (h, s) = ((h1, s1), r1)" by (metis prod.collapse)
    then have "hub_ok h1" using preservesD [OF preserves_impl_filter, of "(h, s)" W A now k] assms(1) by simp
    with FilterRequest assms(2) r1 show ?thesis by (auto split: sum.splits if_splits)
  next
    case (Uninstall k)
    with assms show ?thesis by (auto simp: hub_ok_delete split: if_splits)
  qed
  then show "hub_ok h'" and "r = ReplyId i \<Longrightarrow> i \<notin> hub_keys h \<and> i \<in> hub_keys h'" by auto
qed

lemma hub_reach_ok: "hub_reach W A h \<Longrightarrow> hub_ok h"
proof (induction rule: hub_reach.induct)
  case hub_start
  then show ?case by (simp add: hub_ok_def hub_keys_def filter_hub_new_def)
next
  case (hub_step h now alive cmd s h' s' r)
  show ?case by (rule hub_handle_ok(1) [OF hub_step.IH hub_step.hyps(2)])
next
  case (hub_tick h now)
  show ?case unfolding check_hubs_def by (rule hub_ok_filter [OF hub_tick.IH])
qed

section \<open>Polling\<close>

text \<open>The headers of the chain: \<open>H\<close> gives the header at each height up to the latest.\<close>

definition headers_are :: "(u64 \<Rightarrow> header) \<Rightarrow> chain_view \<Rightarrow> bool" where
  "headers_are H cv \<longleftrightarrow>
     (\<forall>n. n < latest_number cv \<longrightarrow> cv_header cv n = Some (H n)) \<and> bk_header (cv_latest cv) = H (latest_number cv)"

definition new_hashes :: "web3_env \<Rightarrow> (u64 \<Rightarrow> header) \<Rightarrow> u64 \<Rightarrow> u64 \<Rightarrow> hash list" where
  "new_hashes W H start latest = map (\<lambda>n. header_hash_of W (H (word_of_nat n))) [Suc (unat start)..<Suc (unat latest)]"

lemma answers_unwrap_read:
  assumes "answers valid view op (Inr (Some v)) s"
  shows "answers (\<lambda>hs. fst hs = h \<and> valid (snd hs)) (view \<circ> snd) (unwrap_read op) (Inr v) (h, s)"
proof -
  obtain s' where "op s = (s', Inr (Some v))" "valid s'" "view s' = view s" using assms by (auto simp: answers_def)
  then show ?thesis by (intro answersI [where s' = "(h, s')"]) (simp_all add: unwrap_read_def)
qed

lemma answers_on_adapter:
  assumes "answers valid view op v s"
  shows "answers (\<lambda>hs. fst hs = h \<and> valid (snd hs)) (view \<circ> snd) (on_adapter op) v (h, s)"
proof -
  obtain s' where "op s = (s', v)" "valid s'" "view s' = view s" using assms by (auto simp: answers_def)
  then show ?thesis by (intro answersI [where s' = "(h, s')"]) (simp_all add: on_adapter_def)
qed

lemma word_of_nat_less: "k < unat (n :: u64) \<Longrightarrow> word_of_nat k < n"
  using unat_bound [of n] by (simp add: word_less_nat_alt unat_of_nat)

lemma upt_append_le: "a \<le> b \<Longrightarrow> b \<le> c \<Longrightarrow> [a..<b] @ [b..<c] = [a..<c]"
  by (metis le_Suc_ex upt_add_eq_append)

context chain_reader
begin

lemma filter_block_poll:
  assumes s: "valid s" "headers_are H (view s)"
    and entry: "map_of (fh_blocks h) i = Some (start, time)"
    and le: "start \<le> latest_number (view s)" "unat start + 1 < 2 ^ 64"
  shows "\<exists>s'. filter_block W A now i (h, s) =
    ((h\<lparr>fh_blocks := AList.update i (latest_number (view s), now) (fh_blocks h)\<rparr>, s'),
     Inr (map (\<lambda>n. header_hash_of W (H (word_of_nat n))) [Suc (unat start)..<unat (latest_number (view s))] @
       [header_hash_of W (H (latest_number (view s)))])) \<and> valid s' \<and> view s' = view s"
proof -
  let ?P = "\<lambda>hs. fst hs = h \<and> valid (snd hs)" and ?last = "latest_number (view s)"
  let ?ns = "map word_of_nat [Suc (unat start)..<unat ?last] :: u64 list"
  let ?step = "\<lambda>number. st_bind (unwrap_read (aa_get_block_header_by_number A (Some number))) (\<lambda>header.
    st_return (header_hash_of W header))"
  obtain s1 where s1: "unwrap_read (aa_get_block_header_by_number A None) (h, s) = ((h, s1), Inr (H ?last))"
      "valid s1" "view s1 = view s"
    using answers_unwrap_read [OF read_latest_header [OF s(1)], of h] s(2) by (auto simp: answers_def headers_are_def)
  have step: "answers ?P (view \<circ> snd) (?step n) (Inr (header_hash_of W (H n))) hs"
    if n: "n < ?last" and P: "?P hs" and v: "(view \<circ> snd) hs = view s" for n hs
  proof -
    obtain b where hs: "hs = (h, b)" "valid b" "view b = view s" using P v by (cases hs) auto
    have "cv_header (view b) n = Some (H n)" using s(2) n hs(3) by (simp add: headers_are_def)
    then have "answers ?P (view \<circ> snd) (unwrap_read (aa_get_block_header_by_number A (Some n))) (Inr (H n)) (h, b)"
      using answers_unwrap_read [of valid view "aa_get_block_header_by_number A (Some n)" "H n" b h] read_header [OF hs(2), of n]
      by simp
    then show ?thesis unfolding hs(1) by (rule answers_bind) (rule answers_return)
  qed
  have "answers ?P (view \<circ> snd) (st_map ?step ?ns) (Inr (map (\<lambda>n. header_hash_of W (H n)) ?ns)) (h, s1)"
  proof (rule answers_map)
    fix n hs assume "n \<in> set ?ns" "?P hs" "(view \<circ> snd) hs = (view \<circ> snd) (h, s1)"
    then show "answers ?P (view \<circ> snd) (?step n) (Inr (header_hash_of W (H n))) hs"
      using s1(3) by (intro step) (auto simp: word_of_nat_less)
  qed (use s1 in simp)
  then obtain s2 where s2: "st_map ?step ?ns (h, s1) = ((h, s2), Inr (map (\<lambda>n. header_hash_of W (H n)) ?ns))"
      "valid s2" "view s2 = view s"
    using s1(3) by (auto simp: answers_def)
  have latest: "bk_header (cv_latest (view s)) = H ?last" using s(2) by (simp add: headers_are_def)
  have last: "hd_number (H ?last) = ?last" unfolding latest [symmetric] by (simp add: latest_number_def)
  have "checked_sub ?last start = Some (?last - start)" using le(1) by (simp add: checked_sub_def not_less)
  moreover have add: "checked_add start 1 = Some (start + 1)" using le(2) by (simp add: checked_add_def)
  moreover have "unat (start + 1) = Suc (unat start)" using checked_add_unat [OF add] by simp
  ultimately show ?thesis
    using s1 s2 entry
    by (simp add: filter_block_def st_bind_apply st_seq_apply modify_hub_def last comp_def del: upt_Suc)
qed

lemma filter_block_reply:
  assumes "valid s" and "headers_are H (view s)" and "map_of (fh_blocks h) i = Some (start, time)"
    and "start \<le> latest_number (view s)" and "unat start + 1 < 2 ^ 64"
  shows "\<exists>s'. get_filter_changes W A now i (Some h, s) =
    ((Some (h\<lparr>fh_blocks := AList.update i (latest_number (view s), now) (fh_blocks h)\<rparr>), s'),
     Inr (ChangedBlocks (if start = latest_number (view s) then [header_hash_of W (H start)]
       else new_hashes W H start (latest_number (view s))))) \<and> valid s' \<and> view s' = view s"
proof -
  let ?last = "latest_number (view s)"
  have "[Suc (unat start)..<Suc (unat ?last)] = [Suc (unat start)..<unat ?last] @ [unat ?last]" if "start \<noteq> ?last"
  proof -
    from assms(4) that have "start < ?last" by simp
    then show ?thesis by (simp add: word_less_nat_alt)
  qed
  then have "map (\<lambda>n. header_hash_of W (H (word_of_nat n))) [Suc (unat start)..<unat ?last] @ [header_hash_of W (H ?last)] =
      (if start = ?last then [header_hash_of W (H start)] else new_hashes W H start ?last)"
    by (simp add: new_hashes_def)
  then show ?thesis
    using filter_block_poll [OF assms, of W now] assms(3)
    by (auto simp: get_filter_changes_def hub_request_def hub_handle_def impl_filter_def st_bind_apply send_reply_def)
qed

lemma filter_logs_poll:
  assumes s: "valid s" "chain_ok (view s)"
    and entry: "map_of (fh_logs h) i = Some (f, time)" "lf_from_block f = Some (BlockNum start)" "lf_to_block f \<in> {None, Some Latest}"
    and le: "start \<le> latest_number (view s)" "unat (latest_number (view s)) + 1 < 2 ^ 64"
  shows "\<exists>s'. filter_logs A now i (h, s) =
    ((h\<lparr>fh_logs := AList.update i (f\<lparr>lf_from_block := Some (BlockNum (latest_number (view s) + 1))\<rparr>, now) (fh_logs h)\<rparr>, s'),
     Inr (concat (map (\<lambda>n. block_logs (view s) (lf_address f) (case lf_topics f of Some ts \<Rightarrow> ts | None \<Rightarrow> []) (block_at (view s) n))
       (inclusive start (latest_number (view s)))))) \<and> valid s' \<and> view s' = view s"
proof -
  let ?last = "latest_number (view s)" and ?topics = "case lf_topics f of Some ts \<Rightarrow> ts | None \<Rightarrow> []"
  obtain s1 where s1: "on_adapter (custom (aa_get_block_by_number A None)) (h, s) = ((h, s1), Inr (Some (cv_latest (view s))))"
      "valid s1" "view s1 = view s"
    using answers_on_adapter [OF answers_custom [OF read_latest [OF s(1)]], of h] by (auto simp: answers_def)
  obtain s2 where s2: "on_adapter (logs_of_range A (cv_latest (view s)) start ?last ?topics (lf_address f)) (h, s1) =
      ((h, s2), Inr (concat (map (\<lambda>n. block_logs (view s) (lf_address f) ?topics (block_at (view s) n)) (inclusive start ?last))))"
      "valid s2" "view s2 = view s"
    using answers_on_adapter [OF range_below [OF s1(2), of ?last start ?topics "lf_address f"], of h] s1(3) s(2)
    by (auto simp: answers_def)
  have "checked_add ?last 1 = Some (?last + 1)" using le(2) by (simp add: checked_add_def)
  moreover have "convert_id ?last (lf_from_block f) = start" "convert_id ?last (lf_to_block f) = ?last"
    using entry(2,3) by (auto simp: convert_id_def)
  ultimately show ?thesis
    using s1 s2 entry le(1)
    by (simp add: filter_logs_def st_bind_apply st_seq_apply modify_hub_def Let_def latest_number_def [symmetric] not_less)
qed

lemma filter_logs_idle:
  assumes "valid s" and "map_of (fh_logs h) i = Some (f, time)" and "lf_from_block f = Some (BlockNum start)"
    and "latest_number (view s) < start"
  shows "\<exists>s'. filter_logs A now i (h, s) = ((h, s'), Inl (InvalidFromBlock start)) \<and> valid s' \<and> view s' = view s"
proof -
  obtain s1 where "on_adapter (custom (aa_get_block_by_number A None)) (h, s) = ((h, s1), Inr (Some (cv_latest (view s))))"
      "valid s1" "view s1 = view s"
    using answers_on_adapter [OF answers_custom [OF read_latest [OF assms(1)]], of h] by (auto simp: answers_def)
  then show ?thesis
    using assms(2-4) by (simp add: filter_logs_def st_bind_apply Let_def latest_number_def [symmetric] convert_id_def)
qed

lemma filter_logs_reply:
  assumes "valid s" and "chain_ok (view s)" and "map_of (fh_blocks h) i = None" and "map_of (fh_logs h) i = Some (f, time)"
    and "lf_from_block f = Some (BlockNum start)" and "lf_to_block f \<in> {None, Some Latest}"
    and "start \<le> latest_number (view s)" and "unat (latest_number (view s)) + 1 < 2 ^ 64"
  shows "\<exists>s'. get_filter_changes W A now i (Some h, s) =
    ((Some (h\<lparr>fh_logs := AList.update i (f\<lparr>lf_from_block := Some (BlockNum (latest_number (view s) + 1))\<rparr>, now) (fh_logs h)\<rparr>), s'),
     Inr (ChangedLogs (concat (map (\<lambda>n. block_logs (view s) (lf_address f) (case lf_topics f of Some ts \<Rightarrow> ts | None \<Rightarrow> [])
       (block_at (view s) n)) (inclusive start (latest_number (view s)))))))"
  using filter_logs_poll [OF assms(1,2,4-8), of now] assms(3,4)
  by (auto simp: get_filter_changes_def hub_request_def hub_handle_def impl_filter_def st_bind_apply send_reply_def)

lemma filter_logs_idle_reply:
  assumes "valid s" and "map_of (fh_blocks h) i = None" and "map_of (fh_logs h) i = Some (f, time)"
    and "lf_from_block f = Some (BlockNum start)" and "latest_number (view s) < start"
  shows "\<exists>s'. get_filter_changes W A now i (Some h, s) =
    ((Some (h\<lparr>fh_logs := AList.delete i (fh_logs h)\<rparr>), s'), Inl (InvalidFromBlock start))"
  using filter_logs_idle [OF assms(1,3-5), of now] assms(2,3)
  by (auto simp: get_filter_changes_def hub_request_def hub_handle_def impl_filter_def st_bind_apply send_reply_def)

end

text \<open>The answers to a sequence of polls, each in the state the node has by then.\<close>

fun poll_answers ::
  "web3_env \<Rightarrow> 's api_adapter \<Rightarrow> u256 \<Rightarrow> filter_hub option \<Rightarrow> (nat \<times> 's) list \<Rightarrow> (rpc_error + filter_changes) list" where
  "poll_answers W A i h [] = []"
| "poll_answers W A i h ((now, s) # polls) =
     (case get_filter_changes W A now i (h, s) of ((h', s'), r) \<Rightarrow> r # poll_answers W A i h' polls)"

definition poll_heights :: "('s \<Rightarrow> chain_view) \<Rightarrow> u64 \<Rightarrow> (nat \<times> 's) list \<Rightarrow> u64 list" where
  "poll_heights view start polls = start # map (\<lambda>(now, s). latest_number (view s)) polls"

section \<open>Properties\<close>

text \<open>
  Filters are told apart in every reachable state of the hub, after any commands,
  time-outs and polls: each identifier belongs to one filter, and the identifier that a new
  filter gets belongs to no filter before and to the new one after.
\<close>

theorem filter_ids_unique:
  assumes "hub_reach W A h"
  shows "hub_ok h \<and>
    (\<forall>now alive cmd s h' s' i. hub_handle W A now alive cmd (h, s) = ((h', s'), Inr (ReplyId i)) \<longrightarrow>
       i \<notin> hub_keys h \<and> i \<in> hub_keys h' \<and> hub_ok h')"
proof (intro conjI allI impI)
  show ok: "hub_ok h" by (rule hub_reach_ok [OF assms])
  fix now alive cmd s h' s' i assume step: "hub_handle W A now alive cmd (h, s) = ((h', s'), Inr (ReplyId i))"
  show "i \<notin> hub_keys h" "i \<in> hub_keys h'" "hub_ok h'"
    using hub_handle_ok(2) [OF ok step, of i] hub_handle_ok(1) [OF ok step] by auto
qed


definition polled_hub :: filter_hub where
  "polled_hub =
     \<lparr>fh_logs = [(1, \<lparr>lf_from_block = Some (BlockNum 0), lf_to_block = None, lf_address = None, lf_topics = None\<rparr>, 0)],
      fh_blocks = [(2, 0, 0)], fh_id = 2\<rparr>"

lemma sample_headers: "headers_are sample_header (api_view sample_api_env mem_view sample_api_node)"
  by (auto simp: headers_are_def latest_number_def sample_api_view sample_block_def word_less_nat_alt unat_gt_0 split: if_splits)

theorem filter_ids_unique_witness:
  "\<exists>h s'. hub_handle sample_web3_env (default_api_adapter sample_api_env) 5 True NewBlocks (filter_hub_new, sample_api_node) =
      ((h, s'), Inr (ReplyId 1)) \<and> 1 \<in> hub_keys h \<and> hub_ok h"
proof -
  obtain s' where "aa_get_block_header_by_number (default_api_adapter sample_api_env) None sample_api_node =
      (s', Inr (Some (sample_header 1)))"
    using api.read_latest_header [OF sample_api_inv] by (auto simp: answers_def sample_api_view sample_block_def)
  then obtain h where "hub_handle sample_web3_env (default_api_adapter sample_api_env) 5 True NewBlocks (filter_hub_new, sample_api_node) =
      ((h, s'), Inr (ReplyId 1))"
    by (auto simp: hub_handle_def fresh_id_def filter_hub_new_def st_bind_apply st_seq_apply modify_hub_def unwrap_read_def
        send_reply_def checked_add_def)
  moreover from this have "1 \<in> hub_keys h \<and> hub_ok h"
    using filter_ids_unique [OF hub_start, of sample_web3_env "default_api_adapter sample_api_env"] by blast
  ultimately show ?thesis by blast
qed


text \<open>
  A log filter that starts at a numbered block does not survive being polled faster
  than the chain grows. The first poll answers the logs of the blocks up to the latest; the next
  one, at the same height, answers an error although nothing is wrong with the filter, and
  removes it: from the third poll on the filter is unknown.
\<close>

theorem idle_log_filter_removed:
  assumes "\<And>now s. (now, s) \<in> set [p1, p2, p3] \<Longrightarrow> api_inv E dbview s \<and> chain_ok (api_view E dbview s) \<and>
      latest_number (api_view E dbview s) = tip"
    and "map_of (fh_blocks h) i = None" and "map_of (fh_logs h) i = Some (f, time)"
    and "lf_from_block f = Some (BlockNum start)" and "lf_to_block f \<in> {None, Some Latest}"
    and "start \<le> tip" and "unat tip + 1 < 2 ^ 64"
  shows "\<exists>logs. poll_answers W (default_api_adapter E) i (Some h) [p1, p2, p3] =
    [Inr (ChangedLogs logs), Inl (InvalidFromBlock (tip + 1)), Inl (FilterNotFound i)]"
proof -
  obtain t1 s1 t2 s2 t3 s3 where p: "p1 = (t1, s1)" "p2 = (t2, s2)" "p3 = (t3, s3)" by (metis prod.collapse)
  have ok: "api_inv E dbview s1" "chain_ok (api_view E dbview s1)" "latest_number (api_view E dbview s1) = tip"
      "api_inv E dbview s2" "latest_number (api_view E dbview s2) = tip"
    using assms(1) [of t1 s1] assms(1) [of t2 s2] p by auto
  let ?f = "f\<lparr>lf_from_block := Some (BlockNum (tip + 1))\<rparr>" and ?get = "get_filter_changes W (default_api_adapter E)"
  let ?h = "h\<lparr>fh_logs := AList.update i (?f, t1) (fh_logs h)\<rparr>"
  obtain logs s1' where first: "?get t1 i (Some h, s1) = ((Some ?h, s1'), Inr (ChangedLogs logs))"
    using api.filter_logs_reply [OF ok(1,2) assms(2-5), of W t1] assms(6,7) ok(3) by blast
  have "tip < tip + 1" using assms(7) by (simp add: word_less_nat_alt unat_word_ariths)
  then obtain s2' where "?get t2 i (Some ?h, s2) =
      ((Some (?h\<lparr>fh_logs := AList.delete i (fh_logs ?h)\<rparr>), s2'), Inl (InvalidFromBlock (tip + 1)))"
    using api.filter_logs_idle_reply [of E dbview s2 ?h i ?f t1 "tip + 1" W t2] ok(4,5) assms(2) by (auto simp: update_conv')
  moreover have "snd (?get t3 i (Some (?h\<lparr>fh_logs := AList.delete i (fh_logs ?h)\<rparr>), s3)) = Inl (FilterNotFound i)"
    using assms(2) by (simp add: get_filter_changes_def hub_request_def hub_handle_def impl_filter_def st_bind_apply send_reply_def
        AList.delete_conv')
  ultimately show ?thesis using first by (auto simp: p split: prod.splits)
qed

theorem idle_log_filter_removed_witness:
  "\<exists>logs. poll_answers sample_web3_env (default_api_adapter sample_api_env) 1 (Some polled_hub)
      [(5, sample_api_node), (6, sample_api_node), (7, sample_api_node)] =
    [Inr (ChangedLogs logs), Inl (InvalidFromBlock 2), Inl (FilterNotFound 1)]"
proof -
  have one: "latest_number (api_view sample_api_env mem_view sample_api_node) = 1"
    by (simp add: latest_number_def sample_api_view sample_block_def sample_header_def)
  let ?f = "\<lparr>lf_from_block = Some (BlockNum 0), lf_to_block = None, lf_address = None, lf_topics = None\<rparr>"
  have "\<exists>logs. poll_answers sample_web3_env (default_api_adapter sample_api_env) 1 (Some polled_hub)
      [(5, sample_api_node), (6, sample_api_node), (7, sample_api_node)] =
    [Inr (ChangedLogs logs), Inl (InvalidFromBlock (1 + 1)), Inl (FilterNotFound 1)]"
    by (rule idle_log_filter_removed [where f = ?f and start = 0 and time = 0 and dbview = mem_view])
      (use sample_api_inv sample_chain_ok one in \<open>auto simp: polled_hub_def\<close>)
  then show ?thesis by simp
qed

end
