(* ===== verification/Api_Subscription.thy ===== *)
theory Api_Subscription
  imports Api_Filter
begin

text \<open>
  The subscriptions of the websocket interface (\<open>core/api/src/jsonrpc/ws_subscription.rs\<close>): one
  task keeps the subscribers and, every three seconds, sends them what is new since the block
  it sent last. A subscriber's sink is a number; what the task sends is recorded in order in the
  state of the task. Which sinks are closed is an argument of each tick. The result of a send is
  ignored by the code, so a send always succeeds here.
\<close>

section \<open>The task\<close>

record sub_raw_filter =
  srf_address :: "h160 multi_type"
  srf_topics :: "hash list option"

record sub_filter =
  sf_address :: "h160 list option"
  sf_topics :: "hash list option"

definition sub_filter_from :: "sub_raw_filter \<Rightarrow> sub_filter" where
  "sub_filter_from src = \<lparr>sf_address = multi_option (srf_address src), sf_topics = srf_topics src\<rparr>"

datatype sub_type = SubNewHeads | SubLogs sub_filter | SubSyncing

datatype sub_param = ParamText string | ParamFilter sub_raw_filter | ParamOther

datatype sub_error = ParamMissing | InvalidMethod string

text \<open>The parameters are read one after the other; a missing or ill-typed one is an error.\<close>

definition sub_type_try_from :: "sub_param list \<Rightarrow> sub_error + sub_type" where
  "sub_type_try_from params =
     (case params of
        ParamText method # rest \<Rightarrow>
          if method = ''newHeads'' then Inr SubNewHeads
          else if method = ''syncing'' then Inr SubSyncing
          else if method = ''logs'' then
            (case rest of ParamFilter f # _ \<Rightarrow> Inr (SubLogs (sub_filter_from f)) | _ \<Rightarrow> Inl ParamMissing)
          else Inl (InvalidMethod method)
      | _ \<Rightarrow> Inl ParamMissing)"

type_synonym sink = nat

datatype sub_event = EvHeader web3_header | EvSync web3_sync_status | EvLog web3_log

record subscription =
  sb_log_hubs :: "(sub_filter \<times> sink) list"
  sb_header_hubs :: "sink list"
  sb_sync_hubs :: "sink list"
  sb_current_number :: u64
  sb_sent :: "(sink \<times> sub_event) list"

type_synonym ('s, 'v) sub_op = "(subscription, 's, 'v) task_op"

definition subscription_new :: "'s api_adapter \<Rightarrow> ('s, rpc_error, subscription) st" where
  "subscription_new A s =
     (case aa_get_block_header_by_number A None s of
        (s', Inr (Some latest)) \<Rightarrow>
          (s', Inr \<lparr>sb_log_hubs = [], sb_header_hubs = [], sb_sync_hubs = [], sb_current_number = hd_number latest, sb_sent = []\<rparr>)
      | (s', _) \<Rightarrow> (s', Inl RpcPanic))"

definition modify_sub :: "(subscription \<Rightarrow> subscription) \<Rightarrow> ('s, unit) sub_op" where
  "modify_sub f = st_modify (\<lambda>(u, s). (f u, s))"

definition send_events :: "(sink \<times> sub_event) list \<Rightarrow> ('s, unit) sub_op" where
  "send_events es = modify_sub (\<lambda>u. u\<lparr>sb_sent := sb_sent u @ es\<rparr>)"

definition to_each :: "sink list \<Rightarrow> sub_event \<Rightarrow> (sink \<times> sub_event) list" where
  "to_each sinks e = map (\<lambda>k. (k, e)) sinks"

definition hub_logs :: "sub_filter \<Rightarrow> nat \<Rightarrow> receipt \<Rightarrow> web3_log list" where
  "hub_logs f index r =
     (if address_matches (sf_address f) r
      then from_receipt_to_web3_log index (case sf_topics f of Some ts \<Rightarrow> ts | None \<Rightarrow> []) r else [])"

text \<open>The logs of the receipts of one block, receipt by receipt and subscriber by subscriber.\<close>

fun receipt_events :: "(sub_filter \<times> sink) list \<Rightarrow> nat \<Rightarrow> receipt list \<Rightarrow> (sink \<times> sub_event) list" where
  "receipt_events hubs index [] = []"
| "receipt_events hubs index (r # rs) =
     concat (map (\<lambda>(f, k). map (\<lambda>l. (k, EvLog l)) (hub_logs f index r)) hubs) @
     receipt_events hubs (index + length (rc_logs r)) rs"

definition unwrap_result :: "('s, api_error, 'v) st \<Rightarrow> ('h, 's, 'v) task_op" where
  "unwrap_result op hs =
     (case op (snd hs) of (s', Inr v) \<Rightarrow> ((fst hs, s'), Inr v) | (s', Inl _) \<Rightarrow> ((fst hs, s'), Inl RpcPanic))"

text \<open>The block at a height, of which the headers go to the given sinks.\<close>

definition visit_block :: "'s api_adapter \<Rightarrow> sink list \<Rightarrow> u64 \<Rightarrow> ('s, u64 \<times> hash list) sub_op" where
  "visit_block A sinks number =
     st_bind (unwrap_read (aa_get_block_by_number A (Some number))) (\<lambda>b.
     st_seq (send_events (to_each sinks (EvHeader (web3_header_from (bk_header b)))))
       (st_return (hd_number (bk_header b), bk_tx_hashes b)))"

text \<open>The range \<open>current + 1..latest\<close>.\<close>

definition missed_numbers :: "u64 \<Rightarrow> u64 \<Rightarrow> ('s, u64 list) sub_op" where
  "missed_numbers current latest =
     st_bind (st_lift (ok_or RpcPanic (checked_add current 1))) (\<lambda>first.
       st_return (map word_of_nat [unat first..<unat latest]))"

definition notify_headers ::
  "'s api_adapter \<Rightarrow> sink list \<Rightarrow> u64 \<Rightarrow> block \<Rightarrow> ('s, (u64 \<times> hash list) list) sub_op" where
  "notify_headers A sinks current latest_block =
     (if sinks = [] then st_return []
      else
        st_bind (missed_numbers current (hd_number (bk_header latest_block))) (\<lambda>numbers.
        st_bind (st_map (visit_block A sinks) numbers) (\<lambda>log_vec.
        st_seq (send_events (to_each sinks (EvHeader (web3_header_from (bk_header latest_block)))))
          (st_return log_vec))))"

definition visit_receipts :: "'s api_adapter \<Rightarrow> (sub_filter \<times> sink) list \<Rightarrow> u64 \<times> hash list \<Rightarrow> ('s, unit) sub_op" where
  "visit_receipts A hubs = (\<lambda>(number, tx_hashes).
     st_bind (unwrap_result (aa_get_receipts_by_hashes A number tx_hashes)) (\<lambda>receipts.
       send_events (receipt_events hubs 0 (List.map_filter id receipts))))"

definition notify_logs ::
  "'s api_adapter \<Rightarrow> (sub_filter \<times> sink) list \<Rightarrow> u64 \<Rightarrow> block \<Rightarrow> (u64 \<times> hash list) list \<Rightarrow> ('s, unit) sub_op" where
  "notify_logs A hubs current latest_block log_vec =
     (if hubs = [] then st_return ()
      else
        st_bind (if log_vec = []
                 then st_bind (missed_numbers current (hd_number (bk_header latest_block))) (st_map (visit_block A []))
                 else st_return log_vec) (\<lambda>log_vec.
          st_each (visit_receipts A hubs)
           (log_vec @ [(hd_number (bk_header latest_block), bk_tx_hashes latest_block)])))"

definition retain_open :: "(sink \<Rightarrow> bool) \<Rightarrow> subscription \<Rightarrow> subscription" where
  "retain_open closed u =
     u\<lparr>sb_header_hubs := filter (\<lambda>k. \<not> closed k) (sb_header_hubs u),
       sb_sync_hubs := filter (\<lambda>k. \<not> closed k) (sb_sync_hubs u),
       sb_log_hubs := filter (\<lambda>(f, k). \<not> closed k) (sb_log_hubs u)\<rparr>"

definition notify :: "'s api_adapter \<Rightarrow> ('s \<Rightarrow> sync_status) \<Rightarrow> (sink \<Rightarrow> bool) \<Rightarrow> ('s, unit) sub_op" where
  "notify A sync closed =
     st_seq (modify_sub (retain_open closed))
     (st_bind (unwrap_read (aa_get_block_by_number A None)) (\<lambda>latest_block.
      st_bind (st_gets fst) (\<lambda>u.
        let latest = hd_number (bk_header latest_block); current = sb_current_number u
        in if current = latest then st_return ()
           else
             st_bind (notify_headers A (sb_header_hubs u) current latest_block) (\<lambda>log_vec.
             st_bind (st_gets snd) (\<lambda>s.
             st_seq (send_events (to_each (sb_sync_hubs u) (EvSync (web3_sync_status_from (sync s)))))
             (st_seq (notify_logs A (sb_log_hubs u) current latest_block log_vec)
               (modify_sub (\<lambda>u. u\<lparr>sb_current_number := latest\<rparr>))))))))"

definition subscribe :: "sub_type \<Rightarrow> sink \<Rightarrow> subscription \<Rightarrow> subscription" where
  "subscribe ty k u =
     (case ty of
        SubNewHeads \<Rightarrow> u\<lparr>sb_header_hubs := sb_header_hubs u @ [k]\<rparr>
      | SubLogs f \<Rightarrow> u\<lparr>sb_log_hubs := sb_log_hubs u @ [(f, k)]\<rparr>
      | SubSyncing \<Rightarrow> u\<lparr>sb_sync_hubs := sb_sync_hubs u @ [k]\<rparr>)"

text \<open>
  \<open>run\<close>: the task takes subscriptions from its channel and ticks of its timer as they come, until
  the channel ends. At each tick the node is in some state.
\<close>

datatype 's sub_input = Subscribe sub_type sink | Tick "sink \<Rightarrow> bool" 's

fun sub_run :: "'s api_adapter \<Rightarrow> ('s \<Rightarrow> sync_status) \<Rightarrow> subscription \<Rightarrow> 's sub_input list \<Rightarrow> rpc_error + subscription" where
  "sub_run A sync u [] = Inr u"
| "sub_run A sync u (Subscribe ty k # inputs) = sub_run A sync (subscribe ty k u) inputs"
| "sub_run A sync u (Tick closed s # inputs) =
     (case notify A sync closed (u, s) of
        ((u', _), Inr _) \<Rightarrow> sub_run A sync u' inputs
      | (_, Inl e) \<Rightarrow> Inl e)"

text \<open>\<open>HexIdProvider::next_id\<close>: the counter wraps around.\<close>

definition next_id :: "hex_lib \<Rightarrow> u64 \<Rightarrow> u64 \<times> string" where
  "next_id X counter = (counter + 1, hex_encode X (to_be_bytes 32 (ucast counter :: u256)))"

section \<open>What a tick sends\<close>

definition sent_more :: "(sink \<times> sub_event) list \<Rightarrow> subscription \<Rightarrow> subscription" where
  "sent_more es u = u\<lparr>sb_sent := sb_sent u @ es\<rparr>"

lemma sent_more_simps [simp]:
  "sb_sent (sent_more es u) = sb_sent u @ es" "sb_header_hubs (sent_more es u) = sb_header_hubs u"
  "sb_log_hubs (sent_more es u) = sb_log_hubs u" "sb_sync_hubs (sent_more es u) = sb_sync_hubs u"
  "sb_current_number (sent_more es u) = sb_current_number u"
  "sent_more es (sent_more es' u) = sent_more (es' @ es) u" "sent_more [] u = u"
  by (simp_all add: sent_more_def)

lemma send_events_apply [simp]: "send_events es (u, s) = ((sent_more es u, s), Inr ())"
  by (simp add: send_events_def modify_sub_def sent_more_def)

definition header_events :: "sink list \<Rightarrow> (u64 \<Rightarrow> block) \<Rightarrow> u64 list \<Rightarrow> (sink \<times> sub_event) list" where
  "header_events sinks B ns = concat (map (\<lambda>n. to_each sinks (EvHeader (web3_header_from (bk_header (B n))))) ns)"

definition log_events :: "(sub_filter \<times> sink) list \<Rightarrow> (u64 \<Rightarrow> receipt list) \<Rightarrow> u64 list \<Rightarrow> (sink \<times> sub_event) list" where
  "log_events hubs R ns = concat (map (\<lambda>n. receipt_events hubs 0 (R n)) ns)"

text \<open>
  The history of the chain, block and receipts at each height, as far as a view shows it.
\<close>

definition follows :: "(u64 \<Rightarrow> block) \<Rightarrow> (u64 \<Rightarrow> receipt list) \<Rightarrow> chain_view \<Rightarrow> bool" where
  "follows B R cv \<longleftrightarrow>
     (\<forall>n. n < latest_number cv \<longrightarrow> cv_block cv n = Some (B n)) \<and> cv_latest cv = B (latest_number cv) \<and>
     (\<forall>n. n \<le> latest_number cv \<longrightarrow> receipts_of cv (B n) = R n \<and> distinct (bk_tx_hashes (B n)))"

context chain_reader
begin

lemma visit_blocks:
  assumes "valid s" and "\<And>n. n \<in> set ns \<Longrightarrow> cv_block (view s) n = Some (B n)"
  shows "\<exists>s'. st_map (visit_block A sinks) ns (u, s) =
    ((sent_more (header_events sinks B ns) u, s'), Inr (map (\<lambda>n. (hd_number (bk_header (B n)), bk_tx_hashes (B n))) ns)) \<and>
    valid s' \<and> view s' = view s"
  using assms
proof (induction ns arbitrary: u s)
  case (Cons n ns)
  obtain s1 where s1: "aa_get_block_by_number A (Some n) s = (s1, Inr (Some (B n)))" "valid s1" "view s1 = view s"
    using read_block [OF Cons.prems(1), of n] Cons.prems(2) [of n] by (auto simp: answers_def)
  then have "visit_block A sinks n (u, s) =
      ((sent_more (to_each sinks (EvHeader (web3_header_from (bk_header (B n))))) u, s1),
       Inr (hd_number (bk_header (B n)), bk_tx_hashes (B n)))"
    by (simp add: visit_block_def unwrap_read_def st_bind_apply st_seq_apply)
  with Cons.IH [OF s1(2), of "sent_more (to_each sinks (EvHeader (web3_header_from (bk_header (B n))))) u"] Cons.prems(2) s1(3)
  show ?case by (auto simp: st_bind_apply header_events_def)
qed (simp add: header_events_def)

lemma visit_logs:
  assumes "valid s" and "\<And>n. n \<in> set ns \<Longrightarrow> receipts_of (view s) (B n) = R n \<and> distinct (bk_tx_hashes (B n))"
  shows "\<exists>s'. st_each (visit_receipts A hubs) (map (\<lambda>n. (hd_number (bk_header (B n)), bk_tx_hashes (B n))) ns) (u, s) =
    ((sent_more (log_events hubs R ns) u, s'), Inr ()) \<and> valid s' \<and> view s' = view s"
  using assms
proof (induction ns arbitrary: u s)
  case (Cons n ns)
  have n: "receipts_of (view s) (B n) = R n" "distinct (bk_tx_hashes (B n))" using Cons.prems(2) [of n] by auto
  obtain s1 where s1: "aa_get_receipts_by_hashes A (hd_number (bk_header (B n))) (bk_tx_hashes (B n)) s =
      (s1, Inr (map (cv_filed (view s) (hd_number (bk_header (B n)))) (bk_tx_hashes (B n))))" "valid s1" "view s1 = view s"
    using read_receipts [OF Cons.prems(1) n(2)] by (auto simp: answers_def)
  then have "visit_receipts A hubs (hd_number (bk_header (B n)), bk_tx_hashes (B n)) (u, s) =
      ((sent_more (receipt_events hubs 0 (R n)) u, s1), Inr ())"
    unfolding n(1) [symmetric] receipts_of_def
    by (simp add: visit_receipts_def st_bind_apply unwrap_result_def map_filter_map map_filter_map [unfolded id_def])
  with Cons.IH [OF s1(2), of "sent_more (receipt_events hubs 0 (R n)) u"] Cons.prems(2) s1(3)
  show ?case by (auto simp: st_seq_apply log_events_def)
qed (simp add: log_events_def)

end

lemma header_events_simps [simp]:
  "header_events sinks B (ns @ ms) = header_events sinks B ns @ header_events sinks B ms"
  "header_events sinks B [n] = to_each sinks (EvHeader (web3_header_from (bk_header (B n))))" "header_events [] B ns = []"
  by (simp_all add: header_events_def to_each_def)

lemma to_each_Nil [simp]: "to_each [] e = []"
  by (simp add: to_each_def)

lemma receipt_events_Nil [simp]: "receipt_events [] index rs = []"
  by (induction rs arbitrary: index) simp_all

lemma log_events_Nil [simp]: "log_events [] R ns = []"
  by (simp add: log_events_def)

lemma follows_latest: "follows B R cv \<Longrightarrow> hd_number (bk_header (B (latest_number cv))) = latest_number cv"
  by (metis follows_def latest_number_def)

text \<open>The heights a tick reads, and those it reports: the latest block was read first.\<close>

definition missed :: "u64 \<Rightarrow> u64 \<Rightarrow> u64 list" where
  "missed current latest = map word_of_nat [Suc (unat current)..<unat latest]"

definition fresh_heights :: "u64 \<Rightarrow> u64 \<Rightarrow> u64 list" where
  "fresh_heights current latest = map word_of_nat [Suc (unat current)..<Suc (unat latest)]"

lemma fresh_heights_missed: "current < latest \<Longrightarrow> fresh_heights current latest = missed current latest @ [latest]"
  by (simp add: fresh_heights_def missed_def word_less_nat_alt)

lemma missed_less: "n \<in> set (missed current latest) \<Longrightarrow> n < latest"
  by (auto simp: missed_def word_of_nat_less)

lemma fresh_heights_le: "n \<in> set (fresh_heights current latest) \<Longrightarrow> n \<le> latest"
  using unat_bound [of latest] by (auto simp: fresh_heights_def word_le_nat_alt unat_of_nat simp del: upt_Suc)

lemma missed_numbers_apply:
  assumes "current < latest" shows "missed_numbers current latest hs = (hs, Inr (missed current latest))"
proof -
  have "unat current + 1 < 2 ^ 64" using assms unat_bound [of latest] by (simp add: word_less_nat_alt)
  then have add: "checked_add current 1 = Some (current + 1)" by (simp add: checked_add_def)
  have "unat (current + 1) = Suc (unat current)" using checked_add_unat [OF add] by simp
  with add show ?thesis by (simp add: missed_numbers_def st_bind_apply missed_def)
qed

context chain_reader
begin

lemma notify_headers_sends:
  assumes s: "valid s" and B: "follows B R (view s)" and less: "current < latest_number (view s)"
  shows "\<exists>s'. notify_headers A sinks current (B (latest_number (view s))) (u, s) =
    ((sent_more (header_events sinks B (fresh_heights current (latest_number (view s)))) u, s'),
     Inr (if sinks = [] then [] else map (\<lambda>n. (hd_number (bk_header (B n)), bk_tx_hashes (B n))) (missed current (latest_number (view s))))) \<and>
    valid s' \<and> view s' = view s"
proof -
  have "cv_block (view s) n = Some (B n)" if "n \<in> set (missed current (latest_number (view s)))" for n
    using B missed_less [OF that] by (simp add: follows_def)
  from visit_blocks [OF s this, of "missed current (latest_number (view s))" sinks u] show ?thesis
    using s by (auto simp: notify_headers_def st_bind_apply st_seq_apply follows_latest [OF B] missed_numbers_apply [OF less]
        fresh_heights_missed [OF less])
qed

lemma notify_logs_sends:
  assumes s: "valid s" and B: "follows B R (view s)" and less: "current < latest_number (view s)"
    and vec: "log_vec \<in> {[], map (\<lambda>n. (hd_number (bk_header (B n)), bk_tx_hashes (B n))) (missed current (latest_number (view s)))}"
  shows "\<exists>s'. notify_logs A hubs current (B (latest_number (view s))) log_vec (u, s) =
    ((sent_more (log_events hubs R (fresh_heights current (latest_number (view s)))) u, s'), Inr ()) \<and> valid s' \<and> view s' = view s"
proof (cases "hubs = []")
  case False
  let ?last = "latest_number (view s)" and ?entry = "\<lambda>n. (hd_number (bk_header (B n)), bk_tx_hashes (B n))"
  have "cv_block (view s) n = Some (B n)" if "n \<in> set (missed current ?last)" for n
    using B missed_less [OF that] by (simp add: follows_def)
  from visit_blocks [OF s this, of "missed current ?last" "[]" u] obtain s1 where
    s1: "st_map (visit_block A []) (missed current ?last) (u, s) = ((u, s1), Inr (map ?entry (missed current ?last)))"
      "valid s1" "view s1 = view s" by auto
  have R: "receipts_of (view s) (B n) = R n \<and> distinct (bk_tx_hashes (B n))" if "n \<in> set (fresh_heights current ?last)" for n
    using B fresh_heights_le [OF that] by (simp add: follows_def)
  let ?get = "if log_vec = [] then st_bind (missed_numbers current ?last) (st_map (visit_block A [])) else st_return log_vec"
  obtain s2 where s2: "?get (u, s) = ((u, s2), Inr (map ?entry (missed current ?last)))" "valid s2" "view s2 = view s"
  proof (cases "log_vec = []")
    case True
    with s1 that show ?thesis by (simp add: st_bind_apply missed_numbers_apply [OF less])
  next
    case False
    with s vec that show ?thesis by auto
  qed
  from visit_logs [OF s2(2), of "fresh_heights current ?last" B R hubs u] R s2(3) obtain s3 where
    "st_each (visit_receipts A hubs) (map ?entry (fresh_heights current ?last)) (u, s2) =
      ((sent_more (log_events hubs R (fresh_heights current ?last)) u, s3), Inr ())" "valid s3" "view s3 = view s" by auto
  moreover have "notify_logs A hubs current (B ?last) log_vec (u, s) =
      st_each (visit_receipts A hubs) (map ?entry (missed current ?last) @ [?entry ?last]) (u, s2)"
    unfolding notify_logs_def if_not_P [OF False] follows_latest [OF B] st_bind_apply [of ?get] s2(1) by simp
  ultimately show ?thesis by (simp add: fresh_heights_missed [OF less])
qed (use s in \<open>simp add: notify_logs_def\<close>)

text \<open>A tick that finds new blocks.\<close>

lemma notify_sends:
  assumes s: "valid s" and B: "follows B R (view s)" and less: "sb_current_number u < latest_number (view s)"
  shows "\<exists>s' st. notify A sync closed (u, s) =
    (((sent_more (header_events (sb_header_hubs (retain_open closed u)) B (fresh_heights (sb_current_number u) (latest_number (view s))) @
        to_each (sb_sync_hubs (retain_open closed u)) (EvSync (web3_sync_status_from st)) @
        log_events (sb_log_hubs (retain_open closed u)) R (fresh_heights (sb_current_number u) (latest_number (view s))))
       (retain_open closed u)) \<lparr>sb_current_number := latest_number (view s)\<rparr>, s'), Inr ()) \<and> valid s' \<and> view s' = view s"
proof -
  let ?last = "latest_number (view s)" and ?v = "retain_open closed u" and ?ns = "fresh_heights (sb_current_number u) (latest_number (view s))"
  have current: "sb_current_number ?v = sb_current_number u" by (simp add: retain_open_def)
  have latest: "cv_latest (view s) = B ?last" using B by (simp add: follows_def)
  obtain s1 where s1: "aa_get_block_by_number A None s = (s1, Inr (Some (B ?last)))" "valid s1" "view s1 = view s"
    using read_latest [OF s] latest by (auto simp: answers_def)
  obtain s2 vec where s2: "notify_headers A (sb_header_hubs ?v) (sb_current_number u) (B ?last) (?v, s1) =
      ((sent_more (header_events (sb_header_hubs ?v) B ?ns) ?v, s2), Inr vec)" "valid s2" "view s2 = view s"
      "vec \<in> {[], map (\<lambda>n. (hd_number (bk_header (B n)), bk_tx_hashes (B n))) (missed (sb_current_number u) ?last)}"
    using notify_headers_sends [OF s1(2), of B R "sb_current_number u" "sb_header_hubs ?v" ?v] B less s1(3) by auto
  let ?w = "sent_more (header_events (sb_header_hubs ?v) B ?ns @ to_each (sb_sync_hubs ?v) (EvSync (web3_sync_status_from (sync s2)))) ?v"
  obtain s3 where s3: "notify_logs A (sb_log_hubs ?v) (sb_current_number u) (B ?last) vec (?w, s2) =
      ((sent_more (log_events (sb_log_hubs ?v) R ?ns) ?w, s3), Inr ())" "valid s3" "view s3 = view s"
    using notify_logs_sends [OF s2(2), of B R "sb_current_number u" vec "sb_log_hubs ?v" ?w] B less s2(3,4) by auto
  show ?thesis
    using s1 s2 s3 less
    by (intro exI [of _ s3] exI [of _ "sync s2"])
      (simp add: notify_def st_seq_apply st_bind_apply modify_sub_def unwrap_read_def Let_def follows_latest [OF B] current less_imp_neq)
qed

lemma notify_idle:
  assumes "valid s" and "sb_current_number u = latest_number (view s)"
  shows "\<exists>s'. notify A sync closed (u, s) = ((retain_open closed u, s'), Inr ()) \<and> valid s' \<and> view s' = view s"
  using read_latest [OF assms(1)] assms(2)
  by (auto simp: answers_def notify_def st_seq_apply st_bind_apply modify_sub_def unwrap_read_def retain_open_def latest_number_def)

end

section \<open>What a subscriber receives\<close>

definition only :: "sink \<Rightarrow> (sink \<times> sub_event) list \<Rightarrow> sub_event list" where
  "only k es = map snd (filter (\<lambda>e. fst e = k) es)"

definition sinks_of :: "subscription \<Rightarrow> sink list" where
  "sinks_of u = sb_header_hubs u @ sb_sync_hubs u @ map snd (sb_log_hubs u)"

fun subscribed :: "sub_type \<Rightarrow> sink \<Rightarrow> subscription \<Rightarrow> bool" where
  "subscribed SubNewHeads k u \<longleftrightarrow> k \<in> set (sb_header_hubs u)"
| "subscribed (SubLogs f) k u \<longleftrightarrow> (f, k) \<in> set (sb_log_hubs u)"
| "subscribed SubSyncing k u \<longleftrightarrow> k \<in> set (sb_sync_hubs u)"

text \<open>What the blocks at the given heights owe a subscriber: their headers, or the logs that match.\<close>

fun owed :: "sub_type \<Rightarrow> (u64 \<Rightarrow> block) \<Rightarrow> (u64 \<Rightarrow> receipt list) \<Rightarrow> u64 list \<Rightarrow> sub_event list" where
  "owed SubNewHeads B R ns = map (\<lambda>n. EvHeader (web3_header_from (bk_header (B n)))) ns"
| "owed (SubLogs f) B R ns =
     map EvLog (concat (map (\<lambda>n. extend_logs (sf_address f) (case sf_topics f of Some ts \<Rightarrow> ts | None \<Rightarrow> []) 0 (R n)) ns))"
| "owed SubSyncing B R ns = []"

lemma only_simps [simp]: "only k [] = []" "only k (es @ es') = only k es @ only k es'"
  by (simp_all add: only_def)

lemma only_concat: "only k (concat ess) = concat (map (only k) ess)"
  by (induction ess) simp_all

lemma only_to_each: "distinct sinks \<Longrightarrow> only k (to_each sinks e) = (if k \<in> set sinks then [e] else [])"
  by (induction sinks) (auto simp: only_def to_each_def)

lemma only_headers:
  "distinct sinks \<Longrightarrow> only k (header_events sinks B ns) = (if k \<in> set sinks then owed SubNewHeads B R ns else [])"
  by (induction ns) (auto simp: header_events_def only_to_each)

lemma only_receipt:
  assumes "distinct (map snd hubs)"
  shows "(f, k) \<in> set hubs \<Longrightarrow>
      only k (concat (map (\<lambda>(f, k). map (\<lambda>l. (k, EvLog l)) (hub_logs f index r)) hubs)) = map EvLog (hub_logs f index r)"
    and "k \<notin> snd ` set hubs \<Longrightarrow> only k (concat (map (\<lambda>(f, k). map (\<lambda>l. (k, EvLog l)) (hub_logs f index r)) hubs)) = []"
proof -
  have mine: "only k (map (\<lambda>l. (k', EvLog l)) ls) = (if k' = k then map EvLog ls else [])" for k' ls
    by (auto simp: only_def filter_empty_conv comp_def filter_map)
  have "((f, k) \<in> set hubs \<longrightarrow>
      only k (concat (map (\<lambda>(f, k). map (\<lambda>l. (k, EvLog l)) (hub_logs f index r)) hubs)) = map EvLog (hub_logs f index r)) \<and>
    (k \<notin> snd ` set hubs \<longrightarrow> only k (concat (map (\<lambda>(f, k). map (\<lambda>l. (k, EvLog l)) (hub_logs f index r)) hubs)) = [])"
    using assms by (induction hubs) (force simp: mine)+
  then show "(f, k) \<in> set hubs \<Longrightarrow>
      only k (concat (map (\<lambda>(f, k). map (\<lambda>l. (k, EvLog l)) (hub_logs f index r)) hubs)) = map EvLog (hub_logs f index r)"
    and "k \<notin> snd ` set hubs \<Longrightarrow> only k (concat (map (\<lambda>(f, k). map (\<lambda>l. (k, EvLog l)) (hub_logs f index r)) hubs)) = []"
    by blast+
qed

lemma extend_logs_hub:
  "extend_logs (sf_address f) (case sf_topics f of Some ts \<Rightarrow> ts | None \<Rightarrow> []) index (r # rs) =
     hub_logs f index r @ extend_logs (sf_address f) (case sf_topics f of Some ts \<Rightarrow> ts | None \<Rightarrow> []) (index + length (rc_logs r)) rs"
  by (simp add: hub_logs_def)

lemma only_receipts:
  assumes "distinct (map snd hubs)"
  shows "(f, k) \<in> set hubs \<Longrightarrow> only k (receipt_events hubs index rs) =
      map EvLog (extend_logs (sf_address f) (case sf_topics f of Some ts \<Rightarrow> ts | None \<Rightarrow> []) index rs)"
    and "k \<notin> snd ` set hubs \<Longrightarrow> only k (receipt_events hubs index rs) = []"
  by (induction rs arbitrary: index) (simp_all add: only_receipt [OF assms] extend_logs_hub del: extend_logs.simps(2))

lemma only_logs:
  assumes "distinct (map snd hubs)"
  shows "(f, k) \<in> set hubs \<Longrightarrow> only k (log_events hubs R ns) = owed (SubLogs f) B R ns"
    and "k \<notin> snd ` set hubs \<Longrightarrow> only k (log_events hubs R ns) = []"
  by (induction ns) (simp_all add: log_events_def only_receipts [OF assms])

text \<open>Of what a tick sends, an open subscriber gets what the new blocks owe it.\<close>

lemma only_tick:
  assumes "distinct (sinks_of u)" and "subscribed ty k u" and "ty \<noteq> SubSyncing"
  shows "only k (header_events (sb_header_hubs u) B ns @ to_each (sb_sync_hubs u) e @ log_events (sb_log_hubs u) R ns) = owed ty B R ns"
proof -
  have d: "distinct (sb_header_hubs u)" "distinct (sb_sync_hubs u)" "distinct (map snd (sb_log_hubs u))"
    and disjoint: "set (sb_header_hubs u) \<inter> set (sb_sync_hubs u) = {}" "set (sb_header_hubs u) \<inter> snd ` set (sb_log_hubs u) = {}"
      "set (sb_sync_hubs u) \<inter> snd ` set (sb_log_hubs u) = {}"
    using assms(1) by (auto simp: sinks_of_def)
  note only = only_headers [OF d(1), of k B ns R] only_to_each [OF d(2), of k e]
  show ?thesis
  proof (cases ty)
    case SubNewHeads
    with assms(2) disjoint only only_logs(2) [OF d(3), of k R ns] show ?thesis by auto
  next
    case (SubLogs f)
    with assms(2) have "k \<in> snd ` set (sb_log_hubs u)" by force
    with disjoint have "k \<notin> set (sb_header_hubs u)" "k \<notin> set (sb_sync_hubs u)" by auto
    with SubLogs assms(2) only only_logs(1) [OF d(3), of f k R ns B] show ?thesis by simp
  qed (use assms(3) in simp)
qed

definition tick_heights :: "('s \<Rightarrow> chain_view) \<Rightarrow> u64 \<Rightarrow> 's sub_input list \<Rightarrow> u64 list" where
  "tick_heights view current inputs =
     current # List.map_filter (\<lambda>i. case i of Tick closed s \<Rightarrow> Some (latest_number (view s)) | Subscribe _ _ \<Rightarrow> None) inputs"

text \<open>At each tick the node is sound, its chain is the given history, and the sink is open.\<close>

fun tick_ok ::
  "('s \<Rightarrow> bool) \<Rightarrow> ('s \<Rightarrow> chain_view) \<Rightarrow> (u64 \<Rightarrow> block) \<Rightarrow> (u64 \<Rightarrow> receipt list) \<Rightarrow> sink \<Rightarrow> 's sub_input \<Rightarrow> bool" where
  "tick_ok valid view B R k (Tick closed s) \<longleftrightarrow> valid s \<and> follows B R (view s) \<and> \<not> closed k"
| "tick_ok valid view B R k (Subscribe ty j) \<longleftrightarrow> True"

definition new_sinks :: "'s sub_input list \<Rightarrow> sink list" where
  "new_sinks inputs = List.map_filter (\<lambda>i. case i of Subscribe _ k \<Rightarrow> Some k | Tick _ _ \<Rightarrow> None) inputs"

lemma input_lists [simp]:
  "new_sinks [] = []" "new_sinks (Subscribe t k # inputs) = k # new_sinks inputs"
  "new_sinks (Tick closed s # inputs) = new_sinks inputs" "tick_heights view n [] = [n]"
  "tick_heights view n (Subscribe t k # inputs) = tick_heights view n inputs"
  "tick_heights view n (Tick closed s # inputs) = n # tick_heights view (latest_number (view s)) inputs"
  "tick_heights view n inputs \<noteq> []"
  by (simp_all add: new_sinks_def tick_heights_def List.map_filter_def)

lemma subscribe_facts:
  "mset (sinks_of (subscribe t j u)) = mset (sinks_of u @ [j])"
  "subscribed ty k u \<Longrightarrow> subscribed ty k (subscribe t j u)"
  "sb_current_number (subscribe t j u) = sb_current_number u" "sb_sent (subscribe t j u) = sb_sent u"
  by (cases t; cases ty; simp add: subscribe_def sinks_of_def)+

lemma retain_open_facts:
  "set (sinks_of (retain_open closed u)) \<subseteq> set (sinks_of u)" "distinct (sinks_of u) \<Longrightarrow> distinct (sinks_of (retain_open closed u))"
  "subscribed ty k u \<Longrightarrow> \<not> closed k \<Longrightarrow> subscribed ty k (retain_open closed u)"
  "sb_current_number (retain_open closed u) = sb_current_number u" "sb_sent (retain_open closed u) = sb_sent u"
proof -
  have "sinks_of (retain_open closed u) = filter (\<lambda>k. \<not> closed k) (sinks_of u)"
    by (simp add: sinks_of_def retain_open_def filter_map comp_def case_prod_beta')
  then show "set (sinks_of (retain_open closed u)) \<subseteq> set (sinks_of u)" "distinct (sinks_of u) \<Longrightarrow> distinct (sinks_of (retain_open closed u))"
    by auto
qed (cases ty; simp add: retain_open_def)+

lemma fresh_heights_append:
  "a \<le> b \<Longrightarrow> b \<le> c \<Longrightarrow> fresh_heights a b @ fresh_heights b c = fresh_heights a c"
  using upt_append_le [of "Suc (unat a)" "Suc (unat b)" "Suc (unat c)"]
  by (simp add: fresh_heights_def word_le_nat_alt flip: map_append del: upt_Suc)

lemma owed_append: "owed ty B R (ns @ ms) = owed ty B R ns @ owed ty B R ms"
  by (cases ty) simp_all

context chain_reader
begin

text \<open>One tick, whether the chain has grown or not.\<close>

lemma tick_delivers:
  assumes s: "valid s" "follows B R (view s)" and le: "sb_current_number u \<le> latest_number (view s)"
    and u: "distinct (sinks_of u)" "subscribed ty k u" "ty \<noteq> SubSyncing" "\<not> closed k"
  shows "\<exists>u' s'. notify A sync closed (u, s) = ((u', s'), Inr ()) \<and> sb_current_number u' = latest_number (view s) \<and>
    only k (sb_sent u') = only k (sb_sent u) @ owed ty B R (fresh_heights (sb_current_number u) (latest_number (view s))) \<and>
    distinct (sinks_of u') \<and> set (sinks_of u') \<subseteq> set (sinks_of u) \<and> subscribed ty k u'"
proof (cases "sb_current_number u = latest_number (view s)")
  case True
  have "owed ty B R (fresh_heights n n) = []" for n by (cases ty) (simp_all add: fresh_heights_def)
  with notify_idle [OF s(1) True, of sync closed] True u show ?thesis
    by (auto simp: retain_open_facts dest: subsetD [OF retain_open_facts(1)])
next
  case False
  let ?v = "retain_open closed u" and ?ns = "fresh_heights (sb_current_number u) (latest_number (view s))"
  have less: "sb_current_number u < latest_number (view s)" using le False by simp
  have v: "distinct (sinks_of ?v)" "subscribed ty k ?v" "set (sinks_of ?v) \<subseteq> set (sinks_of u)" using u by (simp_all add: retain_open_facts)
  obtain s' st where "notify A sync closed (u, s) =
      (((sent_more (header_events (sb_header_hubs ?v) B ?ns @ to_each (sb_sync_hubs ?v) (EvSync (web3_sync_status_from st)) @
          log_events (sb_log_hubs ?v) R ?ns) ?v) \<lparr>sb_current_number := latest_number (view s)\<rparr>, s'), Inr ())"
    using notify_sends [OF s less, of sync closed] by blast
  moreover have "only k (sb_sent ?v @ header_events (sb_header_hubs ?v) B ?ns @ to_each (sb_sync_hubs ?v) (EvSync (web3_sync_status_from st)) @
      log_events (sb_log_hubs ?v) R ?ns) = only k (sb_sent u) @ owed ty B R ?ns"
    using only_tick [OF v(1,2) u(3), of B ?ns "EvSync (web3_sync_status_from st)" R] by (simp add: retain_open_facts)
  moreover have "sinks_of (sent_more es ?v\<lparr>sb_current_number := n\<rparr>) = sinks_of ?v"
      "subscribed ty k (sent_more es ?v\<lparr>sb_current_number := n\<rparr>) = subscribed ty k ?v" for es n
    by (simp_all add: sinks_of_def) (cases ty; simp)
  ultimately show ?thesis using v by simp
qed

lemma run_delivers:
  assumes "list_all (tick_ok valid view B R k) inputs"
    and "sorted_wrt (\<le>) (tick_heights view (sb_current_number u) inputs)"
    and "distinct (sinks_of u @ new_sinks inputs)" and "subscribed ty k u" and "ty \<noteq> SubSyncing"
  shows "\<exists>u'. sub_run A sync u inputs = Inr u' \<and> sb_current_number u' = last (tick_heights view (sb_current_number u) inputs) \<and>
    only k (sb_sent u') = only k (sb_sent u) @
      owed ty B R (fresh_heights (sb_current_number u) (last (tick_heights view (sb_current_number u) inputs)))"
  using assms
proof (induction inputs arbitrary: u)
  case Nil
  then show ?case by (cases ty) (simp_all add: fresh_heights_def)
next
  case (Cons i inputs)
  have inputs: "list_all (tick_ok valid view B R k) inputs" using Cons.prems(1) by simp
  show ?case
  proof (cases i)
    case (Subscribe t j)
    have "distinct (sinks_of (subscribe t j u) @ new_sinks inputs)"
      using Cons.prems(3) Subscribe mset_eq_imp_distinct_iff [OF subscribe_facts(1) [of t j u]] mset_eq_setD [OF subscribe_facts(1) [of t j u]]
      by auto
    with Cons.IH [OF inputs, of "subscribe t j u"] Cons.prems(2-5) Subscribe show ?thesis by (simp add: subscribe_facts)
  next
    case (Tick closed s)
    let ?n = "latest_number (view s)" and ?h = "tick_heights view (latest_number (view s)) inputs"
    have s: "valid s" "follows B R (view s)" "\<not> closed k" using Cons.prems(1) Tick by auto
    have le: "sb_current_number u \<le> ?n" "sorted_wrt (\<le>) ?h" using Cons.prems(2) Tick by (auto simp: tick_heights_def)
    have "?n \<le> last ?h" using le(2) by (auto simp: tick_heights_def dest!: last_in_set split: if_splits)
    note join = fresh_heights_append [OF le(1) this]
    have "distinct (sinks_of u)" using Cons.prems(3) by simp
    from tick_delivers [where closed = closed, OF s(1,2) le(1) this Cons.prems(4,5) s(3), of sync] obtain u' s' where
      u': "notify A sync closed (u, s) = ((u', s'), Inr ())" "sb_current_number u' = ?n" "distinct (sinks_of u')"
        "only k (sb_sent u') = only k (sb_sent u) @ owed ty B R (fresh_heights (sb_current_number u) ?n)"
        "set (sinks_of u') \<subseteq> set (sinks_of u)" "subscribed ty k u'" by auto
    have "distinct (sinks_of u' @ new_sinks inputs)" using Cons.prems(3) u'(3,5) Tick by auto
    with Cons.IH [OF inputs, of u'] Cons.prems(5) le(2) u' show ?thesis
      by (auto simp: Tick join [symmetric] owed_append)
  qed
qed

end

section \<open>Properties\<close>

text \<open>
  Property C20. A subscriber misses nothing and gets nothing twice: whatever other subscribers come
  and go and however the ticks fall while the chain grows, the task keeps running, and a
  subscriber that stays open receives, after what it had, exactly the headers (or exactly the
  logs matching its filter) of the blocks after the one sent last, in order, up to the latest
  block of the last tick.
\<close>

theorem subscriber_gets_every_block:
  assumes "list_all (tick_ok (api_inv E dbview) (api_view E dbview) B R k) inputs"
    and "sorted_wrt (\<le>) (tick_heights (api_view E dbview) (sb_current_number u) inputs)"
    and "distinct (sinks_of u @ new_sinks inputs)" and "subscribed ty k u" and "ty \<noteq> SubSyncing"
  shows "\<exists>u'. sub_run (default_api_adapter E) sync u inputs = Inr u' \<and>
    sb_current_number u' = last (tick_heights (api_view E dbview) (sb_current_number u) inputs) \<and>
    only k (sb_sent u') = only k (sb_sent u) @
      owed ty B R (fresh_heights (sb_current_number u) (last (tick_heights (api_view E dbview) (sb_current_number u) inputs)))"
  by (rule api.run_delivers [OF assms])

definition sample_history :: "u64 \<Rightarrow> block" where
  "sample_history n = (if n = 0 then sample_block 0 [] else sample_block 1 [7])"

definition sample_receipts :: "u64 \<Rightarrow> receipt list" where
  "sample_receipts n = receipts_of (api_view sample_api_env mem_view sample_api_node) (sample_history n)"

lemma sample_follows: "follows sample_history sample_receipts (api_view sample_api_env mem_view sample_api_node)"
  by (auto simp: follows_def sample_receipts_def sample_history_def latest_number_def sample_api_view sample_block_def
      sample_header_def word_less_nat_alt unat_gt_0)

theorem subscriber_gets_every_block_witness:
  "\<exists>u'. sub_run (default_api_adapter sample_api_env) (\<lambda>_. SyncFalse)
      \<lparr>sb_log_hubs = [], sb_header_hubs = [3], sb_sync_hubs = [], sb_current_number = 0, sb_sent = []\<rparr>
      [Subscribe SubSyncing 5, Tick (\<lambda>k. k = 4) sample_api_node, Tick (\<lambda>k. k = 5) sample_api_node] = Inr u' \<and>
    only 3 (sb_sent u') = [EvHeader (web3_header_from (sample_header 1))]"
proof -
  let ?u = "\<lparr>sb_log_hubs = [], sb_header_hubs = [3], sb_sync_hubs = [], sb_current_number = 0, sb_sent = []\<rparr>"
  let ?inputs = "[Subscribe SubSyncing 5, Tick (\<lambda>k. k = 4) sample_api_node, Tick (\<lambda>k. k = 5) sample_api_node]"
  have one: "latest_number (api_view sample_api_env mem_view sample_api_node) = 1"
    by (simp add: latest_number_def sample_api_view sample_block_def sample_header_def)
  have "\<exists>u'. sub_run (default_api_adapter sample_api_env) (\<lambda>_. SyncFalse) ?u ?inputs = Inr u' \<and>
      sb_current_number u' = last (tick_heights (api_view sample_api_env mem_view) (sb_current_number ?u) ?inputs) \<and>
      only 3 (sb_sent u') = only 3 (sb_sent ?u) @ owed SubNewHeads sample_history sample_receipts
        (fresh_heights (sb_current_number ?u) (last (tick_heights (api_view sample_api_env mem_view) (sb_current_number ?u) ?inputs)))"
    by (rule subscriber_gets_every_block) (use sample_api_inv sample_follows one in \<open>auto simp: sinks_of_def\<close>)
  moreover have "fresh_heights 0 1 = [1]" by (simp add: fresh_heights_def)
  ultimately show ?thesis by (auto simp: one sample_history_def sample_block_def)
qed

end
