(* ===== verification/Engine.thy ===== *)
theory Engine
  imports Consensus_Adapter
begin

text \<open>
  The consensus engine of \<open>core/consensus/src/engine.rs\<close>: proposing, checking and
  committing a block, with the status that both the engine and the synchronization
  advance. A clock reading is an argument of the operation that takes it. The lock the
  engine shares with the synchronization is the flag \<open>cn_lock\<close> of the node: an operation
  that finds it set runs while the other component holds the lock.
\<close>

section \<open>Data\<close>

record ov_proof =
  op_height :: u64
  op_round :: u64
  op_block_hash :: bytes
  op_signature :: bytes
  op_bitmap :: bytes

record ov_commit =
  oc_height :: u64
  oc_content :: proposal
  oc_proof :: ov_proof

text \<open>Messages of the Overlord protocol, the signed ones by their RLP bytes.\<close>

datatype overlord_msg =
    SignedProposal bytes
  | SignedVote bytes
  | AggregatedVote bytes
  | SignedChoke bytes
  | RichStatus ov_status
  | StopMsg

section \<open>Helpers\<close>

definition hash_from_slice :: "bytes \<Rightarrow> consensus_error + hash" where
  "hash_from_slice bs = (if length bs = 32 then Inr (from_be_bytes bs) else Inl CePanic)"

definition proof_follows :: "u64 \<Rightarrow> block_proof \<Rightarrow> consensus_error + unit" where
  "proof_follows number p =
     res_bind (ok_or CePanic (checked_add (pf_number p) 1)) (\<lambda>next.
       if number \<noteq> next
       then res_bind (ok_or CePanic (checked_sub number 1)) (\<lambda>e. Inl (CeInvalidProof e (pf_number p)))
       else Inr ())"

definition order_root :: "('d, 't, 'p) consensus_env \<Rightarrow> hash list \<Rightarrow> hash" where
  "order_root E hs = root_or_default (mp_keccak (ce_mempool E)) (xe_tree_root (ce_exec E)) hs"

definition stxs_digest :: "('d, 't, 'p) consensus_env \<Rightarrow> signed_transaction list \<Rightarrow> consensus_error + hash" where
  "stxs_digest E stxs = digest_signed_transactions (mp_rlp (ce_mempool E)) (mp_keccak (ce_mempool E)) stxs"

definition contains_change_metadata :: "('d, 't, 'p) consensus_env \<Rightarrow> signed_transaction list \<Rightarrow> bool" where
  "contains_change_metadata E txs =
     (\<exists>tx\<in>set txs. tx_action (stx_unsigned tx) = Call (ce_metadata_address E))"

definition validate_timestamp :: "u64 \<Rightarrow> u64 \<Rightarrow> u64 \<Rightarrow> bool" where
  "validate_timestamp current_timestamp proposal_timestamp previous_timestamp =
     (if proposal_timestamp < previous_timestamp then False
      else if current_timestamp < proposal_timestamp then False
      else True)"

definition convert_to_overlord_authority ::
  "('d, 't, 'p) consensus_env \<Rightarrow> validator_extend list \<Rightarrow> ov_node list" where
  "convert_to_overlord_authority E validators = ce_sort_nodes E (map node_of_extend validators)"

fun crypto_map_from :: "bls_lib \<Rightarrow> validator_extend list \<Rightarrow> (bytes \<rightharpoonup> bytes) \<Rightarrow> consensus_error + (bytes \<rightharpoonup> bytes)" where
  "crypto_map_from B [] m = Inr m"
| "crypto_map_from B (v # vs) m =
     res_bind (map_err (\<lambda>e. CeOther (''try from bls pubkey error '' @ e)) (bl_public_key B (ve_bls_pub_key v)))
       (\<lambda>pubkey. crypto_map_from B vs (m(ve_pub_key v \<mapsto> pubkey)))"

definition generate_new_crypto_map :: "bls_lib \<Rightarrow> metadata \<Rightarrow> consensus_error + (bytes \<rightharpoonup> bytes)" where
  "generate_new_crypto_map B metadata = crypto_map_from B (md_verifier_list metadata) Map.empty"

definition receipt_of ::
  "('d, 't, 'p) consensus_env \<Rightarrow> u64 \<Rightarrow> hash \<Rightarrow> hash \<Rightarrow> nat \<Rightarrow> signed_transaction \<Rightarrow> tx_resp \<Rightarrow> receipt" where
  "receipt_of E block_number block_hash root idx tx res =
     \<lparr>rc_tx_hash = stx_hash tx, rc_block_number = block_number, rc_block_hash = block_hash,
      rc_tx_index = of_nat idx, rc_state_root = root, rc_used_gas = ucast (tr_gas_used res),
      rc_logs_bloom = ce_log_bloom E (tr_logs res), rc_logs = tr_logs res,
      rc_code_address = tr_code_address res, rc_sender = stx_sender tx, rc_ret = tr_exit_reason res\<rparr>"

definition generate_receipts_and_logs ::
  "('d, 't, 'p) consensus_env \<Rightarrow> u64 \<Rightarrow> hash \<Rightarrow> hash \<Rightarrow> signed_transaction list \<Rightarrow> exec_resp
   \<Rightarrow> receipt list \<times> evm_log list list" where
  "generate_receipts_and_logs E block_number block_hash root txs resp =
     (let receipts =
        map (\<lambda>((idx, tx), res). receipt_of E block_number block_hash root idx tx res)
          (zip (List.enumerate 0 txs) (er_tx_resp resp))
      in (receipts, map rc_logs receipts))"

definition header_hash :: "('d, 't, 'p) consensus_env \<Rightarrow> block \<Rightarrow> hash" where
  "header_hash E b = se_header_hash (ce_store E) (bk_header b)"

definition new_block :: "('d, 't, 'p) consensus_env \<Rightarrow> proposal \<Rightarrow> exec_resp \<Rightarrow> block" where
  "new_block E p resp = block_new (ce_log_bloom E) (ce_bloom_of_blooms E) p resp"

definition u256_to_u64 :: "u256 \<Rightarrow> consensus_error + u64" where
  "u256_to_u64 x = (if unat x < 2 ^ 64 then Inr (ucast x) else Inl CePanic)"

definition checked_next :: "u64 \<Rightarrow> ('d, 't, u64) cn_op" where
  "checked_next n = st_lift (ok_or CePanic (checked_add n 1))"

definition next_status :: "('d, 't, 'p) consensus_env \<Rightarrow> u64 \<Rightarrow> metadata \<Rightarrow> ov_status" where
  "next_status E height metadata =
     \<lparr>os_height = height, os_interval = Some (md_interval metadata),
      os_timer_config = Some (duration_config_from_metadata metadata),
      os_authority_list = convert_to_overlord_authority E (md_verifier_list metadata)\<rparr>"

section \<open>The logs\<close>

definition wal_err :: "wal_error \<Rightarrow> consensus_error" where
  "wal_err e = (if e = WalPanic then CePanic else CeWal e)"

definition txs_wal_save ::
  "('d, 't, 'p) consensus_env \<Rightarrow> u64 \<Rightarrow> hash \<Rightarrow> signed_transaction list \<Rightarrow> ('d, 't, unit) cn_op" where
  "txs_wal_save E number h txs s =
     (case signed_wal_save (ce_hash_display E) (ce_wal_encode E) number h txs (cn_txs_wal s) of
        (w, r) \<Rightarrow> (s\<lparr>cn_txs_wal := w\<rparr>, map_err wal_err r))"

definition txs_wal_load ::
  "('d, 't, 'p) consensus_env \<Rightarrow> u64 \<Rightarrow> hash \<Rightarrow> ('d, 't, signed_transaction list) cn_op" where
  "txs_wal_load E number h s =
     (s, map_err wal_err (signed_wal_load (ce_hash_display E) (ce_wal_decode E) number h (cn_txs_wal s)))"

definition txs_wal_remove :: "u64 \<Rightarrow> ('d, 't, unit) cn_op" where
  "txs_wal_remove number s =
     (case signed_wal_remove number (cn_txs_wal s) of (w, r) \<Rightarrow> (s\<lparr>cn_txs_wal := w\<rparr>, map_err wal_err r))"

text \<open>
  The \<open>Wal\<close> of the engine. \<open>None\<close> says that the operation does not return: the loops of the
  Overlord log may run forever.
\<close>

definition engine_wal_save ::
  "('d, 't, 'p) consensus_env \<Rightarrow> (nat \<Rightarrow> u128 option) \<Rightarrow> bytes \<Rightarrow> ('d, 't) chain_node
   \<Rightarrow> (('d, 't) chain_node \<times> (consensus_error + unit)) option" where
  "engine_wal_save E clock info s =
     map_option (\<lambda>(w, r). (s\<lparr>cn_consensus_wal := w\<rparr>,
         map_err (\<lambda>e. if e = WalPanic then CePanic else CeOther ''wal'') r))
       (update_overlord_wal (mp_keccak (ce_mempool E)) clock info (cn_consensus_wal s))"

definition engine_wal_load ::
  "('d, 't, 'p) consensus_env \<Rightarrow> ('d, 't) chain_node \<Rightarrow> (consensus_error + bytes option) option" where
  "engine_wal_load E s =
     map_option (\<lambda>r. case r of Inl WalPanic \<Rightarrow> Inl CePanic | Inl _ \<Rightarrow> Inr None | Inr info \<Rightarrow> Inr (Some info))
       (load_overlord_wal (mp_keccak (ce_mempool E)) (cn_consensus_wal s))"

section \<open>Proposing a block\<close>

definition make_proposal ::
  "('d, 't, 'p) consensus_env \<Rightarrow> u64 \<Rightarrow> u64 \<Rightarrow> current_status \<Rightarrow> hash list \<Rightarrow> hash \<Rightarrow> proposal" where
  "make_proposal E now next_number status txs signed_txs_hash =
     \<lparr>pp_prev_hash = cs_prev_hash status, pp_proposer = ce_self_address E,
      pp_transactions_root = order_root E txs, pp_signed_txs_hash = signed_txs_hash,
      pp_timestamp = now, pp_number = next_number, pp_gas_limit = 100000000000, pp_extra_data = [],
      pp_mixed_hash = None, pp_base_fee_per_gas = cs_base_fee_per_gas status, pp_proof = cs_proof status,
      pp_last_checkpoint_block_hash = cs_last_checkpoint_block_hash status, pp_chain_id = ce_chain_id E,
      pp_tx_hashes = txs\<rparr>"

definition engine_get_block ::
  "('d, 't, 'p) consensus_env \<Rightarrow> u64 \<Rightarrow> u64 \<Rightarrow> ('d, 't, proposal \<times> bytes) cn_op" where
  "engine_get_block E now next_number =
     st_bind (st_gets cn_status) (\<lambda>status.
     st_bind (get_txs_from_mempool E (cs_tx_num_limit status)) (\<lambda>txs.
     st_bind (adapter_get_full_txs E txs) (\<lambda>signed_txs.
     st_bind (st_lift (stxs_digest E signed_txs)) (\<lambda>signed_txs_hash.
       let p = make_proposal E now next_number status txs signed_txs_hash
       in st_bind (st_lift (proof_follows next_number (pp_proof p))) (\<lambda>_.
            let h = proposal_hash E p
            in st_seq (st_modify (\<lambda>s. s\<lparr>cn_exemption := insert h (cn_exemption s)\<rparr>))
                 (st_return (p, to_be_bytes 32 h)))))))"

section \<open>Checking a proposal\<close>

definition check_order_transactions ::
  "('d, 't, 'p) consensus_env \<Rightarrow> proposal \<Rightarrow> signed_transaction list \<Rightarrow> consensus_error + unit" where
  "check_order_transactions E p signed_txs =
     res_bind (stxs_digest E signed_txs) (\<lambda>stxs_hash.
       if stxs_hash \<noteq> pp_signed_txs_hash p
       then Inl (CeInvalidOrderSignedTransactionsHash stxs_hash (pp_signed_txs_hash p))
       else if order_root E (pp_tx_hashes p) \<noteq> pp_transactions_root p
       then Inl (CeInvalidOrderRoot (order_root E (pp_tx_hashes p)) (pp_transactions_root p))
       else Inr ())"

text \<open>\<open>origin\<close> tells whether the context of the check names a peer.\<close>

definition inner_check_block ::
  "('d, 't, 'p) consensus_env \<Rightarrow> bool \<Rightarrow> u64 \<Rightarrow> proposal \<Rightarrow> ('d, 't, unit) cn_op" where
  "inner_check_block E origin current_timestamp p =
     st_seq (verify_block_header E p)
    (st_bind (st_lift (ok_or CePanic (checked_sub (pp_number p) 1))) (\<lambda>prev_number.
     st_bind (get_block_by_number E prev_number) (\<lambda>previous_block.
       if \<not> validate_timestamp current_timestamp (pp_timestamp p) (hd_timestamp (bk_header previous_block))
       then st_throw CeInvalidTimestamp
       else
         st_seq (verify_proof E previous_block (pp_proof p))
        (st_seq (verify_txs E origin (pp_number p) (pp_tx_hashes p))
        (st_bind (adapter_get_full_txs E (pp_tx_hashes p)) (\<lambda>signed_txs.
           st_lift (check_order_transactions E p signed_txs)))))))"

text \<open>The failure is kept as the reason of a later view change; a panic keeps nothing.\<close>

definition recording_failure :: "('d, 't, unit) cn_op \<Rightarrow> ('d, 't, unit) cn_op" where
  "recording_failure m s =
     (case m s of
        (s', Inl CePanic) \<Rightarrow> (s', Inl CePanic)
      | (s', Inl e) \<Rightarrow> (s'\<lparr>cn_fail_reason := Some e\<rparr>, Inl e)
      | (s', Inr u) \<Rightarrow> (s', Inr u))"

definition engine_check_block ::
  "('d, 't, 'p) consensus_env \<Rightarrow> bool \<Rightarrow> u64 \<Rightarrow> u64 \<Rightarrow> bytes \<Rightarrow> proposal \<Rightarrow> ('d, 't, unit) cn_op" where
  "engine_check_block E origin now next_number hash_bytes p =
     st_seq (st_lift (proof_follows (pp_number p) (pp_proof p)))
    (st_bind (st_lift (hash_from_slice hash_bytes)) (\<lambda>h.
     st_bind (st_gets (\<lambda>s. h \<in> cn_exemption s)) (\<lambda>exemption.
     st_seq (if exemption then st_return () else recording_failure (inner_check_block E origin now p))
    (st_bind (adapter_get_full_txs E (pp_tx_hashes p)) (\<lambda>txs.
       txs_wal_save E next_number (pp_transactions_root p) txs)))))"

section \<open>Committing a block\<close>

definition update_overlord_crypto :: "('d, 't, 'p) consensus_env \<Rightarrow> metadata \<Rightarrow> ('d, 't, unit) cn_op" where
  "update_overlord_crypto E metadata =
     st_bind (st_lift (generate_new_crypto_map (ce_bls E) metadata)) crypto_update"

definition refresh_authority :: "('d, 't, 'p) consensus_env \<Rightarrow> u64 \<Rightarrow> ('d, 't, unit) cn_op" where
  "refresh_authority E next_block_number =
     st_bind (adapter_need_change_metadata E next_block_number) (\<lambda>change.
       if change
       then st_bind (adapter_metadata_unchecked E next_block_number) (\<lambda>metadata.
              st_seq (tag_consensus (map ve_pub_key (md_verifier_list metadata)))
                (update_overlord_crypto E metadata))
       else st_return ())"

definition status_after ::
  "('d, 't, 'p) consensus_env \<Rightarrow> block \<Rightarrow> exec_resp \<Rightarrow> block_proof \<Rightarrow> current_status \<Rightarrow> current_status" where
  "status_after E b resp p last_status =
     \<lparr>cs_prev_hash = header_hash E b, cs_last_number = hd_number (bk_header b),
      cs_last_state_root = er_state_root resp, cs_tx_num_limit = cs_tx_num_limit last_status,
      cs_gas_limit = cs_gas_limit last_status, cs_max_tx_size = cs_max_tx_size last_status,
      cs_base_fee_per_gas = hd_base_fee_per_gas (bk_header b), cs_proof = p,
      cs_last_checkpoint_block_hash = cs_last_checkpoint_block_hash last_status\<rparr>"

text \<open>The last part of \<open>update_status\<close>: the new status, the state root and the mempool's limits.\<close>

definition swap_status ::
  "('d, 't, 'p) consensus_env \<Rightarrow> block \<Rightarrow> exec_resp \<Rightarrow> block_proof \<Rightarrow> ('d, 't, unit) cn_op" where
  "swap_status E b resp p =
     st_bind (st_gets cn_status) (\<lambda>last_status.
     st_seq (st_modify (\<lambda>s. s\<lparr>nd_state_root := er_state_root resp, cn_status := status_after E b resp p last_status\<rparr>))
    (st_bind (st_lift (u256_to_u64 (cs_gas_limit last_status))) (\<lambda>gas_limit.
     st_bind (st_lift (u256_to_u64 (cs_max_tx_size last_status))) (\<lambda>max_tx_size.
       adapter_set_args gas_limit max_tx_size))))"

definition save_executed ::
  "('d, 't, 'p) consensus_env \<Rightarrow> block \<Rightarrow> exec_resp \<Rightarrow> block_proof \<Rightarrow> signed_transaction list \<Rightarrow> ('d, 't, unit) cn_op" where
  "save_executed E b resp p txs =
     (let block_number = hd_number (bk_header b);
          (receipts, logs) = generate_receipts_and_logs E block_number (header_hash E b)
             (hd_state_root (bk_header b)) txs resp
      in
        st_seq (notify_block_logs block_number (header_hash E b) logs)
       (st_seq (if ce_cross_period_interval E = 0 then st_throw CePanic
                else st_when (block_number mod ce_cross_period_interval E = 0) (notify_checkpoint b p))
       (st_seq (save_signed_txs E block_number txs)
       (st_seq (save_receipts E block_number receipts)
          (save_block E b)))))"

definition engine_update_status ::
  "('d, 't, 'p) consensus_env \<Rightarrow> exec_resp \<Rightarrow> proposal \<Rightarrow> block_proof \<Rightarrow> signed_transaction list \<Rightarrow> ('d, 't, unit) cn_op" where
  "engine_update_status E resp pr p txs =
     (let b = new_block E pr resp in
      st_bind (checked_next (hd_number (bk_header b))) (\<lambda>next_block_number.
      st_seq (save_executed E b resp p txs)
     (st_seq (st_when (contains_change_metadata E txs) (adapter_update_metadata E (bk_header b)))
     (st_seq (refresh_authority E next_block_number)
        (swap_status E b resp p)))))"

text \<open>The elapsed time itself is only reported to the monitoring.\<close>

definition metric_commit :: "u64 \<Rightarrow> u64 \<Rightarrow> ('d, 't, unit) cn_op" where
  "metric_commit now current_height =
     st_bind (checked_next current_height) (\<lambda>_.
     st_bind (st_gets cn_last_commit_time) (\<lambda>last_commit_time.
     st_bind (st_lift (ok_or CePanic (checked_sub now last_commit_time))) (\<lambda>_.
       st_modify (\<lambda>s. s\<lparr>cn_last_commit_time := now\<rparr>))))"

definition commit_proof :: "ov_proof \<Rightarrow> consensus_error + block_proof" where
  "commit_proof p =
     res_bind (hash_from_slice (op_block_hash p)) (\<lambda>h.
       Inr \<lparr>pf_number = op_height p, pf_round = op_round p, pf_block_hash = h,
            pf_signature = op_signature p, pf_bitmap = op_bitmap p\<rparr>)"

definition txs_or_wal ::
  "('d, 't, 'p) consensus_env \<Rightarrow> u64 \<Rightarrow> proposal \<Rightarrow> ('d, 't, signed_transaction list) cn_op" where
  "txs_or_wal E current_number pr s =
     (case adapter_get_full_txs E (pp_tx_hashes pr) s of
        (s', Inr txs) \<Rightarrow> (s', Inr txs)
      | (s', Inl CePanic) \<Rightarrow> (s', Inl CePanic)
      | (s', Inl _) \<Rightarrow> txs_wal_load E current_number (pp_transactions_root pr) s')"

definition execute_commit ::
  "('d, 't, 'p) consensus_env \<Rightarrow> u64 \<Rightarrow> ov_commit
   \<Rightarrow> ('d, 't, block_proof \<times> signed_transaction list \<times> exec_resp) cn_op" where
  "execute_commit E current_number c =
     st_bind (st_lift (commit_proof (oc_proof c))) (\<lambda>p.
     st_seq (save_proof E p)
    (st_bind (txs_or_wal E current_number (oc_content c)) (\<lambda>signed_txs.
     st_bind (st_gets cn_status) (\<lambda>status.
     st_bind (adapter_exec E (cs_last_state_root status) (oc_content c) signed_txs) (\<lambda>resp.
       st_return (p, signed_txs, resp))))))"

definition finish_commit ::
  "('d, 't, 'p) consensus_env \<Rightarrow> u64 \<Rightarrow> u64 \<Rightarrow> ov_commit \<Rightarrow> ('d, 't, ov_status) cn_op" where
  "finish_commit E now current_number c =
     st_seq (flush_mempool E (pp_tx_hashes (oc_content c)))
    (st_seq (txs_wal_remove (saturating_sub current_number 2))
    (st_seq (st_modify (\<lambda>s. s\<lparr>cn_exemption := {}\<rparr>))
    (st_bind (checked_next current_number) (\<lambda>next_block_number.
     st_bind (adapter_metadata_unchecked E next_block_number) (\<lambda>metadata.
     st_seq (broadcast_number E current_number)
    (st_seq (metric_commit now current_number)
       (st_return (next_status E next_block_number metadata))))))))"

definition commit_block_of ::
  "('d, 't, 'p) consensus_env \<Rightarrow> u64 \<Rightarrow> u64 \<Rightarrow> ov_commit \<Rightarrow> ('d, 't, ov_status) cn_op" where
  "commit_block_of E now current_number c =
     st_bind (execute_commit E current_number c) (\<lambda>(p, signed_txs, resp).
     st_seq (engine_update_status E resp (oc_content c) p signed_txs)
       (finish_commit E now current_number c))"

definition engine_commit_unlocked ::
  "('d, 't, 'p) consensus_env \<Rightarrow> u64 \<Rightarrow> u64 \<Rightarrow> ov_commit \<Rightarrow> ('d, 't, ov_status) cn_op" where
  "engine_commit_unlocked E now current_number c =
     st_bind (st_gets cn_status) (\<lambda>status.
     st_bind (checked_next current_number) (\<lambda>next_block_number.
     st_bind (adapter_metadata_unchecked E next_block_number) (\<lambda>metadata.
       if current_number = cs_last_number status
       then st_return (next_status E next_block_number metadata)
       else
         st_bind (checked_next (cs_last_number status)) (\<lambda>expected.
           if current_number \<noteq> expected
           then st_throw (CeOutdatedCommit current_number (cs_last_number status))
           else commit_block_of E now current_number c))))"

text \<open>The lock is held from \<open>try_lock\<close> to the end of the operation, and freed when it panics.\<close>

definition with_commit_lock :: "('d, 't, 'v) cn_op \<Rightarrow> ('d, 't, 'v) cn_op \<Rightarrow> ('d, 't, 'v) cn_op" where
  "with_commit_lock busy m s =
     (if cn_lock s then busy s
      else case m (s\<lparr>cn_lock := True\<rparr>) of (s', r) \<Rightarrow> (s'\<lparr>cn_lock := False\<rparr>, r))"

definition engine_commit ::
  "('d, 't, 'p) consensus_env \<Rightarrow> u64 \<Rightarrow> u64 \<Rightarrow> ov_commit \<Rightarrow> ('d, 't, ov_status) cn_op" where
  "engine_commit E now current_number c =
     with_commit_lock (st_throw CeLockInSync) (engine_commit_unlocked E now current_number c)"

section \<open>Messages and authorities\<close>

definition broadcast_to_other :: "('d, 't, 'p) consensus_env \<Rightarrow> overlord_msg \<Rightarrow> ('d, 't, unit) cn_op" where
  "broadcast_to_other E msg =
     (case msg of
        SignedProposal bs \<Rightarrow> transmit E bs ''/gossip/consensus/signed_proposal'' ToBroadcast
      | AggregatedVote bs \<Rightarrow> transmit E bs ''/gossip/consensus/qc'' ToBroadcast
      | SignedChoke bs \<Rightarrow> transmit E bs ''/gossip/consensus/signed_choke'' ToBroadcast
      | _ \<Rightarrow> st_throw CePanic)"

definition transmit_to_relayer ::
  "('d, 't, 'p) consensus_env \<Rightarrow> bytes \<Rightarrow> overlord_msg \<Rightarrow> ('d, 't, unit) cn_op" where
  "transmit_to_relayer E pub_key msg =
     (case msg of
        SignedVote bs \<Rightarrow> transmit E bs ''/gossip/consensus/signed_vote'' (ToSpecified pub_key)
      | AggregatedVote bs \<Rightarrow> transmit E bs ''/gossip/consensus/qc'' (ToSpecified pub_key)
      | _ \<Rightarrow> st_throw CePanic)"

definition get_authority_list :: "('d, 't, 'p) consensus_env \<Rightarrow> u64 \<Rightarrow> ('d, 't, ov_node list) cn_op" where
  "get_authority_list E next_number =
     (if next_number = 0 then st_return []
      else
        st_bind (adapter_metadata_unchecked E next_number) (\<lambda>current_metadata.
        st_bind (if metadata_version_contains (md_version current_metadata) (next_number - 1)
                 then st_return current_metadata
                 else adapter_metadata_unchecked E (next_number - 1)) (\<lambda>old_metadata.
          st_return (ce_sort_nodes E (map node_of_extend (md_verifier_list old_metadata))))))"

section \<open>Frames\<close>

lemma keeps_on_mempool [frame_intros]: "keeps f m \<Longrightarrow> keeps f (on_mempool m)"
  by (auto simp: keeps_def on_mempool_def split: prod.split) (metis fst_conv)

lemma keeps_on_store [frame_intros]:
  "(\<And>s x. f (s\<lparr>nd_storage := x\<rparr>) = f s) \<Longrightarrow> keeps f (on_store op)"
  by (simp add: keeps_def on_store_def split: prod.split)

lemma keeps_on_metadata [frame_intros]:
  "(\<And>s x. f (s\<lparr>nd_metadata := x\<rparr>) = f s) \<Longrightarrow> keeps f (on_metadata op)"
  by (simp add: keeps_def on_metadata_def split: prod.split)

lemma keeps_metadata_unchecked [frame_intros]: "keeps f (adapter_metadata_unchecked E n)"
  by (simp add: keeps_def adapter_metadata_unchecked_def)

lemma keeps_net_send [frame_intros]:
  "(\<And>s x. f (s\<lparr>cn_net_out := x\<rparr>) = f s) \<Longrightarrow> keeps f (net_send E msg)"
  unfolding net_send_def by (intro frame_intros)

lemma keeps_get_full_txs [frame_intros]:
  assumes "\<And>s x. f (s\<lparr>nd_storage := x\<rparr>) = f s"
  shows "keeps f (get_full_txs E height hs)"
  unfolding get_full_txs_def get_transactions_from_storage_def Let_def
  by (intro frame_intros) (rule assms)+

lemma keeps_ensure_order_txs [frame_intros]:
  assumes "\<And>s x. f (s\<lparr>nd_storage := x\<rparr>) = f s" and "\<And>s x. f (s\<lparr>nd_addr_nonce := x\<rparr>) = f s"
    and "\<And>s x. f (s\<lparr>nd_reports := x\<rparr>) = f s" and "\<And>s x. f (s\<lparr>nd_pool := x\<rparr>) = f s"
  shows "keeps f (ensure_order_txs E origin height hs)"
  unfolding ensure_order_txs_def pull_txs_def verify_tx_in_parallel_def report_good_def
  by (intro frame_intros) (rule assms)+

lemma nonce_checks_keep:
  assumes "\<And>tx. keeps f (check_authorization E tx)"
  shows "f (fst (nonce_checks E txs s)) = f s"
proof (induction txs arbitrary: s)
  case (Cons tx txs)
  obtain s1 r where s1: "check_authorization E tx s = (s1, r)" by fastforce
  then show ?case
    using Cons.IH [of s1] keepsD [OF assms s1] by (auto simp: Let_def split: prod.splits)
qed simp

lemma keeps_mempool_flush:
  assumes "\<And>tx. keeps f (check_authorization E tx)" and "\<And>s x. f (s\<lparr>nd_pool := x\<rparr>) = f s"
  shows "keeps f (mempool_flush E iter hs)"
  using nonce_checks_keep [of f E, OF assms(1)] assms(2)
  by (simp add: keeps_def mempool_flush_def Let_def split: prod.split) (metis fst_conv)

lemma keeps_adapter_exec [frame_intros]:
  assumes "\<And>s x. f (s\<lparr>nd_storage := x\<rparr>) = f s" and "\<And>s x. f (s\<lparr>cn_trie_db := x\<rparr>) = f s"
  shows "keeps f (adapter_exec E root p txs)"
  using assms by (simp add: keeps_def adapter_exec_def split: sum.split prod.split)

lemma keeps_txs_wal [frame_intros]:
  assumes "\<And>s x. f (s\<lparr>cn_txs_wal := x\<rparr>) = f s"
  shows "keeps f (txs_wal_save E n h txs)" and "keeps f (txs_wal_load E n h)" and "keeps f (txs_wal_remove n)"
  using assms
  by (simp_all add: keeps_def txs_wal_save_def txs_wal_load_def txs_wal_remove_def split: prod.split)

lemma keeps_txs_or_wal [frame_intros]:
  assumes "\<And>s x. f (s\<lparr>nd_storage := x\<rparr>) = f s" and "\<And>s x. f (s\<lparr>cn_txs_wal := x\<rparr>) = f s"
  shows "keeps f (txs_or_wal E n p)"
proof -
  have "keeps f (adapter_get_full_txs E hs)" for hs
    unfolding adapter_get_full_txs_def by (intro frame_intros) (rule assms)
  then show ?thesis
    unfolding txs_or_wal_def keeps_def
    by (auto simp: txs_wal_load_def split: prod.split sum.split consensus_error.split) (metis fst_conv)+
qed

text \<open>The part of the node that only the engine and the synchronization advance.\<close>

definition consensus_view :: "('d, 't) chain_node \<Rightarrow> current_status \<times> hash \<times> hash set \<times> bool" where
  "consensus_view s = (cn_status s, nd_state_root s, cn_exemption s, cn_lock s)"

lemma consensus_view_upd [simp]:
  "consensus_view (s\<lparr>nd_storage := a\<rparr>) = consensus_view s"
  "consensus_view (s\<lparr>nd_metadata := b\<rparr>) = consensus_view s"
  "consensus_view (s\<lparr>nd_pool := c\<rparr>) = consensus_view s"
  "consensus_view (s\<lparr>nd_addr_nonce := d\<rparr>) = consensus_view s"
  "consensus_view (s\<lparr>nd_reports := e\<rparr>) = consensus_view s"
  "consensus_view (s\<lparr>cn_trie_db := f\<rparr>) = consensus_view s"
  "consensus_view (s\<lparr>cn_txs_wal := g\<rparr>) = consensus_view s"
  "consensus_view (s\<lparr>cn_net_out := h\<rparr>) = consensus_view s"
  "consensus_view (s\<lparr>cn_addr_pubkey := i\<rparr>) = consensus_view s"
  "consensus_view (s\<lparr>cn_block_logs := j\<rparr>) = consensus_view s"
  "consensus_view (s\<lparr>cn_checkpoints := k\<rparr>) = consensus_view s"
  "consensus_view (s\<lparr>cn_last_commit_time := l\<rparr>) = consensus_view s"
  "consensus_view (s\<lparr>cn_rich_status := m\<rparr>) = consensus_view s"
  "consensus_view (s\<lparr>cn_fail_reason := n\<rparr>) = consensus_view s"
  by (simp_all add: consensus_view_def)

lemma consensus_view_frames:
  "keeps consensus_view (save_proof E p)"
  "keeps consensus_view (save_executed E b resp p txs)"
  "keeps consensus_view (adapter_update_metadata E hdr)"
  "keeps consensus_view (refresh_authority E n)"
  "keeps consensus_view (flush_mempool E hs)"
  "keeps consensus_view (broadcast_number E n)"
  "keeps consensus_view (metric_commit now n)"
  unfolding save_proof_def save_executed_def adapter_update_metadata_def refresh_authority_def flush_mempool_def
    broadcast_number_def metric_commit_def notify_block_logs_def notify_checkpoint_def save_signed_txs_def
    save_receipts_def save_block_def adapter_need_change_metadata_def tag_consensus_def update_overlord_crypto_def
    crypto_update_def checked_next_def Let_def
  by (auto intro!: frame_intros keeps_mempool_flush split: prod.split)


lemma keeps_latest_block [frame_intros]:
  "keeps (\<lambda>s. is_latest_block (nd_storage s)) (check_authorization E tx)"
proof -
  have latest: "keeps (\<lambda>s. is_latest_block (nd_storage s)) (on_storage (get_latest_block A F))" for A F
    by (auto simp: keeps_def on_storage_def get_latest_block_def ensure_get_def schema_get_def st_bind_apply
        split: prod.splits sum.splits option.splits)
  show ?thesis
    unfolding check_authorization_def check_system_script_tx_authorization_def
    by (intro latest keeps_if keeps_bind keeps_seq keeps_option keeps_sum keeps_basic keeps_modify) simp
qed

lemma latest_block_frames:
  "keeps (\<lambda>s. is_latest_block (nd_storage s)) (adapter_update_metadata E hdr)"
  "keeps (\<lambda>s. is_latest_block (nd_storage s)) (refresh_authority E n)"
  "keeps (\<lambda>s. is_latest_block (nd_storage s)) (swap_status E b resp p)"
  "keeps (\<lambda>s. is_latest_block (nd_storage s)) (flush_mempool E hs)"
  "keeps (\<lambda>s. is_latest_block (nd_storage s)) (txs_wal_remove n)"
  "keeps (\<lambda>s. is_latest_block (nd_storage s)) (broadcast_number E n)"
  "keeps (\<lambda>s. is_latest_block (nd_storage s)) (metric_commit now n)"
  unfolding adapter_update_metadata_def refresh_authority_def flush_mempool_def adapter_set_args_def swap_status_def
    broadcast_number_def metric_commit_def mempool_set_args_def
    adapter_need_change_metadata_def tag_consensus_def update_overlord_crypto_def
    crypto_update_def checked_next_def Let_def
  by (auto intro!: frame_intros keeps_mempool_flush)

lemma save_block_latest: "save_block E b s = (s', Inr ()) \<Longrightarrow> is_latest_block (nd_storage s') = Some b"
  by (auto simp: save_block_def on_store_def storage_insert_block_def set_latest_block_def st_seq_ok
      split: prod.splits)

section \<open>What a commit does\<close>

lemma unat_plus_one_u64: "unat (a :: u64) < 18446744073709551615 \<Longrightarrow> unat (a + 1) = Suc (unat a)"
  by (simp add: unat_word_ariths)

lemma swap_status_run:
  "swap_status E b resp p s = (s', r) \<Longrightarrow>
     cn_status s' = status_after E b resp p (cn_status s) \<and> nd_state_root s' = er_state_root resp \<and>
     cn_exemption s' = cn_exemption s \<and> cn_lock s' = cn_lock s"
  by (auto simp: swap_status_def st_bind_apply st_seq_apply adapter_set_args_def mempool_set_args_def
      split: sum.splits)

text \<open>Either nothing the consensus stands on has changed, or it stands on the new block.\<close>

definition advanced ::
  "('d, 't, 'p) consensus_env \<Rightarrow> ov_commit \<Rightarrow> ('d, 't) chain_node \<Rightarrow> ('d, 't) chain_node \<Rightarrow> bool" where
  "advanced E c s s' \<longleftrightarrow>
     (\<exists>p resp. commit_proof (oc_proof c) = Inr p \<and>
        cn_status s' = status_after E (new_block E (oc_content c) resp) resp p (cn_status s) \<and>
        nd_state_root s' = er_state_root resp)"

lemma engine_update_status_run:
  assumes "engine_update_status E resp pr p txs s = (s', r)"
  shows "consensus_view s' = consensus_view s \<and> (\<exists>e. r = Inl e) \<or>
    cn_status s' = status_after E (new_block E pr resp) resp p (cn_status s) \<and>
      nd_state_root s' = er_state_root resp \<and> cn_exemption s' = cn_exemption s \<and> cn_lock s' = cn_lock s \<and>
      (r = Inr () \<longrightarrow> is_latest_block (nd_storage s') = Some (new_block E pr resp))"
proof -
  let ?b = "new_block E pr resp"
  let ?pre = "st_bind (checked_next (hd_number (bk_header ?b))) (\<lambda>n. st_seq (save_executed E ?b resp p txs)
     (st_seq (st_when (contains_change_metadata E txs) (adapter_update_metadata E (bk_header ?b)))
        (refresh_authority E n)))"
  have split: "engine_update_status E resp pr p txs = st_seq ?pre (swap_status E ?b resp p)"
    by (rule ext) (simp add: engine_update_status_def Let_def st_bind_apply st_seq_apply checked_next_def
        split: prod.split sum.split)
  have keep: "keeps consensus_view ?pre"
    unfolding checked_next_def by (intro frame_intros consensus_view_frames)
  obtain s1 r1 where pre: "?pre s = (s1, r1)" by fastforce
  have view: "consensus_view s1 = consensus_view s" using keepsD [OF keep pre] .
  show ?thesis
  proof (cases r1)
    case (Inl e)
    then show ?thesis using assms pre view by (auto simp: split st_seq_apply)
  next
    case (Inr u)
    then have swap: "swap_status E ?b resp p s1 = (s', r)" using assms pre by (simp add: split st_seq_apply)
    obtain n s2 s3 where saved: "save_executed E ?b resp p txs s = (s2, Inr ())"
      and rest: "st_seq (st_when (contains_change_metadata E txs) (adapter_update_metadata E (bk_header ?b)))
        (refresh_authority E n) s2 = (s1, Inr u)"
      using pre Inr by (auto simp: st_bind_ok st_seq_ok checked_next_def)
    have "is_latest_block (nd_storage s2) = Some ?b"
      using saved
      by (auto simp: save_executed_def Let_def st_seq_ok st_when_def dest: save_block_latest split: prod.splits if_splits)
    moreover have keep2: "keeps (\<lambda>s. is_latest_block (nd_storage s))
        (st_seq (st_when (contains_change_metadata E txs) (adapter_update_metadata E (bk_header ?b)))
          (refresh_authority E n) :: ('a, 'b, unit) cn_op)"
      by (intro frame_intros latest_block_frames)
    ultimately have "is_latest_block (nd_storage s') = Some ?b"
      using keepsD [OF keep2 rest] keepsD [OF latest_block_frames(3) swap] by simp
    then show ?thesis using swap_status_run [OF swap] view by (simp add: consensus_view_def)
  qed
qed


lemma execute_commit_run:
  assumes "execute_commit E n c s = (s', r)"
  shows "consensus_view s' = consensus_view s"
    and "r = Inr (p, txs, resp) \<Longrightarrow> commit_proof (oc_proof c) = Inr p"
proof -
  have "keeps consensus_view (execute_commit E n c :: ('a, 'b, _) cn_op)"
    unfolding execute_commit_def by (intro frame_intros consensus_view_frames) simp_all
  then show "consensus_view s' = consensus_view s" using assms by (rule keepsD)
qed (use assms in \<open>auto simp: execute_commit_def st_bind_ok st_seq_ok\<close>)

lemma finish_commit_run:
  assumes "finish_commit E now n c s = (s', r)"
  shows "cn_status s' = cn_status s" and "nd_state_root s' = nd_state_root s" and "cn_lock s' = cn_lock s"
    and "is_latest_block (nd_storage s') = is_latest_block (nd_storage s)"
    and "r = Inr st \<Longrightarrow> cn_exemption s' = {} \<and> os_height st = n + 1 \<and>
           cn_last_commit_time s' = now \<and> NetNumber ''/gossip/consensus/broadcast_height'' n \<in> set (cn_net_out s')"
proof -
  let ?f = "\<lambda>s. (cn_status s, nd_state_root s, cn_lock s)"
  have view: "keeps consensus_view m \<Longrightarrow> keeps ?f m" for m :: "('a, 'b, 'v) cn_op"
    by (simp add: keeps_def consensus_view_def)
  have keep: "keeps ?f (finish_commit E now n c)"
    unfolding finish_commit_def checked_next_def
    by (intro keeps_seq keeps_bind view [OF consensus_view_frames(5)] view [OF consensus_view_frames(6)]
        view [OF consensus_view_frames(7)] frame_intros) simp_all
  show "cn_status s' = cn_status s" "nd_state_root s' = nd_state_root s" "cn_lock s' = cn_lock s"
    using keepsD [OF keep assms] by simp_all
  have "keeps (\<lambda>s. is_latest_block (nd_storage s)) (finish_commit E now n c)"
    unfolding finish_commit_def checked_next_def by (intro keeps_seq keeps_bind latest_block_frames frame_intros) simp
  then show "is_latest_block (nd_storage s') = is_latest_block (nd_storage s)" using assms by (rule keepsD)
next
  assume "r = Inr st"
  then obtain s3 s4 m where bc: "broadcast_number E n (s3\<lparr>cn_exemption := {}\<rparr>) = (s4, Inr ())"
    and mc: "metric_commit now n s4 = (s', Inr ())" and st: "st = next_status E (n + 1) m"
    using assms
    by (auto simp: finish_commit_def st_seq_ok st_bind_ok checked_next_def checked_add_def ok_or_def
        adapter_metadata_unchecked_def split: if_splits)
  have "cn_exemption s4 = {}" "cn_exemption s' = cn_exemption s4"
    using keepsD [OF consensus_view_frames(6) bc] keepsD [OF consensus_view_frames(7) mc]
    by (simp_all add: consensus_view_def)
  moreover have "NetNumber ''/gossip/consensus/broadcast_height'' n \<in> set (cn_net_out s4)"
    using bc by (auto simp: broadcast_number_def net_send_def st_seq_ok)
  moreover have "cn_net_out s' = cn_net_out s4" "cn_last_commit_time s' = now"
    using mc by (auto simp: metric_commit_def st_bind_ok checked_next_def)
  ultimately show "cn_exemption s' = {} \<and> os_height st = n + 1 \<and>
      cn_last_commit_time s' = now \<and> NetNumber ''/gossip/consensus/broadcast_height'' n \<in> set (cn_net_out s')"
    using st by (simp add: next_status_def)
qed

lemma commit_block_of_run:
  assumes "commit_block_of E now n c s = (s', r)"
  shows "cn_lock s' = cn_lock s"
    and "cn_status s' = cn_status s \<and> nd_state_root s' = nd_state_root s \<or> advanced E c s s'"
    and "r = Inr st \<Longrightarrow> advanced E c s s' \<and> cn_exemption s' = {} \<and> os_height st = n + 1 \<and>
           (\<exists>b. is_latest_block (nd_storage s') = Some b \<and> cs_prev_hash (cn_status s') = header_hash E b \<and>
              cs_last_number (cn_status s') = hd_number (bk_header b))"
proof -
  obtain s1 r1 where ex: "execute_commit E n c s = (s1, r1)" by fastforce
  note view = execute_commit_run(1) [OF ex]
  have "cn_lock s' = cn_lock s \<and>
    (cn_status s' = cn_status s \<and> nd_state_root s' = nd_state_root s \<or> advanced E c s s') \<and>
    (\<forall>st. r = Inr st \<longrightarrow> advanced E c s s' \<and> cn_exemption s' = {} \<and> os_height st = n + 1 \<and>
       (\<exists>b. is_latest_block (nd_storage s') = Some b \<and> cs_prev_hash (cn_status s') = header_hash E b \<and>
          cs_last_number (cn_status s') = hd_number (bk_header b)))"
  proof (cases r1)
    case (Inl e)
    then show ?thesis using assms ex view by (auto simp: commit_block_of_def st_bind_apply consensus_view_def)
  next
    case (Inr v)
    obtain p txs resp where v: "v = (p, txs, resp)" by (cases v)
    have cp: "commit_proof (oc_proof c) = Inr p" using execute_commit_run(2) [OF ex] Inr v by simp
    obtain s2 r2 where up: "engine_update_status E resp (oc_content c) p txs s1 = (s2, r2)" by fastforce
    note update = engine_update_status_run [OF up]
    have run: "(case r2 of Inl e \<Rightarrow> (s2, Inl e) | Inr u \<Rightarrow> finish_commit E now n c s2) = (s', r)"
      using assms ex Inr v up by (simp add: commit_block_of_def st_bind_apply st_seq_apply)
    show ?thesis
    proof (cases r2)
      case (Inl e)
      then show ?thesis using run update view cp by (auto simp: consensus_view_def advanced_def)
    next
      case (Inr u)
      then have fin: "finish_commit E now n c s2 = (s', r)" using run by simp
      have new: "cn_status s2 = status_after E (new_block E (oc_content c) resp) resp p (cn_status s)"
        "nd_state_root s2 = er_state_root resp" "cn_lock s2 = cn_lock s"
        "is_latest_block (nd_storage s2) = Some (new_block E (oc_content c) resp)"
        using update Inr view by (auto simp: consensus_view_def)
      have adv: "advanced E c s s'"
        unfolding advanced_def using finish_commit_run(1,2) [OF fin] new(1,2) cp by auto
      have "cs_prev_hash (cn_status s') = header_hash E (new_block E (oc_content c) resp)"
        "cs_last_number (cn_status s') = hd_number (bk_header (new_block E (oc_content c) resp))"
        using finish_commit_run(1) [OF fin] new(1) by (simp_all add: status_after_def)
      then show ?thesis
        using adv finish_commit_run [OF fin] new(3,4) by auto
    qed
  qed
  then show "cn_lock s' = cn_lock s"
    "cn_status s' = cn_status s \<and> nd_state_root s' = nd_state_root s \<or> advanced E c s s'"
    "r = Inr st \<Longrightarrow> advanced E c s s' \<and> cn_exemption s' = {} \<and> os_height st = n + 1 \<and>
       (\<exists>b. is_latest_block (nd_storage s') = Some b \<and> cs_prev_hash (cn_status s') = header_hash E b \<and>
          cs_last_number (cn_status s') = hd_number (bk_header b))"
    by auto
qed


section \<open>Properties\<close>

text \<open>The state root the mempool reads nonces at is the one the status stands at.\<close>

definition states_agree :: "('d, 't) chain_node \<Rightarrow> bool" where
  "states_agree s \<longleftrightarrow> cs_last_state_root (cn_status s) = nd_state_root s"

text \<open>
  Property C2. A commit while the synchronization holds the lock is refused without any
  effect; a commit of the height the node stands at answers with the next status and
  changes nothing, however often it is repeated; a commit of any other height but the
  next is refused without effect. The commit of the next height either leaves status
  and state root alone or moves both to the block built from the proposal and the
  execution, with the proof of the commit; when it succeeds, it has moved them, the
  stored latest block is the one the status names, the exemptions are cleared and the
  answer is for the height after. The lock is free afterwards, and the agreement of
  status and state root is never lost, not even on an error.
\<close>

theorem commit_outcome:
  assumes "engine_commit E now n c s = (s', r)"
  shows "(cn_lock s \<longrightarrow> s' = s \<and> r = Inl CeLockInSync) \<and>
    (\<not> cn_lock s \<longrightarrow> \<not> cn_lock s' \<and>
       (n = cs_last_number (cn_status s) \<longrightarrow> s' = s \<and> (\<forall>st. r = Inr st \<longrightarrow> os_height st = n + 1)) \<and>
       (unat n \<noteq> unat (cs_last_number (cn_status s)) + 1 \<longrightarrow> s' = s) \<and>
       (n \<noteq> cs_last_number (cn_status s) \<and> unat n \<noteq> unat (cs_last_number (cn_status s)) + 1 \<longrightarrow> \<not> is_ok r) \<and>
       (cn_status s' = cn_status s \<and> nd_state_root s' = nd_state_root s \<or> advanced E c s s') \<and>
       (\<forall>st. n \<noteq> cs_last_number (cn_status s) \<and> r = Inr st \<longrightarrow>
          advanced E c s s' \<and> cn_exemption s' = {} \<and> os_height st = n + 1 \<and>
          (\<exists>b. is_latest_block (nd_storage s') = Some b \<and> cs_prev_hash (cn_status s') = header_hash E b \<and>
             cs_last_number (cn_status s') = hd_number (bk_header b))) \<and>
       (states_agree s \<longrightarrow> states_agree s'))"
proof (cases "cn_lock s")
  case True
  then show ?thesis using assms by (simp add: engine_commit_def with_commit_lock_def)
next
  case False
  let ?s = "s\<lparr>cn_lock := True\<rparr>" and ?last = "cs_last_number (cn_status s)"
  obtain t where run: "engine_commit_unlocked E now n c ?s = (t, r)" and s': "s' = t\<lparr>cn_lock := False\<rparr>"
    using assms False by (auto simp: engine_commit_def with_commit_lock_def split: prod.splits)
  have unlock: "?s\<lparr>cn_lock := False\<rparr> = s" using False by simp
  consider (early) "t = ?s" and "\<not> is_ok r"
    | (same) m where "t = ?s" and "n = ?last" and "r = Inr (next_status E (n + 1) m)"
    | (step) "unat n = unat ?last + 1" and "commit_block_of E now n c ?s = (t, r)"
    using run
    by (auto simp: engine_commit_unlocked_def st_bind_apply checked_next_def ok_or_def checked_add_def is_ok_def
        adapter_metadata_unchecked_def unat_plus_one_u64 split: sum.splits if_splits option.splits)
  then show ?thesis
  proof cases
    case early
    then show ?thesis using False s' unlock by (auto simp: is_ok_def)
  next
    case same
    then show ?thesis using False s' unlock by (auto simp: is_ok_def next_status_def)
  next
    case step
    note run = commit_block_of_run [OF step(2)]
    have adv: "advanced E c ?s t \<Longrightarrow> advanced E c s s'" by (simp add: advanced_def s')
    have "advanced E c s s' \<Longrightarrow> states_agree s'" by (auto simp: advanced_def states_agree_def status_after_def)
    then show ?thesis
      using False step(1) run adv by (auto simp: s' is_ok_def states_agree_def)
  qed
qed


lemma verify_block_header_ok:
  assumes "verify_block_header E p s = (s', Inr ())"
  shows "\<exists>hdr. get_block_header_by_number E (pp_number p - 1) s = (s', Inr hdr) \<and>
    se_header_hash (ce_store E) hdr = pp_prev_hash p"
  using assms
  by (auto simp: verify_block_header_def st_bind_ok ok_or_def checked_sub_def split: if_splits)

lemma inner_check_block_ok:
  assumes "inner_check_block E origin now p s = (s', Inr ())"
  obtains hdr prev s1 s2 s3 s4 txs where
    "get_block_header_by_number E (pp_number p - 1) s = (s1, Inr hdr)"
    "se_header_hash (ce_store E) hdr = pp_prev_hash p"
    "get_block_by_number E (pp_number p - 1) s1 = (s2, Inr prev)"
    "validate_timestamp now (pp_timestamp p) (hd_timestamp (bk_header prev))"
    "verify_proof E prev (pp_proof p) s2 = (s3, Inr ())"
    "verify_txs E origin (pp_number p) (pp_tx_hashes p) s3 = (s4, Inr ())"
    "adapter_get_full_txs E (pp_tx_hashes p) s4 = (s', Inr txs)"
    "check_order_transactions E p txs = Inr ()"
  using assms
  by (fastforce simp: inner_check_block_def st_seq_ok st_bind_ok ok_or_def checked_sub_def
      dest: verify_block_header_ok split: if_splits)

lemma verify_txs_distinct:
  "verify_txs E origin n hs s = (s', Inr ()) \<Longrightarrow> distinct hs"
  by (auto simp: verify_txs_def ensure_order_txs_def st_seq_apply check_dup_order_hashes_def check_dup_loop_ok
      split: prod.splits sum.splits mempool_error.splits)

lemma check_block_view: "keeps consensus_view (engine_check_block E origin now n h p)"
proof -
  have rec: "keeps consensus_view m \<Longrightarrow> keeps consensus_view (recording_failure m)" for m :: "('a, 'b, unit) cn_op"
    by (auto simp: keeps_def recording_failure_def split: prod.split sum.split consensus_error.split)
      (metis fst_conv)+
  have vt: "keeps consensus_view (verify_txs E origin k hs :: ('a, 'b, unit) cn_op)" for k hs
  proof -
    have "keeps consensus_view (ensure_order_txs (ce_mempool E) origin (Some k) hs :: ('a, 'b) chain_node \<Rightarrow> _)"
      by (intro frame_intros) simp_all
    then show ?thesis
      by (auto simp: keeps_def verify_txs_def split: prod.split sum.split mempool_error.split) (metis fst_conv)+
  qed
  show ?thesis
    unfolding engine_check_block_def inner_check_block_def verify_block_header_def get_block_header_by_number_def
      get_block_by_number_def verify_proof_def adapter_get_full_txs_def adapter_get_metadata_def Let_def
    by (intro rec vt frame_intros) simp_all
qed

text \<open>
  Property C6. A proposal of somebody else passes the check of the engine only if its
  number follows the proof it carries, the stored previous block has the hash it names,
  its time lies between the previous block and now, the proof is accepted for the
  previous block, its hashes have no duplicates and the given root, and the transactions
  they name have the given digest; the transactions are then in the log under height and
  root. A check, passed or not, moves neither status nor state root nor exemptions.
\<close>

theorem check_block_sound:
  assumes "engine_check_block E origin now n h p s = (s', r)"
  shows "consensus_view s' = consensus_view s \<and>
    (r = Inr () \<and> from_be_bytes h \<notin> cn_exemption s \<longrightarrow>
       unat (pp_number p) = unat (pf_number (pp_proof p)) + 1 \<and> distinct (pp_tx_hashes p) \<and>
       order_root E (pp_tx_hashes p) = pp_transactions_root p \<and>
       (\<exists>hdr prev s1 s2 s3.
          get_block_header_by_number E (pp_number p - 1) s = (s1, Inr hdr) \<and>
          se_header_hash (ce_store E) hdr = pp_prev_hash p \<and>
          get_block_by_number E (pp_number p - 1) s1 = (s2, Inr prev) \<and>
          hd_timestamp (bk_header prev) \<le> pp_timestamp p \<and> pp_timestamp p \<le> now \<and>
          verify_proof E prev (pp_proof p) s2 = (s3, Inr ())) \<and>
       (\<exists>txs s1 s2. adapter_get_full_txs E (pp_tx_hashes p) s1 = (s2, Inr txs) \<and>
          stxs_digest E txs = Inr (pp_signed_txs_hash p)) \<and>
       (\<exists>txs s1 s2. adapter_get_full_txs E (pp_tx_hashes p) s1 = (s2, Inr txs) \<and>
          txs_wal_save E n (pp_transactions_root p) txs s2 = (s', Inr ())))"
proof (intro conjI impI)
  show "consensus_view s' = consensus_view s" using keepsD [OF check_block_view assms] .
next
  assume ok: "r = Inr () \<and> from_be_bytes h \<notin> cn_exemption s"
  then obtain t1 t2 txs where pf: "proof_follows (pp_number p) (pp_proof p) = Inr ()"
    and inner: "inner_check_block E origin now p s = (t1, Inr ())"
    and full: "adapter_get_full_txs E (pp_tx_hashes p) t1 = (t2, Inr txs)"
    and wal: "txs_wal_save E n (pp_transactions_root p) txs t2 = (s', Inr ())"
    using assms
    by (auto simp: engine_check_block_def st_seq_ok st_bind_ok hash_from_slice_def recording_failure_def
        split: if_splits prod.splits sum.splits consensus_error.splits)
  show "unat (pp_number p) = unat (pf_number (pp_proof p)) + 1"
    using pf by (auto simp: proof_follows_def res_bind_eq_Inr ok_or_eq_Inr dest: checked_add_unat split: if_splits)
  from inner show "distinct (pp_tx_hashes p)" by (auto elim!: inner_check_block_ok dest: verify_txs_distinct)
  from inner show "order_root E (pp_tx_hashes p) = pp_transactions_root p"
    by (auto elim!: inner_check_block_ok simp: check_order_transactions_def res_bind_eq_Inr split: if_splits)
  from inner show "\<exists>txs s1 s2. adapter_get_full_txs E (pp_tx_hashes p) s1 = (s2, Inr txs) \<and>
      stxs_digest E txs = Inr (pp_signed_txs_hash p)"
    by (elim inner_check_block_ok) (auto simp: check_order_transactions_def res_bind_eq_Inr split: if_splits)
  from inner show "\<exists>hdr prev s1 s2 s3.
      get_block_header_by_number E (pp_number p - 1) s = (s1, Inr hdr) \<and>
      se_header_hash (ce_store E) hdr = pp_prev_hash p \<and>
      get_block_by_number E (pp_number p - 1) s1 = (s2, Inr prev) \<and>
      hd_timestamp (bk_header prev) \<le> pp_timestamp p \<and> pp_timestamp p \<le> now \<and>
      verify_proof E prev (pp_proof p) s2 = (s3, Inr ())"
    by (elim inner_check_block_ok) (force simp: validate_timestamp_def not_less split: if_splits)
  show "\<exists>txs s1 s2. adapter_get_full_txs E (pp_tx_hashes p) s1 = (s2, Inr txs) \<and>
      txs_wal_save E n (pp_transactions_root p) txs s2 = (s', Inr ())"
    using full wal by blast
qed

definition sample_commit :: ov_commit where
  "sample_commit =
     \<lparr>oc_height = 1, oc_content = proposal_from_block (sample_block 1 []),
      oc_proof = \<lparr>op_height = 1, op_round = 0, op_block_hash = replicate 32 0, op_signature = [], op_bitmap = []\<rparr>\<rparr>"

text \<open>What the concrete run relies on in the node at every step.\<close>

definition sample_ready :: "(mem_db, (bytes \<rightharpoonup> bytes) list) chain_node \<Rightarrow> bool" where
  "sample_ready s \<longleftrightarrow>
     cn_trie_db s = [Map.empty] \<and> nd_metadata s = [0 \<mapsto> sample_metadata sample_validators] \<and>
     cn_overlord_handler s = Some True \<and> cn_sync_status s \<in> {SyncFalse, Syncing 0 0 1} \<and> pl_tx_map (nd_pool s) = [] \<and> cn_txs_wal s = Some (Dir []) \<and> cn_last_commit_time s = 0 \<and>
     cs_last_state_root (cn_status s) = 0 \<and> cs_gas_limit (cn_status s) = 30000 \<and> cs_max_tx_size (cn_status s) = 1000"

lemma sample_ready_node: "sample_ready sample_chain_node"
  by (simp add: sample_ready_def sample_chain_node_def node_state.defs sample_node_def pool_new_def sample_status_def)

lemma sample_ready_upd [simp]:
  "sample_ready (s\<lparr>nd_storage := a\<rparr>) = sample_ready s"
  "sample_ready (s\<lparr>cn_net_out := b\<rparr>) = sample_ready s"
  "sample_ready (s\<lparr>cn_block_logs := c\<rparr>) = sample_ready s"
  "sample_ready (s\<lparr>cn_checkpoints := d\<rparr>) = sample_ready s"
  "sample_ready (s\<lparr>cn_exemption := e\<rparr>) = sample_ready s"
  "sample_ready (s\<lparr>cn_lock := f\<rparr>) = sample_ready s"
  by (simp_all add: sample_ready_def)

lemma sample_envs [simp]:
  "ce_mempool sample_consensus_env = sample_mempool_env" "ce_exec sample_consensus_env = sample_exec_env"
  "ce_send sample_consensus_env = (\<lambda>_. Inr ())" "ce_cross_period_interval sample_consensus_env = 10"
  "ce_metadata_address sample_consensus_env = 7"
  "mp_adapter sample_mempool_env = memory_adapter id" "mp_storage sample_mempool_env = sample_senv"
  "mp_metadata sample_mempool_env = sample_metadata_env []"
  by (simp_all add: sample_consensus_env_def sample_mempool_env_def)

text \<open>The same environment over another storage.\<close>

definition sample_on :: "storage_env \<Rightarrow> (mem_db, (bytes \<rightharpoonup> bytes) list, bytes \<rightharpoonup> bytes) consensus_env" where
  "sample_on S = sample_consensus_env\<lparr>ce_mempool := sample_mempool_env\<lparr>mp_storage := S\<rparr>\<rparr>"

lemma sample_on_simps [simp]:
  "ce_mempool (sample_on S) = sample_mempool_env\<lparr>mp_storage := S\<rparr>" "ce_exec (sample_on S) = sample_exec_env"
  "ce_send (sample_on S) = (\<lambda>_. Inr ())" "ce_cross_period_interval (sample_on S) = 10"
  "ce_flush_iter (sample_on S) = id" "ce_bls (sample_on S) = sample_bls" "ce_peer_id (sample_on S) = Inr"
  "ce_wal_decode (sample_on S) = (\<lambda>_. Inr [])"
  by (simp_all add: sample_on_def sample_consensus_env_def)

lemma sample_on_senv: "sample_on sample_senv = sample_consensus_env"
  by (simp add: sample_on_def sample_consensus_env_def sample_mempool_env_def)

lemma memory_succeeds:
  "succeeds (\<lambda>_. True) (schema_insert (memory_adapter id) c k v) (\<lambda>_ _. True)"
  "length ks = length vs \<Longrightarrow> succeeds (\<lambda>_. True) (schema_batch (memory_adapter id) c ks vs) (\<lambda>_ _. True)"
  by (simp_all add: succeeds_def schema_insert_def schema_batch_def memory_adapter_def mem_insert_def
      mem_batch_modify_def)

lemma succeeds_on_store:
  "succeeds (\<lambda>_. True) op (\<lambda>_ _. True) \<Longrightarrow> (\<And>s x. P (s\<lparr>nd_storage := x\<rparr>) = P s) \<Longrightarrow>
   succeeds P (on_store op) (\<lambda>_. P)"
  by (auto simp: succeeds_def on_store_def split: prod.splits) (metis map_err_simps(2) prod.inject)

lemma store_succeeds:
  assumes "\<And>s x. P (s\<lparr>nd_storage := x\<rparr>) = P s" and "ce_adapter E = memory_adapter id"
  shows "succeeds P (save_proof E p) (\<lambda>_. P)" and "succeeds P (save_block E b) (\<lambda>_. P)"
    and "succeeds P (save_signed_txs E n txs) (\<lambda>_. P)" and "succeeds P (save_receipts E n rs) (\<lambda>_. P)"
  unfolding save_proof_def save_block_def save_signed_txs_def save_receipts_def update_latest_proof_def
    storage_insert_block_def set_latest_block_def storage_set_block_def Let_def insert_transactions_def
    insert_receipts_def batch_insert_stxs_def batch_insert_receipts_def assms(2)
  by (auto intro!: succeeds_on_store assms(1) succeeds_seq memory_succeeds succeeds_modify)

lemma sample_get_full_txs: "adapter_get_full_txs E [] s = (s, Inr [])"
  by (simp add: adapter_get_full_txs_def on_mempool_def get_full_txs_def Let_def st_bind_apply map_filter_simps)

lemma sample_exec:
  "succeeds sample_ready (adapter_exec (sample_on S) 0 p []) (\<lambda>_. sample_ready)"
proof -
  have "be_nat (to_be_bytes 32 (0 :: hash)) = 0" by (simp add: to_be_bytes_def be_nat_nat_to_be)
  then show ?thesis
    by (auto simp: succeeds_def adapter_exec_def backend_from_root_def mpt_from_root_def sample_trie_lib_def
        sample_ready_def exec_block_def st_bind_apply)
qed

lemma sample_execute:
  "succeeds sample_ready (execute_commit (sample_on S) 1 sample_commit)
     (\<lambda>v s. fst (snd v) = [] \<and> sample_ready s)"
proof -
  have txs: "succeeds sample_ready (txs_or_wal (sample_on S) 1 (oc_content sample_commit))
      (\<lambda>txs s. txs = [] \<and> sample_ready s)"
    by (simp add: succeeds_def txs_or_wal_def sample_get_full_txs sample_commit_def proposal_from_block_def)
  have st: "succeeds (\<lambda>s. txs = [] \<and> sample_ready s) (st_gets cn_status)
      (\<lambda>v s. cs_last_state_root v = 0 \<and> txs = [] \<and> sample_ready s)" for txs :: "signed_transaction list"
    by (simp add: succeeds_def sample_ready_def)
  have ex: "succeeds (\<lambda>s. cs_last_state_root v = 0 \<and> txs = [] \<and> sample_ready s)
      (adapter_exec (sample_on S) (cs_last_state_root v) p txs) (\<lambda>_ s. txs = [] \<and> sample_ready s)" for v p txs
    using sample_exec by (simp add: succeeds_def)
  have pf: "succeeds sample_ready (st_lift (commit_proof (oc_proof sample_commit))) (\<lambda>_. sample_ready)"
    by (simp add: succeeds_def commit_proof_def sample_commit_def hash_from_slice_def)
  show ?thesis
    unfolding execute_commit_def
    by (rule succeeds_bind [OF pf], rule succeeds_seq [OF store_succeeds(1)], simp_all,
        rule succeeds_bind [OF txs], rule succeeds_bind [OF st], rule succeeds_bind [OF ex],
        rule succeeds_return) simp
qed

lemma sample_update:
  "succeeds sample_ready (engine_update_status (sample_on S) resp (oc_content sample_commit) p [])
     (\<lambda>_ s. sample_ready (s\<lparr>cn_status := sample_status\<rparr>))"
proof -
  let ?b = "new_block (sample_on S) (oc_content sample_commit) resp"
  have num: "hd_number (bk_header ?b) = 1"
    by (simp add: new_block_def sample_commit_def proposal_from_block_def)
  have split: "engine_update_status (sample_on S) resp (oc_content sample_commit) p [] =
      st_seq (save_executed (sample_on S) ?b resp p [])
        (st_seq (st_when (contains_change_metadata (sample_on S) [])
            (adapter_update_metadata (sample_on S) (bk_header ?b)))
          (st_seq (refresh_authority (sample_on S) 2) (swap_status (sample_on S) ?b resp p)))"
    by (rule ext) (simp add: engine_update_status_def Let_def st_bind_apply checked_next_def num checked_add_def)
  have save: "succeeds sample_ready (save_executed (sample_on S) ?b resp p []) (\<lambda>_. sample_ready)"
    unfolding save_executed_def generate_receipts_and_logs_def Let_def prod.case notify_block_logs_def
    by (intro succeeds_seq [where R = sample_ready] store_succeeds succeeds_modify)
      (simp_all add: succeeds_def st_when_def num)
  have meta: "succeeds sample_ready (st_when (contains_change_metadata (sample_on S) [])
      (adapter_update_metadata (sample_on S) hdr)) (\<lambda>_. sample_ready)" for hdr
    by (simp add: succeeds_def st_when_def contains_change_metadata_def)
  have auth: "succeeds sample_ready (refresh_authority (sample_on S) 2) (\<lambda>_. sample_ready)"
    by (simp add: succeeds_def refresh_authority_def adapter_need_change_metadata_def need_change_metadata_def
        sample_metadata_env_def st_bind_apply)
  have swap: "succeeds sample_ready (swap_status (sample_on S) ?b resp p)
      (\<lambda>_ s. sample_ready (s\<lparr>cn_status := sample_status\<rparr>))"
    by (simp add: succeeds_def swap_status_def st_bind_apply st_seq_apply sample_ready_def u256_to_u64_def
        adapter_set_args_def mempool_set_args_def sample_status_def)
  show ?thesis
    unfolding split
    by (rule succeeds_seq [OF save succeeds_seq [OF meta succeeds_seq [OF auth swap]]])
qed

lemma sample_finish:
  "succeeds (\<lambda>s. sample_ready (s\<lparr>cn_status := sample_status\<rparr>))
     (finish_commit (sample_on S) 5 1 sample_commit) (\<lambda>_ s. cn_trie_db s = [Map.empty] \<and> cn_txs_wal s = Some (Dir []))"
proof -
  let ?P = "\<lambda>s. sample_ready (s\<lparr>cn_status := sample_status\<rparr>)"
  have flush: "succeeds ?P (flush_mempool (sample_on S) (pp_tx_hashes (oc_content sample_commit))) (\<lambda>_. ?P)"
    by (simp add: succeeds_def flush_mempool_def on_mempool_def mempool_flush_def sample_ready_def Let_def
        get_residual_tx_map pool_flush_frame)
  have wal: "succeeds ?P (txs_wal_remove k) (\<lambda>_. ?P)" for k
    by (simp add: succeeds_def txs_wal_remove_def signed_wal_remove_def read_dir_def sample_ready_def)
  have ex: "succeeds ?P (st_modify (\<lambda>s. s\<lparr>cn_exemption := {}\<rparr>)) (\<lambda>_. ?P)"
    by (simp add: succeeds_def sample_ready_def)
  have one: "succeeds ?P (checked_next 1) (\<lambda>n s. n = 2 \<and> ?P s)"
    by (simp add: succeeds_def checked_next_def checked_add_def)
  have meta: "succeeds (\<lambda>s. n = 2 \<and> ?P s) (adapter_metadata_unchecked (sample_on S) n) (\<lambda>_. ?P)" for n
    by (auto simp: succeeds_def adapter_metadata_unchecked_def get_metadata_unchecked_def calc_epoch_def
        sample_metadata_env_def sample_ready_def)
  have cast: "succeeds ?P (broadcast_number (sample_on S) k) (\<lambda>_. ?P)" for k
    by (simp add: succeeds_def broadcast_number_def net_send_def st_seq_apply sample_ready_def)
  have metric: "succeeds ?P (metric_commit 5 1) (\<lambda>_ s. cn_trie_db s = [Map.empty] \<and> cn_txs_wal s = Some (Dir []))"
    by (simp add: succeeds_def metric_commit_def checked_next_def st_bind_apply checked_add_def checked_sub_def
        sample_ready_def)
  show ?thesis
    unfolding finish_commit_def
    by (rule succeeds_seq [OF flush succeeds_seq [OF wal succeeds_seq [OF ex succeeds_bind [OF one
            succeeds_bind [OF meta succeeds_seq [OF cast succeeds_seq [OF metric succeeds_return]]]]]]]) simp
qed

lemma sample_commit_run:
  "\<exists>s' st. engine_commit (sample_on S) 5 1 sample_commit sample_chain_node = (s', Inr st) \<and>
     cn_trie_db s' = [Map.empty] \<and> cn_txs_wal s' = Some (Dir [])"
proof -
  let ?Q = "\<lambda>s. cn_trie_db s = [Map.empty] \<and> cn_txs_wal s = Some (Dir [])"
  have upd: "succeeds (\<lambda>s. fst (snd v) = [] \<and> sample_ready s)
      (case v of (p, txs, resp) \<Rightarrow>
         st_seq (engine_update_status (sample_on S) resp (oc_content sample_commit) p txs)
           (finish_commit (sample_on S) 5 1 sample_commit)) (\<lambda>_. ?Q)" for v
    using succeeds_seq [OF sample_update sample_finish] by (cases v) (auto simp: succeeds_def)
  have "succeeds sample_ready (commit_block_of (sample_on S) 5 1 sample_commit) (\<lambda>_. ?Q)"
    unfolding commit_block_of_def by (rule succeeds_bind [OF sample_execute upd])
  from succeedsD [OF this, of "sample_chain_node\<lparr>cn_lock := True\<rparr>"] obtain s' st where
    "commit_block_of (sample_on S) 5 1 sample_commit (sample_chain_node\<lparr>cn_lock := True\<rparr>) = (s', Inr st)" "?Q s'"
    using sample_ready_node by auto
  then show ?thesis
    by (simp add: engine_commit_def with_commit_lock_def engine_commit_unlocked_def st_bind_apply checked_next_def
        checked_add_def adapter_metadata_unchecked_def get_metadata_unchecked_def calc_epoch_def
        sample_metadata_env_def sample_chain_node_def node_state.defs sample_node_def sample_status_def)
qed

theorem commit_outcome_witness:
  "\<exists>s' st b. engine_commit sample_consensus_env 5 1 sample_commit sample_chain_node = (s', Inr st) \<and>
     os_height st = 2 \<and> is_latest_block (nd_storage s') = Some b \<and>
     cs_last_number (cn_status s') = hd_number (bk_header b) \<and> states_agree s'"
proof -
  obtain s' st where run: "engine_commit sample_consensus_env 5 1 sample_commit sample_chain_node = (s', Inr st)"
    using sample_commit_run [of sample_senv] by (auto simp: sample_on_senv)
  have "\<not> cn_lock sample_chain_node" "cs_last_number (cn_status sample_chain_node) = 0" "states_agree sample_chain_node"
    by (simp_all add: sample_chain_node_def node_state.defs sample_status_def states_agree_def sample_node_def)
  then show ?thesis using commit_outcome [OF run] run by auto
qed


definition sample_proposal :: proposal where
  "sample_proposal = (proposal_from_block (sample_block 1 []))\<lparr>pp_signed_txs_hash := NIL_DATA\<rparr>"

definition sample_follower :: "(mem_db, (bytes \<rightharpoonup> bytes) list) chain_node" where
  "sample_follower =
     sample_chain_node\<lparr>nd_storage := sample_storage\<lparr>is_blocks := [0 \<mapsto> sample_block 0 []],
       is_headers := [0 \<mapsto> sample_header 0]\<rparr>\<rparr>"

lemma sample_check_run:
  "\<exists>s'. engine_check_block sample_consensus_env False 5 1 (replicate 32 1) sample_proposal sample_follower = (s', Inr ())"
proof -
  have hdr: "se_header_hash sample_senv (sample_header 0) = 0" by (simp add: sample_senv_def sample_env_def)
  have dig: "stxs_digest sample_consensus_env [] = Inr NIL_DATA"
    by (simp add: stxs_digest_def digest_signed_transactions_def sample_mempool_env_def sample_rlp_lib_def
        hasher_digest_def)
  have root: "order_root sample_consensus_env [] = 0"
    by (simp add: order_root_def root_or_default_def get_root_hash_def sample_exec_env_def)
  have "verify_block_header sample_consensus_env sample_proposal sample_follower = (sample_follower, Inr ())"
    by (simp add: verify_block_header_def st_bind_apply checked_sub_def sample_proposal_def proposal_from_block_def
        get_block_header_by_number_def on_store_def storage_get_block_header_def sample_follower_def hdr)
      (simp add: sample_header_def)
  moreover have "get_block_by_number sample_consensus_env 0 sample_follower = (sample_follower, Inr (sample_block 0 []))"
    by (simp add: get_block_by_number_def on_store_def st_bind_apply storage_get_block_def cached_get_def
        sample_follower_def)
  moreover have "verify_proof sample_consensus_env (sample_block 0 []) pf sample_follower = (sample_follower, Inr ())" for pf
    by (simp add: verify_proof_def)
  moreover have "verify_txs sample_consensus_env False 1 [] sample_follower = (sample_follower, Inr ())"
    by (simp add: verify_txs_def ensure_order_txs_def check_dup_order_hashes_def show_unknown_txs_def st_seq_apply
        st_bind_apply)
  moreover have "check_order_transactions sample_consensus_env sample_proposal [] = Inr ()"
    by (simp add: check_order_transactions_def dig root sample_proposal_def proposal_from_block_def)
      (simp add: sample_header_def)
  ultimately have inner: "inner_check_block sample_consensus_env False 5 sample_proposal sample_follower =
      (sample_follower, Inr ())"
    by (simp add: inner_check_block_def st_seq_apply st_bind_apply sample_get_full_txs sample_proposal_def
        proposal_from_block_def checked_sub_def validate_timestamp_def)
      (simp add: sample_header_def)
  have pf: "proof_follows (pp_number sample_proposal) (pp_proof sample_proposal) = Inr ()"
    by (simp add: proof_follows_def sample_proposal_def proposal_from_block_def sample_header_def checked_add_def)
  have ex: "cn_exemption sample_follower = {}" and wal: "cn_txs_wal sample_follower = Some (Dir [])"
    by (simp_all add: sample_follower_def sample_chain_node_def node_state.defs)
  show ?thesis
    using pf inner ex wal
    by (simp add: engine_check_block_def st_seq_apply st_bind_apply hash_from_slice_def recording_failure_def
        sample_proposal_def proposal_from_block_def sample_get_full_txs txs_wal_save_def signed_wal_save_def
        open_create_def Let_def)
qed

theorem check_block_sound_witness:
  "\<exists>s' hdr s1. engine_check_block sample_consensus_env False 5 1 (replicate 32 1) sample_proposal sample_follower =
       (s', Inr ()) \<and> consensus_view s' = consensus_view sample_follower \<and>
     get_block_header_by_number sample_consensus_env (pp_number sample_proposal - 1) sample_follower = (s1, Inr hdr) \<and>
     se_header_hash (ce_store sample_consensus_env) hdr = pp_prev_hash sample_proposal"
proof -
  obtain s' where run: "engine_check_block sample_consensus_env False 5 1 (replicate 32 1) sample_proposal
      sample_follower = (s', Inr ())"
    using sample_check_run by blast
  have "cn_exemption sample_follower = {}"
    by (simp add: sample_follower_def sample_chain_node_def node_state.defs)
  then show ?thesis using check_block_sound [OF run] run by (fastforce simp del: sample_envs)
qed

lemma epoch_next:
  assumes "unat (n :: u64) < 18446744073709551615" and "(n + 1) mod l \<noteq> 0"
  shows "(n + 1) div l = n div l"
proof -
  have n: "unat (n + 1) = Suc (unat n)" using assms(1) by (rule unat_plus_one_u64)
  have "Suc (unat n) mod unat l \<noteq> 0"
    using assms(2) n by (metis unat_eq_zero unat_mod_distrib)
  then have "unat ((n + 1) div l) = unat (n div l)" by (simp add: n unat_div div_Suc)
  then show ?thesis by (rule unsigned_word_eqI)
qed

lemma update_metadata_drops:
  assumes "1 < me_epoch_len M" and "update_metadata M hdr cache = (cache', Inr ())"
  shows "cache' (hd_number hdr div me_epoch_len M) = None"
proof -
  let ?e = "hd_number hdr div me_epoch_len M"
  have add: "checked_add ?e 1 = Some (?e + 1)" using assms(1) by (intro epoch_Suc) auto
  then have e: "unat (?e + 1) = unat ?e + 1" by (simp add: checked_add_unat)
  then have ne: "?e \<noteq> ?e + 1" by (metis n_not_Suc_n Suc_eq_plus1)
  have "\<not> ?e < saturating_sub (?e + 1) 20"
    by (simp add: word_less_nat_alt saturating_sub_unat e)
  then show ?thesis
    using assms(2) ne unfolding update_metadata_result [OF assms(1)] by (auto simp: Let_def split: sum.splits)
qed

lemma metadata_frames:
  "keeps nd_metadata (refresh_authority E n)"
  "keeps nd_metadata (swap_status E b resp p)"
  "keeps nd_metadata (flush_mempool E hs)"
  "keeps nd_metadata (txs_wal_remove n)"
  unfolding refresh_authority_def flush_mempool_def adapter_set_args_def swap_status_def mempool_set_args_def
    adapter_need_change_metadata_def tag_consensus_def update_overlord_crypto_def crypto_update_def
  by (auto intro!: frame_intros keeps_mempool_flush)

lemma update_status_drops:
  assumes "engine_update_status E resp pr p txs s = (s', Inr ())" and "contains_change_metadata E txs"
    and "1 < me_epoch_len (ce_meta E)"
  shows "nd_metadata s' (pp_number pr div me_epoch_len (ce_meta E)) = None"
proof -
  let ?hdr = "bk_header (new_block E pr resp)"
  obtain t t1 t2 k where up: "adapter_update_metadata E ?hdr t = (t1, Inr ())"
    and auth: "refresh_authority E k t1 = (t2, Inr ())"
    and swap: "swap_status E (new_block E pr resp) resp p t2 = (s', Inr ())"
    using assms(1,2) by (auto simp: engine_update_status_def Let_def st_bind_ok st_seq_ok st_when_def)
  have "hd_number ?hdr = pp_number pr" by (simp add: new_block_def)
  moreover have "nd_metadata t1 (hd_number ?hdr div me_epoch_len (ce_meta E)) = None"
    using up update_metadata_drops [OF assms(3)]
    by (auto simp: adapter_update_metadata_def on_metadata_def split: prod.splits)
  ultimately show ?thesis
    using keepsD [OF metadata_frames(1) auth] keepsD [OF metadata_frames(2) swap] by simp
qed

text \<open>
  Property C32. A commit whose block contains a call to the metadata contract and is not
  the last block of its epoch never returns a status: refreshing the metadata throws the
  entries of the current epochs out of the cache, and the lookup for the next block,
  which is in the same epoch, panics.
\<close>

theorem metadata_call_breaks_commit:
  assumes "1 < me_epoch_len (ce_meta E)" and "\<not> cn_lock s"
    and "unat n = unat (cs_last_number (cn_status s)) + 1" and "pp_number (oc_content c) = n"
    and "(n + 1) mod me_epoch_len (ce_meta E) \<noteq> 0"
    and "execute_commit E n c (s\<lparr>cn_lock := True\<rparr>) = (s1, Inr (p, txs, resp))"
    and "contains_change_metadata E txs"
  shows "\<not> is_ok (snd (engine_commit E now n c s))"
proof
  assume "is_ok (snd (engine_commit E now n c s))"
  then obtain t st where "engine_commit_unlocked E now n c (s\<lparr>cn_lock := True\<rparr>) = (t, Inr st)"
    using assms(2) by (auto simp: engine_commit_def with_commit_lock_def is_ok_def split: prod.splits sum.splits)
  moreover have "n \<noteq> cs_last_number (cn_status s)" using assms(3) by auto
  ultimately have run: "commit_block_of E now n c (s\<lparr>cn_lock := True\<rparr>) = (t, Inr st)"
    by (auto simp: engine_commit_unlocked_def st_bind_ok checked_next_def adapter_metadata_unchecked_def
        split: if_splits)
  then obtain s2 where up: "engine_update_status E resp (oc_content c) p txs s1 = (s2, Inr ())"
    and fin: "finish_commit E now n c s2 = (t, Inr st)"
    using assms(6) by (auto simp: commit_block_of_def st_bind_ok st_seq_ok)
  obtain s3 s4 m where fl: "flush_mempool E (pp_tx_hashes (oc_content c)) s2 = (s3, Inr ())"
    and wal: "txs_wal_remove (saturating_sub n 2) s3 = (s4, Inr ())" and n: "unat n < 18446744073709551615"
    and meta: "get_metadata_unchecked (ce_meta E) (n + 1) (nd_metadata s4) = Inr m"
    using fin by (auto simp: finish_commit_def st_seq_ok st_bind_ok checked_next_def checked_add_def ok_or_def
        adapter_metadata_unchecked_def split: if_splits)
  have "nd_metadata s4 (n div me_epoch_len (ce_meta E)) = None"
    using update_status_drops [OF up assms(7,1)] keepsD [OF metadata_frames(3) fl] keepsD [OF metadata_frames(4) wal]
      assms(4) by simp
  then show False
    using meta epoch_next [OF n assms(5)] assms(1)
    by (auto simp: get_metadata_unchecked_def calc_epoch_def res_bind_eq_Inr split: if_splits)
qed

definition sample_call :: signed_transaction where
  "sample_call =
     (sample_stx 1 2 3 4)\<lparr>stx_transaction := (stx_transaction (sample_stx 1 2 3 4))
        \<lparr>utx_unsigned := (stx_unsigned (sample_stx 1 2 3 4))\<lparr>tx_action := Call 7\<rparr>\<rparr>\<rparr>"

definition sample_call_commit :: ov_commit where
  "sample_call_commit = sample_commit\<lparr>oc_content := proposal_from_block (sample_block 1 [1])\<rparr>"

definition sample_full_node :: "(mem_db, (bytes \<rightharpoonup> bytes) list) chain_node" where
  "sample_full_node =
     sample_chain_node\<lparr>nd_pool := (pool_new 10)\<lparr>pl_tx_map := [(1, sample_call)]\<rparr>\<rparr>"

lemma sample_call_executes:
  "\<exists>s1 p resp. execute_commit sample_consensus_env 1 sample_call_commit (sample_full_node\<lparr>cn_lock := True\<rparr>) =
     (s1, Inr (p, [sample_call], resp))"
proof -
  let ?P = "\<lambda>s. nd_pool s = nd_pool sample_full_node \<and> cn_trie_db s = [Map.empty] \<and> cn_status s = sample_status"
  have zero: "be_nat (to_be_bytes 32 (0 :: hash)) = 0" by (simp add: to_be_bytes_def be_nat_nat_to_be)
  have "get_by_hash (nd_pool sample_full_node) 1 = Some sample_call"
    by (simp add: sample_full_node_def get_by_hash_map)
  then have txs: "?P s \<Longrightarrow> txs_or_wal sample_consensus_env 1 (oc_content sample_call_commit) s = (s, Inr [sample_call])" for s
    by (simp add: txs_or_wal_def adapter_get_full_txs_def on_mempool_def get_full_txs_def Let_def st_bind_apply
        sample_call_commit_def proposal_from_block_def map_filter_simps)
  have ex: "?P s \<Longrightarrow> \<exists>s' resp. adapter_exec sample_consensus_env 0 pr [sample_call] s = (s', Inr resp)" for s pr
    by (auto simp: adapter_exec_def backend_from_root_def mpt_from_root_def sample_trie_lib_def zero exec_block_def
        st_bind_apply exec_one_def st_seq_apply is_call_system_script_def NATIVE_TOKEN_ISSUE_ADDRESS_def sample_call_def
        sample_stx_def evm_inner_exec_def evm_request_def u256_as_u64_def sample_exec_env_def sample_evm_out_def
        is_succeed_def backend_apply_def get_logs_def checked_add_def Let_def)
  have save: "succeeds ?P (save_proof sample_consensus_env p) (\<lambda>_. ?P)" for p by (rule store_succeeds) simp_all
  have start: "?P (sample_full_node\<lparr>cn_lock := True\<rparr>)"
    by (simp add: sample_full_node_def sample_chain_node_def node_state.defs)
  obtain p where pf: "commit_proof (oc_proof sample_call_commit) = Inr p"
    by (simp add: commit_proof_def sample_call_commit_def sample_commit_def hash_from_slice_def)
  obtain s2 where s2: "save_proof sample_consensus_env p (sample_full_node\<lparr>cn_lock := True\<rparr>) = (s2, Inr ())" "?P s2"
    using succeedsD [OF save start] by auto
  obtain s3 resp where "adapter_exec sample_consensus_env 0 (oc_content sample_call_commit) [sample_call] s2 = (s3, Inr resp)"
    using ex [OF s2(2)] by blast
  then show ?thesis
    using pf s2 txs [OF s2(2)] by (simp add: execute_commit_def st_bind_apply st_seq_apply sample_status_def)
qed

theorem metadata_call_breaks_commit_witness:
  "\<not> is_ok (snd (engine_commit sample_consensus_env 5 1 sample_call_commit sample_full_node))"
proof -
  obtain s1 p resp where run: "execute_commit sample_consensus_env 1 sample_call_commit
      (sample_full_node\<lparr>cn_lock := True\<rparr>) = (s1, Inr (p, [sample_call], resp))"
    using sample_call_executes by blast
  have "contains_change_metadata sample_consensus_env [sample_call]"
    by (simp add: contains_change_metadata_def sample_call_def)
  moreover have "\<not> cn_lock sample_full_node" "cs_last_number (cn_status sample_full_node) = 0"
    by (simp_all add: sample_full_node_def sample_chain_node_def node_state.defs sample_status_def)
  moreover have "pp_number (oc_content sample_call_commit) = 1"
    by (simp add: sample_call_commit_def proposal_from_block_def)
  ultimately show ?thesis
    using metadata_call_breaks_commit [OF _ _ _ _ _ run] by (simp add: sample_metadata_env_def)
qed

end
