(* ===== verification/Cross_Client.thy ===== *)
theory Cross_Client
  imports Web3_Types Net_Message Engine
begin

text \<open>
  The cross-chain client (\<open>core/cross-client/src/adapter/mod.rs\<close>) and the signing of CKB
  transactions (\<open>protocol/src/types/ckb_client.rs\<close>). A task follows the chain of a CKB node,
  searches its blocks for deposits and sends the mempool a transaction for each; the handle of
  the same service reports burned assets and checkpoints back to CKB. The remote service is a
  record of operations on a state of its own; the CKB data structures are the fields that the
  code reads. Every error that the code does not ignore is a panic.
\<close>

section \<open>Data\<close>

record ckb_output =
  ko_type :: "bytes option"
  ko_data :: bytes

record ckb_tx =
  kt_hash :: bytes
  kt_inputs :: "(bytes \<times> nat) list"
  kt_outputs :: "ckb_output list"
  kt_witnesses :: "bytes list"

record ckb_block =
  kb_number :: u64
  kb_transactions :: "ckb_tx list"

record cross_chain_transfer_payload =
  ct_sender :: string
  ct_receiver :: string
  ct_udt_hash :: hash
  ct_amount :: string
  ct_direction :: u8
  ct_memo :: h160

record ckb_identity =
  ki_flag :: u8
  ki_content :: string

record submit_checkpoint_payload =
  sp_node_id :: ckb_identity
  sp_admin_id :: ckb_identity
  sp_period_number :: u64
  sp_checkpoint :: bytes
  sp_selection_lock_hash :: hash
  sp_checkpoint_type_hash :: hash

definition identity_new :: "hex_lib \<Rightarrow> u8 \<Rightarrow> bytes \<Rightarrow> ckb_identity" where
  "identity_new X flag content = \<lparr>ki_flag = flag, ki_content = hex_encode X content\<rparr>"

record signature_action =
  sg_index :: nat
  sg_other_indexes_in_group :: "nat list"

record transaction_completion_response =
  cp_tx_hash :: bytes
  cp_witnesses :: "bytes list"
  cp_actions :: "signature_action list"

datatype cross_error = CrossPanic

lemma cross_error_panic [simp]: "(e :: cross_error) = CrossPanic"
  by (cases e) simp

text \<open>
  The remote service. A transaction with status may lack the transaction; a rejected call is
  \<open>Inl\<close>.
\<close>

record 'r ckb_client =
  kc_get_tip_header :: "('r, string, u64) st"
  kc_get_block_by_number :: "u64 \<Rightarrow> ('r, string, ckb_block) st"
  kc_get_transaction :: "bytes \<Rightarrow> ('r, string, ckb_tx option option) st"
  kc_send_transaction :: "bytes list \<Rightarrow> ('r, string, hash) st"
  kc_build_transfer :: "cross_chain_transfer_payload \<Rightarrow> ('r, string, transaction_completion_response) st"
  kc_build_checkpoint :: "submit_checkpoint_payload \<Rightarrow> ('r, string, transaction_completion_response) st"

text \<open>
  The configuration and what third-party code computes: script hashes, the encoding of the call
  that mints, the decoding of a burn, BLAKE2b, both signing functions, and the replacement of
  the lock of a witness.
\<close>

record ('d, 't, 'p, 'r) cross_env =
  xc_node :: "('d, 't, 'p) consensus_env"
  xc_client :: "'r ckb_client"
  xc_axon_udt_hash :: hash
  xc_start_block_number :: u64
  xc_enable :: bool
  xc_admin_address :: h160
  xc_node_address :: h160
  xc_selection_lock_hash :: hash
  xc_checkpoint_type_hash :: hash
  xc_script_hash :: "bytes \<Rightarrow> bytes"
  xc_mint_input :: "u256 \<Rightarrow> h160 \<Rightarrow> bytes \<Rightarrow> bytes"
  xc_parse_burned :: "hash list \<Rightarrow> bytes \<Rightarrow> (u256 \<times> bytes) option"
  xc_sign_message :: "hash \<Rightarrow> bytes option"
  xc_public :: bytes
  xc_blake2b :: "bytes \<Rightarrow> bytes"
  xc_sign_ckb :: "bytes \<Rightarrow> bytes"
  xc_set_lock :: "bytes \<Rightarrow> bytes \<Rightarrow> bytes"
  xc_hex :: hex_lib

section \<open>The number file\<close>

definition to_le_bytes :: "nat \<Rightarrow> 'a::len word \<Rightarrow> bytes" where
  "to_le_bytes n w = rev (to_be_bytes n w)"

definition from_le_bytes :: "bytes \<Rightarrow> 'a::len word" where
  "from_le_bytes bs = from_be_bytes (rev bs)"

text \<open>
  The current number is written to a temporary file that is then moved over the old one. Every
  call of the file system may fail; \<open>partial\<close> is how much a failing write or copy has written.
\<close>

datatype io_call = IoMakeDir | IoMakeTmpDir | IoOpen | IoSetLen | IoWrite | IoSync | IoRename | IoCopy | IoRemove

record number_files =
  nf_tmp :: "bytes option"
  nf_file :: "bytes option"

definition io_step :: "(io_call \<Rightarrow> bool) \<Rightarrow> io_call \<Rightarrow> (number_files \<Rightarrow> number_files) \<Rightarrow> (number_files \<Rightarrow> number_files)
    \<Rightarrow> (number_files, io_call, unit) st" where
  "io_step fails call good bad fs = (if fails call then (bad fs, Inl call) else (good fs, Inr ()))"

definition move_file :: "(io_call \<Rightarrow> bool) \<Rightarrow> nat \<Rightarrow> (number_files, io_call, unit) st" where
  "move_file fails partial fs =
     (if \<not> fails IoRename then (fs\<lparr>nf_file := nf_tmp fs, nf_tmp := None\<rparr>, Inr ())
      else
        st_seq (io_step fails IoCopy (\<lambda>fs. fs\<lparr>nf_file := nf_tmp fs\<rparr>) (\<lambda>fs. fs\<lparr>nf_file := map_option (take partial) (nf_tmp fs)\<rparr>))
          (io_step fails IoRemove (\<lambda>fs. fs\<lparr>nf_tmp := None\<rparr>) id) fs)"

definition dump_current_number :: "(io_call \<Rightarrow> bool) \<Rightarrow> nat \<Rightarrow> u64 \<Rightarrow> (number_files, io_call, unit) st" where
  "dump_current_number fails partial n =
     st_seq (io_step fails IoMakeDir id id)
    (st_seq (io_step fails IoMakeTmpDir id id)
    (st_seq (io_step fails IoOpen (\<lambda>fs. fs\<lparr>nf_tmp := Some (case nf_tmp fs of Some bs \<Rightarrow> bs | None \<Rightarrow> [])\<rparr>) id)
    (st_seq (io_step fails IoSetLen (\<lambda>fs. fs\<lparr>nf_tmp := Some []\<rparr>) id)
    (st_seq (io_step fails IoWrite (\<lambda>fs. fs\<lparr>nf_tmp := Some (to_le_bytes 8 n)\<rparr>)
       (\<lambda>fs. fs\<lparr>nf_tmp := Some (take partial (to_le_bytes 8 n))\<rparr>))
    (st_seq (io_step fails IoSync id id)
       (move_file fails partial))))))"

definition load_current_number :: "number_files \<Rightarrow> u64" where
  "load_current_number fs =
     (case nf_file fs of
        Some bs \<Rightarrow> if 8 \<le> length bs then from_le_bytes (take 8 bs) else 0
      | None \<Rightarrow> 0)"

section \<open>The state\<close>

text \<open>
  The state of the task, the node and the remote service. Batches of blocks that have been asked
  for are in flight until the task takes them from its channel. What the task has done is
  recorded: the heights it has searched, with the tip it knew then, and the transactions it has
  handed to the mempool.
\<close>

record ('d, 't, 'r) cross_state =
  xs_tip_number :: u64
  xs_current_number :: u64
  xs_start_fetch :: bool
  xs_in_flight :: "u64 list list"
  xs_searched :: "(u64 \<times> u64) list"
  xs_minted :: "signed_transaction list"
  xs_files :: number_files
  xs_node :: "('d, 't) chain_node"
  xs_remote :: 'r

type_synonym ('d, 't, 'r, 'v) cx_op = "(('d, 't, 'r) cross_state, cross_error, 'v) st"

section \<open>Operations\<close>

definition cx_panic :: "'v option \<Rightarrow> ('d, 't, 'r, 'v) cx_op" where
  "cx_panic x = st_lift (ok_or CrossPanic x)"

definition ask :: "('r, string, 'v) st \<Rightarrow> ('d, 't, 'r, string + 'v) cx_op" where
  "ask op s = (case op (xs_remote s) of (r, v) \<Rightarrow> (s\<lparr>xs_remote := r\<rparr>, Inr v))"

definition get_amount :: "bytes \<Rightarrow> 128 word option" where
  "get_amount data = (if 16 \<le> length data then Some (from_le_bytes (take 16 data)) else None)"

definition executor_context_default :: executor_context where
  "executor_context_default =
     \<lparr>ec_block_number = 0, ec_block_hash = 0, ec_block_coinbase = 0, ec_block_timestamp = 0, ec_chain_id = 0,
      ec_difficulty = 0, ec_origin = 0, ec_gas_price = 0, ec_block_gas_limit = 0, ec_block_base_fee_per_gas = 0, ec_logs = []\<rparr>"

definition get_nonce :: "('d, 't, 'p, 'r) cross_env \<Rightarrow> h160 \<Rightarrow> ('d, 't, 'r, u256) cx_op" where
  "get_nonce X addr s =
     (let n = xs_node s; E = ce_exec (xc_node X) in
      (s, case res_bind (backend_from_root E (nd_state_root n) (cn_trie_db n) (nd_storage n) executor_context_default)
                 (exec_get_account E addr) of
            Inl _ \<Rightarrow> Inl CrossPanic
          | Inr account \<Rightarrow> ok_or CrossPanic (checked_add (ac_nonce account) 1)))"

definition TWO_THOUSAND :: u256 where
  "TWO_THOUSAND = 2000"

definition mint_transaction :: "u256 \<Rightarrow> bytes \<Rightarrow> transaction" where
  "mint_transaction nonce input =
     \<lparr>tx_nonce = nonce, tx_max_priority_fee_per_gas = TWO_THOUSAND, tx_gas_price = TWO_THOUSAND, tx_gas_limit = 100000,
      tx_action = Create, tx_value = 0, tx_data = input, tx_access_list = []\<rparr>"

text \<open>Signing the transaction with the key of the service; every failure is a panic.\<close>

definition sign_axon_tx :: "('d, 't, 'p, 'r) cross_env \<Rightarrow> u64 \<Rightarrow> transaction \<Rightarrow> signed_transaction option" where
  "sign_axon_tx X chain_id tx =
     (let M = ce_mempool (xc_node X);
          utx = \<lparr>utx_unsigned = tx, utx_signature = None, utx_chain_id = chain_id, utx_hash = 0\<rparr>
      in Option.bind (signature_hash (mp_rlp M) (mp_keccak M) utx) (\<lambda>raw.
         Option.bind (xc_sign_message X raw) (\<lambda>signature.
         Option.bind (signature_from_bytes signature) (\<lambda>sc.
         Option.bind (if 65 \<le> length (xc_public X) then Some (from_be_bytes (take 64 (drop 1 (xc_public X)))) else None) (\<lambda>pub_key.
         Option.bind (utx_rehash (mp_rlp M) (mp_keccak M) (utx\<lparr>utx_signature := Some sc\<rparr>)) (\<lambda>utx.
           Some \<lparr>stx_transaction = utx, stx_sender = public_to_address (hasher_digest (mp_keccak M)) pub_key,
                 stx_public = Some pub_key\<rparr>))))))"

text \<open>An error of the mempool is logged only.\<close>

definition submit_axon_tx :: "('d, 't, 'p, 'r) cross_env \<Rightarrow> signed_transaction \<Rightarrow> ('d, 't, 'r, unit) cx_op" where
  "submit_axon_tx X stx s =
     (case mempool_insert (ce_mempool (xc_node X)) False stx (xs_node s) of
        (n, r) \<Rightarrow>
          (s\<lparr>xs_node := n, xs_minted := xs_minted s @ [stx]\<rparr>,
           if r = Inl MpPanic \<or> r = Inl (MpStorage StoragePanic) then Inl CrossPanic else Inr ()))"

definition send_axon_tx ::
  "('d, 't, 'p, 'r) cross_env \<Rightarrow> 128 word option \<Rightarrow> bytes \<Rightarrow> bytes \<Rightarrow> ('d, 't, 'r, unit) cx_op" where
  "send_axon_tx X amount addr tx_hash =
     st_bind (cx_panic (if 20 \<le> length addr then Some (from_be_bytes (take 20 addr)) else None)) (\<lambda>addr.
       case amount of
         None \<Rightarrow> st_return ()
       | Some amount \<Rightarrow>
           st_bind (get_nonce X addr) (\<lambda>nonce.
           st_bind (cx_panic (sign_axon_tx X (ce_chain_id (xc_node X))
               (mint_transaction nonce (xc_mint_input X (ucast amount) addr tx_hash)))) (submit_axon_tx X)))"

text \<open>The shape of a deposit: two inputs, two outputs with types, one of them the asset, three witnesses.\<close>

definition is_deposit :: "('d, 't, 'p, 'r) cross_env \<Rightarrow> ckb_tx \<Rightarrow> bool" where
  "is_deposit X tx \<longleftrightarrow>
     length (kt_outputs tx) = 2 \<and> length (kt_inputs tx) = 2 \<and> length (kt_witnesses tx) = 3 \<and>
     (case (ko_type (kt_outputs tx ! 0), ko_type (kt_outputs tx ! 1)) of
        (Some type_1, Some type_2) \<Rightarrow>
          xc_script_hash X type_1 = to_be_bytes 32 (xc_axon_udt_hash X) \<or>
          xc_script_hash X type_2 = to_be_bytes 32 (xc_axon_udt_hash X)
      | _ \<Rightarrow> False)"

definition search_one :: "('d, 't, 'p, 'r) cross_env \<Rightarrow> ckb_tx \<Rightarrow> ('d, 't, 'r, unit) cx_op" where
  "search_one X tx =
     (if \<not> is_deposit X tx then st_return ()
      else
        st_bind (cx_panic (get_amount (ko_data (kt_outputs tx ! 1)))) (\<lambda>output_amount.
        let (hash, index) = kt_inputs tx ! 1 in
        st_bind (ask (kc_get_transaction (xc_client X) hash)) (\<lambda>res.
        st_bind (cx_panic (case res of Inr (Some (Some input_tx)) \<Rightarrow> Some input_tx | _ \<Rightarrow> None)) (\<lambda>input_tx.
        st_bind (cx_panic (if index < length (kt_outputs input_tx) then Some (ko_data (kt_outputs input_tx ! index)) else None)) (\<lambda>data.
        st_bind (cx_panic (get_amount data)) (\<lambda>input_amount.
          send_axon_tx X (checked_sub input_amount output_amount) (kt_witnesses tx ! 2) (kt_hash tx)))))))"

definition search_tx :: "('d, 't, 'p, 'r) cross_env \<Rightarrow> ckb_block \<Rightarrow> ('d, 't, 'r, unit) cx_op" where
  "search_tx X b =
     st_seq (st_modify (\<lambda>s. s\<lparr>xs_current_number := kb_number b, xs_searched := xs_searched s @ [(kb_number b, xs_tip_number s)]\<rparr>))
       (st_each (search_one X) (kb_transactions b))"

text \<open>\<open>fetch_block\<close>: the blocks are asked for by tasks of their own, which send the answers back together.\<close>

definition fetch_block :: "('d, 't, 'r, unit) cx_op" where
  "fetch_block =
     st_bind (st_gets xs_start_fetch) (\<lambda>start_fetch.
     st_bind (st_gets xs_tip_number) (\<lambda>tip.
     st_bind (st_gets xs_current_number) (\<lambda>current.
     st_bind (if start_fetch then st_bind (cx_panic (checked_sub tip current)) (\<lambda>gap. st_return (24 < gap)) else st_return False) (\<lambda>go.
       if go then
         st_seq (st_modify (\<lambda>s. s\<lparr>xs_start_fetch := False\<rparr>))
        (st_bind (cx_panic (checked_add current 1)) (\<lambda>first.
         st_bind (cx_panic (checked_add current 200)) (\<lambda>most.
           st_modify (\<lambda>s. s\<lparr>xs_in_flight := xs_in_flight s @
             [map word_of_nat [unat first..<Suc (unat (min (saturating_sub tip 24) most))]]\<rparr>))))
       else st_modify (\<lambda>s. s\<lparr>xs_start_fetch := True\<rparr>)))))"

definition update_tip_number :: "('d, 't, 'p, 'r) cross_env \<Rightarrow> ('d, 't, 'r, unit) cx_op" where
  "update_tip_number X =
     st_bind (ask (kc_get_tip_header (xc_client X))) (\<lambda>res.
     st_bind (cx_panic (case res of Inr tip \<Rightarrow> Some tip | Inl _ \<Rightarrow> None)) (\<lambda>tip.
     st_seq (st_modify (\<lambda>s. s\<lparr>xs_tip_number := tip,
         xs_current_number := if tip < xs_current_number s then 0 else xs_current_number s\<rparr>))
       fetch_block))"

text \<open>
  The loop that asks again for a block that could not be fetched has no exit but a panic:
  \<open>None\<close> is a loop that does not end.
\<close>

definition retry_round :: "('d, 't, 'p, 'r) cross_env \<Rightarrow> u64 \<Rightarrow> ('d, 't, 'r, unit) cx_op" where
  "retry_round X number =
     st_bind (ask (kc_get_block_by_number (xc_client X) number)) (\<lambda>res.
       case res of Inr b \<Rightarrow> search_tx X b | Inl _ \<Rightarrow> st_return ())"

partial_function (option) retry_fetch ::
  "('d, 't, 'p, 'r) cross_env \<Rightarrow> u64 \<Rightarrow> ('d, 't, 'r) cross_state \<Rightarrow> (('d, 't, 'r) cross_state \<times> (cross_error + unit)) option" where
  "retry_fetch X number s =
     (case retry_round X number s of
        (s', Inl e) \<Rightarrow> Some (s', Inl e)
      | (s', Inr _) \<Rightarrow> retry_fetch X number s')"

fun search_blocks ::
  "('d, 't, 'p, 'r) cross_env \<Rightarrow> (string + ckb_block) list \<Rightarrow> ('d, 't, 'r) cross_state
   \<Rightarrow> (('d, 't, 'r) cross_state \<times> (cross_error + unit)) option" where
  "search_blocks X [] s = Some (s, Inr ())"
| "search_blocks X (Inr b # rest) s =
     (case search_tx X b s of (s', Inr _) \<Rightarrow> search_blocks X rest s' | (s', Inl e) \<Rightarrow> Some (s', Inl e))"
| "search_blocks X (Inl e # rest) s =
     (case checked_add (xs_current_number s) 1 of
        None \<Rightarrow> Some (s, Inl CrossPanic)
      | Some number \<Rightarrow>
          (case retry_fetch X number s of
             None \<Rightarrow> None
           | Some (s', Inl e) \<Rightarrow> Some (s', Inl e)
           | Some (s', Inr _) \<Rightarrow> search_blocks X rest s'))"

text \<open>A failure to write the current number to its file is logged only; \<open>fails\<close> says which calls fail.\<close>

definition handle_blocks ::
  "('d, 't, 'p, 'r) cross_env \<Rightarrow> (io_call \<Rightarrow> bool) \<Rightarrow> nat \<Rightarrow> (string + ckb_block) list \<Rightarrow> ('d, 't, 'r) cross_state
   \<Rightarrow> (('d, 't, 'r) cross_state \<times> (cross_error + unit)) option" where
  "handle_blocks X fails partial blocks s =
     (case search_blocks X blocks s of
        None \<Rightarrow> None
      | Some (s', Inl e) \<Rightarrow> Some (s', Inl e)
      | Some (s', Inr _) \<Rightarrow>
          Some (fetch_block (s'\<lparr>xs_files := fst (dump_current_number fails partial (xs_current_number s') (xs_files s'))\<rparr>)))"

definition cross_new ::
  "('d, 't, 'p, 'r) cross_env \<Rightarrow> number_files \<Rightarrow> ('d, 't) chain_node \<Rightarrow> 'r \<Rightarrow> ('d, 't, 'r) cross_state" where
  "cross_new X fs n r =
     \<lparr>xs_tip_number = 0, xs_current_number = max (load_current_number fs) (xc_start_block_number X), xs_start_fetch = True,
      xs_in_flight = [], xs_searched = [], xs_minted = [], xs_files = fs, xs_node = n, xs_remote = r\<rparr>"

section \<open>Reports to CKB\<close>

definition len_prefixed :: "bytes \<Rightarrow> bytes" where
  "len_prefixed w = to_le_bytes 8 (word_of_nat (length w) :: u64) @ w"

text \<open>What is signed for a group: the transaction, the witness of the group and the other witnesses in it.\<close>

definition group_message :: "('d, 't, 'p, 'r) cross_env \<Rightarrow> transaction_completion_response \<Rightarrow> signature_action \<Rightarrow> bytes" where
  "group_message X resp a =
     xc_blake2b X (cp_tx_hash resp @ len_prefixed (cp_witnesses resp ! sg_index a) @
       concat (map (\<lambda>i. len_prefixed (cp_witnesses resp ! i)) (sg_other_indexes_in_group a)))"

definition signed_witness :: "('d, 't, 'p, 'r) cross_env \<Rightarrow> transaction_completion_response \<Rightarrow> signature_action \<Rightarrow> bytes" where
  "signed_witness X resp a =
     xc_set_lock X (cp_witnesses resp ! sg_index a) (xc_sign_ckb X (group_message X resp a))"

text \<open>An index outside the witnesses panics.\<close>

definition sign_response :: "('d, 't, 'p, 'r) cross_env \<Rightarrow> transaction_completion_response \<Rightarrow> bytes list option" where
  "sign_response X resp =
     (if list_all (\<lambda>a. list_all (\<lambda>i. i < length (cp_witnesses resp)) (sg_index a # sg_other_indexes_in_group a)) (cp_actions resp)
      then Some (fold (\<lambda>a ws. ws[sg_index a := signed_witness X resp a]) (cp_actions resp) (cp_witnesses resp))
      else None)"

text \<open>What the service builds is signed and sent; its errors are logged only.\<close>

definition send_signed ::
  "('d, 't, 'p, 'r) cross_env \<Rightarrow> string + transaction_completion_response \<Rightarrow> ('r, cross_error, unit) st" where
  "send_signed X res r =
     (case res of
        Inl _ \<Rightarrow> (r, Inr ())
      | Inr resp \<Rightarrow>
          (case sign_response X resp of
             None \<Rightarrow> (r, Inl CrossPanic)
           | Some tx \<Rightarrow> (fst (kc_send_transaction (xc_client X) tx r), Inr ())))"

definition BURN_SENDER :: string where
  "BURN_SENDER = ''ckt1qzda0cr08m85hc8jlnfp3zer7xulejywt49kt2rr0vthywaa50xwsqdrhpvcu82numz73852ed45cdxn4kcn72cr4338a''"

definition transfer_payload :: "('d, 't, 'p, 'r) cross_env \<Rightarrow> u256 \<Rightarrow> string \<Rightarrow> cross_chain_transfer_payload" where
  "transfer_payload X amount receiver =
     \<lparr>ct_sender = BURN_SENDER, ct_receiver = receiver, ct_udt_hash = xc_axon_udt_hash X, ct_amount = to_dec (unat amount),
      ct_direction = 1, ct_memo = 0\<rparr>"

definition report_log :: "('d, 't, 'p, 'r) cross_env \<Rightarrow> evm_log \<Rightarrow> ('r, cross_error, unit) st" where
  "report_log X log =
     (case xc_parse_burned X (log_topics log) (log_data log) of
        None \<Rightarrow> st_return ()
      | Some (amount, recipient_ckb_address) \<Rightarrow>
          st_bind (st_lift (ok_or CrossPanic (from_utf8 recipient_ckb_address))) (\<lambda>receiver.
          st_bind (\<lambda>r. case kc_build_transfer (xc_client X) (transfer_payload X amount receiver) r of (r', v) \<Rightarrow> (r', Inr v))
            (send_signed X)))"

definition set_evm_log ::
  "('d, 't, 'p, 'r) cross_env \<Rightarrow> u64 \<Rightarrow> hash \<Rightarrow> evm_log list list \<Rightarrow> ('r, cross_error, unit) st" where
  "set_evm_log X block_number block_hash logs =
     (if \<not> xc_enable X then st_return () else st_each (st_each (report_log X)) logs)"

definition set_checkpoint :: "('d, 't, 'p, 'r) cross_env \<Rightarrow> block \<Rightarrow> block_proof \<Rightarrow> ('r, cross_error, unit) st" where
  "set_checkpoint X b p =
     (if \<not> xc_enable X then st_return ()
      else
        let L = mp_rlp (ce_mempool (xc_node X));
            payload =
              \<lparr>sp_node_id = identity_new (xc_hex X) 0 (to_be_bytes 20 (xc_node_address X)),
               sp_admin_id = identity_new (xc_hex X) 0 (to_be_bytes 20 (xc_admin_address X)),
               sp_period_number = hd_number (bk_header b),
               sp_checkpoint = rl_out L (proposal_encode L (proposal_from_block b)) @ rl_out L (proof_encode L p),
               sp_selection_lock_hash = xc_selection_lock_hash X, sp_checkpoint_type_hash = xc_checkpoint_type_hash X\<rparr>
        in st_bind (\<lambda>r. case kc_build_checkpoint (xc_client X) payload r of (r', v) \<Rightarrow> (r', Inr v)) (send_signed X))"

section \<open>Following the chain\<close>

text \<open>
  The lives of the client: the task with the messages of its channel, and the restarts of the
  node, at which only the files and the record of what was searched remain. The tip of the CKB
  chain does not fall during a run, and the answer to a request for a height is a block of that
  height or an error.
\<close>

inductive cross_life :: "('d, 't, 'p, 'r) cross_env \<Rightarrow> number_files \<Rightarrow> ('d, 't, 'r) cross_state \<Rightarrow> bool" for X fs where
  cross_start: "cross_life X fs (cross_new X fs n r)"
| cross_tick: "cross_life X fs s \<Longrightarrow> update_tip_number X s = (s', Inr ()) \<Longrightarrow> xs_tip_number s \<le> xs_tip_number s' \<Longrightarrow>
    cross_life X fs s'"
| cross_batch: "cross_life X fs s \<Longrightarrow> xs_in_flight s = before @ ns # after \<Longrightarrow>
    list_all2 (\<lambda>n res. \<forall>b. res = Inr b \<longrightarrow> kb_number b = n) ns results \<Longrightarrow>
    handle_blocks X fails partial results (s\<lparr>xs_in_flight := before @ after\<rparr>) = Some (s', Inr ()) \<Longrightarrow> cross_life X fs s'"
| cross_restart: "cross_life X fs s \<Longrightarrow> cross_life X fs ((cross_new X (xs_files s) n r)\<lparr>xs_searched := xs_searched s\<rparr>)"

text \<open>Searching a block touches neither the position of the task nor the requests in flight.\<close>

definition position ::
  "('d, 't, 'r) cross_state \<Rightarrow> u64 \<times> u64 \<times> bool \<times> u64 list list \<times> (u64 \<times> u64) list \<times> number_files" where
  "position s = (xs_tip_number s, xs_current_number s, xs_start_fetch s, xs_in_flight s, xs_searched s, xs_files s)"

lemma keeps_ask [frame_intros]: "keeps position (ask op)"
  by (auto simp: keeps_def ask_def position_def split: prod.splits)

lemma keeps_cx_panic [frame_intros]: "keeps position (cx_panic x)"
  unfolding cx_panic_def by (intro frame_intros)

lemma keeps_get_nonce [frame_intros]: "keeps position (get_nonce X addr)"
  by (auto simp: keeps_def get_nonce_def Let_def)

lemma keeps_submit [frame_intros]: "keeps position (submit_axon_tx X stx)"
  by (auto simp: keeps_def submit_axon_tx_def position_def split: prod.splits)

lemma keeps_send_axon_tx [frame_intros]: "keeps position (send_axon_tx X amount addr tx_hash)"
  unfolding send_axon_tx_def by (intro frame_intros)

lemma keeps_search_one [frame_intros]: "keeps position (search_one X tx)"
  unfolding search_one_def Let_def case_prod_beta by (intro frame_intros)

lemma search_tx_position:
  assumes "search_tx X b s = (s', r)"
  shows "position s' = (xs_tip_number s, kb_number b, xs_start_fetch s, xs_in_flight s, xs_searched s @ [(kb_number b, xs_tip_number s)], xs_files s)"
proof -
  let ?s = "s\<lparr>xs_current_number := kb_number b, xs_searched := xs_searched s @ [(kb_number b, xs_tip_number s)]\<rparr>"
  have "keeps position (st_each (search_one X) (kb_transactions b))" by (intro frame_intros)
  moreover have "st_each (search_one X) (kb_transactions b) ?s = (s', r)" using assms by (simp add: search_tx_def st_seq_apply)
  ultimately have "position s' = position ?s" by (rule keepsD)
  then show ?thesis by (simp add: position_def)
qed

lemma retry_fetch_panics: "retry_fetch X number s = Some (s', r) \<Longrightarrow> \<exists>e. r = Inl e"
proof -
  assume "retry_fetch X number s = Some (s', r)"
  then have "\<exists>e. snd (s', r) = Inl e"
    by (rule retry_fetch.raw_induct [where P = "\<lambda>X n s y. \<exists>e. snd y = Inl e", rotated]) (auto split: prod.splits sum.splits)
  then show ?thesis by simp
qed

lemma retry_fetch_diverges:
  assumes "\<And>s. P s \<Longrightarrow> \<exists>s'. retry_round X number s = (s', Inr ()) \<and> P s'" and "P s"
  shows "retry_fetch X number s = None"
proof (rule ccontr)
  assume "retry_fetch X number s \<noteq> None"
  then obtain y where "retry_fetch X number s = Some y" by blast
  then have "X = X \<and> number = number \<longrightarrow> P s \<longrightarrow> False"
  proof (rule retry_fetch.raw_induct [where P = "\<lambda>Y n s y. Y = X \<and> n = number \<longrightarrow> P s \<longrightarrow> False", rotated])
    fix rf Y n s y
    assume IH: "\<And>Y n s y. rf Y n s = Some y \<Longrightarrow> Y = X \<and> n = number \<longrightarrow> P s \<longrightarrow> False"
      and step: "(case retry_round Y n s of (s', Inl e) \<Rightarrow> Some (s', Inl e) | (s', Inr _) \<Rightarrow> rf Y n s') = Some y"
    show "Y = X \<and> n = number \<longrightarrow> P s \<longrightarrow> False"
    proof (intro impI)
      assume "Y = X \<and> n = number" "P s"
      moreover from this assms(1) obtain s' where "retry_round X number s = (s', Inr ())" "P s'" by blast
      ultimately show False using IH [of X number s' y] step by simp
    qed
  qed
  with assms(2) show False by simp
qed

lemma search_blocks_error: "search_blocks X (Inl e # rest) s \<noteq> Some (s', Inr ())"
proof (cases "checked_add (xs_current_number s) 1")
  case (Some number)
  show ?thesis
  proof (cases "retry_fetch X number s")
    case (Some y)
    obtain a r where y: "y = (a, r)" by fastforce
    with Some retry_fetch_panics obtain e' where "r = Inl e'" by blast
    with \<open>checked_add _ _ = _\<close> Some y show ?thesis by simp
  qed (simp add: Some)
qed simp

lemma search_blocks_position:
  "search_blocks X results s = Some (s', Inr ()) \<Longrightarrow>
     \<exists>bs. results = map Inr bs \<and>
       position s' = (xs_tip_number s, last (xs_current_number s # map kb_number bs), xs_start_fetch s, xs_in_flight s,
         xs_searched s @ map (\<lambda>b. (kb_number b, xs_tip_number s)) bs, xs_files s)"
proof (induction results arbitrary: s)
  case (Cons res rest)
  show ?case
  proof (cases res)
    case (Inl e)
    with Cons.prems search_blocks_error [of X e rest s s'] show ?thesis by simp
  next
    case (Inr b)
    obtain s1 r where s1: "search_tx X b s = (s1, r)" by fastforce
    with Cons.prems Inr have "search_blocks X rest s1 = Some (s', Inr ())" by (cases r) simp_all
    from Cons.IH [OF this] obtain bs where bs: "rest = map Inr bs"
        "position s' = (xs_tip_number s1, last (xs_current_number s1 # map kb_number bs), xs_start_fetch s1, xs_in_flight s1,
           xs_searched s1 @ map (\<lambda>b. (kb_number b, xs_tip_number s1)) bs, xs_files s1)" by blast
    with search_tx_position [OF s1] Inr show ?thesis by (intro exI [of _ "b # bs"]) (simp add: position_def)
  qed
qed (simp add: position_def)

lemma fetch_block_effect:
  assumes "fetch_block s = (s', Inr ())"
  shows "xs_tip_number s' = xs_tip_number s \<and> xs_current_number s' = xs_current_number s \<and> xs_searched s' = xs_searched s \<and>
    xs_files s' = xs_files s \<and> (xs_in_flight s' = xs_in_flight s \<or>
     unat (xs_current_number s) + 24 < unat (xs_tip_number s) \<and>
     xs_in_flight s' = xs_in_flight s @ [map word_of_nat [Suc (unat (xs_current_number s))
       ..<Suc (min (unat (xs_tip_number s) - 24) (unat (xs_current_number s) + 200))]])"
proof (cases "xs_start_fetch s")
  case False
  with assms show ?thesis by (auto simp: fetch_block_def st_bind_apply)
next
  case True
  let ?tip = "xs_tip_number s" and ?current = "xs_current_number s"
  obtain gap where gap: "checked_sub ?tip ?current = Some gap"
    using assms True by (cases "checked_sub ?tip ?current") (auto simp: fetch_block_def st_bind_apply cx_panic_def)
  show ?thesis
  proof (cases "24 < gap")
    case False
    with assms gap True show ?thesis by (auto simp: fetch_block_def st_bind_apply cx_panic_def)
  next
    case go: True
    obtain first most where first: "checked_add ?current 1 = Some first" and most: "checked_add ?current 200 = Some most"
      using assms gap True go
      by (cases "checked_add ?current 1"; cases "checked_add ?current 200")
        (auto simp: fetch_block_def st_bind_apply st_seq_apply cx_panic_def)
    have "unat ?current + 24 < unat ?tip" using checked_sub_unat [OF gap] go by (simp add: word_less_nat_alt)
    moreover have "unat (min (saturating_sub ?tip 24) most) = min (unat ?tip - 24) (unat ?current + 200)"
      using checked_add_unat [OF most] by (simp add: min_def word_le_nat_alt saturating_sub_unat)
    moreover have "unat first = Suc (unat ?current)" using checked_add_unat [OF first] by simp
    ultimately show ?thesis
      using assms gap True go first most
      by (auto simp: fetch_block_def st_bind_apply st_seq_apply cx_panic_def simp del: upt_Suc)
  qed
qed

text \<open>
  What is in flight was asked for deep enough below the tip, and everything between the start
  and the first height of a batch has been searched.
\<close>

abbreviation searched_heights :: "('d, 't, 'r) cross_state \<Rightarrow> u64 set" where
  "searched_heights s \<equiv> fst ` set (xs_searched s)"

definition batch_ok :: "u64 \<Rightarrow> u64 \<Rightarrow> u64 set \<Rightarrow> u64 list \<Rightarrow> bool" where
  "batch_ok start tip searched ns \<longleftrightarrow>
     (\<exists>a b. ns = map word_of_nat [a..<b] \<and> a < b \<and> b + 23 \<le> unat tip \<and>
        (\<forall>h. start < h \<and> unat h < a \<longrightarrow> h \<in> searched))"

definition scan_ok :: "u64 \<Rightarrow> ('d, 't, 'r) cross_state \<Rightarrow> bool" where
  "scan_ok start s \<longleftrightarrow>
     (\<forall>h. start < h \<and> h \<le> max (xs_current_number s) (load_current_number (xs_files s)) \<longrightarrow> h \<in> searched_heights s) \<and>
     (\<forall>(h, tip) \<in> set (xs_searched s). unat h + 24 \<le> unat tip) \<and>
     list_all (batch_ok start (xs_tip_number s) (searched_heights s)) (xs_in_flight s)"

lemma batch_ok_mono:
  "batch_ok start tip searched ns \<Longrightarrow> tip \<le> tip' \<Longrightarrow> searched \<subseteq> searched' \<Longrightarrow> batch_ok start tip' searched' ns"
  unfolding batch_ok_def word_le_nat_alt by (elim exE conjE, rule exI, rule exI) (auto intro: le_trans)

lemma scan_ok_fetch:
  assumes "scan_ok start s" and "fetch_block s = (s', Inr ())"
  shows "scan_ok start s'"
proof -
  let ?a = "Suc (unat (xs_current_number s))" and ?b = "Suc (min (unat (xs_tip_number s) - 24) (unat (xs_current_number s) + 200))"
  note effect = fetch_block_effect [OF assms(2)]
  have covered: "h \<in> searched_heights s" if "start < h" "unat h < ?a" for h
  proof -
    have "h \<le> xs_current_number s" using that(2) by (simp add: word_le_nat_alt)
    then have "h \<le> max (xs_current_number s) (load_current_number (xs_files s))" by (rule max.coboundedI1)
    with that(1) assms(1) show ?thesis by (simp add: scan_ok_def)
  qed
  have "batch_ok start (xs_tip_number s) (searched_heights s) (map word_of_nat [?a..<?b])"
    if "unat (xs_current_number s) + 24 < unat (xs_tip_number s)"
    unfolding batch_ok_def
  proof (intro exI conjI)
    show "?a < ?b" "?b + 23 \<le> unat (xs_tip_number s)" using that by auto
    show "\<forall>h. start < h \<and> unat h < ?a \<longrightarrow> h \<in> searched_heights s" using covered by blast
  qed (rule refl)
  with effect assms(1) show ?thesis by (auto simp: scan_ok_def)
qed

lemma unat_of_nat_below: "k < unat (w :: u64) \<Longrightarrow> unat (word_of_nat k :: u64) = k"
  using unat_bound [of w] by (simp add: unat_of_nat)

lemma le_bytes_facts [simp]: "length (to_le_bytes n w) = n" "from_le_bytes (to_le_bytes 8 (k :: u64)) = k"
  by (simp_all add: to_le_bytes_def from_le_bytes_def be_bytes_roundtrip)

lemma dump_loads:
  assumes "dump_current_number fails partial n fs = (fs', r)"
  shows "load_current_number fs' \<in> {0, load_current_number fs, n}"
  using assms
  by (auto simp: dump_current_number_def move_file_def io_step_def st_seq_apply load_current_number_def split: if_splits)

lemma scan_ok_dump:
  assumes "scan_ok start s"
  shows "scan_ok start (s\<lparr>xs_files := fst (dump_current_number fails partial (xs_current_number s) (xs_files s))\<rparr>)"
proof -
  obtain fs' r where "dump_current_number fails partial (xs_current_number s) (xs_files s) = (fs', r)" by fastforce
  with dump_loads [OF this] assms show ?thesis by (auto simp: scan_ok_def le_max_iff_disj)
qed

lemma scan_ok_search:
  assumes ok: "scan_ok start s" and flight: "xs_in_flight s = before @ ns # after"
    and results: "list_all2 (\<lambda>n res. \<forall>b. res = Inr b \<longrightarrow> kb_number b = n) ns results"
    and searched: "search_blocks X results (s\<lparr>xs_in_flight := before @ after\<rparr>) = Some (s1, Inr ())"
  shows "scan_ok start s1"
proof -
  from search_blocks_position [OF searched] obtain bs where bs: "results = map Inr bs"
      "position s1 = (xs_tip_number s, last (xs_current_number s # map kb_number bs), xs_start_fetch s, before @ after,
         xs_searched s @ map (\<lambda>b. (kb_number b, xs_tip_number s)) bs, xs_files s)" by auto
  have ns: "map kb_number bs = ns" using results unfolding bs(1) by (auto simp: list_all2_conv_all_nth intro: nth_equalityI)
  have heights: "searched_heights s1 = searched_heights s \<union> set ns"
    using bs(2) by (auto simp: position_def ns [symmetric] image_Un image_image)
  obtain a b where ab: "ns = map word_of_nat [a..<b]" "a < b" "b + 23 \<le> unat (xs_tip_number s)"
      "\<forall>h. start < h \<and> unat h < a \<longrightarrow> h \<in> searched_heights s"
    using ok flight by (auto simp: scan_ok_def batch_ok_def)
  have small: "unat (word_of_nat k :: u64) = k" if "k < b" for k using unat_of_nat_below [of k "xs_tip_number s"] that ab(3) by simp
  have last: "unat (xs_current_number s1) = b - 1"
    using bs(2) ab(1,2) small [of "b - 1"] by (simp add: position_def ns last_map)
  have "h \<in> set ns" if "a \<le> unat h" "unat h < b" for h
    using that unfolding ab(1) by (auto intro!: image_eqI [of _ _ "unat h"])
  then have "h \<in> searched_heights s1" if "start < h" "h \<le> xs_current_number s1" for h
    using that ab(2,4) last unfolding heights by (cases "unat h < a") (auto simp: word_le_nat_alt)
  moreover have "h \<in> searched_heights s1" if "start < h" "h \<le> load_current_number (xs_files s1)" for h
    using that ok bs(2) unfolding heights by (auto simp: position_def scan_ok_def le_max_iff_disj)
  moreover have "unat n + 24 \<le> unat (xs_tip_number s)" if "n \<in> set ns" for n
    using that ab(1,3) small by auto
  then have "\<forall>(h, tip) \<in> set (xs_searched s1). unat h + 24 \<le> unat tip"
    using ok bs(2) by (auto simp: position_def scan_ok_def ns [symmetric])
  moreover have "list_all (batch_ok start (xs_tip_number s1) (searched_heights s1)) (xs_in_flight s1)"
    using ok flight bs(2) unfolding heights by (auto simp: scan_ok_def position_def list_all_iff intro: batch_ok_mono)
  ultimately show ?thesis by (simp add: scan_ok_def le_max_iff_disj) blast
qed

lemma scan_ok_batch:
  assumes "scan_ok start s" and "xs_in_flight s = before @ ns # after"
    and "list_all2 (\<lambda>n res. \<forall>b. res = Inr b \<longrightarrow> kb_number b = n) ns results"
    and handled: "handle_blocks X fails partial results (s\<lparr>xs_in_flight := before @ after\<rparr>) = Some (s', Inr ())"
  shows "scan_ok start s'"
proof -
  obtain s1 where s1: "search_blocks X results (s\<lparr>xs_in_flight := before @ after\<rparr>) = Some (s1, Inr ())"
    and fetch: "fetch_block (s1\<lparr>xs_files := fst (dump_current_number fails partial (xs_current_number s1) (xs_files s1))\<rparr>) = (s', Inr ())"
    using handled by (auto simp: handle_blocks_def split: option.splits prod.splits sum.splits)
  show ?thesis by (rule scan_ok_fetch [OF scan_ok_dump [OF scan_ok_search [OF assms(1-3) s1]] fetch])
qed

lemma scan_ok_tick:
  assumes "scan_ok start s" and "update_tip_number X s = (s', Inr ())" and "xs_tip_number s \<le> xs_tip_number s'"
  shows "scan_ok start s'"
proof -
  obtain r tip where tip: "kc_get_tip_header (xc_client X) (xs_remote s) = (r, Inr tip)"
    using assms(2) by (cases "kc_get_tip_header (xc_client X) (xs_remote s)"; cases "snd (kc_get_tip_header (xc_client X) (xs_remote s))")
      (auto simp: update_tip_number_def ask_def st_bind_apply cx_panic_def)
  let ?s = "s\<lparr>xs_remote := r, xs_tip_number := tip, xs_current_number := if tip < xs_current_number s then 0 else xs_current_number s\<rparr>"
  have fetch: "fetch_block ?s = (s', Inr ())"
    using assms(2) tip by (simp add: update_tip_number_def ask_def st_bind_apply st_seq_apply cx_panic_def cong: if_cong)
  then have le: "xs_tip_number s \<le> tip" using fetch_block_effect [OF fetch] assms(3) by simp
  have "list_all (batch_ok start tip (searched_heights s)) (xs_in_flight s)"
    using assms(1) le by (auto simp: scan_ok_def list_all_iff intro: batch_ok_mono)
  then have "scan_ok start ?s" using assms(1) by (auto simp: scan_ok_def le_max_iff_disj)
  then show ?thesis using fetch by (rule scan_ok_fetch)
qed

lemma cross_life_scan_ok:
  "cross_life X fs s \<Longrightarrow> scan_ok (max (load_current_number fs) (xc_start_block_number X)) s"
proof (induction rule: cross_life.induct)
  case (cross_start n r)
  show ?case by (auto simp: scan_ok_def cross_new_def le_max_iff_disj dest: leD)
next
  case (cross_restart s n r)
  then show ?case by (auto simp: scan_ok_def cross_new_def le_max_iff_disj dest: leD)
qed (blast intro: scan_ok_tick scan_ok_batch)+

section \<open>Properties\<close>


text \<open>
  A block that cannot be fetched stops the client for good: a batch with an error is
  never handled to its end. If the remote node answers again, the task searches the same block
  in every round of a loop that does not end.
\<close>

theorem failed_fetch_never_returns:
  assumes "\<And>r. snd (kc_get_block_by_number (xc_client X) number r) = Inr b"
    and "\<And>s. P s \<Longrightarrow> \<exists>s'. retry_round X number s = (s', Inr ()) \<and> P s'" and "P s0"
  shows "(\<forall>fails partial bs e rest s s'. handle_blocks X fails partial (map Inr bs @ Inl e # rest) s \<noteq> Some (s', Inr ())) \<and>
    retry_fetch X number s0 = None \<and>
    (\<forall>k. xs_searched (((\<lambda>s. fst (retry_round X number s)) ^^ k) s0) = xs_searched s0 @ replicate k (kb_number b, xs_tip_number s0))"
proof (intro conjI allI)
  fix fails partial and bs :: "ckb_block list" and e rest s s'
  have "search_blocks X (map Inr bs @ Inl e # rest) s \<noteq> Some (s', Inr ())" for s s'
    using search_blocks_position [of X "map Inr bs @ Inl e # rest" s s'] by (auto simp: append_eq_map_conv)
  then show "handle_blocks X fails partial (map Inr bs @ Inl e # rest) s \<noteq> Some (s', Inr ())"
    by (auto simp: handle_blocks_def split: option.splits prod.splits sum.splits)
next
  show "retry_fetch X number s0 = None" using assms(2,3) by (rule retry_fetch_diverges)
next
  fix k
  have "xs_searched (fst (retry_round X number s)) = xs_searched s @ [(kb_number b, xs_tip_number s)] \<and>
      xs_tip_number (fst (retry_round X number s)) = xs_tip_number s" for s
  proof -
    let ?s = "s\<lparr>xs_remote := fst (kc_get_block_by_number (xc_client X) number (xs_remote s))\<rparr>"
    have "retry_round X number s = search_tx X b ?s"
      using assms(1) [of "xs_remote s"] by (simp add: retry_round_def ask_def st_bind_apply case_prod_beta)
    then show ?thesis using search_tx_position [of X b ?s] by (simp add: position_def prod_eq_iff)
  qed
  then have "xs_searched (((\<lambda>s. fst (retry_round X number s)) ^^ k) s0) = xs_searched s0 @ replicate k (kb_number b, xs_tip_number s0) \<and>
      xs_tip_number (((\<lambda>s. fst (retry_round X number s)) ^^ k) s0) = xs_tip_number s0"
    by (induction k) (simp_all flip: replicate_append_same)
  then show "xs_searched (((\<lambda>s. fst (retry_round X number s)) ^^ k) s0) = xs_searched s0 @ replicate k (kb_number b, xs_tip_number s0)" ..
qed

lemma each_fails_iff:
  assumes "\<And>x s. x \<in> set xs \<Longrightarrow> (snd (f x s) = Inl CrossPanic \<longleftrightarrow> Q x)"
  shows "snd (st_each f xs s) = Inl CrossPanic \<longleftrightarrow> (\<exists>x \<in> set xs. Q x)"
  using assms
proof (induction xs arbitrary: s)
  case (Cons x xs)
  have x: "snd (f x s) = Inl CrossPanic \<longleftrightarrow> Q x" using Cons.prems by simp
  have xs: "snd (st_each f xs s) = Inl CrossPanic \<longleftrightarrow> (\<exists>x \<in> set xs. Q x)" for s using Cons by simp
  obtain s1 r where "f x s = (s1, r)" by fastforce
  then show ?case using x xs [of s1] by (cases r) (auto simp: st_seq_apply)
qed simp


text \<open>
  The file that keeps the current number survives failures: what a successful dump
  has written is what the next start loads, and whichever calls of the file system fail, the
  next start loads the old number or the new one, unless the rename and the copy after it both
  fail.
\<close>

theorem number_file_atomic:
  assumes "dump_current_number fails partial n fs = (fs', r)"
  shows "(is_ok r \<longrightarrow> load_current_number fs' = n) \<and>
    (\<not> fails IoRename \<or> \<not> fails IoCopy \<longrightarrow> load_current_number fs' \<in> {load_current_number fs, n})"
  using assms
  by (auto simp: dump_current_number_def move_file_def io_step_def st_seq_apply load_current_number_def split: if_splits)


lemma each_panics:
  "x \<in> set xs \<Longrightarrow> (\<And>s. snd (f x s) = Inl CrossPanic) \<Longrightarrow> snd (st_each f xs s) = Inl CrossPanic"
proof (induction xs arbitrary: s)
  case (Cons y xs)
  obtain s1 r where y: "f y s = (s1, r)" by fastforce
  show ?case
  proof (cases r)
    case (Inl e)
    with y show ?thesis by (cases e) (simp add: st_seq_apply)
  next
    case (Inr u)
    with y Cons.prems(2) [of s] have "y \<noteq> x" by auto
    with Cons y Inr show ?thesis by (simp add: st_seq_apply)
  qed
qed simp

text \<open>
  Anyone on the CKB chain can stop the client: a transaction in the shape of a deposit
  whose third witness is shorter than an address panics the search of its block, whatever the
  remote node answers about it.
\<close>

theorem short_witness_stops_client:
  assumes "tx \<in> set (kb_transactions b)" and "is_deposit X tx" and "length (kt_witnesses tx ! 2) < 20"
  shows "snd (search_tx X b s) = Inl CrossPanic"
proof -
  have send: "snd (send_axon_tx X amount (kt_witnesses tx ! 2) tx_hash s) = Inl CrossPanic" for amount tx_hash s
    using assms(3) by (simp add: send_axon_tx_def st_bind_apply cx_panic_def)
  have "snd (search_one X tx s) = Inl CrossPanic" for s
    using assms(2) send
    by (auto simp: search_one_def Let_def case_prod_beta st_bind_apply cx_panic_def ask_def split: option.splits prod.splits sum.splits)
  then have "snd (st_each (search_one X) (kb_transactions b) s) = Inl CrossPanic" for s by (rule each_panics [OF assms(1)])
  then show ?thesis by (simp add: search_tx_def st_seq_apply)
qed

text \<open>
  A batch can be asked for twice: when an answer takes longer than two ticks of the
  timer, the third tick asks for the same heights again, and both answers will be handled.
\<close>

theorem slow_answer_fetched_twice:
  assumes "\<And>r. kc_get_tip_header (xc_client X) r = (r, Inr tip)" and "xs_start_fetch s"
    and "unat (xs_current_number s) + 24 < unat tip" and "unat (xs_current_number s) + 200 < 2 ^ 64"
  defines "ns \<equiv> map word_of_nat [Suc (unat (xs_current_number s))..<Suc (min (unat tip - 24) (unat (xs_current_number s) + 200))]"
  shows "\<exists>s1 s2 s3. update_tip_number X s = (s1, Inr ()) \<and> update_tip_number X s1 = (s2, Inr ()) \<and>
    update_tip_number X s2 = (s3, Inr ()) \<and> xs_in_flight s3 = xs_in_flight s @ [ns, ns]"
proof -
  let ?c = "xs_current_number s"
  have add: "checked_add ?c 1 = Some (?c + 1)" "checked_add ?c 200 = Some (?c + 200)" using assms(4) by (simp_all add: checked_add_def)
  have sub: "checked_sub tip ?c = Some (tip - ?c)" using assms(3) by (simp add: checked_sub_def word_le_nat_alt not_less)
  have gap: "24 < tip - ?c" using checked_sub_unat [OF sub] assms(3) by (simp add: word_less_nat_alt)
  have ns: "ns = map word_of_nat [unat (?c + 1)..<Suc (unat (min (saturating_sub tip 24) (?c + 200)))]"
  proof -
    have "unat (min (saturating_sub tip 24) (?c + 200)) = min (unat tip - 24) (unat ?c + 200)"
      using checked_add_unat [OF add(2)] by (simp add: min_def word_le_nat_alt saturating_sub_unat)
    then show ?thesis using checked_add_unat [OF add(1)] by (simp add: ns_def del: upt_Suc)
  qed
  have le: "\<not> tip < ?c" using assms(3) by (simp add: word_less_nat_alt)
  have go: "update_tip_number X t = (t\<lparr>xs_tip_number := tip, xs_start_fetch := False, xs_in_flight := xs_in_flight t @ [ns]\<rparr>, Inr ())"
    if "xs_start_fetch t" "xs_current_number t = ?c" for t
    using that assms(1) add sub gap le
    by (simp add: update_tip_number_def ask_def fetch_block_def st_bind_apply st_seq_apply cx_panic_def ns del: upt_Suc)
  have wait: "update_tip_number X t = (t\<lparr>xs_tip_number := tip, xs_start_fetch := True\<rparr>, Inr ())"
    if "\<not> xs_start_fetch t" "xs_current_number t = ?c" for t
    using that assms(1) le by (simp add: update_tip_number_def ask_def fetch_block_def st_bind_apply st_seq_apply cx_panic_def)
  show ?thesis using go [OF assms(2)] by (simp add: wait go)
qed

section \<open>Witnesses\<close>

definition sample_client :: "unit ckb_client" where
  "sample_client =
     \<lparr>kc_get_tip_header = (\<lambda>r. (r, Inr 30)), kc_get_block_by_number = (\<lambda>n r. (r, Inr \<lparr>kb_number = n, kb_transactions = []\<rparr>)),
      kc_get_transaction = (\<lambda>_ r. (r, Inr None)), kc_send_transaction = (\<lambda>_ r. (r, Inr 0)),
      kc_build_transfer = (\<lambda>_ r. (r, Inl ''busy'')), kc_build_checkpoint = (\<lambda>_ r. (r, Inl ''busy''))\<rparr>"

definition sample_cross_env :: "(mem_db, (bytes \<rightharpoonup> bytes) list, bytes \<rightharpoonup> bytes, unit) cross_env" where
  "sample_cross_env =
     \<lparr>xc_node = sample_consensus_env, xc_client = sample_client, xc_axon_udt_hash = 0, xc_start_block_number = 4, xc_enable = True,
      xc_admin_address = 0, xc_node_address = 0, xc_selection_lock_hash = 0, xc_checkpoint_type_hash = 0,
      xc_script_hash = (\<lambda>_. to_be_bytes 32 (0 :: hash)), xc_mint_input = (\<lambda>_ _ _. []),
      xc_parse_burned = (\<lambda>topics data. if topics = [] then None else Some (1, data)), xc_sign_message = (\<lambda>_. None), xc_public = [],
      xc_blake2b = (\<lambda>bs. take 1 bs), xc_sign_ckb = (\<lambda>bs. bs), xc_set_lock = (\<lambda>w s. s @ w), xc_hex = sample_hex\<rparr>"

definition no_files :: number_files where
  "no_files = \<lparr>nf_tmp = None, nf_file = None\<rparr>"

definition sample_cross_state :: "(mem_db, (bytes \<rightharpoonup> bytes) list, unit) cross_state" where
  "sample_cross_state = cross_new sample_cross_env no_files sample_chain_node ()"

lemma sample_cross_simps [simp]:
  "xc_client sample_cross_env = sample_client" "xc_enable sample_cross_env" "xc_start_block_number sample_cross_env = 4"
  "kc_get_tip_header sample_client r = (r, Inr 30)"
  "kc_get_block_by_number sample_client n r = (r, Inr \<lparr>kb_number = n, kb_transactions = []\<rparr>)"
  "kc_build_transfer sample_client p r = (r, Inl ''busy'')"
  "xc_parse_burned sample_cross_env topics data = (if topics = [] then None else Some (1, data))"
  by (simp_all add: sample_cross_env_def sample_client_def)


theorem failed_fetch_never_returns_witness: "retry_fetch sample_cross_env 5 sample_cross_state = None"
proof -
  have "\<exists>s'. retry_round sample_cross_env 5 s = (s', Inr ()) \<and> True" for s :: "(mem_db, (bytes \<rightharpoonup> bytes) list, unit) cross_state"
    by (simp add: retry_round_def ask_def st_bind_apply search_tx_def st_seq_apply)
  then show ?thesis
    using failed_fetch_never_returns [of sample_cross_env 5 "\<lparr>kb_number = 5, kb_transactions = []\<rparr>" "\<lambda>_. True" sample_cross_state] by simp
qed


theorem number_file_atomic_witness:
  "load_current_number (fst (dump_current_number (\<lambda>c. c = IoRename) 3 77 \<lparr>nf_tmp = None, nf_file = Some []\<rparr>)) = 77"
proof -
  obtain fs' r where run: "dump_current_number (\<lambda>c. c = IoRename) 3 77 \<lparr>nf_tmp = None, nf_file = Some []\<rparr> = (fs', r)" by fastforce
  moreover have "is_ok r"
    using run by (auto simp: dump_current_number_def move_file_def io_step_def st_seq_apply)
  ultimately show ?thesis using number_file_atomic [OF run] by simp
qed


theorem short_witness_stops_client_witness:
  "snd (search_tx sample_cross_env
      \<lparr>kb_number = 5, kb_transactions = [\<lparr>kt_hash = [], kt_inputs = [([], 0), ([], 0)],
         kt_outputs = replicate 2 \<lparr>ko_type = Some [], ko_data = []\<rparr>, kt_witnesses = [[], [], [1, 2]]\<rparr>]\<rparr> sample_cross_state) = Inl CrossPanic"
  by (rule short_witness_stops_client
      [where tx = "\<lparr>kt_hash = [], kt_inputs = [([], 0), ([], 0)], kt_outputs = replicate 2 \<lparr>ko_type = Some [], ko_data = []\<rparr>,
         kt_witnesses = [[], [], [1, 2]]\<rparr>"])
    (simp_all add: is_deposit_def sample_cross_env_def)

theorem slow_answer_fetched_twice_witness:
  "\<exists>s1 s2 s3. update_tip_number sample_cross_env sample_cross_state = (s1, Inr ()) \<and> update_tip_number sample_cross_env s1 = (s2, Inr ()) \<and>
    update_tip_number sample_cross_env s2 = (s3, Inr ()) \<and> xs_in_flight s3 = [[5, 6], [5, 6]]"
  using slow_answer_fetched_twice [of sample_cross_env 30 sample_cross_state]
  by (simp add: sample_cross_state_def cross_new_def load_current_number_def no_files_def max_def min_def upt_rec)

end
