(* ===== verification/Synchronization.thy ===== *)
theory Synchronization
  imports Engine
begin

text \<open>
  Block synchronization (\<open>core/consensus/src/synchronization.rs\<close>) and the message
  handlers that feed it and answer it (\<open>message.rs\<close>, \<open>types.rs\<close>). The synchronization
  works on its own copy of the status, which replaces the status of the node when all
  blocks of a run are in. What other tasks do to the node while \<open>need_sync\<close> sleeps is the
  argument \<open>sleep\<close>.
\<close>

section \<open>The reported status\<close>

definition sync_start :: "u64 \<Rightarrow> u64 \<Rightarrow> sync_status" where
  "sync_start start highest = Syncing (ucast start) (ucast start) (ucast highest)"

definition sync_finish :: sync_status where
  "sync_finish = SyncFalse"

text \<open>The pattern of \<open>add_one\<close> binds a copy of the counter, and only the copy is incremented.\<close>

definition sync_add_one :: "sync_status \<Rightarrow> consensus_error + sync_status" where
  "sync_add_one st =
     (case st of
        SyncFalse \<Rightarrow> Inr SyncFalse
      | Syncing start current highest \<Rightarrow>
          res_bind (ok_or CePanic (checked_add current 1)) (\<lambda>_. Inr (Syncing start current highest)))"

section \<open>Fetching and checking\<close>

definition get_rich_block_from_remote :: "('d, 't, 'p) consensus_env \<Rightarrow> u64 \<Rightarrow> ('d, 't, rich_block) cn_op" where
  "get_rich_block_from_remote E number =
     st_bind (get_block_from_remote E number) (\<lambda>b.
       if ce_sync_txs_chunk_size E = 0 then st_throw CePanic
       else
         st_bind (st_map (get_txs_from_remote E number) (chunks (ce_sync_txs_chunk_size E) (bk_tx_hashes b))) (\<lambda>txss.
           st_return \<lparr>rb_block = b, rb_txs = concat txss\<rparr>))"

definition verify_block :: "('d, 't, 'p) consensus_env \<Rightarrow> rich_block \<Rightarrow> ('d, 't, block_proof) cn_op" where
  "verify_block E rb =
     (let b = rb_block rb; consenting_number = hd_number (bk_header b) in
      st_bind (get_proof_from_remote E consenting_number) (\<lambda>consenting_proof.
      st_seq (verify_proof E b consenting_proof)
     (st_seq (verify_block_header E (proposal_from_block b))
     (st_bind (st_lift (ok_or CePanic (checked_sub consenting_number 1))) (\<lambda>prev_number.
      st_bind (get_block_by_number E prev_number) (\<lambda>previous_block.
      st_seq (verify_proof E previous_block (hd_proof (bk_header b)))
     (st_bind (st_lift (stxs_digest E (rb_txs rb))) (\<lambda>signed_txs_hash.
        if signed_txs_hash \<noteq> hd_signed_txs_hash (bk_header b)
        then st_throw (CeInvalidOrderSignedTransactionsHash signed_txs_hash (hd_signed_txs_hash (bk_header b)))
        else st_return consenting_proof))))))))"

section \<open>Committing a fetched block\<close>

definition save_chain_data ::
  "('d, 't, 'p) consensus_env \<Rightarrow> signed_transaction list \<Rightarrow> receipt list \<Rightarrow> block \<Rightarrow> ('d, 't, unit) cn_op" where
  "save_chain_data E txs receipts b =
     st_seq (save_signed_txs E (hd_number (bk_header b)) txs)
    (st_seq (save_receipts E (hd_number (bk_header b)) receipts)
    (st_seq (save_proof E (hd_proof (bk_header b)))
       (save_block E b)))"

definition synced_status ::
  "('d, 't, 'p) consensus_env \<Rightarrow> block \<Rightarrow> exec_resp \<Rightarrow> block_proof \<Rightarrow> metadata \<Rightarrow> current_status" where
  "synced_status E b resp p metadata =
     \<lparr>cs_prev_hash = header_hash E b, cs_last_number = hd_number (bk_header b),
      cs_last_state_root = er_state_root resp, cs_tx_num_limit = md_tx_num_limit metadata,
      cs_gas_limit = ucast (md_gas_limit metadata), cs_max_tx_size = ucast (md_max_tx_size metadata),
      cs_base_fee_per_gas = hd_base_fee_per_gas (bk_header b), cs_proof = p,
      cs_last_checkpoint_block_hash = md_last_checkpoint_block_hash metadata\<rparr>"

text \<open>Returns the status the agent holds afterwards; a failure loses the agent with the run.\<close>

definition commit_block ::
  "('d, 't, 'p) consensus_env \<Rightarrow> rich_block \<Rightarrow> block_proof \<Rightarrow> current_status \<Rightarrow> ('d, 't, current_status) cn_op" where
  "commit_block E rb p agent =
     (let b = rb_block rb in
      st_bind (adapter_exec E (cs_last_state_root agent) (proposal_from_block b) (rb_txs rb)) (\<lambda>resp.
        if er_state_root resp \<noteq> hd_state_root (bk_header b)
        then st_throw (CeInvalidStateRoot (hd_state_root (bk_header b)) (er_state_root resp))
        else if er_receipt_root resp \<noteq> hd_receipts_root (bk_header b)
        then st_throw (CeInvalidReceiptsRoot (hd_receipts_root (bk_header b)) (er_receipt_root resp))
        else
          let (receipts, logs) = generate_receipts_and_logs E (hd_number (bk_header b)) (header_hash E b)
                (hd_state_root (bk_header b)) (rb_txs rb) resp
          in
            st_bind (adapter_get_metadata E (bk_header b)) (\<lambda>metadata.
            st_seq (save_chain_data E (rb_txs rb) receipts b)
           (st_seq (flush_mempool E (bk_tx_hashes b))
              (st_return (synced_status E b resp p metadata))))))"

section \<open>A run of the synchronization\<close>

definition sync_step ::
  "('d, 't, 'p) consensus_env \<Rightarrow> u64 \<Rightarrow> current_status \<Rightarrow> ('d, 't, current_status) cn_op" where
  "sync_step E consenting_number agent =
     st_bind (get_rich_block_from_remote E consenting_number) (\<lambda>rb.
     st_bind (verify_block E rb) (\<lambda>p.
     st_bind (commit_block E rb p agent) (\<lambda>agent'.
     st_bind (st_gets cn_sync_status) (\<lambda>st.
     st_bind (st_lift (sync_add_one st)) (\<lambda>st'.
     st_seq (st_modify (\<lambda>s. s\<lparr>cn_sync_status := st'\<rparr>))
       (st_return agent'))))))"

function sync_loop ::
  "('d, 't, 'p) consensus_env \<Rightarrow> u64 \<Rightarrow> u64 \<Rightarrow> current_status \<Rightarrow> ('d, 't, current_status) cn_op" where
  "sync_loop E remote_number current agent =
     (if current < remote_number
      then st_bind (sync_step E (current + 1) agent) (sync_loop E remote_number (current + 1))
      else st_return agent)"
  by pat_completeness auto

termination
proof (relation "measure (\<lambda>(E, remote, current, agent). unat remote - unat current)")
  fix remote current :: u64
  assume lt: "current < remote"
  then have "unat current < unat remote" by (simp add: word_less_nat_alt)
  moreover have "unat (current + 1) = Suc (unat current)"
    using lt unat_bound [of remote] by (intro unat_plus_one_u64) (simp add: word_less_nat_alt)
  ultimately show "((E, remote, current + 1, agent'), (E, remote, current, agent))
      \<in> measure (\<lambda>(E, remote, current, agent). unat remote - unat current)" for E agent agent'
    by simp
qed simp

declare sync_loop.simps [simp del]

definition ONCE_SYNC_BLOCK_LIMIT :: u64 where
  "ONCE_SYNC_BLOCK_LIMIT = 50"

definition sync_target :: "u64 \<Rightarrow> u64 \<Rightarrow> consensus_error + u64" where
  "sync_target current_number remote_number =
     res_bind (ok_or CePanic (checked_add current_number ONCE_SYNC_BLOCK_LIMIT)) (\<lambda>limit.
       Inr (if remote_number < limit then remote_number else limit))"

definition start_sync ::
  "('d, 't, 'p) consensus_env \<Rightarrow> current_status \<Rightarrow> u64 \<Rightarrow> u64 \<Rightarrow> ('d, 't, current_status) cn_op" where
  "start_sync E agent current_number remote_number =
     st_bind (st_lift (sync_target current_number remote_number)) (\<lambda>target.
     st_seq (st_modify (\<lambda>s. s\<lparr>cn_sync_status := sync_start current_number target\<rparr>))
       (sync_loop E target current_number agent))"

definition need_sync :: "('d, 't, 'p) consensus_env \<Rightarrow> ('d, 't, unit) cn_op \<Rightarrow> u64 \<Rightarrow> ('d, 't, bool) cn_op" where
  "need_sync E sleep remote_number =
     st_bind (st_gets (\<lambda>s. cs_last_number (cn_status s))) (\<lambda>current_number.
       if remote_number = 0 \<or> remote_number \<le> current_number then st_return False
       else
         st_bind
           (if current_number = remote_number - 1
            then st_bind (adapter_metadata_unchecked E current_number) (\<lambda>_.
                 st_seq sleep
                   (st_gets (\<lambda>s. cs_last_number (cn_status s) = remote_number)))
            else st_return False)
           (\<lambda>reached.
              if reached then st_return False
              else st_bind (get_block_from_remote E remote_number) (\<lambda>b.
                     st_return (hd_number (bk_header b) = remote_number))))"

definition sync_update_status :: "('d, 't, 'p) consensus_env \<Rightarrow> current_status \<Rightarrow> ('d, 't, unit) cn_op" where
  "sync_update_status E sync_status =
     st_seq (st_modify (\<lambda>s. s\<lparr>cn_status := sync_status\<rparr>))
    (st_bind (checked_next (cs_last_number sync_status)) (\<lambda>next_number.
     st_bind (adapter_metadata_unchecked E next_number) (\<lambda>metadata.
       adapter_update_status E (cs_last_number sync_status) (md_interval metadata) (md_propose_ratio metadata)
         (md_prevote_ratio metadata) (md_precommit_ratio metadata) (md_brake_ratio metadata)
         (map validator_from_extend (md_verifier_list metadata)))))"

definition sync_locked :: "('d, 't, 'p) consensus_env \<Rightarrow> u64 \<Rightarrow> ('d, 't, unit) cn_op" where
  "sync_locked E remote_number =
     st_bind (st_gets cn_status) (\<lambda>status.
       if remote_number \<le> cs_last_number status then st_return ()
       else
         st_bind (start_sync E status (cs_last_number status) remote_number) (\<lambda>agent.
         st_seq (sync_update_status E agent)
           (st_modify (\<lambda>s. s\<lparr>cn_sync_status := sync_finish\<rparr>))))"

definition with_syncing_lock :: "('d, 't, unit) cn_op \<Rightarrow> ('d, 't, unit) cn_op" where
  "with_syncing_lock m s =
     (if cn_syncing s then (s, Inr ())
      else case m (s\<lparr>cn_syncing := True\<rparr>) of (s', r) \<Rightarrow> (s'\<lparr>cn_syncing := False\<rparr>, r))"

definition receive_remote_block ::
  "('d, 't, 'p) consensus_env \<Rightarrow> ('d, 't, unit) cn_op \<Rightarrow> u64 \<Rightarrow> ('d, 't, unit) cn_op" where
  "receive_remote_block E sleep remote_number =
     with_syncing_lock
       (st_bind (need_sync E sleep remote_number) (\<lambda>need.
          if need then with_commit_lock (st_return ()) (sync_locked E remote_number) else st_return ()))"

text \<open>One turn of the endless loop of \<open>polling_broadcast\<close>.\<close>

definition polling_broadcast_step :: "('d, 't, 'p) consensus_env \<Rightarrow> ('d, 't, unit) cn_op" where
  "polling_broadcast_step E =
     st_bind (st_gets (\<lambda>s. cs_last_number (cn_status s))) (\<lambda>current_number.
       if current_number \<noteq> 0 then broadcast_number E current_number else st_return ())"

section \<open>Message handlers\<close>

datatype consensus_feedback = CfGood | CfWorse consensus_error | CfBad string | CfBadError consensus_error | CfNeutral

text \<open>
  Whether the Overlord library decodes a message of each kind. \<open>set_proposal\<close>, \<open>set_vote\<close>,
  \<open>set_qc\<close> and \<open>set_choke\<close> decode a message and hand it to the running instance; a closed
  channel panics.
\<close>

record overlord_codec =
  od_proposal :: "bytes \<Rightarrow> bool"
  od_vote :: "bytes \<Rightarrow> bool"
  od_qc :: "bytes \<Rightarrow> bool"
  od_choke :: "bytes \<Rightarrow> bool"

definition overlord_send_msg :: "('d, 't, unit) cn_op" where
  "overlord_send_msg =
     st_bind (st_gets cn_overlord_handler) (\<lambda>handler.
       if handler = Some True then st_return () else st_throw CePanic)"

definition set_proposal :: "overlord_codec \<Rightarrow> bytes \<Rightarrow> ('d, 't, unit) cn_op" where
  "set_proposal D bs =
     (if \<not> od_proposal D bs then st_throw (CeDecodeErr ''SignedProposal'') else overlord_send_msg)"

definition set_vote :: "overlord_codec \<Rightarrow> bytes \<Rightarrow> ('d, 't, unit) cn_op" where
  "set_vote D bs = (if \<not> od_vote D bs then st_throw (CeDecodeErr ''SignedVote'') else overlord_send_msg)"

definition set_qc :: "overlord_codec \<Rightarrow> bytes \<Rightarrow> ('d, 't, unit) cn_op" where
  "set_qc D bs = (if \<not> od_qc D bs then st_throw (CeDecodeErr ''AggregateVote'') else overlord_send_msg)"

definition set_choke :: "overlord_codec \<Rightarrow> bytes \<Rightarrow> ('d, 't, unit) cn_op" where
  "set_choke D bs = (if \<not> od_choke D bs then st_throw (CeDecodeErr ''SignedChoke'') else overlord_send_msg)"

definition worse_on_error :: "('d, 't, unit) cn_op \<Rightarrow> ('d, 't, consensus_feedback) cn_op" where
  "worse_on_error m s =
     (case m s of
        (s', Inl CePanic) \<Rightarrow> (s', Inl CePanic)
      | (s', Inl e) \<Rightarrow> (s', Inr (CfWorse e))
      | (s', Inr _) \<Rightarrow> (s', Inr CfGood))"

definition proposal_handler :: "overlord_codec \<Rightarrow> bytes \<Rightarrow> ('d, 't, consensus_feedback) cn_op" where
  "proposal_handler D msg = worse_on_error (set_proposal D msg)"

definition vote_handler :: "overlord_codec \<Rightarrow> bytes \<Rightarrow> ('d, 't, consensus_feedback) cn_op" where
  "vote_handler D msg = worse_on_error (set_vote D msg)"

definition qc_handler :: "overlord_codec \<Rightarrow> bytes \<Rightarrow> ('d, 't, consensus_feedback) cn_op" where
  "qc_handler D msg = worse_on_error (set_qc D msg)"

definition choke_handler :: "overlord_codec \<Rightarrow> bytes \<Rightarrow> ('d, 't, consensus_feedback) cn_op" where
  "choke_handler D msg = worse_on_error (set_choke D msg)"

text \<open>The first status, which only a node at the genesis block sends when it starts.\<close>

definition overlord_consensus_new :: "('d, 't, 'p) consensus_env \<Rightarrow> ('d, 't, unit) cn_op" where
  "overlord_consensus_new E =
     st_bind (st_gets cn_status) (\<lambda>status.
     st_bind (checked_next (cs_last_number status)) (\<lambda>next_number.
     st_bind (adapter_metadata_unchecked E next_number) (\<lambda>metadata.
       st_when (cs_last_number status = 0)
         (st_modify (\<lambda>s. s\<lparr>cn_rich_status := cn_rich_status s @
            [gen_overlord_status E next_number (md_interval metadata) (md_propose_ratio metadata)
               (md_prevote_ratio metadata) (md_precommit_ratio metadata) (md_brake_ratio metadata)
               (map validator_from_extend (md_verifier_list metadata))]\<rparr>)))))"

definition remote_height_handler ::
  "('d, 't, 'p) consensus_env \<Rightarrow> (consensus_error \<Rightarrow> bool) \<Rightarrow> ('d, 't, unit) cn_op \<Rightarrow> u64
   \<Rightarrow> ('d, 't, consensus_feedback) cn_op" where
  "remote_height_handler E mentions_timeout sleep remote_height s =
     (case receive_remote_block E sleep remote_height s of
        (s', Inl CePanic) \<Rightarrow> (s', Inl CePanic)
      | (s', Inl e) \<Rightarrow> (s', Inr (if mentions_timeout e then CfBad ''sync block timeout'' else CfBadError e))
      | (s', Inr _) \<Rightarrow> (s', Inr CfGood))"

text \<open>The answers of the three handlers that serve other nodes; the feedback is always neutral.\<close>

definition pull_block_answer :: "('d, 't, 'p) consensus_env \<Rightarrow> u64 \<Rightarrow> ('d, storage_error + block) storage_op" where
  "pull_block_answer E number s =
     (case storage_get_block (ce_adapter E) (ce_store E) number s of
        (s', Inr (Some b)) \<Rightarrow> (s', Inr (Inr b))
      | (s', Inr None) \<Rightarrow> (s', Inr (Inl GetNone))
      | (s', Inl StoragePanic) \<Rightarrow> (s', Inl StoragePanic)
      | (s', Inl e) \<Rightarrow> (s', Inr (Inl e)))"

definition proof_of_next_header ::
  "('d, 't, 'p) consensus_env \<Rightarrow> u64 \<Rightarrow> ('d, storage_error + block_proof) storage_op" where
  "proof_of_next_header E next_number s =
     (case storage_get_block_header (ce_adapter E) (ce_store E) next_number s of
        (s', Inr (Some next_header)) \<Rightarrow> (s', Inr (Inr (hd_proof next_header)))
      | (s', Inr None) \<Rightarrow> (s', Inr (Inl GetNone))
      | (s', Inl StoragePanic) \<Rightarrow> (s', Inl StoragePanic)
      | (s', Inl _) \<Rightarrow> (s', Inr (Inl GetNone)))"

definition pull_proof_answer ::
  "('d, 't, 'p) consensus_env \<Rightarrow> u64 \<Rightarrow> ('d, storage_error + block_proof) storage_op" where
  "pull_proof_answer E number s =
     (case get_latest_proof (ce_adapter E) (ce_store E) s of
        (s', Inr latest_proof) \<Rightarrow>
          if number < pf_number latest_proof then proof_of_next_header E (number + 1) s'
          else if number = pf_number latest_proof then (s', Inr (Inr latest_proof))
          else (s', Inr (Inl GetNone))
      | (s', Inl StoragePanic) \<Rightarrow> (s', Inl StoragePanic)
      | (s', Inl _) \<Rightarrow> (s', Inr (Inl GetNone)))"

definition pull_txs_answer ::
  "('d, 't, 'p) consensus_env \<Rightarrow> u64 \<Rightarrow> hash list
   \<Rightarrow> ('d, storage_error + signed_transaction list) storage_op" where
  "pull_txs_answer E height inner s =
     (case get_transactions (ce_adapter E) (ce_store E) height inner s of
        (s', Inr txs) \<Rightarrow> (s', Inr (Inr (List.map_filter id txs)))
      | (s', Inl StoragePanic) \<Rightarrow> (s', Inl StoragePanic)
      | (s', Inl e) \<Rightarrow> (s', Inr (Inl e)))"

section \<open>The codec of answers\<close>

datatype consensus_rpc_response = PullBlocks block | PullTxs "signed_transaction list"

text \<open>The codecs of a block and of a batch of transactions are arguments.\<close>

definition rpc_encode_msg ::
  "(block \<Rightarrow> string + bytes) \<Rightarrow> (signed_transaction list \<Rightarrow> string + bytes) \<Rightarrow> consensus_rpc_response
   \<Rightarrow> string + bytes" where
  "rpc_encode_msg enc_block enc_txs r =
     (case r of
        PullBlocks ep \<Rightarrow> res_bind (enc_block ep) (\<lambda>tmp. Inr (tmp @ [97]))
      | PullTxs txs \<Rightarrow> res_bind (enc_txs txs) (\<lambda>tmp. Inr (tmp @ [98])))"

definition rpc_decode_msg ::
  "(bytes \<Rightarrow> string + block) \<Rightarrow> (bytes \<Rightarrow> string + signed_transaction list) \<Rightarrow> bytes
   \<Rightarrow> consensus_error + consensus_rpc_response" where
  "rpc_decode_msg dec_block dec_txs bs =
     (if bs = [] then Inl CePanic
      else
        let flag = last bs; body = butlast bs
        in if flag = 97 then res_bind (map_err CeOther (dec_block body)) (\<lambda>res. Inr (PullBlocks res))
           else if flag = 98
           then res_bind (map_err (\<lambda>_. CeDecodeErr ''RpcPullTxs'') (dec_txs body)) (\<lambda>res. Inr (PullTxs res))
           else Inl CePanic)"

section \<open>What a run adopts\<close>

text \<open>
  A block that has passed every check of the synchronization, executed on the state with
  the given root.
\<close>

definition block_verified :: "('d, 't, 'p) consensus_env \<Rightarrow> hash \<Rightarrow> block \<Rightarrow> bool" where
  "block_verified E root b \<longleftrightarrow>
     (\<exists>p s1 s2. ce_call_proof E (hd_number (bk_header b)) = Inr p \<and> verify_proof E b p s1 = (s2, Inr ())) \<and>
     (\<exists>hdr s1 s2. get_block_header_by_number E (hd_number (bk_header b) - 1) s1 = (s2, Inr hdr) \<and>
        se_header_hash (ce_store E) hdr = hd_prev_hash (bk_header b)) \<and>
     (\<exists>prev s1 s2 s3. get_block_by_number E (hd_number (bk_header b) - 1) s1 = (s2, Inr prev) \<and>
        verify_proof E prev (hd_proof (bk_header b)) s2 = (s3, Inr ())) \<and>
     (\<exists>txs resp s1 s2. stxs_digest E txs = Inr (hd_signed_txs_hash (bk_header b)) \<and>
        adapter_exec E root (proposal_from_block b) txs s1 = (s2, Inr resp) \<and>
        er_state_root resp = hd_state_root (bk_header b) \<and> er_receipt_root resp = hd_receipts_root (bk_header b))"

fun chain_verified :: "('d, 't, 'p) consensus_env \<Rightarrow> hash \<Rightarrow> block list \<Rightarrow> bool" where
  "chain_verified E root [] = True"
| "chain_verified E root (b # bs) =
     (block_verified E root b \<and> chain_verified E (hd_state_root (bk_header b)) bs)"

text \<open>The status and the storage after the blocks \<open>bs\<close> have been adopted.\<close>

definition stands_at :: "('d, 't, 'p) consensus_env \<Rightarrow> block \<Rightarrow> current_status \<Rightarrow> bool" where
  "stands_at E b st \<longleftrightarrow>
     cs_prev_hash st = header_hash E b \<and> cs_last_number st = hd_number (bk_header b) \<and>
     cs_last_state_root st = hd_state_root (bk_header b)"

lemma verify_block_ok:
  assumes "verify_block E rb s = (s', Inr p)"
  shows "\<exists>s2 s3. ce_call_proof E (hd_number (bk_header (rb_block rb))) = Inr p \<and>
      verify_proof E (rb_block rb) p s2 = (s3, Inr ())"
    and "\<exists>hdr s1 s2. get_block_header_by_number E (hd_number (bk_header (rb_block rb)) - 1) s1 = (s2, Inr hdr) \<and>
      se_header_hash (ce_store E) hdr = hd_prev_hash (bk_header (rb_block rb))"
    and "\<exists>prev s1 s2 s3. get_block_by_number E (hd_number (bk_header (rb_block rb)) - 1) s1 = (s2, Inr prev) \<and>
      verify_proof E prev (hd_proof (bk_header (rb_block rb))) s2 = (s3, Inr ())"
    and "stxs_digest E (rb_txs rb) = Inr (hd_signed_txs_hash (bk_header (rb_block rb)))"
proof -
  obtain s1 s2 s3 prev s4 where call: "ce_call_proof E (hd_number (bk_header (rb_block rb))) = Inr p"
    and pf: "verify_proof E (rb_block rb) p s = (s1, Inr ())"
    and hdr: "verify_block_header E (proposal_from_block (rb_block rb)) s1 = (s2, Inr ())"
    and prev: "get_block_by_number E (hd_number (bk_header (rb_block rb)) - 1) s2 = (s3, Inr prev)"
    and pf2: "verify_proof E prev (hd_proof (bk_header (rb_block rb))) s3 = (s4, Inr ())"
    and dig: "stxs_digest E (rb_txs rb) = Inr (hd_signed_txs_hash (bk_header (rb_block rb)))"
    using assms
    by (auto simp: verify_block_def Let_def st_bind_ok st_seq_ok get_proof_from_remote_def ok_or_def checked_sub_def
        split: if_splits)
  have num: "pp_number (proposal_from_block b) = hd_number (bk_header b)"
    "pp_prev_hash (proposal_from_block b) = hd_prev_hash (bk_header b)" for b
    by (simp_all add: proposal_from_block_def)
  show "\<exists>s2 s3. ce_call_proof E (hd_number (bk_header (rb_block rb))) = Inr p \<and>
      verify_proof E (rb_block rb) p s2 = (s3, Inr ())"
    using call pf by blast
  show "\<exists>hdr s1 s2. get_block_header_by_number E (hd_number (bk_header (rb_block rb)) - 1) s1 = (s2, Inr hdr) \<and>
      se_header_hash (ce_store E) hdr = hd_prev_hash (bk_header (rb_block rb))"
    using verify_block_header_ok [OF hdr] num by metis
  show "\<exists>prev s1 s2 s3. get_block_by_number E (hd_number (bk_header (rb_block rb)) - 1) s1 = (s2, Inr prev) \<and>
      verify_proof E prev (hd_proof (bk_header (rb_block rb))) s2 = (s3, Inr ())"
    using prev pf2 by blast
qed (use assms in \<open>auto simp: verify_block_def Let_def st_bind_ok st_seq_ok split: if_splits\<close>)

lemma sync_step_ok:
  assumes "sync_step E n agent s = (s', Inr agent')"
  shows "\<exists>b. ce_call_block E n = Inr b \<and> block_verified E (cs_last_state_root agent) b \<and> stands_at E b agent' \<and>
    is_latest_block (nd_storage s') = Some b"
proof -
  obtain rb p s1 s2 s3 st' where get: "get_rich_block_from_remote E n s = (s1, Inr rb)"
    and ver: "verify_block E rb s1 = (s2, Inr p)"
    and com: "commit_block E rb p agent s2 = (s3, Inr agent')" and s': "s' = s3\<lparr>cn_sync_status := st'\<rparr>"
    using assms by (auto simp: sync_step_def st_bind_ok st_seq_ok)
  let ?b = "rb_block rb"
  have call: "ce_call_block E n = Inr ?b"
    using get by (auto simp: get_rich_block_from_remote_def get_block_from_remote_def st_bind_ok split: if_splits)
  obtain resp md receipts t1 t2 t3 where ex: "adapter_exec E (cs_last_state_root agent) (proposal_from_block ?b)
      (rb_txs rb) s2 = (t1, Inr resp)"
    and roots: "er_state_root resp = hd_state_root (bk_header ?b)" "er_receipt_root resp = hd_receipts_root (bk_header ?b)"
    and save: "save_chain_data E (rb_txs rb) receipts ?b t2 = (t3, Inr ())"
    and fl: "flush_mempool E (bk_tx_hashes ?b) t3 = (s3, Inr ())" and ag: "agent' = synced_status E ?b resp p md"
    using com by (auto simp: commit_block_def Let_def st_bind_ok st_seq_ok split: if_splits prod.splits)
  have "is_latest_block (nd_storage t3) = Some ?b"
    using save by (auto simp: save_chain_data_def st_seq_ok dest: save_block_latest)
  then have "is_latest_block (nd_storage s') = Some ?b" using keepsD [OF latest_block_frames(4) fl] s' by simp
  moreover have "stands_at E ?b agent'" using ag roots(1) by (simp add: stands_at_def synced_status_def)
  moreover have "block_verified E (cs_last_state_root agent) ?b"
    unfolding block_verified_def using verify_block_ok [OF ver] ex roots by blast
  ultimately show ?thesis using call by blast
qed

lemma sync_loop_ok:
  assumes "sync_loop E remote current agent s = (s', Inr agent')"
  shows "\<exists>bs. length bs = unat remote - unat current \<and>
    (\<forall>i<length bs. ce_call_block E (current + 1 + of_nat i) = Inr (bs ! i)) \<and>
    chain_verified E (cs_last_state_root agent) bs \<and>
    (if bs = [] then agent' = agent
     else stands_at E (last bs) agent' \<and> is_latest_block (nd_storage s') = Some (last bs))"
  using assms
proof (induction E remote current agent arbitrary: s rule: sync_loop.induct)
  case (1 E remote current agent)
  show ?case
  proof (cases "current < remote")
    case False
    then show ?thesis using 1(2) by (simp add: sync_loop.simps word_less_nat_alt)
  next
    case True
    then obtain s1 a1 where step: "sync_step E (current + 1) agent s = (s1, Inr a1)"
      and loop: "sync_loop E remote (current + 1) a1 s1 = (s', Inr agent')"
      using 1(2) by (subst (asm) (1) sync_loop.simps) (auto simp: st_bind_ok)
    obtain b where b: "ce_call_block E (current + 1) = Inr b" "block_verified E (cs_last_state_root agent) b"
      "stands_at E b a1" "is_latest_block (nd_storage s1) = Some b"
      using sync_step_ok [OF step] by blast
    obtain bs where bs: "length bs = unat remote - unat (current + 1)"
      "\<forall>i<length bs. ce_call_block E (current + 1 + 1 + of_nat i) = Inr (bs ! i)"
      "chain_verified E (cs_last_state_root a1) bs"
      "if bs = [] then agent' = a1
       else stands_at E (last bs) agent' \<and> is_latest_block (nd_storage s') = Some (last bs)"
      using 1(1) [OF True loop] by blast
    have suc: "unat (current + 1) = Suc (unat current)"
      using True unat_bound [of remote] by (intro unat_plus_one_u64) (simp add: word_less_nat_alt)
    have "bs = [] \<Longrightarrow> s' = s1"
      using loop bs(1) suc True by (subst (asm) (1) sync_loop.simps) (auto simp: word_less_nat_alt split: if_splits)
    moreover have "\<forall>i<length (b # bs). ce_call_block E (current + 1 + of_nat i) = Inr ((b # bs) ! i)"
      using b(1) bs(2) by (auto simp: less_Suc_eq_0_disj algebra_simps)
    moreover have "cs_last_state_root a1 = hd_state_root (bk_header b)" using b(3) by (simp add: stands_at_def)
    ultimately show ?thesis
      using bs b True suc by (intro exI [of _ "b # bs"]) (auto simp: word_less_nat_alt split: if_splits)
  qed
qed


lemma consensus_view_sync [simp]:
  "consensus_view (s\<lparr>cn_sync_status := a\<rparr>) = consensus_view s" "consensus_view (s\<lparr>cn_syncing := b\<rparr>) = consensus_view s"
  by (simp_all add: consensus_view_def)

lemma keeps_prod [frame_intros]: "(\<And>a b. keeps f (g a b)) \<Longrightarrow> keeps f (case z of (a, b) \<Rightarrow> g a b)"
  by (cases z) simp

lemma sync_step_view: "keeps consensus_view (sync_step E n agent)"
  unfolding sync_step_def get_rich_block_from_remote_def get_block_from_remote_def get_txs_from_remote_def
    verify_block_def get_proof_from_remote_def verify_block_header_def get_block_header_by_number_def
    get_block_by_number_def verify_proof_def adapter_get_metadata_def commit_block_def save_chain_data_def
    save_signed_txs_def save_receipts_def save_block_def Let_def
  by (intro frame_intros consensus_view_frames) simp_all

lemma sync_loop_view: "keeps consensus_view (sync_loop E remote current agent)"
proof (induction E remote current agent rule: sync_loop.induct)
  case (1 E remote current agent)
  then show ?case
    by (subst sync_loop.simps) (cases "current < remote"; simp add: keeps_bind sync_step_view keeps_basic)
qed

lemma start_sync_view: "keeps consensus_view (start_sync E agent current remote)"
  unfolding start_sync_def by (intro frame_intros sync_loop_view) simp

lemma sync_target_bounds:
  assumes "sync_target current remote = Inr target" and "current < remote"
  shows "unat target = min (unat remote) (unat current + 50)"
proof -
  obtain limit where "checked_add current 50 = Some limit"
    and t: "target = (if remote < limit then remote else limit)"
    using assms(1) by (auto simp: sync_target_def ONCE_SYNC_BLOCK_LIMIT_def res_bind_eq_Inr ok_or_eq_Inr)
  then have "unat limit = unat current + 50" by (auto dest: checked_add_unat)
  then show ?thesis using t by (auto simp: word_less_nat_alt min_def)
qed

lemma sync_update_status_run:
  assumes "sync_update_status E agent s = (s', r)"
  shows "cn_status s' = agent" and "nd_state_root s' = nd_state_root s" and "cn_lock s' = cn_lock s"
    and "nd_storage s' = nd_storage s"
    and "r = Inr () \<Longrightarrow> \<exists>m. nd_metadata s' ((cs_last_number agent + 1) div me_epoch_len (ce_meta E)) = Some m"
  using assms
  by (auto simp: sync_update_status_def st_seq_apply st_bind_apply checked_next_def adapter_metadata_unchecked_def
      adapter_update_status_def ok_or_def checked_add_def get_metadata_unchecked_def calc_epoch_def res_bind_eq_Inr
      split: sum.splits option.splits if_splits)

text \<open>
  A run has fetched at least one and at most fifty blocks, in order, each of them accepted
  by the checks on top of the state root of the one before, and the node stands at the
  last of them, which is also the latest block of the storage.
\<close>

definition sync_adopted ::
  "('d, 't, 'p) consensus_env \<Rightarrow> u64 \<Rightarrow> ('d, 't) chain_node \<Rightarrow> ('d, 't) chain_node \<Rightarrow> bool" where
  "sync_adopted E remote t s' \<longleftrightarrow>
     (\<exists>bs. bs \<noteq> [] \<and> length bs \<le> 50 \<and>
        length bs = min (unat remote) (unat (cs_last_number (cn_status t)) + 50) - unat (cs_last_number (cn_status t)) \<and>
        (\<forall>i<length bs. ce_call_block E (cs_last_number (cn_status t) + 1 + of_nat i) = Inr (bs ! i)) \<and>
        chain_verified E (cs_last_state_root (cn_status t)) bs \<and>
        stands_at E (last bs) (cn_status s') \<and> is_latest_block (nd_storage s') = Some (last bs))"

lemma start_sync_adopts:
  assumes "start_sync E (cn_status t) (cs_last_number (cn_status t)) remote t = (s1, Inr agent)"
    and "cs_last_number (cn_status t) < remote" and "cn_status s' = agent" and "nd_storage s' = nd_storage s1"
  shows "sync_adopted E remote t s'"
proof -
  let ?st = "cn_status t" and ?cur = "cs_last_number (cn_status t)"
  obtain target where tg: "sync_target ?cur remote = Inr target"
    and loop: "sync_loop E target ?cur ?st (t\<lparr>cn_sync_status := sync_start ?cur target\<rparr>) = (s1, Inr agent)"
    using assms(1) by (auto simp: start_sync_def st_bind_ok st_seq_ok)
  have tb: "unat target = min (unat remote) (unat ?cur + 50)" using sync_target_bounds [OF tg assms(2)] .
  obtain bs where bs: "length bs = unat target - unat ?cur"
    "\<forall>i<length bs. ce_call_block E (?cur + 1 + of_nat i) = Inr (bs ! i)"
    "chain_verified E (cs_last_state_root ?st) bs"
    "if bs = [] then agent = ?st
     else stands_at E (last bs) agent \<and> is_latest_block (nd_storage s1) = Some (last bs)"
    using sync_loop_ok [OF loop] by blast
  have "bs \<noteq> []" "length bs \<le> 50" using bs(1) tb assms(2) by (auto simp: word_less_nat_alt)
  then show ?thesis
    unfolding sync_adopted_def using bs tb assms(3,4) by (intro exI [of _ bs]) simp
qed

lemma sync_locked_run:
  assumes "sync_locked E remote t = (s', r)" and "cs_last_number (cn_status t) < remote"
  shows "cn_status s' = cn_status t \<and> \<not> is_ok r \<or> sync_adopted E remote t s'"
    and "nd_state_root s' = nd_state_root t" and "cn_lock s' = cn_lock t"
    and "is_ok r \<Longrightarrow> cn_sync_status s' = SyncFalse \<and>
      (\<exists>m. nd_metadata s' ((cs_last_number (cn_status s') + 1) div me_epoch_len (ce_meta E)) = Some m)"
proof -
  let ?st = "cn_status t" and ?cur = "cs_last_number (cn_status t)"
  obtain s1 r1 where start: "start_sync E ?st ?cur remote t = (s1, r1)" by fastforce
  have ahead: "\<not> remote \<le> ?cur" using assms(2) by (simp add: not_le)
  have view: "cn_status s1 = ?st" "nd_state_root s1 = nd_state_root t" "cn_lock s1 = cn_lock t"
    using keepsD [OF start_sync_view start] by (simp_all add: consensus_view_def)
  have "(cn_status s' = cn_status t \<and> \<not> is_ok r \<or> sync_adopted E remote t s') \<and>
    nd_state_root s' = nd_state_root t \<and> cn_lock s' = cn_lock t \<and>
    (is_ok r \<longrightarrow> cn_sync_status s' = SyncFalse \<and>
      (\<exists>m. nd_metadata s' ((cs_last_number (cn_status s') + 1) div me_epoch_len (ce_meta E)) = Some m))"
  proof (cases r1)
    case (Inl e)
    then have "s' = s1 \<and> r = Inl e" using assms(1) start ahead by (simp add: sync_locked_def st_bind_apply)
    then show ?thesis using view by simp
  next
    case (Inr agent)
    obtain s2 r2 where up: "sync_update_status E agent s1 = (s2, r2)" by fastforce
    note after = sync_update_status_run [OF up]
    have s': "s' = (case r2 of Inl e \<Rightarrow> s2 | Inr u \<Rightarrow> s2\<lparr>cn_sync_status := SyncFalse\<rparr>)" "is_ok r = is_ok r2"
      using assms(1) start Inr up ahead
      by (auto simp: sync_locked_def st_bind_apply st_seq_apply sync_finish_def split: sum.splits)
    have "sync_adopted E remote t s'"
      using start_sync_adopts [OF start [unfolded Inr] assms(2)] s'(1) after(1,4) by (simp split: sum.splits)
    then show ?thesis
      using s' after view by (auto simp: is_ok_def split: sum.splits)
  qed
  then show "cn_status s' = cn_status t \<and> \<not> is_ok r \<or> sync_adopted E remote t s'"
    "nd_state_root s' = nd_state_root t" "cn_lock s' = cn_lock t"
    "is_ok r \<Longrightarrow> cn_sync_status s' = SyncFalse \<and>
      (\<exists>m. nd_metadata s' ((cs_last_number (cn_status s') + 1) div me_epoch_len (ce_meta E)) = Some m)"
    by blast+
qed

section \<open>Properties\<close>



lemma sample_sync_envs [simp]:
  "ce_call_block sample_consensus_env = (\<lambda>n. Inr (remote_block n))"
  "ce_call_proof sample_consensus_env = (\<lambda>n. Inr (remote_proof n))"
  "ce_call_txs sample_consensus_env = (\<lambda>_ _. Inr [])" "ce_sync_txs_chunk_size sample_consensus_env = 100"
  by (simp_all add: sample_consensus_env_def)

lemma remote_block_simps [simp]:
  "hd_number (bk_header (remote_block n)) = n" "bk_tx_hashes (remote_block n) = []"
  "hd_signed_txs_hash (bk_header (remote_block n)) = NIL_DATA"
  "hd_prev_hash (bk_header (remote_block n)) = 0" "hd_state_root (bk_header (remote_block n)) = 0"
  "hd_receipts_root (bk_header (remote_block n)) = 0"
  by (simp_all add: remote_block_def) (simp_all add: sample_header_def)

lemma sample_verify_block:
  "succeeds (\<lambda>s. sample_ready s \<and> is_blocks (nd_storage s) 0 = Some (sample_block 0 []) \<and>
       is_headers (nd_storage s) 0 = Some (sample_header 0))
     (verify_block sample_consensus_env \<lparr>rb_block = remote_block 1, rb_txs = []\<rparr>) (\<lambda>_. sample_ready)"
proof -
  have dig: "stxs_digest sample_consensus_env [] = Inr NIL_DATA"
    by (simp add: stxs_digest_def digest_signed_transactions_def sample_mempool_env_def sample_rlp_lib_def
        hasher_digest_def)
  have ph: "proposal_hash sample_consensus_env p = NIL_DATA" for p
    by (simp add: proposal_hash_def sample_mempool_env_def sample_rlp_lib_def hasher_digest_def)
  have votes: "check_votes sample_consensus_env 1 (sample_metadata sample_validators) (remote_proof 1) = Inr ()"
    using sample_check_votes [of 1 "remote_block 1" "[1]"] by (simp add: sample_proof_def remote_proof_def ph)
  have hdr: "se_header_hash sample_senv (sample_header 0) = 0" by (simp add: sample_senv_def sample_env_def)
  have "sample_ready s \<Longrightarrow>
      verify_proof sample_consensus_env (remote_block 1) (remote_proof 1) s = (s, Inr ())" for s
    using votes
    by (auto simp: verify_proof_def ph remote_proof_def sample_ready_def st_bind_apply adapter_get_metadata_def
        on_metadata_def get_metadata_def calc_epoch_def sample_metadata_env_def metadata_version_contains_def)
      (simp_all add: sample_metadata_def)
  moreover have "verify_proof sample_consensus_env (sample_block 0 []) pf s = (s, Inr ())" for pf s
    by (simp add: verify_proof_def)
  ultimately show ?thesis
    by (simp add: succeeds_def verify_block_def Let_def st_bind_apply st_seq_apply get_proof_from_remote_def
        verify_block_header_def checked_sub_def proposal_from_block_def get_block_header_by_number_def
        get_block_by_number_def on_store_def storage_get_block_header_def storage_get_block_def cached_get_def hdr dig)
qed


lemma sample_commit_block:
  "succeeds sample_ready (commit_block (sample_on S) \<lparr>rb_block = remote_block 1, rb_txs = []\<rparr> p sample_status)
     (\<lambda>agent s. cs_last_number agent = 1 \<and> sample_ready s)"
proof -
  let ?b = "remote_block 1"
  have "be_nat (to_be_bytes 32 (0 :: hash)) = 0" by (simp add: to_be_bytes_def be_nat_nat_to_be)
  then have ex: "succeeds sample_ready
      (adapter_exec (sample_on S) (cs_last_state_root sample_status) (proposal_from_block ?b) [])
      (\<lambda>resp s. er_state_root resp = 0 \<and> er_receipt_root resp = 0 \<and> sample_ready s)"
    by (auto simp: succeeds_def adapter_exec_def backend_from_root_def mpt_from_root_def sample_trie_lib_def
        sample_ready_def exec_block_def st_bind_apply sample_status_def root_or_default_def get_root_hash_def
        sample_exec_env_def state_root_def)
  have meta: "succeeds sample_ready (adapter_get_metadata (sample_on S) (bk_header ?b)) (\<lambda>_. sample_ready)"
    by (auto simp: succeeds_def adapter_get_metadata_def on_metadata_def get_metadata_def calc_epoch_def st_bind_apply
        sample_metadata_env_def sample_ready_def)
  have save: "succeeds sample_ready (save_chain_data (sample_on S) txs rs ?b) (\<lambda>_. sample_ready)" for txs rs
    unfolding save_chain_data_def
    by (intro succeeds_seq [where R = sample_ready] store_succeeds) simp_all
  have flush: "succeeds sample_ready (flush_mempool (sample_on S) (bk_tx_hashes ?b)) (\<lambda>_. sample_ready)"
    by (simp add: succeeds_def flush_mempool_def on_mempool_def mempool_flush_def sample_ready_def Let_def
        get_residual_tx_map pool_flush_frame)
  have tail: "succeeds sample_ready
      (st_bind (adapter_get_metadata (sample_on S) (bk_header ?b)) (\<lambda>metadata.
         st_seq (save_chain_data (sample_on S) [] rs ?b)
          (st_seq (flush_mempool (sample_on S) (bk_tx_hashes ?b))
            (st_return (synced_status (sample_on S) ?b resp p metadata)))))
      (\<lambda>agent s. cs_last_number agent = 1 \<and> sample_ready s)" for resp rs
    by (rule succeeds_bind [OF meta succeeds_seq [OF save succeeds_seq [OF flush succeeds_return]]])
      (simp add: synced_status_def)
  show ?thesis
    unfolding commit_block_def Let_def
    by (simp, rule succeeds_bind [OF ex])
      (use tail in \<open>auto simp: succeeds_def generate_receipts_and_logs_def Let_def\<close>)
qed

lemma st_bind_return: "st_bind (st_return x) f = f x"
  by (rule ext) (simp add: st_bind_apply)

lemma sample_sync_step:
  "succeeds (\<lambda>s. sample_ready s \<and> is_blocks (nd_storage s) 0 = Some (sample_block 0 []) \<and>
       is_headers (nd_storage s) 0 = Some (sample_header 0))
     (sync_step sample_consensus_env 1 sample_status) (\<lambda>agent s. cs_last_number agent = 1 \<and> sample_ready s)"
proof -
  let ?E = sample_consensus_env and ?rb = "\<lparr>rb_block = remote_block 1, rb_txs = []\<rparr>"
  have get: "get_rich_block_from_remote ?E 1 = st_return ?rb"
    by (rule ext) (simp add: get_rich_block_from_remote_def get_block_from_remote_def st_bind_apply chunks.simps)
  have add: "succeeds (\<lambda>s. cs_last_number agent = 1 \<and> sample_ready s)
      (st_bind (st_gets cn_sync_status) (\<lambda>st. st_bind (st_lift (sync_add_one st)) (\<lambda>st'.
         st_seq (st_modify (\<lambda>s. s\<lparr>cn_sync_status := st'\<rparr>)) (st_return agent))))
      (\<lambda>agent s. cs_last_number agent = 1 \<and> sample_ready s)" for agent :: current_status
    by (auto simp: succeeds_def st_bind_apply st_seq_apply sample_ready_def sync_add_one_def checked_add_def)
  have "sync_step ?E 1 sample_status =
      st_bind (verify_block ?E ?rb) (\<lambda>p. st_bind (commit_block ?E ?rb p sample_status) (\<lambda>agent'.
        st_bind (st_gets cn_sync_status) (\<lambda>st. st_bind (st_lift (sync_add_one st)) (\<lambda>st'.
          st_seq (st_modify (\<lambda>s. s\<lparr>cn_sync_status := st'\<rparr>)) (st_return agent')))))"
    by (simp add: sync_step_def get st_bind_return)
  then show ?thesis
    by (simp only:) (rule succeeds_bind [OF sample_verify_block succeeds_bind [OF sample_commit_block [of sample_senv, unfolded sample_on_senv] add]])
qed

lemma sample_need_sync:
  "need_sync sample_consensus_env (st_return ()) 1 (sample_follower\<lparr>cn_syncing := True\<rparr>) =
     (sample_follower\<lparr>cn_syncing := True\<rparr>, Inr True)"
  by (simp add: need_sync_def st_bind_apply st_seq_apply get_block_from_remote_def adapter_metadata_unchecked_def
      get_metadata_unchecked_def calc_epoch_def sample_metadata_env_def sample_follower_def sample_chain_node_def
      node_state.defs sample_status_def sample_node_def)

lemma sample_follower_simps:
  "cn_status sample_follower = sample_status" "cn_lock sample_follower = False"
  "cn_syncing sample_follower = False" "cs_last_number sample_status = 0"
  by (simp_all add: sample_follower_def sample_chain_node_def node_state.defs sample_status_def)

lemma sample_sync_run:
  "\<exists>s'. receive_remote_block sample_consensus_env (st_return ()) 1 sample_follower = (s', Inr ())"
proof -
  let ?E = sample_consensus_env
  let ?t = "sample_follower\<lparr>cn_syncing := True\<rparr>" and ?u = "sample_follower\<lparr>cn_syncing := True, cn_lock := True\<rparr>"
  have target: "sync_target 0 1 = Inr 1"
    by (simp add: sync_target_def ONCE_SYNC_BLOCK_LIMIT_def checked_add_def)
  have "sample_ready sample_follower" using sample_ready_node by (simp add: sample_follower_def)
  then have "sample_ready (?u\<lparr>cn_sync_status := sync_start 0 1\<rparr>)" by (simp add: sample_ready_def sync_start_def)
  then obtain s1 agent where step: "sync_step ?E 1 sample_status (?u\<lparr>cn_sync_status := sync_start 0 1\<rparr>) = (s1, Inr agent)"
    and a: "cs_last_number agent = 1" and s1: "sample_ready s1"
    using succeedsD [OF sample_sync_step, of "?u\<lparr>cn_sync_status := sync_start 0 1\<rparr>"]
    by (auto simp: sample_follower_def)
  have "start_sync ?E sample_status 0 1 ?u = (s1, Inr agent)"
    using target step by (simp add: start_sync_def st_bind_apply st_seq_apply sync_loop.simps)
  moreover have "\<exists>s2. sync_update_status ?E agent s1 = (s2, Inr ())"
    using a s1
    by (auto simp: sync_update_status_def st_seq_apply st_bind_apply checked_next_def checked_add_def
        adapter_metadata_unchecked_def get_metadata_unchecked_def calc_epoch_def sample_metadata_env_def
        sample_ready_def adapter_update_status_def)
  ultimately have "\<exists>s'. sync_locked ?E 1 ?u = (s', Inr ())"
    using sample_follower_simps by (auto simp: sync_locked_def st_bind_apply st_seq_apply)
  then show ?thesis
    using sample_need_sync sample_follower_simps
    by (auto simp: receive_remote_block_def with_syncing_lock_def with_commit_lock_def st_bind_apply)
qed


section \<open>Catching up\<close>

text \<open>
  The peers serve a chain up to height \<open>H\<close> that the node can follow: the block of height \<open>H\<close> is
  answered with the right number, and a node that is \<open>ready\<close> at a height below, with an agent status
  of that height, takes the next block and is ready again. Being ready comes with an open channel to
  the Overlord instance and metadata for this and the next height. It does not depend on
  the locks, and it survives adopting the agent status and reporting progress.
\<close>

definition serves ::
  "('d, 't, 'p) consensus_env \<Rightarrow> u64 \<Rightarrow> (u64 \<Rightarrow> current_status \<Rightarrow> ('d, 't) chain_node \<Rightarrow> bool) \<Rightarrow> bool" where
  "serves E H ready \<longleftrightarrow>
     (\<exists>b. ce_call_block E H = Inr b \<and> hd_number (bk_header b) = H) \<and>
     (\<forall>n a s. n < H \<and> ready n a s \<longrightarrow>
        (\<exists>s' a'. sync_step E (n + 1) a s = (s', Inr a') \<and> ready (n + 1) a' s')) \<and>
     (\<forall>n a s. n \<le> H \<and> ready n a s \<longrightarrow> cs_last_number a = n \<and> cn_overlord_handler s = Some True \<and>
        (\<exists>m. get_metadata_unchecked (ce_meta E) n (nd_metadata s) = Inr m) \<and>
        (\<exists>m. get_metadata_unchecked (ce_meta E) (n + 1) (nd_metadata s) = Inr m)) \<and>
     (\<forall>n a s. ready n a s \<longrightarrow>
        (\<forall>x. ready n a (s\<lparr>cn_status := a, cn_rich_status := x, cn_sync_status := SyncFalse\<rparr>)) \<and>
        (\<forall>m. n < m \<and> m \<le> H \<longrightarrow> ready n a (s\<lparr>cn_sync_status := sync_start n m\<rparr>)) \<and>
        (\<forall>x. ready n a (s\<lparr>cn_lock := x\<rparr>)) \<and> (\<forall>x. ready n a (s\<lparr>cn_syncing := x\<rparr>)))"

lemma servesD:
  assumes "serves E H ready"
  shows "\<exists>b. ce_call_block E H = Inr b \<and> hd_number (bk_header b) = H"
    and "n < H \<Longrightarrow> ready n a s \<Longrightarrow> \<exists>s' a'. sync_step E (n + 1) a s = (s', Inr a') \<and> ready (n + 1) a' s'"
    and "n \<le> H \<Longrightarrow> ready n a s \<Longrightarrow> cs_last_number a = n"
    and "n \<le> H \<Longrightarrow> ready n a s \<Longrightarrow> cn_overlord_handler s = Some True"
    and "n \<le> H \<Longrightarrow> ready n a s \<Longrightarrow> \<exists>m. get_metadata_unchecked (ce_meta E) n (nd_metadata s) = Inr m"
    and "n \<le> H \<Longrightarrow> ready n a s \<Longrightarrow> \<exists>m. get_metadata_unchecked (ce_meta E) (n + 1) (nd_metadata s) = Inr m"
    and "ready n a s \<Longrightarrow> ready n a (s\<lparr>cn_status := a, cn_rich_status := x, cn_sync_status := SyncFalse\<rparr>)"
    and "ready n a s \<Longrightarrow> n < k \<Longrightarrow> k \<le> H \<Longrightarrow> ready n a (s\<lparr>cn_sync_status := sync_start n k\<rparr>)"
    and "ready n a s \<Longrightarrow> ready n a (s\<lparr>cn_lock := y\<rparr>)" and "ready n a s \<Longrightarrow> ready n a (s\<lparr>cn_syncing := y\<rparr>)"
  using assms unfolding serves_def by blast+

fun sync_rounds :: "('d, 't, 'p) consensus_env \<Rightarrow> u64 \<Rightarrow> nat \<Rightarrow> ('d, 't, unit) cn_op" where
  "sync_rounds E H 0 = st_return ()"
| "sync_rounds E H (Suc k) = st_seq (receive_remote_block E (st_return ()) H) (sync_rounds E H k)"

lemma sync_loop_reaches:
  assumes "serves E H ready" and "target \<le> H"
  shows "n \<le> target \<Longrightarrow> ready n a s \<Longrightarrow>
    \<exists>s' a'. sync_loop E target n a s = (s', Inr a') \<and> ready target a' s'"
proof (induction "unat target - unat n" arbitrary: n a s)
  case 0
  then have "n = target" by (simp add: word_le_nat_alt word_unat_eq_iff)
  then show ?case using 0 by (subst sync_loop.simps) simp
next
  case (Suc k)
  then have lt: "n < target" by (simp add: word_less_nat_alt)
  then have "n < H" using assms(2) by simp
  then obtain s1 a1 where step: "sync_step E (n + 1) a s = (s1, Inr a1)" and r: "ready (n + 1) a1 s1"
    using servesD(2) [OF assms(1)] Suc.prems(2) by blast
  have suc: "unat (n + 1) = Suc (unat n)"
    using lt unat_bound [of target] by (intro unat_plus_one_u64) (simp add: word_less_nat_alt)
  have "k = unat target - unat (n + 1)" "n + 1 \<le> target"
    using Suc.hyps(2) suc lt by (auto simp: word_le_nat_alt word_less_nat_alt)
  from Suc.hyps(1) [OF this r] show ?case
    using lt step by (subst sync_loop.simps) (simp add: st_bind_apply)
qed

lemma sync_locked_reaches:
  assumes sv: "serves E H ready" and "unat H + 50 < 2 ^ 64"
    and "n < H" and "ready n (cn_status t) t"
  shows "\<exists>s' m. sync_locked E H t = (s', Inr ()) \<and> unat m = min (unat H) (unat n + 50) \<and> m \<le> H \<and>
    ready m (cn_status s') s'"
proof -
  have num: "cs_last_number (cn_status t) = n" using servesD(3) [OF sv _ assms(4)] assms(3) by simp
  have "unat n + 50 < 2 ^ 64" using assms(2,3) by (simp add: word_less_nat_alt)
  then obtain m where tg: "sync_target n H = Inr m"
    by (auto simp: sync_target_def ONCE_SYNC_BLOCK_LIMIT_def checked_add_def)
  have m: "unat m = min (unat H) (unat n + 50)" using sync_target_bounds [OF tg assms(3)] .
  then have le: "m \<le> H" "n < m" using assms(3) by (auto simp: word_le_nat_alt word_less_nat_alt)
  let ?t = "t\<lparr>cn_sync_status := sync_start n m\<rparr>"
  have "ready n (cn_status t) ?t" using servesD(8) [OF sv assms(4)] le by blast
  then obtain s1 a where loop: "sync_loop E m n (cn_status t) ?t = (s1, Inr a)" and r: "ready m a s1"
    using sync_loop_reaches [OF sv le(1)] le(2) by (meson less_imp_le)
  have start: "start_sync E (cn_status t) n H t = (s1, Inr a)"
    using tg loop by (simp add: start_sync_def st_bind_apply st_seq_apply)
  obtain md where md: "get_metadata_unchecked (ce_meta E) (m + 1) (nd_metadata s1) = Inr md"
    using servesD(6) [OF sv le(1) r] by blast
  have "unat m + 1 < 18446744073709551616" using m assms(2) by simp
  then have add: "checked_add m 1 = Some (m + 1)" by (simp add: checked_add_def)
  have "\<exists>rs. sync_update_status E a s1 = (s1\<lparr>cn_status := a, cn_rich_status := rs\<rparr>, Inr ())"
    using md add servesD(3) [OF sv le(1) r] servesD(4) [OF sv le(1) r]
    by (auto simp: sync_update_status_def st_seq_apply st_bind_apply checked_next_def adapter_metadata_unchecked_def
        adapter_update_status_def)
  then obtain rs where run: "sync_locked E H t =
      (s1\<lparr>cn_status := a, cn_rich_status := rs, cn_sync_status := SyncFalse\<rparr>, Inr ())"
    using start num assms(3) by (auto simp: sync_locked_def st_bind_apply st_seq_apply sync_finish_def not_le [symmetric])
  have "ready m a (s1\<lparr>cn_status := a, cn_rich_status := rs, cn_sync_status := SyncFalse\<rparr>)"
    by (rule servesD(7) [OF sv r])
  then show ?thesis using run m le(1) by auto
qed

definition sync_ready ::
  "(u64 \<Rightarrow> current_status \<Rightarrow> ('d, 't) chain_node \<Rightarrow> bool) \<Rightarrow> u64 \<Rightarrow> ('d, 't) chain_node \<Rightarrow> bool" where
  "sync_ready ready n s \<longleftrightarrow> ready n (cn_status s) s \<and> \<not> cn_lock s \<and> \<not> cn_syncing s"

lemma sync_round:
  assumes sv: "serves E H ready" and "unat H + 50 < 2 ^ 64" and "n \<le> H" and rd: "sync_ready ready n s"
  shows "\<exists>s' m. receive_remote_block E (st_return ()) H s = (s', Inr ()) \<and>
    unat m = min (unat H) (unat n + 50) \<and> m \<le> H \<and> sync_ready ready m s'"
proof -
  have r: "ready n (cn_status s) s" "\<not> cn_lock s" "\<not> cn_syncing s" using rd by (simp_all add: sync_ready_def)
  have num: "cs_last_number (cn_status s) = n" by (rule servesD(3) [OF sv assms(3) r(1)])
  show ?thesis
  proof (cases "n = H")
    case True
    then have "receive_remote_block E (st_return ()) H s = (s\<lparr>cn_syncing := False\<rparr>, Inr ())"
      using num r(3) by (simp add: need_sync_def receive_remote_block_def with_syncing_lock_def st_bind_apply)
    moreover have "s\<lparr>cn_syncing := False\<rparr> = s" using r(3) by simp
    ultimately show ?thesis using True rd by (intro exI [of _ s] exI [of _ H]) simp
  next
    case False
    then have lt: "n < H" using assms(3) by simp
    let ?t = "s\<lparr>cn_syncing := True\<rparr>" and ?u = "s\<lparr>cn_syncing := True, cn_lock := True\<rparr>"
    obtain md where "get_metadata_unchecked (ce_meta E) n (nd_metadata s) = Inr md"
      using servesD(5) [OF sv assms(3) r(1)] by blast
    moreover obtain b where "ce_call_block E H = Inr b" "hd_number (bk_header b) = H" using servesD(1) [OF sv] by blast
    moreover have "H \<noteq> 0" "\<not> H \<le> n" using lt by auto
    ultimately have need: "need_sync E (st_return ()) H ?t = (?t, Inr True)"
      using num False by (cases "n = H - 1")
        (simp_all add: need_sync_def st_bind_apply st_seq_apply adapter_metadata_unchecked_def get_block_from_remote_def)
    have "ready n (cn_status ?u) ?u" using servesD(9) [OF sv servesD(10) [OF sv r(1)]] by simp
    then obtain s1 m where run: "sync_locked E H ?u = (s1, Inr ())" and m: "unat m = min (unat H) (unat n + 50)" "m \<le> H"
      and r1: "ready m (cn_status s1) s1"
      using sync_locked_reaches [OF sv assms(2) lt] by blast
    have "receive_remote_block E (st_return ()) H s = (s1\<lparr>cn_lock := False, cn_syncing := False\<rparr>, Inr ())"
      using need run r(2,3)
      by (simp add: receive_remote_block_def with_syncing_lock_def with_commit_lock_def st_bind_apply)
    moreover have "sync_ready ready m (s1\<lparr>cn_lock := False, cn_syncing := False\<rparr>)"
      using servesD(10) [OF sv servesD(9) [OF sv r1]] by (simp add: sync_ready_def)
    ultimately show ?thesis using m by blast
  qed
qed


definition sample_progress :: "u64 \<Rightarrow> current_status \<Rightarrow> (mem_db, (bytes \<rightharpoonup> bytes) list) chain_node \<Rightarrow> bool" where
  "sample_progress n a s \<longleftrightarrow>
     (n = 0 \<and> a = sample_status \<and> sample_ready s \<and> is_blocks (nd_storage s) 0 = Some (sample_block 0 []) \<and>
        is_headers (nd_storage s) 0 = Some (sample_header 0)) \<or>
     (n = 1 \<and> cs_last_number a = 1 \<and> nd_metadata s = [0 \<mapsto> sample_metadata sample_validators] \<and>
        cn_overlord_handler s = Some True)"

lemma sample_progress_simps:
  "sample_progress 0 a s \<longleftrightarrow> a = sample_status \<and> sample_ready s \<and>
     is_blocks (nd_storage s) 0 = Some (sample_block 0 []) \<and> is_headers (nd_storage s) 0 = Some (sample_header 0)"
  "sample_progress 1 a s \<longleftrightarrow> cs_last_number a = 1 \<and> nd_metadata s = [0 \<mapsto> sample_metadata sample_validators] \<and>
     cn_overlord_handler s = Some True"
  by (simp_all add: sample_progress_def)

lemma sample_serves: "serves sample_consensus_env 1 sample_progress"
proof -
  have cases: "n = 0 \<or> n = 1" if "sample_progress n a s" for n a s using that by (auto simp: sample_progress_def)
  have "\<exists>s' a'. sync_step sample_consensus_env (n + 1) a s = (s', Inr a') \<and> sample_progress (n + 1) a' s'"
    if "n < 1" and r: "sample_progress n a s" for n a s
  proof -
    have n: "n = 0" using that(1) by (simp add: word_less_nat_alt unat_eq_0)
    obtain s' a' where "sync_step sample_consensus_env 1 sample_status s = (s', Inr a')" "cs_last_number a' = 1" "sample_ready s'"
      using succeedsD [OF sample_sync_step, of s] r by (auto simp: n sample_progress_simps)
    then show ?thesis using r by (auto simp: n sample_progress_simps sample_ready_def)
  qed
  moreover have "cs_last_number a = n \<and> cn_overlord_handler s = Some True \<and>
      (\<exists>m. get_metadata_unchecked (ce_meta sample_consensus_env) n (nd_metadata s) = Inr m) \<and>
      (\<exists>m. get_metadata_unchecked (ce_meta sample_consensus_env) (n + 1) (nd_metadata s) = Inr m)"
    if r: "sample_progress n a s" for n a s
    using cases [OF r] r
    by (auto simp: sample_progress_simps sample_ready_def sample_status_def get_metadata_unchecked_def calc_epoch_def
        sample_metadata_env_def)
  moreover have "(\<forall>x. sample_progress n a (s\<lparr>cn_status := a, cn_rich_status := x, cn_sync_status := SyncFalse\<rparr>)) \<and>
      (\<forall>m. n < m \<and> m \<le> 1 \<longrightarrow> sample_progress n a (s\<lparr>cn_sync_status := sync_start n m\<rparr>)) \<and>
      (\<forall>x. sample_progress n a (s\<lparr>cn_lock := x\<rparr>)) \<and> (\<forall>x. sample_progress n a (s\<lparr>cn_syncing := x\<rparr>))"
    if r: "sample_progress n a s" for n a s
  proof -
    have "sync_start 0 m = Syncing 0 0 1" if "0 < m" "m \<le> 1" for m :: u64
    proof -
      have "m = 1" using that by (simp add: word_less_nat_alt word_le_nat_alt word_unat_eq_iff)
      then show ?thesis by (simp add: sync_start_def)
    qed
    then show ?thesis
      using cases [OF r] r by (auto simp: sample_progress_simps sample_ready_def sample_status_def)
  qed
  moreover have "\<exists>b. ce_call_block sample_consensus_env 1 = Inr b \<and> hd_number (bk_header b) = 1"
    by (simp add: sample_consensus_env_def remote_block_def)
  ultimately show ?thesis unfolding serves_def by blast
qed


end
