(* ===== verification/Node_Start.thy ===== *)
theory Node_Start
  imports Synchronization "HOL-Library.Sublist"
begin

text \<open>
  How a node starts (\<open>core/run/src/lib.rs\<close>): the creation of the genesis block on an empty disk, and
  the recovery of the consensus status from what the disk holds. The disk is what a crash
  leaves: the database of the storage, the trie database and both logs; everything else is
  rebuilt. The keys of the configuration are taken as valid. Errors of the parts are the errors
  of the consensus theories.
\<close>

section \<open>The disk\<close>

record ('d, 't) disk =
  dk_db :: 'd
  dk_trie :: 't
  dk_txs_wal :: "node option"
  dk_consensus_wal :: "node option"

definition disk_of :: "('d, 't) chain_node \<Rightarrow> ('d, 't) disk" where
  "disk_of s =
     \<lparr>dk_db = is_db (nd_storage s), dk_trie = cn_trie_db s, dk_txs_wal = cn_txs_wal s, dk_consensus_wal = cn_consensus_wal s\<rparr>"

section \<open>The genesis block\<close>

definition DISTRIBUTE_ADDRESS :: h160 where
  "DISTRIBUTE_ADDRESS = 0x8ab0cf264df99d83525e9e11c7e4db01558ae1b1"

definition distribute_account :: account where
  "distribute_account =
     \<lparr>ac_nonce = 0, ac_balance = 32000001100000000000, ac_storage_root = RLP_NULL, ac_code_hash = NIL_DATA\<rparr>"

text \<open>The printed form of an error contains the name of its constructor and the text it carries.\<close>

definition mentions_get_none :: "storage_error \<Rightarrow> bool" where
  "mentions_get_none e =
     (case e of
        GetNone \<Rightarrow> True
      | CategoryNotFound t \<Rightarrow> sublist ''GetNone'' t
      | RocksDB t \<Rightarrow> sublist ''GetNone'' t
      | StorageCodec t \<Rightarrow> sublist ''GetNone'' t
      | _ \<Rightarrow> False)"

text \<open>The genesis transactions run on a trie that holds the distribution account.\<close>

definition exec_genesis ::
  "('d, 't, 'p) consensus_env \<Rightarrow> rich_block \<Rightarrow> 't \<Rightarrow> 'd impl_storage \<Rightarrow> ('t \<times> 'd impl_storage) \<times> (consensus_error + exec_resp)" where
  "exec_genesis E genesis db st =
     (let X = ce_exec E; T = xe_trie X in
      case mpt_insert T db (address_key DISTRIBUTE_ADDRESS) (fst (xe_account X) distribute_account) (mpt_new T) of
        (m, Inl e) \<Rightarrow> ((db, st), Inl (exec_err e))
      | (m, Inr _) \<Rightarrow>
          (case mpt_commit T db m of
             (db, m, Inl e) \<Rightarrow> ((db, st), Inl (exec_err e))
           | (db, m, Inr root) \<Rightarrow>
               (case backend_from_root X root db st (executor_context_from_proposal (proposal_hash E) (proposal_from_block (rb_block genesis))) of
                  Inl e \<Rightarrow> ((db, st), Inl (exec_err e))
                | Inr backend \<Rightarrow>
                    (case exec_block X (rb_txs genesis) backend of
                       (b, r) \<Rightarrow> ((ax_db b, ax_storage b), map_err exec_err r)))))"

definition save_genesis :: "('d, 't, 'p) consensus_env \<Rightarrow> rich_block \<Rightarrow> ('d, unit) storage_op" where
  "save_genesis E genesis =
     (let A = ce_adapter E; S = ce_store E; b = rb_block genesis in
      st_seq (update_latest_proof A S (hd_proof (bk_header b)))
     (st_seq (storage_insert_block A S b)
        (insert_transactions A S (hd_number (bk_header b)) (rb_txs genesis))))"

text \<open>
  \<open>create_genesis\<close>. The result is the field \<open>state_root\<close> of the application, which is the default
  until the genesis block has been executed by this process.
\<close>

definition create_genesis ::
  "('d, 't, 'p) consensus_env \<Rightarrow> rich_block \<Rightarrow> (('d, 't) disk, consensus_error, hash) st" where
  "create_genesis E genesis k =
     (case get_latest_block (ce_adapter E) (ce_store E) (storage_new (dk_db k)) of
        (st, Inr _) \<Rightarrow> (k\<lparr>dk_db := is_db st\<rparr>, Inr 0)
      | (st, Inl e) \<Rightarrow>
          if \<not> mentions_get_none e then (k\<lparr>dk_db := is_db st\<rparr>, Inl (storage_err e))
          else
            (case exec_genesis E genesis (dk_trie k) st of
               ((db, st), Inl e) \<Rightarrow> (k\<lparr>dk_db := is_db st, dk_trie := db\<rparr>, Inl e)
             | ((db, st), Inr resp) \<Rightarrow>
                 (case save_genesis E genesis st of
                    (st, r) \<Rightarrow> (k\<lparr>dk_db := is_db st, dk_trie := db\<rparr>, res_bind (map_err storage_err r) (\<lambda>_. Inr (er_state_root resp))))))"

section \<open>Starting\<close>

definition status_default :: current_status where
  "status_default =
     \<lparr>cs_prev_hash = 0, cs_last_number = 0, cs_last_state_root = 0, cs_tx_num_limit = 0, cs_gas_limit = 0, cs_max_tx_size = 0,
      cs_base_fee_per_gas = 0, cs_proof = \<lparr>pf_number = 0, pf_round = 0, pf_block_hash = 0, pf_signature = [], pf_bitmap = []\<rparr>,
      cs_last_checkpoint_block_hash = 0\<rparr>"

text \<open>A node before its status is known; the size limit is given the size of the pool.\<close>

definition boot_node :: "nat \<Rightarrow> u64 \<Rightarrow> ('d, 't) disk \<Rightarrow> ('d, 't) chain_node" where
  "boot_node cap now k =
     \<lparr>nd_storage = storage_new (dk_db k), nd_metadata = Map.empty, nd_state_root = 0, nd_pool = pool_new cap,
      nd_addr_nonce = Map.empty, nd_gas_limit = 0, nd_max_tx_size = cap, nd_stx_open = True, nd_stx_tx = [], nd_err_rx = [],
      nd_reports = [], cn_trie_db = dk_trie k, cn_status = status_default, cn_exemption = {}, cn_txs_wal = dk_txs_wal k,
      cn_consensus_wal = dk_consensus_wal k, cn_addr_pubkey = Map.empty, cn_last_commit_time = now, cn_fail_reason = None,
      cn_lock = False, cn_syncing = False, cn_sync_status = SyncFalse, cn_overlord_handler = None, cn_rich_status = [],
      cn_block_logs = [], cn_checkpoints = [], cn_net_out = []\<rparr>"

definition recovered_status ::
  "('d, 't, 'p) consensus_env \<Rightarrow> block \<Rightarrow> hash \<Rightarrow> u256 \<Rightarrow> metadata \<Rightarrow> block_proof \<Rightarrow> current_status" where
  "recovered_status E b root base_fee metadata p =
     \<lparr>cs_prev_hash = header_hash E b, cs_last_number = hd_number (bk_header b), cs_last_state_root = root,
      cs_tx_num_limit = md_tx_num_limit metadata, cs_gas_limit = ucast (md_gas_limit metadata),
      cs_max_tx_size = ucast (md_max_tx_size metadata), cs_base_fee_per_gas = base_fee, cs_proof = p,
      cs_last_checkpoint_block_hash = md_last_checkpoint_block_hash metadata\<rparr>"

text \<open>
  The status at the genesis block uses the state root of the application; after that the
  recovered transactions are executed once more, and the status is that of the header.
\<close>

definition recover_status ::
  "('d, 't, 'p) consensus_env \<Rightarrow> hash \<Rightarrow> block \<Rightarrow> metadata \<Rightarrow> signed_transaction list \<Rightarrow> ('d, 't, current_status) cn_op" where
  "recover_status E axon_root b metadata stxs =
     (let A = ce_adapter E; S = ce_store E; h = bk_header b in
      st_bind (on_store (get_latest_proof A S)) (\<lambda>latest_proof.
        if hd_number h = 0 then st_return (recovered_status E b axon_root 1 metadata latest_proof)
        else
          st_seq (st_bind (adapter_exec E (hd_state_root h) (proposal_from_header h) stxs) (\<lambda>_. st_return ()))
         (st_bind (on_store (get_latest_proof A S)) (\<lambda>latest_proof.
            st_return (recovered_status E b (hd_state_root h) (hd_base_fee_per_gas h) metadata latest_proof)))))"

definition install_status ::
  "('d, 't, 'p) consensus_env \<Rightarrow> metadata \<Rightarrow> current_status \<Rightarrow> ('d, 't, unit) cn_op" where
  "install_status E metadata status =
     st_seq (st_modify (\<lambda>s. s\<lparr>nd_state_root := cs_last_state_root status\<rparr>))
    (st_seq (adapter_set_args (md_gas_limit metadata) (md_max_tx_size metadata))
    (st_bind (st_lift (generate_new_crypto_map (ce_bls E) metadata)) (\<lambda>bls_pub_keys.
     st_bind (st_lift (map_err CeOther (res_map (\<lambda>v. ce_peer_id E (ve_pub_key v)) (md_verifier_list metadata)))) (\<lambda>_.
       st_modify (\<lambda>s. s\<lparr>cn_status := status, cn_addr_pubkey := bls_pub_keys, cn_overlord_handler := Some True\<rparr>)))))"

definition start_op ::
  "('d, 't, 'p) consensus_env \<Rightarrow> header \<Rightarrow> hash \<Rightarrow> ('d, 't, ov_status) cn_op" where
  "start_op E genesis axon_root =
     st_bind (on_store (get_latest_block (ce_adapter E) (ce_store E))) (\<lambda>current_block.
     st_bind (checked_next (hd_number (bk_header current_block))) (\<lambda>next_number.
     st_bind (st_gets (\<lambda>s. load_by_number (ce_wal_decode E) next_number (cn_txs_wal s))) (\<lambda>current_stxs.
     st_bind (adapter_get_metadata E (bk_header current_block)) (\<lambda>metadata.
     st_bind (st_lift (u256_to_u64 (hd_gas_limit genesis))) (\<lambda>gas_limit.
     st_seq (st_modify (\<lambda>s. initial_inserts (ce_mempool E) current_stxs (s\<lparr>nd_gas_limit := gas_limit\<rparr>)))
    (st_bind (recover_status E axon_root current_block metadata current_stxs) (\<lambda>status.
     st_seq (install_status E metadata status)
       (st_return \<lparr>os_height = hd_number (bk_header current_block), os_interval = Some (md_interval metadata),
          os_timer_config = Some (duration_config_from_metadata metadata),
          os_authority_list = map node_of_extend (md_verifier_list metadata)\<rparr>))))))))"

definition start_node ::
  "('d, 't, 'p) consensus_env \<Rightarrow> header \<Rightarrow> nat \<Rightarrow> u64 \<Rightarrow> hash \<Rightarrow> ('d, 't) disk
   \<Rightarrow> ('d, 't) chain_node \<times> (consensus_error + ov_status)" where
  "start_node E genesis cap now axon_root k = start_op E genesis axon_root (boot_node cap now k)"

text \<open>\<open>run\<close>: a process creates the genesis block if there is none, and starts.\<close>

definition run_node ::
  "('d, 't, 'p) consensus_env \<Rightarrow> rich_block \<Rightarrow> nat \<Rightarrow> u64 \<Rightarrow> ('d, 't) disk
   \<Rightarrow> consensus_error + ('d, 't) chain_node \<times> (consensus_error + ov_status)" where
  "run_node E genesis cap now k =
     (case create_genesis E genesis k of
        (k', Inl e) \<Rightarrow> Inl e
      | (k', Inr axon_root) \<Rightarrow> Inr (start_node E (bk_header (rb_block genesis)) cap now axon_root k'))"

section \<open>The blocks on the disk\<close>

text \<open>The column of the database that holds the blocks, the latest block and the latest proof; and the cached proof.\<close>

definition stored_blocks :: "('d \<Rightarrow> kv_view) \<Rightarrow> 'd impl_storage \<Rightarrow> (bytes \<rightharpoonup> bytes) \<times> block_proof option" where
  "stored_blocks view st = (view (is_db st) CatBlock, is_latest_proof st)"

lemma put_column [simp]:
  "stored_blocks view (put_block E m b st) = stored_blocks view st" "stored_blocks view (put_tx E h tx st) = stored_blocks view st"
  "stored_blocks view (put_number E g n st) = stored_blocks view st"
  by (simp_all add: stored_blocks_def put_block_def put_tx_def put_number_def)

lemma keeps_cached_get:
  assumes "keeps f fetch" and "\<And>k v s. f (put k v s) = f s"
  shows "keeps f (cached_get get put k fetch)"
proof -
  have fetched: "keeps f (st_bind fetch (\<lambda>ret. st_seq (st_modify (\<lambda>s. case ret of None \<Rightarrow> s | Some v \<Rightarrow> put k v s)) (st_return ret)))"
    by (intro frame_intros assms(1)) (simp add: assms(2) split: option.split)
  show ?thesis
    unfolding keeps_def
  proof
    fix s show "f (fst (cached_get get put k fetch s)) = f s"
      using fetched by (cases "get s k") (auto simp: cached_get_def keeps_def)
  qed
qed

context kv_adapter
begin

lemma column_schema:
  "keeps (stored_blocks view) (schema_get A c dec k)"
  "c \<noteq> CatBlock \<Longrightarrow> keeps (stored_blocks view) (schema_insert A c k v)"
  "c \<noteq> CatBlock \<Longrightarrow> keeps (stored_blocks view) (schema_batch A c ks vs)"
proof -
  have "view (fst (ad_get A c k d)) = view d" for d using get_ok [of c k d] by auto
  then show "keeps (stored_blocks view) (schema_get A c dec k)"
    by (simp add: keeps_def schema_get_def stored_blocks_def case_prod_beta)
  assume c: "c \<noteq> CatBlock"
  have "view (fst (ad_insert A c k v d)) CatBlock = view d CatBlock" for d using insert_ok [of c k v d] c by auto
  then show "keeps (stored_blocks view) (schema_insert A c k v)"
    by (simp add: keeps_def schema_insert_def stored_blocks_def case_prod_beta)
  have "view (fst (ad_batch A c ks vs d)) CatBlock = view d CatBlock" for d
    using batch_ok [of ks vs c d] batch_mismatch [of ks vs c d] c by (cases "length ks = length vs") auto
  then show "keeps (stored_blocks view) (schema_batch A c ks vs)"
    by (simp add: keeps_def schema_batch_def stored_blocks_def case_prod_beta)
qed

lemma column_storage:
  "keeps (stored_blocks view) (get_transaction_by_hash A E h)" "keeps (stored_blocks view) (insert_transactions A E n txs)"
  "keeps (stored_blocks view) (insert_receipts A E n rs)" "keeps (stored_blocks view) (insert_code A E a h code)"
  unfolding get_transaction_by_hash_def insert_transactions_def insert_receipts_def insert_code_def get_at_number_def
    batch_insert_stxs_def batch_insert_receipts_def
  by (intro keeps_cached_get frame_intros column_schema; simp)+

lemma column_ensure: "keeps (stored_blocks view) (ensure_get A c dec k)"
  unfolding ensure_get_def by (intro frame_intros column_schema)

lemma column_latest:
  "keeps (stored_blocks view) (get_latest_block A E)" "keeps (stored_blocks view) (get_latest_proof A E)"
  using column_ensure [of CatBlock "snd (se_block E)"] column_ensure [of CatBlock "snd (se_proof E)"]
  by (simp_all add: keeps_def get_latest_block_def get_latest_proof_def split: option.split)

end

text \<open>
  The interpreter of the EVM only reads the storage: what a transaction writes is in the values
  that it returns.
\<close>

definition evm_reads_only :: "('d, 't, 'p) exec_env \<Rightarrow> ('d \<Rightarrow> kv_view) \<Rightarrow> bool" where
  "evm_reads_only X view \<longleftrightarrow>
     (\<forall>ps tx s. let st = ax_storage (fst (xe_evm X ps tx s)) in
        view (is_db st) = view (is_db (ax_storage s)) \<and> is_latest_proof st = is_latest_proof (ax_storage s))"

abbreviation backend_blocks :: "('d \<Rightarrow> kv_view) \<Rightarrow> ('d, 't, 'p) exec_backend \<Rightarrow> (bytes \<rightharpoonup> bytes) \<times> block_proof option" where
  "backend_blocks view s \<equiv> stored_blocks view (ax_storage s)"

lemma keeps_trie_ops:
  assumes "\<And>s x y. f (s\<lparr>ax_db := x, ax_trie := y\<rparr>) = f s" and "\<And>s x. f (s\<lparr>ax_db := x\<rparr>) = f s"
    and "\<And>s x. f (s\<lparr>ax_trie := x\<rparr>) = f s"
  shows "keeps f (trie_insert X k v)" and "keeps f (trie_remove X k)" and "keeps f (trie_commit X)" and "keeps f (commit_storage X m)"
  using assms
  by (auto simp: keeps_def trie_insert_def trie_remove_def trie_commit_def commit_storage_def
      split: prod.splits sum.splits exec_error.splits)

lemma exec_block_column:
  assumes "kv_adapter (xe_adapter X) view" and "evm_reads_only X view"
  shows "keeps (backend_blocks view) (exec_block X txs)"
proof -
  let ?k = "keeps (backend_blocks view)"
  note trie = keeps_trie_ops [of "backend_blocks view" X]
  have code: "?k (store_code X a code h)" for a code h
    using kv_adapter.column_storage(4) [OF assms(1), of "xe_storage X" "ucast a"]
    by (auto simp: keeps_def store_code_def Let_def split: option.split prod.split) (metis fst_conv)
  have one: "?k (apply_one X del a)" for del a
    unfolding apply_one_def apply_account_def Let_def
    by (cases a) (simp_all, (intro frame_intros trie code; simp)+)
  have apply': "?k (backend_apply X vals logs del)" for vals logs del
    unfolding backend_apply_def by (intro frame_intros one) simp
  have "?k (call_native_token X tx)" for tx
    unfolding call_native_token_def token_apply_def Let_def by (intro frame_intros apply')
  then have native: "?k (sys_inner_exec X tx)" for tx
    by (cases "tx_action (stx_unsigned tx)") (simp_all add: sys_inner_exec_def keeps_basic)
  have "?k (xe_evm X ps req)" for ps req
    using assms(2) by (simp add: keeps_def evm_reads_only_def Let_def stored_blocks_def)
  then have evm: "?k (evm_inner_exec X tx)" for tx
    unfolding evm_inner_exec_def by (intro frame_intros apply')
  have logs: "?k get_logs" by (simp add: keeps_def get_logs_def)
  have "?k (exec_one X tx)" for tx
    unfolding exec_one_def by (intro frame_intros native evm logs) (simp add: set_gas_price_def)
  then have "?k (exec_loop X gas txs)" for gas
    by (induction txs arbitrary: gas) (auto intro!: frame_intros split: prod.split)
  then show ?thesis unfolding exec_block_def by (intro frame_intros) (auto intro: frame_intros split: prod.split)
qed

section \<open>What the disk holds after a commit\<close>

text \<open>What the environment of a node promises: one database under storage and executor, with keys that do not clash.\<close>

definition node_env_ok :: "('d, 't, 'p) consensus_env \<Rightarrow> ('d \<Rightarrow> kv_view) \<Rightarrow> bool" where
  "node_env_ok E view \<longleftrightarrow>
     kv_adapter (ce_adapter E) view \<and> xe_adapter (ce_exec E) = ce_adapter E \<and> evm_reads_only (ce_exec E) view \<and>
     keys_ok (ce_store E)"

abbreviation node_blocks :: "('d \<Rightarrow> kv_view) \<Rightarrow> ('d, 't) chain_node \<Rightarrow> (bytes \<rightharpoonup> bytes) \<times> block_proof option" where
  "node_blocks view s \<equiv> stored_blocks view (nd_storage s)"

lemma keeps_on_store_column:
  assumes "keeps (stored_blocks view) op"
  shows "keeps (node_blocks view) (on_store op)" and "keeps (node_blocks view) (on_storage op)"
proof -
  have "stored_blocks view (fst (op st)) = stored_blocks view st" for st using assms by (simp add: keeps_def)
  then show "keeps (node_blocks view) (on_store op)" "keeps (node_blocks view) (on_storage op)"
    by (auto simp: keeps_def on_store_def on_storage_def case_prod_beta split: sum.split)
qed

lemma node_frames:
  assumes "node_env_ok E view"
  shows "keeps (node_blocks view) (adapter_exec E root p txs)"
    and "keeps (node_blocks view) (save_signed_txs E n txs)" and "keeps (node_blocks view) (save_receipts E n rs)"
    and "keeps (node_blocks view) (adapter_get_full_txs E hs)" and "keeps (node_blocks view) (flush_mempool E hs)"
proof -
  have kv: "kv_adapter (ce_adapter E) view" and x: "kv_adapter (xe_adapter (ce_exec E)) view" "evm_reads_only (ce_exec E) view"
    using assms by (auto simp: node_env_ok_def)
  have "backend_blocks view (fst (exec_block (ce_exec E) txs b)) = backend_blocks view b" for b
    using exec_block_column [OF x] by (simp add: keeps_def)
  then show "keeps (node_blocks view) (adapter_exec E root p txs)"
    by (auto simp: keeps_def adapter_exec_def backend_from_root_def case_prod_beta split: sum.split)
      (auto simp: mpt_from_root_def split: sum.splits)
  show "keeps (node_blocks view) (save_signed_txs E n txs)" "keeps (node_blocks view) (save_receipts E n rs)"
    unfolding save_signed_txs_def save_receipts_def by (intro keeps_on_store_column kv_adapter.column_storage [OF kv])+
  show "keeps (node_blocks view) (adapter_get_full_txs E hs)"
    unfolding adapter_get_full_txs_def get_full_txs_def get_transactions_from_storage_def Let_def option.case
    by (intro keeps_on_store_column kv_adapter.column_storage [OF kv] keeps_on_mempool keeps_if keeps_bind keeps_map keeps_basic)
  have "keeps (node_blocks view) (check_authorization (ce_mempool E) tx)" for tx
    unfolding check_authorization_def check_system_script_tx_authorization_def
    by (intro keeps_on_store_column kv_adapter.column_latest [OF kv] keeps_if keeps_bind keeps_seq keeps_option keeps_sum keeps_basic keeps_modify) simp
  then show "keeps (node_blocks view) (flush_mempool E hs)"
    unfolding flush_mempool_def by (intro keeps_on_mempool keeps_mempool_flush) simp_all
qed

lemma node_frames_wal:
  assumes "node_env_ok E view"
  shows "keeps (node_blocks view) (txs_or_wal E n pr)"
proof -
  have "node_blocks view (fst (adapter_get_full_txs E hs s)) = node_blocks view s" for hs s
    using node_frames(4) [OF assms] by (simp add: keeps_def)
  then show ?thesis
    unfolding txs_or_wal_def keeps_def
    by (auto simp: txs_wal_load_def split: prod.split sum.split consensus_error.split) (metis fst_conv)+
qed

lemma status_frames_column:
  "keeps (node_blocks view) (adapter_update_metadata E hdr)" "keeps (node_blocks view) (refresh_authority E k)"
  "keeps (node_blocks view) (swap_status E b resp p)" "keeps (node_blocks view) (notify_block_logs h bh logs)"
  "keeps (node_blocks view) (notify_checkpoint b p)" "keeps (node_blocks view) (broadcast_number E k)"
  "keeps (node_blocks view) (metric_commit now k)" "keeps (node_blocks view) (txs_wal_remove k)"
  "keeps (node_blocks view) (adapter_get_metadata E hdr)" "keeps (node_blocks view) (adapter_set_args g m)"
  unfolding adapter_update_metadata_def refresh_authority_def adapter_set_args_def swap_status_def
    broadcast_number_def metric_commit_def mempool_set_args_def notify_block_logs_def notify_checkpoint_def
    adapter_need_change_metadata_def tag_consensus_def update_overlord_crypto_def adapter_get_metadata_def
    crypto_update_def checked_next_def Let_def
  by (auto intro!: frame_intros)

lemma finish_commit_column:
  assumes "node_env_ok E view"
  shows "keeps (node_blocks view) (finish_commit E now n c)"
  unfolding finish_commit_def checked_next_def
  by (intro keeps_seq keeps_bind node_frames [OF assms] status_frames_column keeps_modify keeps_basic keeps_metadata_unchecked) simp

text \<open>What the column says of the latest block and the latest proof.\<close>

definition column_latest_block :: "storage_env \<Rightarrow> (bytes \<rightharpoonup> bytes) \<Rightarrow> storage_error + block" where
  "column_latest_block S col = res_bind (read_val (snd (se_block S)) (col (se_hash_key S (se_latest_block_key S)))) (ok_or GetNone)"

definition column_latest_proof :: "storage_env \<Rightarrow> (bytes \<rightharpoonup> bytes) \<Rightarrow> storage_error + block_proof" where
  "column_latest_proof S col = res_bind (read_val (snd (se_proof S)) (col (se_hash_key S (se_latest_proof_key S)))) (ok_or GetNone)"

lemma save_proof_column:
  assumes "node_env_ok E view" and "codec_rt (se_proof (ce_store E)) p" and "save_proof E p s = (s', r)"
  shows "r = Inr ()" and "column_latest_proof (ce_store E) (fst (node_blocks view s')) = Inr p"
    and "column_latest_block (ce_store E) (fst (node_blocks view s')) = column_latest_block (ce_store E) (fst (node_blocks view s))"
proof -
  let ?S = "ce_store E" and ?A = "ce_adapter E"
  have kv: "kv_adapter ?A view" and keys: "keys_ok ?S" using assms(1) by (auto simp: node_env_ok_def)
  obtain d where d: "schema_insert ?A CatBlock (se_hash_key ?S (se_latest_proof_key ?S)) (fst (se_proof ?S) p) (nd_storage s)
      = (nd_storage s\<lparr>is_db := d\<rparr>, Inr ())"
    "view d = (view (is_db (nd_storage s)))(CatBlock := (view (is_db (nd_storage s)) CatBlock)(se_hash_key ?S (se_latest_proof_key ?S) \<mapsto> fst (se_proof ?S) p))"
    by (rule kv_adapter.schema_insert_view [OF kv])
  have s': "s' = s\<lparr>nd_storage := nd_storage s\<lparr>is_db := d, is_latest_proof := Some p\<rparr>\<rparr>" and r: "r = Inr ()"
    using assms(3) d(1) by (auto simp: save_proof_def on_store_def update_latest_proof_def st_seq_apply)
  show "r = Inr ()" by (rule r)
  show "column_latest_proof ?S (fst (node_blocks view s')) = Inr p"
    using assms(2) by (simp add: s' d(2) stored_blocks_def column_latest_proof_def codec_rt_def read_val_def)
  show "column_latest_block ?S (fst (node_blocks view s')) = column_latest_block ?S (fst (node_blocks view s))"
    using keys by (auto simp: s' d(2) stored_blocks_def column_latest_block_def keys_ok_def inj_eq)
qed

lemma save_block_column:
  assumes "node_env_ok E view" and "codec_rt (se_block (ce_store E)) b" and "save_block E b s = (s', r)"
  shows "r = Inr ()" and "column_latest_block (ce_store E) (fst (node_blocks view s')) = Inr b"
    and "column_latest_proof (ce_store E) (fst (node_blocks view s')) = column_latest_proof (ce_store E) (fst (node_blocks view s))"
proof -
  let ?S = "ce_store E" and ?A = "ce_adapter E"
  have kv: "kv_adapter ?A view" and keys: "keys_ok ?S" using assms(1) by (auto simp: node_env_ok_def)
  obtain d where d: "storage_insert_block ?A ?S b (nd_storage s) = (nd_storage s\<lparr>is_db := d, is_latest_block := Some b\<rparr>, Inr ())"
    "view d = with_latest ?S b (with_block ?S b (view (is_db (nd_storage s))))"
    using kv_adapter.insert_block_view [OF kv] by blast
  have s': "s' = s\<lparr>nd_storage := nd_storage s\<lparr>is_db := d, is_latest_block := Some b\<rparr>\<rparr>" and r: "r = Inr ()"
    using assms(3) d(1) by (auto simp: save_block_def on_store_def)
  show "r = Inr ()" by (rule r)
  show "column_latest_block ?S (fst (node_blocks view s')) = Inr b"
    using assms(2) by (simp add: s' d(2) stored_blocks_def column_latest_block_def codec_rt_def read_val_def with_latest_def)
  have "se_hash_key ?S h \<noteq> common_prefix_new n" for h n using keys by (metis keys_ok_def length_common_prefix)
  then show "column_latest_proof ?S (fst (node_blocks view s')) = column_latest_proof ?S (fst (node_blocks view s))"
    using keys by (auto simp: s' d(2) stored_blocks_def column_latest_proof_def with_latest_def with_block_def Let_def keys_ok_def inj_eq)
qed

text \<open>The disk agrees with a status: it holds the block the status stands at, and its proof.\<close>

definition on_disk :: "('d, 't, 'p) consensus_env \<Rightarrow> ('d \<Rightarrow> kv_view) \<Rightarrow> 'd \<Rightarrow> block \<Rightarrow> block_proof \<Rightarrow> bool" where
  "on_disk E view d b p \<longleftrightarrow>
     spec_latest_block (ce_store E) (view d) = Inr b \<and> spec_latest_proof (ce_store E) (view d) = Inr p"

definition settled :: "('d, 't, 'p) consensus_env \<Rightarrow> ('d \<Rightarrow> kv_view) \<Rightarrow> 'd \<Rightarrow> current_status \<Rightarrow> bool" where
  "settled E view d st \<longleftrightarrow>
     (\<exists>b. on_disk E view d b (cs_proof st) \<and> stands_at E b st \<and> cs_base_fee_per_gas st = hd_base_fee_per_gas (bk_header b))"

lemma on_disk_column:
  "on_disk E view (is_db (nd_storage s)) b p \<longleftrightarrow>
     column_latest_block (ce_store E) (fst (node_blocks view s)) = Inr b \<and>
     column_latest_proof (ce_store E) (fst (node_blocks view s)) = Inr p"
  by (simp add: on_disk_def spec_latest_proof_def spec_latest_block_def column_latest_proof_def column_latest_block_def
      stored_blocks_def)

lemma execute_commit_column:
  assumes "node_env_ok E view" and "execute_commit E n c s = (s', Inr (p, txs, resp))" and "codec_rt (se_proof (ce_store E)) p"
  shows "column_latest_proof (ce_store E) (fst (node_blocks view s')) = Inr p"
proof -
  obtain s1 where save: "save_proof E p s = (s1, Inr ())"
    and rest: "st_bind (txs_or_wal E n (oc_content c)) (\<lambda>signed_txs. st_bind (st_gets cn_status) (\<lambda>status.
       st_bind (adapter_exec E (cs_last_state_root status) (oc_content c) signed_txs) (\<lambda>resp. st_return (p, signed_txs, resp)))) s1
       = (s', Inr (p, txs, resp))"
    using assms(2) by (auto simp: execute_commit_def st_bind_ok st_seq_ok)
  have "keeps (node_blocks view) (st_bind (txs_or_wal E n (oc_content c)) (\<lambda>signed_txs. st_bind (st_gets cn_status) (\<lambda>status.
       st_bind (adapter_exec E (cs_last_state_root status) (oc_content c) signed_txs) (\<lambda>resp. st_return (p, signed_txs, resp)))))"
    by (intro keeps_bind node_frames_wal [OF assms(1)] node_frames [OF assms(1)] keeps_basic)
  from keepsD [OF this rest] show ?thesis using save_proof_column(2) [OF assms(1,3) save] by simp
qed

lemma save_executed_column:
  assumes "node_env_ok E view" and "save_executed E b resp p txs s = (s', Inr ())" and "codec_rt (se_block (ce_store E)) b"
  shows "column_latest_block (ce_store E) (fst (node_blocks view s')) = Inr b"
    and "column_latest_proof (ce_store E) (fst (node_blocks view s')) = column_latest_proof (ce_store E) (fst (node_blocks view s))"
proof -
  obtain receipts logs where rl: "generate_receipts_and_logs E (hd_number (bk_header b)) (header_hash E b)
      (hd_state_root (bk_header b)) txs resp = (receipts, logs)" by fastforce
  let ?pre = "st_seq (notify_block_logs (hd_number (bk_header b)) (header_hash E b) logs)
       (st_seq (if ce_cross_period_interval E = 0 then st_throw CePanic
                else st_when (hd_number (bk_header b) mod ce_cross_period_interval E = 0) (notify_checkpoint b p))
       (st_seq (save_signed_txs E (hd_number (bk_header b)) txs) (save_receipts E (hd_number (bk_header b)) receipts)))"
  obtain s1 where pre: "?pre s = (s1, Inr ())" and save: "save_block E b s1 = (s', Inr ())"
    using assms(2) by (auto simp: save_executed_def Let_def rl st_seq_apply split: prod.splits sum.splits)
  have "keeps (node_blocks view) ?pre"
    by (intro keeps_seq keeps_if keeps_when keeps_basic status_frames_column node_frames [OF assms(1)])
  note same = keepsD [OF this pre]
  show "column_latest_block (ce_store E) (fst (node_blocks view s')) = Inr b"
    by (rule save_block_column(2) [OF assms(1,3) save])
  show "column_latest_proof (ce_store E) (fst (node_blocks view s')) = column_latest_proof (ce_store E) (fst (node_blocks view s))"
    using save_block_column(3) [OF assms(1,3) save] same by simp
qed

lemma update_status_column:
  assumes "node_env_ok E view" and "engine_update_status E resp pr p txs s = (s', Inr ())"
    and "codec_rt (se_block (ce_store E)) (new_block E pr resp)"
  shows "column_latest_block (ce_store E) (fst (node_blocks view s')) = Inr (new_block E pr resp)"
    and "column_latest_proof (ce_store E) (fst (node_blocks view s')) = column_latest_proof (ce_store E) (fst (node_blocks view s))"
    and "cn_status s' = status_after E (new_block E pr resp) resp p (cn_status s)"
proof -
  let ?b = "new_block E pr resp"
  obtain n s1 where save: "save_executed E ?b resp p txs s = (s1, Inr ())"
    and rest: "st_seq (st_when (contains_change_metadata E txs) (adapter_update_metadata E (bk_header ?b)))
       (st_seq (refresh_authority E n) (swap_status E ?b resp p)) s1 = (s', Inr ())"
    using assms(2) by (auto simp: engine_update_status_def Let_def st_bind_ok st_seq_ok checked_next_def)
  have "keeps (node_blocks view) (st_seq (st_when (contains_change_metadata E txs) (adapter_update_metadata E (bk_header ?b)))
       (st_seq (refresh_authority E n) (swap_status E ?b resp p)))"
    by (intro keeps_seq keeps_when status_frames_column)
  note same = keepsD [OF this rest]
  show "column_latest_block (ce_store E) (fst (node_blocks view s')) = Inr ?b"
    "column_latest_proof (ce_store E) (fst (node_blocks view s')) = column_latest_proof (ce_store E) (fst (node_blocks view s))"
    using save_executed_column [OF assms(1) save assms(3)] same by simp_all
  show "cn_status s' = status_after E ?b resp p (cn_status s)"
    using engine_update_status_run [OF assms(2)] by simp
qed

text \<open>The values a commit writes survive their encoding.\<close>

definition commit_storable :: "('d, 't, 'p) consensus_env \<Rightarrow> u64 \<Rightarrow> ov_commit \<Rightarrow> ('d, 't) chain_node \<Rightarrow> bool" where
  "commit_storable E n c s \<longleftrightarrow>
     (\<forall>s1 p txs resp. execute_commit E n c (s\<lparr>cn_lock := True\<rparr>) = (s1, Inr (p, txs, resp)) \<longrightarrow>
        codec_rt (se_proof (ce_store E)) p \<and> codec_rt (se_block (ce_store E)) (new_block E (oc_content c) resp))"

lemma commit_settles:
  assumes "node_env_ok E view" and "commit_storable E n c s"
    and "engine_commit E now n c s = (s', Inr st)" and "n \<noteq> cs_last_number (cn_status s)"
  shows "settled E view (is_db (nd_storage s')) (cn_status s')"
proof -
  obtain t where run: "commit_block_of E now n c (s\<lparr>cn_lock := True\<rparr>) = (t, Inr st)" and s': "s' = t\<lparr>cn_lock := False\<rparr>"
    using assms(3,4)
    by (auto simp: engine_commit_def with_commit_lock_def engine_commit_unlocked_def st_bind_ok checked_next_def
        adapter_metadata_unchecked_def split: if_splits prod.splits)
  obtain p txs resp s1 s2 where ex: "execute_commit E n c (s\<lparr>cn_lock := True\<rparr>) = (s1, Inr (p, txs, resp))"
    and up: "engine_update_status E resp (oc_content c) p txs s1 = (s2, Inr ())" and fin: "finish_commit E now n c s2 = (t, Inr st)"
    using run by (auto simp: commit_block_of_def st_bind_ok st_seq_ok)
  let ?b = "new_block E (oc_content c) resp"
  have rt: "codec_rt (se_proof (ce_store E)) p" "codec_rt (se_block (ce_store E)) ?b"
    using assms(2) ex by (auto simp: commit_storable_def)
  note up' = update_status_column [OF assms(1) up rt(2)]
  have cols: "node_blocks view t = node_blocks view s2" by (rule keepsD [OF finish_commit_column [OF assms(1)] fin])
  have stat: "cn_status t = status_after E ?b resp p (cn_status s1)" using finish_commit_run(1) [OF fin] up'(3) by simp
  have "on_disk E view (is_db (nd_storage t)) ?b p"
    using execute_commit_column [OF assms(1) ex rt(1)] up'(1,2) by (simp add: on_disk_column cols)
  moreover have "stands_at E ?b (cn_status t)" by (simp add: stands_at_def stat status_after_def new_block_def block_new_def Let_def)
  ultimately have "settled E view (is_db (nd_storage t)) (cn_status t)" by (auto simp: settled_def stat status_after_def)
  then show ?thesis by (simp add: s')
qed

section \<open>Restarting\<close>

context kv_adapter
begin

lemma ensure_get_reads: "snd (ensure_get A c dec k st) = res_bind (read_val dec (view (is_db st) c k)) (ok_or GetNone)"
  using get_ok [of c k "is_db st"]
  by (auto simp: ensure_get_def schema_get_def st_bind_apply read_val_def split: option.split sum.split)

lemma get_latest_proof_reads:
  "snd (stored_blocks view st) = None \<Longrightarrow>
     snd (get_latest_proof A S st) = column_latest_proof S (fst (stored_blocks view st))"
  using ensure_get_reads [of CatBlock "snd (se_proof S)" _ st]
  by (simp add: get_latest_proof_def stored_blocks_def column_latest_proof_def)

end

lemma start_frames:
  fixes E :: "('d, 't, 'p) consensus_env" and s :: "('d, 't) chain_node"
  assumes "node_env_ok E view"
  shows "node_blocks view (initial_inserts (ce_mempool E) txs s) = node_blocks view s"
    and "keeps (node_blocks view) (recover_status E axon_root b metadata stxs)"
    and "keeps (node_blocks view) (install_status E metadata status)"
proof -
  have kv: "kv_adapter (ce_adapter E) view" using assms by (simp add: node_env_ok_def)
  have "keeps (node_blocks view) (initial_insert (ce_mempool E) tx :: ('d, 't) chain_node \<Rightarrow> _)" for tx
    unfolding initial_insert_def check_storage_exist_def
    by (intro keeps_seq keeps_bind keeps_on_store_column kv_adapter.column_storage [OF kv] keeps_option keeps_basic keeps_on_pool) simp
  then have one: "node_blocks view (fst (initial_insert (ce_mempool E) tx s)) = node_blocks view s" for tx and s :: "('d, 't) chain_node"
    by (simp add: keeps_def)
  show "node_blocks view (initial_inserts (ce_mempool E) txs s) = node_blocks view s"
    unfolding initial_inserts_def by (induction txs arbitrary: s) (simp_all add: one)
  show "keeps (node_blocks view) (recover_status E axon_root b metadata stxs)"
    unfolding recover_status_def Let_def
    by (intro keeps_seq keeps_bind keeps_if keeps_on_store_column kv_adapter.column_latest [OF kv] keeps_basic node_frames [OF assms])
  show "keeps (node_blocks view) (install_status E metadata status)"
    unfolding install_status_def
    by (intro keeps_seq keeps_bind keeps_modify keeps_basic status_frames_column) simp_all
qed

lemma latest_proof_read:
  assumes "node_env_ok E view" and "on_store (get_latest_proof (ce_adapter E) (ce_store E)) s = (s', Inr p)"
    and "snd (node_blocks view s) = None"
  shows "column_latest_proof (ce_store E) (fst (node_blocks view s)) = Inr p" and "node_blocks view s' = node_blocks view s"
proof -
  have kv: "kv_adapter (ce_adapter E) view" using assms(1) by (simp add: node_env_ok_def)
  show "column_latest_proof (ce_store E) (fst (node_blocks view s)) = Inr p"
    using kv_adapter.get_latest_proof_reads [OF kv assms(3), of "ce_store E"] assms(2)
    by (auto simp: on_store_def map_err_def split: prod.splits sum.splits)
  show "node_blocks view s' = node_blocks view s"
    by (rule keepsD [OF keeps_on_store_column(1) [OF kv_adapter.column_latest(2) [OF kv]] assms(2)])
qed

lemma recover_status_reads:
  assumes "node_env_ok E view" and "recover_status E axon_root b metadata stxs s = (s', Inr st)"
    and "snd (node_blocks view s) = None" and "hd_number (bk_header b) \<noteq> 0"
  shows "\<exists>p. column_latest_proof (ce_store E) (fst (node_blocks view s)) = Inr p \<and>
    st = recovered_status E b (hd_state_root (bk_header b)) (hd_base_fee_per_gas (bk_header b)) metadata p"
proof -
  obtain p p' s1 s2 resp where p: "on_store (get_latest_proof (ce_adapter E) (ce_store E)) s = (s1, Inr p)"
    and ex: "adapter_exec E (hd_state_root (bk_header b)) (proposal_from_header (bk_header b)) stxs s1 = (s2, Inr resp)"
    and p': "on_store (get_latest_proof (ce_adapter E) (ce_store E)) s2 = (s', Inr p')"
    and st: "st = recovered_status E b (hd_state_root (bk_header b)) (hd_base_fee_per_gas (bk_header b)) metadata p'"
    using assms(2,4) by (auto simp: recover_status_def Let_def st_bind_ok st_seq_ok)
  have "node_blocks view s2 = node_blocks view s"
    using keepsD [OF node_frames(1) [OF assms(1)] ex] latest_proof_read(2) [OF assms(1) p assms(3)] by simp
  then show ?thesis using latest_proof_read(1) [OF assms(1) p'] assms(3) st by auto
qed

lemma install_status_run:
  assumes "install_status E metadata status s = (s', Inr ())"
  shows "cn_status s' = status" and "nd_state_root s' = cs_last_state_root status"
  using assms by (auto simp: install_status_def st_seq_ok st_bind_ok adapter_set_args_def mempool_set_args_def)

abbreviation other_disk :: "('d, 't) chain_node \<Rightarrow> 't \<times> node option" where
  "other_disk s \<equiv> (cn_trie_db s, cn_txs_wal s)"

lemma initial_inserts_disk:
  fixes s :: "('d, 't) chain_node"
  shows "other_disk (initial_inserts M txs s) = other_disk s"
proof -
  have "keeps other_disk (initial_insert M tx :: ('d, 't) chain_node \<Rightarrow> _)" for tx
    unfolding initial_insert_def by (intro frame_intros) simp_all
  then have "other_disk (fst (initial_insert M tx s)) = other_disk s" for tx and s :: "('d, 't) chain_node"
    by (simp add: keeps_def)
  then show ?thesis unfolding initial_inserts_def by (induction txs arbitrary: s) simp_all
qed

lemma install_status_disk: "keeps other_disk (install_status E metadata status)"
  unfolding install_status_def adapter_set_args_def mempool_set_args_def by (intro frame_intros) simp_all

lemma keeps_other_disk: "keeps other_disk (on_store op)" "keeps other_disk (adapter_get_metadata E hdr)"
  unfolding adapter_get_metadata_def by (intro frame_intros; simp)+

lemma start_steps:
  assumes "node_env_ok E view" and "spec_latest_block (ce_store E) (view (dk_db k)) = Inr b"
    and "start_node E genesis cap now axon_root k = (s', Inr ov)"
  obtains metadata txs t s3 status where
    "recover_status E axon_root b metadata txs t = (s3, Inr status)" and "node_blocks view t = (view (dk_db k) CatBlock, None)"
    and "node_blocks view s' = node_blocks view t" and "other_disk t = (dk_trie k, dk_txs_wal k)" and "other_disk s' = other_disk s3"
    and "cn_status s' = status" and "nd_state_root s' = cs_last_state_root status" and "os_height ov = hd_number (bk_header b)"
proof -
  let ?A = "ce_adapter E" and ?S = "ce_store E" and ?s = "boot_node cap now k"
  have kv: "kv_adapter ?A view" using assms(1) by (simp add: node_env_ok_def)
  obtain b' s1 s2 s3 n metadata gl status where latest: "on_store (get_latest_block ?A ?S) ?s = (s1, Inr b')"
    and meta: "adapter_get_metadata E (bk_header b') s1 = (s2, Inr metadata)"
    and rec: "recover_status E axon_root b' metadata (load_by_number (ce_wal_decode E) n (cn_txs_wal s1))
      (initial_inserts (ce_mempool E) (load_by_number (ce_wal_decode E) n (cn_txs_wal s1)) (s2\<lparr>nd_gas_limit := gl\<rparr>)) = (s3, Inr status)"
    and inst: "install_status E metadata status s3 = (s', Inr ())" and ov: "os_height ov = hd_number (bk_header b')"
    using assms(3) by (auto simp: start_node_def start_op_def st_bind_ok st_seq_ok checked_next_def)
  have "transparent ?S view (get_latest_block ?A ?S) (spec_latest_block ?S) (storage_new (dk_db k))"
    by (rule kv_adapter.get_latest_block_transparent [OF kv coherent_new])
  then have bb: "b' = b"
    using latest assms(2) by (auto simp: transparent_def on_store_def boot_node_def storage_new_def)
  let ?t = "initial_inserts (ce_mempool E) (load_by_number (ce_wal_decode E) n (cn_txs_wal s1)) (s2\<lparr>nd_gas_limit := gl\<rparr>)"
  have "node_blocks view ?t = node_blocks view ?s"
    using start_frames(1) [OF assms(1)] keepsD [OF status_frames_column(9) meta]
      keepsD [OF keeps_on_store_column(1) [OF kv_adapter.column_latest(1) [OF kv]] latest] by simp
  then have t: "node_blocks view ?t = (view (dk_db k) CatBlock, None)"
    by (simp add: boot_node_def storage_new_def stored_blocks_def)
  have "node_blocks view s' = node_blocks view ?t"
    using keepsD [OF start_frames(2) [OF assms(1)] rec] keepsD [OF start_frames(3) [OF assms(1)] inst] by simp
  moreover have "other_disk ?t = other_disk ?s"
    using keepsD [OF keeps_other_disk(2) meta] keepsD [OF keeps_other_disk(1) latest] initial_inserts_disk [of "ce_mempool E" _ "s2\<lparr>nd_gas_limit := gl\<rparr>"]
    by simp
  then have "other_disk ?t = (dk_trie k, dk_txs_wal k)" by (simp add: boot_node_def)
  ultimately show ?thesis
    using that [OF rec [unfolded bb] t] keepsD [OF install_status_disk inst] install_status_run [OF inst] ov bb by simp
qed

lemma start_reads:
  assumes "node_env_ok E view" and "on_disk E view (dk_db k) b p" and "start_node E genesis cap now axon_root k = (s', Inr ov)"
    and "hd_number (bk_header b) \<noteq> 0"
  shows "os_height ov = hd_number (bk_header b)" and "nd_state_root s' = hd_state_root (bk_header b)"
    and "\<exists>metadata. cn_status s' = recovered_status E b (hd_state_root (bk_header b)) (hd_base_fee_per_gas (bk_header b)) metadata p"
proof -
  have b: "spec_latest_block (ce_store E) (view (dk_db k)) = Inr b" using assms(2) by (simp add: on_disk_def)
  obtain metadata txs t s3 status where rec: "recover_status E axon_root b metadata txs t = (s3, Inr status)"
    and t: "node_blocks view t = (view (dk_db k) CatBlock, None)"
    and s': "cn_status s' = status" "nd_state_root s' = cs_last_state_root status" "os_height ov = hd_number (bk_header b)"
    by (rule start_steps [OF assms(1) b assms(3)])
  have "status = recovered_status E b (hd_state_root (bk_header b)) (hd_base_fee_per_gas (bk_header b)) metadata p"
    using recover_status_reads [OF assms(1) rec] t assms(2,4)
    by (auto simp: on_disk_def spec_latest_proof_def column_latest_proof_def)
  then show "os_height ov = hd_number (bk_header b)" "nd_state_root s' = hd_state_root (bk_header b)"
    "\<exists>metadata. cn_status s' = recovered_status E b (hd_state_root (bk_header b)) (hd_base_fee_per_gas (bk_header b)) metadata p"
    using s' by (auto simp: recovered_status_def)
qed

lemma start_at_genesis:
  assumes "node_env_ok E view" and "spec_latest_block (ce_store E) (view (dk_db k)) = Inr b"
    and "start_node E genesis cap now axon_root k = (s', Inr ov)" and "hd_number (bk_header b) = 0"
  shows "cs_last_state_root (cn_status s') = axon_root" and "nd_state_root s' = axon_root"
    and "cs_last_number (cn_status s') = 0" and "spec_latest_block (ce_store E) (view (dk_db (disk_of s'))) = Inr b"
    and "on_disk E view (dk_db k) b p \<Longrightarrow> on_disk E view (dk_db (disk_of s')) b p"
    and "dk_trie (disk_of s') = dk_trie k" and "dk_txs_wal (disk_of s') = dk_txs_wal k"
proof -
  obtain metadata txs t s3 status where rec: "recover_status E axon_root b metadata txs t = (s3, Inr status)"
    and t: "node_blocks view t = (view (dk_db k) CatBlock, None)" and keep: "node_blocks view s' = node_blocks view t"
    and other: "other_disk t = (dk_trie k, dk_txs_wal k)" "other_disk s' = other_disk s3"
    and s': "cn_status s' = status" "nd_state_root s' = cs_last_state_root status"
    by (rule start_steps [OF assms(1-3)])
  obtain p' where "status = recovered_status E b axon_root 1 metadata p'"
    and proof': "on_store (get_latest_proof (ce_adapter E) (ce_store E)) t = (s3, Inr p')"
    using rec assms(4) by (auto simp: recover_status_def Let_def st_bind_ok)
  then show "cs_last_state_root (cn_status s') = axon_root" "nd_state_root s' = axon_root" "cs_last_number (cn_status s') = 0"
    using s' assms(4) by (auto simp: recovered_status_def)
  show "spec_latest_block (ce_store E) (view (dk_db (disk_of s'))) = Inr b"
    using assms(2) keep t by (simp add: disk_of_def spec_latest_block_def stored_blocks_def)
  show "on_disk E view (dk_db (disk_of s')) b p" if "on_disk E view (dk_db k) b p"
    using that keep t by (simp add: disk_of_def on_disk_def spec_latest_block_def spec_latest_proof_def stored_blocks_def)
  show "dk_trie (disk_of s') = dk_trie k" "dk_txs_wal (disk_of s') = dk_txs_wal k"
    using keepsD [OF keeps_other_disk(1) proof'] other by (simp_all add: disk_of_def)
qed

text \<open>What else a start needs: the answer of the metadata contract, valid keys, and logged transactions that execute.\<close>

definition start_ready ::
  "('d, 't, 'p) consensus_env \<Rightarrow> ('d \<Rightarrow> kv_view) \<Rightarrow> header \<Rightarrow> ('d, 't) disk \<Rightarrow> bool" where
  "start_ready E view genesis k \<longleftrightarrow>
     (\<exists>b cache metadata. spec_latest_block (ce_store E) (view (dk_db k)) = Inr b \<and>
        unat (hd_number (bk_header b)) < 2 ^ 64 - 1 \<and> unat (hd_gas_limit genesis) < 2 ^ 64 \<and>
        get_metadata (ce_meta E) (bk_header b) Map.empty = (cache, Inr metadata) \<and>
        is_ok (generate_new_crypto_map (ce_bls E) metadata) \<and>
        is_ok (res_map (\<lambda>v. ce_peer_id E (ve_pub_key v)) (md_verifier_list metadata)) \<and>
        (\<forall>s. cn_trie_db s = dk_trie k \<longrightarrow>
           is_ok (snd (adapter_exec E (hd_state_root (bk_header b)) (proposal_from_header (bk_header b))
             (load_by_number (ce_wal_decode E) (hd_number (bk_header b) + 1) (dk_txs_wal k)) s))))"

lemma latest_proof_runs:
  assumes "node_env_ok E view" and "snd (node_blocks view s) = None"
    and "column_latest_proof (ce_store E) (fst (node_blocks view s)) = Inr p"
  obtains s' where "on_store (get_latest_proof (ce_adapter E) (ce_store E)) s = (s', Inr p)"
    and "node_blocks view s' = node_blocks view s" and "cn_trie_db s' = cn_trie_db s"
proof -
  let ?op = "get_latest_proof (ce_adapter E) (ce_store E)"
  have kv: "kv_adapter (ce_adapter E) view" using assms(1) by (simp add: node_env_ok_def)
  obtain st where st: "?op (nd_storage s) = (st, Inr p)"
    using kv_adapter.get_latest_proof_reads [OF kv assms(2), of "ce_store E"] assms(3) by (metis prod.collapse)
  have "node_blocks view (s\<lparr>nd_storage := st\<rparr>) = node_blocks view s"
    using keepsD [OF kv_adapter.column_latest(2) [OF kv] st] by simp
  then show ?thesis using that [of "s\<lparr>nd_storage := st\<rparr>"] st by (simp add: on_store_def)
qed

lemma recover_status_runs:
  assumes "node_env_ok E view" and "snd (node_blocks view s) = None"
    and "column_latest_proof (ce_store E) (fst (node_blocks view s)) = Inr p"
    and "\<And>t. cn_trie_db t = cn_trie_db s \<Longrightarrow>
      is_ok (snd (adapter_exec E (hd_state_root (bk_header b)) (proposal_from_header (bk_header b)) stxs t))"
  shows "\<exists>s' st. recover_status E axon_root b metadata stxs s = (s', Inr st)"
proof -
  obtain s1 where s1: "on_store (get_latest_proof (ce_adapter E) (ce_store E)) s = (s1, Inr p)"
    "node_blocks view s1 = node_blocks view s" "cn_trie_db s1 = cn_trie_db s"
    by (rule latest_proof_runs [OF assms(1-3)])
  let ?exec = "adapter_exec E (hd_state_root (bk_header b)) (proposal_from_header (bk_header b)) stxs s1"
  obtain s2 r where run: "?exec = (s2, r)" by fastforce
  then obtain resp where s2: "?exec = (s2, Inr resp)" using assms(4) [OF s1(3)] by (cases r) (auto simp: is_ok_def)
  have "node_blocks view s2 = node_blocks view s" using keepsD [OF node_frames(1) [OF assms(1)] s2] s1(2) by simp
  then obtain s3 where "on_store (get_latest_proof (ce_adapter E) (ce_store E)) s2 = (s3, Inr p)"
    using latest_proof_runs [OF assms(1), of s2 p] assms(2,3) by auto
  with s1 s2 show ?thesis by (auto simp: recover_status_def Let_def st_bind_apply st_seq_apply)
qed

lemma install_status_runs:
  assumes "is_ok (generate_new_crypto_map (ce_bls E) metadata)"
    and "is_ok (res_map (\<lambda>v. ce_peer_id E (ve_pub_key v)) (md_verifier_list metadata))"
  shows "\<exists>s'. install_status E metadata status s = (s', Inr ())"
  using assms by (auto simp: install_status_def st_seq_apply st_bind_apply adapter_set_args_def is_ok_def split: sum.splits)

lemma start_succeeds:
  assumes "node_env_ok E view" and "on_disk E view (dk_db k) b0 p" and "start_ready E view genesis k"
  shows "\<exists>s' ov. start_node E genesis cap now axon_root k = (s', Inr ov)"
proof -
  let ?A = "ce_adapter E" and ?S = "ce_store E" and ?s = "boot_node cap now k"
  have kv: "kv_adapter ?A view" using assms(1) by (simp add: node_env_ok_def)
  obtain b cache metadata where b: "spec_latest_block ?S (view (dk_db k)) = Inr b"
    and n: "unat (hd_number (bk_header b)) < 2 ^ 64 - 1" and g: "unat (hd_gas_limit genesis) < 2 ^ 64"
    and meta: "get_metadata (ce_meta E) (bk_header b) Map.empty = (cache, Inr metadata)"
    and inst: "is_ok (generate_new_crypto_map (ce_bls E) metadata)"
      "is_ok (res_map (\<lambda>v. ce_peer_id E (ve_pub_key v)) (md_verifier_list metadata))"
    and exec: "\<And>s. cn_trie_db s = dk_trie k \<Longrightarrow> is_ok (snd (adapter_exec E (hd_state_root (bk_header b))
      (proposal_from_header (bk_header b)) (load_by_number (ce_wal_decode E) (hd_number (bk_header b) + 1) (dk_txs_wal k)) s))"
    using assms(3) unfolding start_ready_def by blast
  let ?txs = "load_by_number (ce_wal_decode E) (hd_number (bk_header b) + 1) (dk_txs_wal k)"
  have "transparent ?S view (get_latest_block ?A ?S) (spec_latest_block ?S) (storage_new (dk_db k))"
    by (rule kv_adapter.get_latest_block_transparent [OF kv coherent_new])
  then obtain d where d: "get_latest_block ?A ?S (storage_new (dk_db k)) = (d, Inr b)"
    using b by (auto simp: transparent_def storage_new_def)
  let ?s1 = "?s\<lparr>nd_storage := d\<rparr>"
  have s1: "on_store (get_latest_block ?A ?S) ?s = (?s1, Inr b)" using d by (simp add: on_store_def boot_node_def)
  let ?t = "initial_inserts (ce_mempool E) ?txs (?s1\<lparr>nd_metadata := cache, nd_gas_limit := ucast (hd_gas_limit genesis)\<rparr>)"
  have "node_blocks view ?t = node_blocks view ?s"
    using start_frames(1) [OF assms(1)] keepsD [OF keeps_on_store_column(1) [OF kv_adapter.column_latest(1) [OF kv]] s1] by simp
  then have cols: "node_blocks view ?t = (view (dk_db k) CatBlock, None)"
    by (simp add: boot_node_def storage_new_def stored_blocks_def)
  have p: "column_latest_proof ?S (view (dk_db k) CatBlock) = Inr p"
    using assms(2) by (simp add: on_disk_def spec_latest_proof_def column_latest_proof_def)
  have tr: "cn_trie_db ?t = dk_trie k" using initial_inserts_disk [of "ce_mempool E" ?txs "?s1\<lparr>nd_metadata := cache, nd_gas_limit := ucast (hd_gas_limit genesis)\<rparr>"]
    by (simp add: boot_node_def)
  obtain s2 status where s2: "recover_status E axon_root b metadata ?txs ?t = (s2, Inr status)"
    using recover_status_runs [OF assms(1), of ?t p b ?txs axon_root metadata] cols p tr exec by auto
  obtain s3 where s3: "install_status E metadata status s2 = (s3, Inr ())" using install_status_runs [OF inst] by blast
  have next': "checked_add (hd_number (bk_header b)) 1 = Some (hd_number (bk_header b) + 1)"
    using n by (simp add: checked_add_def)
  have meta': "adapter_get_metadata E (bk_header b) ?s1 = (?s1\<lparr>nd_metadata := cache\<rparr>, Inr metadata)"
    using meta by (simp add: adapter_get_metadata_def on_metadata_def boot_node_def)
  have wal: "cn_txs_wal ?s1 = dk_txs_wal k" by (simp add: boot_node_def)
  show ?thesis
    using s1 next' meta' g s2 s3 wal
    by (simp add: start_node_def start_op_def st_bind_apply st_seq_apply checked_next_def u256_to_u64_def)
qed


text \<open>A storage whose codecs restore the block and the proof of the sample commit.\<close>

definition sample_resp :: exec_resp where
  "sample_resp = \<lparr>er_state_root = 0, er_receipt_root = 0, er_gas_used = 0, er_tx_resp = []\<rparr>"

definition committed_block :: block where
  "committed_block = new_block sample_consensus_env (oc_content sample_commit) sample_resp"

definition committed_proof :: block_proof where
  "committed_proof = \<lparr>pf_number = 1, pf_round = 0, pf_block_hash = from_be_bytes (replicate 32 0), pf_signature = [], pf_bitmap = []\<rparr>"

definition restart_store :: storage_env where
  "restart_store = (sample_env committed_block (sample_stx 1 2 3 4) sample_rc)\<lparr>se_proof := (\<lambda>_. [3], \<lambda>_. Inr committed_proof)\<rparr>"

lemma sample_exec_run:
  assumes "cn_trie_db s = m # ms"
  shows "\<exists>s'. adapter_exec (sample_on S) 0 p [] s = (s', Inr sample_resp)"
proof -
  have "be_nat (to_be_bytes 32 (0 :: hash)) = 0" by (simp add: to_be_bytes_def be_nat_nat_to_be)
  then show ?thesis
    using assms
    by (auto simp: adapter_exec_def backend_from_root_def mpt_from_root_def sample_trie_lib_def sample_exec_env_def exec_block_def
        st_bind_apply sample_resp_def root_or_default_def get_root_hash_def state_root_def)
qed

lemma restart_storable: "commit_storable (sample_on restart_store) 1 sample_commit sample_chain_node"
  unfolding commit_storable_def
proof (intro allI impI)
  let ?E = "sample_on restart_store"
  fix s1 p txs resp
  assume run: "execute_commit ?E 1 sample_commit (sample_chain_node\<lparr>cn_lock := True\<rparr>) = (s1, Inr (p, txs, resp))"
  then have "commit_proof (oc_proof sample_commit) = Inr p" by (rule execute_commit_run(2)) simp
  then have p: "p = committed_proof"
    by (auto simp: commit_proof_def sample_commit_def hash_from_slice_def committed_proof_def)
  obtain s2 where save: "save_proof ?E p (sample_chain_node\<lparr>cn_lock := True\<rparr>) = (s2, Inr ())"
    and ex: "adapter_exec ?E (cs_last_state_root (cn_status s2)) (oc_content sample_commit) [] s2 = (s1, Inr resp)"
    using run
    by (auto simp: execute_commit_def st_bind_ok st_seq_ok txs_or_wal_def sample_get_full_txs sample_commit_def proposal_from_block_def)
  have "cn_trie_db s2 = [Map.empty]" "cs_last_state_root (cn_status s2) = 0"
    using save sample_ready_node by (auto simp: save_proof_def on_store_def sample_ready_def split: prod.splits)
  then have "resp = sample_resp" using ex sample_exec_run [of s2 Map.empty "[]" restart_store "oc_content sample_commit"] by auto
  moreover have "new_block ?E = new_block sample_consensus_env" by (simp add: fun_eq_iff new_block_def sample_on_def)
  ultimately show "codec_rt (se_proof (ce_store ?E)) p \<and> codec_rt (se_block (ce_store ?E)) (new_block ?E (oc_content sample_commit) resp)"
    by (simp add: codec_rt_def restart_store_def sample_env_def p committed_block_def)
qed

lemma committed_block_simps: "hd_number (bk_header committed_block) = 1" "hd_state_root (bk_header committed_block) = 0"
  by (simp_all add: committed_block_def new_block_def block_new_def sample_commit_def proposal_from_block_def sample_resp_def Let_def)

lemma restart_ready:
  assumes "spec_latest_block S (mem_view (dk_db k)) = Inr b" and "hd_number (bk_header b) < 2" and "hd_state_root (bk_header b) = 0"
    and "dk_trie k = m # ms" and "dk_txs_wal k = Some (Dir [])"
  shows "start_ready (sample_on S) mem_view (sample_header 0) k"
proof -
  have "unat (hd_number (bk_header b)) < 2" using assms(2) by (simp add: word_less_nat_alt)
  moreover have "load_by_number (\<lambda>_. Inr []) n (Some (Dir [])) = []" for n by (simp add: load_by_number_def)
  moreover have "unat (hd_gas_limit (sample_header 0)) < 2 ^ 64" by (simp add: sample_header_def)
  moreover have "\<exists>cache. get_metadata (sample_metadata_env []) (bk_header b) Map.empty = (cache, Inr (sample_metadata []))"
    by (simp add: get_metadata_def st_bind_apply st_seq_apply calc_epoch_def sample_epoch_len sample_query)
  moreover have "is_ok (snd (adapter_exec (sample_on S) 0 pr [] s))" if "cn_trie_db s = m # ms" for pr s
    using sample_exec_run [OF that, of S pr] by auto
  ultimately show ?thesis
    using assms
    by (auto simp: start_ready_def generate_new_crypto_map_def sample_metadata_def is_ok_def intro!: exI [of _ b])
qed

lemma sample_env_latest: "spec_latest_block (sample_env b tx r) V = Inr b' \<Longrightarrow> b' = b"
  by (auto simp: spec_latest_block_def sample_env_def read_val_def split: option.splits)

lemma sample_on_ok: "keys_ok S \<Longrightarrow> node_env_ok (sample_on S) mem_view"
  using mem.kv_adapter_axioms by (simp add: node_env_ok_def evm_reads_only_def sample_exec_env_def)


section \<open>Restarting after a synchronization\<close>

lemma commit_block_disk:
  assumes "node_env_ok E view" and "commit_block E rb p agent s = (s', Inr agent')"
    and "codec_rt (se_proof (ce_store E)) (hd_proof (bk_header (rb_block rb)))" and "codec_rt (se_block (ce_store E)) (rb_block rb)"
  shows "on_disk E view (is_db (nd_storage s')) (rb_block rb) (hd_proof (bk_header (rb_block rb)))"
    and "cs_proof agent' = p" and "stands_at E (rb_block rb) agent'"
proof -
  let ?b = "rb_block rb" and ?h = "bk_header (rb_block rb)"
  obtain resp s1 s2 receipts s3 metadata where root: "er_state_root resp = hd_state_root ?h"
    and save: "save_chain_data E (rb_txs rb) receipts ?b s1 = (s2, Inr ())"
    and flush: "flush_mempool E (bk_tx_hashes ?b) s2 = (s', Inr ())" and agent: "agent' = synced_status E ?b resp p metadata"
    using assms(2) by (fastforce simp: commit_block_def Let_def st_bind_ok st_seq_ok split: if_splits prod.splits)
  obtain s3 s4 where p: "save_proof E (hd_proof ?h) s3 = (s4, Inr ())" and b: "save_block E ?b s4 = (s2, Inr ())"
    using save by (auto simp: save_chain_data_def st_seq_ok)
  have "node_blocks view s' = node_blocks view s2" by (rule keepsD [OF node_frames(5) [OF assms(1)] flush])
  then show "on_disk E view (is_db (nd_storage s')) ?b (hd_proof ?h)"
    using save_proof_column [OF assms(1,3) p] save_block_column [OF assms(1,4) b] by (simp add: on_disk_column)
  show "cs_proof agent' = p" "stands_at E ?b agent'" by (simp_all add: agent synced_status_def stands_at_def root)
qed

lemma stale_proof_refused:
  assumes "unat (pf_number (cs_proof (cn_status s))) + 1 = unat n" and "unat n < 2 ^ 64 - 1"
  shows "\<not> is_ok (snd (engine_get_block E now (n + 1) s))"
proof -
  have "n \<noteq> pf_number (cs_proof (cn_status s))" using assms(1) by auto
  then have "n + 1 \<noteq> pf_number (cs_proof (cn_status s)) + 1" by simp
  then have bad: "proof_follows (n + 1) (cs_proof (cn_status s)) \<noteq> Inr ()"
    by (auto simp: proof_follows_def res_bind_eq_Inr checked_add_def ok_or_def split: if_splits)
  show ?thesis
  proof
    assume "is_ok (snd (engine_get_block E now (n + 1) s))"
    then obtain s' v where "engine_get_block E now (n + 1) s = (s', Inr v)"
      by (cases "engine_get_block E now (n + 1) s") (auto simp: is_ok_def split: sum.splits)
    then have "proof_follows (n + 1) (cs_proof (cn_status s)) = Inr ()"
      by (auto simp: engine_get_block_def make_proposal_def Let_def st_bind_ok)
    with bad show False by simp
  qed
qed



section \<open>Restarting at the genesis block\<close>

lemma create_genesis_again:
  assumes "kv_adapter (ce_adapter E) view" and "spec_latest_block (ce_store E) (view (dk_db k)) = Inr b"
  shows "\<exists>k'. create_genesis E genesis k = (k', Inr 0) \<and> view (dk_db k') = view (dk_db k) \<and>
    dk_trie k' = dk_trie k \<and> dk_txs_wal k' = dk_txs_wal k"
proof -
  have "transparent (ce_store E) view (get_latest_block (ce_adapter E) (ce_store E)) (spec_latest_block (ce_store E)) (storage_new (dk_db k))"
    by (rule kv_adapter.get_latest_block_transparent [OF assms(1) coherent_new])
  then show ?thesis using assms(2) by (auto simp: transparent_def create_genesis_def storage_new_def)
qed

lemma save_genesis_disk:
  assumes "kv_adapter (ce_adapter E) view" and "codec_rt (se_block (ce_store E)) (rb_block genesis)"
    and "save_genesis E genesis st = (st', Inr ())"
  shows "spec_latest_block (ce_store E) (view (is_db st')) = Inr (rb_block genesis)"
    and "keys_ok (ce_store E) \<Longrightarrow> block_rt (ce_store E) (rb_block genesis) \<Longrightarrow>
      codec_rt (se_proof (ce_store E)) (hd_proof (bk_header (rb_block genesis))) \<Longrightarrow>
      spec_latest_proof (ce_store E) (view (is_db st')) = Inr (hd_proof (bk_header (rb_block genesis)))"
proof -
  let ?A = "ce_adapter E" and ?S = "ce_store E" and ?b = "rb_block genesis"
  let ?key = "se_hash_key ?S (se_latest_proof_key ?S)" and ?p = "hd_proof (bk_header ?b)"
  obtain st1 st2 where upd: "update_latest_proof ?A ?S ?p st = (st1, Inr ())"
    and ins: "storage_insert_block ?A ?S ?b st1 = (st2, Inr ())"
    and txs: "insert_transactions ?A ?S (hd_number (bk_header ?b)) (rb_txs genesis) st2 = (st', Inr ())"
    using assms(3) by (auto simp: save_genesis_def Let_def st_seq_ok)
  have v2: "view (is_db st2) = with_latest ?S ?b (with_block ?S ?b (view (is_db st1)))"
    using kv_adapter.insert_block_view [OF assms(1), of ?S ?b st1] ins by auto
  have v': "view (is_db st') CatBlock = view (is_db st2) CatBlock"
    using keepsD [OF kv_adapter.column_storage(2) [OF assms(1)] txs] by (simp add: stored_blocks_def)
  show "spec_latest_block ?S (view (is_db st')) = Inr ?b"
    using v2 v' assms(2) by (simp add: spec_latest_block_def codec_rt_def read_val_def with_latest_def)
  assume ok: "keys_ok ?S" "block_rt ?S ?b" "codec_rt (se_proof ?S) ?p"
  obtain d where "schema_insert ?A CatBlock ?key (fst (se_proof ?S) ?p) st = (st\<lparr>is_db := d\<rparr>, Inr ())"
    "view d = (view (is_db st))(CatBlock := (view (is_db st) CatBlock)(?key \<mapsto> fst (se_proof ?S) ?p))"
    by (rule kv_adapter.schema_insert_view [OF assms(1)])
  then have "spec_latest_proof ?S (view (is_db st1)) = Inr ?p"
    using upd ok(3) by (auto simp: update_latest_proof_def st_seq_apply spec_latest_proof_def codec_rt_def read_val_def)
  moreover have "spec_latest_proof ?S (view (is_db st')) = spec_latest_proof ?S (view (is_db st2))"
    by (simp add: spec_latest_proof_def v')
  ultimately show "spec_latest_proof ?S (view (is_db st')) = Inr ?p" using spec_with_block(5) [OF ok(1,2)] v2 by simp
qed

lemma create_genesis_disk:
  assumes "kv_adapter (ce_adapter E) view" and "codec_rt (se_block (ce_store E)) (rb_block genesis)"
    and "spec_latest_block (ce_store E) (view (dk_db k)) = Inl GetNone" and "create_genesis E genesis k = (k', Inr root)"
  shows "spec_latest_block (ce_store E) (view (dk_db k')) = Inr (rb_block genesis)"
    and "keys_ok (ce_store E) \<Longrightarrow> block_rt (ce_store E) (rb_block genesis) \<Longrightarrow>
      codec_rt (se_proof (ce_store E)) (hd_proof (bk_header (rb_block genesis))) \<Longrightarrow>
      on_disk E view (dk_db k') (rb_block genesis) (hd_proof (bk_header (rb_block genesis)))"
proof -
  have "transparent (ce_store E) view (get_latest_block (ce_adapter E) (ce_store E)) (spec_latest_block (ce_store E)) (storage_new (dk_db k))"
    by (rule kv_adapter.get_latest_block_transparent [OF assms(1) coherent_new])
  then obtain st where "get_latest_block (ce_adapter E) (ce_store E) (storage_new (dk_db k)) = (st, Inl GetNone)"
    using assms(3) by (auto simp: transparent_def storage_new_def)
  then obtain st1 st2 db where save: "save_genesis E genesis st1 = (st2, Inr ())" and k': "k' = k\<lparr>dk_db := is_db st2, dk_trie := db\<rparr>"
    using assms(4) by (auto simp: create_genesis_def mentions_get_none_def res_bind_eq_Inr map_err_def split: prod.splits sum.splits)
  show "spec_latest_block (ce_store E) (view (dk_db k')) = Inr (rb_block genesis)"
    using save_genesis_disk(1) [OF assms(1,2) save] by (simp add: k')
  show "keys_ok (ce_store E) \<Longrightarrow> block_rt (ce_store E) (rb_block genesis) \<Longrightarrow>
      codec_rt (se_proof (ce_store E)) (hd_proof (bk_header (rb_block genesis))) \<Longrightarrow>
      on_disk E view (dk_db k') (rb_block genesis) (hd_proof (bk_header (rb_block genesis)))"
    using save_genesis_disk [OF assms(1,2) save] by (simp add: k' on_disk_def)
qed

text \<open>
  Property C34. A node that creates the genesis block starts at the state root of its execution. If it
  stops before it has committed a block and starts again, the block is found and not executed
  again, and the node starts at the default state root, whatever the state of the genesis is.
\<close>

theorem restart_at_genesis_loses_root:
  assumes "node_env_ok E view" and "codec_rt (se_block (ce_store E)) (rb_block genesis)" and "hd_number (bk_header (rb_block genesis)) = 0"
    and "spec_latest_block (ce_store E) (view (dk_db k)) = Inl GetNone"
    and "run_node E genesis cap now k = Inr (s, Inr ov)" and "run_node E genesis cap now' (disk_of s) = Inr (s', Inr ov')"
  shows "(\<exists>k'. create_genesis E genesis k = (k', Inr (cs_last_state_root (cn_status s)))) \<and>
    nd_state_root s = cs_last_state_root (cn_status s) \<and> cs_last_number (cn_status s) = 0 \<and>
    cs_last_state_root (cn_status s') = 0 \<and> nd_state_root s' = 0 \<and> cs_last_number (cn_status s') = 0"
proof -
  have kv: "kv_adapter (ce_adapter E) view" using assms(1) by (simp add: node_env_ok_def)
  obtain k1 root where c: "create_genesis E genesis k = (k1, Inr root)"
    and run: "start_node E (bk_header (rb_block genesis)) cap now root k1 = (s, Inr ov)"
    using assms(5) by (auto simp: run_node_def split: prod.splits sum.splits)
  note first = start_at_genesis [OF assms(1) create_genesis_disk(1) [OF kv assms(2,4) c] run assms(3)]
  obtain k2 where c2: "create_genesis E genesis (disk_of s) = (k2, Inr 0)" "view (dk_db k2) = view (dk_db (disk_of s))"
    using create_genesis_again [OF kv first(4)] by blast
  then have run2: "start_node E (bk_header (rb_block genesis)) cap now' 0 k2 = (s', Inr ov')" using assms(6) by (simp add: run_node_def)
  have "spec_latest_block (ce_store E) (view (dk_db k2)) = Inr (rb_block genesis)" using c2(2) first(4) by simp
  from start_at_genesis [OF assms(1) this run2 assms(3)] first c show ?thesis by auto
qed

text \<open>An empty disk, on which the genesis has the state root 1.\<close>

definition empty_disk :: "(mem_db, (bytes \<rightharpoonup> bytes) list) disk" where
  "empty_disk = \<lparr>dk_db = mem_new, dk_trie = [Map.empty], dk_txs_wal = Some (Dir []), dk_consensus_wal = None\<rparr>"

definition genesis_store :: storage_env where
  "genesis_store = sample_env (sample_block 0 []) (sample_stx 1 2 3 4) sample_rc"

definition sample_genesis :: rich_block where
  "sample_genesis = \<lparr>rb_block = sample_block 0 [], rb_txs = []\<rparr>"

lemma sample_genesis_run:
  "\<exists>k m. create_genesis (sample_on genesis_store) sample_genesis empty_disk = (k, Inr 1) \<and>
     dk_trie k = [Map.empty, m] \<and> dk_txs_wal k = Some (Dir [])"
proof -
  let ?E = "sample_on genesis_store"
  have "from_be_bytes (nat_to_be 32 1) = (1 :: hash)" by (simp add: from_be_bytes_def be_nat_nat_to_be)
  moreover have "be_nat (to_be_bytes 32 (1 :: hash)) = 1" by (simp add: to_be_bytes_def be_nat_nat_to_be)
  ultimately have ex: "\<exists>m resp. exec_genesis ?E sample_genesis [Map.empty] st = (([Map.empty, m], st), Inr resp) \<and> er_state_root resp = 1" for st
    by (simp add: exec_genesis_def Let_def mpt_insert_def mpt_commit_def mpt_new_def sample_trie_lib_def sample_exec_env_def
        backend_from_root_def mpt_from_root_def sample_genesis_def exec_block_def st_bind_apply state_root_def)
  have "succeeds (\<lambda>_. True) (save_genesis ?E sample_genesis) (\<lambda>_ _. True)"
    unfolding save_genesis_def Let_def update_latest_proof_def storage_insert_block_def set_latest_block_def storage_set_block_def
      insert_transactions_def batch_insert_stxs_def
    by (simp add: sample_mempool_env_def) (auto intro!: succeeds_seq memory_succeeds succeeds_modify)
  then have save: "\<exists>st'. save_genesis ?E sample_genesis st = (st', Inr ())" for st by (auto simp: succeeds_def)
  obtain st where "get_latest_block (memory_adapter id) genesis_store (storage_new mem_new) = (st, Inl GetNone)"
    by (auto simp: get_latest_block_def storage_new_def ensure_get_def schema_get_def memory_adapter_def mem_get_def mem_new_def mem_entry_def
        st_bind_apply)
  moreover obtain m resp where "exec_genesis ?E sample_genesis [Map.empty] st = (([Map.empty, m], st), Inr resp)" "er_state_root resp = 1"
    using ex by blast
  moreover obtain st' where "save_genesis ?E sample_genesis st = (st', Inr ())" using save by blast
  ultimately show ?thesis by (simp add: create_genesis_def empty_disk_def mentions_get_none_def)
qed

theorem restart_at_genesis_loses_root_witness:
  "\<exists>s ov s' ov'. run_node (sample_on genesis_store) sample_genesis 10 1 empty_disk = Inr (s, Inr ov) \<and>
     run_node (sample_on genesis_store) sample_genesis 10 2 (disk_of s) = Inr (s', Inr ov') \<and>
     cs_last_state_root (cn_status s) = 1 \<and> cs_last_state_root (cn_status s') = 0"
proof -
  let ?E = "sample_on genesis_store" and ?b = "sample_block 0 []"
  have keys: "keys_ok genesis_store" and rt: "block_rt genesis_store ?b" "codec_rt (se_block genesis_store) ?b"
    "codec_rt (se_proof genesis_store) (hd_proof (bk_header ?b))"
    using sample_env_ok [of ?b] by (simp_all add: genesis_store_def codec_rt_def sample_env_def)
  have env: "node_env_ok ?E mem_view" by (rule sample_on_ok [OF keys])
  have kv: "kv_adapter (ce_adapter ?E) mem_view" using env by (simp add: node_env_ok_def)
  have none: "spec_latest_block (ce_store ?E) (mem_view (dk_db empty_disk)) = Inl GetNone"
    by (simp add: spec_latest_block_def empty_disk_def mem_view_def mem_new_def mem_entry_def read_val_def)
  obtain k m where c: "create_genesis ?E sample_genesis empty_disk = (k, Inr 1)" and k: "dk_trie k = [Map.empty, m]" "dk_txs_wal k = Some (Dir [])"
    using sample_genesis_run by blast
  have disk: "on_disk ?E mem_view (dk_db k) ?b (hd_proof (bk_header ?b))"
    using create_genesis_disk(2) [OF kv _ none c] keys rt by (simp add: sample_genesis_def)
  then have b: "spec_latest_block (ce_store ?E) (mem_view (dk_db k)) = Inr ?b" by (simp add: on_disk_def)
  have ready: "start_ready ?E mem_view (sample_header 0) k"
    by (rule restart_ready [of _ _ ?b]) (use b k in \<open>simp_all add: sample_header_def sample_mempool_env_def\<close>)
  obtain s ov where run: "start_node ?E (sample_header 0) 10 1 1 k = (s, Inr ov)" using start_succeeds [OF env disk ready] by blast
  note first = start_at_genesis [OF env b run]
  obtain k2 where c2: "create_genesis ?E sample_genesis (disk_of s) = (k2, Inr 0)" and v2: "mem_view (dk_db k2) = mem_view (dk_db (disk_of s))"
    and k2: "dk_trie k2 = [Map.empty, m]" "dk_txs_wal k2 = Some (Dir [])"
    using create_genesis_again [OF kv first(4), of sample_genesis] first(6,7) k by auto
  have disk2: "on_disk ?E mem_view (dk_db k2) ?b (hd_proof (bk_header ?b))"
    using first(5) [OF _ disk] v2 by (simp add: on_disk_def)
  then have b2: "spec_latest_block genesis_store (mem_view (dk_db k2)) = Inr ?b" by (simp add: on_disk_def)
  have "start_ready ?E mem_view (sample_header 0) k2"
    by (rule restart_ready [OF b2]) (use k2 in \<open>simp_all add: sample_header_def\<close>)
  then obtain s' ov' where run2: "start_node ?E (sample_header 0) 10 2 0 k2 = (s', Inr ov')" using start_succeeds [OF env disk2] by blast
  have r: "run_node ?E sample_genesis 10 1 empty_disk = Inr (s, Inr ov)" "run_node ?E sample_genesis 10 2 (disk_of s) = Inr (s', Inr ov')"
    using c run c2 run2 by (simp_all add: run_node_def sample_genesis_def)
  have "codec_rt (se_block (ce_store ?E)) (rb_block sample_genesis)" "hd_number (bk_header (rb_block sample_genesis)) = 0"
    using rt by (simp_all add: sample_genesis_def)
  from restart_at_genesis_loses_root [OF env this none r] r c show ?thesis by auto
qed

end
