(* ===== verification/Spec2Isabelle.thy ===== *)
theory Spec2Isabelle
  imports Trie_Db Net_Node Api_Subscription Cross_Client Node_Start
begin

text \<open>
  This development verifies the node software of the repository, a proof-of-stake
  sidechain node written in Rust (sources under \<open>src/\<close>).

  \<^bold>\<open>The program and its parts.\<close>
  Transactions enter through the network or the API into the \<^emph>\<open>mempool\<close>
  (\<open>core/mempool\<close>), which checks them against the state of the executor and keeps them in
  a \<^emph>\<open>priority pool\<close>. The \<^emph>\<open>consensus engine\<close> (\<open>core/consensus/src/engine.rs\<close>) packages them
  into proposals, checks the proposals of others and commits what the Overlord protocol
  has decided; a node that is behind adopts finished blocks by \<^emph>\<open>synchronization\<close>
  (\<open>synchronization.rs\<close>). Both reach everything else through one \<^emph>\<open>adapter\<close> (\<open>adapter.rs\<close>),
  which also checks the proofs of blocks against the validators of the \<^emph>\<open>metadata
  contract\<close> (\<open>core/metadata\<close>). The \<^emph>\<open>executor\<close> (\<open>core/executor\<close>) runs the transactions of a
  block on the state trie, with the \<^emph>\<open>precompiled contracts\<close> and the native-token script.
  Blocks, transactions, receipts and proofs go to the \<^emph>\<open>storage\<close> (\<open>core/storage\<close>), which
  caches in front of an in-memory or a RocksDB \<^emph>\<open>adapter\<close>; the two \<^emph>\<open>write-ahead logs\<close>
  (\<open>wal.rs\<close>) survive a crash between proposal and commit. The \<^emph>\<open>network\<close> (\<open>core/network\<close>)
  keeps a store of peers, decides whom to dial and whom to admit, speaks its own protocols
  with them and routes messages and remote calls to the handlers of the other parts. Clients
  read the chain and send transactions through the \<^emph>\<open>JSON-RPC interface\<close> (\<open>core/api\<close>), by calls,
  polled filters and subscriptions. The \<^emph>\<open>cross-chain client\<close> (\<open>core/cross-client\<close>) follows a CKB
  chain, turns deposits into transactions and reports burns and checkpoints back. At \<^emph>\<open>start-up\<close>
  (\<open>core/run\<close>) a node creates its genesis block or recovers its status from the disk. All data crosses the network and the disk through the RLP
  \<^emph>\<open>codecs\<close> of \<open>protocol/src/codec\<close>.

  \<^bold>\<open>How the program is modelled.\<close>
  Structs are records with prefixed fields, enums are datatypes, unsigned integers, hashes
  and addresses are words of their width, byte strings are lists of 8-bit words. An
  operation that may fail returns \<open>'e + 'a\<close>; an operation that changes its receiver is a
  state transformer \<open>('s, 'e, 'a) st\<close> that keeps the changes made before an error. The
  workspace is built with overflow checks, so arithmetic that overflows is a panic, and so
  are \<open>unwrap\<close>, \<open>expect\<close>, \<open>unreachable!\<close> and slice indices: each error type has a
  constructor for it, and no operation continues after it. Iteration orders of hash maps,
  clock readings, random draws and what other tasks do at an await point are arguments.
  Code that is not under \<open>src/\<close> (Keccak, secp256k1 and BLS, the Overlord library, RocksDB,
  the EVM interpreter, the trie library, the \<open>rlp\<close> crate's primitive encodings, the LRU
  caches, remote peers) is a field of an environment record; where a theorem relies on it,
  the reliance is a named hypothesis such as \<open>rlp_lib_ok\<close>, \<open>trie_lib_ok\<close>, \<open>rocks_ok\<close>,
  \<open>lru_ok\<close> or \<open>extract_voters_ok\<close>, and a witness instantiates it.

  \<^bold>\<open>The theories.\<close>
  \<^item> \<open>Prelude\<close>: results, state transformers, the frame predicate \<open>keeps\<close> and the total
    correctness predicate \<open>succeeds\<close>, checked and saturating arithmetic, big-endian byte
    strings, ordered maps, decimal numbers.
  \<^item> \<open>Protocol_Types\<close>: the types of \<open>protocol/src/types\<close> and their conversions.
  \<^item> \<open>Pool\<close>: \<open>core/mempool/src/pool.rs\<close> and \<open>tx_wrapper.rs\<close>. The well-formedness of every
    reachable pool, what \<open>insert\<close>, \<open>package\<close> and \<open>flush\<close> do exactly, and a loss of
    resubmitted transactions.
  \<^item> \<open>Mempool\<close>: the service and its adapter (\<open>core/mempool/src/lib.rs\<close>, \<open>adapter/\<close>): which
    transactions are accepted, fetched, flushed and broadcast, and that pulled
    transactions are not verified.
  \<^item> \<open>Wal\<close>: both logs over a model of the directory they own. The signed-transaction log
    refines a map; the engine log survives a torn write, and loops forever on a short file.
  \<^item> \<open>Rlp_Codec\<close>: every codec of \<open>protocol/src/codec\<close> over RLP trees; round trips, and the one
    codec that loses a field.
  \<^item> \<open>Storage_Adapter\<close>, \<open>Storage\<close>: the two key-value adapters and the storage with its caches.
    The locale \<open>kv_adapter\<close> is the contract of an adapter; both adapters interpret it, and
    the storage is proved transparent over any adapter that does.
  \<^item> \<open>Metadata_Control\<close>: the metadata cache in front of the metadata contract.
  \<^item> \<open>Precompiles\<close>, \<open>Trie_Db\<close>, \<open>Executor\<close>: the nine precompiled contracts, the cached node
    store, and the executor with its backend; writing accounts refines an abstract map of
    accounts and storages.
  \<^item> \<open>Consensus_Adapter\<close>: the errors, the status, the BLS wrapper and the adapter; the record
    \<open>chain_node\<close> is the state of a whole node. The locale \<open>weighted_quorum\<close> carries the
    quorum argument and is interpreted on the weight map of the proof check.
  \<^item> \<open>Engine\<close>: proposing, checking and committing blocks.
  \<^item> \<open>Synchronization\<close>: the synchronization, the message handlers and the RPC codec.
  \<^item> \<open>Addr_Manager\<close>, \<open>Peer_Store\<close>: the known addresses, the ban list, the peer store and its file
    (\<open>core/network/src/peer_manager/peer_store\<close>). The three indexes of the address manager
    refine one map as long as no socket changes hands.
  \<^item> \<open>Net_Message\<close>: end points, headers, the network message and its compression.
  \<^item> \<open>Peer_Manager\<close>: the registry of sessions, the peer manager and the network service loop
    (\<open>peer_manager/mod.rs\<close>, \<open>registry.rs\<close>, \<open>service.rs\<close>): which sessions are admitted and how
    many addresses a round dials.
  \<^item> \<open>Net_Discovery\<close>, \<open>Net_Protocols\<close>: discovery over the contract \<open>address_manager\<close>, which the
    peer manager interprets, and the identify, ping, feeler and transmitter protocols.
  \<^item> \<open>Net_Router\<close>: the router, the reactor, gossip and remote calls, with their round trip.
  \<^item> \<open>Net_Node\<close>: the network side of a node as a transition system over all of these, and the
    invariant of its reachable states.
  \<^item> \<open>Web3_Types\<close>: the views of chain data that clients see, and the hand-written
    (de)serialization of block identifiers, indexes and addresses (\<open>web3_types.rs\<close>).
  \<^item> \<open>Api_Adapter\<close>, \<open>Json_Rpc\<close>: the interface to the node (\<open>adapter.rs\<close>) and every handler of
    \<open>impl.rs\<close>. The locale \<open>chain_reader\<close> is what the handlers rely on: each read answers from
    one view of the chain and leaves it alone. The default adapter interprets it over the
    transparent storage, and what the handlers, filters and subscriptions answer is proved in it.
  \<^item> \<open>Api_Filter\<close>, \<open>Api_Subscription\<close>: the task behind the polled filters (\<open>filter.rs\<close>) and the task
    that serves the subscribers (\<open>ws_subscription.rs\<close>), each over a node that changes between
    its steps.
  \<^item> \<open>Cross_Client\<close>: the task of the cross-chain client with its channel, its timer and its number
    file over its restarts, and the signing of CKB transactions (\<open>protocol/src/types/ckb_client.rs\<close>).
    It skips no block; one that cannot be fetched stops it for good.
  \<^item> \<open>Node_Start\<close>: \<open>create_genesis\<close> and the recovery of the status in \<open>start\<close>. A restart after a
    commit resumes where the node stood; after a synchronized block and at the genesis it does not.

  \<^bold>\<open>What the theorems show.\<close>
  Each property is a theorem right after a text that names it (C1, C2, and so on). Across
  the components they say that a block is only accepted with a proof of more than two
  thirds of the weight, so that two accepted blocks of one height share a correct
  validator; that commit and synchronization move the status only to checked and stored
  blocks; that what was stored is read back, through every cache and codec; that the state
  after execution is the one the abstract maps prescribe; and that the pool hands out only
  live transactions with distinct nonces; and that the tables of the network agree with each
  other whatever peers send, so that calls are answered by whom they were made to; and that
  what clients see of logs and blocks is what the chain holds, once and in order; and that a
  restart resumes at the last commit, and the cross-chain client at a block below which it has
  searched every one. The properties of kind \<^emph>\<open>error\<close> state behaviour
  that the code has and should not have; each is a finding of the manifest.

  \<^bold>\<open>Bounds and termination.\<close>
  No model uses fuel. Loops over lists are structural; the synchronization loop ends
  because the distance to the target shrinks, and its target is at most fifty blocks away;
  the two loops of the engine log and the retry loop of the cross-chain client, which may not
  end, are \<open>partial_function (option)\<close> with theorems on when they do and do not. The weight check is exact for up to \<open>2 ^ 29\<close> validators.

  \<^bold>\<open>What is not modelled.\<close>
  The tentacle library below the network service with the generated wire encodings, the HTTP and
  web-socket servers below the JSON-RPC handlers, the HTTP client of the CKB node, the CKB-VM of the
  interoperation, the construction of the services at start-up, the command line,
  configuration, logging and monitoring. They are transport, presentation and wiring around the parts above, and
  most of their lines call libraries that are not under \<open>src/\<close>. Metrics, tracing spans and log lines
  inside the modelled functions are left out. Concurrency is modelled where the code
  depends on it: the locks of engine and synchronization, the interleaving at the sleep of
  \<open>need_sync\<close>, the order of spawned tasks; each operation is otherwise atomic.
\<close>

end
